(* ===== verification/Js_Prelude.thy ===== *)
theory Js_Prelude
  imports Main "HOL-Library.Word"
begin

text \<open>
  The part of the JavaScript language and of its standard library that the modelled sources use,
  and the generic lemmas every component shares.

  A JavaScript string is a sequence of UTF-16 code units: \<open>jsstring\<close> is a list of integers, one
  per code unit, and \<open>js ''abc''\<close> is the literal \<open>'abc'\<close>. The functions below
  (\<open>slice\<close>, \<open>splice\<close>, \<open>split\<close>, \<open>trim\<close>, \<open>parseInt\<close>, \<open>lastIndexOf\<close>, \<open>indexOf\<close>, \<open>at\<close>) follow the
  ECMAScript definitions, negative indices included. Numbers are exact integers: the model agrees
  with the doubles of the source up to \<open>2 ^ 53\<close> in absolute value. \<open>NaN\<close> is \<open>None\<close> where the source
  can produce it. A thrown exception is the left value of \<open>js_error + 'a\<close>.
\<close>

section \<open>Collections of facts\<close>

named_theorems js_simps \<open>unfolding rules of the modelled standard library\<close>

section \<open>Code units, strings and errors\<close>

type_synonym jschar = int

type_synonym jsstring = "int list"

datatype js_error = TypeError | RangeError | URIError | BugIndicatingError | Error

type_synonym 'a result = "js_error + 'a"

definition bind_result :: "'a result \<Rightarrow> ('a \<Rightarrow> 'b result) \<Rightarrow> 'b result" where
  "bind_result r f = (case r of Inl e \<Rightarrow> Inl e | Inr x \<Rightarrow> f x)"

abbreviation js :: "string \<Rightarrow> jsstring" where
  "js s \<equiv> map of_char s"

abbreviation ch :: "char \<Rightarrow> jschar" where
  "ch c \<equiv> of_char c"

text \<open>Line feed, carriage return, the escape character, the 8-bit CSI, OSC and ST, BEL and blank.\<close>

abbreviation (input) LF :: jschar where "LF \<equiv> 10"

abbreviation (input) CR :: jschar where "CR \<equiv> 13"

abbreviation (input) ESC :: jschar where "ESC \<equiv> 27"

abbreviation (input) CSI :: jschar where "CSI \<equiv> 155"

abbreviation (input) OSC :: jschar where "OSC \<equiv> 157"

abbreviation (input) ST :: jschar where "ST \<equiv> 156"

abbreviation (input) BEL :: jschar where "BEL \<equiv> 7"

abbreviation (input) SPACE :: jschar where "SPACE \<equiv> 32"

definition is_digit :: "jschar \<Rightarrow> bool" where
  "is_digit c \<longleftrightarrow> 48 \<le> c \<and> c \<le> 57"

definition is_letter :: "jschar \<Rightarrow> bool" where
  "is_letter c \<longleftrightarrow> 65 \<le> c \<and> c \<le> 90 \<or> 97 \<le> c \<and> c \<le> 122"

text \<open>The line terminators a regular expression's dot does not match.\<close>

definition is_line_terminator :: "jschar \<Rightarrow> bool" where
  "is_line_terminator c \<longleftrightarrow> c = 10 \<or> c = 13 \<or> c = 8232 \<or> c = 8233"

text \<open>White space and line terminators, as \<open>trim\<close> and \<open>parseInt\<close> skip them.\<close>

definition is_white :: "jschar \<Rightarrow> bool" where
  "is_white c \<longleftrightarrow> 9 \<le> c \<and> c \<le> 13 \<or> c = 32 \<or> c = 160 \<or> c = 5760 \<or> 8192 \<le> c \<and> c \<le> 8202 \<or>
     c = 8232 \<or> c = 8233 \<or> c = 8239 \<or> c = 8287 \<or> c = 12288 \<or> c = 65279"

section \<open>Strings and arrays\<close>

text \<open>The relative index of \<open>slice\<close> and \<open>splice\<close>: negative counts from the end, clamped.\<close>

definition rel_index :: "int \<Rightarrow> int \<Rightarrow> int" where
  "rel_index n i = (if i < 0 then max (n + i) 0 else min i n)"

definition js_slice :: "'a list \<Rightarrow> int \<Rightarrow> int \<Rightarrow> 'a list" where
  "js_slice xs start stop =
     (let n = int (length xs); a = rel_index n start; b = rel_index n stop
      in take (nat (b - a)) (drop (nat a) xs))"

definition js_slice_from :: "'a list \<Rightarrow> int \<Rightarrow> 'a list" where
  "js_slice_from xs start = js_slice xs start (int (length xs))"

definition js_splice :: "'a list \<Rightarrow> int \<Rightarrow> int \<Rightarrow> 'a list \<Rightarrow> 'a list" where
  "js_splice xs start deleteCount items =
     (let n = int (length xs); a = rel_index n start; k = min (max deleteCount 0) (n - a)
      in take (nat a) xs @ items @ drop (nat (a + k)) xs)"

text \<open>\<open>substring\<close>: both arguments are clamped into the string, and exchanged when they are in the wrong order.\<close>

definition js_substring :: "'a list \<Rightarrow> int \<Rightarrow> int \<Rightarrow> 'a list" where
  "js_substring xs start stop =
     (let n = int (length xs); a = max 0 (min start n); b = max 0 (min stop n)
      in take (nat (max a b - min a b)) (drop (nat (min a b)) xs))"

definition js_substring_from :: "'a list \<Rightarrow> int \<Rightarrow> 'a list" where
  "js_substring_from xs start = js_substring xs start (int (length xs))"

text \<open>\<open>' '.repeat(n)\<close>, for the non-negative counts the sources pass.\<close>

definition blanks :: "int \<Rightarrow> jsstring" where
  "blanks n = replicate (nat n) 32"

fun js_split :: "jschar \<Rightarrow> jsstring \<Rightarrow> jsstring list" where
  "js_split sep [] = [[]]"
| "js_split sep (c # cs) =
     (if c = sep then [] # js_split sep cs
      else case js_split sep cs of [] \<Rightarrow> [[c]] | x # xs \<Rightarrow> (c # x) # xs)"

definition js_trim :: "jsstring \<Rightarrow> jsstring" where
  "js_trim s = rev (dropWhile is_white (rev (dropWhile is_white s)))"

text \<open>\<open>startsWith\<close>, \<open>replaceAll\<close> of a character by a string, and \<open>join\<close>.\<close>

definition js_starts_with :: "jsstring \<Rightarrow> jsstring \<Rightarrow> bool" where
  "js_starts_with s p \<longleftrightarrow> take (length p) s = p"

definition js_replace_all :: "jschar \<Rightarrow> jsstring \<Rightarrow> jsstring \<Rightarrow> jsstring" where
  "js_replace_all c r s = concat (map (\<lambda>x. if x = c then r else [x]) s)"

fun js_join :: "jsstring \<Rightarrow> jsstring list \<Rightarrow> jsstring" where
  "js_join sep [] = []"
| "js_join sep [x] = x"
| "js_join sep (x # y # ys) = x @ sep @ js_join sep (y # ys)"

text \<open>\<open>indexOf\<close> and \<open>lastIndexOf\<close>: \<open>-1\<close> when the element does not occur.\<close>

fun index_of :: "'a list \<Rightarrow> 'a \<Rightarrow> int" where
  "index_of [] y = -1"
| "index_of (x # xs) y =
     (if x = y then 0 else let i = index_of xs y in if i < 0 then -1 else i + 1)"

definition last_index_of :: "'a list \<Rightarrow> 'a \<Rightarrow> int" where
  "last_index_of xs y =
     (let i = index_of (rev xs) y in if i < 0 then -1 else int (length xs) - 1 - i)"

text \<open>\<open>Array.prototype.at\<close> and plain indexing: \<open>None\<close> is \<open>undefined\<close>.\<close>

definition js_get :: "'a list \<Rightarrow> int \<Rightarrow> 'a option" where
  "js_get xs i = (if 0 \<le> i \<and> i < int (length xs) then Some (xs ! nat i) else None)"

definition js_at :: "'a list \<Rightarrow> int \<Rightarrow> 'a option" where
  "js_at xs i = js_get xs (if i < 0 then int (length xs) + i else i)"

section \<open>Numbers\<close>

fun digits_value :: "int \<Rightarrow> jsstring \<Rightarrow> int" where
  "digits_value acc [] = acc"
| "digits_value acc (c # cs) = digits_value (10 * acc + (c - 48)) cs"

text \<open>\<open>parseInt(s, 10)\<close>: leading white space, a sign, the longest digit prefix; \<open>None\<close> is \<open>NaN\<close>.\<close>

definition parse_int :: "jsstring \<Rightarrow> int option" where
  "parse_int s =
     (let t = dropWhile is_white s;
          neg = (t \<noteq> [] \<and> hd t = 45);
          u = (if t \<noteq> [] \<and> (hd t = 43 \<or> hd t = 45) then tl t else t);
          ds = takeWhile is_digit u
      in if ds = [] then None
         else Some (if neg then - digits_value 0 ds else digits_value 0 ds))"

text \<open>\<open>x | 0\<close>: the conversion to a signed 32-bit integer.\<close>

definition to_int32 :: "int \<Rightarrow> int" where
  "to_int32 x = signed_take_bit 31 x"

text \<open>\<open>Number.prototype.toString(16)\<close> on a non-negative integer.\<close>

definition hex_digit :: "nat \<Rightarrow> jschar" where
  "hex_digit d = (if d < 10 then 48 + int d else 87 + int d)"

fun hex_string :: "nat \<Rightarrow> jsstring" where
  "hex_string n = (if n < 16 then [hex_digit n] else hex_string (n div 16) @ [hex_digit (n mod 16)])"

declare hex_string.simps [simp del]

text \<open>The decimal representation of an integer, as string concatenation produces it.\<close>

fun nat_string :: "nat \<Rightarrow> jsstring" where
  "nat_string n = (if n < 10 then [48 + int n] else nat_string (n div 10) @ [48 + int (n mod 10)])"

declare nat_string.simps [simp del]

definition int_string :: "int \<Rightarrow> jsstring" where
  "int_string i = (if i < 0 then 45 # nat_string (nat (- i)) else nat_string (nat i))"

section \<open>Lemmas on results\<close>

lemma bind_result_simps [simp]:
  "bind_result (Inl e) f = Inl e"
  "bind_result (Inr x) f = f x"
  by (simp_all add: bind_result_def)

lemma bind_result_Inr_iff:
  "bind_result r f = Inr y \<longleftrightarrow> (\<exists>x. r = Inr x \<and> f x = Inr y)"
  by (cases r) auto

section \<open>Lemmas on slices\<close>

lemma rel_index_bounds: "0 \<le> n \<Longrightarrow> 0 \<le> rel_index n i \<and> rel_index n i \<le> n"
  by (auto simp: rel_index_def)

lemma js_slice_prefix [js_simps]:
  "0 \<le> k \<Longrightarrow> js_slice xs 0 k = take (nat k) xs"
  by (auto simp: js_slice_def rel_index_def Let_def nat_less_iff min_def)

lemma js_slice_from_nonneg [js_simps]:
  assumes "0 \<le> k"
  shows "js_slice_from xs k = drop (nat k) xs"
proof -
  have "rel_index (int (length xs)) k = min k (int (length xs))"
    using assms by (simp add: rel_index_def)
  moreover have "rel_index (int (length xs)) (int (length xs)) = int (length xs)"
    by (simp add: rel_index_def)
  ultimately show ?thesis
    using assms by (auto simp: js_slice_from_def js_slice_def Let_def min_def nat_diff_distrib)
qed

lemma js_slice_from_neg [js_simps]:
  assumes "0 < k" and "k \<le> int (length xs)"
  shows "js_slice_from xs (- k) = drop (length xs - nat k) xs"
  using assms
  by (auto simp: js_slice_from_def js_slice_def rel_index_def Let_def nat_diff_distrib)

lemma js_substring_in_range [js_simps]:
  "0 \<le> a \<Longrightarrow> a \<le> b \<Longrightarrow> b \<le> int (length xs) \<Longrightarrow> js_substring xs a b = take (nat (b - a)) (drop (nat a) xs)"
  by (simp add: js_substring_def Let_def)

lemma js_substring_from_in_range [js_simps]:
  "0 \<le> a \<Longrightarrow> a \<le> int (length xs) \<Longrightarrow> js_substring_from xs a = drop (nat a) xs"
  by (simp add: js_substring_from_def js_substring_in_range)

lemma js_splice_in_range [js_simps]:
  assumes "0 \<le> a" and "0 \<le> k" and "a + k \<le> int (length xs)"
  shows "js_splice xs a k ys = take (nat a) xs @ ys @ drop (nat a + nat k) xs"
  using assms by (auto simp: js_splice_def rel_index_def Let_def nat_add_distrib min_def)

lemma js_splice_to_end [js_simps]:
  assumes "0 \<le> a" and "a \<le> int (length xs)"
  shows "js_splice xs a (int (length xs) - a) ys = take (nat a) xs @ ys"
  using assms by (auto simp: js_splice_def rel_index_def Let_def)

lemma js_slice_last [js_simps]:
  "js_slice xs 0 (-1) = butlast xs"
proof (cases "xs = []")
  case False
  then have "nat (int (length xs) - 1) = length xs - Suc 0"
    by (cases xs) auto
  with False show ?thesis
    by (auto simp: js_slice_def rel_index_def Let_def butlast_conv_take)
qed (simp add: js_slice_def)

lemma length_blanks [simp]: "length (blanks n) = nat n"
  by (simp add: blanks_def)

lemma blanks_zero [simp]: "n \<le> 0 \<Longrightarrow> blanks n = []"
  by (simp add: blanks_def)

section \<open>Lemmas on searching and indexing\<close>

lemma index_of_bounds: "-1 \<le> index_of xs y \<and> index_of xs y < int (length xs)"
  by (induction xs) (auto simp: Let_def)

lemma index_of_nonneg_iff: "0 \<le> index_of xs y \<longleftrightarrow> y \<in> set xs"
  by (induction xs) (auto simp: Let_def)

lemma index_of_neg_iff: "index_of xs y < 0 \<longleftrightarrow> y \<notin> set xs"
  using index_of_nonneg_iff [of xs y] by linarith

lemma index_of_nth: "y \<in> set xs \<Longrightarrow> xs ! nat (index_of xs y) = y"
  by (induction xs) (auto simp: Let_def nat_add_distrib index_of_neg_iff index_of_nonneg_iff)

lemma index_of_before:
  "y \<in> set xs \<Longrightarrow> i < nat (index_of xs y) \<Longrightarrow> xs ! i \<noteq> y"
proof (induction xs arbitrary: i)
  case (Cons x xs)
  then show ?case
    by (cases i) (auto simp: Let_def nat_add_distrib index_of_neg_iff index_of_nonneg_iff split: if_splits)
qed simp

lemma last_index_of_none: "last_index_of xs y = -1 \<longleftrightarrow> y \<notin> set xs"
  using index_of_bounds [of "rev xs" y] index_of_neg_iff [of "rev xs" y]
  by (auto simp: last_index_of_def Let_def)

lemma last_index_of_bounds:
  "y \<in> set xs \<Longrightarrow> 0 \<le> last_index_of xs y \<and> last_index_of xs y < int (length xs)"
  using index_of_bounds [of "rev xs" y] index_of_nonneg_iff [of "rev xs" y]
  by (auto simp: last_index_of_def Let_def)

lemma last_index_of_nth:
  assumes "y \<in> set xs"
  shows "xs ! nat (last_index_of xs y) = y"
proof -
  have b: "0 \<le> index_of (rev xs) y" "index_of (rev xs) y < int (length xs)"
    using index_of_bounds [of "rev xs" y] index_of_nonneg_iff [of "rev xs" y] assms by auto
  then have "nat (last_index_of xs y) = length xs - Suc (nat (index_of (rev xs) y))"
    by (auto simp: last_index_of_def Let_def)
  with b show ?thesis
    using index_of_nth [of y "rev xs"] assms rev_nth [of "nat (index_of (rev xs) y)" xs]
    by (simp add: nat_less_iff)
qed

lemma last_index_of_after:
  assumes "y \<in> set xs"
  shows "y \<notin> set (drop (Suc (nat (last_index_of xs y))) xs)"
proof
  let ?i = "index_of (rev xs) y"
  have b: "0 \<le> ?i" "?i < int (length xs)"
    using index_of_bounds [of "rev xs" y] index_of_nonneg_iff [of "rev xs" y] assms by auto
  then have l: "Suc (nat (last_index_of xs y)) = length xs - nat ?i"
    by (auto simp: last_index_of_def Let_def)
  assume "y \<in> set (drop (Suc (nat (last_index_of xs y))) xs)"
  then have "y \<in> set (take (nat ?i) (rev xs))"
    using l b by (simp add: take_rev nat_less_iff)
  then obtain j where "j < nat ?i" "rev xs ! j = y"
    by (auto simp: in_set_conv_nth)
  then show False
    using index_of_before [of y "rev xs" j] assms by simp
qed

lemma js_get_Some_iff:
  "js_get xs i = Some x \<longleftrightarrow> 0 \<le> i \<and> i < int (length xs) \<and> xs ! nat i = x"
  by (auto simp: js_get_def)

lemma js_get_in_set: "js_get xs i = Some x \<Longrightarrow> x \<in> set xs"
  by (auto simp: js_get_Some_iff nat_less_iff)

lemma js_at_in_set: "js_at xs i = Some x \<Longrightarrow> x \<in> set xs"
  by (auto simp: js_at_def dest: js_get_in_set)

section \<open>Lemmas on splitting\<close>

lemma js_split_nonempty [simp]: "js_split sep s \<noteq> []"
  by (cases s) (auto split: list.splits)

lemma js_split_no_sep: "sep \<notin> set s \<Longrightarrow> js_split sep s = [s]"
  by (induction s) (auto split: list.splits)

lemma js_split_pieces: "p \<in> set (js_split sep s) \<Longrightarrow> sep \<notin> set p"
proof (induction s arbitrary: p)
  case (Cons c s)
  show ?case
  proof (cases "js_split sep s")
    case (Cons x xs)
    then show ?thesis
      using Cons.IH Cons.prems by (auto split: if_splits)
  qed simp
qed simp

lemma js_split_append_sep: "sep \<notin> set p \<Longrightarrow> js_split sep (p @ sep # s) = p # js_split sep s"
  by (induction p) (auto split: list.splits)

lemma js_split_append: "js_split sep (s @ sep # t) = js_split sep s @ js_split sep t"
  by (induction s) (auto split: list.split)

lemma js_join_Cons: "xs \<noteq> [] \<Longrightarrow> js_join sep (x # xs) = x @ sep @ js_join sep xs"
  by (cases xs) auto

lemma js_join_head: "js_join sep ((c # x) # xs) = c # js_join sep (x # xs)"
  by (cases xs) auto

lemma js_join_split: "js_join [sep] (js_split sep s) = s"
proof (induction s)
  case (Cons c s)
  then show ?case
    by (cases "js_split sep s") (auto simp: js_join_Cons js_join_head)
qed simp

lemma js_split_join:
  "ls \<noteq> [] \<Longrightarrow> (\<And>l. l \<in> set ls \<Longrightarrow> sep \<notin> set l) \<Longrightarrow> js_split sep (js_join [sep] ls) = ls"
proof (induction ls)
  case (Cons l ls)
  then show ?case
    by (cases ls) (simp_all add: js_split_no_sep js_join_Cons js_split_append_sep)
qed simp

lemma js_replace_all_gone: "c \<notin> set r \<Longrightarrow> c \<notin> set (js_replace_all c r s)"
  by (auto simp: js_replace_all_def)

lemma set_js_replace_all: "set (js_replace_all c r s) \<subseteq> set r \<union> set s"
  by (auto simp: js_replace_all_def)

lemma digits_value_nonneg:
  "0 \<le> acc \<Longrightarrow> \<forall>c \<in> set ds. is_digit c \<Longrightarrow> 0 \<le> digits_value acc ds"
  by (induction ds arbitrary: acc) (auto simp: is_digit_def)

section \<open>Lemmas on numbers\<close>

lemma to_int32_id: "- (2 ^ 31) \<le> x \<Longrightarrow> x < 2 ^ 31 \<Longrightarrow> to_int32 x = x"
  by (simp add: to_int32_def signed_take_bit_int_eq_self_iff)

lemma to_int32_range: "- (2 ^ 31) \<le> to_int32 x \<and> to_int32 x < 2 ^ 31"
  using signed_take_bit_int_less_exp [of 31 x] signed_take_bit_int_greater_eq_minus_exp [of 31 x]
  by (simp add: to_int32_def)

section \<open>Lemmas on lists\<close>

lemma takeWhile_digits [simp]:
  "\<forall>c \<in> set ds. is_digit c \<Longrightarrow> takeWhile is_digit ds = ds"
  by (simp add: takeWhile_eq_all_conv)

lemma concat_map_take_drop:
  "n < length xs \<Longrightarrow>
     concat (map f xs) = concat (map f (take n xs)) @ f (xs ! n) @ concat (map f (drop (Suc n) xs))"
  by (subst id_take_nth_drop [of n xs]) simp_all

end
