(* ===== verification/Ansi_Sgr.thy ===== *)
theory Ansi_Sgr
  imports Js_Prelude
begin

text \<open>
  Select Graphic Rendition: the styles, fonts and colours of \<open>src/vs/base/common/ansiOutput.ts\<close>, the
  class \<open>SGRState\<close> with every method, and the interpretation of an SGR parameter list (the method
  \<open>ANSIOutput.processSGR\<close> with its closure \<open>processSetColor\<close>).

  An \<open>SGRState\<close> object is the record \<open>sgr_state\<close>. Its fields are optional (\<open>undefined\<close> is \<open>None\<close>); the
  \<open>Set\<close> of styles is the list of its elements in insertion order. \<open>SGRState.equivalent\<close> compares two
  states by their JSON text, which depends on the order in which the object's properties were first
  assigned (class fields without an initialiser are not defined by the constructor: the sources are
  compiled with \<open>useDefineForClassFields\<close> off), so the record carries that order in \<open>sgr_keys\<close>.

  The lemmas show that every operation keeps the state well-formed (no empty style set, mutually
  exclusive styles, keys that cover the defined fields), that JSON equality is an equivalence that
  implies equality of every field, and what the colour parameters decode to.
\<close>

section \<open>Styles, fonts and colours\<close>

datatype ansi_style =
    Bold
  | Dim
  | Italic
  | Underlined
  | SlowBlink
  | RapidBlink
  | Hidden
  | CrossedOut
  | Fraktur
  | DoubleUnderlined
  | Framed
  | Encircled
  | Overlined
  | Superscript
  | Subscript

datatype ansi_font =
    AlternativeFont1
  | AlternativeFont2
  | AlternativeFont3
  | AlternativeFont4
  | AlternativeFont5
  | AlternativeFont6
  | AlternativeFont7
  | AlternativeFont8
  | AlternativeFont9

datatype ansi_color =
    Black
  | Red
  | Green
  | Yellow
  | Blue
  | Magenta
  | Cyan
  | White
  | BrightBlack
  | BrightRed
  | BrightGreen
  | BrightYellow
  | BrightBlue
  | BrightMagenta
  | BrightCyan
  | BrightWhite

text \<open>A colour is one of the sixteen named ones or a CSS colour string.\<close>

datatype color = Ansi ansi_color | Css jsstring

section \<open>The SGR state\<close>

datatype sgr_key = KStyles | KForeground | KBackground | KUnderlined | KReversed | KFont

record sgr_state =
  sgr_styles :: "ansi_style list option"
  sgr_foreground :: "color option"
  sgr_background :: "color option"
  sgr_underlined :: "jsstring option"
  sgr_reversed :: "bool option"
  sgr_font :: "ansi_font option"
  sgr_keys :: "sgr_key list"

definition new_SGRState :: sgr_state where
  "new_SGRState =
     \<lparr>sgr_styles = None, sgr_foreground = None, sgr_background = None, sgr_underlined = None,
      sgr_reversed = None, sgr_font = None, sgr_keys = []\<rparr>"

text \<open>Assigning a property creates it at the end of the property order when it is new.\<close>

definition touch :: "sgr_key \<Rightarrow> sgr_state \<Rightarrow> sgr_state" where
  "touch k s = s\<lparr>sgr_keys := (if k \<in> set (sgr_keys s) then sgr_keys s else sgr_keys s @ [k])\<rparr>"

definition isNeutral :: "sgr_state \<Rightarrow> bool" where
  "isNeutral s \<longleftrightarrow>
     sgr_styles s = None \<and> sgr_foreground s = None \<and> sgr_background s = None \<and>
     sgr_underlined s = None \<and> sgr_reversed s = None \<and> sgr_font s = None"

definition reset :: "sgr_state \<Rightarrow> sgr_state" where
  "reset s =
     (touch KFont (touch KReversed (touch KUnderlined (touch KBackground (touch KForeground
       (touch KStyles s))))))
     \<lparr>sgr_styles := None, sgr_foreground := None, sgr_background := None, sgr_underlined := None,
      sgr_reversed := None, sgr_font := None\<rparr>"

definition copy :: "sgr_state \<Rightarrow> sgr_state" where
  "copy s =
     (let keeps = (case sgr_styles s of None \<Rightarrow> False | Some xs \<Rightarrow> xs \<noteq> [])
      in \<lparr>sgr_styles = (if keeps then sgr_styles s else None),
          sgr_foreground = sgr_foreground s, sgr_background = sgr_background s,
          sgr_underlined = sgr_underlined s, sgr_reversed = sgr_reversed s, sgr_font = sgr_font s,
          sgr_keys = (if keeps then [KStyles] else []) @
            [KForeground, KBackground, KUnderlined, KReversed, KFont]\<rparr>)"

text \<open>\<open>Set.prototype.add\<close> keeps the place of an element that is already there.\<close>

definition set_add :: "'a \<Rightarrow> 'a list \<Rightarrow> 'a list" where
  "set_add x xs = (if x \<in> set xs then xs else xs @ [x])"

definition set_delete :: "'a list \<Rightarrow> 'a list \<Rightarrow> 'a list" where
  "set_delete ds xs = filter (\<lambda>x. x \<notin> set ds) xs"

definition setStyle :: "ansi_style \<Rightarrow> ansi_style list \<Rightarrow> sgr_state \<Rightarrow> sgr_state" where
  "setStyle style stylesToDelete s =
     (case sgr_styles s of
        Some xs \<Rightarrow> s\<lparr>sgr_styles := Some (set_add style (set_delete stylesToDelete xs))\<rparr>
      | None \<Rightarrow> (touch KStyles s)\<lparr>sgr_styles := Some [style]\<rparr>)"

definition deleteStyles :: "ansi_style list \<Rightarrow> sgr_state \<Rightarrow> sgr_state" where
  "deleteStyles stylesToDelete s =
     (case sgr_styles s of
        None \<Rightarrow> s
      | Some xs \<Rightarrow>
          (let ys = set_delete stylesToDelete xs
           in s\<lparr>sgr_styles := (if ys = [] then None else Some ys)\<rparr>))"

text \<open>\<open>!this._reversed\<close> holds when the flag is \<open>undefined\<close> or \<open>false\<close>.\<close>

definition is_reversed :: "sgr_state \<Rightarrow> bool" where
  "is_reversed s \<longleftrightarrow> sgr_reversed s = Some True"

definition assign_foreground :: "color option \<Rightarrow> sgr_state \<Rightarrow> sgr_state" where
  "assign_foreground c s = (touch KForeground s)\<lparr>sgr_foreground := c\<rparr>"

definition assign_background :: "color option \<Rightarrow> sgr_state \<Rightarrow> sgr_state" where
  "assign_background c s = (touch KBackground s)\<lparr>sgr_background := c\<rparr>"

definition setForegroundColor :: "color option \<Rightarrow> sgr_state \<Rightarrow> sgr_state" where
  "setForegroundColor c s =
     (if \<not> is_reversed s then assign_foreground c s else assign_background c s)"

definition setBackgroundColor :: "color option \<Rightarrow> sgr_state \<Rightarrow> sgr_state" where
  "setBackgroundColor c s =
     (if \<not> is_reversed s then assign_background c s else assign_foreground c s)"

definition reverseForegroundAndBackgroundColors :: "sgr_state \<Rightarrow> sgr_state" where
  "reverseForegroundAndBackgroundColors s =
     assign_background (sgr_foreground s) (assign_foreground (sgr_background s) s)"

definition setReversed :: "bool \<Rightarrow> sgr_state \<Rightarrow> sgr_state" where
  "setReversed reversed s =
     (if reversed
      then (if \<not> is_reversed s
            then reverseForegroundAndBackgroundColors ((touch KReversed s)\<lparr>sgr_reversed := Some True\<rparr>)
            else s)
      else (if is_reversed s
            then reverseForegroundAndBackgroundColors ((touch KReversed s)\<lparr>sgr_reversed := None\<rparr>)
            else s))"

definition setFont :: "ansi_font option \<Rightarrow> sgr_state \<Rightarrow> sgr_state" where
  "setFont f s = (touch KFont s)\<lparr>sgr_font := f\<rparr>"

section \<open>The format a state presents\<close>

text \<open>The empty string is falsy.\<close>

definition color_truthy :: "color option \<Rightarrow> bool" where
  "color_truthy c = (case c of None \<Rightarrow> False | Some (Css s) \<Rightarrow> s \<noteq> [] | Some (Ansi _) \<Rightarrow> True)"

definition contrasting :: "ansi_color \<Rightarrow> ansi_color" where
  "contrasting c = (if c \<in> {Black, BrightBlack, Red, BrightRed} then White else Black)"

definition foregroundColor :: "sgr_state \<Rightarrow> color option" where
  "foregroundColor s =
     (if color_truthy (sgr_background s) \<and> \<not> color_truthy (sgr_foreground s)
      then (case sgr_background s of Some (Ansi c) \<Rightarrow> Some (Ansi (contrasting c))
            | _ \<Rightarrow> sgr_foreground s)
      else sgr_foreground s)"

section \<open>Equivalence by JSON text\<close>

datatype json_value = JStyles "ansi_style list" | JColor color | JString jsstring | JBool bool
  | JFont ansi_font

text \<open>
  The value of one property in the JSON text: \<open>undefined\<close> properties are left out, and the replacer
  turns an empty set into \<open>undefined\<close> and another set into the array of its elements.
\<close>

fun json_field :: "sgr_state \<Rightarrow> sgr_key \<Rightarrow> json_value option" where
  "json_field s KStyles =
     (case sgr_styles s of None \<Rightarrow> None | Some xs \<Rightarrow> if xs = [] then None else Some (JStyles xs))"
| "json_field s KForeground = map_option JColor (sgr_foreground s)"
| "json_field s KBackground = map_option JColor (sgr_background s)"
| "json_field s KUnderlined = map_option JString (sgr_underlined s)"
| "json_field s KReversed = map_option JBool (sgr_reversed s)"
| "json_field s KFont = map_option JFont (sgr_font s)"

definition json_fields :: "sgr_state \<Rightarrow> (sgr_key \<times> json_value) list" where
  "json_fields s = List.map_filter (\<lambda>k. map_option (Pair k) (json_field s k)) (sgr_keys s)"

definition sgr_equivalent :: "sgr_state option \<Rightarrow> sgr_state option \<Rightarrow> bool" where
  "sgr_equivalent a b \<longleftrightarrow> map_option json_fields a = map_option json_fields b"

section \<open>Colour parameters\<close>

text \<open>\<open>Math.max(Math.min(255, value), 0).toString(16)\<close>, padded to two digits; \<open>NaN\<close> prints as \<open>NaN\<close>.\<close>

definition twoDigitHex :: "int option \<Rightarrow> jsstring" where
  "twoDigitHex v =
     (let hex = (case v of None \<Rightarrow> js ''NaN'' | Some i \<Rightarrow> hex_string (nat (max (min 255 i) 0)))
      in if length hex = 2 then hex else 48 # hex)"

text \<open>The colours of the 6 x 6 x 6 cube: \<open>Math.round(component * 255 / 5)\<close> is exact.\<close>

definition cube_color :: "int \<Rightarrow> jsstring" where
  "cube_color colorIndex =
     (let n0 = colorIndex - 16; blue = n0 mod 6; n1 = (n0 - blue) div 6; green = n1 mod 6;
          red = (n1 - green) div 6
      in 35 # twoDigitHex (Some (red * 51)) @ twoDigitHex (Some (green * 51)) @
           twoDigitHex (Some (blue * 51)))"

text \<open>The grayscale ramp: \<open>Math.round((colorIndex - 232) / 23 * 255)\<close>, rounding halves up.\<close>

definition gray_color :: "int \<Rightarrow> jsstring" where
  "gray_color colorIndex =
     (let g = twoDigitHex (Some ((2 * ((colorIndex - 232) * 255) + 23) div 46)) in 35 # g @ g @ g)"

definition named_index :: "int \<Rightarrow> ansi_color option" where
  "named_index i =
     (if i = 0 then Some Black else if i = 1 then Some Red else if i = 2 then Some Green
      else if i = 3 then Some Yellow else if i = 4 then Some Blue else if i = 5 then Some Magenta
      else if i = 6 then Some Cyan else if i = 7 then Some White
      else if i = 8 then Some BrightBlack else if i = 9 then Some BrightRed
      else if i = 10 then Some BrightGreen else if i = 11 then Some BrightYellow
      else if i = 12 then Some BrightBlue else if i = 13 then Some BrightMagenta
      else if i = 14 then Some BrightCyan else if i = 15 then Some BrightWhite else None)"

definition indexed_color :: "int option \<Rightarrow> color option" where
  "indexed_color colorIndex =
     (case colorIndex of
        None \<Rightarrow> None
      | Some i \<Rightarrow>
          (case named_index i of
             Some c \<Rightarrow> Some (Ansi c)
           | None \<Rightarrow>
               if 16 \<le> i \<and> i \<le> 231 then Some (Css (cube_color i))
               else if 232 \<le> i \<and> i \<le> 255 then Some (Css (gray_color i))
               else None))"

text \<open>The r;g;b components are optional and default to 0.\<close>

definition rgb_color :: "int option list \<Rightarrow> color" where
  "rgb_color ps =
     (let rgb = take 3 (take 3 ps @ [Some 0, Some 0, Some 0])
      in Css (35 # twoDigitHex (rgb ! 0) @ twoDigitHex (rgb ! 1) @ twoDigitHex (rgb ! 2)))"

text \<open>
  \<open>processSetColor\<close> on the parameters after the current one: the colour, if one was recognised, and
  the parameters left for the loop.
\<close>

abbreviation (input) SGRParamColor_Color256 :: int where "SGRParamColor_Color256 \<equiv> 5"

abbreviation (input) SGRParamColor_ColorRGB :: int where "SGRParamColor_ColorRGB \<equiv> 2"

definition processSetColor :: "int option list \<Rightarrow> color option \<times> int option list" where
  "processSetColor ps =
     (case ps of
        [] \<Rightarrow> (None, [])
      | p # qs \<Rightarrow>
          if p = Some SGRParamColor_Color256
          then (case qs of [] \<Rightarrow> (None, []) | colorIndex # rs \<Rightarrow> (indexed_color colorIndex, rs))
          else if p = Some SGRParamColor_ColorRGB then (Some (rgb_color qs), drop 3 qs)
          else (None, qs))"

section \<open>The parameter switch\<close>

abbreviation (input) SGRParam_Reset :: int where "SGRParam_Reset \<equiv> 0"

abbreviation (input) SGRParam_Bold :: int where "SGRParam_Bold \<equiv> 1"

abbreviation (input) SGRParam_Dim :: int where "SGRParam_Dim \<equiv> 2"

abbreviation (input) SGRParam_Italic :: int where "SGRParam_Italic \<equiv> 3"

abbreviation (input) SGRParam_Underlined :: int where "SGRParam_Underlined \<equiv> 4"

abbreviation (input) SGRParam_SlowBlink :: int where "SGRParam_SlowBlink \<equiv> 5"

abbreviation (input) SGRParam_RapidBlink :: int where "SGRParam_RapidBlink \<equiv> 6"

abbreviation (input) SGRParam_Reversed :: int where "SGRParam_Reversed \<equiv> 7"

abbreviation (input) SGRParam_Hidden :: int where "SGRParam_Hidden \<equiv> 8"

abbreviation (input) SGRParam_CrossedOut :: int where "SGRParam_CrossedOut \<equiv> 9"

abbreviation (input) SGRParam_PrimaryFont :: int where "SGRParam_PrimaryFont \<equiv> 10"

abbreviation (input) SGRParam_AlternativeFont1 :: int where "SGRParam_AlternativeFont1 \<equiv> 11"

abbreviation (input) SGRParam_AlternativeFont2 :: int where "SGRParam_AlternativeFont2 \<equiv> 12"

abbreviation (input) SGRParam_AlternativeFont3 :: int where "SGRParam_AlternativeFont3 \<equiv> 13"

abbreviation (input) SGRParam_AlternativeFont4 :: int where "SGRParam_AlternativeFont4 \<equiv> 14"

abbreviation (input) SGRParam_AlternativeFont5 :: int where "SGRParam_AlternativeFont5 \<equiv> 15"

abbreviation (input) SGRParam_AlternativeFont6 :: int where "SGRParam_AlternativeFont6 \<equiv> 16"

abbreviation (input) SGRParam_AlternativeFont7 :: int where "SGRParam_AlternativeFont7 \<equiv> 17"

abbreviation (input) SGRParam_AlternativeFont8 :: int where "SGRParam_AlternativeFont8 \<equiv> 18"

abbreviation (input) SGRParam_AlternativeFont9 :: int where "SGRParam_AlternativeFont9 \<equiv> 19"

abbreviation (input) SGRParam_Fraktur :: int where "SGRParam_Fraktur \<equiv> 20"

abbreviation (input) SGRParam_DoubleUnderlined :: int where "SGRParam_DoubleUnderlined \<equiv> 21"

abbreviation (input) SGRParam_NormalIntensity :: int where "SGRParam_NormalIntensity \<equiv> 22"

abbreviation (input) SGRParam_NotItalicNotFraktur :: int where "SGRParam_NotItalicNotFraktur \<equiv> 23"

abbreviation (input) SGRParam_NotUnderlined :: int where "SGRParam_NotUnderlined \<equiv> 24"

abbreviation (input) SGRParam_NotBlinking :: int where "SGRParam_NotBlinking \<equiv> 25"

abbreviation (input) SGRParam_ProportionalSpacing :: int where "SGRParam_ProportionalSpacing \<equiv> 26"

abbreviation (input) SGRParam_NotReversed :: int where "SGRParam_NotReversed \<equiv> 27"

abbreviation (input) SGRParam_Reveal :: int where "SGRParam_Reveal \<equiv> 28"

abbreviation (input) SGRParam_NotCrossedOut :: int where "SGRParam_NotCrossedOut \<equiv> 29"

abbreviation (input) SGRParam_ForegroundBlack :: int where "SGRParam_ForegroundBlack \<equiv> 30"

abbreviation (input) SGRParam_ForegroundRed :: int where "SGRParam_ForegroundRed \<equiv> 31"

abbreviation (input) SGRParam_ForegroundGreen :: int where "SGRParam_ForegroundGreen \<equiv> 32"

abbreviation (input) SGRParam_ForegroundYellow :: int where "SGRParam_ForegroundYellow \<equiv> 33"

abbreviation (input) SGRParam_ForegroundBlue :: int where "SGRParam_ForegroundBlue \<equiv> 34"

abbreviation (input) SGRParam_ForegroundMagenta :: int where "SGRParam_ForegroundMagenta \<equiv> 35"

abbreviation (input) SGRParam_ForegroundCyan :: int where "SGRParam_ForegroundCyan \<equiv> 36"

abbreviation (input) SGRParam_ForegroundWhite :: int where "SGRParam_ForegroundWhite \<equiv> 37"

abbreviation (input) SGRParam_SetForeground :: int where "SGRParam_SetForeground \<equiv> 38"

abbreviation (input) SGRParam_DefaultForeground :: int where "SGRParam_DefaultForeground \<equiv> 39"

abbreviation (input) SGRParam_BackgroundBlack :: int where "SGRParam_BackgroundBlack \<equiv> 40"

abbreviation (input) SGRParam_BackgroundRed :: int where "SGRParam_BackgroundRed \<equiv> 41"

abbreviation (input) SGRParam_BackgroundGreen :: int where "SGRParam_BackgroundGreen \<equiv> 42"

abbreviation (input) SGRParam_BackgroundYellow :: int where "SGRParam_BackgroundYellow \<equiv> 43"

abbreviation (input) SGRParam_BackgroundBlue :: int where "SGRParam_BackgroundBlue \<equiv> 44"

abbreviation (input) SGRParam_BackgroundMagenta :: int where "SGRParam_BackgroundMagenta \<equiv> 45"

abbreviation (input) SGRParam_BackgroundCyan :: int where "SGRParam_BackgroundCyan \<equiv> 46"

abbreviation (input) SGRParam_BackgroundWhite :: int where "SGRParam_BackgroundWhite \<equiv> 47"

abbreviation (input) SGRParam_SetBackground :: int where "SGRParam_SetBackground \<equiv> 48"

abbreviation (input) SGRParam_DefaultBackground :: int where "SGRParam_DefaultBackground \<equiv> 49"

abbreviation (input) SGRParam_ForegroundBrightBlack :: int where "SGRParam_ForegroundBrightBlack \<equiv> 90"

abbreviation (input) SGRParam_ForegroundBrightRed :: int where "SGRParam_ForegroundBrightRed \<equiv> 91"

abbreviation (input) SGRParam_ForegroundBrightGreen :: int where "SGRParam_ForegroundBrightGreen \<equiv> 92"

abbreviation (input) SGRParam_ForegroundBrightYellow :: int where "SGRParam_ForegroundBrightYellow \<equiv> 93"

abbreviation (input) SGRParam_ForegroundBrightBlue :: int where "SGRParam_ForegroundBrightBlue \<equiv> 94"

abbreviation (input) SGRParam_ForegroundBrightMagenta :: int where "SGRParam_ForegroundBrightMagenta \<equiv> 95"

abbreviation (input) SGRParam_ForegroundBrightCyan :: int where "SGRParam_ForegroundBrightCyan \<equiv> 96"

abbreviation (input) SGRParam_ForegroundBrightWhite :: int where "SGRParam_ForegroundBrightWhite \<equiv> 97"

abbreviation (input) SGRParam_BackgroundBrightBlack :: int where "SGRParam_BackgroundBrightBlack \<equiv> 100"

abbreviation (input) SGRParam_BackgroundBrightRed :: int where "SGRParam_BackgroundBrightRed \<equiv> 101"

abbreviation (input) SGRParam_BackgroundBrightGreen :: int where "SGRParam_BackgroundBrightGreen \<equiv> 102"

abbreviation (input) SGRParam_BackgroundBrightYellow :: int where "SGRParam_BackgroundBrightYellow \<equiv> 103"

abbreviation (input) SGRParam_BackgroundBrightBlue :: int where "SGRParam_BackgroundBrightBlue \<equiv> 104"

abbreviation (input) SGRParam_BackgroundBrightMagenta :: int where "SGRParam_BackgroundBrightMagenta \<equiv> 105"

abbreviation (input) SGRParam_BackgroundBrightCyan :: int where "SGRParam_BackgroundBrightCyan \<equiv> 106"

abbreviation (input) SGRParam_BackgroundBrightWhite :: int where "SGRParam_BackgroundBrightWhite \<equiv> 107"

text \<open>
  One action per case of the switch of \<open>processSGR\<close>; the four tables list the cases in the order of
  the source.
\<close>

datatype sgr_action =
    Reset
  | SetStyle ansi_style "ansi_style list"
  | DeleteStyles "ansi_style list"
  | SetReversed bool
  | SetFont "ansi_font option"
  | SetForeground "color option"
  | SetBackground "color option"
  | SetForegroundFromParams
  | SetBackgroundFromParams
  | NoAction

definition sgr_style_cases :: "(int \<times> sgr_action) list" where
  "sgr_style_cases =
     [(SGRParam_Reset, Reset),
      (SGRParam_Bold, SetStyle Bold []),
      (SGRParam_Dim, SetStyle Dim []),
      (SGRParam_Italic, SetStyle Italic []),
      (SGRParam_Underlined, SetStyle Underlined [DoubleUnderlined]),
      (SGRParam_SlowBlink, SetStyle SlowBlink [RapidBlink]),
      (SGRParam_RapidBlink, SetStyle RapidBlink [SlowBlink]),
      (SGRParam_Reversed, SetReversed True),
      (SGRParam_Hidden, SetStyle Hidden []),
      (SGRParam_CrossedOut, SetStyle CrossedOut []),
      (SGRParam_PrimaryFont, SetFont None),
      (SGRParam_AlternativeFont1, SetFont (Some AlternativeFont1)),
      (SGRParam_AlternativeFont2, SetFont (Some AlternativeFont2)),
      (SGRParam_AlternativeFont3, SetFont (Some AlternativeFont3)),
      (SGRParam_AlternativeFont4, SetFont (Some AlternativeFont4)),
      (SGRParam_AlternativeFont5, SetFont (Some AlternativeFont5)),
      (SGRParam_AlternativeFont6, SetFont (Some AlternativeFont6)),
      (SGRParam_AlternativeFont7, SetFont (Some AlternativeFont7)),
      (SGRParam_AlternativeFont8, SetFont (Some AlternativeFont8)),
      (SGRParam_AlternativeFont9, SetFont (Some AlternativeFont9)),
      (SGRParam_Fraktur, SetStyle Fraktur []),
      (SGRParam_DoubleUnderlined, SetStyle DoubleUnderlined [Underlined]),
      (SGRParam_NormalIntensity, DeleteStyles [Bold, Dim]),
      (SGRParam_NotItalicNotFraktur, DeleteStyles [Italic, Fraktur]),
      (SGRParam_NotUnderlined, DeleteStyles [Underlined, DoubleUnderlined]),
      (SGRParam_NotBlinking, DeleteStyles [SlowBlink, RapidBlink]),
      (SGRParam_ProportionalSpacing, NoAction),
      (SGRParam_NotReversed, SetReversed False),
      (SGRParam_Reveal, DeleteStyles [Hidden]),
      (SGRParam_NotCrossedOut, DeleteStyles [CrossedOut])]"

definition sgr_foreground_cases :: "(int \<times> sgr_action) list" where
  "sgr_foreground_cases =
     [(SGRParam_ForegroundBlack, SetForeground (Some (Ansi Black))),
      (SGRParam_ForegroundRed, SetForeground (Some (Ansi Red))),
      (SGRParam_ForegroundGreen, SetForeground (Some (Ansi Green))),
      (SGRParam_ForegroundYellow, SetForeground (Some (Ansi Yellow))),
      (SGRParam_ForegroundBlue, SetForeground (Some (Ansi Blue))),
      (SGRParam_ForegroundMagenta, SetForeground (Some (Ansi Magenta))),
      (SGRParam_ForegroundCyan, SetForeground (Some (Ansi Cyan))),
      (SGRParam_ForegroundWhite, SetForeground (Some (Ansi White))),
      (SGRParam_SetForeground, SetForegroundFromParams),
      (SGRParam_DefaultForeground, SetForeground None)]"

definition sgr_background_cases :: "(int \<times> sgr_action) list" where
  "sgr_background_cases =
     [(SGRParam_BackgroundBlack, SetBackground (Some (Ansi Black))),
      (SGRParam_BackgroundRed, SetBackground (Some (Ansi Red))),
      (SGRParam_BackgroundGreen, SetBackground (Some (Ansi Green))),
      (SGRParam_BackgroundYellow, SetBackground (Some (Ansi Yellow))),
      (SGRParam_BackgroundBlue, SetBackground (Some (Ansi Blue))),
      (SGRParam_BackgroundMagenta, SetBackground (Some (Ansi Magenta))),
      (SGRParam_BackgroundCyan, SetBackground (Some (Ansi Cyan))),
      (SGRParam_BackgroundWhite, SetBackground (Some (Ansi White))),
      (SGRParam_SetBackground, SetBackgroundFromParams),
      (SGRParam_DefaultBackground, SetBackground None)]"

definition sgr_bright_cases :: "(int \<times> sgr_action) list" where
  "sgr_bright_cases =
     [(SGRParam_ForegroundBrightBlack, SetForeground (Some (Ansi BrightBlack))),
      (SGRParam_ForegroundBrightRed, SetForeground (Some (Ansi BrightRed))),
      (SGRParam_ForegroundBrightGreen, SetForeground (Some (Ansi BrightGreen))),
      (SGRParam_ForegroundBrightYellow, SetForeground (Some (Ansi BrightYellow))),
      (SGRParam_ForegroundBrightBlue, SetForeground (Some (Ansi BrightBlue))),
      (SGRParam_ForegroundBrightMagenta, SetForeground (Some (Ansi BrightMagenta))),
      (SGRParam_ForegroundBrightCyan, SetForeground (Some (Ansi BrightCyan))),
      (SGRParam_ForegroundBrightWhite, SetForeground (Some (Ansi BrightWhite))),
      (SGRParam_BackgroundBrightBlack, SetBackground (Some (Ansi BrightBlack))),
      (SGRParam_BackgroundBrightRed, SetBackground (Some (Ansi BrightRed))),
      (SGRParam_BackgroundBrightGreen, SetBackground (Some (Ansi BrightGreen))),
      (SGRParam_BackgroundBrightYellow, SetBackground (Some (Ansi BrightYellow))),
      (SGRParam_BackgroundBrightBlue, SetBackground (Some (Ansi BrightBlue))),
      (SGRParam_BackgroundBrightMagenta, SetBackground (Some (Ansi BrightMagenta))),
      (SGRParam_BackgroundBrightCyan, SetBackground (Some (Ansi BrightCyan))),
      (SGRParam_BackgroundBrightWhite, SetBackground (Some (Ansi BrightWhite)))]"

definition sgr_cases :: "(int \<times> sgr_action) list" where
  "sgr_cases = sgr_style_cases @ sgr_foreground_cases @ sgr_background_cases @ sgr_bright_cases"

definition sgr_action_of :: "int option \<Rightarrow> sgr_action" where
  "sgr_action_of p =
     (case p of None \<Rightarrow> NoAction
      | Some i \<Rightarrow> (case map_of sgr_cases i of None \<Rightarrow> NoAction | Some a \<Rightarrow> a))"

text \<open>
  The effect of one case on the working state and on the rest of the parameters: only the two set
  colour cases consume parameters, and they leave the state alone when no colour was recognised.
\<close>

fun apply_action :: "sgr_action \<Rightarrow> sgr_state \<Rightarrow> int option list \<Rightarrow> sgr_state \<times> int option list" where
  "apply_action Reset s ps = (reset s, ps)"
| "apply_action (SetStyle st del) s ps = (setStyle st del s, ps)"
| "apply_action (DeleteStyles del) s ps = (deleteStyles del s, ps)"
| "apply_action (SetReversed r) s ps = (setReversed r s, ps)"
| "apply_action (SetFont f) s ps = (setFont f s, ps)"
| "apply_action (SetForeground c) s ps = (setForegroundColor c s, ps)"
| "apply_action (SetBackground c) s ps = (setBackgroundColor c s, ps)"
| "apply_action SetForegroundFromParams s ps =
     (case processSetColor ps of (c, qs) \<Rightarrow>
        (if color_truthy c then setForegroundColor c s else s, qs))"
| "apply_action SetBackgroundFromParams s ps =
     (case processSetColor ps of (c, qs) \<Rightarrow>
        (if color_truthy c then setBackgroundColor c s else s, qs))"
| "apply_action NoAction s ps = (s, ps)"

lemma processSetColor_shorter: "length (snd (processSetColor ps)) \<le> length ps"
  by (auto simp: processSetColor_def split: list.splits if_splits)

lemma apply_action_shorter: "length (snd (apply_action a s ps)) \<le> length ps"
  using processSetColor_shorter [of ps] by (cases a) (auto split: prod.splits)

function sgr_loop :: "sgr_state \<Rightarrow> int option list \<Rightarrow> sgr_state" where
  "sgr_loop s [] = s"
| "sgr_loop s (p # ps) =
     (case apply_action (sgr_action_of p) s ps of (s', qs) \<Rightarrow> sgr_loop s' qs)"
  by pat_completeness auto
termination
proof (relation "measure (\<lambda>(s, ps). length ps)", goal_cases)
  case (2 s p ps s' qs)
  then have "length qs \<le> length ps"
    using apply_action_shorter [of "sgr_action_of p" s ps] by (metis snd_conv)
  then show ?case by simp
qed simp

text \<open>\<open>this._cs.slice(0, -1).split(';').map(...)\<close>: an empty parameter is a reset.\<close>

definition sgr_params :: "jsstring \<Rightarrow> int option list" where
  "sgr_params cs =
     map (\<lambda>p. if p = [] then Some SGRParam_Reset else parse_int p)
       (js_split (ch CHR '';'') (js_slice cs 0 (-1)))"

definition processSGR :: "jsstring \<Rightarrow> sgr_state option \<Rightarrow> sgr_state option" where
  "processSGR cs current =
     (let s = sgr_loop (case current of None \<Rightarrow> new_SGRState | Some s \<Rightarrow> copy s) (sgr_params cs)
      in if isNeutral s then None else Some s)"

text \<open>\<open>ANSIOutput.copyStylesFrom\<close>, on the SGR states of the two outputs.\<close>

definition copyStyles :: "sgr_state option \<Rightarrow> sgr_state option" where
  "copyStyles other =
     (case other of None \<Rightarrow> None | Some s \<Rightarrow> if isNeutral s then None else Some (copy s))"

section \<open>Well-formed states\<close>

text \<open>
  The style set is never empty, its elements are distinct, the two underlines and the two blinks
  exclude each other, the flag is \<open>undefined\<close> or \<open>true\<close>, and every defined field has its property.
\<close>

definition styles_ok :: "ansi_style list \<Rightarrow> bool" where
  "styles_ok xs \<longleftrightarrow>
     distinct xs \<and> \<not> (Underlined \<in> set xs \<and> DoubleUnderlined \<in> set xs) \<and>
     \<not> (SlowBlink \<in> set xs \<and> RapidBlink \<in> set xs)"

definition field_defined :: "sgr_state \<Rightarrow> sgr_key \<Rightarrow> bool" where
  "field_defined s k =
     (case k of KStyles \<Rightarrow> sgr_styles s \<noteq> None | KForeground \<Rightarrow> sgr_foreground s \<noteq> None
      | KBackground \<Rightarrow> sgr_background s \<noteq> None | KUnderlined \<Rightarrow> sgr_underlined s \<noteq> None
      | KReversed \<Rightarrow> sgr_reversed s \<noteq> None | KFont \<Rightarrow> sgr_font s \<noteq> None)"

definition sgr_wf :: "sgr_state \<Rightarrow> bool" where
  "sgr_wf s \<longleftrightarrow>
     (case sgr_styles s of None \<Rightarrow> True | Some xs \<Rightarrow> xs \<noteq> [] \<and> styles_ok xs) \<and>
     sgr_reversed s \<noteq> Some False \<and> distinct (sgr_keys s) \<and>
     (\<forall>k. field_defined s k \<longrightarrow> k \<in> set (sgr_keys s))"

text \<open>The style changes that respect the exclusions: what the switch may ask of \<open>setStyle\<close>.\<close>

definition action_ok :: "sgr_action \<Rightarrow> bool" where
  "action_ok a =
     (case a of SetStyle st del \<Rightarrow>
        (st = Underlined \<longrightarrow> DoubleUnderlined \<in> set del) \<and>
        (st = DoubleUnderlined \<longrightarrow> Underlined \<in> set del) \<and>
        (st = SlowBlink \<longrightarrow> RapidBlink \<in> set del) \<and> (st = RapidBlink \<longrightarrow> SlowBlink \<in> set del)
      | _ \<Rightarrow> True)"

named_theorems sgr_defs \<open>definitions of the operations on the SGR state\<close>

declare touch_def [sgr_defs] reset_def [sgr_defs] setStyle_def [sgr_defs] deleteStyles_def [sgr_defs]
  assign_foreground_def [sgr_defs] assign_background_def [sgr_defs] setForegroundColor_def [sgr_defs]
  setBackgroundColor_def [sgr_defs] reverseForegroundAndBackgroundColors_def [sgr_defs]
  setReversed_def [sgr_defs] setFont_def [sgr_defs] is_reversed_def [sgr_defs]

lemma field_defined_simps [simp]:
  "field_defined s KStyles \<longleftrightarrow> sgr_styles s \<noteq> None"
  "field_defined s KForeground \<longleftrightarrow> sgr_foreground s \<noteq> None"
  "field_defined s KBackground \<longleftrightarrow> sgr_background s \<noteq> None"
  "field_defined s KUnderlined \<longleftrightarrow> sgr_underlined s \<noteq> None"
  "field_defined s KReversed \<longleftrightarrow> sgr_reversed s \<noteq> None"
  "field_defined s KFont \<longleftrightarrow> sgr_font s \<noteq> None"
  by (simp_all add: field_defined_def)

lemma all_sgr_key: "(\<forall>k. P k) \<longleftrightarrow>
    P KStyles \<and> P KForeground \<and> P KBackground \<and> P KUnderlined \<and> P KReversed \<and> P KFont"
  by (metis sgr_key.exhaust)

lemma sgr_wf_new: "sgr_wf new_SGRState"
  by (simp add: sgr_wf_def new_SGRState_def all_sgr_key)

lemma sgr_wf_copy: "sgr_wf s \<Longrightarrow> sgr_wf (copy s)"
  by (auto simp: sgr_wf_def copy_def Let_def all_sgr_key split: option.splits)

lemma sgr_wf_reset: "sgr_wf s \<Longrightarrow> sgr_wf (reset s)"
  by (simp add: sgr_wf_def sgr_defs all_sgr_key)

lemma styles_ok_delete: "styles_ok xs \<Longrightarrow> styles_ok (set_delete ds xs)"
  by (auto simp: styles_ok_def set_delete_def)

lemma styles_ok_add:
  "styles_ok xs \<Longrightarrow> action_ok (SetStyle st del) \<Longrightarrow> styles_ok (set_add st (set_delete del xs))"
  by (auto simp: styles_ok_def set_delete_def set_add_def action_ok_def)

lemma sgr_wf_setStyle:
  assumes "sgr_wf s" and "action_ok (SetStyle st del)"
  shows "sgr_wf (setStyle st del s)"
proof (cases "sgr_styles s")
  case None
  with assms show ?thesis
    by (auto simp: sgr_wf_def setStyle_def touch_def all_sgr_key styles_ok_def)
next
  case (Some xs)
  moreover have "set_add st (set_delete del xs) \<noteq> []"
    by (auto simp: set_add_def)
  ultimately show ?thesis
    using assms styles_ok_add [of xs st del] by (auto simp: sgr_wf_def setStyle_def all_sgr_key)
qed

lemma sgr_wf_deleteStyles: "sgr_wf s \<Longrightarrow> sgr_wf (deleteStyles del s)"
  by (auto simp: sgr_wf_def deleteStyles_def Let_def all_sgr_key styles_ok_delete split: option.splits)

lemma sgr_wf_assign:
  "sgr_wf s \<Longrightarrow> sgr_wf (assign_foreground c s)"
  "sgr_wf s \<Longrightarrow> sgr_wf (assign_background c s)"
  "sgr_wf s \<Longrightarrow> sgr_wf (setFont f s)"
  by (auto simp: sgr_wf_def sgr_defs all_sgr_key split: option.splits)

lemma sgr_wf_colors:
  "sgr_wf s \<Longrightarrow> sgr_wf (setForegroundColor c s)"
  "sgr_wf s \<Longrightarrow> sgr_wf (setBackgroundColor c s)"
  "sgr_wf s \<Longrightarrow> sgr_wf (reverseForegroundAndBackgroundColors s)"
  by (simp_all add: setForegroundColor_def setBackgroundColor_def
      reverseForegroundAndBackgroundColors_def sgr_wf_assign)

lemma sgr_wf_reversed_flag:
  "sgr_wf s \<Longrightarrow> sgr_wf ((touch KReversed s)\<lparr>sgr_reversed := None\<rparr>)"
  "sgr_wf s \<Longrightarrow> sgr_wf ((touch KReversed s)\<lparr>sgr_reversed := Some True\<rparr>)"
  by (auto simp: sgr_wf_def touch_def all_sgr_key split: option.splits)

lemma sgr_wf_setReversed: "sgr_wf s \<Longrightarrow> sgr_wf (setReversed r s)"
  by (simp add: setReversed_def sgr_wf_colors sgr_wf_reversed_flag)

lemmas sgr_wf_intros =
  sgr_wf_new sgr_wf_copy sgr_wf_reset sgr_wf_setStyle sgr_wf_deleteStyles sgr_wf_assign
  sgr_wf_colors sgr_wf_setReversed

lemma sgr_wf_apply_action:
  assumes "sgr_wf s" and "action_ok a"
  shows "sgr_wf (fst (apply_action a s ps))"
  using assms by (cases a) (auto intro: sgr_wf_intros split: prod.splits)

text \<open>Every case of the switch respects the exclusions.\<close>

lemma sgr_cases_ok: "\<forall>(k, a) \<in> set sgr_cases. action_ok a"
  by (simp add: sgr_cases_def sgr_style_cases_def sgr_foreground_cases_def sgr_background_cases_def
      sgr_bright_cases_def action_ok_def)

lemma sgr_action_of_ok: "action_ok (sgr_action_of p)"
proof (cases p)
  case (Some i)
  show ?thesis
  proof (cases "map_of sgr_cases i")
    case (Some a)
    then have "(i, a) \<in> set sgr_cases"
      by (rule map_of_SomeD)
    with sgr_cases_ok Some \<open>p = Some i\<close> show ?thesis
      by (auto simp: sgr_action_of_def)
  qed (simp add: sgr_action_of_def \<open>p = Some i\<close> action_ok_def)
qed (simp add: sgr_action_of_def action_ok_def)

lemma sgr_wf_loop: "sgr_wf s \<Longrightarrow> sgr_wf (sgr_loop s ps)"
proof (induction s ps rule: sgr_loop.induct)
  case (2 s p ps)
  obtain s' qs where e: "apply_action (sgr_action_of p) s ps = (s', qs)"
    by fastforce
  then have "sgr_wf s'"
    using sgr_wf_apply_action [OF 2(2) sgr_action_of_ok, of p ps] by simp
  with 2(1) [OF e [symmetric]] e show ?case by simp
qed simp

text \<open>The state an \<open>ANSIOutput\<close> holds between two sequences: undefined, or well-formed and not neutral.\<close>

definition sgr_ok :: "sgr_state option \<Rightarrow> bool" where
  "sgr_ok o_s = (case o_s of None \<Rightarrow> True | Some s \<Rightarrow> sgr_wf s \<and> \<not> isNeutral s)"

lemma sgr_ok_processSGR: "sgr_ok cur \<Longrightarrow> sgr_ok (processSGR cs cur)"
  by (auto simp: sgr_ok_def processSGR_def Let_def intro!: sgr_wf_loop intro: sgr_wf_intros
      split: option.splits)

lemma isNeutral_copy: "sgr_wf s \<Longrightarrow> isNeutral (copy s) = isNeutral s"
  by (auto simp: isNeutral_def copy_def Let_def sgr_wf_def split: option.splits)

lemma sgr_ok_copyStyles: "sgr_ok cur \<Longrightarrow> sgr_ok (copyStyles cur)"
  by (auto simp: sgr_ok_def copyStyles_def isNeutral_copy intro: sgr_wf_intros split: option.splits)

section \<open>Equivalence\<close>

lemma sgr_equivalent_refl [simp]: "sgr_equivalent a a"
  by (simp add: sgr_equivalent_def)

lemma sgr_equivalent_sym: "sgr_equivalent a b \<Longrightarrow> sgr_equivalent b a"
  by (simp add: sgr_equivalent_def)

lemma sgr_equivalent_trans: "sgr_equivalent a b \<Longrightarrow> sgr_equivalent b c \<Longrightarrow> sgr_equivalent a c"
  by (simp add: sgr_equivalent_def)

lemma map_of_map_filter_Pair:
  "map_of (List.map_filter (\<lambda>k. map_option (Pair k) (f k)) ks) k = (if k \<in> set ks then f k else None)"
  by (induction ks) (auto simp: List.map_filter_def split: option.splits)

lemma map_of_json_fields:
  assumes "sgr_wf s"
  shows "map_of (json_fields s) k = json_field s k"
proof (cases "k \<in> set (sgr_keys s)")
  case False
  with assms have "\<not> field_defined s k"
    by (auto simp: sgr_wf_def)
  then have "json_field s k = None"
    by (cases k) auto
  with False show ?thesis
    by (simp add: json_fields_def map_of_map_filter_Pair)
qed (simp add: json_fields_def map_of_map_filter_Pair)

lemma json_fields_same:
  assumes "sgr_wf s" and "sgr_wf t" and "json_fields s = json_fields t"
  shows "sgr_styles s = sgr_styles t \<and> sgr_foreground s = sgr_foreground t \<and>
    sgr_background s = sgr_background t \<and> sgr_underlined s = sgr_underlined t \<and>
    sgr_reversed s = sgr_reversed t \<and> sgr_font s = sgr_font t"
proof -
  have eq: "json_field s k = json_field t k" for k
    using assms map_of_json_fields by metis
  have "sgr_styles s = sgr_styles t"
    using eq [of KStyles] assms(1,2) by (auto simp: sgr_wf_def split: option.splits)
  moreover have "sgr_foreground s = sgr_foreground t"
    using eq [of KForeground] by (auto dest: option.inj_map_strong [rotated])
  moreover have "sgr_background s = sgr_background t"
    using eq [of KBackground] by (auto dest: option.inj_map_strong [rotated])
  moreover have "sgr_underlined s = sgr_underlined t"
    using eq [of KUnderlined] by (auto dest: option.inj_map_strong [rotated])
  moreover have "sgr_reversed s = sgr_reversed t"
    using eq [of KReversed] by (auto dest: option.inj_map_strong [rotated])
  moreover have "sgr_font s = sgr_font t"
    using eq [of KFont] by (auto dest: option.inj_map_strong [rotated])
  ultimately show ?thesis by blast
qed

section \<open>What the colour parameters decode to\<close>

lemma hex_string_two:
  assumes "16 \<le> n" and "n < 256"
  shows "hex_string n = [hex_digit (n div 16), hex_digit (n mod 16)]"
proof -
  have "n div 16 < 16"
    using assms(2) by (simp add: less_mult_imp_div_less)
  with assms(1) show ?thesis
    by (simp add: hex_string.simps [of n] hex_string.simps [of "n div 16"])
qed

lemma twoDigitHex_byte:
  assumes "0 \<le> i" and "i \<le> 255"
  shows "twoDigitHex (Some i) = [hex_digit (nat i div 16), hex_digit (nat i mod 16)]"
proof (cases "nat i < 16")
  case True
  with assms show ?thesis
    by (simp add: twoDigitHex_def Let_def hex_string.simps [of "nat i"] hex_digit_def min_def max_def)
next
  case False
  with assms show ?thesis
    by (simp add: twoDigitHex_def Let_def hex_string_two min_def max_def)
qed

lemma hex_digit_inj: "a < 16 \<Longrightarrow> b < 16 \<Longrightarrow> hex_digit a = hex_digit b \<Longrightarrow> a = b"
  by (auto simp: hex_digit_def split: if_splits)

lemma twoDigitHex_inj:
  assumes "0 \<le> i" "i \<le> 255" "0 \<le> j" "j \<le> 255" and "twoDigitHex (Some i) = twoDigitHex (Some j)"
  shows "i = j"
proof -
  have lt: "nat i div 16 < 16" "nat j div 16 < 16"
    using assms by (simp_all add: less_mult_imp_div_less)
  have "hex_digit (nat i div 16) = hex_digit (nat j div 16)"
    and "hex_digit (nat i mod 16) = hex_digit (nat j mod 16)"
    using assms by (simp_all add: twoDigitHex_byte)
  then have "nat i div 16 = nat j div 16" and "nat i mod 16 = nat j mod 16"
    using lt hex_digit_inj by auto
  then have "nat i = nat j"
    by (metis div_mult_mod_eq)
  with assms show ?thesis by simp
qed

definition is_hex_digit :: "jschar \<Rightarrow> bool" where
  "is_hex_digit c \<longleftrightarrow> is_digit c \<or> 97 \<le> c \<and> c \<le> 102"

text \<open>A CSS colour of the form \<open>#rrggbb\<close>.\<close>

definition css_rgb :: "jsstring \<Rightarrow> bool" where
  "css_rgb s \<longleftrightarrow> length s = 7 \<and> hd s = 35 \<and> list_all is_hex_digit (tl s)"

lemma is_hex_digit_hex_digit: "d < 16 \<Longrightarrow> is_hex_digit (hex_digit d)"
  by (auto simp: is_hex_digit_def hex_digit_def is_digit_def)

lemma twoDigitHex_shape:
  "length (twoDigitHex (Some i)) = 2 \<and> list_all is_hex_digit (twoDigitHex (Some i))"
proof -
  let ?k = "max (min 255 i) 0"
  have b: "0 \<le> ?k" "?k \<le> 255" by auto
  then have "nat ?k div 16 < 16"
    by (simp add: less_mult_imp_div_less)
  moreover have "twoDigitHex (Some i) = twoDigitHex (Some ?k)"
    by (simp add: twoDigitHex_def)
  ultimately show ?thesis
    using twoDigitHex_byte [OF b] by (simp add: is_hex_digit_hex_digit)
qed

lemma css_rgb_concat:
  assumes "\<And>x. x \<in> {a, b, c} \<Longrightarrow> length x = 2 \<and> list_all is_hex_digit x"
  shows "css_rgb (35 # a @ b @ c)"
  using assms by (auto simp: css_rgb_def)

lemma css_rgb_cube: "css_rgb (cube_color i)"
  unfolding cube_color_def Let_def by (rule css_rgb_concat) (use twoDigitHex_shape in auto)

lemma css_rgb_gray: "css_rgb (gray_color i)"
  unfolding gray_color_def Let_def by (rule css_rgb_concat) (use twoDigitHex_shape in auto)

lemma cube_color_eq:
  "cube_color (16 + 36 * r + 6 * g + b) =
     35 # twoDigitHex (Some (r * 51)) @ twoDigitHex (Some (g * 51)) @ twoDigitHex (Some (b * 51))"
  if "0 \<le> g" "g < 6" "0 \<le> b" "b < 6"
proof -
  have "16 + 36 * r + 6 * g + b - 16 = 36 * r + 6 * g + b" and "(36 * r + 6 * g + b) mod 6 = b"
    and "(36 * r + 6 * g + b - b) div 6 = 6 * r + g" and "(6 * r + g) mod 6 = g"
    and "(6 * r + g - g) div 6 = r"
    using that by presburger+
  then show ?thesis
    by (simp only: cube_color_def Let_def)
qed

lemma cube_coordinates:
  assumes "16 \<le> i" and "i \<le> (231::int)"
  obtains r g b where "i = 16 + 36 * r + 6 * g + b" "0 \<le> r" "r < 6" "0 \<le> g" "g < 6" "0 \<le> b" "b < 6"
proof -
  define n where "n = i - 16"
  have "6 * (n div 6) + n mod 6 = n" and "6 * (n div 6 div 6) + n div 6 mod 6 = n div 6"
    by simp_all
  then have "16 + 36 * (n div 6 div 6) + 6 * (n div 6 mod 6) + n mod 6 = 16 + n"
    by linarith
  then have "i = 16 + 36 * (n div 6 div 6) + 6 * (n div 6 mod 6) + n mod 6"
    by (simp add: n_def)
  moreover have "0 \<le> n div 6" and "n div 6 < 36"
    using assms by (simp_all add: n_def)
  ultimately show ?thesis
    by (intro that [of "n div 6 div 6" "n div 6 mod 6" "n mod 6"]) simp_all
qed

lemma cube_color_inj:
  assumes "16 \<le> i" "i \<le> 231" "16 \<le> j" "j \<le> 231" and "cube_color i = cube_color j"
  shows "i = j"
proof -
  obtain r g b where i: "i = 16 + 36 * r + 6 * g + b" "0 \<le> r" "r < 6" "0 \<le> g" "g < 6" "0 \<le> b" "b < 6"
    using cube_coordinates [OF assms(1,2)] .
  obtain r' g' b' where j: "j = 16 + 36 * r' + 6 * g' + b'" "0 \<le> r'" "r' < 6" "0 \<le> g'" "g' < 6"
    "0 \<le> b'" "b' < 6"
    using cube_coordinates [OF assms(3,4)] .
  have "twoDigitHex (Some (r * 51)) = twoDigitHex (Some (r' * 51)) \<and>
    twoDigitHex (Some (g * 51)) = twoDigitHex (Some (g' * 51)) \<and>
    twoDigitHex (Some (b * 51)) = twoDigitHex (Some (b' * 51))"
    using assms(5) i j cube_color_eq [of g b r] cube_color_eq [of g' b' r'] twoDigitHex_shape by simp
  then have h: "twoDigitHex (Some (r * 51)) = twoDigitHex (Some (r' * 51))"
    "twoDigitHex (Some (g * 51)) = twoDigitHex (Some (g' * 51))"
    "twoDigitHex (Some (b * 51)) = twoDigitHex (Some (b' * 51))"
    by simp_all
  have "r * 51 = r' * 51"
    by (rule twoDigitHex_inj [OF _ _ _ _ h(1)]) (use i j in simp_all)
  moreover have "g * 51 = g' * 51"
    by (rule twoDigitHex_inj [OF _ _ _ _ h(2)]) (use i j in simp_all)
  moreover have "b * 51 = b' * 51"
    by (rule twoDigitHex_inj [OF _ _ _ _ h(3)]) (use i j in simp_all)
  ultimately show ?thesis
    using i j by simp
qed

lemma named_index_range: "named_index i = None \<longleftrightarrow> i < 0 \<or> 15 < i"
  by (simp add: named_index_def) presburger

definition color_index :: "ansi_color \<Rightarrow> int" where
  "color_index c =
     (case c of Black \<Rightarrow> 0 | Red \<Rightarrow> 1 | Green \<Rightarrow> 2 | Yellow \<Rightarrow> 3 | Blue \<Rightarrow> 4 | Magenta \<Rightarrow> 5 | Cyan \<Rightarrow> 6
      | White \<Rightarrow> 7 | BrightBlack \<Rightarrow> 8 | BrightRed \<Rightarrow> 9 | BrightGreen \<Rightarrow> 10 | BrightYellow \<Rightarrow> 11
      | BrightBlue \<Rightarrow> 12 | BrightMagenta \<Rightarrow> 13 | BrightCyan \<Rightarrow> 14 | BrightWhite \<Rightarrow> 15)"

lemma color_index_named_index: "named_index i = Some c \<Longrightarrow> color_index c = i"
  by (auto simp: named_index_def color_index_def split: if_splits)

lemma named_index_inj: "named_index i = Some c \<Longrightarrow> named_index j = Some c \<Longrightarrow> i = j"
  using color_index_named_index by metis

text \<open>Only the parameters 38 and 48 consume further parameters.\<close>

lemma sgr_cases_consuming:
  "\<forall>(k, a) \<in> set sgr_cases. (a = SetForegroundFromParams \<longrightarrow> k = 38) \<and> (a = SetBackgroundFromParams \<longrightarrow> k = 48)"
  by (simp add: sgr_cases_def sgr_style_cases_def sgr_foreground_cases_def sgr_background_cases_def
      sgr_bright_cases_def)

lemma sgr_action_consuming:
  "sgr_action_of p = SetForegroundFromParams \<Longrightarrow> p = Some 38"
  "sgr_action_of p = SetBackgroundFromParams \<Longrightarrow> p = Some 48"
  using sgr_cases_consuming
  by (auto simp: sgr_action_of_def dest!: map_of_SomeD split: option.splits)

lemma apply_action_keeps_params:
  assumes "p \<noteq> Some 38" and "p \<noteq> Some 48"
  shows "snd (apply_action (sgr_action_of p) s ps) = ps"
  using assms sgr_action_consuming [of p] by (cases "sgr_action_of p") auto

section \<open>Properties\<close>

text \<open>
  Whatever SGR control sequences an output has processed, its SGR state is undefined or a
  state that is not neutral, whose style set is non-empty and duplicate-free and never holds both
  underlines or both blinks, and whose reversed flag is never stored as false.\<close>

theorem sgr_state_invariant: "sgr_ok (fold processSGR css None)"
proof -
  have "sgr_ok cur \<Longrightarrow> sgr_ok (fold processSGR css cur)" for cur
    by (induction css arbitrary: cur) (auto intro: sgr_ok_processSGR)
  then show ?thesis
    by (simp add: sgr_ok_def)
qed

text \<open>
  Two SGR states that the JSON comparison calls equivalent present the same format: the same
  styles in the same order, foreground, background and underline colours and font. Merging the text
  of two runs whose states are equivalent therefore never changes how a character is shown.\<close>

theorem sgr_equivalent_same_format:
  assumes "sgr_ok a" and "sgr_ok b" and "sgr_equivalent a b"
  shows "map_option (\<lambda>s. (sgr_styles s, foregroundColor s, sgr_background s, sgr_underlined s, sgr_font s)) a
    = map_option (\<lambda>s. (sgr_styles s, foregroundColor s, sgr_background s, sgr_underlined s, sgr_font s)) b"
proof (cases a)
  case None
  with assms show ?thesis
    by (simp add: sgr_equivalent_def)
next
  case (Some s)
  with assms(3) obtain t where t: "b = Some t" "json_fields s = json_fields t"
    by (cases b) (auto simp: sgr_equivalent_def)
  with Some assms have "sgr_wf s" and "sgr_wf t"
    by (auto simp: sgr_ok_def)
  from json_fields_same [OF this t(2)] have "foregroundColor s = foregroundColor t"
    unfolding foregroundColor_def by metis
  with json_fields_same [OF \<open>sgr_wf s\<close> \<open>sgr_wf t\<close> t(2)] Some t show ?thesis
    by simp
qed

theorem sgr_equivalent_same_format_witness:
  "map_option foregroundColor (processSGR (js ''1;31m'') None)
     = map_option foregroundColor (processSGR (js ''31m'') (processSGR (js ''1m'') None))"
proof -
  let ?a = "processSGR (js ''1;31m'') None"
  let ?b = "processSGR (js ''31m'') (processSGR (js ''1m'') None)"
  have "sgr_ok ?a" and "sgr_ok ?b"
    using sgr_ok_processSGR by (auto simp: sgr_ok_def [of None])
  moreover have "sgr_equivalent ?a ?b"
    by code_simp
  ultimately have "map_option (\<lambda>s. (sgr_styles s, foregroundColor s, sgr_background s,
      sgr_underlined s, sgr_font s)) ?a
    = map_option (\<lambda>s. (sgr_styles s, foregroundColor s, sgr_background s,
      sgr_underlined s, sgr_font s)) ?b"
    by (rule sgr_equivalent_same_format)
  from arg_cong [OF this, where f = "map_option (fst \<circ> snd)"] show ?thesis
    by (simp add: option.map_comp comp_def)
qed

text \<open>The colours as they were asked for, read through the flag.\<close>

definition asked_colors :: "sgr_state \<Rightarrow> color option \<times> color option" where
  "asked_colors s = (if is_reversed s then (sgr_background s, sgr_foreground s)
     else (sgr_foreground s, sgr_background s))"

text \<open>
  The reversed flag swaps the stored colours and nothing else. Read through the flag (the
  colour asked for as foreground and the one asked for as background), setting a colour changes
  exactly that colour, and turning the flag on or off changes neither.\<close>

theorem reversed_colors_refinement:
  "asked_colors (setForegroundColor c s) = (c, snd (asked_colors s)) \<and>
   asked_colors (setBackgroundColor c s) = (fst (asked_colors s), c) \<and>
   asked_colors (setReversed r s) = asked_colors s \<and>
   is_reversed (setReversed r s) = r \<and>
   is_reversed (setForegroundColor c s) = is_reversed s \<and>
   is_reversed (setBackgroundColor c s) = is_reversed s"
  by (auto simp: asked_colors_def sgr_defs)

text \<open>
  The 256-colour parameter: exactly the indexes 0 to 255 give a colour, the first sixteen a
  named one and the others a well-formed \<open>#rrggbb\<close> string, and no two indexes up to 231 give the same
  colour.\<close>

theorem indexed_color_spec:
  "(indexed_color (Some i) \<noteq> None \<longleftrightarrow> 0 \<le> i \<and> i \<le> 255) \<and>
   (\<exists>c. indexed_color (Some i) = Some (Ansi c)) = (0 \<le> i \<and> i \<le> 15) \<and>
   (\<forall>s. indexed_color (Some i) = Some (Css s) \<longrightarrow> css_rgb s) \<and>
   (0 \<le> i \<and> i \<le> 231 \<and> 0 \<le> j \<and> j \<le> 231 \<and> indexed_color (Some i) = indexed_color (Some j) \<longrightarrow> i = j)"
proof (intro conjI)
  show "indexed_color (Some i) \<noteq> None \<longleftrightarrow> 0 \<le> i \<and> i \<le> 255"
    using named_index_range [of i] by (auto simp: indexed_color_def split: option.splits)
  show "(\<exists>c. indexed_color (Some i) = Some (Ansi c)) = (0 \<le> i \<and> i \<le> 15)"
    using named_index_range [of i] by (auto simp: indexed_color_def split: option.splits)
  show "\<forall>s. indexed_color (Some i) = Some (Css s) \<longrightarrow> css_rgb s"
    by (auto simp: indexed_color_def css_rgb_cube css_rgb_gray split: option.splits if_splits)
  show "0 \<le> i \<and> i \<le> 231 \<and> 0 \<le> j \<and> j \<le> 231 \<and> indexed_color (Some i) = indexed_color (Some j) \<longrightarrow> i = j"
    using named_index_inj named_index_range [of i] named_index_range [of j]
    by (auto simp: indexed_color_def intro: cube_color_inj split: option.splits)
qed

theorem indexed_color_spec_witness:
  "css_rgb (js ''#ff0000'') \<and> indexed_color (Some 196) = Some (Css (js ''#ff0000'')) \<and>
   indexed_color (Some 196) \<noteq> indexed_color (Some 21)"
proof -
  have red: "indexed_color (Some 196) = Some (Css (js ''#ff0000''))"
    by code_simp
  then have "css_rgb (js ''#ff0000'')"
    using indexed_color_spec [of 196 0] by blast
  moreover have "indexed_color (Some 196) \<noteq> indexed_color (Some 21)"
    using indexed_color_spec [of 196 21] by auto
  ultimately show ?thesis
    using red by blast
qed

text \<open>
  An empty parameter is a reset wherever it ends the list: after \<open>CSI m\<close>, \<open>CSI 0 m\<close>, or any
  \<open>CSI n ; m\<close> with a parameter that is not a set-colour one, the SGR state is undefined, whatever it
  was before.\<close>

theorem trailing_empty_parameter_resets:
  assumes "59 \<notin> set p" and "parse_int p \<noteq> Some 38" and "parse_int p \<noteq> Some 48"
  shows "processSGR (p @ js '';m'') cur = None \<and> processSGR (js ''m'') cur = None"
proof -
  have act: "sgr_action_of (Some 0) = Reset" by code_simp
  have neutral: "isNeutral (reset s)" for s
    by (simp add: isNeutral_def reset_def)
  have params: "sgr_params (p @ js '';m'') = [if p = [] then Some 0 else parse_int p, Some 0]"
    using js_split_append_sep [OF assms(1), of "[]"] by (simp add: sgr_params_def js_slice_last butlast_append)
  let ?q = "if p = [] then Some 0 else parse_int p"
  have "?q \<noteq> Some 38" and "?q \<noteq> Some 48"
    using assms(2,3) by simp_all
  then have "isNeutral (sgr_loop s (sgr_params (p @ js '';m'')))" for s
    unfolding params using apply_action_keeps_params [of ?q s "[Some 0]"] act neutral
    by (simp add: prod.case_eq_if)
  then have "processSGR (p @ js '';m'') cur = None"
    by (simp only: processSGR_def Let_def if_True)
  moreover have "processSGR (js ''m'') cur = None"
    using act neutral by (simp add: processSGR_def sgr_params_def js_slice_last)
  ultimately show ?thesis ..
qed

theorem trailing_empty_parameter_resets_witness:
  "processSGR (js ''31'' @ js '';m'') (Some new_SGRState) = None"
proof -
  have "59 \<notin> set (js ''31'')" "parse_int (js ''31'') \<noteq> Some 38" "parse_int (js ''31'') \<noteq> Some 48"
    by code_simp+
  from trailing_empty_parameter_resets [OF this] show ?thesis by blast
qed

end
