(* ===== verification/Ansi_Line.thy ===== *)
theory Ansi_Line
  imports Ansi_Sgr "HOL-Library.AList"
begin

text \<open>
  The text of one line of console output: the classes \<open>Hyperlink\<close>, \<open>OutputRun\<close> and \<open>OutputLine\<close> of
  \<open>src/vs/base/common/ansiOutput.ts\<close>, every method included. The identifiers that the constructors
  draw with \<open>generateUuid\<close> are left out: no operation reads them.

  A line is a list of runs and the total length it keeps beside them. Its meaning is the list of its
  cells (\<open>line_cells\<close>), each a code unit with the format it is shown in; two runs have the same format
  exactly when the code finds their SGR states and their hyperlinks equivalent. The lemmas relate the
  operations to overwriting and erasing cells, and show where the run bookkeeping loses text.
\<close>

section \<open>Hyperlinks\<close>

record hyperlink =
  link_url :: jsstring
  link_params :: "(jsstring \<times> jsstring) list option"

text \<open>\<open>param.match(/^(.+)=(.*)$/)\<close>: the greedy first group ends before the last equals sign.\<close>

definition match_key_value :: "jsstring \<Rightarrow> (jsstring \<times> jsstring) option" where
  "match_key_value param =
     (let i = last_index_of param (ch CHR ''='')
      in if i < 1 \<or> list_ex is_line_terminator param then None
         else Some (take (nat i) param, drop (Suc (nat i)) param))"

definition add_param ::
    "jsstring \<Rightarrow> (jsstring \<times> jsstring) list option \<Rightarrow> (jsstring \<times> jsstring) list option" where
  "add_param param acc =
     (case match_key_value param of
        None \<Rightarrow> acc
      | Some (k, v) \<Rightarrow>
          (if js_trim k = [] then acc
           else Some (AList.update (js_trim k) (js_trim v) (case acc of None \<Rightarrow> [] | Some m \<Rightarrow> m))))"

definition new_Hyperlink :: "jsstring \<Rightarrow> jsstring \<Rightarrow> hyperlink" where
  "new_Hyperlink url params =
     \<lparr>link_url = url,
      link_params = (if params = [] then None
        else fold add_param (js_split (ch CHR '':'') params) None)\<rparr>"

definition link_equivalent :: "hyperlink option \<Rightarrow> hyperlink option \<Rightarrow> bool" where
  "link_equivalent a b \<longleftrightarrow> map_option link_url a = map_option link_url b"

section \<open>Runs\<close>

record output_run =
  run_text :: jsstring
  run_sgr :: "sgr_state option"
  run_link :: "hyperlink option"

definition new_OutputRun :: "jsstring \<Rightarrow> sgr_state option \<Rightarrow> hyperlink option \<Rightarrow> output_run" where
  "new_OutputRun text sgrState link = \<lparr>run_text = text, run_sgr = sgrState, run_link = link\<rparr>"

definition appendText :: "jsstring \<Rightarrow> output_run \<Rightarrow> output_run" where
  "appendText text r = r\<lparr>run_text := run_text r @ text\<rparr>"

definition same_format :: "output_run \<Rightarrow> sgr_state option \<Rightarrow> hyperlink option \<Rightarrow> bool" where
  "same_format r s l \<longleftrightarrow> sgr_equivalent (run_sgr r) s \<and> link_equivalent (run_link r) l"

text \<open>
  \<open>OutputRun.optimizeOutputRuns\<close>. The loop mutates the run objects of the array it is given
  (\<open>leftOutputRun._text += ...\<close>) while a second array collects references to some of them, so the model
  keeps the runs in one list, updated in place, and the optimized array as the list of the indexes of
  the runs it refers to. The assignment \<open>optimizedOutputRuns[++left]\<close> is always at the end of that
  array. The source calls the function on arrays of two runs or more only.
\<close>

function opt_loop :: "output_run list \<Rightarrow> nat list \<Rightarrow> nat \<Rightarrow> nat \<Rightarrow> output_run list \<times> nat list" where
  "opt_loop rs kept left right =
     (if right < length rs
      then (if same_format (rs ! left) (run_sgr (rs ! right)) (run_link (rs ! right))
            then opt_loop (rs[left := appendText (run_text (rs ! right)) (rs ! left)]) kept left (Suc right)
            else opt_loop rs (kept @ [right]) (Suc left) (Suc right))
      else (rs, kept))"
  by pat_completeness auto
termination
  by (relation "measure (\<lambda>(rs, kept, left, right). length rs - right)") auto

declare opt_loop.simps [simp del]

definition optimizeOutputRuns :: "output_run list \<Rightarrow> output_run list" where
  "optimizeOutputRuns rs =
     (if rs = [] then [] else case opt_loop rs [0] 0 1 of (rs', kept) \<Rightarrow> map ((!) rs') kept)"

section \<open>Lines\<close>

record output_line =
  line_runs :: "output_run list"
  line_total :: int

definition new_OutputLine :: output_line where
  "new_OutputLine = \<lparr>line_runs = [], line_total = 0\<rparr>"

definition run_len :: "output_run \<Rightarrow> int" where
  "run_len r = int (length (run_text r))"

definition clearEntireLine :: "output_line \<Rightarrow> output_line" where
  "clearEntireLine L =
     (if line_total L \<noteq> 0
      then L\<lparr>line_runs := [new_OutputRun (blanks (line_total L)) None None]\<rparr> else L)"

text \<open>
  The forward search for the run a column falls into: the index of the run and the offset at which it
  starts.
\<close>

fun find_left :: "output_run list \<Rightarrow> int \<Rightarrow> int \<Rightarrow> nat \<Rightarrow> (nat \<times> int) option" where
  "find_left [] column leftOffset index = None"
| "find_left (r # rs) column leftOffset index =
     (if column < leftOffset + run_len r then Some (index, leftOffset)
      else find_left rs column (leftOffset + run_len r) (Suc index))"

text \<open>
  The backward search: the runs from the last one on, the offset at which the current one ends, the
  number of runs before and including it. The test is on the offset at which the run starts.
\<close>

fun find_right :: "(int \<Rightarrow> bool) \<Rightarrow> output_run list \<Rightarrow> int \<Rightarrow> nat \<Rightarrow> (nat \<times> int) option" where
  "find_right test [] rightOffset n = None"
| "find_right test (r # rs) rightOffset n =
     (if test (rightOffset - run_len r) then Some (n - 1, rightOffset)
      else find_right test rs (rightOffset - run_len r) (n - 1))"

definition clearToEndOfLine :: "int \<Rightarrow> output_line \<Rightarrow> output_line" where
  "clearToEndOfLine column0 L =
     (let column = max column0 0 in
      if column \<ge> line_total L then L
      else if column = 0 then clearEntireLine L
      else case find_left (line_runs L) column 0 0 of
        None \<Rightarrow> L
      | Some (leftIndex, leftOffset) \<Rightarrow>
          (let leftRun = line_runs L ! leftIndex;
               leftTextLength = column - leftOffset;
               erasure = new_OutputRun (blanks (line_total L - column)) None None;
               newRuns = (if leftTextLength = 0 then [erasure]
                 else [new_OutputRun (js_slice (run_text leftRun) 0 leftTextLength)
                         (run_sgr leftRun) (run_link leftRun), erasure])
           in L\<lparr>line_runs := js_splice (line_runs L) (int leftIndex)
                (int (length (line_runs L)) - int leftIndex) newRuns\<rparr>))"

definition clearToBeginningOfLine :: "int \<Rightarrow> output_line \<Rightarrow> output_line" where
  "clearToBeginningOfLine column0 L =
     (let column = max column0 0 in
      if column = 0 then L
      else if column \<ge> line_total L then clearEntireLine L
      else case find_right (\<lambda>start. column \<ge> start) (rev (line_runs L)) 0 (length (line_runs L)) of
        None \<Rightarrow> L
      | Some (rightIndex, rightOffset) \<Rightarrow>
          (let rightRun = line_runs L ! rightIndex;
               rightTextLength = rightOffset - column;
               erasure = new_OutputRun (blanks column) None None;
               newRuns = (if rightTextLength = 0 then [erasure]
                 else [erasure, new_OutputRun (js_slice_from (run_text rightRun) (- rightTextLength))
                         (run_sgr rightRun) (run_link rightRun)])
           in L\<lparr>line_runs := js_splice (line_runs L) 0
                (int (length (line_runs L)) - int rightIndex) newRuns\<rparr>))"

text \<open>\<open>OutputLine.insert\<close>, in the parts the source separates by its early returns.\<close>

definition append_last :: "jsstring \<Rightarrow> output_run list \<Rightarrow> output_run list" where
  "append_last text rs = butlast rs @ [appendText text (last rs)]"

definition insert_at_end ::
    "jsstring \<Rightarrow> sgr_state option \<Rightarrow> hyperlink option \<Rightarrow> output_line \<Rightarrow> output_line" where
  "insert_at_end text s l L =
     (let rs = line_runs L in
      if rs \<noteq> [] \<and> same_format (last rs) s l
      then \<lparr>line_runs = append_last text rs, line_total = line_total L + int (length text)\<rparr>
      else \<lparr>line_runs = rs @ [new_OutputRun text s l], line_total = line_total L + int (length text)\<rparr>)"

definition insert_past_end ::
    "jsstring \<Rightarrow> int \<Rightarrow> sgr_state option \<Rightarrow> hyperlink option \<Rightarrow> output_line \<Rightarrow> output_line" where
  "insert_past_end text column s l L =
     (let rs = line_runs L; spacer = blanks (column - line_total L);
          total = line_total L + int (length spacer) + int (length text) in
      if rs \<noteq> [] \<and> same_format (last rs) s l
      then \<lparr>line_runs = append_last (spacer @ text) rs, line_total = total\<rparr>
      else \<lparr>line_runs = rs @ [new_OutputRun spacer None None, new_OutputRun text s l],
            line_total = total\<rparr>)"

definition insert_over_left ::
    "jsstring \<Rightarrow> int \<Rightarrow> sgr_state option \<Rightarrow> hyperlink option \<Rightarrow> nat \<Rightarrow> int \<Rightarrow> output_line \<Rightarrow> output_line" where
  "insert_over_left text column s l leftIndex leftOffset L =
     (let leftTextLength = column - leftOffset;
          leftRun = line_runs L ! leftIndex;
          leftText = js_slice (run_text leftRun) 0 leftTextLength;
          newRuns = (if leftTextLength = 0 then [new_OutputRun text s l]
            else if same_format leftRun s l then [new_OutputRun (leftText @ text) s l]
            else [new_OutputRun leftText (run_sgr leftRun) (run_link leftRun), new_OutputRun text s l])
      in \<lparr>line_runs = js_splice (line_runs L) (int leftIndex)
             (int (length (line_runs L)) - int leftIndex) newRuns,
          line_total = leftOffset + leftTextLength + int (length text)\<rparr>)"

text \<open>The runs after the splice that replaces the runs from the left one to the right one.\<close>

definition spliced_runs ::
    "jsstring \<Rightarrow> int \<Rightarrow> sgr_state option \<Rightarrow> hyperlink option \<Rightarrow> nat \<Rightarrow> int \<Rightarrow> nat \<Rightarrow> int \<Rightarrow>
     output_run list \<Rightarrow> output_run list" where
  "spliced_runs text column s l leftIndex leftOffset rightIndex rightOffset rs =
     (let leftLen = column - leftOffset;
          leftRun = rs ! leftIndex;
          leftPart = (if leftLen = 0 then []
            else [new_OutputRun (js_slice (run_text leftRun) 0 leftLen) (run_sgr leftRun) (run_link leftRun)]);
          rightLen = rightOffset - (column + int (length text));
          rightRun = rs ! rightIndex;
          rightPart = (if rightLen = 0 then []
            else [new_OutputRun (js_slice_from (run_text rightRun) (- rightLen))
                    (run_sgr rightRun) (run_link rightRun)])
      in js_splice rs (int leftIndex) (int rightIndex - int leftIndex + 1)
           (leftPart @ [new_OutputRun text s l] @ rightPart))"

definition insert_between ::
    "jsstring \<Rightarrow> int \<Rightarrow> sgr_state option \<Rightarrow> hyperlink option \<Rightarrow> nat \<Rightarrow> int \<Rightarrow> output_line \<Rightarrow> output_line" where
  "insert_between text column s l leftIndex leftOffset L =
     (case find_right (\<lambda>start. column + int (length text) > start) (rev (line_runs L)) (line_total L)
             (length (line_runs L)) of
        None \<Rightarrow> L\<lparr>line_runs := line_runs L @ [new_OutputRun text s l]\<rparr>
      | Some (rightIndex, rightOffset) \<Rightarrow>
          (let spliced = spliced_runs text column s l leftIndex leftOffset rightIndex rightOffset (line_runs L);
               rs = (if length spliced > 1 then optimizeOutputRuns spliced else spliced)
           in \<lparr>line_runs = rs, line_total = sum_list (map run_len rs)\<rparr>))"

definition line_insert ::
    "jsstring \<Rightarrow> int \<Rightarrow> sgr_state option \<Rightarrow> hyperlink option \<Rightarrow> output_line \<Rightarrow> output_line" where
  "line_insert text column s l L =
     (if text = [] then L
      else if column = line_total L then insert_at_end text s l L
      else if column > line_total L then insert_past_end text column s l L
      else case find_left (line_runs L) column 0 0 of
        None \<Rightarrow> L\<lparr>line_runs := line_runs L @ [new_OutputRun text s l]\<rparr>
      | Some (leftIndex, leftOffset) \<Rightarrow>
          if column + int (length text) \<ge> line_total L
          then insert_over_left text column s l leftIndex leftOffset L
          else insert_between text column s l leftIndex leftOffset L)"

section \<open>Cells\<close>

type_synonym format = "(sgr_key \<times> json_value) list option \<times> jsstring option"

type_synonym cell = "jschar \<times> format"

definition fmt :: "sgr_state option \<Rightarrow> hyperlink option \<Rightarrow> format" where
  "fmt s l = (map_option json_fields s, map_option link_url l)"

abbreviation run_fmt :: "output_run \<Rightarrow> format" where
  "run_fmt r \<equiv> fmt (run_sgr r) (run_link r)"

definition styled :: "jsstring \<Rightarrow> format \<Rightarrow> cell list" where
  "styled text f = map (\<lambda>c. (c, f)) text"

definition run_cells :: "output_run \<Rightarrow> cell list" where
  "run_cells r = styled (run_text r) (run_fmt r)"

definition runs_cells :: "output_run list \<Rightarrow> cell list" where
  "runs_cells rs = concat (map run_cells rs)"

definition line_cells :: "output_line \<Rightarrow> cell list" where
  "line_cells L = runs_cells (line_runs L)"

abbreviation neutral :: format where
  "neutral \<equiv> fmt None None"

definition blank_cells :: "nat \<Rightarrow> cell list" where
  "blank_cells n = replicate n (32, neutral)"

text \<open>The bookkeeping is right when the total length is the number of cells.\<close>

definition line_ok :: "output_line \<Rightarrow> bool" where
  "line_ok L \<longleftrightarrow> line_total L = int (length (line_cells L))"

text \<open>Overwriting cells from a column on, as a terminal does.\<close>

definition overwrite :: "'a list \<Rightarrow> nat \<Rightarrow> 'a list \<Rightarrow> 'a list" where
  "overwrite xs n ys = take n xs @ ys @ drop (n + length ys) xs"

lemma same_format_iff: "same_format r s l \<longleftrightarrow> run_fmt r = fmt s l"
  by (simp add: same_format_def sgr_equivalent_def link_equivalent_def fmt_def)

lemma styled_simps [simp]:
  "styled [] f = []"
  "styled (c # cs) f = (c, f) # styled cs f"
  "styled (xs @ ys) f = styled xs f @ styled ys f"
  "length (styled xs f) = length xs"
  "map fst (styled xs f) = xs"
  by (simp_all add: styled_def comp_def)

lemma take_styled: "take n (styled xs f) = styled (take n xs) f"
  by (simp add: styled_def take_map)

lemma drop_styled: "drop n (styled xs f) = styled (drop n xs) f"
  by (simp add: styled_def drop_map)

lemma styled_blanks: "styled (blanks n) neutral = blank_cells (nat n)"
  by (simp add: styled_def blanks_def blank_cells_def)

lemma length_blank_cells [simp]: "length (blank_cells n) = n"
  by (simp add: blank_cells_def)

lemma run_cells_new [simp]: "run_cells (new_OutputRun t s l) = styled t (fmt s l)"
  by (simp add: run_cells_def new_OutputRun_def)

lemma run_fmt_new [simp]: "run_fmt (new_OutputRun t s l) = fmt s l"
  by (simp add: new_OutputRun_def)

lemma run_text_new [simp]: "run_text (new_OutputRun t s l) = t"
  by (simp add: new_OutputRun_def)

lemma run_fmt_append [simp]: "run_fmt (appendText t r) = run_fmt r"
  by (simp add: appendText_def)

lemma run_cells_append [simp]: "run_cells (appendText t r) = run_cells r @ styled t (run_fmt r)"
  by (simp add: run_cells_def appendText_def)

lemma length_run_cells: "int (length (run_cells r)) = run_len r"
  by (simp add: run_cells_def run_len_def)

lemma runs_cells_simps [simp]:
  "runs_cells [] = []"
  "runs_cells (r # rs) = run_cells r @ runs_cells rs"
  "runs_cells (rs @ rs') = runs_cells rs @ runs_cells rs'"
  by (simp_all add: runs_cells_def)

lemma styled_concat:
  "list_all (\<lambda>f. f = g) (map run_fmt rs) \<Longrightarrow> styled (concat (map run_text rs)) g = runs_cells rs"
  by (induction rs) (auto simp: run_cells_def)

lemma sum_run_len: "sum_list (map run_len rs) = int (length (runs_cells rs))"
  by (induction rs) (simp_all add: length_run_cells)

lemma runs_cells_split:
  "k < length rs \<Longrightarrow> runs_cells rs = runs_cells (take k rs) @ run_cells (rs ! k) @ runs_cells (drop (Suc k) rs)"
  unfolding runs_cells_def by (rule concat_map_take_drop)

lemma take_runs_cells:
  assumes "k < length rs" and "lo = length (runs_cells (take k rs))" and "lo \<le> c"
    and "c \<le> lo + length (run_cells (rs ! k))"
  shows "take c (runs_cells rs) = runs_cells (take k rs) @ take (c - lo) (run_cells (rs ! k))"
  using assms by (simp add: runs_cells_split [OF assms(1)])

lemma drop_runs_cells:
  assumes "k < length rs" and "lo = length (runs_cells (take k rs))" and "lo \<le> c"
    and "c \<le> lo + length (run_cells (rs ! k))"
  shows "drop c (runs_cells rs) = drop (c - lo) (run_cells (rs ! k)) @ runs_cells (drop (Suc k) rs)"
  using assms by (simp add: runs_cells_split [OF assms(1)])

lemma length_overwrite:
  "n + length ys \<le> length xs \<Longrightarrow> length (overwrite xs n ys) = length xs"
  by (simp add: overwrite_def)

section \<open>The searches\<close>

lemma find_left_offset:
  assumes "find_left rs column off idx = Some (i, lo)" and "off \<le> column"
  shows "\<exists>k < length rs. i = idx + k \<and> lo = off + int (length (runs_cells (take k rs))) \<and>
    lo \<le> column \<and> column < lo + run_len (rs ! k)"
  using assms
proof (induction rs column off idx rule: find_left.induct)
  case (2 r rs column off idx)
  show ?case
  proof (cases "column < off + run_len r")
    case True
    with 2(2,3) show ?thesis
      by (intro exI [of _ 0]) auto
  next
    case False
    with 2 obtain k where "k < length rs" "i = Suc idx + k"
      "lo = off + run_len r + int (length (runs_cells (take k rs)))" "lo \<le> column"
      "column < lo + run_len (rs ! k)"
      by auto
    then show ?thesis
      by (intro exI [of _ "Suc k"]) (simp add: length_run_cells [symmetric])
  qed
qed simp

lemma find_left_exists:
  "off \<le> column \<Longrightarrow> column < off + int (length (runs_cells rs)) \<Longrightarrow> find_left rs column off idx \<noteq> None"
proof (induction rs column off idx rule: find_left.induct)
  case (2 r rs column off idx)
  then show ?case
    using length_run_cells [of r] by auto
qed simp

text \<open>From offset 0: the run the column falls into.\<close>

lemma find_left_found:
  assumes "0 \<le> column" and "column < int (length (runs_cells rs))"
  obtains k where "find_left rs column 0 0 = Some (k, int (length (runs_cells (take k rs))))"
    "k < length rs" "int (length (runs_cells (take k rs))) \<le> column"
    "column < int (length (runs_cells (take k rs))) + run_len (rs ! k)"
proof -
  obtain i lo where e: "find_left rs column 0 0 = Some (i, lo)"
    using find_left_exists [of 0 column rs 0] assms by fastforce
  from find_left_offset [OF this assms(1)] show ?thesis
    using that e by auto
qed

lemma find_right_offset:
  assumes "find_right test (rev rs) (int (length (runs_cells rs))) (length rs) = Some (i, ro)"
  shows "i < length rs \<and> ro = int (length (runs_cells (take (Suc i) rs))) \<and> test (ro - run_len (rs ! i)) \<and>
    (Suc i < length rs \<longrightarrow> \<not> test ro)"
  using assms
proof (induction rs arbitrary: i ro rule: rev_induct)
  case (snoc r rs)
  let ?start = "int (length (runs_cells rs))"
  have end_r: "int (length (runs_cells (rs @ [r]))) - run_len r = ?start"
    using length_run_cells [of r] by simp
  show ?case
  proof (cases "test ?start")
    case True
    with snoc.prems end_r show ?thesis
      by (auto simp: length_run_cells)
  next
    case False
    with snoc.prems end_r have "find_right test (rev rs) ?start (length rs) = Some (i, ro)"
      by auto
    from snoc.IH [OF this] False show ?thesis
      by (auto simp: nth_append less_Suc_eq)
  qed
qed simp

lemma find_right_exists:
  assumes "rs \<noteq> []" and "test 0"
  shows "find_right test (rev rs) (int (length (runs_cells rs))) (length rs) \<noteq> None"
  using assms(1)
proof (induction rs rule: rev_induct)
  case (snoc r rs)
  show ?case
  proof (cases "rs = []")
    case True
    with assms(2) show ?thesis
      by (simp add: length_run_cells)
  next
    case False
    with snoc.IH show ?thesis
      by (auto simp: length_run_cells)
  qed
qed simp

section \<open>Optimizing runs\<close>

text \<open>
  The lists of formats on which \<open>optimizeOutputRuns\<close> is right. The loop compares the run at
  \<open>right\<close> with the run at \<open>left\<close> of the array it reads, not with the last run it has kept; the two
  are the same run until a run is kept after a merge. The condition is that no run is merged when
  they differ.
\<close>

function opt_keeps :: "'a list \<Rightarrow> nat \<Rightarrow> nat \<Rightarrow> nat \<Rightarrow> bool" where
  "opt_keeps fs left lastKept right =
     (if right < length fs
      then (if fs ! left = fs ! right then left = lastKept \<and> opt_keeps fs left lastKept (Suc right)
            else opt_keeps fs (Suc left) right (Suc right))
      else True)"
  by pat_completeness auto
termination
  by (relation "measure (\<lambda>(fs, left, lastKept, right). length fs - right)") auto

declare opt_keeps.simps [simp del]

lemma opt_keeps_all_equal:
  "list_all (\<lambda>z. z = x) fs \<Longrightarrow> left < right \<Longrightarrow> opt_keeps fs left left right"
proof (induction "length fs - right" arbitrary: right rule: less_induct)
  case less
  then show ?case
    by (auto simp: opt_keeps.simps [of fs left left right] list_all_length)
qed

text \<open>One merge into the last kept run appends the cells of the merged one.\<close>

lemma merge_last_kept:
  assumes "kept \<noteq> []" and "distinct kept" and "last kept = left" and "left < length rs"
    and "run_fmt (rs ! left) = run_fmt r"
  shows "runs_cells (map ((!) (rs[left := appendText (run_text r) (rs ! left)])) kept) =
    runs_cells (map ((!) rs) kept) @ run_cells r"
proof -
  obtain ks where k: "kept = ks @ [left]"
    using assms(1,3) by (metis append_butlast_last_id)
  then have "map ((!) (rs[left := appendText (run_text r) (rs ! left)])) ks = map ((!) rs) ks"
    using assms(2) by (intro map_cong refl nth_list_update_neq) auto
  then have "runs_cells (map ((!) (rs[left := appendText (run_text r) (rs ! left)])) ks) =
      runs_cells (map ((!) rs) ks)"
    by (simp only:)
  then show ?thesis
    using k assms(4,5) by (simp add: run_cells_def [of r])
qed

lemma opt_loop_cells:
  assumes "kept \<noteq> []" and "distinct kept" and "\<forall>k \<in> set kept. k < right" and "left < right"
    and "opt_keeps (map (\<lambda>r. run_fmt r) rs) left (last kept) right"
  shows "case opt_loop rs kept left right of (rs', kept') \<Rightarrow>
    runs_cells (map ((!) rs') kept') = runs_cells (map ((!) rs) kept) @ runs_cells (drop right rs)"
  using assms
proof (induction rs kept left right rule: opt_loop.induct)
  case (1 rs kept left right)
  show ?case
  proof (cases "right < length rs")
    case True
    then have d: "drop right rs = rs ! right # drop (Suc right) rs"
      by (simp add: Cons_nth_drop_Suc)
    have left: "left < length rs"
      using 1(6) True by simp
    show ?thesis
    proof (cases "run_fmt (rs ! left) = run_fmt (rs ! right)")
      case same: True
      let ?rs = "rs[left := appendText (run_text (rs ! right)) (rs ! left)]"
      have sf: "same_format (rs ! left) (run_sgr (rs ! right)) (run_link (rs ! right))"
        using same by (simp add: same_format_iff)
      have fmts: "map (\<lambda>r. run_fmt r) ?rs = map (\<lambda>r. run_fmt r) rs"
        using left by (simp add: map_update list_update_same_conv)
      have keeps: "left = last kept" "opt_keeps (map (\<lambda>r. run_fmt r) rs) left (last kept) (Suc right)"
        using 1(7) True same left by (auto simp: opt_keeps.simps [of _ left _ right])
      have "case opt_loop ?rs kept left (Suc right) of (rs', kept') \<Rightarrow>
          runs_cells (map ((!) rs') kept') = runs_cells (map ((!) ?rs) kept) @ runs_cells (drop (Suc right) ?rs)"
        by (rule 1(1) [OF True sf]) (use 1(3-6) keeps fmts in \<open>auto simp: less_Suc_eq\<close>)
      then show ?thesis
        using merge_last_kept [OF 1(3,4) keeps(1) [symmetric] left same] True sf d 1(6)
        by (simp add: opt_loop.simps [of rs kept left right])
    next
      case False
      have nsf: "\<not> same_format (rs ! left) (run_sgr (rs ! right)) (run_link (rs ! right))"
        using False by (simp add: same_format_iff)
      have keeps: "opt_keeps (map (\<lambda>r. run_fmt r) rs) (Suc left) right (Suc right)"
        using 1(7) True False left by (auto simp: opt_keeps.simps [of _ left _ right])
      have "case opt_loop rs (kept @ [right]) (Suc left) (Suc right) of (rs', kept') \<Rightarrow>
          runs_cells (map ((!) rs') kept') =
          runs_cells (map ((!) rs) (kept @ [right])) @ runs_cells (drop (Suc right) rs)"
        by (rule 1(2) [OF True nsf]) (use 1(3-6) keeps in \<open>auto simp: less_Suc_eq\<close>)
      then show ?thesis
        using True nsf d by (simp add: opt_loop.simps [of rs kept left right])
    qed
  next
    case False
    then show ?thesis
      by (simp add: opt_loop.simps [of rs kept left right])
  qed
qed

definition opt_safe :: "output_run list \<Rightarrow> bool" where
  "opt_safe rs \<longleftrightarrow> opt_keeps (map (\<lambda>r. run_fmt r) rs) 0 0 1"

lemma optimizeOutputRuns_cells:
  assumes "opt_safe rs"
  shows "runs_cells (optimizeOutputRuns rs) = runs_cells rs"
proof (cases rs)
  case (Cons r rs')
  then show ?thesis
    using opt_loop_cells [of "[0]" 1 0 rs] assms
    by (auto simp: optimizeOutputRuns_def opt_safe_def split: prod.splits)
qed (simp add: optimizeOutputRuns_def)

lemma opt_safe_one_format: "list_all (\<lambda>r. run_fmt r = f) rs \<Longrightarrow> opt_safe rs"
  unfolding opt_safe_def by (rule opt_keeps_all_equal [of f]) (simp_all add: list.pred_map comp_def)

section \<open>Erasing\<close>

lemma line_ok_new [simp]: "line_ok new_OutputLine"
  by (simp add: line_ok_def new_OutputLine_def line_cells_def)

lemma line_cells_new [simp]: "line_cells new_OutputLine = []"
  by (simp add: new_OutputLine_def line_cells_def)

lemma clearEntireLine_cells:
  "line_ok L \<Longrightarrow> line_cells (clearEntireLine L) = blank_cells (length (line_cells L))"
  by (auto simp: line_ok_def clearEntireLine_def line_cells_def styled_blanks blank_cells_def)

lemma clearEntireLine_total [simp]: "line_total (clearEntireLine L) = line_total L"
  by (simp add: clearEntireLine_def)

lemma clearToEndOfLine_total [simp]: "line_total (clearToEndOfLine c L) = line_total L"
  by (auto simp: clearToEndOfLine_def Let_def split: option.splits)

lemma clearToEndOfLine_cells:
  assumes "line_ok L"
  shows "line_cells (clearToEndOfLine c L) =
    take (nat c) (line_cells L) @ blank_cells (length (line_cells L) - nat c)"
proof -
  let ?c = "max c 0" and ?rs = "line_runs L"
  have total: "line_total L = int (length (runs_cells ?rs))"
    using assms by (simp add: line_ok_def line_cells_def)
  consider "?c \<ge> line_total L" | "?c = 0" "0 < line_total L" | "0 < c" "c < line_total L"
    by linarith
  then show ?thesis
  proof cases
    case 1
    then show ?thesis
      using total by (auto simp: clearToEndOfLine_def Let_def line_cells_def blank_cells_def)
  next
    case 2
    then show ?thesis
      using clearEntireLine_cells [OF assms] by (auto simp: clearToEndOfLine_def Let_def)
  next
    case 3
    then obtain k where k: "find_left ?rs c 0 0 = Some (k, int (length (runs_cells (take k ?rs))))"
      "k < length ?rs" "int (length (runs_cells (take k ?rs))) \<le> c"
      "c < int (length (runs_cells (take k ?rs))) + run_len (?rs ! k)"
      using find_left_found [of c ?rs] total by auto
    let ?lo = "length (runs_cells (take k ?rs))"
    have "nat c \<le> ?lo + length (run_cells (?rs ! k))" "?lo \<le> nat c"
      using k(3,4) length_run_cells [of "?rs ! k"] by linarith+
    from take_runs_cells [OF k(2) refl this(2,1)]
    have "take (nat c) (runs_cells ?rs) =
        runs_cells (take k ?rs) @ styled (take (nat c - ?lo) (run_text (?rs ! k))) (run_fmt (?rs ! k))"
      by (simp add: run_cells_def take_styled)
    moreover have "nat (c - int ?lo) = nat c - ?lo"
      using k(3) by (simp add: nat_diff_distrib)
    moreover have "nat (line_total L - c) = length (runs_cells ?rs) - nat c"
      using total 3 by (simp add: nat_diff_distrib)
    ultimately show ?thesis
      using 3 k(1-3) total
      by (auto simp: clearToEndOfLine_def Let_def line_cells_def js_simps styled_blanks)
  qed
qed

text \<open>
  Erasing to the beginning of the line starts its backward search at offset 0 instead of the end of
  the line, so it always takes the last run for the one that holds the column, and it replaces one
  run, the first. On a line of one run these are the same run and the result is right.
\<close>

lemma clearToBeginningOfLine_one_run:
  assumes "line_ok L" and "length (line_runs L) \<le> 1"
  shows "line_cells (clearToBeginningOfLine c L) =
      blank_cells (min (nat c) (length (line_cells L))) @ drop (nat c) (line_cells L)"
    and "line_total (clearToBeginningOfLine c L) = line_total L"
proof -
  have total: "line_total L = int (length (line_cells L))"
    using assms(1) by (simp add: line_ok_def)
  have "line_cells (clearToBeginningOfLine c L) =
      blank_cells (min (nat c) (length (line_cells L))) @ drop (nat c) (line_cells L) \<and>
    line_total (clearToBeginningOfLine c L) = line_total L"
  proof (cases "0 < c \<and> c < line_total L")
    case False
    then show ?thesis
      using total clearEntireLine_cells [OF assms(1)]
      by (auto simp: clearToBeginningOfLine_def Let_def blank_cells_def min_def)
  next
    case True
    then have "line_runs L \<noteq> []"
      using total by (auto simp: line_cells_def)
    then obtain r where r: "line_runs L = [r]"
      using assms(2) by (cases "line_runs L") auto
    have "max c 0 = c" using True by simp
    have "clearToBeginningOfLine c L =
        L\<lparr>line_runs := [new_OutputRun (blanks c) None None,
            new_OutputRun (drop (nat c) (run_text r)) (run_sgr r) (run_link r)]\<rparr>"
      using True r run_len_def [of r]
      by (simp add: clearToBeginningOfLine_def \<open>max c 0 = c\<close> Let_def js_simps)
    then show ?thesis
      using True r total
      by (auto simp: line_cells_def run_cells_def new_OutputRun_def drop_styled styled_blanks min_def)
  qed
  then show "line_cells (clearToBeginningOfLine c L) =
      blank_cells (min (nat c) (length (line_cells L))) @ drop (nat c) (line_cells L)"
    and "line_total (clearToBeginningOfLine c L) = line_total L"
    by simp_all
qed

lemma line_ok_clear:
  "line_ok L \<Longrightarrow> line_ok (clearEntireLine L)"
  "line_ok L \<Longrightarrow> line_ok (clearToEndOfLine c L)"
  using clearEntireLine_cells [of L] clearToEndOfLine_cells [of L c] by (auto simp: line_ok_def)

lemma line_ok_clearToBeginningOfLine:
  "line_ok L \<Longrightarrow> length (line_runs L) \<le> 1 \<Longrightarrow> line_ok (clearToBeginningOfLine c L)"
  using clearToBeginningOfLine_one_run [of L c] by (auto simp: line_ok_def)

section \<open>Inserting\<close>

lemma append_last_cells:
  "rs \<noteq> [] \<Longrightarrow> run_fmt (last rs) = f \<Longrightarrow> runs_cells (append_last t rs) = runs_cells rs @ styled t f"
  by (cases rs rule: rev_cases) (auto simp: append_last_def)

lemma insert_at_end_cells:
  "line_cells (insert_at_end text s l L) = line_cells L @ styled text (fmt s l)"
  "line_total (insert_at_end text s l L) = line_total L + int (length text)"
  by (auto simp: insert_at_end_def Let_def line_cells_def same_format_iff append_last_cells)

definition pad_format :: "output_line \<Rightarrow> format \<Rightarrow> format" where
  "pad_format L f = (if line_runs L \<noteq> [] \<and> run_fmt (last (line_runs L)) = f then f else neutral)"

lemma insert_past_end_cells:
  assumes "line_total L < column"
  shows "line_cells (insert_past_end text column s l L) =
      line_cells L @ styled (blanks (column - line_total L)) (pad_format L (fmt s l)) @ styled text (fmt s l)"
    and "line_total (insert_past_end text column s l L) = column + int (length text)"
  using assms
  by (auto simp: insert_past_end_def Let_def line_cells_def same_format_iff append_last_cells pad_format_def)

lemma insert_over_left_cells:
  assumes "k < length (line_runs L)" and "lo = int (length (runs_cells (take k (line_runs L))))"
    and "lo \<le> column" and "column < lo + run_len (line_runs L ! k)"
  shows "line_cells (insert_over_left text column s l k lo L) =
      take (nat column) (line_cells L) @ styled text (fmt s l)"
    and "line_total (insert_over_left text column s l k lo L) = column + int (length text)"
proof -
  let ?rs = "line_runs L"
  let ?lo = "length (runs_cells (take k ?rs))"
  have "nat column \<le> ?lo + length (run_cells (?rs ! k))" "?lo \<le> nat column"
    using assms length_run_cells [of "?rs ! k"] by linarith+
  from take_runs_cells [OF assms(1) refl this(2,1)]
  have "take (nat column) (runs_cells ?rs) =
      runs_cells (take k ?rs) @ styled (take (nat column - ?lo) (run_text (?rs ! k))) (run_fmt (?rs ! k))"
    by (simp add: run_cells_def take_styled)
  moreover have "nat (column - lo) = nat column - ?lo"
    using assms(2,3) by (simp add: nat_diff_distrib)
  ultimately show "line_cells (insert_over_left text column s l k lo L) =
      take (nat column) (line_cells L) @ styled text (fmt s l)"
    using assms(1-3) by (auto simp: insert_over_left_def Let_def line_cells_def js_simps same_format_iff)
  show "line_total (insert_over_left text column s l k lo L) = column + int (length text)"
    by (simp add: insert_over_left_def Let_def)
qed

text \<open>The splice replaces exactly the cells it should, before the runs are optimized.\<close>

lemma spliced_runs_cells:
  fixes column :: int
  assumes left: "li < length rs" "lo = int (length (runs_cells (take li rs)))" "lo \<le> column"
      "column < lo + run_len (rs ! li)"
    and right: "ri < length rs" "ro = int (length (runs_cells (take (Suc ri) rs)))"
      "ro - run_len (rs ! ri) < column + int (length text)" "column + int (length text) \<le> ro"
    and nonempty: "text \<noteq> []"
  shows "runs_cells (spliced_runs text column s l li lo ri ro rs) =
    overwrite (runs_cells rs) (nat column) (styled text (fmt s l))"
proof -
  let ?e = "nat column + length text"
  let ?lo = "length (runs_cells (take li rs))" and ?so = "length (runs_cells (take ri rs))"
  have so: "ro = int ?so + run_len (rs ! ri)"
    using right(1,2) by (simp add: take_Suc_conv_app_nth length_run_cells)
  have le: "li \<le> ri"
  proof (rule ccontr)
    assume "\<not> li \<le> ri"
    then have "take li rs = take (Suc ri) rs @ drop (Suc ri) (take li rs)"
      by (metis Suc_leI append_take_drop_id min.absorb1 not_le take_take)
    then have "ro \<le> lo"
      using left(2) right(2) by (metis length_append le_add1 of_nat_mono runs_cells_simps(3))
    moreover have "0 < length text"
      using nonempty by simp
    ultimately show False
      using left(3) right(4) by linarith
  qed
  have L: "take (nat column) (runs_cells rs) =
      runs_cells (take li rs) @ take (nat column - ?lo) (run_cells (rs ! li))"
    by (rule take_runs_cells) (use left length_run_cells [of "rs ! li"] in linarith)+
  have R: "drop ?e (runs_cells rs) =
      drop (?e - ?so) (run_cells (rs ! ri)) @ runs_cells (drop (Suc ri) rs)"
    by (rule drop_runs_cells) (use left right so length_run_cells [of "rs ! ri"] in linarith)+
  have rl: "length (run_text (rs ! ri)) - nat (ro - (column + int (length text))) = ?e - ?so"
    using left(2,3) right(3,4) so run_len_def [of "rs ! ri"] by linarith
  have rightPart: "runs_cells (if ro - (column + int (length text)) = 0 then []
      else [new_OutputRun (js_slice_from (run_text (rs ! ri)) (- (ro - (column + int (length text)))))
              (run_sgr (rs ! ri)) (run_link (rs ! ri))]) = drop (?e - ?so) (run_cells (rs ! ri))"
  proof (cases "ro - (column + int (length text)) = 0")
    case True
    then have "length (run_text (rs ! ri)) \<le> ?e - ?so"
      using rl by simp
    with True show ?thesis by (simp add: run_cells_def)
  next
    case False
    then have "js_slice_from (run_text (rs ! ri)) (- (ro - (column + int (length text)))) =
        drop (?e - ?so) (run_text (rs ! ri))"
      using right(3,4) run_len_def [of "rs ! ri"] rl
      by (subst js_slice_from_neg) auto
    with False show ?thesis
      by (simp add: run_cells_def drop_styled)
  qed
  have leftPart: "runs_cells (if column - lo = 0 then []
      else [new_OutputRun (js_slice (run_text (rs ! li)) 0 (column - lo)) (run_sgr (rs ! li)) (run_link (rs ! li))]) =
      take (nat column - ?lo) (run_cells (rs ! li))"
    using left(2,3) by (auto simp: js_slice_prefix run_cells_def take_styled nat_diff_distrib)
  have "js_splice rs (int li) (int ri - int li + 1) xs = take li rs @ xs @ drop (Suc ri) rs" for xs
    using le left(1) right(1) by (subst js_splice_in_range) (auto simp: nat_diff_distrib nat_add_distrib)
  then show ?thesis
    unfolding spliced_runs_def Let_def overwrite_def
    using L R leftPart rightPart by simp
qed

text \<open>
  Whether the insertion is one after which the runs are optimized and, if so, whether the runs it
  leaves are ones that the optimization keeps.
\<close>

definition insert_safe ::
    "jsstring \<Rightarrow> int \<Rightarrow> sgr_state option \<Rightarrow> hyperlink option \<Rightarrow> output_line \<Rightarrow> bool" where
  "insert_safe text column s l L \<longleftrightarrow>
     column + int (length text) \<ge> line_total L \<or>
     (case (find_left (line_runs L) column 0 0,
            find_right (\<lambda>start. column + int (length text) > start) (rev (line_runs L)) (line_total L)
              (length (line_runs L))) of
        (Some (li, lo), Some (ri, ro)) \<Rightarrow>
          opt_safe (spliced_runs text column s l li lo ri ro (line_runs L))
      | _ \<Rightarrow> True)"

lemma insert_between_cells:
  assumes ok: "line_ok L" and nonempty: "text \<noteq> []"
    and k: "find_left (line_runs L) column 0 0 = Some (k, lo)"
      "k < length (line_runs L)" "lo = int (length (runs_cells (take k (line_runs L))))"
      "lo \<le> column" "column < lo + run_len (line_runs L ! k)"
    and short: "column + int (length text) < line_total L"
  shows "line_ok (insert_between text column s l k lo L)"
    and "insert_safe text column s l L \<Longrightarrow>
      line_cells (insert_between text column s l k lo L) =
        overwrite (line_cells L) (nat column) (styled text (fmt s l))"
proof -
  let ?rs = "line_runs L"
  let ?test = "\<lambda>start. column + int (length text) > start"
  have total: "line_total L = int (length (runs_cells ?rs))"
    using ok by (simp add: line_ok_def line_cells_def)
  have "?test 0"
    using k(3,4) nonempty by (cases "text") auto
  then obtain ri ro where r: "find_right ?test (rev ?rs) (line_total L) (length ?rs) = Some (ri, ro)"
    using find_right_exists [of ?rs ?test] k(2) total by fastforce
  note rr = find_right_offset [OF r [unfolded total]]
  have "column + int (length text) \<le> ro"
    using rr short total by (cases "Suc ri < length ?rs") auto
  then have cells: "runs_cells (spliced_runs text column s l k lo ri ro ?rs) =
      overwrite (runs_cells ?rs) (nat column) (styled text (fmt s l))"
    using k rr nonempty by (intro spliced_runs_cells) auto
  show "line_ok (insert_between text column s l k lo L)"
    using r by (simp add: insert_between_def Let_def line_ok_def line_cells_def sum_run_len)
  show "line_cells (insert_between text column s l k lo L) =
      overwrite (line_cells L) (nat column) (styled text (fmt s l))" if "insert_safe text column s l L"
    using that r k(1) short cells
    by (auto simp: insert_between_def insert_safe_def Let_def line_cells_def optimizeOutputRuns_cells)
qed

lemma line_ok_insert:
  assumes "line_ok L" and "0 \<le> column"
  shows "line_ok (line_insert text column s l L)"
proof -
  have total: "line_total L = int (length (runs_cells (line_runs L)))"
    using assms(1) by (simp add: line_ok_def line_cells_def)
  consider "text = []" | "text \<noteq> []" "line_total L \<le> column" | "text \<noteq> []" "column < line_total L"
    by fastforce
  then show ?thesis
  proof cases
    case 2
    then show ?thesis
      using assms insert_at_end_cells [of "text" s l L] insert_past_end_cells [of L column "text" s l] total
      by (auto simp: line_insert_def line_ok_def line_cells_def)
  next
    case 3
    then obtain k where k: "find_left (line_runs L) column 0 0 =
        Some (k, int (length (runs_cells (take k (line_runs L)))))"
      "k < length (line_runs L)" "int (length (runs_cells (take k (line_runs L)))) \<le> column"
      "column < int (length (runs_cells (take k (line_runs L)))) + run_len (line_runs L ! k)"
      using find_left_found [of column "line_runs L"] assms(2) total by auto
    show ?thesis
    proof (cases "column + int (length text) \<ge> line_total L")
      case True
      then show ?thesis
        using 3 k insert_over_left_cells [OF k(2) refl k(3,4), of "text" s l] total assms(2)
        by (auto simp: line_insert_def line_ok_def line_cells_def min_def)
    next
      case False
      then show ?thesis
        using 3 k insert_between_cells(1) [OF assms(1) 3(1) k(1,2) refl k(3,4), of s l]
        by (simp add: line_insert_def)
    qed
  qed (use assms(1) in \<open>simp add: line_insert_def\<close>)
qed

lemma line_insert_cells:
  assumes "line_ok L" and "0 \<le> column" and "insert_safe text column s l L"
  shows "line_cells (line_insert text column s l L) =
    (if column \<le> line_total L \<or> text = []
     then overwrite (line_cells L) (nat column) (styled text (fmt s l))
     else line_cells L @ styled (blanks (column - line_total L)) (pad_format L (fmt s l)) @
       styled text (fmt s l))"
proof -
  have total: "line_total L = int (length (runs_cells (line_runs L)))"
    using assms(1) by (simp add: line_ok_def line_cells_def)
  consider "text = []" | "text \<noteq> []" "line_total L \<le> column" | "text \<noteq> []" "column < line_total L"
    by fastforce
  then show ?thesis
  proof cases
    case 2
    then show ?thesis
      using assms insert_at_end_cells [of "text" s l L] insert_past_end_cells [of L column "text" s l] total
      by (auto simp: line_insert_def line_cells_def overwrite_def)
  next
    case 3
    then obtain k where k: "find_left (line_runs L) column 0 0 =
        Some (k, int (length (runs_cells (take k (line_runs L)))))"
      "k < length (line_runs L)" "int (length (runs_cells (take k (line_runs L)))) \<le> column"
      "column < int (length (runs_cells (take k (line_runs L)))) + run_len (line_runs L ! k)"
      using find_left_found [of column "line_runs L"] assms(2) total by auto
    show ?thesis
    proof (cases "column + int (length text) \<ge> line_total L")
      case True
      then have "length (runs_cells (line_runs L)) \<le> nat column + length text"
        using total by simp
      then show ?thesis
        using True 3 k insert_over_left_cells [OF k(2) refl k(3,4), of "text" s l]
        by (simp add: line_insert_def overwrite_def line_cells_def)
    next
      case False
      then show ?thesis
        using 3 k insert_between_cells(2) [OF assms(1) 3(1) k(1,2) refl k(3,4) _ assms(3)]
        by (simp add: line_insert_def)
    qed
  qed (simp add: line_insert_def overwrite_def)
qed

section \<open>Lines of one format\<close>

definition one_format :: "format \<Rightarrow> output_line \<Rightarrow> bool" where
  "one_format f L \<longleftrightarrow> list_all (\<lambda>r. run_fmt r = f) (line_runs L)"

lemma one_format_spliced:
  assumes "list_all (\<lambda>r. run_fmt r = fmt s l) rs" and "li < length rs" and "ri < length rs"
  shows "list_all (\<lambda>r. run_fmt r = fmt s l) (spliced_runs text column s l li lo ri ro rs)"
  using assms
  by (auto simp: spliced_runs_def Let_def js_splice_def list_all_iff dest!: in_set_takeD in_set_dropD)

lemma one_format_safe:
  assumes "line_ok L" and "one_format (fmt s l) L" and "0 \<le> column"
  shows "insert_safe text column s l L"
proof -
  let ?rs = "line_runs L"
  have total: "line_total L = int (length (runs_cells ?rs))"
    using assms(1) by (simp add: line_ok_def line_cells_def)
  have "opt_safe (spliced_runs text column s l li lo ri ro ?rs)"
    if "find_left ?rs column 0 0 = Some (li, lo)"
      "find_right (\<lambda>start. column + int (length text) > start) (rev ?rs) (line_total L) (length ?rs) = Some (ri, ro)"
    for li lo ri ro
  proof -
    have "li < length ?rs"
      using find_left_offset [OF that(1) assms(3)] by auto
    moreover have "ri < length ?rs"
      using find_right_offset [OF that(2) [unfolded total]] by auto
    ultimately show ?thesis
      using one_format_spliced [of s l ?rs] assms(2)
      by (intro opt_safe_one_format [of "fmt s l"]) (simp add: one_format_def)
  qed
  then show ?thesis
    by (auto simp: insert_safe_def split: option.splits)
qed

section \<open>Properties\<close>

text \<open>
  C3: Inserting text into a line whose bookkeeping is right overwrites exactly the cells from the
  column on with the text in its format, as a terminal does, and pads with blanks when the column is
  past the end, provided the runs it leaves behind are ones that the run optimization keeps (in
  particular whenever the insertion reaches the end of the line).\<close>

theorem line_insert_overwrites:
  assumes "line_ok L" and "0 \<le> column" and "insert_safe text column s l L"
  shows "line_cells (line_insert text column s l L) =
    (if column \<le> line_total L \<or> text = []
     then overwrite (line_cells L) (nat column) (styled text (fmt s l))
     else line_cells L @ styled (blanks (column - line_total L)) (pad_format L (fmt s l)) @
       styled text (fmt s l))"
  using assms by (rule line_insert_cells)

definition sample_line :: output_line where
  "sample_line = line_insert (js ''yy'') 4 (processSGR (js ''31m'') None) None
     (line_insert (js ''xxxx'') 0 None None new_OutputLine)"

theorem line_insert_overwrites_witness:
  "map fst (line_cells (line_insert (js ''q'') 1 None None sample_line)) = js ''xqxxyy''"
proof -
  have ok: "line_ok sample_line"
    unfolding sample_line_def by (intro line_ok_insert) auto
  have safe: "insert_safe (js ''q'') 1 None None sample_line"
    by code_simp
  have cells: "line_cells (line_insert (js ''q'') 1 None None sample_line) =
    (if 1 \<le> line_total sample_line \<or> js ''q'' = []
     then overwrite (line_cells sample_line) (nat 1) (styled (js ''q'') (fmt None None))
     else line_cells sample_line @ styled (blanks (1 - line_total sample_line))
       (pad_format sample_line (fmt None None)) @ styled (js ''q'') (fmt None None))"
    by (rule line_insert_overwrites [OF ok _ safe]) simp
  show ?thesis
    unfolding cells by code_simp
qed

text \<open>
  Every operation that writes or erases from a column to the end keeps the bookkeeping of a
  line right: after it the total length is the number of characters the runs hold. (For inserting
  this holds even where the run optimization drops text.)\<close>

theorem line_bookkeeping_kept:
  assumes "line_ok L" and "0 \<le> column"
  shows "line_ok (line_insert text column s l L) \<and> line_ok (clearEntireLine L) \<and>
    line_ok (clearToEndOfLine column L)"
  using assms line_ok_insert line_ok_clear by blast

theorem line_bookkeeping_kept_witness:
  "line_ok (line_insert (js ''q'') 1 None None sample_line) \<and> line_ok (clearEntireLine sample_line) \<and>
   line_ok (clearToEndOfLine 1 sample_line)"
proof -
  have "line_ok sample_line"
    unfolding sample_line_def by (intro line_ok_insert) auto
  then show ?thesis
    by (rule line_bookkeeping_kept) simp
qed

text \<open>
  On a line all of whose runs have the format of the inserted text (plain output, a progress
  bar redrawn after carriage returns) inserting anywhere up to the end overwrites, with no further
  condition: the text of the line is the old text with the new one written over it.\<close>

theorem one_format_line_overwrites:
  assumes "line_ok L" and "one_format (fmt s l) L" and "0 \<le> column" and "column \<le> line_total L"
  shows "map fst (line_cells (line_insert text column s l L)) =
    overwrite (map fst (line_cells L)) (nat column) text"
  using line_insert_cells [OF assms(1,3) one_format_safe [OF assms(1-3)]] assms(4)
  by (simp add: overwrite_def take_map drop_map)

theorem one_format_line_overwrites_witness:
  "map fst (line_cells (line_insert (js ''75'') 4 None None
     (line_insert (js ''... 50%'') 0 None None new_OutputLine))) = js ''... 75%''"
proof -
  let ?L = "line_insert (js ''... 50%'') 0 None None new_OutputLine"
  have "line_ok ?L"
    by (intro line_ok_insert) auto
  moreover have "one_format (fmt None None) ?L" and "(4::int) \<le> line_total ?L"
    by code_simp+
  ultimately have "map fst (line_cells (line_insert (js ''75'') 4 None None ?L)) =
      overwrite (map fst (line_cells ?L)) (nat 4) (js ''75'')"
    by (intro one_format_line_overwrites) auto
  also have "\<dots> = js ''... 75%''"
    by code_simp
  finally show ?thesis .
qed

text \<open>
  Erasing from a column to the end of the line keeps the cells before the column, turns every
  cell from it on into a blank in the default format and keeps the length of the line.\<close>

theorem clear_to_end_of_line_spec:
  assumes "line_ok L"
  shows "line_cells (clearToEndOfLine c L) =
      take (nat c) (line_cells L) @ blank_cells (length (line_cells L) - nat c) \<and>
    line_total (clearToEndOfLine c L) = line_total L"
  using clearToEndOfLine_cells [OF assms] by simp

theorem clear_to_end_of_line_spec_witness:
  "line_cells (clearToEndOfLine 5 sample_line) =
     take (nat 5) (line_cells sample_line) @ blank_cells (length (line_cells sample_line) - nat 5)"
proof -
  have "line_ok sample_line"
    unfolding sample_line_def by (intro line_ok_insert) auto
  from clear_to_end_of_line_spec [OF this] show ?thesis by blast
qed

text \<open>
  Erasing from the beginning of the line to a column is right on a line of at most one run:
  the cells before the column become blanks, the others stay.\<close>

theorem clear_to_beginning_of_one_run:
  assumes "line_ok L" and "length (line_runs L) \<le> 1"
  shows "line_cells (clearToBeginningOfLine c L) =
    blank_cells (min (nat c) (length (line_cells L))) @ drop (nat c) (line_cells L)"
  using assms by (rule clearToBeginningOfLine_one_run)

theorem clear_to_beginning_of_one_run_witness:
  "map fst (line_cells (clearToBeginningOfLine 2 (line_insert (js ''abcd'') 0 None None new_OutputLine)))
     = js ''  cd''"
proof -
  let ?L = "line_insert (js ''abcd'') 0 None None new_OutputLine"
  have "line_ok ?L"
    by (intro line_ok_insert) auto
  moreover have "length (line_runs ?L) \<le> 1"
    by code_simp
  ultimately have "line_cells (clearToBeginningOfLine 2 ?L) =
      blank_cells (min (nat 2) (length (line_cells ?L))) @ drop (nat 2) (line_cells ?L)"
    by (rule clear_to_beginning_of_one_run)
  then show ?thesis
    by code_simp
qed

text \<open>
  On a line of two runs it is not. The line \<open>xxxxyy\<close> (four plain characters, two red ones)
  should read \<open> xxxyy\<close> after its first character is erased; the code replaces the whole first run by
  one blank and the tail of the last run, so the line reads \<open> yyy\<close> while its recorded total length
  still counts six.\<close>

theorem clear_to_beginning_of_two_runs_loses_text:
  "line_ok sample_line \<and> map fst (line_cells sample_line) = js ''xxxxyy'' \<and>
   map fst (line_cells (clearToBeginningOfLine 1 sample_line)) = js '' yyy'' \<and>
   line_total (clearToBeginningOfLine 1 sample_line) = 6 \<and>
   \<not> line_ok (clearToBeginningOfLine 1 sample_line)"
proof (intro conjI)
  show "line_ok sample_line"
    unfolding sample_line_def by (intro line_ok_insert) auto
qed code_simp+

end
