(* ===== verification/Machine.thy ===== *)
theory Machine
  imports Js_Prelude
begin

text \<open>
  Components that consume a sequence of events (characters, commands, items) one at a time and may
  throw. \<open>run_machine\<close> runs a step function over the events and stops at the first exception. The
  locales are the contracts the components meet: \<open>total_machine\<close> for a step that never throws from a
  state that satisfies the invariant and keeps the invariant, \<open>observed_machine\<close> for one whose
  observable part evolves on its own. Their lemmas lift one-step facts to whole runs.
\<close>

fun run_machine :: "('s \<Rightarrow> 'e \<Rightarrow> 's result) \<Rightarrow> 's \<Rightarrow> 'e list \<Rightarrow> 's result" where
  "run_machine step s [] = Inr s"
| "run_machine step s (e # es) = bind_result (step s e) (\<lambda>t. run_machine step t es)"

lemma run_machine_append:
  "run_machine step s (es @ fs) = bind_result (run_machine step s es) (\<lambda>t. run_machine step t fs)"
proof (induction es arbitrary: s)
  case (Cons e es)
  then show ?case
    by (cases "step s e") auto
qed simp

locale total_machine =
  fixes step :: "'s \<Rightarrow> 'e \<Rightarrow> 's result"
    and ok :: "'s \<Rightarrow> bool"
  assumes step_total: "ok s \<Longrightarrow> \<exists>t. step s e = Inr t \<and> ok t"
begin

lemma run_total: "ok s \<Longrightarrow> \<exists>t. run_machine step s es = Inr t \<and> ok t"
proof (induction es arbitrary: s)
  case (Cons e es)
  from step_total [OF Cons.prems] obtain t where t: "step s e = Inr t" "ok t"
    by blast
  with Cons.IH [OF t(2)] show ?case
    by simp
qed simp

lemma run_ok: "ok s \<Longrightarrow> run_machine step s es = Inr t \<Longrightarrow> ok t"
  using run_total [of s es] by auto

lemma run_invariant:
  assumes "ok s" and "P s" and "run_machine step s es = Inr t"
    and "\<And>s e t. ok s \<Longrightarrow> P s \<Longrightarrow> e \<in> set es \<Longrightarrow> step s e = Inr t \<Longrightarrow> P t"
  shows "P t"
  using assms
proof (induction es arbitrary: s)
  case (Cons e es)
  from step_total [OF Cons.prems(1)] obtain u where u: "step s e = Inr u" "ok u"
    by blast
  moreover have "P u"
    using Cons.prems(1,2,4) u(1) by auto
  ultimately show ?case
    using Cons.IH [of u] Cons.prems(3,4) by auto
qed simp

end

locale observed_machine = total_machine +
  fixes obs :: "'s \<Rightarrow> 'o"
  assumes obs_step:
    "ok s \<Longrightarrow> ok s' \<Longrightarrow> obs s = obs s' \<Longrightarrow> step s e = Inr t \<Longrightarrow> step s' e = Inr t' \<Longrightarrow> obs t = obs t'"
begin

lemma obs_run:
  assumes "ok s" and "ok s'" and "obs s = obs s'"
    and "run_machine step s es = Inr t" and "run_machine step s' es = Inr t'"
  shows "obs t = obs t'"
  using assms
proof (induction es arbitrary: s s')
  case (Cons e es)
  from step_total [OF Cons.prems(1)] obtain u where u: "step s e = Inr u" "ok u"
    by blast
  from step_total [OF Cons.prems(2)] obtain u' where u': "step s' e = Inr u'" "ok u'"
    by blast
  have "obs u = obs u'"
    by (rule obs_step [OF Cons.prems(1-3) u(1) u'(1)])
  with Cons.IH [OF u(2) u'(2)] Cons.prems(4,5) u u' show ?case
    by simp
qed simp

end

end
