(* ===== verification/Ansi_Output.thy ===== *)
theory Ansi_Output
  imports Ansi_Line Machine
begin

text \<open>
  The class \<open>ANSIOutput\<close> of \<open>src/vs/base/common/ansiOutput.ts\<close>: the interpreter that turns a stream of
  console output with control sequences into lines of styled runs. The record \<open>ansi_output\<close> is the
  object's private state; \<open>processChar\<close> is the body of the loop of \<open>processOutput\<close>, and one definition
  per private method follows. Reading a line that does not exist (\<open>this._outputLines[i]\<close> out of
  range) and calling a method on it is a \<open>TypeError\<close>, a left value of the result.

  The lemmas show that no input makes the interpreter throw, that its control state does not depend
  on how the stream is cut into chunks, what plain text produces, which inputs keep the bookkeeping
  of every line right, and one input that loses text.
\<close>

section \<open>State\<close>

datatype parser_state = BufferingOutput | EscapeSequenceStarted | ParsingControlSequence
  | ParsingOperatingSystemCommand

record ansi_output =
  parserState :: parser_state
  a_cs :: jsstring
  a_sgr :: "sgr_state option"
  a_osc :: jsstring
  outputLines :: "output_line list"
  outputLine :: int
  outputColumn :: int
  a_buffer :: jsstring
  pendingNewline :: bool
  a_hyperlink :: "hyperlink option"

definition new_ANSIOutput :: ansi_output where
  "new_ANSIOutput =
     \<lparr>parserState = BufferingOutput, a_cs = [], a_sgr = None, a_osc = [], outputLines = [],
      outputLine = 0, outputColumn = 0, a_buffer = [], pendingNewline = False, a_hyperlink = None\<rparr>"

definition isBuffering :: "ansi_output \<Rightarrow> bool" where
  "isBuffering s \<longleftrightarrow> parserState s = BufferingOutput"

definition copyStylesFrom :: "ansi_output \<Rightarrow> ansi_output \<Rightarrow> ansi_output" where
  "copyStylesFrom other s = s\<lparr>a_sgr := copyStyles (a_sgr other)\<rparr>"

section \<open>Helpers\<close>

definition getParam :: "jsstring \<Rightarrow> int \<Rightarrow> int" where
  "getParam v defaultValue = (case parse_int v of None \<Rightarrow> defaultValue | Some p \<Rightarrow> p)"

definition rangeParam :: "jsstring \<Rightarrow> int \<Rightarrow> int \<Rightarrow> int" where
  "rangeParam v defaultValue minValue = max (getParam v defaultValue) minValue"

text \<open>\<open>cs.match(/^([0-9]*)X$/)\<close> for the final character \<open>X\<close>.\<close>

definition match_param :: "jschar \<Rightarrow> jsstring \<Rightarrow> jsstring option" where
  "match_param final cs =
     (if cs \<noteq> [] \<and> last cs = final \<and> list_all is_digit (butlast cs) then Some (butlast cs) else None)"

text \<open>\<open>cs.match(/^([0-9]*)(?:;?([0-9]*))H$/)\<close>.\<close>

definition match_position :: "jsstring \<Rightarrow> (jsstring \<times> jsstring) option" where
  "match_position cs =
     (let d1 = takeWhile is_digit cs; r1 = dropWhile is_digit cs;
          r2 = (if r1 \<noteq> [] \<and> hd r1 = ch CHR '';'' then tl r1 else r1);
          d2 = takeWhile is_digit r2
      in if dropWhile is_digit r2 = [ch CHR ''H''] then Some (d1, d2) else None)"

text \<open>\<open>osc.match(/^(.*)(?:\x1b\x5c|\x07|\x9c)$/)\<close>: the body before the terminator.\<close>

definition match_osc_end :: "jsstring \<Rightarrow> jsstring option" where
  "match_osc_end osc =
     (let body =
        (if osc = [] then None
         else if last osc = BEL \<or> last osc = ST then Some (butlast osc)
         else if 2 \<le> length osc \<and> last osc = 92 \<and> last (butlast osc) = ESC
           then Some (butlast (butlast osc))
         else None)
      in case body of None \<Rightarrow> None
         | Some b \<Rightarrow> if list_ex is_line_terminator b then None else Some b)"

text \<open>\<open>osc.match(/^([0-9]+);(.*)$/)\<close>.\<close>

definition match_osc_number :: "jsstring \<Rightarrow> (jsstring \<times> jsstring) option" where
  "match_osc_number osc =
     (let n = takeWhile is_digit osc; r = dropWhile is_digit osc
      in if n \<noteq> [] \<and> r \<noteq> [] \<and> hd r = ch CHR '';'' \<and> \<not> list_ex is_line_terminator (tl r)
         then Some (n, tl r) else None)"

text \<open>\<open>osc.match(/^(.*?);(.*?)$/)\<close>: the lazy first group ends before the first semicolon.\<close>

definition match_osc8 :: "jsstring \<Rightarrow> (jsstring \<times> jsstring) option" where
  "match_osc8 osc =
     (let p = takeWhile (\<lambda>c. c \<noteq> ch CHR '';'') osc; r = dropWhile (\<lambda>c. c \<noteq> ch CHR '';'') osc
      in if r \<noteq> [] \<and> \<not> list_ex is_line_terminator osc then Some (p, tl r) else None)"

section \<open>Private methods\<close>

definition flushBuffer :: "ansi_output \<Rightarrow> ansi_output result" where
  "flushBuffer s =
     (let ls = outputLines s @
          replicate (nat (outputLine s + 1 - int (length (outputLines s)))) new_OutputLine;
          i = outputLine s
      in if a_buffer s = [] then Inr (s\<lparr>outputLines := ls\<rparr>)
         else case js_get ls i of
           None \<Rightarrow> Inl TypeError
         | Some L \<Rightarrow>
             Inr (s\<lparr>outputLines := ls[nat i := line_insert (a_buffer s) (outputColumn s) (a_sgr s) (a_hyperlink s) L],
                    outputColumn := outputColumn s + int (length (a_buffer s)), a_buffer := []\<rparr>))"

definition processCharacter :: "jschar \<Rightarrow> ansi_output \<Rightarrow> ansi_output result" where
  "processCharacter c s =
     (if c = LF then Inr (s\<lparr>pendingNewline := True\<rparr>)
      else if c = CR then bind_result (flushBuffer s) (\<lambda>t. Inr (t\<lparr>outputColumn := 0\<rparr>))
      else Inr (s\<lparr>a_buffer := a_buffer s @ [c]\<rparr>))"

definition processCUU :: "ansi_output \<Rightarrow> ansi_output" where
  "processCUU s =
     (case match_param (ch CHR ''A'') (a_cs s) of None \<Rightarrow> s
      | Some p \<Rightarrow> s\<lparr>outputLine := max (outputLine s - rangeParam p 1 1) 0\<rparr>)"

definition processCUD :: "ansi_output \<Rightarrow> ansi_output" where
  "processCUD s =
     (case match_param (ch CHR ''B'') (a_cs s) of None \<Rightarrow> s
      | Some p \<Rightarrow> s\<lparr>outputLine := outputLine s + rangeParam p 1 1\<rparr>)"

definition processCUF :: "ansi_output \<Rightarrow> ansi_output" where
  "processCUF s =
     (case match_param (ch CHR ''C'') (a_cs s) of None \<Rightarrow> s
      | Some p \<Rightarrow> s\<lparr>outputColumn := outputColumn s + rangeParam p 1 1\<rparr>)"

definition processCUB :: "ansi_output \<Rightarrow> ansi_output" where
  "processCUB s =
     (case match_param (ch CHR ''D'') (a_cs s) of None \<Rightarrow> s
      | Some p \<Rightarrow> s\<lparr>outputColumn := max (outputColumn s - rangeParam p 1 1) 0\<rparr>)"

definition processCUP :: "ansi_output \<Rightarrow> ansi_output" where
  "processCUP s =
     (case match_position (a_cs s) of None \<Rightarrow> s
      | Some (p, q) \<Rightarrow>
          s\<lparr>outputLine := rangeParam p 1 1 - 1, outputColumn := rangeParam q 1 1 - 1\<rparr>)"

text \<open>Applying a method to the line the cursor is on, if there is one.\<close>

definition with_current_line :: "(output_line \<Rightarrow> output_line) \<Rightarrow> ansi_output \<Rightarrow> ansi_output result" where
  "with_current_line f s =
     (case js_get (outputLines s) (outputLine s) of
        None \<Rightarrow> Inl TypeError
      | Some L \<Rightarrow> Inr (s\<lparr>outputLines := (outputLines s)[nat (outputLine s) := f L]\<rparr>))"

definition processED :: "ansi_output \<Rightarrow> ansi_output result" where
  "processED s =
     (case match_param (ch CHR ''J'') (a_cs s) of
        None \<Rightarrow> Inr s
      | Some p \<Rightarrow>
          (let n = getParam p 0 in
           if n = 0
           then bind_result (with_current_line (clearToEndOfLine (outputColumn s)) s) (\<lambda>t.
                  let k = nat (outputLine t + 1); ls = outputLines t in
                  Inr (t\<lparr>outputLines := take k ls @ map clearEntireLine (drop k ls)\<rparr>))
           else if n = 1
           then bind_result (with_current_line (clearToBeginningOfLine (outputColumn s)) s) (\<lambda>t.
                  let k = nat (outputLine t); ls = outputLines t in
                  Inr (t\<lparr>outputLines := map clearEntireLine (take k ls) @ drop k ls\<rparr>))
           else if n = 2 then Inr (s\<lparr>outputLines := map clearEntireLine (outputLines s)\<rparr>)
           else Inr s))"

definition processEL :: "ansi_output \<Rightarrow> ansi_output result" where
  "processEL s =
     (case match_param (ch CHR ''K'') (a_cs s) of
        None \<Rightarrow> Inr s
      | Some p \<Rightarrow>
          (let n = getParam p 0 in
           if n = 0 then with_current_line (clearToEndOfLine (outputColumn s)) s
           else if n = 1 then with_current_line (clearToBeginningOfLine (outputColumn s)) s
           else if n = 2 then with_current_line clearEntireLine s
           else Inr s))"

definition processControlSequence :: "ansi_output \<Rightarrow> ansi_output result" where
  "processControlSequence s =
     (let final = (if a_cs s = [] then None else Some (last (a_cs s)));
          r = (if final = Some (ch CHR ''A'') then Inr (processCUU s)
               else if final = Some (ch CHR ''B'') then Inr (processCUD s)
               else if final = Some (ch CHR ''C'') then Inr (processCUF s)
               else if final = Some (ch CHR ''D'') then Inr (processCUB s)
               else if final = Some (ch CHR ''H'') then Inr (processCUP s)
               else if final = Some (ch CHR ''J'') then processED s
               else if final = Some (ch CHR ''K'') then processEL s
               else if final = Some (ch CHR ''m'') then Inr (s\<lparr>a_sgr := processSGR (a_cs s) (a_sgr s)\<rparr>)
               else Inr s)
      in bind_result r (\<lambda>t. Inr (t\<lparr>parserState := BufferingOutput\<rparr>)))"

definition processOSC8 :: "ansi_output \<Rightarrow> ansi_output" where
  "processOSC8 s =
     s\<lparr>a_hyperlink :=
        (case match_osc8 (a_osc s) of None \<Rightarrow> None
         | Some (params, url) \<Rightarrow>
             (if js_trim url = [] then None else Some (new_Hyperlink (js_trim url) (js_trim params))))\<rparr>"

definition processOperatingSystemCommand :: "ansi_output \<Rightarrow> ansi_output" where
  "processOperatingSystemCommand s =
     (case match_osc_number (a_osc s) of
        None \<Rightarrow> s
      | Some (number, payload) \<Rightarrow>
          (let t = s\<lparr>a_osc := payload\<rparr> in if number = js ''8'' then processOSC8 t else t))
     \<lparr>parserState := BufferingOutput\<rparr>"

section \<open>Processing output\<close>

text \<open>A pending newline is processed before the next character.\<close>

definition processPendingNewline :: "ansi_output \<Rightarrow> ansi_output result" where
  "processPendingNewline s =
     (if pendingNewline s
      then bind_result (flushBuffer s) (\<lambda>t.
             Inr (t\<lparr>outputLine := outputLine t + 1, outputColumn := 0, pendingNewline := False\<rparr>))
      else Inr s)"

definition processBuffering :: "jschar \<Rightarrow> ansi_output \<Rightarrow> ansi_output result" where
  "processBuffering c s =
     (if c = ESC then bind_result (flushBuffer s) (\<lambda>t. Inr (t\<lparr>parserState := EscapeSequenceStarted\<rparr>))
      else if c = CSI
      then bind_result (flushBuffer s) (\<lambda>t. Inr (t\<lparr>a_cs := [], parserState := ParsingControlSequence\<rparr>))
      else if c = OSC
      then bind_result (flushBuffer s) (\<lambda>t. Inr (t\<lparr>a_osc := [], parserState := ParsingOperatingSystemCommand\<rparr>))
      else processCharacter c s)"

definition processEscape :: "jschar \<Rightarrow> ansi_output \<Rightarrow> ansi_output result" where
  "processEscape c s =
     (if c = ch CHR ''['' then Inr (s\<lparr>a_cs := [], parserState := ParsingControlSequence\<rparr>)
      else if c = ch CHR '']'' then Inr (s\<lparr>a_osc := [], parserState := ParsingOperatingSystemCommand\<rparr>)
      else processCharacter c (s\<lparr>parserState := BufferingOutput\<rparr>))"

definition processParsingCS :: "jschar \<Rightarrow> ansi_output \<Rightarrow> ansi_output result" where
  "processParsingCS c s =
     (let t = s\<lparr>a_cs := a_cs s @ [c]\<rparr> in if is_letter c then processControlSequence t else Inr t)"

definition processParsingOSC :: "jschar \<Rightarrow> ansi_output \<Rightarrow> ansi_output result" where
  "processParsingOSC c s =
     (let osc = a_osc s @ [c] in
      case match_osc_end osc of
        None \<Rightarrow> Inr (s\<lparr>a_osc := osc\<rparr>)
      | Some body \<Rightarrow> Inr (processOperatingSystemCommand (s\<lparr>a_osc := body\<rparr>)))"

definition processChar :: "ansi_output \<Rightarrow> jschar \<Rightarrow> ansi_output result" where
  "processChar s c =
     bind_result (processPendingNewline s) (\<lambda>t.
       case parserState t of
         BufferingOutput \<Rightarrow> processBuffering c t
       | EscapeSequenceStarted \<Rightarrow> processEscape c t
       | ParsingControlSequence \<Rightarrow> processParsingCS c t
       | ParsingOperatingSystemCommand \<Rightarrow> processParsingOSC c t)"

definition processOutput :: "jsstring \<Rightarrow> ansi_output \<Rightarrow> ansi_output result" where
  "processOutput out s = bind_result (run_machine processChar s out) flushBuffer"

text \<open>The getter \<open>outputLines\<close> flushes first; the static method processes into a new object.\<close>

definition get_outputLines :: "ansi_output \<Rightarrow> (output_line list \<times> ansi_output) result" where
  "get_outputLines s = bind_result (flushBuffer s) (\<lambda>t. Inr (outputLines t, t))"

definition processOutput_static :: "jsstring \<Rightarrow> output_line list result" where
  "processOutput_static out =
     bind_result (processOutput out new_ANSIOutput) (\<lambda>s.
       bind_result (get_outputLines s) (\<lambda>(ls, t). Inr ls))"

section \<open>The invariant\<close>

text \<open>
  The cursor is never at a negative line or column, the SGR state is well-formed, and outside the
  buffering state the buffer is empty, no newline is pending and the line of the cursor exists: this
  is what makes the erasing sequences safe.
\<close>

definition ansi_ok :: "ansi_output \<Rightarrow> bool" where
  "ansi_ok s \<longleftrightarrow>
     0 \<le> outputLine s \<and> 0 \<le> outputColumn s \<and> sgr_ok (a_sgr s) \<and>
     (\<not> isBuffering s \<longrightarrow>
        a_buffer s = [] \<and> \<not> pendingNewline s \<and> outputLine s < int (length (outputLines s)))"

named_theorems ansi_defs \<open>definitions of the private methods of ANSIOutput\<close>

declare processCUU_def [ansi_defs] processCUD_def [ansi_defs] processCUF_def [ansi_defs]
  processCUB_def [ansi_defs] processCUP_def [ansi_defs]

lemma ansi_ok_new: "ansi_ok new_ANSIOutput"
  by (simp add: ansi_ok_def new_ANSIOutput_def isBuffering_def sgr_ok_def)

lemma rangeParam_one [simp]: "1 \<le> rangeParam v d 1" "0 \<le> rangeParam v d 1" "0 < rangeParam v d 1"
  by (simp_all add: rangeParam_def max_def)

text \<open>What flushing does when the cursor is on a line that is not negative.\<close>

lemma flushBuffer_total:
  assumes "0 \<le> outputLine s"
  shows "\<exists>t. flushBuffer s = Inr t \<and> outputLine t = outputLine s \<and> a_buffer t = [] \<and>
    outputColumn t = outputColumn s + int (length (a_buffer s)) \<and>
    parserState t = parserState s \<and> a_cs t = a_cs s \<and> a_sgr t = a_sgr s \<and> a_osc t = a_osc s \<and>
    pendingNewline t = pendingNewline s \<and> a_hyperlink t = a_hyperlink s \<and>
    outputLine s < int (length (outputLines t)) \<and>
    length (outputLines t) = max (length (outputLines s)) (nat (outputLine s + 1))"
  using assms by (auto simp: flushBuffer_def Let_def js_get_def)

lemma flushBuffer_keeps:
  assumes "flushBuffer s = Inr t"
  shows "outputLine t = outputLine s" "a_buffer t = []"
    "outputColumn t = outputColumn s + int (length (a_buffer s))"
    "parserState t = parserState s" "a_cs t = a_cs s" "a_sgr t = a_sgr s" "a_osc t = a_osc s"
    "pendingNewline t = pendingNewline s" "a_hyperlink t = a_hyperlink s"
  using assms by (auto simp: flushBuffer_def Let_def split: if_splits option.splits)

lemma flushBuffer_ok:
  assumes "ansi_ok s"
  shows "\<exists>t. flushBuffer s = Inr t \<and> ansi_ok t"
proof -
  have "0 \<le> outputLine s"
    using assms by (simp add: ansi_ok_def)
  from flushBuffer_total [OF this] assms show ?thesis
    by (auto simp: ansi_ok_def isBuffering_def)
qed

lemma processCharacter_ok:
  assumes "ansi_ok s" and "isBuffering s"
  shows "\<exists>t. processCharacter c s = Inr t \<and> ansi_ok t"
proof -
  obtain t where "flushBuffer s = Inr t" "ansi_ok t" "isBuffering t"
    using flushBuffer_ok [OF assms(1)] flushBuffer_keeps(4) assms(2) by (auto simp: isBuffering_def)
  with assms show ?thesis
    by (auto simp: processCharacter_def ansi_ok_def isBuffering_def)
qed

lemma processPendingNewline_ok:
  assumes "ansi_ok s"
  shows "\<exists>t. processPendingNewline s = Inr t \<and> ansi_ok t \<and> \<not> pendingNewline t"
proof (cases "pendingNewline s")
  case True
  then have "isBuffering s"
    using assms by (auto simp: ansi_ok_def)
  moreover obtain t where "flushBuffer s = Inr t" "ansi_ok t"
    using flushBuffer_ok [OF assms] by blast
  ultimately show ?thesis
    using True flushBuffer_keeps(4) [of s t]
    by (auto simp: processPendingNewline_def ansi_ok_def isBuffering_def)
qed (use assms in \<open>auto simp: processPendingNewline_def\<close>)

text \<open>A flush before a change of state establishes the invariant of the other states.\<close>

lemma flushBuffer_leaves_buffering:
  assumes "ansi_ok s" and "\<not> pendingNewline s"
  shows "\<exists>t. flushBuffer s = Inr t \<and> (\<forall>p. ansi_ok (t\<lparr>parserState := p\<rparr>)) \<and>
    (\<forall>x p. ansi_ok (t\<lparr>a_cs := x, parserState := p\<rparr>)) \<and>
    (\<forall>x p. ansi_ok (t\<lparr>a_osc := x, parserState := p\<rparr>))"
proof -
  have "0 \<le> outputLine s"
    using assms by (simp add: ansi_ok_def)
  from flushBuffer_total [OF this] assms show ?thesis
    by (auto simp: ansi_ok_def isBuffering_def)
qed

lemma processBuffering_ok:
  assumes "ansi_ok s" and "isBuffering s" and "\<not> pendingNewline s"
  shows "\<exists>t. processBuffering c s = Inr t \<and> ansi_ok t"
proof -
  obtain t where t: "flushBuffer s = Inr t" "\<And>p. ansi_ok (t\<lparr>parserState := p\<rparr>)"
    "\<And>x p. ansi_ok (t\<lparr>a_cs := x, parserState := p\<rparr>)" "\<And>x p. ansi_ok (t\<lparr>a_osc := x, parserState := p\<rparr>)"
    using flushBuffer_leaves_buffering [OF assms(1,3)] by blast
  with processCharacter_ok [OF assms(1,2), of c] show ?thesis
    by (simp add: processBuffering_def)
qed

lemma processEscape_ok:
  assumes "ansi_ok s" and "parserState s = EscapeSequenceStarted"
  shows "\<exists>t. processEscape c s = Inr t \<and> ansi_ok t"
proof -
  have "ansi_ok (s\<lparr>parserState := BufferingOutput\<rparr>)"
    using assms by (auto simp: ansi_ok_def isBuffering_def)
  moreover have "isBuffering (s\<lparr>parserState := BufferingOutput\<rparr>)"
    by (simp add: isBuffering_def)
  ultimately obtain t where "processCharacter c (s\<lparr>parserState := BufferingOutput\<rparr>) = Inr t" "ansi_ok t"
    using processCharacter_ok by blast
  with assms show ?thesis
    by (auto simp: processEscape_def ansi_ok_def isBuffering_def)
qed

text \<open>The cursor movements keep the cursor in the first quadrant and everything else.\<close>

definition in_quadrant :: "ansi_output \<Rightarrow> bool" where
  "in_quadrant s \<longleftrightarrow> 0 \<le> outputLine s \<and> 0 \<le> outputColumn s \<and> sgr_ok (a_sgr s)"

lemma movements_keep:
  assumes "in_quadrant s"
  shows "in_quadrant (processCUU s)" "in_quadrant (processCUD s)" "in_quadrant (processCUF s)"
    "in_quadrant (processCUB s)" "in_quadrant (processCUP s)"
  using assms by (simp_all add: ansi_defs in_quadrant_def split: option.split prod.split)

lemma with_current_line_total:
  assumes "0 \<le> outputLine s" and "outputLine s < int (length (outputLines s))"
  shows "with_current_line f s =
    Inr (s\<lparr>outputLines := (outputLines s)[nat (outputLine s) := f (outputLines s ! nat (outputLine s))]\<rparr>)"
  using assms by (simp add: with_current_line_def js_get_def)

text \<open>Erasing changes nothing but the lines.\<close>

definition only_lines_differ :: "ansi_output \<Rightarrow> ansi_output \<Rightarrow> bool" where
  "only_lines_differ s t \<longleftrightarrow>
     parserState t = parserState s \<and> a_cs t = a_cs s \<and> a_sgr t = a_sgr s \<and> a_osc t = a_osc s \<and>
     outputLine t = outputLine s \<and> outputColumn t = outputColumn s \<and> a_buffer t = a_buffer s \<and>
     pendingNewline t = pendingNewline s \<and> a_hyperlink t = a_hyperlink s \<and>
     length (outputLines t) = length (outputLines s)"

lemma processED_total:
  assumes "0 \<le> outputLine s" and "outputLine s < int (length (outputLines s))"
  shows "\<exists>t. processED s = Inr t \<and> only_lines_differ s t"
  using with_current_line_total [OF assms] assms
  by (cases "match_param (ch CHR ''J'') (a_cs s)")
     (auto simp: processED_def Let_def only_lines_differ_def)

lemma processEL_total:
  assumes "0 \<le> outputLine s" and "outputLine s < int (length (outputLines s))"
  shows "\<exists>t. processEL s = Inr t \<and> only_lines_differ s t"
  using with_current_line_total [OF assms]
  by (cases "match_param (ch CHR ''K'') (a_cs s)")
     (auto simp: processEL_def Let_def only_lines_differ_def)

lemma processControlSequence_ok:
  assumes "ansi_ok s" and "parserState s = ParsingControlSequence"
  shows "\<exists>t. processControlSequence s = Inr t \<and> ansi_ok t"
proof -
  have cur: "in_quadrant s" "0 \<le> outputLine s" "outputLine s < int (length (outputLines s))"
    using assms by (auto simp: ansi_ok_def isBuffering_def in_quadrant_def)
  have home: "in_quadrant t \<Longrightarrow> ansi_ok (t\<lparr>parserState := BufferingOutput\<rparr>)" for t
    by (auto simp: ansi_ok_def isBuffering_def in_quadrant_def)
  obtain t where ed: "processED s = Inr t" "only_lines_differ s t"
    using processED_total [OF cur(2,3)] by blast
  obtain u where el: "processEL s = Inr u" "only_lines_differ s u"
    using processEL_total [OF cur(2,3)] by blast
  have "in_quadrant t" and "in_quadrant u" and "in_quadrant (s\<lparr>a_sgr := processSGR (a_cs s) (a_sgr s)\<rparr>)"
    using ed(2) el(2) cur(1) by (auto simp: only_lines_differ_def in_quadrant_def sgr_ok_processSGR)
  then show ?thesis
    unfolding processControlSequence_def Let_def ed(1) el(1)
    using cur(1) movements_keep [OF cur(1)] by (simp add: home)
qed

lemma processParsingCS_ok:
  assumes "ansi_ok s" and "parserState s = ParsingControlSequence"
  shows "\<exists>t. processParsingCS c s = Inr t \<and> ansi_ok t"
proof -
  have "ansi_ok (s\<lparr>a_cs := a_cs s @ [c]\<rparr>)"
    using assms by (auto simp: ansi_ok_def isBuffering_def)
  with processControlSequence_ok [OF this] assms(2) show ?thesis
    by (auto simp: processParsingCS_def Let_def)
qed

lemma processOperatingSystemCommand_keeps:
  "ansi_ok s \<Longrightarrow> ansi_ok (processOperatingSystemCommand s)"
  by (auto simp: processOperatingSystemCommand_def processOSC8_def Let_def ansi_ok_def isBuffering_def
      split: option.splits)

lemma processParsingOSC_ok:
  assumes "ansi_ok s"
  shows "\<exists>t. processParsingOSC c s = Inr t \<and> ansi_ok t"
proof -
  have "ansi_ok (s\<lparr>a_osc := x\<rparr>)" for x
    using assms by (auto simp: ansi_ok_def isBuffering_def)
  then show ?thesis
    using processOperatingSystemCommand_keeps
    by (auto simp: processParsingOSC_def Let_def split: option.splits)
qed

lemma processChar_ok:
  assumes "ansi_ok s"
  shows "\<exists>t. processChar s c = Inr t \<and> ansi_ok t"
proof -
  obtain t where t: "processPendingNewline s = Inr t" "ansi_ok t" "\<not> pendingNewline t"
    using processPendingNewline_ok [OF assms] by blast
  show ?thesis
    using t processBuffering_ok [OF t(2) _ t(3), of c] processEscape_ok [OF t(2), of c]
      processParsingCS_ok [OF t(2), of c] processParsingOSC_ok [OF t(2), of c]
    by (cases "parserState t") (auto simp: processChar_def isBuffering_def)
qed

section \<open>The control state\<close>

text \<open>
  Everything but the lines, with the column at which the next character will be written: the column
  of the cursor plus the length of the buffer.
\<close>

definition control ::
    "ansi_output \<Rightarrow> parser_state \<times> jsstring \<times> sgr_state option \<times> jsstring \<times> int \<times> int \<times> bool \<times> hyperlink option"
  where
  "control s = (parserState s, a_cs s, a_sgr s, a_osc s, outputLine s,
     outputColumn s + int (length (a_buffer s)), pendingNewline s, a_hyperlink s)"

lemma flushBuffer_control: "flushBuffer s = Inr t \<Longrightarrow> control t = control s \<and> a_buffer t = []"
  using flushBuffer_keeps [of s t] by (simp add: control_def)

text \<open>Two results agree when, if both are states, the states have the same control state.\<close>

definition agree :: "ansi_output result \<Rightarrow> ansi_output result \<Rightarrow> bool" where
  "agree r r' \<longleftrightarrow> (\<forall>t t'. r = Inr t \<longrightarrow> r' = Inr t' \<longrightarrow> control t = control t')"

named_theorems agree_intros \<open>introduction rules for agreement\<close>

lemma agree_Inr [agree_intros]: "control t = control t' \<Longrightarrow> agree (Inr t) (Inr t')"
  by (simp add: agree_def)

lemma agree_if [agree_intros]:
  "(b \<Longrightarrow> agree x x') \<Longrightarrow> (\<not> b \<Longrightarrow> agree y y') \<Longrightarrow> agree (if b then x else y) (if b then x' else y')"
  by simp

lemma agree_flush:
  assumes "control s = control s'"
    and "\<And>t t'. control t = control t' \<Longrightarrow> control t = control s \<Longrightarrow> a_buffer t = [] \<Longrightarrow> a_buffer t' = [] \<Longrightarrow>
      agree (f t) (f t')"
  shows "agree (bind_result (flushBuffer s) f) (bind_result (flushBuffer s') f)"
proof (cases "flushBuffer s")
  case (Inr t)
  show ?thesis
  proof (cases "flushBuffer s'")
    case (Inr t')
    show ?thesis
      using flushBuffer_control [OF \<open>flushBuffer s = Inr t\<close>] flushBuffer_control [OF Inr] assms
        \<open>flushBuffer s = Inr t\<close> Inr by simp
  qed (simp add: agree_def)
qed (simp add: agree_def)

lemma agree_bind:
  assumes "agree r r'" and "\<And>t t'. control t = control t' \<Longrightarrow> r = Inr t \<Longrightarrow> r' = Inr t' \<Longrightarrow> agree (f t) (f t')"
  shows "agree (bind_result r f) (bind_result r' f)"
proof (cases "\<exists>t t'. r = Inr t \<and> r' = Inr t'")
  case True
  then obtain t t' where t: "r = Inr t" "r' = Inr t'"
    by blast
  then have "control t = control t'"
    using assms(1) by (simp add: agree_def)
  from assms(2) [OF this t] t show ?thesis
    by simp
next
  case False
  then show ?thesis
    by (cases r; cases r') (simp_all add: agree_def)
qed

lemma agree_processPendingNewline:
  assumes "control s = control s'"
  shows "agree (processPendingNewline s) (processPendingNewline s')"
proof -
  have pending: "pendingNewline s' = pendingNewline s"
    using assms by (simp add: control_def)
  show ?thesis
    unfolding processPendingNewline_def pending
    by (intro agree_intros agree_flush assms) (simp_all add: control_def)
qed

lemma agree_processCharacter:
  assumes "control s = control s'"
  shows "agree (processCharacter c s) (processCharacter c s')"
  unfolding processCharacter_def
  by (intro agree_intros agree_flush assms) (use assms in \<open>simp_all add: control_def\<close>)

lemma agree_processBuffering:
  assumes "control s = control s'"
  shows "agree (processBuffering c s) (processBuffering c s')"
  unfolding processBuffering_def
  by (intro agree_intros agree_flush agree_processCharacter assms) (simp_all add: control_def)

lemma agree_processEscape:
  assumes "control s = control s'"
  shows "agree (processEscape c s) (processEscape c s')"
  unfolding processEscape_def
  by (intro agree_intros agree_processCharacter) (use assms in \<open>simp_all add: control_def\<close>)

lemma control_movements:
  assumes "control s = control s'" and "a_buffer s = []" and "a_buffer s' = []"
  shows "control (processCUU s) = control (processCUU s')" "control (processCUD s) = control (processCUD s')"
    "control (processCUF s) = control (processCUF s')" "control (processCUB s) = control (processCUB s')"
    "control (processCUP s) = control (processCUP s')"
  using assms by (simp_all add: ansi_defs control_def split: option.split prod.split)

lemma agree_erasing:
  assumes "control s = control s'" and "in_quadrant s" and "outputLine s < int (length (outputLines s))"
    and "in_quadrant s'" and "outputLine s' < int (length (outputLines s'))"
  shows "agree (processED s) (processED s')" and "agree (processEL s) (processEL s')"
proof -
  have "control t = control u" if "only_lines_differ u t" for t u
    using that by (simp add: only_lines_differ_def control_def)
  then show "agree (processED s) (processED s')" and "agree (processEL s) (processEL s')"
    using assms processED_total [of s] processEL_total [of s] processED_total [of s'] processEL_total [of s']
    by (auto simp: in_quadrant_def agree_def)
qed

lemma agree_processControlSequence:
  assumes "control s = control s'" and "ansi_ok s" and "ansi_ok s'" and "\<not> isBuffering s"
  shows "agree (processControlSequence s) (processControlSequence s')"
proof -
  have "\<not> isBuffering s'"
    using assms(1,4) by (simp add: control_def isBuffering_def)
  then have q: "in_quadrant s" "outputLine s < int (length (outputLines s))" "a_buffer s = []"
    and q': "in_quadrant s'" "outputLine s' < int (length (outputLines s'))" "a_buffer s' = []"
    using assms(2-4) by (auto simp: ansi_ok_def in_quadrant_def)
  have cs: "a_cs s' = a_cs s" "a_sgr s' = a_sgr s"
    using assms(1) by (simp_all add: control_def)
  show ?thesis
    unfolding processControlSequence_def Let_def cs
    by (intro agree_bind agree_intros agree_erasing assms(1) q q' control_movements)
      (use assms(1) in \<open>simp_all add: control_def\<close>)
qed

lemma agree_processParsingCS:
  assumes "control s = control s'" and "ansi_ok s" and "ansi_ok s'" and "\<not> isBuffering s"
  shows "agree (processParsingCS c s) (processParsingCS c s')"
proof -
  have "control (s\<lparr>a_cs := a_cs s @ [c]\<rparr>) = control (s'\<lparr>a_cs := a_cs s' @ [c]\<rparr>)"
    using assms(1) by (simp add: control_def)
  moreover have "ansi_ok (s\<lparr>a_cs := a_cs s @ [c]\<rparr>)" "ansi_ok (s'\<lparr>a_cs := a_cs s' @ [c]\<rparr>)"
    "\<not> isBuffering (s\<lparr>a_cs := a_cs s @ [c]\<rparr>)"
    using assms(2-4) by (auto simp: ansi_ok_def isBuffering_def)
  ultimately show ?thesis
    unfolding processParsingCS_def Let_def
    by (intro agree_intros agree_processControlSequence)
qed

lemma agree_processParsingOSC:
  assumes "control s = control s'"
  shows "agree (processParsingOSC c s) (processParsingOSC c s')"
  using assms
  by (auto simp: processParsingOSC_def processOperatingSystemCommand_def processOSC8_def Let_def
      control_def agree_def split: option.splits)

lemma agree_processChar:
  assumes "control s = control s'" and "ansi_ok s" and "ansi_ok s'"
  shows "agree (processChar s c) (processChar s' c)"
  unfolding processChar_def
proof (rule agree_bind [OF agree_processPendingNewline [OF assms(1)]])
  fix t t'
  assume t: "control t = control t'" "processPendingNewline s = Inr t" "processPendingNewline s' = Inr t'"
  then have "ansi_ok t" "ansi_ok t'" "parserState t' = parserState t"
    using processPendingNewline_ok assms(2,3) by (fastforce simp: control_def)+
  then show "agree (case parserState t of
      BufferingOutput \<Rightarrow> processBuffering c t | EscapeSequenceStarted \<Rightarrow> processEscape c t
    | ParsingControlSequence \<Rightarrow> processParsingCS c t
    | ParsingOperatingSystemCommand \<Rightarrow> processParsingOSC c t)
   (case parserState t' of
      BufferingOutput \<Rightarrow> processBuffering c t' | EscapeSequenceStarted \<Rightarrow> processEscape c t'
    | ParsingControlSequence \<Rightarrow> processParsingCS c t'
    | ParsingOperatingSystemCommand \<Rightarrow> processParsingOSC c t')"
    using t(1) by (cases "parserState t")
      (simp_all add: agree_processBuffering agree_processEscape agree_processParsingCS
        agree_processParsingOSC isBuffering_def)
qed

interpretation ansi: observed_machine processChar ansi_ok control
proof
  show "ansi_ok s \<Longrightarrow> \<exists>t. processChar s c = Inr t \<and> ansi_ok t" for s c
    by (rule processChar_ok)
  show "ansi_ok s \<Longrightarrow> ansi_ok s' \<Longrightarrow> control s = control s' \<Longrightarrow> processChar s e = Inr t \<Longrightarrow>
      processChar s' e = Inr t' \<Longrightarrow> control t = control t'" for s s' e t t'
    using agree_processChar [of s s' e] by (simp add: agree_def)
qed

lemma processOutput_ok:
  assumes "ansi_ok s"
  shows "\<exists>t. processOutput out s = Inr t \<and> ansi_ok t"
proof -
  obtain u where "run_machine processChar s out = Inr u" "ansi_ok u"
    using ansi.run_total [OF assms] by blast
  with flushBuffer_ok [of u] show ?thesis
    by (auto simp: processOutput_def)
qed

text \<open>Feeding chunks is again a machine that never throws.\<close>

interpretation chunks: total_machine "\<lambda>s out. processOutput out s" ansi_ok
  by unfold_locales (rule processOutput_ok)

section \<open>The bookkeeping of the lines\<close>

definition lines_ok :: "ansi_output \<Rightarrow> bool" where
  "lines_ok s \<longleftrightarrow> list_all line_ok (outputLines s)"

text \<open>The steps that erase from the beginning of a line of several runs.\<close>

definition erases_to_start :: "ansi_output \<Rightarrow> jschar \<Rightarrow> bool" where
  "erases_to_start s c \<longleftrightarrow>
     parserState s = ParsingControlSequence \<and>
     (let cs = a_cs s @ [c] in
        (case match_param (ch CHR ''J'') cs of
           Some p \<Rightarrow> getParam p 0 = 1
         | None \<Rightarrow> (case match_param (ch CHR ''K'') cs of Some p \<Rightarrow> getParam p 0 = 1 | None \<Rightarrow> False))) \<and>
     (case js_get (outputLines s) (outputLine s) of None \<Rightarrow> False | Some L \<Rightarrow> length (line_runs L) > 1)"

fun never_erases_to_start :: "ansi_output \<Rightarrow> jsstring \<Rightarrow> bool" where
  "never_erases_to_start s [] = True"
| "never_erases_to_start s (c # cs) =
     (\<not> erases_to_start s c \<and>
      (case processChar s c of Inl e \<Rightarrow> True | Inr t \<Rightarrow> never_erases_to_start t cs))"

lemma lines_ok_flush:
  assumes "lines_ok s" and "0 \<le> outputColumn s" and "flushBuffer s = Inr t"
  shows "lines_ok t"
  using assms line_ok_insert
  by (auto simp: lines_ok_def flushBuffer_def Let_def js_get_def list_all_length nth_list_update nth_append
      split: if_splits)

lemma lines_ok_with_current_line:
  assumes "lines_ok s" and "with_current_line f s = Inr t"
    and "\<And>L. js_get (outputLines s) (outputLine s) = Some L \<Longrightarrow> line_ok L \<Longrightarrow> line_ok (f L)"
  shows "lines_ok t"
  using assms
  by (auto simp: lines_ok_def with_current_line_def js_get_def list_all_length nth_list_update
      split: option.splits if_splits)

lemma lines_ok_mapped:
  "lines_ok t \<Longrightarrow> lines_ok (t\<lparr>outputLines := take k (outputLines t) @ map clearEntireLine (drop k (outputLines t))\<rparr>)"
  "lines_ok t \<Longrightarrow> lines_ok (t\<lparr>outputLines := map clearEntireLine (take k (outputLines t)) @ drop k (outputLines t)\<rparr>)"
  "lines_ok t \<Longrightarrow> lines_ok (t\<lparr>outputLines := map clearEntireLine (outputLines t)\<rparr>)"
  by (auto simp: lines_ok_def list_all_iff line_ok_clear dest: in_set_takeD in_set_dropD)

lemma lines_ok_clear_current:
  assumes "lines_ok s"
  shows "with_current_line (clearToEndOfLine c) s = Inr t \<Longrightarrow> lines_ok t"
    and "with_current_line clearEntireLine s = Inr t \<Longrightarrow> lines_ok t"
    and "(\<And>L. js_get (outputLines s) (outputLine s) = Some L \<Longrightarrow> length (line_runs L) \<le> 1) \<Longrightarrow>
      with_current_line (clearToBeginningOfLine c) s = Inr t \<Longrightarrow> lines_ok t"
  using lines_ok_with_current_line [OF assms] line_ok_clear line_ok_clearToBeginningOfLine by blast+

lemma lines_ok_processED:
  assumes "lines_ok s" and "processED s = Inr t"
    and "\<And>p L. match_param (ch CHR ''J'') (a_cs s) = Some p \<Longrightarrow> getParam p 0 = 1 \<Longrightarrow>
      js_get (outputLines s) (outputLine s) = Some L \<Longrightarrow> length (line_runs L) \<le> 1"
  shows "lines_ok t"
proof (cases "match_param (ch CHR ''J'') (a_cs s)")
  case (Some p)
  consider "getParam p 0 = 0" | "getParam p 0 = 1" | "getParam p 0 = 2" | "getParam p 0 \<notin> {0, 1, 2}"
    by blast
  then show ?thesis
  proof cases
    case 1
    with Some assms(2) obtain u where "with_current_line (clearToEndOfLine (outputColumn s)) s = Inr u"
      "t = u\<lparr>outputLines := take (nat (outputLine u + 1)) (outputLines u) @
         map clearEntireLine (drop (nat (outputLine u + 1)) (outputLines u))\<rparr>"
      by (auto simp: processED_def Let_def bind_result_Inr_iff)
    then show ?thesis
      using lines_ok_clear_current(1) [OF assms(1)] lines_ok_mapped(1) by blast
  next
    case 2
    with Some assms(2) obtain u where "with_current_line (clearToBeginningOfLine (outputColumn s)) s = Inr u"
      "t = u\<lparr>outputLines := map clearEntireLine (take (nat (outputLine u)) (outputLines u)) @
         drop (nat (outputLine u)) (outputLines u)\<rparr>"
      by (auto simp: processED_def Let_def bind_result_Inr_iff)
    then show ?thesis
      using lines_ok_clear_current(3) [OF assms(1) assms(3) [OF Some 2]] lines_ok_mapped(2) by blast
  next
    case 3
    with Some assms lines_ok_mapped(3) [OF assms(1)] show ?thesis
      by (auto simp: processED_def Let_def)
  next
    case 4
    with Some assms show ?thesis
      by (auto simp: processED_def Let_def)
  qed
qed (use assms in \<open>simp add: processED_def\<close>)

lemma lines_ok_processEL:
  assumes "lines_ok s" and "processEL s = Inr t"
    and "\<And>p L. match_param (ch CHR ''K'') (a_cs s) = Some p \<Longrightarrow> getParam p 0 = 1 \<Longrightarrow>
      js_get (outputLines s) (outputLine s) = Some L \<Longrightarrow> length (line_runs L) \<le> 1"
  shows "lines_ok t"
proof (cases "match_param (ch CHR ''K'') (a_cs s)")
  case (Some p)
  consider "getParam p 0 = 0" | "getParam p 0 = 1" | "getParam p 0 = 2" | "getParam p 0 \<notin> {0, 1, 2}"
    by blast
  then show ?thesis
  proof cases
    case 2
    with Some assms(2) have "with_current_line (clearToBeginningOfLine (outputColumn s)) s = Inr t"
      by (simp add: processEL_def Let_def)
    then show ?thesis
      using lines_ok_clear_current(3) [OF assms(1) assms(3) [OF Some 2]] by blast
  qed (use Some assms(1,2) lines_ok_clear_current [OF assms(1)] in \<open>auto simp: processEL_def Let_def\<close>)
qed (use assms in \<open>simp add: processEL_def\<close>)

lemma movements_keep_lines [simp]:
  "outputLines (processCUU s) = outputLines s" "outputLines (processCUD s) = outputLines s"
  "outputLines (processCUF s) = outputLines s" "outputLines (processCUB s) = outputLines s"
  "outputLines (processCUP s) = outputLines s"
  by (simp_all add: ansi_defs split: option.split prod.split)

lemma lines_ok_processControlSequence:
  assumes "lines_ok s" and "processControlSequence s = Inr t"
    and "\<And>L. js_get (outputLines s) (outputLine s) = Some L \<Longrightarrow>
      (\<exists>p. (match_param (ch CHR ''J'') (a_cs s) = Some p \<or> match_param (ch CHR ''K'') (a_cs s) = Some p) \<and>
         getParam p 0 = 1) \<Longrightarrow> length (line_runs L) \<le> 1"
  shows "lines_ok t"
proof -
  have ed: "processED s = Inr u \<Longrightarrow> lines_ok u" and el: "processEL s = Inr u \<Longrightarrow> lines_ok u" for u
    using lines_ok_processED [OF assms(1)] lines_ok_processEL [OF assms(1)] assms(3) by blast+
  have home: "lines_ok (u\<lparr>parserState := x\<rparr>) = lines_ok u" "lines_ok (u\<lparr>a_sgr := y\<rparr>) = lines_ok u" for u x y
    by (simp_all add: lines_ok_def)
  have mv: "lines_ok (processCUU s)" "lines_ok (processCUD s)" "lines_ok (processCUF s)"
    "lines_ok (processCUB s)" "lines_ok (processCUP s)"
    using assms(1) by (simp_all add: lines_ok_def)
  obtain u where u: "t = u\<lparr>parserState := BufferingOutput\<rparr>" and
    "u \<in> {processCUU s, processCUD s, processCUF s, processCUB s, processCUP s,
          s\<lparr>a_sgr := processSGR (a_cs s) (a_sgr s)\<rparr>, s} \<or> processED s = Inr u \<or> processEL s = Inr u"
    using assms(2) unfolding processControlSequence_def Let_def bind_result_Inr_iff
    by (auto split: if_splits)
  then have "lines_ok u"
    using ed el mv assms(1) home by auto
  with u show ?thesis
    by (simp add: home)
qed

lemma lines_ok_processCharacter:
  assumes "lines_ok s" and "0 \<le> outputColumn s" and "processCharacter c s = Inr t"
  shows "lines_ok t"
proof (cases "c = CR")
  case True
  with assms(3) obtain u where "flushBuffer s = Inr u" "t = u\<lparr>outputColumn := 0\<rparr>"
    by (auto simp: processCharacter_def bind_result_Inr_iff)
  with lines_ok_flush [OF assms(1,2)] show ?thesis
    by (simp add: lines_ok_def)
qed (use assms in \<open>auto simp: processCharacter_def lines_ok_def split: if_splits\<close>)

lemma lines_ok_processPendingNewline:
  assumes "lines_ok s" and "0 \<le> outputColumn s" and "processPendingNewline s = Inr t"
  shows "lines_ok t"
  using assms(3) lines_ok_flush [OF assms(1,2)] assms(1)
  by (auto simp: processPendingNewline_def bind_result_Inr_iff lines_ok_def split: if_splits)

lemma lines_ok_processBuffering:
  assumes "lines_ok s" and "0 \<le> outputColumn s" and "processBuffering c s = Inr t"
  shows "lines_ok t"
proof (cases "c \<in> {ESC, CSI, OSC}")
  case True
  with assms(3) obtain u where "flushBuffer s = Inr u" "outputLines t = outputLines u"
    by (auto simp: processBuffering_def bind_result_Inr_iff)
  with lines_ok_flush [OF assms(1,2)] show ?thesis
    by (simp add: lines_ok_def)
next
  case False
  then show ?thesis
    using assms lines_ok_processCharacter [OF assms(1,2)] by (simp add: processBuffering_def)
qed

lemma lines_ok_processEscape:
  assumes "lines_ok s" and "0 \<le> outputColumn s" and "processEscape c s = Inr t"
  shows "lines_ok t"
  using assms(3) lines_ok_processCharacter [of "s\<lparr>parserState := BufferingOutput\<rparr>" c t] assms(1,2)
  by (auto simp: processEscape_def lines_ok_def split: if_splits)

lemma lines_ok_processParsingOSC:
  assumes "lines_ok s" and "processParsingOSC c s = Inr t"
  shows "lines_ok t"
proof -
  have "outputLines t = outputLines s"
    using assms(2)
    by (auto simp: processParsingOSC_def processOperatingSystemCommand_def processOSC8_def Let_def
        split: option.splits if_splits)
  with assms(1) show ?thesis
    by (simp add: lines_ok_def)
qed

lemma lines_ok_processParsingCS:
  assumes "lines_ok s" and "\<not> erases_to_start s c" and "parserState s = ParsingControlSequence"
    and "processParsingCS c s = Inr t"
  shows "lines_ok t"
proof (cases "is_letter c")
  case True
  let ?s = "s\<lparr>a_cs := a_cs s @ [c]\<rparr>"
  have jk: "match_param (ch CHR ''J'') cs = None \<or> match_param (ch CHR ''K'') cs = None" for cs
    by (auto simp: match_param_def)
  have "processControlSequence ?s = Inr t"
    using assms(4) True by (simp add: processParsingCS_def)
  moreover have "lines_ok ?s"
    using assms(1) by (simp add: lines_ok_def)
  moreover have "length (line_runs L) \<le> 1" if "js_get (outputLines ?s) (outputLine ?s) = Some L"
    "\<exists>p. (match_param (ch CHR ''J'') (a_cs ?s) = Some p \<or> match_param (ch CHR ''K'') (a_cs ?s) = Some p) \<and>
         getParam p 0 = 1" for L
    using that assms(2,3) jk [of "a_cs s @ [c]"]
    by (fastforce simp: erases_to_start_def Let_def split: option.splits)
  ultimately show ?thesis
    using lines_ok_processControlSequence by blast
qed (use assms in \<open>auto simp: processParsingCS_def lines_ok_def\<close>)

lemma lines_ok_processChar:
  assumes "ansi_ok s" and "lines_ok s" and "\<not> erases_to_start s c" and "processChar s c = Inr t"
  shows "lines_ok t"
proof -
  obtain u where u: "processPendingNewline s = Inr u" "ansi_ok u"
    using processPendingNewline_ok [OF assms(1)] by blast
  have col: "0 \<le> outputColumn s" "0 \<le> outputColumn u"
    using assms(1) u(2) by (simp_all add: ansi_ok_def)
  have lu: "lines_ok u"
    using lines_ok_processPendingNewline [OF assms(2) col(1) u(1)] .
  have us: "u = s" if "parserState u \<noteq> BufferingOutput"
    using that u(1) assms(1) flushBuffer_keeps(4) [of s]
    by (fastforce simp: processPendingNewline_def bind_result_Inr_iff ansi_ok_def isBuffering_def split: if_splits)
  show ?thesis
    using assms(3,4) u us lines_ok_processBuffering [OF lu col(2)] lines_ok_processEscape [OF lu col(2)]
      lines_ok_processParsingCS [OF lu] lines_ok_processParsingOSC [OF lu]
    by (cases "parserState u") (auto simp: processChar_def)
qed

lemma lines_ok_run:
  assumes "ansi_ok s" and "lines_ok s" and "never_erases_to_start s out"
    and "run_machine processChar s out = Inr t"
  shows "lines_ok t"
  using assms
proof (induction out arbitrary: s)
  case (Cons c out)
  obtain u where u: "processChar s c = Inr u" "ansi_ok u"
    using processChar_ok [OF Cons.prems(1)] by blast
  moreover have "lines_ok u"
    using lines_ok_processChar [OF Cons.prems(1,2) _ u(1)] Cons.prems(3) by simp
  ultimately show ?case
    using Cons by simp
qed simp

section \<open>Plain text\<close>

text \<open>
  Text without escape characters and carriage returns: the lines it is split into, with the piece of
  the current line and the pending newline as accumulators.
\<close>

definition is_plain :: "jschar \<Rightarrow> bool" where
  "is_plain c \<longleftrightarrow> c \<noteq> ESC \<and> c \<noteq> CSI \<and> c \<noteq> OSC \<and> c \<noteq> CR"

fun plain_lines :: "jsstring \<Rightarrow> bool \<Rightarrow> jsstring \<Rightarrow> jsstring list" where
  "plain_lines b pending [] = [b]"
| "plain_lines b pending (c # cs) =
     (let b' = (if pending then [] else b) in
      (if pending then [b] else []) @
      (if c = LF then plain_lines b' True cs else plain_lines (b' @ [c]) False cs))"

definition plain_line :: "jsstring \<Rightarrow> output_line" where
  "plain_line b = line_insert b 0 None None new_OutputLine"

definition plain_at :: "jsstring list \<Rightarrow> jsstring \<Rightarrow> bool \<Rightarrow> ansi_output \<Rightarrow> bool" where
  "plain_at past b pending s \<longleftrightarrow>
     parserState s = BufferingOutput \<and> outputLines s = map plain_line past \<and>
     outputLine s = int (length past) \<and> outputColumn s = 0 \<and> a_buffer s = b \<and>
     pendingNewline s = pending \<and> a_sgr s = None \<and> a_hyperlink s = None"

lemma flush_plain:
  assumes "plain_at past b pending s"
  shows "\<exists>t. flushBuffer s = Inr t \<and> outputLines t = map plain_line (past @ [b]) \<and> parserState t = parserState s"
proof -
  have "replicate (nat (int (length past) + 1 - int (length past))) new_OutputLine = [new_OutputLine]"
    by (simp add: nat_add_distrib)
  with assms show ?thesis
    by (auto simp: plain_at_def flushBuffer_def Let_def js_get_def plain_line_def nth_append
        list_update_append line_insert_def)
qed

lemma plain_char:
  assumes "plain_at past b False s" and "is_plain c"
  shows "\<exists>t. processBuffering c s = Inr t \<and>
    plain_at past (if c = LF then b else b @ [c]) (c = LF) t"
  using assms by (auto simp: plain_at_def is_plain_def processBuffering_def processCharacter_def)

lemma plain_newline:
  assumes "plain_at past b True s"
  shows "\<exists>t. processPendingNewline s = Inr t \<and> plain_at (past @ [b]) [] False t"
proof -
  obtain t where "flushBuffer s = Inr t" "outputLines t = map plain_line (past @ [b])"
    using flush_plain [OF assms] by blast
  with flushBuffer_keeps [of s t] assms show ?thesis
    by (auto simp: processPendingNewline_def plain_at_def)
qed

lemma plain_step:
  assumes "plain_at past b pending s" and "is_plain c"
  shows "\<exists>t. processChar s c = Inr t \<and>
    plain_at (if pending then past @ [b] else past)
      (let b' = (if pending then [] else b) in if c = LF then b' else b' @ [c]) (c = LF) t"
proof -
  obtain u where u: "processPendingNewline s = Inr u"
    "plain_at (if pending then past @ [b] else past) (if pending then [] else b) False u"
    using plain_newline [of past b s] assms(1) by (cases pending) (auto simp: processPendingNewline_def plain_at_def)
  moreover have "parserState u = BufferingOutput"
    using u(2) by (simp add: plain_at_def)
  ultimately show ?thesis
    using plain_char [OF u(2) assms(2)] by (auto simp: processChar_def Let_def)
qed

lemma plain_run:
  assumes "plain_at past b pending s" and "list_all is_plain cs"
  shows "\<exists>t. processOutput cs s = Inr t \<and> outputLines t = map plain_line (past @ plain_lines b pending cs)"
  using assms
proof (induction cs arbitrary: s past b pending)
  case Nil
  then show ?case
    using flush_plain by (fastforce simp: processOutput_def)
next
  case (Cons c cs)
  obtain t where t: "processChar s c = Inr t"
    "plain_at (if pending then past @ [b] else past)
      (let b' = (if pending then [] else b) in if c = LF then b' else b' @ [c]) (c = LF) t"
    using plain_step [OF Cons.prems(1), of c] Cons.prems(2) by auto
  have "list_all is_plain cs"
    using Cons.prems(2) by simp
  from Cons.IH [OF t(2) this] t(1) show ?case
    by (auto simp: processOutput_def Let_def)
qed

lemma plain_lines_pending: "cs \<noteq> [] \<Longrightarrow> plain_lines b True cs = b # plain_lines [] False cs"
  by (cases cs) (simp_all add: Let_def)

lemma split_acc:
  "js_split sep (c # cs) = (if c = sep then [] # js_split sep cs
     else (c # hd (js_split sep cs)) # tl (js_split sep cs))"
  by (cases "js_split sep cs") auto

lemma plain_lines_split:
  "plain_lines b False cs =
     (let ps = (b @ hd (js_split LF cs)) # tl (js_split LF cs)
      in if length ps > 1 \<and> last ps = [] then butlast ps else ps)"
proof (induction cs arbitrary: b)
  case (Cons c cs)
  show ?case
  proof (cases "c = LF")
    case True
    show ?thesis
    proof (cases "cs = []")
      case False
      have ps: "hd (js_split LF cs) # tl (js_split LF cs) = js_split LF cs"
        by simp
      have "length (js_split LF cs) > 1 \<or> last (js_split LF cs) \<noteq> []"
        using False by (cases cs; cases "js_split LF (tl cs)") (auto simp: split_acc simp del: js_split.simps(2))
      then show ?thesis
        using True False ps by (auto simp: plain_lines_pending Cons.IH Let_def)
    qed (simp add: True)
  next
    case False
    then show ?thesis
      by (auto simp: Cons.IH split_acc Let_def simp del: js_split.simps(2))
  qed
qed simp

definition line_text :: "output_line \<Rightarrow> jsstring" where
  "line_text L = map fst (line_cells L)"

lemma line_text_plain [simp]: "line_text (plain_line b) = b"
  by (simp add: line_text_def plain_line_def line_insert_def insert_at_end_def new_OutputLine_def
      line_cells_def)

lemma plain_at_new: "plain_at [] [] False new_ANSIOutput"
  by (simp add: plain_at_def new_ANSIOutput_def)

lemma get_outputLines_flushed:
  assumes "processOutput out s = Inr t" and "ansi_ok s"
  shows "get_outputLines t = Inr (outputLines t, t)"
proof -
  obtain u where u: "run_machine processChar s out = Inr u" "flushBuffer u = Inr t" "ansi_ok u"
    using assms ansi.run_total [OF assms(2), of out] by (auto simp: processOutput_def)
  then have "0 \<le> outputLine u"
    by (simp add: ansi_ok_def)
  from flushBuffer_total [OF this] u(2) have "outputLine t < int (length (outputLines t))" "a_buffer t = []"
    by auto
  then show ?thesis
    by (simp add: get_outputLines_def flushBuffer_def)
qed

lemma static_plain:
  assumes "list_all is_plain out"
  shows "\<exists>ls. processOutput_static out = Inr ls \<and>
    map line_text ls =
      (let ps = js_split LF out in if length ps > 1 \<and> last ps = [] then butlast ps else ps)"
proof -
  obtain t where t: "processOutput out new_ANSIOutput = Inr t"
    "outputLines t = map plain_line ([] @ plain_lines [] False out)"
    using plain_run [OF plain_at_new assms] by blast
  have "map line_text (outputLines t) = plain_lines [] False out"
    by (simp add: t(2) comp_def)
  then show ?thesis
    using get_outputLines_flushed [OF t(1) ansi_ok_new] t(1)
    by (simp add: processOutput_static_def plain_lines_split)
qed

section \<open>Operating system commands\<close>

lemma match_osc_end_blocked: "list_ex is_line_terminator osc \<Longrightarrow> match_osc_end (osc @ [c]) = None \<or>
    (c = 92 \<and> last osc = ESC \<and> \<not> list_ex is_line_terminator (butlast osc))"
  by (auto simp: match_osc_end_def Let_def butlast_append)

text \<open>A line terminator in front of the last character of a command keeps it from ever ending.\<close>

definition osc_blocked :: "ansi_output \<Rightarrow> bool" where
  "osc_blocked s \<longleftrightarrow>
     parserState s = ParsingOperatingSystemCommand \<and> \<not> pendingNewline s \<and> list_ex is_line_terminator (a_osc s)"

lemma ESC_no_terminator [simp]: "\<not> is_line_terminator ESC"
  by (simp add: is_line_terminator_def)

lemma osc_blocked_step:
  assumes "osc_blocked s"
  shows "\<exists>t. processChar s c = Inr t \<and> osc_blocked t \<and> outputLines t = outputLines s \<and>
    outputLine t = outputLine s \<and> a_buffer t = a_buffer s"
proof -
  have osc: "list_ex is_line_terminator (a_osc s)" "a_osc s \<noteq> []"
    using assms by (auto simp: osc_blocked_def)
  have "match_osc_end (a_osc s @ [c]) = None"
    using match_osc_end_blocked [OF osc(1), of c] osc
    by (cases "a_osc s" rule: rev_cases) auto
  with assms show ?thesis
    by (simp add: osc_blocked_def processChar_def processPendingNewline_def processParsingOSC_def)
qed

lemma osc_blocked_run:
  assumes "osc_blocked s"
  shows "\<exists>t. run_machine processChar s out = Inr t \<and> osc_blocked t \<and> outputLines t = outputLines s \<and>
    outputLine t = outputLine s \<and> a_buffer t = a_buffer s"
  using assms
proof (induction out arbitrary: s)
  case (Cons c out)
  from osc_blocked_step [OF Cons.prems] obtain u where
    u: "processChar s c = Inr u" "osc_blocked u" "outputLines u = outputLines s" "outputLine u = outputLine s"
      "a_buffer u = a_buffer s"
    by blast
  with Cons.IH [OF u(2)] show ?case
    by auto
qed simp

text \<open>The characters of a command that neither end it nor keep it from ending.\<close>

definition osc_body :: "jschar \<Rightarrow> bool" where
  "osc_body c \<longleftrightarrow> c \<noteq> BEL \<and> c \<noteq> ST \<and> c \<noteq> ESC \<and> \<not> is_line_terminator c"

lemma osc_accumulates:
  assumes "parserState s = ParsingOperatingSystemCommand" and "\<not> pendingNewline s"
    and "list_all osc_body (a_osc s)" and "list_all osc_body body"
  shows "run_machine processChar s body = Inr (s\<lparr>a_osc := a_osc s @ body\<rparr>)"
  using assms
proof (induction body arbitrary: s)
  case (Cons c body)
  have "match_osc_end (a_osc s @ [c]) = None"
    using Cons.prems(3,4) by (cases "a_osc s" rule: rev_cases) (auto simp: match_osc_end_def osc_body_def butlast_append)
  then have "processChar s c = Inr (s\<lparr>a_osc := a_osc s @ [c]\<rparr>)"
    using Cons.prems by (simp add: processChar_def processPendingNewline_def processParsingOSC_def)
  with Cons.IH [of "s\<lparr>a_osc := a_osc s @ [c]\<rparr>"] Cons.prems show ?case
    by simp
qed simp

lemma list_all_no_terminator: "list_all osc_body xs \<Longrightarrow> \<not> list_ex is_line_terminator xs"
  by (induction xs) (auto simp: osc_body_def)

lemma osc_ends_with_bell:
  assumes "parserState s = ParsingOperatingSystemCommand" and "\<not> pendingNewline s"
    and "list_all osc_body (a_osc s)"
  shows "processChar s BEL = Inr (processOperatingSystemCommand s)"
  using assms list_all_no_terminator [of "a_osc s"]
  by (simp add: processChar_def processPendingNewline_def processParsingOSC_def match_osc_end_def)

text \<open>The body of a hyperlink command: \<open>8;params;url\<close>.\<close>

definition link_body :: "jsstring \<Rightarrow> jsstring \<Rightarrow> jsstring" where
  "link_body params url = js ''8;'' @ params @ js '';'' @ url"

lemma osc_body_link_body:
  "list_all osc_body params \<Longrightarrow> list_all osc_body url \<Longrightarrow> list_all osc_body (link_body params url)"
  by (simp add: link_body_def osc_body_def is_line_terminator_def)

lemma processOSC_link:
  assumes "a_osc s = link_body params url" and "list_all osc_body params" and "list_all osc_body url"
    and "ch CHR '';'' \<notin> set params"
  shows "processOperatingSystemCommand s =
    s\<lparr>a_osc := params @ js '';'' @ url,
      a_hyperlink := if js_trim url = [] then None else Some (new_Hyperlink (js_trim url) (js_trim params)),
      parserState := BufferingOutput\<rparr>"
proof -
  let ?payload = "params @ js '';'' @ url"
  have nt: "\<not> list_ex is_line_terminator ?payload"
    using list_all_no_terminator [OF assms(2)] list_all_no_terminator [OF assms(3)]
    by (simp add: is_line_terminator_def)
  then have "match_osc_number (a_osc s) = Some (js ''8'', ?payload)"
    by (simp add: assms(1) match_osc_number_def link_body_def is_digit_def Let_def)
  moreover have "takeWhile (\<lambda>c. c \<noteq> 59) (params @ 59 # url) = params" "dropWhile (\<lambda>c. c \<noteq> 59) (params @ 59 # url) = 59 # url"
    using assms(4) by (auto simp: takeWhile_append dropWhile_append)
  then have "match_osc8 ?payload = Some (params, url)"
    using nt by (simp add: match_osc8_def Let_def)
  ultimately show ?thesis
    by (simp add: processOperatingSystemCommand_def processOSC8_def Let_def)
qed

lemma osc_introduced:
  assumes "ansi_ok s" and "isBuffering s" and "\<not> pendingNewline s"
  shows "\<exists>t. run_machine processChar s [ESC, ch CHR '']''] = Inr t \<and> ansi_ok t \<and> a_osc t = [] \<and>
    parserState t = ParsingOperatingSystemCommand \<and> \<not> pendingNewline t"
proof -
  obtain t where t: "flushBuffer s = Inr t" "\<And>x p. ansi_ok (t\<lparr>a_osc := x, parserState := p\<rparr>)"
    using flushBuffer_leaves_buffering [OF assms(1,3)] by blast
  have "ansi_ok (t\<lparr>a_osc := [], parserState := ParsingOperatingSystemCommand\<rparr>)"
    using t(2) .
  with t(1) flushBuffer_keeps [OF t(1)] assms show ?thesis
    by (auto simp: processChar_def processPendingNewline_def processBuffering_def processEscape_def
        isBuffering_def ansi_ok_def)
qed

section \<open>Properties\<close>


text \<open>
  C39: How a stream is cut into two calls of \<open>processOutput\<close> does not matter to the control state: parser
  state, pending sequence, styles, hyperlink, cursor line, writing column and pending newline are the
  same as after one call with the concatenation.
\<close>

theorem chunking_irrelevant:
  assumes "ansi_ok s"
  shows "\<exists>t u v. processOutput (a @ b) s = Inr t \<and> processOutput a s = Inr u \<and> processOutput b u = Inr v \<and>
    control t = control v"
proof -
  obtain m where m: "run_machine processChar s a = Inr m" "ansi_ok m"
    using ansi.run_total [OF assms] by blast
  obtain u where u: "flushBuffer m = Inr u" "ansi_ok u"
    using flushBuffer_ok [OF m(2)] by blast
  obtain n where n: "run_machine processChar m b = Inr n" "ansi_ok n"
    using ansi.run_total [OF m(2)] by blast
  obtain n' where n': "run_machine processChar u b = Inr n'" "ansi_ok n'"
    using ansi.run_total [OF u(2)] by blast
  obtain t v where t: "flushBuffer n = Inr t" "flushBuffer n' = Inr v"
    using flushBuffer_ok [OF n(2)] flushBuffer_ok [OF n'(2)] by blast
  have "control n = control n'"
    using ansi.obs_run [OF m(2) u(2) _ n(1) n'(1)] flushBuffer_control [OF u(1)] by simp
  then show ?thesis
    using m n u n' t flushBuffer_control [OF t(1)] flushBuffer_control [OF t(2)]
    by (simp add: processOutput_def run_machine_append)
qed

theorem chunking_irrelevant_witness:
  "ansi_ok new_ANSIOutput \<and>
   (\<exists>t u v. processOutput ([ESC, 91] @ js ''1m'') new_ANSIOutput = Inr t \<and>
      processOutput [ESC, 91] new_ANSIOutput = Inr u \<and> processOutput (js ''1m'') u = Inr v \<and>
      control t = control v)"
  using chunking_irrelevant [OF ansi_ok_new] ansi_ok_new by blast

text \<open>
  As long as no control sequence erases to the start of a line of several runs, the length that
  every line keeps is the number of characters of its runs.
\<close>

theorem bookkeeping_kept_by_output:
  assumes "ansi_ok s" and "lines_ok s" and "never_erases_to_start s out" and "processOutput out s = Inr t"
  shows "lines_ok t"
proof -
  obtain u where u: "run_machine processChar s out = Inr u" "flushBuffer u = Inr t"
    using assms(4) by (auto simp: processOutput_def bind_result_Inr_iff)
  have "ansi_ok u" "lines_ok u"
    using ansi.run_ok [OF assms(1) u(1)] lines_ok_run [OF assms(1-3) u(1)] by simp_all
  then show ?thesis
    using lines_ok_flush [OF _ _ u(2)] by (simp add: ansi_ok_def)
qed

theorem bookkeeping_kept_by_output_witness:
  "never_erases_to_start new_ANSIOutput (js ''ab'' @ [ESC] @ js ''[1mcd'' @ [CR, 120, ESC] @ js ''[0J'') \<and>
   (\<exists>t. processOutput (js ''ab'' @ [ESC] @ js ''[1mcd'' @ [CR, 120, ESC] @ js ''[0J'') new_ANSIOutput = Inr t \<and>
      lines_ok t)"
proof -
  have "never_erases_to_start new_ANSIOutput (js ''ab'' @ [ESC] @ js ''[1mcd'' @ [CR, 120, ESC] @ js ''[0J'')"
    by code_simp
  moreover have "lines_ok new_ANSIOutput"
    by code_simp
  ultimately show ?thesis
    using bookkeeping_kept_by_output [OF ansi_ok_new] processOutput_ok [OF ansi_ok_new] by blast
qed

text \<open>
  Text without escape characters and carriage returns is shown as it is: the lines of a new
  interpreter are the pieces between the newlines, and a trailing newline adds no empty line.
\<close>

theorem plain_text_shown:
  assumes "list_all is_plain out"
  shows "\<exists>ls. processOutput_static out = Inr ls \<and>
    map line_text ls =
      (let ps = js_split LF out in if length ps > 1 \<and> last ps = [] then butlast ps else ps)"
  by (rule static_plain [OF assms])

theorem plain_text_shown_witness:
  "\<exists>ls. processOutput_static (js ''ab'' @ [LF, LF] @ js ''c'' @ [LF]) = Inr ls \<and>
     map line_text ls = [js ''ab'', [], js ''c'']"
  using plain_text_shown [of "js ''ab'' @ [LF, LF] @ js ''c'' @ [LF]"] by (simp add: is_plain_def)

text \<open>
  A hyperlink command \<open>ESC ] 8 ; params ; url BEL\<close> makes the trimmed URL the hyperlink of the text that
  follows, and one with a blank URL ends the hyperlink; the parser is buffering again.
\<close>

theorem hyperlink_command:
  assumes "ansi_ok s" and "isBuffering s" and "\<not> pendingNewline s"
    and "list_all osc_body params" and "list_all osc_body url" and "ch CHR '';'' \<notin> set params"
  shows "\<exists>t. processOutput ([ESC, ch CHR '']''] @ link_body params url @ [BEL]) s = Inr t \<and> isBuffering t \<and>
    a_hyperlink t =
      (if js_trim url = [] then None else Some (new_Hyperlink (js_trim url) (js_trim params)))"
proof -
  obtain u where u: "run_machine processChar s [ESC, ch CHR '']''] = Inr u" "ansi_ok u" "a_osc u = []"
    "parserState u = ParsingOperatingSystemCommand" "\<not> pendingNewline u"
    using osc_introduced [OF assms(1-3)] by blast
  let ?v = "u\<lparr>a_osc := link_body params url\<rparr>"
  let ?w = "processOperatingSystemCommand ?v"
  have "run_machine processChar u (link_body params url) = Inr ?v"
    using osc_accumulates [OF u(4,5)] u(3) osc_body_link_body [OF assms(4,5)] by simp
  moreover have "processChar ?v BEL = Inr ?w"
    using osc_ends_with_bell [of ?v] u(4,5) osc_body_link_body [OF assms(4,5)] by simp
  ultimately have "run_machine processChar u (link_body params url @ [BEL]) = Inr ?w"
    by (simp add: run_machine_append)
  then have run: "run_machine processChar s ([ESC, ch CHR '']''] @ link_body params url @ [BEL]) = Inr ?w"
    by (subst run_machine_append) (simp only: u(1) bind_result_simps)
  have "ansi_ok ?w"
    using ansi.run_ok [OF assms(1) run] .
  from flushBuffer_ok [OF this] obtain t where t: "flushBuffer ?w = Inr t"
    by blast
  have "?w = ?v\<lparr>a_osc := params @ js '';'' @ url,
      a_hyperlink := if js_trim url = [] then None else Some (new_Hyperlink (js_trim url) (js_trim params)),
      parserState := BufferingOutput\<rparr>"
    by (rule processOSC_link) (use assms in simp_all)
  with run t flushBuffer_keeps(4,9) [OF t] show ?thesis
    by (simp add: processOutput_def isBuffering_def)
qed

theorem hyperlink_command_witness:
  "\<exists>t. processOutput ([ESC, ch CHR '']''] @ link_body (js ''id=1'') (js ''http://x'') @ [BEL]) new_ANSIOutput = Inr t \<and>
     isBuffering t \<and>
     a_hyperlink t = Some \<lparr>link_url = js ''http://x'', link_params = Some [(js ''id'', js ''1'')]\<rparr>"
proof -
  have "list_all osc_body (js ''id=1'') \<and> list_all osc_body (js ''http://x'') \<and>
      ch CHR '';'' \<notin> set (js ''id=1'') \<and> isBuffering new_ANSIOutput \<and> \<not> pendingNewline new_ANSIOutput"
    by code_simp
  moreover have "js_trim (js ''http://x'') \<noteq> [] \<and>
      new_Hyperlink (js_trim (js ''http://x'')) (js_trim (js ''id=1'')) =
        \<lparr>link_url = js ''http://x'', link_params = Some [(js ''id'', js ''1'')]\<rparr>"
    by code_simp
  ultimately show ?thesis
    using hyperlink_command [OF ansi_ok_new, of "js ''id=1''" "js ''http://x''"] by presburger
qed

text \<open>
  An operating system command that contains a newline never ends: the dot of the regular expression
  that looks for its terminator does not match a newline. Whatever follows, terminators included, is
  swallowed, and the lines stay what they were when the command was introduced.
\<close>

theorem newline_in_command_swallows_output:
  assumes "ansi_ok s" and "isBuffering s" and "\<not> pendingNewline s" and "list_all osc_body body"
  shows "\<exists>t u. processOutput [ESC, ch CHR '']''] s = Inr u \<and>
    processOutput ([ESC, ch CHR '']''] @ (body @ [LF]) @ rest) s = Inr t \<and>
    parserState t = ParsingOperatingSystemCommand \<and> outputLines t = outputLines u"
proof -
  let ?start = "[ESC, ch CHR '']'']"
  obtain u where u: "run_machine processChar s ?start = Inr u" "ansi_ok u" "a_osc u = []"
    "parserState u = ParsingOperatingSystemCommand" "\<not> pendingNewline u"
    using osc_introduced [OF assms(1-3)] by blast
  let ?v = "u\<lparr>a_osc := body @ [LF]\<rparr>"
  have "match_osc_end (body @ [LF]) = None"
    by (simp add: match_osc_end_def)
  then have "run_machine processChar u (body @ [LF]) = Inr ?v"
    using osc_accumulates [OF u(4,5) _ assms(4)] u(3-5)
    by (simp add: run_machine_append processChar_def processPendingNewline_def processParsingOSC_def)
  moreover have "osc_blocked ?v"
    using u(4,5) by (simp add: osc_blocked_def is_line_terminator_def)
  from osc_blocked_run [OF this, of rest] obtain t where t: "run_machine processChar ?v rest = Inr t" "osc_blocked t"
    "outputLines t = outputLines u" "outputLine t = outputLine u" "a_buffer t = a_buffer u"
    by auto
  ultimately have "run_machine processChar u ((body @ [LF]) @ rest) = Inr t"
    by (simp add: run_machine_append del: append_assoc)
  then have run: "run_machine processChar s (?start @ (body @ [LF]) @ rest) = Inr t"
    by (subst run_machine_append) (simp only: u(1) bind_result_simps)
  have flushed: "flushBuffer w = Inr w" if "outputLine w = outputLine u" "outputLines w = outputLines u"
    "a_buffer w = a_buffer u" for w
    using that u(2,4) by (simp add: flushBuffer_def ansi_ok_def isBuffering_def)
  have "processOutput (?start @ (body @ [LF]) @ rest) s = Inr t"
    unfolding processOutput_def run using flushed [of t] t by simp
  moreover have "processOutput ?start s = Inr u"
    unfolding processOutput_def u(1) using flushed [of u] by simp
  ultimately show ?thesis
    using t by (auto simp: osc_blocked_def)
qed

theorem newline_in_command_swallows_output_witness:
  "\<exists>t u. processOutput [ESC, ch CHR '']''] new_ANSIOutput = Inr u \<and>
     processOutput ([ESC, ch CHR '']''] @ (js ''8;;http://x'' @ [LF]) @ BEL # js ''lost'') new_ANSIOutput = Inr t \<and>
     parserState t = ParsingOperatingSystemCommand \<and> outputLines t = outputLines u"
proof -
  have "list_all osc_body (js ''8;;http://x'') \<and> isBuffering new_ANSIOutput \<and> \<not> pendingNewline new_ANSIOutput"
    by code_simp
  then show ?thesis
    using newline_in_command_swallows_output [OF ansi_ok_new, of "js ''8;;http://x''" "BEL # js ''lost''"] by blast
qed

text \<open>
  Merging runs loses text: after \<open>xxxx\<close>, red \<open>yy\<close> and neutral \<open>zz\<close>, overwriting the first character
  with \<open>q\<close> shows \<open>qxxxyy\<close>, because the merge compares a run with the wrong element of the array.
\<close>

theorem merging_runs_loses_text:
  "\<exists>ls. processOutput_static (js ''xxxx'' @ ESC # js ''[31myy'' @ ESC # js ''[0mzz'' @ CR # js ''q'') = Inr ls \<and>
     map line_text ls = [js ''qxxxyy'']"
proof -
  have "map_sum id (map line_text)
      (processOutput_static (js ''xxxx'' @ ESC # js ''[31myy'' @ ESC # js ''[0mzz'' @ CR # js ''q''))
    = Inr [js ''qxxxyy'']"
    by code_simp
  then show ?thesis
    by (cases "processOutput_static (js ''xxxx'' @ ESC # js ''[31myy'' @ ESC # js ''[0mzz'' @ CR # js ''q'')")
      auto
qed

end
