(* ===== verification/Console_Activity.thy ===== *)
theory Console_Activity
  imports Ansi_Output
begin

text \<open>
  The items a console shows for one execution: the classes \<open>ActivityItemStream\<close>, \<open>ActivityItemInput\<close>,
  \<open>ActivityItemPrompt\<close>, \<open>ActivityItemErrorMessage\<close>, \<open>ActivityItemOutputMessage\<close>,
  \<open>ActivityItemOutputHtml\<close>, \<open>ActivityItemOutputPlot\<close> and the container \<open>RuntimeItemActivity\<close>, from
  \<open>src/vs/workbench/services/positronConsole/browser/classes\<close>, and the simpler runtime items whose
  constructors interpret a text. Dates are numbers of milliseconds; the callback that an
  \<open>ActivityItemOutputPlot\<close> stores and never calls is left out.

  A stream owns an interpreter (\<open>Ansi_Output\<close>) and the texts that wait to be processed. Only the text of
  a waiting stream object is ever read, so the array of waiting streams is a list of texts. The locale
  \<open>stream_contract\<close> is what \<open>RuntimeItemActivity\<close> relies on; it is interpreted on the streams of this
  theory, and gives that no output is lost.
\<close>

section \<open>Streams\<close>

datatype stream_kind = OutputStream | ErrorStream

record activity_stream =
  st_kind :: stream_kind
  st_id :: jsstring
  st_parentId :: jsstring
  st_when :: int
  st_text :: jsstring
  st_terminated :: bool
  st_waiting :: "jsstring list"
  st_ansi :: ansi_output

definition newActivityItemStream ::
    "stream_kind \<Rightarrow> jsstring \<Rightarrow> jsstring \<Rightarrow> int \<Rightarrow> jsstring \<Rightarrow> activity_stream" where
  "newActivityItemStream kind id0 parentId date text =
     \<lparr>st_kind = kind, st_id = id0, st_parentId = parentId, st_when = date, st_text = text,
      st_terminated = False, st_waiting = [text], st_ansi = new_ANSIOutput\<rparr>"

definition processActivityItemStreams :: "activity_stream \<Rightarrow> activity_stream result" where
  "processActivityItemStreams st =
     bind_result (run_machine (\<lambda>s out. processOutput out s) (st_ansi st) (st_waiting st)) (\<lambda>a.
       Inr (st\<lparr>st_ansi := a, st_waiting := []\<rparr>))"

definition stream_outputLines :: "activity_stream \<Rightarrow> (output_line list \<times> activity_stream) result" where
  "stream_outputLines st =
     bind_result (processActivityItemStreams st) (\<lambda>t.
       bind_result (get_outputLines (st_ansi t)) (\<lambda>(ls, a). Inr (ls, t\<lparr>st_ansi := a\<rparr>)))"

definition with_styles_of :: "activity_stream \<Rightarrow> activity_stream \<Rightarrow> activity_stream" where
  "with_styles_of st item = item\<lparr>st_ansi := copyStylesFrom (st_ansi st) (st_ansi item)\<rparr>"

text \<open>The result is the updated stream with the remainder to be processed, if there is one.\<close>

definition addActivityItemStream ::
    "activity_stream \<Rightarrow> activity_stream \<Rightarrow> (activity_stream \<times> activity_stream option) result" where
  "addActivityItemStream st item =
     (if st_terminated st then Inr (st, Some (with_styles_of st item))
      else
        let newlineIndex = last_index_of (st_text item) LF in
        if newlineIndex = -1 then Inr (st\<lparr>st_waiting := st_waiting st @ [st_text item]\<rparr>, None)
        else
          let textWithNewline = js_slice (st_text item) 0 (newlineIndex + 1);
              remainderText = js_slice_from (st_text item) (newlineIndex + 1)
          in bind_result (processActivityItemStreams (st\<lparr>st_waiting := st_waiting st @ [textWithNewline]\<rparr>)) (\<lambda>t.
               let t = t\<lparr>st_terminated := isBuffering (st_ansi t)\<rparr> in
               if remainderText = [] then Inr (t, None)
               else if \<not> st_terminated t
               then Inr (t\<lparr>st_waiting := st_waiting t @ [remainderText]\<rparr>, None)
               else Inr (t, Some (with_styles_of t
                 (newActivityItemStream (st_kind st) (st_id item) (st_parentId item) (st_when item) remainderText)))))"

section \<open>The other items\<close>

datatype input_state = Provisional | Executing | Completed | Cancelled

record activity_input =
  in_state :: input_state
  in_id :: jsstring
  in_parentId :: jsstring
  in_when :: int
  in_inputPrompt :: jsstring
  in_continuationPrompt :: jsstring
  in_code :: jsstring
  in_codeOutputLines :: "output_line list"

definition new_ActivityItemInput ::
    "input_state \<Rightarrow> jsstring \<Rightarrow> jsstring \<Rightarrow> int \<Rightarrow> jsstring \<Rightarrow> jsstring \<Rightarrow> jsstring \<Rightarrow> activity_input result" where
  "new_ActivityItemInput state id0 parentId date inputPrompt continuationPrompt code =
     bind_result (processOutput_static code) (\<lambda>ls.
       Inr \<lparr>in_state = state, in_id = id0, in_parentId = parentId, in_when = date,
            in_inputPrompt = inputPrompt, in_continuationPrompt = continuationPrompt, in_code = code,
            in_codeOutputLines = ls\<rparr>)"

text \<open>The setter, with whether it fires \<open>onStateChanged\<close>.\<close>

definition set_input_state :: "input_state \<Rightarrow> activity_input \<Rightarrow> activity_input \<times> bool" where
  "set_input_state state i = (if state \<noteq> in_state i then (i\<lparr>in_state := state\<rparr>, True) else (i, False))"

datatype prompt_state = Unanswered | Answered | Interrupted

record activity_prompt =
  pr_id :: jsstring
  pr_parentId :: jsstring
  pr_when :: int
  pr_prompt :: jsstring
  pr_password :: bool
  pr_outputLines :: "output_line list"
  pr_state :: prompt_state
  pr_answer :: "jsstring option"

definition new_ActivityItemPrompt ::
    "jsstring \<Rightarrow> jsstring \<Rightarrow> int \<Rightarrow> jsstring \<Rightarrow> bool \<Rightarrow> activity_prompt result" where
  "new_ActivityItemPrompt id0 parentId date prompt password =
     bind_result (processOutput_static prompt) (\<lambda>ls.
       Inr \<lparr>pr_id = id0, pr_parentId = parentId, pr_when = date, pr_prompt = prompt,
            pr_password = password, pr_outputLines = ls, pr_state = Unanswered, pr_answer = None\<rparr>)"

record error_message =
  em_id :: jsstring
  em_parentId :: jsstring
  em_when :: int
  em_name :: jsstring
  em_message :: jsstring
  em_traceback :: "jsstring list"
  em_messageOutputLines :: "output_line list"
  em_tracebackOutputLines :: "output_line list"

definition new_ActivityItemErrorMessage ::
    "jsstring \<Rightarrow> jsstring \<Rightarrow> int \<Rightarrow> jsstring \<Rightarrow> jsstring \<Rightarrow> jsstring list \<Rightarrow> error_message result" where
  "new_ActivityItemErrorMessage id0 parentId date name message traceback =
     (let detailedMessage =
        (if name = [] then message
         else ESC # js ''[31m'' @ name @ ESC # js ''[0m'' @ js '': '' @ message)
      in bind_result (processOutput_static detailedMessage) (\<lambda>ms.
           bind_result (if traceback = [] then Inr [] else processOutput_static (js_join [LF] traceback)) (\<lambda>ts.
             Inr \<lparr>em_id = id0, em_parentId = parentId, em_when = date, em_name = name, em_message = message,
                  em_traceback = traceback, em_messageOutputLines = ms, em_tracebackOutputLines = ts\<rparr>)))"

record output_html =
  oh_id :: jsstring
  oh_parentId :: jsstring
  oh_when :: int
  oh_html :: jsstring

text \<open>The data of a message is an object: its properties in order.\<close>

type_synonym mime_data = "(jsstring \<times> jsstring) list"

record output_message =
  om_id :: jsstring
  om_parentId :: jsstring
  om_when :: int
  om_data :: mime_data
  om_outputLines :: "output_line list"

definition plain_output_lines :: "mime_data \<Rightarrow> output_line list result" where
  "plain_output_lines data =
     (case map_of data (js ''text/plain'') of
        None \<Rightarrow> Inr []
      | Some out \<Rightarrow> if out = [] then Inr [] else processOutput_static out)"

definition new_ActivityItemOutputMessage ::
    "jsstring \<Rightarrow> jsstring \<Rightarrow> int \<Rightarrow> mime_data \<Rightarrow> output_message result" where
  "new_ActivityItemOutputMessage id0 parentId date data =
     bind_result (plain_output_lines data) (\<lambda>ls.
       Inr \<lparr>om_id = id0, om_parentId = parentId, om_when = date, om_data = data, om_outputLines = ls\<rparr>)"

text \<open>\<open>encodeURIComponent\<close>: UTF-8 with percent escapes; a lone surrogate is a \<open>URIError\<close>.\<close>

definition uri_unreserved :: "jschar \<Rightarrow> bool" where
  "uri_unreserved c \<longleftrightarrow> is_letter c \<or> is_digit c \<or> c \<in> set (js [CHR ''-'', CHR ''_'', CHR ''.'', CHR ''!'',
     CHR ''~'', CHR ''*'', CHR 0x27, CHR ''('', CHR '')''])"

definition utf8 :: "int \<Rightarrow> int list" where
  "utf8 c =
     (if c < 128 then [c]
      else if c < 2048 then [192 + c div 64, 128 + c mod 64]
      else if c < 65536 then [224 + c div 4096, 128 + (c div 64) mod 64, 128 + c mod 64]
      else [240 + c div 262144, 128 + (c div 4096) mod 64, 128 + (c div 64) mod 64, 128 + c mod 64])"

definition percent :: "int \<Rightarrow> jsstring" where
  "percent b =
     (let digit = (\<lambda>d. if d < 10 then 48 + d else 55 + d) in [ch CHR ''%'', digit (b div 16), digit (b mod 16)])"

definition is_high_surrogate :: "jschar \<Rightarrow> bool" where
  "is_high_surrogate c \<longleftrightarrow> 55296 \<le> c \<and> c \<le> 56319"

definition is_low_surrogate :: "jschar \<Rightarrow> bool" where
  "is_low_surrogate c \<longleftrightarrow> 56320 \<le> c \<and> c \<le> 57343"

fun encodeURIComponent :: "jsstring \<Rightarrow> jsstring result" where
  "encodeURIComponent [] = Inr []"
| "encodeURIComponent (c # cs) =
     (if uri_unreserved c then bind_result (encodeURIComponent cs) (\<lambda>t. Inr (c # t))
      else if is_low_surrogate c then Inl URIError
      else if is_high_surrogate c
      then (case cs of
          [] \<Rightarrow> Inl URIError
        | d # ds \<Rightarrow>
            if is_low_surrogate d
            then bind_result (encodeURIComponent ds) (\<lambda>t.
              Inr (concat (map percent (utf8 ((c - 55296) * 1024 + (d - 56320) + 65536))) @ t))
            else Inl URIError)
      else bind_result (encodeURIComponent cs) (\<lambda>t. Inr (concat (map percent (utf8 c)) @ t)))"

record output_plot =
  op_id :: jsstring
  op_parentId :: jsstring
  op_when :: int
  op_data :: mime_data
  op_outputLines :: "output_line list"
  op_plotUri :: jsstring
  op_mimeType :: "jsstring option"

text \<open>A value in a template literal.\<close>

definition template :: "jsstring option \<Rightarrow> jsstring" where
  "template v = (case v of None \<Rightarrow> js ''undefined'' | Some s \<Rightarrow> s)"

definition new_ActivityItemOutputPlot ::
    "jsstring \<Rightarrow> jsstring \<Rightarrow> int \<Rightarrow> mime_data \<Rightarrow> output_plot result" where
  "new_ActivityItemOutputPlot id0 parentId date data =
     (let imageKey = find (\<lambda>k. js_starts_with k (js ''image/'')) (map fst data);
          content = (case imageKey of None \<Rightarrow> None | Some k \<Rightarrow> map_of data k);
          uri = (if imageKey = Some (js ''image/svg+xml'')
            then bind_result (encodeURIComponent (template content)) (\<lambda>svgData.
                   Inr (js ''data:'' @ template imageKey @ js '';utf8,'' @ svgData))
            else Inr (js ''data:'' @ template imageKey @ js '';base64,'' @ template content))
      in bind_result uri (\<lambda>plotUri.
           bind_result (plain_output_lines data) (\<lambda>ls.
             Inr \<lparr>op_id = id0, op_parentId = parentId, op_when = date, op_data = data, op_outputLines = ls,
                  op_plotUri = plotUri, op_mimeType = imageKey\<rparr>)))"

datatype activity_item = ItemStream activity_stream | ItemInput activity_input | ItemPrompt activity_prompt
  | ItemErrorMessage error_message | ItemOutputHtml output_html | ItemOutputMessage output_message
  | ItemOutputPlot output_plot

section \<open>Runtime items that show a text\<close>

definition pending_input_lines :: "jsstring \<Rightarrow> output_line list result" where
  "pending_input_lines code = processOutput_static code"

text \<open>\<open>RuntimeItemTrace\<close> replaces the characters that introduce control sequences.\<close>

definition trace_text :: "jsstring \<Rightarrow> jsstring" where
  "trace_text text = js_replace_all CSI (js ''CSI'') (js_replace_all ESC (js ''ESC'') text)"

definition trace_lines :: "jsstring \<Rightarrow> output_line list result" where
  "trace_lines text = processOutput_static (trace_text text)"

section \<open>Activities\<close>

record runtime_activity =
  ra_id :: jsstring
  ra_items :: "activity_item list"

definition isSameActivityItemStream :: "activity_stream \<Rightarrow> activity_stream \<Rightarrow> bool" where
  "isSameActivityItemStream a b \<longleftrightarrow>
     ((st_kind a = OutputStream \<and> st_kind b = OutputStream) \<or> (st_kind a = ErrorStream \<and> st_kind b = ErrorStream)) \<and>
     st_parentId a = st_parentId b"

text \<open>
  The backward search for the provisional input that an input replaces, on the reversed items: it stops
  at the first input it meets.
\<close>

fun replace_provisional :: "activity_input \<Rightarrow> activity_item list \<Rightarrow> activity_item list option" where
  "replace_provisional i [] = None"
| "replace_provisional i (ItemInput j # items) =
     (if in_state j = Provisional \<and> in_parentId j = in_parentId i then Some (ItemInput i # items) else None)"
| "replace_provisional i (item # items) = map_option ((#) item) (replace_provisional i items)"

definition push_item :: "activity_item \<Rightarrow> runtime_activity \<Rightarrow> runtime_activity" where
  "push_item item ra = ra\<lparr>ra_items := ra_items ra @ [item]\<rparr>"

definition addActivityItem :: "activity_item \<Rightarrow> runtime_activity \<Rightarrow> runtime_activity result" where
  "addActivityItem item ra =
     (if ra_items ra = [] then Inr (push_item item ra)
      else case item of
        ItemStream it \<Rightarrow>
          (case last (ra_items ra) of
             ItemStream st \<Rightarrow>
               if isSameActivityItemStream st it
               then bind_result (addActivityItemStream st it) (\<lambda>(st', rest).
                      let ra' = ra\<lparr>ra_items := butlast (ra_items ra) @ [ItemStream st']\<rparr> in
                      case rest of None \<Rightarrow> Inr ra' | Some r \<Rightarrow> Inr (push_item (ItemStream r) ra'))
               else Inr (push_item item ra)
           | _ \<Rightarrow> Inr (push_item item ra))
      | ItemInput i \<Rightarrow>
          (if in_state i \<noteq> Provisional
           then (case replace_provisional i (rev (ra_items ra)) of
                   Some items \<Rightarrow> Inr (ra\<lparr>ra_items := rev items\<rparr>)
                 | None \<Rightarrow> Inr (push_item item ra))
           else Inr (push_item item ra))
      | _ \<Rightarrow> Inr (push_item item ra))"

definition new_RuntimeItemActivity :: "jsstring \<Rightarrow> activity_item \<Rightarrow> runtime_activity result" where
  "new_RuntimeItemActivity id0 item = addActivityItem item \<lparr>ra_id = id0, ra_items = []\<rparr>"

definition trimActivityItems :: "int \<Rightarrow> runtime_activity \<Rightarrow> nat \<times> runtime_activity" where
  "trimActivityItems maxItems ra =
     (let items = js_slice_from (ra_items ra) (- maxItems) in (length items, ra\<lparr>ra_items := items\<rparr>))"

section \<open>The contract of streams\<close>

text \<open>The texts of a list that belong to a key, in order.\<close>

definition keyed :: "'k \<Rightarrow> ('k \<times> jsstring) list \<Rightarrow> jsstring" where
  "keyed k kts = concat (map snd (filter (\<lambda>kt. fst kt = k) kts))"

lemma keyed_simps [simp]:
  "keyed k [] = []"
  "keyed k (kt # kts) = (if k = fst kt then snd kt else []) @ keyed k kts"
  "keyed k (xs @ ys) = keyed k xs @ keyed k ys"
  by (auto simp: keyed_def)

text \<open>
  What the container relies on. A stream accounts for the text it has been given; a fresh stream for its
  own text. Adding a fresh stream to another never throws; what the other one does not take over is the
  text of the remainder, a fresh stream with the same key.
\<close>

locale stream_contract =
  fixes add :: "'st \<Rightarrow> 'st \<Rightarrow> ('st \<times> 'st option) result"
    and key :: "'st \<Rightarrow> 'k"
    and accounts :: "'st \<Rightarrow> jsstring \<Rightarrow> bool"
    and fresh :: "'st \<Rightarrow> jsstring \<Rightarrow> bool"
  assumes fresh_accounts: "fresh it u \<Longrightarrow> accounts it u"
    and add_accounts: "accounts st t \<Longrightarrow> fresh it u \<Longrightarrow> key st = key it \<Longrightarrow>
      \<exists>st' rest p q. add st it = Inr (st', rest) \<and> key st' = key st \<and> accounts st' (t @ p) \<and> u = p @ q \<and>
        (case rest of None \<Rightarrow> q = [] | Some r \<Rightarrow> fresh r q \<and> key r = key it)"
begin

definition add_item :: "'st list \<Rightarrow> 'st \<Rightarrow> 'st list result" where
  "add_item items it =
     (if items \<noteq> [] \<and> key (last items) = key it
      then bind_result (add (last items) it) (\<lambda>(st', rest).
             Inr (butlast items @ [st'] @ (case rest of None \<Rightarrow> [] | Some r \<Rightarrow> [r])))
      else Inr (items @ [it]))"

definition all_account :: "'st list \<Rightarrow> ('k \<times> jsstring) list \<Rightarrow> bool" where
  "all_account items kts \<longleftrightarrow> list_all2 (\<lambda>st kt. key st = fst kt \<and> accounts st (snd kt)) items kts"

lemma all_account_snoc:
  "all_account (items @ [st]) (kts @ [kt]) \<longleftrightarrow> all_account items kts \<and> key st = fst kt \<and> accounts st (snd kt)"
  by (auto simp: all_account_def list_all2_conv_all_nth nth_append less_Suc_eq)

lemma add_item_accounts:
  assumes "all_account items kts" and "fresh it u"
  shows "\<exists>items' kts'. add_item items it = Inr items' \<and> all_account items' kts' \<and>
    (\<forall>k. keyed k kts' = keyed k kts @ (if k = key it then u else []))"
proof (cases "items \<noteq> [] \<and> key (last items) = key it")
  case True
  then obtain front st where items: "items = front @ [st]" and key: "key st = key it"
    by (cases items rule: rev_cases) auto
  have "length kts = Suc (length front)"
    using assms(1) items by (simp add: all_account_def list_all2_lengthD [symmetric])
  then obtain fs k0 t where kts: "kts = fs @ [(k0, t)]"
    by (cases kts rule: rev_cases) auto
  have front: "all_account front fs" "k0 = key st" "accounts st t"
    using assms(1) by (simp_all add: items kts all_account_snoc)
  obtain st' rest p q where add: "add st it = Inr (st', rest)" "key st' = key st" "accounts st' (t @ p)" "u = p @ q"
    "case rest of None \<Rightarrow> q = [] | Some r \<Rightarrow> fresh r q \<and> key r = key it"
    using add_accounts [OF front(3) assms(2) key] by blast
  have base: "all_account (front @ [st']) (fs @ [(k0, t @ p)])"
    using front add(2,3) by (simp add: all_account_snoc)
  show ?thesis
  proof (cases rest)
    case None
    with base add True key front(2) show ?thesis
      by (intro exI [of _ "front @ [st']"] exI [of _ "fs @ [(k0, t @ p)]"])
        (simp add: add_item_def items kts)
  next
    case (Some r)
    then have "all_account ((front @ [st']) @ [r]) ((fs @ [(k0, t @ p)]) @ [(key it, q)])"
      using base add(5) fresh_accounts by (simp only: all_account_snoc) simp
    with Some add True key front(2) show ?thesis
      by (intro exI [of _ "(front @ [st']) @ [r]"] exI [of _ "(fs @ [(k0, t @ p)]) @ [(key it, q)]"])
        (simp add: add_item_def items kts)
  qed
next
  case False
  have "all_account (items @ [it]) (kts @ [(key it, u)])"
    using assms fresh_accounts by (simp add: all_account_snoc)
  with False show ?thesis
    by (intro exI [of _ "items @ [it]"] exI [of _ "kts @ [(key it, u)]"])
      (auto simp: add_item_def)
qed

lemma add_items_account:
  assumes "all_account items kts" and "list_all2 (\<lambda>it ku. key it = fst ku \<and> fresh it (snd ku)) its kus"
  shows "\<exists>items' kts'. run_machine add_item items its = Inr items' \<and> all_account items' kts' \<and>
    (\<forall>k. keyed k kts' = keyed k kts @ keyed k kus)"
  using assms(2,1)
proof (induction its kus arbitrary: items kts rule: list_all2_induct)
  case (Cons it its ku kus)
  obtain items' kts' where step: "add_item items it = Inr items'" "all_account items' kts'"
    "\<And>k. keyed k kts' = keyed k kts @ (if k = key it then snd ku else [])"
    using add_item_accounts [OF Cons.prems] Cons.hyps(1) by blast
  obtain items2 kts2 where "run_machine add_item items' its = Inr items2" "all_account items2 kts2"
    "\<And>k. keyed k kts2 = keyed k kts' @ keyed k kus"
    using Cons.IH [OF step(2)] by blast
  with step Cons.hyps(1) show ?case
    by (intro exI [of _ items2] exI [of _ kts2]) simp
qed auto

end

section \<open>The streams meet the contract\<close>

abbreviation feed :: "ansi_output \<Rightarrow> jsstring \<Rightarrow> ansi_output result" where
  "feed s out \<equiv> processOutput out s"

definition stream_key :: "activity_stream \<Rightarrow> stream_kind \<times> jsstring" where
  "stream_key st = (st_kind st, st_parentId st)"

text \<open>A new interpreter with the given styles.\<close>

definition styled_start :: "sgr_state option \<Rightarrow> ansi_output" where
  "styled_start x = new_ANSIOutput\<lparr>a_sgr := x\<rparr>"

text \<open>
  A stream accounts for a text when its interpreter has processed a part of it, in pieces, from the
  styles it started with, and the rest is waiting; a terminated stream waits for nothing.
\<close>

definition stream_accounts :: "activity_stream \<Rightarrow> jsstring \<Rightarrow> bool" where
  "stream_accounts st t \<longleftrightarrow>
     (\<exists>x outs. sgr_ok x \<and> run_machine feed (styled_start x) outs = Inr (st_ansi st) \<and>
        concat (outs @ st_waiting st) = t) \<and> (st_terminated st \<longrightarrow> st_waiting st = [])"

definition stream_fresh :: "activity_stream \<Rightarrow> jsstring \<Rightarrow> bool" where
  "stream_fresh st t \<longleftrightarrow>
     \<not> st_terminated st \<and> st_waiting st = [t] \<and> st_text st = t \<and>
     (\<exists>x. sgr_ok x \<and> st_ansi st = styled_start x)"

lemma isSame_key: "isSameActivityItemStream a b \<longleftrightarrow> stream_key a = stream_key b"
  by (cases "st_kind a"; cases "st_kind b") (auto simp: isSameActivityItemStream_def stream_key_def)

lemma ansi_ok_styled_start: "sgr_ok x \<Longrightarrow> ansi_ok (styled_start x)"
  by (simp add: ansi_ok_def styled_start_def new_ANSIOutput_def isBuffering_def)

lemma stream_accounts_ansi_ok: "stream_accounts st t \<Longrightarrow> ansi_ok (st_ansi st)"
  using chunks.run_ok ansi_ok_styled_start by (fastforce simp: stream_accounts_def)

lemma stream_accounts_wait:
  assumes "stream_accounts st t" and "\<not> st_terminated st"
  shows "stream_accounts (st\<lparr>st_waiting := st_waiting st @ [u]\<rparr>) (t @ u)"
  using assms by (auto simp: stream_accounts_def)

lemma processActivityItemStreams_accounts:
  assumes "stream_accounts st t"
  shows "\<exists>a. processActivityItemStreams st = Inr (st\<lparr>st_ansi := a, st_waiting := []\<rparr>) \<and>
    stream_accounts (st\<lparr>st_ansi := a, st_waiting := []\<rparr>) t"
proof -
  obtain x outs where x: "sgr_ok x" "run_machine feed (styled_start x) outs = Inr (st_ansi st)"
    "concat (outs @ st_waiting st) = t"
    using assms by (auto simp: stream_accounts_def)
  obtain a where a: "run_machine feed (st_ansi st) (st_waiting st) = Inr a"
    using chunks.run_total [OF stream_accounts_ansi_ok [OF assms]] by blast
  then have "run_machine feed (styled_start x) (outs @ st_waiting st) = Inr a"
    using x(2) by (simp add: run_machine_append)
  with x a show ?thesis
    by (auto simp: processActivityItemStreams_def stream_accounts_def
        intro!: exI [of _ x] exI [of _ "outs @ st_waiting st"])
qed

lemma accounts_terminate:
  "stream_accounts st t \<Longrightarrow> st_waiting st = [] \<Longrightarrow> stream_accounts (st\<lparr>st_terminated := b\<rparr>) t"
  by (simp add: stream_accounts_def)

lemma with_styles_of_fresh:
  assumes "ansi_ok (st_ansi st)" and "stream_fresh it t"
  shows "stream_fresh (with_styles_of st it) t"
proof -
  have "sgr_ok (copyStyles (a_sgr (st_ansi st)))"
    using assms(1) sgr_ok_copyStyles by (simp add: ansi_ok_def)
  with assms(2) show ?thesis
    by (auto simp: stream_fresh_def with_styles_of_def copyStylesFrom_def styled_start_def)
qed

lemma newActivityItemStream_fresh: "stream_fresh (newActivityItemStream kind i pid d t) t"
proof -
  have "sgr_ok None" "styled_start None = new_ANSIOutput"
    by (simp_all add: sgr_ok_def styled_start_def new_ANSIOutput_def)
  then show ?thesis
    by (auto simp: stream_fresh_def newActivityItemStream_def intro!: exI [of _ None])
qed

lemma split_at_last_newline:
  assumes "last_index_of t LF \<noteq> -1"
  shows "js_slice t 0 (last_index_of t LF + 1) @ js_slice_from t (last_index_of t LF + 1) = t"
proof -
  have "0 \<le> last_index_of t LF + 1" "last_index_of t LF + 1 \<le> int (length t)"
    using last_index_of_bounds [where xs = t and y = LF] last_index_of_none [of t LF] assms by auto
  then show ?thesis
    by (simp add: js_slice_prefix js_slice_from_nonneg)
qed

text \<open>The outcome of adding a stream, as the contract states it.\<close>

definition added ::
    "activity_stream \<Rightarrow> jsstring \<Rightarrow> activity_stream \<Rightarrow> jsstring \<Rightarrow> (activity_stream \<times> activity_stream option) result \<Rightarrow> bool" where
  "added st t it u r \<longleftrightarrow>
     (\<exists>st' rest p q. r = Inr (st', rest) \<and> stream_key st' = stream_key st \<and>
        stream_accounts st' (t @ p) \<and> u = p @ q \<and>
        (case rest of None \<Rightarrow> q = [] | Some r \<Rightarrow> stream_fresh r q \<and> stream_key r = stream_key it))"

lemma added_all:
  "stream_accounts st' (t @ u) \<Longrightarrow> stream_key st' = stream_key st \<Longrightarrow> added st t it u (Inr (st', None))"
  by (auto simp: added_def)

lemma added_part:
  "stream_accounts st' (t @ p) \<Longrightarrow> stream_key st' = stream_key st \<Longrightarrow> stream_fresh r q \<Longrightarrow>
   stream_key r = stream_key it \<Longrightarrow> u = p @ q \<Longrightarrow> added st t it u (Inr (st', Some r))"
  unfolding added_def by (intro exI [of _ st'] exI [of _ "Some r"] exI [of _ p] exI [of _ q]) simp

lemma add_without_split:
  assumes "stream_accounts st t" and "stream_fresh it u" and "st_terminated st \<or> last_index_of u LF = -1"
  shows "added st t it u (addActivityItemStream st it)"
proof -
  have u: "st_text it = u"
    using assms(2) by (simp add: stream_fresh_def)
  show ?thesis
  proof (cases "st_terminated st")
    case True
    then show ?thesis
      using added_part [of st t "[]" st "with_styles_of st it" u it u] assms(1)
        with_styles_of_fresh [OF stream_accounts_ansi_ok [OF assms(1)] assms(2)]
      by (simp add: addActivityItemStream_def stream_key_def with_styles_of_def)
  next
    case False
    then show ?thesis
      using added_all [OF stream_accounts_wait [OF assms(1), of u], of st it] assms(3) u
      by (simp add: addActivityItemStream_def stream_key_def)
  qed
qed

lemma add_with_split:
  assumes "stream_accounts st t" and "stream_fresh it u" and "stream_key st = stream_key it"
    and "\<not> st_terminated st" and "last_index_of u LF \<noteq> -1"
  shows "added st t it u (addActivityItemStream st it)"
proof -
  have u: "st_text it = u"
    using assms(2) by (simp add: stream_fresh_def)
  let ?n = "last_index_of u LF"
  let ?p = "js_slice u 0 (?n + 1)" and ?q = "js_slice_from u (?n + 1)"
  let ?w = "st\<lparr>st_waiting := st_waiting st @ [?p]\<rparr>"
  obtain a where a: "processActivityItemStreams ?w = Inr (?w\<lparr>st_ansi := a, st_waiting := []\<rparr>)"
    "stream_accounts (?w\<lparr>st_ansi := a, st_waiting := []\<rparr>) (t @ ?p)"
    using processActivityItemStreams_accounts stream_accounts_wait [OF assms(1,4), of ?p] by blast
  let ?t = "?w\<lparr>st_ansi := a, st_waiting := [], st_terminated := isBuffering a\<rparr>"
  let ?r = "with_styles_of ?t (newActivityItemStream (st_kind st) (st_id it) (st_parentId it) (st_when it) ?q)"
  have acc: "stream_accounts ?t (t @ ?p)"
    using accounts_terminate [OF a(2), of "isBuffering a"] by simp
  have r: "stream_fresh ?r ?q" "stream_key ?r = stream_key it"
    using with_styles_of_fresh [OF stream_accounts_ansi_ok [OF acc] newActivityItemStream_fresh] assms(3)
    by (simp_all add: stream_key_def with_styles_of_def newActivityItemStream_def)
  have pq: "u = ?p @ ?q"
    using split_at_last_newline [of u] assms(5) by simp
  have key: "stream_key ?t = stream_key st" "stream_key (?t\<lparr>st_waiting := st_waiting ?t @ [?q]\<rparr>) = stream_key st"
    by (simp_all add: stream_key_def)
  have "added st t it u (Inr (?t, None))" if "?q = []"
    using added_all [OF _ key(1)] acc pq that by simp
  moreover have "added st t it u (Inr (?t\<lparr>st_waiting := st_waiting ?t @ [?q]\<rparr>, None))" if "\<not> isBuffering a"
    using added_all [OF _ key(2)] stream_accounts_wait [OF acc, of ?q] pq that by simp
  moreover have "added st t it u (Inr (?t, Some ?r))"
    by (rule added_part [OF acc key(1) r pq])
  moreover have "addActivityItemStream st it =
    (if ?q = [] then Inr (?t, None)
     else if \<not> isBuffering a then Inr (?t\<lparr>st_waiting := st_waiting ?t @ [?q]\<rparr>, None)
     else Inr (?t, Some ?r))"
    using assms(4,5) a(1) by (simp add: addActivityItemStream_def u Let_def)
  ultimately show ?thesis
    by presburger
qed

lemma addActivityItemStream_accounts:
  "stream_accounts st t \<Longrightarrow> stream_fresh it u \<Longrightarrow> stream_key st = stream_key it \<Longrightarrow>
   added st t it u (addActivityItemStream st it)"
  using add_without_split add_with_split by blast

lemma stream_fresh_accounts: "stream_fresh it u \<Longrightarrow> stream_accounts it u"
  by (auto simp: stream_fresh_def stream_accounts_def intro!: exI [of _ "[]"])

interpretation streams: stream_contract addActivityItemStream stream_key stream_accounts stream_fresh
  by unfold_locales (fact stream_fresh_accounts addActivityItemStream_accounts [unfolded added_def])+

text \<open>On items that are streams, the container adds as the contract's client does.\<close>

lemma addActivityItem_streams:
  "addActivityItem (ItemStream it) (ra\<lparr>ra_items := map ItemStream items\<rparr>) =
     bind_result (streams.add_item items it) (\<lambda>items'. Inr (ra\<lparr>ra_items := map ItemStream items'\<rparr>))"
  by (cases items rule: rev_cases)
    (auto simp: addActivityItem_def streams.add_item_def isSame_key push_item_def bind_result_def
      split: sum.split option.split)

lemma addActivityItems_streams:
  "run_machine (\<lambda>r item. addActivityItem item r) (ra\<lparr>ra_items := map ItemStream items\<rparr>) (map ItemStream its) =
     bind_result (run_machine streams.add_item items its) (\<lambda>items'. Inr (ra\<lparr>ra_items := map ItemStream items'\<rparr>))"
proof (induction its arbitrary: items)
  case (Cons it its)
  then show ?case
    by (cases "streams.add_item items it") (simp_all add: addActivityItem_streams)
qed simp

section \<open>Further lemmas\<close>

text \<open>What is seen of a style: everything the renderer reads.\<close>

definition shown_style ::
    "sgr_state option \<Rightarrow> (ansi_style list option \<times> color option \<times> color option \<times> jsstring option \<times> ansi_font option) option" where
  "shown_style o_s = map_option (\<lambda>s. (sgr_styles s, foregroundColor s, sgr_background s, sgr_underlined s, sgr_font s)) o_s"

lemma copy_fields:
  assumes "sgr_wf s"
  shows "sgr_styles (copy s) = sgr_styles s" "sgr_foreground (copy s) = sgr_foreground s"
    "sgr_background (copy s) = sgr_background s" "sgr_underlined (copy s) = sgr_underlined s"
    "sgr_font (copy s) = sgr_font s" "foregroundColor (copy s) = foregroundColor s"
proof -
  show styles: "sgr_styles (copy s) = sgr_styles s"
    using assms by (auto simp: copy_def Let_def sgr_wf_def split: option.splits)
  show fields: "sgr_foreground (copy s) = sgr_foreground s" "sgr_background (copy s) = sgr_background s"
    "sgr_underlined (copy s) = sgr_underlined s" "sgr_font (copy s) = sgr_font s"
    by (simp_all add: copy_def Let_def)
  show "foregroundColor (copy s) = foregroundColor s"
    by (simp only: foregroundColor_def fields)
qed

lemma shown_style_copyStyles: "sgr_ok x \<Longrightarrow> shown_style (copyStyles x) = shown_style x"
  by (cases x) (simp_all add: shown_style_def copyStyles_def sgr_ok_def copy_fields)

lemma remainder_cases:
  assumes "addActivityItemStream st it = Inr (st', Some r)"
  shows "st_terminated st' \<and> a_sgr (st_ansi r) = copyStyles (a_sgr (st_ansi st'))"
  using assms
  by (auto simp: addActivityItemStream_def Let_def with_styles_of_def copyStylesFrom_def bind_result_Inr_iff
      split: if_splits)

lemma replace_provisional_skip:
  "(\<forall>k. item \<noteq> ItemInput k) \<Longrightarrow>
   replace_provisional i (item # items) = map_option ((#) item) (replace_provisional i items)"
  by (cases item) simp_all

lemma replace_provisional_Some:
  assumes "replace_provisional i items = Some items'"
  shows "\<exists>later j earlier. items = later @ ItemInput j # earlier \<and> items' = later @ ItemInput i # earlier \<and>
    in_state j = Provisional \<and> in_parentId j = in_parentId i \<and> (\<forall>k. ItemInput k \<notin> set later)"
  using assms
proof (induction items arbitrary: items')
  case (Cons item items)
  show ?case
  proof (cases "\<exists>j. item = ItemInput j")
    case True
    with Cons.prems show ?thesis
      by (intro exI [of _ "[]"]) (auto split: if_splits)
  next
    case False
    then obtain ys where "replace_provisional i items = Some ys" "items' = item # ys"
      using Cons.prems by (auto simp: replace_provisional_skip)
    with Cons.IH [of ys] obtain later j earlier where
      "items = later @ ItemInput j # earlier" "ys = later @ ItemInput i # earlier"
      "in_state j = Provisional" "in_parentId j = in_parentId i" "\<forall>k. ItemInput k \<notin> set later"
      by blast
    with False \<open>items' = item # ys\<close> show ?thesis
      by (intro exI [of _ "item # later"]) auto
  qed
qed simp

lemma replace_provisional_found:
  assumes "in_state j = Provisional" and "in_parentId j = in_parentId i" and "\<forall>k. ItemInput k \<notin> set later"
  shows "replace_provisional i (later @ ItemInput j # earlier) = Some (later @ ItemInput i # earlier)"
  using assms(3)
proof (induction later)
  case (Cons item later)
  then show ?case
    by (cases item) auto
qed (use assms in simp)

lemma trace_text_plain:
  assumes "OSC \<notin> set text" and "CR \<notin> set text"
  shows "list_all is_plain (trace_text text)"
proof -
  have inner: "set (js_replace_all ESC (js ''ESC'') text) \<subseteq> set (js ''ESC'') \<union> set text"
    by (rule set_js_replace_all)
  then have "set (trace_text text) \<subseteq> set (js ''CSI'') \<union> set (js ''ESC'') \<union> set text"
    unfolding trace_text_def using set_js_replace_all by blast
  moreover have "CSI \<notin> set (trace_text text)"
    unfolding trace_text_def by (rule js_replace_all_gone) simp
  moreover have "ESC \<notin> set (js_replace_all ESC (js ''ESC'') text)"
    by (rule js_replace_all_gone) simp
  then have "ESC \<notin> set (trace_text text)"
    unfolding trace_text_def using set_js_replace_all [of CSI "js ''CSI''" "js_replace_all ESC (js ''ESC'') text"] by auto
  ultimately show ?thesis
    using assms by (auto simp: list_all_iff is_plain_def)
qed

section \<open>Properties\<close>



text \<open>
  A remainder is only returned by a terminated stream that waits for nothing, and the remainder
  starts in the style in which the stream ended.
\<close>

theorem remainder_keeps_style:
  assumes "stream_accounts st t" and "stream_fresh it u" and "stream_key st = stream_key it"
    and "addActivityItemStream st it = Inr (st', Some r)"
  shows "st_terminated st' \<and> st_waiting st' = [] \<and>
    shown_style (a_sgr (st_ansi r)) = shown_style (a_sgr (st_ansi st'))"
proof -
  obtain p where p: "stream_accounts st' (t @ p)"
    using addActivityItemStream_accounts [OF assms(1-3)] assms(4) by (auto simp: added_def)
  have "sgr_ok (a_sgr (st_ansi st'))"
    using stream_accounts_ansi_ok [OF p] by (simp add: ansi_ok_def)
  with remainder_cases [OF assms(4)] p show ?thesis
    by (simp add: shown_style_copyStyles stream_accounts_def)
qed

theorem remainder_keeps_style_witness:
  "\<exists>st' r. addActivityItemStream (newActivityItemStream OutputStream [] [] 0 (js ''a''))
       (newActivityItemStream OutputStream [] [] 0 (ESC # js ''[1mb'' @ [LF] @ js ''c'')) = Inr (st', Some r) \<and>
     st_waiting st' = [] \<and> shown_style (a_sgr (st_ansi r)) = shown_style (a_sgr (st_ansi st'))"
proof -
  let ?st = "newActivityItemStream OutputStream [] [] 0 (js ''a'')"
  let ?it = "newActivityItemStream OutputStream [] [] 0 (ESC # js ''[1mb'' @ [LF] @ js ''c'')"
  have "map_sum id (\<lambda>x. snd x \<noteq> None) (addActivityItemStream ?st ?it) = Inr True"
    by code_simp
  then obtain st' r where "addActivityItemStream ?st ?it = Inr (st', Some r)"
    by (cases "addActivityItemStream ?st ?it") auto
  moreover have "stream_key ?st = stream_key ?it"
    by code_simp
  ultimately show ?thesis
    using remainder_keeps_style [OF stream_fresh_accounts [OF newActivityItemStream_fresh] newActivityItemStream_fresh] by blast
qed

text \<open>
  Adding an input that is not provisional either puts it in the place of the provisional input of
  the same parent, when that is the last input of the activity, and leaves everything else as it is, or,
  when the last input is none such, appends it.
\<close>

theorem executed_input_replaces_provisional:
  assumes "in_state i \<noteq> Provisional"
  shows "(\<exists>earlier j later. ra_items ra = earlier @ ItemInput j # later \<and> (\<forall>k. ItemInput k \<notin> set later) \<and>
      in_state j = Provisional \<and> in_parentId j = in_parentId i \<and>
      addActivityItem (ItemInput i) ra = Inr (ra\<lparr>ra_items := earlier @ ItemInput i # later\<rparr>)) \<or>
    ((\<nexists>earlier j later. ra_items ra = earlier @ ItemInput j # later \<and> (\<forall>k. ItemInput k \<notin> set later) \<and>
      in_state j = Provisional \<and> in_parentId j = in_parentId i) \<and>
      addActivityItem (ItemInput i) ra = Inr (ra\<lparr>ra_items := ra_items ra @ [ItemInput i]\<rparr>))"
proof (cases "replace_provisional i (rev (ra_items ra))")
  case None
  have "False" if "ra_items ra = earlier @ ItemInput j # later" "\<forall>k. ItemInput k \<notin> set later"
    "in_state j = Provisional" "in_parentId j = in_parentId i" for earlier j later
    using None replace_provisional_found [of j i "rev later" "rev earlier"] that by simp
  then have "\<nexists>earlier j later. ra_items ra = earlier @ ItemInput j # later \<and> (\<forall>k. ItemInput k \<notin> set later) \<and>
      in_state j = Provisional \<and> in_parentId j = in_parentId i"
    by blast
  moreover have "addActivityItem (ItemInput i) ra = Inr (ra\<lparr>ra_items := ra_items ra @ [ItemInput i]\<rparr>)"
    using None assms by (simp add: addActivityItem_def push_item_def)
  ultimately show ?thesis
    by blast
next
  case (Some items)
  from replace_provisional_Some [OF this] obtain later j earlier where
    rev: "rev (ra_items ra) = later @ ItemInput j # earlier" "items = later @ ItemInput i # earlier"
      "in_state j = Provisional" "in_parentId j = in_parentId i" "\<forall>k. ItemInput k \<notin> set later"
    by blast
  then have "ra_items ra = rev earlier @ ItemInput j # rev later"
    by (simp add: rev_swap)
  with Some rev assms show ?thesis
    by (intro disjI1 exI [of _ "rev earlier"] exI [of _ j] exI [of _ "rev later"])
      (auto simp: addActivityItem_def)
qed

theorem executed_input_replaces_provisional_witness:
  "\<exists>i j. in_state i = Executing \<and> in_state j = Provisional \<and>
     addActivityItem (ItemInput i) \<lparr>ra_id = [], ra_items = [ItemInput j]\<rparr> = Inr \<lparr>ra_id = [], ra_items = [ItemInput i]\<rparr>"
proof -
  let ?j = "\<lparr>in_state = Provisional, in_id = [], in_parentId = [], in_when = 0, in_inputPrompt = [],
    in_continuationPrompt = [], in_code = [], in_codeOutputLines = []\<rparr>"
  let ?i = "?j\<lparr>in_state := Executing\<rparr>"
  have "addActivityItem (ItemInput ?i) \<lparr>ra_id = [], ra_items = [ItemInput ?j]\<rparr> =
      Inr \<lparr>ra_id = [], ra_items = [ItemInput ?i]\<rparr>"
    using executed_input_replaces_provisional [of ?i "\<lparr>ra_id = [], ra_items = [ItemInput ?j]\<rparr>"]
    by (auto simp: Cons_eq_append_conv)
  then show ?thesis
    by (intro exI [of _ ?i] exI [of _ ?j]) simp
qed

text \<open>
  Trimming to a positive number of items keeps the newest ones, as many as there are up to that
  number, and returns how many it kept.
\<close>

lemma trimActivityItems_newest:
  assumes "0 < m"
  shows "trimActivityItems (int m) ra =
    (min m (length (ra_items ra)), ra\<lparr>ra_items := drop (length (ra_items ra) - m) (ra_items ra)\<rparr>)"
proof (cases "m \<le> length (ra_items ra)")
  case True
  then show ?thesis
    using assms js_slice_from_neg [of "int m" "ra_items ra"] by (simp add: trimActivityItems_def min_def)
next
  case False
  then have "js_slice_from (ra_items ra) (- int m) = ra_items ra"
    by (simp add: js_slice_from_def js_slice_def rel_index_def)
  with False show ?thesis
    by (simp add: trimActivityItems_def min_def)
qed

text \<open>
  A trace without the 8-bit OSC and carriage returns is shown verbatim, with \<open>ESC\<close> and \<open>CSI\<close> spelled
  out: no control sequence in it is interpreted.
\<close>

theorem trace_shown_verbatim:
  assumes "OSC \<notin> set text" and "CR \<notin> set text"
  shows "\<exists>ls. trace_lines text = Inr ls \<and>
    map line_text ls = (let ps = js_split LF (trace_text text) in
      if length ps > 1 \<and> last ps = [] then butlast ps else ps)"
  unfolding trace_lines_def using static_plain trace_text_plain [OF assms] by blast

theorem trace_shown_verbatim_witness:
  "\<exists>ls. trace_lines (ESC # js ''[1ma'') = Inr ls \<and> map line_text ls = [js ''ESC[1ma'']"
  using trace_shown_verbatim [of "ESC # js ''[1ma''"] by (simp add: trace_text_def js_replace_all_def)

text \<open>
  The 8-bit OSC is not replaced: a trace that contains one swallows the rest of its text.
\<close>

theorem trace_with_osc_swallowed:
  "\<exists>ls. trace_lines (js ''a'' @ [OSC] @ js ''b'') = Inr ls \<and> map line_text ls = [js ''a'']"
proof -
  have "map_sum id (map line_text) (trace_lines (js ''a'' @ [OSC] @ js ''b'')) = Inr [js ''a'']"
    by code_simp
  then show ?thesis
    by (cases "trace_lines (js ''a'' @ [OSC] @ js ''b'')") auto
qed

end
