(* ===== verification/Console_Items.thy ===== *)
theory Console_Items
  imports Console_Activity "HOL-Library.AList"
begin

text \<open>
  The items of a console instance: the classes \<open>RuntimeItem...\<close> of
  \<open>src/vs/workbench/services/positronConsole/browser/classes\<close> and the part of
  \<open>PositronConsoleInstance\<close> (\<open>positronConsoleService.ts\<close>) that holds them, indexes the activities by
  their parent and trims what is shown.

  An activity is shared between the array of items and the index, and adding to it through the index
  changes what the array shows. The model therefore has a store: an activity is an address, and the
  array and the index hold addresses. The other runtime items are immutable. What the instance does to
  the outside (events it fires, calls on the session, notifications) is recorded in order in a log.
  Identifiers drawn at random and readings of the clock come from functions of a counter of the state.
\<close>

section \<open>The enumerations\<close>

datatype console_state = CSUninitialized | CSStarting | CSBusy | CSReady | CSOffline | CSExiting | CSExited

datatype attach_mode = AttachStarting | AttachRestarting | AttachSwitching | AttachReconnecting | AttachConnected

datatype runtime_state = RSUninitialized | RSInitializing | RSStarting | RSReady | RSIdle | RSBusy
  | RSRestarting | RSExiting | RSExited | RSOffline | RSInterrupting

datatype exit_reason = StartupFailed | Shutdown | ForcedQuit | Restart | SwitchRuntime | ExitError
  | ExtensionHost | ExitUnknown

datatype execution_mode = Interactive | Transient | Silent

datatype error_behavior = Stop | Continue

section \<open>Runtime items\<close>

record pending_input =
  pi_id :: jsstring
  pi_inputPrompt :: jsstring
  pi_code :: jsstring
  pi_outputLines :: "output_line list"

datatype runtime_item =
    RuntimeItemActivity nat
  | RuntimeItemPendingInput pending_input
  | RuntimeItemTrace jsstring int "output_line list"
  | RuntimeItemStarting jsstring "output_line list" attach_mode
  | RuntimeItemStarted jsstring "output_line list"
  | RuntimeItemReconnected jsstring "output_line list"
  | RuntimeItemOffline jsstring "output_line list"
  | RuntimeItemExited jsstring exit_reason "output_line list"
  | RuntimeItemRestartButton jsstring jsstring
  | RuntimeItemStartup jsstring "output_line list" jsstring jsstring
  | RuntimeItemStartupFailure jsstring jsstring "output_line list"

definition new_RuntimeItemPendingInput :: "jsstring \<Rightarrow> jsstring \<Rightarrow> jsstring \<Rightarrow> pending_input result" where
  "new_RuntimeItemPendingInput id0 inputPrompt code =
     bind_result (pending_input_lines code) (\<lambda>ls.
       Inr \<lparr>pi_id = id0, pi_inputPrompt = inputPrompt, pi_code = code, pi_outputLines = ls\<rparr>)"

definition new_RuntimeItemTrace :: "jsstring \<Rightarrow> int \<Rightarrow> jsstring \<Rightarrow> runtime_item result" where
  "new_RuntimeItemTrace id0 timestamp text =
     bind_result (trace_lines text) (\<lambda>ls. Inr (RuntimeItemTrace id0 timestamp ls))"

definition new_RuntimeItemStarting :: "jsstring \<Rightarrow> jsstring \<Rightarrow> attach_mode \<Rightarrow> runtime_item result" where
  "new_RuntimeItemStarting id0 message mode =
     bind_result (processOutput_static message) (\<lambda>ls. Inr (RuntimeItemStarting id0 ls mode))"

definition new_RuntimeItemStarted :: "jsstring \<Rightarrow> jsstring \<Rightarrow> runtime_item result" where
  "new_RuntimeItemStarted id0 message =
     bind_result (processOutput_static message) (\<lambda>ls. Inr (RuntimeItemStarted id0 ls))"

definition new_RuntimeItemReconnected :: "jsstring \<Rightarrow> jsstring \<Rightarrow> runtime_item result" where
  "new_RuntimeItemReconnected id0 message =
     bind_result (processOutput_static message) (\<lambda>ls. Inr (RuntimeItemReconnected id0 ls))"

definition new_RuntimeItemOffline :: "jsstring \<Rightarrow> jsstring \<Rightarrow> runtime_item result" where
  "new_RuntimeItemOffline id0 message =
     bind_result (processOutput_static message) (\<lambda>ls. Inr (RuntimeItemOffline id0 ls))"

definition new_RuntimeItemExited :: "jsstring \<Rightarrow> exit_reason \<Rightarrow> jsstring \<Rightarrow> runtime_item result" where
  "new_RuntimeItemExited id0 reason message =
     bind_result (processOutput_static message) (\<lambda>ls. Inr (RuntimeItemExited id0 reason ls))"

definition new_RuntimeItemStartup :: "jsstring \<Rightarrow> jsstring \<Rightarrow> jsstring \<Rightarrow> jsstring \<Rightarrow> runtime_item result" where
  "new_RuntimeItemStartup id0 banner implementationVersion languageVersion =
     bind_result (processOutput_static banner) (\<lambda>ls.
       Inr (RuntimeItemStartup id0 ls implementationVersion languageVersion))"

definition new_RuntimeItemStartupFailure :: "jsstring \<Rightarrow> jsstring \<Rightarrow> jsstring \<Rightarrow> runtime_item result" where
  "new_RuntimeItemStartupFailure id0 message details =
     bind_result (processOutput_static details) (\<lambda>ls. Inr (RuntimeItemStartupFailure id0 message ls))"

text \<open>The interpreter accepts every text, so no constructor of a runtime item throws.\<close>

lemma static_total: "\<exists>ls. processOutput_static out = Inr ls"
proof -
  obtain a where "processOutput out new_ANSIOutput = Inr a"
    using processOutput_ok [OF ansi_ok_new] by blast
  then show ?thesis
    using get_outputLines_flushed [OF _ ansi_ok_new] by (simp add: processOutput_static_def)
qed

section \<open>State\<close>

text \<open>What the instance does to the outside.\<close>

datatype console_effect = ItemsChanged | PendingCode "jsstring option"
  | SessionExecute jsstring jsstring execution_mode error_behavior
  | CodeExecuted jsstring execution_mode error_behavior
  | SessionInterrupt | SessionReply jsstring jsstring | StateChanged console_state
  | ConsoleCleared | Notified | RuntimeAttached bool | Warned
  | TraceChanged bool | WordWrapChanged bool | InputFocused | TextPasted jsstring | AllSelected
  | InputHistoryCleared

datatype pending_state = PendingIdle | PendingProcessing | PendingInterrupted

text \<open>
  Where the asynchronous \<open>processPendingInput\<close> stands: not running, waiting for the status of the lines
  collected so far, or done and about to run its \<open>finally\<close> block.
\<close>

datatype processing = NotProcessing | AwaitingStatus "jsstring list" | Finishing

text \<open>A call of \<open>enqueueCode\<close> that waits for the status of its code.\<close>

record enqueue_task =
  eq_code :: jsstring
  eq_withPending :: bool
  eq_allowIncomplete :: bool
  eq_mode :: "execution_mode option"
  eq_errorBehavior :: "error_behavior option"

record console =
  ci_store :: "nat \<Rightarrow> runtime_activity"
  ci_next :: nat
  ci_items :: "runtime_item list"
  ci_activities :: "(jsstring \<times> nat) list"
  ci_trimCounter :: int
  ci_pending :: "pending_input option"
  ci_pendingState :: pending_state
  ci_processing :: processing
  ci_enqueues :: "enqueue_task list"
  ci_promptActive :: bool
  ci_trace :: bool
  ci_wordWrap :: bool
  ci_state :: console_state
  ci_runtimeState :: runtime_state
  ci_runtimeAttached :: bool
  ci_session :: jsstring
  ci_handlers :: "(jsstring \<times> attach_mode) list"
  ci_exitTimers :: nat
  ci_ticks :: nat
  ci_log :: "console_effect list"

definition fields_of_console :: "jsstring \<Rightarrow> console" where
  "fields_of_console sid =
     \<lparr>ci_store = (\<lambda>a. \<lparr>ra_id = [], ra_items = []\<rparr>), ci_next = 0, ci_items = [], ci_activities = [],
      ci_trimCounter = 0, ci_pending = None, ci_pendingState = PendingIdle, ci_processing = NotProcessing,
      ci_enqueues = [], ci_promptActive = False, ci_trace = False, ci_wordWrap = True,
      ci_state = CSUninitialized, ci_runtimeState = RSUninitialized, ci_runtimeAttached = False,
      ci_session = sid, ci_handlers = [], ci_exitTimers = 0, ci_ticks = 0, ci_log = []\<rparr>"

abbreviation (input) MAX_ITEMS :: nat where "MAX_ITEMS \<equiv> 10000"

abbreviation (input) TRIM_THRESHOLD :: int where "TRIM_THRESHOLD \<equiv> 500"

definition announce :: "console_effect \<Rightarrow> console \<Rightarrow> console" where
  "announce e c = c\<lparr>ci_log := ci_log c @ [e]\<rparr>"

section \<open>Trimming\<close>

text \<open>
  The loop from the last item on, over the items in reverse: the store after trimming the activities and
  the number of items that are kept.
\<close>

fun trim_loop ::
    "(nat \<Rightarrow> runtime_activity) \<Rightarrow> int \<Rightarrow> runtime_item list \<Rightarrow> (nat \<Rightarrow> runtime_activity) \<times> nat" where
  "trim_loop h remainingItems [] = (h, 0)"
| "trim_loop h remainingItems (x # xs) =
     (if remainingItems > 0
      then case x of
          RuntimeItemActivity a \<Rightarrow>
            (case trimActivityItems remainingItems (h a) of (n, ra) \<Rightarrow>
               case trim_loop (h(a := ra)) (remainingItems - int n) xs of (h', k) \<Rightarrow> (h', Suc k))
        | _ \<Rightarrow> (case trim_loop h (remainingItems - 1) xs of (h', k) \<Rightarrow> (h', Suc k))
      else (h, 0))"

fun item_activity :: "runtime_item \<Rightarrow> nat option" where
  "item_activity (RuntimeItemActivity a) = Some a"
| "item_activity _ = None"

definition addresses :: "runtime_item list \<Rightarrow> nat list" where
  "addresses items = List.map_filter item_activity items"

definition trimItems :: "console \<Rightarrow> console" where
  "trimItems c =
     (if ci_trimCounter c + 1 < TRIM_THRESHOLD then c\<lparr>ci_trimCounter := ci_trimCounter c + 1\<rparr>
      else case trim_loop (ci_store c) (int MAX_ITEMS) (rev (ci_items c)) of (h, kept) \<Rightarrow>
        let c = c\<lparr>ci_trimCounter := 0, ci_store := h\<rparr>;
            runtimeItemIndex = length (ci_items c) - kept
        in if runtimeItemIndex = 0 then c
           else c\<lparr>ci_items := drop runtimeItemIndex (ci_items c),
                  ci_activities := fold AList.delete
                    (map (\<lambda>a. ra_id (h a)) (addresses (take runtimeItemIndex (ci_items c))))
                    (ci_activities c)\<rparr>)"

section \<open>Adding and clearing\<close>

definition push_runtime_item :: "runtime_item \<Rightarrow> console \<Rightarrow> console" where
  "push_runtime_item item c = c\<lparr>ci_items := ci_items c @ [item]\<rparr>"

definition index_activity :: "jsstring \<Rightarrow> nat \<Rightarrow> console \<Rightarrow> console" where
  "index_activity parentId a c = c\<lparr>ci_activities := AList.update parentId a (ci_activities c)\<rparr>"

text \<open>A new activity is put at the next address of the store.\<close>

definition alloc_activity :: "runtime_activity \<Rightarrow> console \<Rightarrow> console" where
  "alloc_activity ra c = c\<lparr>ci_store := (ci_store c)(ci_next c := ra), ci_next := Suc (ci_next c)\<rparr>"

definition addRuntimeItem :: "runtime_item \<Rightarrow> console \<Rightarrow> console" where
  "addRuntimeItem item c =
     (let c = push_runtime_item item c;
          c = (case item_activity item of
            Some a \<Rightarrow> index_activity (ra_id (ci_store c a)) a c
          | None \<Rightarrow> c)
      in announce ItemsChanged (trimItems c))"

definition addOrUpdateUpdateRuntimeItemActivity ::
    "jsstring \<Rightarrow> activity_item \<Rightarrow> console \<Rightarrow> console result" where
  "addOrUpdateUpdateRuntimeItemActivity parentId item c =
     (case map_of (ci_activities c) parentId of
        Some a \<Rightarrow>
          bind_result (addActivityItem item (ci_store c a)) (\<lambda>ra.
            Inr (announce ItemsChanged (trimItems (c\<lparr>ci_store := (ci_store c)(a := ra)\<rparr>))))
      | None \<Rightarrow>
          bind_result (new_RuntimeItemActivity parentId item) (\<lambda>ra.
            let a = ci_next c;
                c = index_activity parentId a (alloc_activity ra c)
            in Inr (addRuntimeItem (RuntimeItemActivity a) c)))"

definition clearConsole :: "console \<Rightarrow> console" where
  "clearConsole c =
     (if ci_promptActive c then announce Notified c
      else announce ConsoleCleared (announce ItemsChanged (c\<lparr>ci_items := [], ci_activities := []\<rparr>)))"

text \<open>
  Marking the input of an activity busy or not: the first input, unless it is provisional. The setter of
  the input's state changes it.
\<close>

fun mark_first_input :: "bool \<Rightarrow> activity_item list \<Rightarrow> activity_item list" where
  "mark_first_input busy [] = []"
| "mark_first_input busy (ItemInput i # items) =
     (if in_state i \<noteq> Provisional
      then ItemInput (fst (set_input_state (if busy then Executing else Completed) i)) # items
      else ItemInput i # items)"
| "mark_first_input busy (item # items) = item # mark_first_input busy items"

definition update_items ::
    "(activity_item list \<Rightarrow> activity_item list) \<Rightarrow> nat \<Rightarrow> console \<Rightarrow> console" where
  "update_items f a c =
     c\<lparr>ci_store := (ci_store c)(a := (ci_store c a)\<lparr>ra_items := f (ra_items (ci_store c a))\<rparr>)\<rparr>"

definition markInputBusyState :: "jsstring \<Rightarrow> bool \<Rightarrow> console \<Rightarrow> console" where
  "markInputBusyState parentId busy c =
     (case map_of (ci_activities c) parentId of
        None \<Rightarrow> c
      | Some a \<Rightarrow> update_items (mark_first_input busy) a c)"

section \<open>What is shown\<close>

text \<open>
  The entries of the console from top to bottom: the activity items of the activities, and the other
  runtime items.
\<close>

fun entries :: "(nat \<Rightarrow> runtime_activity) \<Rightarrow> runtime_item \<Rightarrow> (runtime_item + nat \<times> activity_item) list" where
  "entries h (RuntimeItemActivity a) = map (\<lambda>i. Inr (a, i)) (ra_items (h a))"
| "entries h item = [Inl item]"

definition shown :: "console \<Rightarrow> (runtime_item + nat \<times> activity_item) list" where
  "shown c = concat (map (entries (ci_store c)) (ci_items c))"

lemma addresses_simps [simp]:
  "addresses [] = []"
  "addresses (item # items) = (case item_activity item of None \<Rightarrow> addresses items | Some a \<Rightarrow> a # addresses items)"
  "addresses (items @ items') = addresses items @ addresses items'"
  by (simp_all add: addresses_def List.map_filter_def split: option.split)

lemma addresses_rev: "addresses (rev items) = rev (addresses items)"
  by (induction items) (auto split: option.split)

lemma set_addresses: "a \<in> set (addresses items) \<longleftrightarrow> RuntimeItemActivity a \<in> set items"
proof (induction items)
  case (Cons x items)
  then show ?case
    by (cases x) auto
qed simp

lemma addresses_list_update:
  "item_activity (items ! i) = None \<Longrightarrow> item_activity item = None \<Longrightarrow> addresses (items[i := item]) = addresses items"
proof (induction items arbitrary: i)
  case (Cons x items)
  then show ?case
    by (cases i) (auto split: option.split)
qed simp

lemma addresses_filter:
  "(\<And>item. item \<in> set items \<Longrightarrow> \<not> P item \<Longrightarrow> item_activity item = None) \<Longrightarrow> addresses (filter P items) = addresses items"
  by (induction items) (auto split: option.split)

lemma entries_cong: "(\<And>a. x = RuntimeItemActivity a \<Longrightarrow> h a = h' a) \<Longrightarrow> entries h x = entries h' x"
  by (cases x) auto

section \<open>Trimming keeps the newest entries\<close>

definition reversed_entries ::
    "(nat \<Rightarrow> runtime_activity) \<Rightarrow> runtime_item list \<Rightarrow> (runtime_item + nat \<times> activity_item) list" where
  "reversed_entries h xs = concat (map (rev \<circ> entries h) xs)"

lemma reversed_entries_simps [simp]:
  "reversed_entries h [] = []"
  "reversed_entries h (x # xs) = rev (entries h x) @ reversed_entries h xs"
  by (simp_all add: reversed_entries_def)

lemma reversed_entries_rev: "reversed_entries h (rev items) = rev (concat (map (entries h) items))"
  by (induction items) (simp_all add: reversed_entries_def)

lemma reversed_entries_cong:
  "(\<And>a. a \<in> set (addresses xs) \<Longrightarrow> h a = h' a) \<Longrightarrow> reversed_entries h xs = reversed_entries h' xs"
  unfolding reversed_entries_def by (intro arg_cong [where f = concat] map_cong refl)
    (auto simp: set_addresses intro: entries_cong)

lemma item_activity_Some_iff: "item_activity x = Some a \<longleftrightarrow> x = RuntimeItemActivity a"
  by (cases x) auto

lemma entries_plain: "item_activity x = None \<Longrightarrow> entries h x = [Inl x]"
  by (cases x) auto

text \<open>The step of the loop at a plain item and at an activity.\<close>

lemma trim_loop_stop: "r \<le> 0 \<Longrightarrow> trim_loop h r xs = (h, 0)"
  by (cases xs) auto

lemma trim_loop_plain:
  "0 < r \<Longrightarrow> item_activity x = None \<Longrightarrow>
   trim_loop h r (x # xs) = map_prod id Suc (trim_loop h (r - 1) xs)"
  by (cases x) (auto split: prod.split)

definition trim_activity :: "nat \<Rightarrow> nat \<Rightarrow> (nat \<Rightarrow> runtime_activity) \<Rightarrow> (nat \<Rightarrow> runtime_activity)" where
  "trim_activity m a h = h(a := (h a)\<lparr>ra_items := drop (length (ra_items (h a)) - m) (ra_items (h a))\<rparr>)"

lemma trim_activity_simps [simp]:
  "b \<noteq> a \<Longrightarrow> trim_activity m a h b = h b"
  "ra_id (trim_activity m a h b) = ra_id (h b)"
  by (auto simp: trim_activity_def)

lemma trim_loop_activity:
  "0 < r \<Longrightarrow> trim_loop h r (RuntimeItemActivity a # xs) =
    map_prod id Suc (trim_loop (trim_activity (nat r) a h) (r - min r (int (length (ra_items (h a))))) xs)"
  using trimActivityItems_newest [of "nat r" "h a"]
  by (auto simp: trim_activity_def min_def split: prod.split)

declare trim_loop.simps(2) [simp del]

lemmas trim_loop_steps = trim_loop_stop trim_loop_plain trim_loop_activity item_activity_Some_iff

text \<open>The loop keeps a prefix of the reversed items and changes only the items of activities it visits.\<close>

lemma trim_loop_kept: "snd (trim_loop h r xs) \<le> length xs"
proof (induction xs arbitrary: h r)
  case (Cons x xs)
  then show ?case
    by (cases "0 < r"; cases "item_activity x") (auto simp: trim_loop_steps)
qed simp

lemma trim_loop_elsewhere:
  "a \<notin> set (addresses (take (snd (trim_loop h r xs)) xs)) \<Longrightarrow> fst (trim_loop h r xs) a = h a"
proof (induction xs arbitrary: h r)
  case (Cons x xs)
  then show ?case
    by (cases "0 < r"; cases "item_activity x") (auto simp: trim_loop_steps)
qed simp

lemma trim_loop_ids: "ra_id (fst (trim_loop h r xs) a) = ra_id (h a)"
proof (induction xs arbitrary: h r)
  case (Cons x xs)
  then show ?case
    by (cases "0 < r"; cases "item_activity x") (auto simp: trim_loop_steps)
qed simp

lemma in_set_addresses_takeD: "a \<in> set (addresses (take k xs)) \<Longrightarrow> a \<in> set (addresses xs)"
  by (auto simp: set_addresses dest: in_set_takeD)

lemma trim_loop_newest:
  "distinct (addresses xs) \<Longrightarrow>
   reversed_entries (fst (trim_loop h r xs)) (take (snd (trim_loop h r xs)) xs) = take (nat r) (reversed_entries h xs)"
proof (induction xs arbitrary: h r)
  case (Cons x xs)
  consider "r \<le> 0" | "0 < r" "item_activity x = None" | a where "0 < r" "x = RuntimeItemActivity a"
    by (cases "item_activity x") (force simp: item_activity_Some_iff)+
  then show ?case
  proof cases
    case 1
    then show ?thesis by (simp add: trim_loop_stop)
  next
    case 2
    then have "nat r = Suc (nat (r - 1))" by simp
    with 2 Cons show ?thesis
      by (simp add: trim_loop_plain entries_plain)
  next
    case (3 a)
    define items where "items = ra_items (h a)"
    define h1 where "h1 = trim_activity (nat r) a h"
    define r1 where "r1 = r - min r (int (length items))"
    define h' where "h' = fst (trim_loop h1 r1 xs)"
    have a: "a \<notin> set (addresses xs)" "distinct (addresses xs)"
      using Cons.prems 3 by auto
    then have "h' a = h1 a"
      unfolding h'_def by (intro trim_loop_elsewhere) (auto dest: in_set_addresses_takeD)
    then have "rev (entries h' x) = take (nat r) (rev (entries h x))"
      using 3 by (simp add: h1_def trim_activity_def items_def take_rev drop_map)
    moreover have "reversed_entries h1 xs = reversed_entries h xs"
      using a by (intro reversed_entries_cong) (auto simp: h1_def trim_activity_def)
    moreover have "nat r1 = nat r - length (rev (entries h x))"
      using 3 by (auto simp: r1_def items_def)
    ultimately show ?thesis
      using 3 Cons.IH [OF a(2), of h1 r1]
      by (simp add: trim_loop_activity h'_def h1_def r1_def items_def)
  qed
qed simp

lemma trimItems_reached_threshold:
  assumes "TRIM_THRESHOLD \<le> ci_trimCounter c + 1"
  defines "t \<equiv> trim_loop (ci_store c) (int MAX_ITEMS) (rev (ci_items c))"
  shows "ci_items (trimItems c) = drop (length (ci_items c) - snd t) (ci_items c)"
    and "ci_store (trimItems c) = fst t"
    and "ci_trimCounter (trimItems c) = 0"
  using assms by (auto simp: trimItems_def t_def Let_def split: prod.split)

text \<open>
  When the trim counter reaches its threshold, what the console shows afterwards is the newest ten
  thousand of the entries it showed before, in their order, whether they are entries of activities or
  items of their own; an activity that is cut keeps its newest entries.
\<close>

theorem trimming_keeps_newest_entries:
  assumes "distinct (addresses (ci_items c))" and "TRIM_THRESHOLD \<le> ci_trimCounter c + 1"
  shows "shown (trimItems c) = drop (length (shown c) - MAX_ITEMS) (shown c)"
proof -
  define t where "t = trim_loop (ci_store c) (int MAX_ITEMS) (rev (ci_items c))"
  have d: "distinct (addresses (rev (ci_items c)))"
    using assms(1) by (simp add: addresses_rev)
  have "ci_items (trimItems c) = rev (take (snd t) (rev (ci_items c)))"
    using trimItems_reached_threshold(1) [OF assms(2)] by (simp add: t_def take_rev)
  then have "rev (shown (trimItems c)) = take MAX_ITEMS (rev (shown c))"
    using trim_loop_newest [OF d, of "ci_store c" "int MAX_ITEMS"] trimItems_reached_threshold(2) [OF assms(2)]
      reversed_entries_rev [of "fst t" "rev (take (snd t) (rev (ci_items c)))"]
      reversed_entries_rev [of "ci_store c" "ci_items c"]
    by (simp add: shown_def t_def)
  then show ?thesis
    by (simp add: take_rev)
qed

theorem trimming_keeps_newest_entries_witness:
  "shown (trimItems ((fields_of_console [])\<lparr>ci_trimCounter := 499,
      ci_items := map (\<lambda>i. RuntimeItemRestartButton [int i] []) [0..<10001]\<rparr>)) =
   map (\<lambda>i. Inl (RuntimeItemRestartButton [int i] [])) [1..<10001]"
proof -
  have *: "shown (c\<lparr>ci_items := map (\<lambda>i. RuntimeItemRestartButton [int i] []) is\<rparr>) =
      map (\<lambda>i. Inl (RuntimeItemRestartButton [int i] [])) is" for c "is"
    by (induction "is") (simp_all add: shown_def)
  have "addresses (map (\<lambda>i. RuntimeItemRestartButton [int i] []) is) = []" for "is"
    by (induction "is") simp_all
  then show ?thesis
    using trimming_keeps_newest_entries [of "(fields_of_console [])\<lparr>ci_trimCounter := 499,
      ci_items := map (\<lambda>i. RuntimeItemRestartButton [int i] []) [0..<10001]\<rparr>"]
    by (simp add: * drop_map)
qed

section \<open>The index of activities\<close>

text \<open>
  The array, the index and the store agree: no address occurs twice in the array, addresses in use are
  allocated, every entry of the index is an activity of the array under its own identifier, and every
  activity of the array is found under its identifier.
\<close>

definition indexed :: "console \<Rightarrow> bool" where
  "indexed c \<longleftrightarrow>
     distinct (addresses (ci_items c)) \<and> (\<forall>a \<in> set (addresses (ci_items c)). a < ci_next c) \<and>
     distinct (map fst (ci_activities c)) \<and>
     (\<forall>i a. map_of (ci_activities c) i = Some a \<longleftrightarrow> a \<in> set (addresses (ci_items c)) \<and> ra_id (ci_store c a) = i)"

lemma indexed_empty: "indexed (fields_of_console sid)"
  by (simp add: indexed_def fields_of_console_def)

lemma map_of_fold_delete:
  "map_of (fold AList.delete ks al) k = (if k \<in> set ks then None else map_of al k)"
  by (induction ks arbitrary: al) (auto simp: delete_conv' AList.delete_conv)

lemma distinct_fold_delete:
  "distinct (map fst al) \<Longrightarrow> distinct (map fst (fold AList.delete ks al))"
  by (induction ks arbitrary: al) (simp_all add: distinct_delete)

text \<open>What leaves the array of addresses, the identifiers and the index alone keeps the invariant.\<close>

lemma indexed_frame:
  assumes "indexed c" and "addresses (ci_items d) = addresses (ci_items c)"
    and "ci_activities d = ci_activities c" and "ci_next c \<le> ci_next d"
    and "\<And>a. a < ci_next c \<Longrightarrow> ra_id (ci_store d a) = ra_id (ci_store c a)"
  shows "indexed d"
  using assms unfolding indexed_def by (metis order_less_le_trans)

lemma indexed_store:
  "indexed c \<Longrightarrow> ra_id ra = ra_id (ci_store c a) \<Longrightarrow> indexed (c\<lparr>ci_store := (ci_store c)(a := ra)\<rparr>)"
  by (erule indexed_frame) simp_all

lemma indexed_emit [simp]: "indexed (announce e c) = indexed c"
  by (simp add: indexed_def announce_def)

lemma indexed_same_id:
  "indexed c \<Longrightarrow> a \<in> set (addresses (ci_items c)) \<Longrightarrow> b \<in> set (addresses (ci_items c)) \<Longrightarrow>
   ra_id (ci_store c a) = ra_id (ci_store c b) \<Longrightarrow> a = b"
  unfolding indexed_def by (metis option.inject)

lemma indexed_drop:
  assumes "indexed c" and "\<And>a. ra_id (h a) = ra_id (ci_store c a)"
  shows "indexed (c\<lparr>ci_trimCounter := n, ci_store := h, ci_items := drop k (ci_items c),
    ci_activities := fold AList.delete (map (\<lambda>a. ra_id (h a)) (addresses (take k (ci_items c)))) (ci_activities c)\<rparr>)"
proof -
  let ?old = "addresses (take k (ci_items c))" and ?new = "addresses (drop k (ci_items c))"
  have split: "addresses (ci_items c) = ?old @ ?new"
    by (metis addresses_simps(3) append_take_drop_id)
  have "distinct (?old @ ?new)"
    using assms(1) by (simp add: indexed_def flip: split)
  moreover have "map_of (ci_activities c) i = Some a \<longleftrightarrow> a \<in> set (?old @ ?new) \<and> ra_id (ci_store c a) = i" for i a
    using assms(1) by (simp add: indexed_def flip: split)
  moreover have "ra_id (ci_store c b) \<notin> (\<lambda>a. ra_id (ci_store c a)) ` set ?old" if "b \<in> set ?new" for b
    using indexed_same_id [OF assms(1), of b] that \<open>distinct (?old @ ?new)\<close> by (auto simp: split)
  moreover have "\<forall>a \<in> set (?old @ ?new). a < ci_next c" "distinct (map fst (ci_activities c))"
    using assms(1) by (simp_all add: indexed_def flip: split)
  ultimately show ?thesis
    unfolding indexed_def by (auto simp: map_of_fold_delete distinct_fold_delete assms(2))
qed

lemma indexed_trimItems: "indexed c \<Longrightarrow> indexed (trimItems c)"
proof (cases "ci_trimCounter c + 1 < TRIM_THRESHOLD")
  case True
  assume "indexed c"
  with True show ?thesis
    by (simp add: trimItems_def indexed_def)
next
  case False
  assume c: "indexed c"
  obtain h k where t: "trim_loop (ci_store c) 10000 (rev (ci_items c)) = (h, k)"
    by fastforce
  then have ids: "ra_id (h a) = ra_id (ci_store c a)" for a
    using trim_loop_ids [of "ci_store c" 10000 "rev (ci_items c)" a] by simp
  have "indexed (c\<lparr>ci_trimCounter := 0, ci_store := h\<rparr>)"
    by (rule indexed_frame [OF c]) (simp_all add: ids)
  then show ?thesis
    using False indexed_drop [OF c, of h] ids by (simp add: trimItems_def t Let_def)
qed

lemma addActivityItem_id: "addActivityItem item ra = Inr ra' \<Longrightarrow> ra_id ra' = ra_id ra"
  by (auto simp: addActivityItem_def push_item_def bind_result_Inr_iff Let_def
      split: if_splits activity_item.splits option.splits prod.splits)

lemma new_RuntimeItemActivity_id: "new_RuntimeItemActivity i item = Inr ra \<Longrightarrow> ra_id ra = i"
  by (auto simp: new_RuntimeItemActivity_def dest: addActivityItem_id)

lemma indexed_push_plain:
  "indexed c \<Longrightarrow> item_activity item = None \<Longrightarrow> indexed (push_runtime_item item c)"
  by (erule indexed_frame) (simp_all add: push_runtime_item_def)

lemma indexed_push_new:
  assumes "indexed c" and "map_of (ci_activities c) i = None" and "ra_id ra = i"
  shows "indexed (push_runtime_item (RuntimeItemActivity (ci_next c)) (index_activity i (ci_next c) (alloc_activity ra c)))"
proof -
  have "ra_id (ci_store c a) \<noteq> i" "a \<noteq> ci_next c" if "a \<in> set (addresses (ci_items c))" for a
    using assms(1,2) that unfolding indexed_def by (metis option.distinct(1), blast)
  with assms show ?thesis
    unfolding indexed_def
    by (auto simp: push_runtime_item_def index_activity_def alloc_activity_def update_conv' distinct_update)
qed

lemma index_activity_again [simp]: "index_activity i a (index_activity i a c) = index_activity i a c"
proof -
  have "AList.update i a (AList.update i a al) = AList.update i a al" for al :: "(jsstring \<times> nat) list"
    by (induction al) auto
  then show ?thesis
    by (simp add: index_activity_def)
qed

lemma indexed_addRuntimeItem_plain:
  "indexed c \<Longrightarrow> item_activity item = None \<Longrightarrow> indexed (addRuntimeItem item c)"
  by (simp add: addRuntimeItem_def indexed_trimItems indexed_push_plain)

lemma push_index_commute: "push_runtime_item item (index_activity i a c) = index_activity i a (push_runtime_item item c)"
  by (simp add: push_runtime_item_def index_activity_def)

lemma indexed_addOrUpdate:
  assumes "indexed c" and "addOrUpdateUpdateRuntimeItemActivity i item c = Inr d"
  shows "indexed d"
proof (cases "map_of (ci_activities c) i")
  case None
  with assms(2) obtain ra where ra: "ra_id ra = i"
    "d = addRuntimeItem (RuntimeItemActivity (ci_next c)) (index_activity i (ci_next c) (alloc_activity ra c))"
    by (auto simp: addOrUpdateUpdateRuntimeItemActivity_def bind_result_Inr_iff Let_def
        dest: new_RuntimeItemActivity_id)
  then have "d = announce ItemsChanged (trimItems
      (push_runtime_item (RuntimeItemActivity (ci_next c)) (index_activity i (ci_next c) (alloc_activity ra c))))"
    by (simp add: addRuntimeItem_def push_index_commute) (simp add: push_runtime_item_def index_activity_def alloc_activity_def)
  with indexed_push_new [OF assms(1) None ra(1)] show ?thesis
    by (simp add: indexed_trimItems)
next
  case (Some a)
  with assms show ?thesis
    by (auto simp: addOrUpdateUpdateRuntimeItemActivity_def bind_result_Inr_iff
        intro!: indexed_trimItems indexed_store dest: addActivityItem_id)
qed

lemma indexed_clearConsole: "indexed c \<Longrightarrow> indexed (clearConsole c)"
  by (cases "ci_promptActive c") (simp_all add: clearConsole_def, simp add: indexed_def)

lemma update_items_simps [simp]:
  "ci_items (update_items f a c) = ci_items c" "ci_activities (update_items f a c) = ci_activities c"
  "ci_next (update_items f a c) = ci_next c" "ra_id (ci_store (update_items f a c) b) = ra_id (ci_store c b)"
  by (simp_all add: update_items_def)

lemma indexed_update_items [simp]: "indexed (update_items f a c) = indexed c"
  by (simp add: indexed_def)

lemma indexed_markInputBusyState: "indexed c \<Longrightarrow> indexed (markInputBusyState i busy c)"
  by (simp add: markInputBusyState_def split: option.split)

section \<open>The streams in the activities\<close>

text \<open>
  A stream that is added is new, and every stream in an activity accounts for some text, which is all the
  container needs in order not to throw.
\<close>

definition item_fresh :: "activity_item \<Rightarrow> bool" where
  "item_fresh item \<longleftrightarrow> (\<forall>st. item = ItemStream st \<longrightarrow> (\<exists>t. stream_fresh st t))"

definition item_ok :: "activity_item \<Rightarrow> bool" where
  "item_ok item \<longleftrightarrow> (\<forall>st. item = ItemStream st \<longrightarrow> (\<exists>t. stream_accounts st t))"

lemma item_fresh_ok: "item_fresh item \<Longrightarrow> item_ok item"
  unfolding item_fresh_def item_ok_def using stream_fresh_accounts by blast

lemma item_simps [simp]:
  "item_fresh (ItemInput i)" "item_fresh (ItemPrompt p)" "item_fresh (ItemErrorMessage e)"
  "item_fresh (ItemOutputHtml h)" "item_fresh (ItemOutputMessage m)" "item_fresh (ItemOutputPlot q)"
  "item_fresh (ItemStream (newActivityItemStream k j w d t))"
  by (auto simp: item_fresh_def intro: newActivityItemStream_fresh)

lemma replace_provisional_items:
  "replace_provisional i items = Some items' \<Longrightarrow> x \<in> set items' \<Longrightarrow> x = ItemInput i \<or> x \<in> set items"
  by (induction i items arbitrary: items' rule: replace_provisional.induct) (auto split: if_splits)

lemma addActivityItem_input_or_push:
  assumes "\<And>st. item \<noteq> ItemStream st"
  shows "\<exists>ra'. addActivityItem item ra = Inr ra' \<and> set (ra_items ra') \<subseteq> insert item (set (ra_items ra))"
  using assms
  by (auto simp: addActivityItem_def push_item_def split: activity_item.split option.split
      dest: replace_provisional_items)

lemma addActivityItem_stream:
  assumes "stream_fresh it u" and "\<forall>x \<in> set (ra_items ra). item_ok x"
  shows "\<exists>ra'. addActivityItem (ItemStream it) ra = Inr ra' \<and> (\<forall>x \<in> set (ra_items ra'). item_ok x)"
proof (cases "\<exists>front st. ra_items ra = front @ [ItemStream st] \<and> isSameActivityItemStream st it")
  case True
  then obtain front st where front: "ra_items ra = front @ [ItemStream st]" "isSameActivityItemStream st it"
    by blast
  then obtain t where t: "stream_accounts st t"
    using assms(2) by (auto simp: item_ok_def)
  obtain st' rest where r: "addActivityItemStream st it = Inr (st', rest)" "item_ok (ItemStream st')"
    "\<And>r. rest = Some r \<Longrightarrow> item_ok (ItemStream r)"
    using addActivityItemStream_accounts [OF t assms(1)] front(2) stream_fresh_accounts
    by (fastforce simp: added_def isSame_key item_ok_def)
  show ?thesis
    using front r assms(2) by (cases rest) (auto simp: addActivityItem_def push_item_def Let_def)
next
  case False
  moreover have "item_ok (ItemStream it)"
    using assms(1) stream_fresh_accounts by (auto simp: item_ok_def)
  ultimately show ?thesis
    using assms(2)
    by (cases "ra_items ra" rule: rev_cases) (auto simp: addActivityItem_def push_item_def split: activity_item.split)
qed

lemma addActivityItem_total:
  assumes "item_fresh item" and "\<forall>x \<in> set (ra_items ra). item_ok x"
  shows "\<exists>ra'. addActivityItem item ra = Inr ra' \<and> (\<forall>x \<in> set (ra_items ra'). item_ok x)"
proof (cases "\<exists>st. item = ItemStream st")
  case True
  with assms show ?thesis
    using addActivityItem_stream by (auto simp: item_fresh_def)
next
  case False
  then show ?thesis
    using addActivityItem_input_or_push [of item ra] assms item_fresh_ok by fastforce
qed

definition streams_ok :: "console \<Rightarrow> bool" where
  "streams_ok c \<longleftrightarrow> (\<forall>a. \<forall>x \<in> set (ra_items (ci_store c a)). item_ok x)"

lemma streams_ok_fields [simp]:
  "streams_ok (announce e c) = streams_ok c" "streams_ok (push_runtime_item item c) = streams_ok c"
  "streams_ok (index_activity i a c) = streams_ok c"
  by (simp_all add: streams_ok_def announce_def push_runtime_item_def index_activity_def)

lemma streams_ok_alloc: "streams_ok c \<Longrightarrow> \<forall>x \<in> set (ra_items ra). item_ok x \<Longrightarrow> streams_ok (alloc_activity ra c)"
  by (simp add: streams_ok_def alloc_activity_def)

lemma trim_loop_items: "set (ra_items (fst (trim_loop h r xs) a)) \<subseteq> set (ra_items (h a))"
proof (induction xs arbitrary: h r)
  case (Cons x xs)
  have *: "set (ra_items (trim_activity m b h a)) \<subseteq> set (ra_items (h a))" for m b h
    by (auto simp: trim_activity_def dest: in_set_dropD)
  show ?case
    using Cons.IH subset_trans [OF Cons.IH [of "trim_activity m b h" for m b] *]
    by (cases "0 < r"; cases "item_activity x") (simp_all add: trim_loop_steps)
qed simp

lemma trimItems_store: "set (ra_items (ci_store (trimItems c) a)) \<subseteq> set (ra_items (ci_store c a))"
proof (cases "ci_trimCounter c + 1 < TRIM_THRESHOLD")
  case False
  then show ?thesis
    using trimItems_reached_threshold(2) [of c] trim_loop_items [of "ci_store c" 10000 "rev (ci_items c)" a] by simp
qed (simp add: trimItems_def)

lemma streams_ok_trimItems: "streams_ok c \<Longrightarrow> streams_ok (trimItems c)"
  using trimItems_store unfolding streams_ok_def by blast

lemma streams_ok_addRuntimeItem: "streams_ok c \<Longrightarrow> streams_ok (addRuntimeItem item c)"
  by (simp add: addRuntimeItem_def streams_ok_trimItems Let_def split: option.split)

lemma addOrUpdate_total:
  assumes "streams_ok c" and "item_fresh item"
  shows "\<exists>d. addOrUpdateUpdateRuntimeItemActivity i item c = Inr d \<and> streams_ok d"
proof (cases "map_of (ci_activities c) i")
  case None
  obtain ra where "new_RuntimeItemActivity i item = Inr ra" "\<forall>x \<in> set (ra_items ra). item_ok x"
    using addActivityItem_total [OF assms(2), of "\<lparr>ra_id = i, ra_items = []\<rparr>"] by (auto simp: new_RuntimeItemActivity_def)
  with None assms(1) show ?thesis
    by (auto simp: addOrUpdateUpdateRuntimeItemActivity_def Let_def intro!: streams_ok_addRuntimeItem streams_ok_alloc)
next
  case (Some a)
  obtain ra where ra: "addActivityItem item (ci_store c a) = Inr ra" "\<forall>x \<in> set (ra_items ra). item_ok x"
    using addActivityItem_total [OF assms(2)] assms(1) unfolding streams_ok_def by blast
  then have "streams_ok (c\<lparr>ci_store := (ci_store c)(a := ra)\<rparr>)"
    using assms(1) by (simp add: streams_ok_def)
  with Some ra(1) show ?thesis
    by (auto simp: addOrUpdateUpdateRuntimeItemActivity_def intro!: streams_ok_trimItems)
qed

end
