(* ===== verification/Console_Instance.thy ===== *)
theory Console_Instance
  imports Console_Items
begin

text \<open>
  The class \<open>PositronConsoleInstance\<close> of \<open>positronConsoleService.ts\<close>: pending input and its
  asynchronous processing, code that is enqueued and executed, prompts, the console's state, and the
  handlers of the events of the attached session.

  The language runtime session, the configuration, the clock, random identifiers, the locale's messages
  and the code editor are not part of the class: their readings are a parameter, the record
  \<open>console_env\<close>. An asynchronous method is cut at its \<open>await\<close>s: the state records what it waits for, and
  a further operation continues it with the answer. An exception is the left value of the result.
\<close>

section \<open>What the instance reads\<close>

record local_time =
  lt_hours :: nat
  lt_minutes :: nat
  lt_seconds :: nat
  lt_milliseconds :: nat

record console_env =
  en_uuid :: "nat \<Rightarrow> jsstring"
  en_now :: "nat \<Rightarrow> int"
  en_local :: "int \<Rightarrow> local_time"
  en_sessionName :: jsstring
  en_languageName :: jsstring
  en_inputPrompt :: jsstring
  en_continuationPrompt :: jsstring
  en_runtimeState :: runtime_state
  en_restartOnCrash :: bool
  en_codeEditor :: "jsstring option"
  en_lookup :: "jsstring \<Rightarrow> jsstring \<Rightarrow> jsstring"
  en_pseudo :: bool

definition generateUuid :: "console_env \<Rightarrow> console \<Rightarrow> jsstring \<times> console" where
  "generateUuid env c = (en_uuid env (ci_ticks c), c\<lparr>ci_ticks := Suc (ci_ticks c)\<rparr>)"

definition fragment_id :: "jsstring \<Rightarrow> jsstring" where
  "fragment_id uuid = js ''fragment-'' @ uuid"

section \<open>Texts\<close>

text \<open>
  \<open>nls.ts\<close>: a placeholder is an opening brace, digits and a closing brace; only the first digit selects
  the argument, and an argument that is missing is shown as \<open>undefined\<close>. Arguments are given as the
  strings they are shown as.
\<close>

definition placeholder :: "jsstring \<Rightarrow> (jschar \<times> jsstring) option" where
  "placeholder s =
     (case s of
        c # ds \<Rightarrow>
          if c = ch CHR ''{'' \<and> takeWhile is_digit ds \<noteq> []
          then (case dropWhile is_digit ds of
                  e # rest \<Rightarrow> if e = ch CHR ''}'' then Some (hd ds, rest) else None
                | [] \<Rightarrow> None)
          else None
      | [] \<Rightarrow> None)"

lemma placeholder_shorter:
  assumes "placeholder s = Some (d, rest)"
  shows "length rest < length s"
proof -
  from assms obtain c ds e where "s = c # ds" "dropWhile is_digit ds = e # rest"
    by (auto simp: placeholder_def split: list.splits if_splits)
  then show ?thesis
    using length_dropWhile_le [of is_digit ds] by simp
qed

function replace_placeholders :: "jsstring list \<Rightarrow> jsstring \<Rightarrow> jsstring" where
  "replace_placeholders args s =
     (case placeholder s of
        Some (d, rest) \<Rightarrow>
          template (js_get args (d - 48)) @ replace_placeholders args rest
      | None \<Rightarrow> (case s of [] \<Rightarrow> [] | c # cs \<Rightarrow> c # replace_placeholders args cs))"
  by pat_completeness auto
termination
  by (relation "measure (length \<circ> snd)") (auto dest: placeholder_shorter)

declare replace_placeholders.simps [simp del]

definition pseudo_localize :: "jsstring \<Rightarrow> jsstring" where
  "pseudo_localize s =
     [65339] @ concat (map (\<lambda>c. if c \<in> set (js ''aouei'') then [c, c] else [c]) s) @ [65341]"

definition nls_format :: "bool \<Rightarrow> jsstring \<Rightarrow> jsstring list \<Rightarrow> jsstring" where
  "nls_format isPseudo message args =
     (let result = (if args = [] then message else replace_placeholders args message)
      in if isPseudo then pseudo_localize result else result)"

definition localize :: "console_env \<Rightarrow> jsstring \<Rightarrow> jsstring \<Rightarrow> jsstring list \<Rightarrow> jsstring" where
  "localize env key message args = nls_format (en_pseudo env) (en_lookup env key message) args"

text \<open>The time of a message in a trace.\<close>

definition toTwoDigits :: "nat \<Rightarrow> jsstring" where
  "toTwoDigits v = (if v < 10 then js ''0'' @ nat_string v else nat_string v)"

definition toFourDigits :: "nat \<Rightarrow> jsstring" where
  "toFourDigits v =
     (if v < 10 then js ''000'' @ nat_string v else if v < 1000 then js ''0'' @ nat_string v else nat_string v)"

definition formatTimestamp :: "local_time \<Rightarrow> jsstring" where
  "formatTimestamp t =
     toTwoDigits (lt_hours t) @ js '':'' @ toTwoDigits (lt_minutes t) @ js '':'' @ toTwoDigits (lt_seconds t) @
     js ''.'' @ toFourDigits (lt_milliseconds t)"

record runtime_message =
  lm_id :: jsstring
  lm_parent_id :: jsstring
  lm_when :: int

definition formatCallbackTrace :: "console_env \<Rightarrow> string \<Rightarrow> runtime_message \<Rightarrow> jsstring" where
  "formatCallbackTrace env callback msg =
     js callback @ js '' (ID: '' @ lm_id msg @ js '' Parent ID: '' @ lm_parent_id msg @ js '' When: '' @
     formatTimestamp (en_local env (lm_when msg)) @ js '')''"

definition formatOutputData :: "mime_data \<Rightarrow> jsstring" where
  "formatOutputData data =
     (LF # js ''Output:'') @
     (case map_of data (js ''text/plain'') of
        None \<Rightarrow> js '' None''
      | Some t \<Rightarrow> if t = [] then js '' None'' else LF # t)"

definition formatOutputStream :: "jsstring \<Rightarrow> jsstring \<Rightarrow> jsstring" where
  "formatOutputStream stream text = (LF # js ''Stream '') @ stream @ js '': '' @ [34] @ text @ [34]"

definition formatTraceback :: "jsstring list \<Rightarrow> jsstring" where
  "formatTraceback traceback =
     (LF # js ''Traceback:'') @
     (if traceback = [] then js '' None''
      else concat (map (\<lambda>(i, t). (LF # js ''['') @ nat_string (i + 1) @ js '']: '' @ t) (zip [0..<length traceback] traceback)))"

fun console_state_name :: "console_state \<Rightarrow> jsstring" where
  "console_state_name CSUninitialized = js ''Uninitialized''"
| "console_state_name CSStarting = js ''Starting''"
| "console_state_name CSBusy = js ''Busy''"
| "console_state_name CSReady = js ''Ready''"
| "console_state_name CSOffline = js ''Offline''"
| "console_state_name CSExiting = js ''Exiting''"
| "console_state_name CSExited = js ''Exited''"

fun attach_mode_name :: "attach_mode \<Rightarrow> jsstring" where
  "attach_mode_name AttachStarting = js ''starting''"
| "attach_mode_name AttachRestarting = js ''restarting''"
| "attach_mode_name AttachSwitching = js ''switching''"
| "attach_mode_name AttachReconnecting = js ''reconnecting''"
| "attach_mode_name AttachConnected = js ''connected''"

fun runtime_state_name :: "runtime_state \<Rightarrow> jsstring" where
  "runtime_state_name RSUninitialized = js ''uninitialized''"
| "runtime_state_name RSInitializing = js ''initializing''"
| "runtime_state_name RSStarting = js ''starting''"
| "runtime_state_name RSReady = js ''ready''"
| "runtime_state_name RSIdle = js ''idle''"
| "runtime_state_name RSBusy = js ''busy''"
| "runtime_state_name RSRestarting = js ''restarting''"
| "runtime_state_name RSExiting = js ''exiting''"
| "runtime_state_name RSExited = js ''exited''"
| "runtime_state_name RSOffline = js ''offline''"
| "runtime_state_name RSInterrupting = js ''interrupting''"

fun exit_reason_name :: "exit_reason \<Rightarrow> jsstring" where
  "exit_reason_name StartupFailed = js ''startupFailed''"
| "exit_reason_name Shutdown = js ''shutdown''"
| "exit_reason_name ForcedQuit = js ''forcedQuit''"
| "exit_reason_name Restart = js ''restart''"
| "exit_reason_name SwitchRuntime = js ''switchRuntime''"
| "exit_reason_name ExitError = js ''error''"
| "exit_reason_name ExtensionHost = js ''extensionHost''"
| "exit_reason_name ExitUnknown = js ''unknown''"

section \<open>Adding items\<close>

definition addRuntimeItemTrace :: "console_env \<Rightarrow> jsstring \<Rightarrow> console \<Rightarrow> console result" where
  "addRuntimeItemTrace env trace c =
     (case generateUuid env c of (id0, c) \<Rightarrow>
        bind_result (new_RuntimeItemTrace id0 (en_now env (ci_ticks c)) trace) (\<lambda>item. Inr (addRuntimeItem item c)))"

text \<open>The guard around most traces.\<close>

definition trace_if_enabled :: "console_env \<Rightarrow> jsstring \<Rightarrow> console \<Rightarrow> console result" where
  "trace_if_enabled env trace c = (if ci_trace c then addRuntimeItemTrace env trace c else Inr c)"

definition add_new_item :: "console_env \<Rightarrow> (jsstring \<Rightarrow> runtime_item result) \<Rightarrow> console \<Rightarrow> console result" where
  "add_new_item env mk c =
     (case generateUuid env c of (id0, c) \<Rightarrow> bind_result (mk id0) (\<lambda>item. Inr (addRuntimeItem item c)))"

section \<open>Pending input\<close>

definition remove_pending :: "pending_input \<Rightarrow> runtime_item list \<Rightarrow> runtime_item list" where
  "remove_pending p items =
     (let index = index_of items (RuntimeItemPendingInput p)
      in if index > -1 then js_splice items index 1 [] else items)"

definition setPendingCode :: "jsstring option \<Rightarrow> console \<Rightarrow> console" where
  "setPendingCode pendingCode c = announce (PendingCode pendingCode) c"

definition addPendingInput :: "console_env \<Rightarrow> jsstring \<Rightarrow> console \<Rightarrow> console result" where
  "addPendingInput env code c =
     (let (code, c) = (case ci_pending c of
            Some p \<Rightarrow> (pi_code p @ [LF] @ code, c\<lparr>ci_items := remove_pending p (ci_items c)\<rparr>)
          | None \<Rightarrow> (code, c));
          (id0, c) = generateUuid env c
      in bind_result (new_RuntimeItemPendingInput id0 (en_inputPrompt env) code) (\<lambda>p.
           Inr (addRuntimeItem (RuntimeItemPendingInput p) (c\<lparr>ci_pending := Some p\<rparr>))))"

definition clearPendingInput :: "console \<Rightarrow> console" where
  "clearPendingInput c =
     (case ci_pending c of
        None \<Rightarrow> c
      | Some p \<Rightarrow>
          let c = c\<lparr>ci_items := remove_pending p (ci_items c), ci_pending := None\<rparr>
          in if ci_pendingState c = PendingProcessing then c\<lparr>ci_pendingState := PendingInterrupted\<rparr> else c)"

definition is_restart_button :: "runtime_item \<Rightarrow> bool" where
  "is_restart_button item = (case item of RuntimeItemRestartButton _ _ \<Rightarrow> True | _ \<Rightarrow> False)"

definition clearRestartItems :: "console \<Rightarrow> console" where
  "clearRestartItems c =
     (let itemCount = length (ci_items c);
          c = c\<lparr>ci_items := filter (\<lambda>item. \<not> is_restart_button item) (ci_items c)\<rparr>
      in if length (ci_items c) \<noteq> itemCount then announce ItemsChanged c else c)"

text \<open>
  \<open>processPendingInput\<close> up to its first \<open>await\<close>: either the status of the first line is awaited, or there
  is nothing to process and only the \<open>finally\<close> block is left.
\<close>

definition processPendingInput :: "console \<Rightarrow> console" where
  "processPendingInput c =
     (if ci_pendingState c \<noteq> PendingIdle then c
      else let c = c\<lparr>ci_pendingState := PendingProcessing\<rparr>
        in case ci_pending c of
             None \<Rightarrow> c\<lparr>ci_processing := Finishing\<rparr>
           | Some p \<Rightarrow> c\<lparr>ci_processing := AwaitingStatus [hd (js_split LF (pi_code p))]\<rparr>)"

definition finishProcessing :: "console \<Rightarrow> console" where
  "finishProcessing c = c\<lparr>ci_pendingState := PendingIdle, ci_processing := NotProcessing\<rparr>"

text \<open>No complete fragment: everything that is pending goes to the code editor.\<close>

definition hand_back :: "pending_input \<Rightarrow> console \<Rightarrow> console" where
  "hand_back p c =
     (setPendingCode (Some (pi_code p)) (announce ItemsChanged c))\<lparr>ci_pending := None, ci_processing := Finishing\<rparr>"

text \<open>A complete fragment: it is shown as a provisional input and executed, and the rest stays pending.\<close>

definition execute_pending ::
    "console_env \<Rightarrow> jsstring list \<Rightarrow> jsstring list \<Rightarrow> console \<Rightarrow> console result" where
  "execute_pending env codeLines pendingInputLines c =
     (let code = js_join [LF] codeLines;
          (uuid, c) = generateUuid env c;
          id0 = fragment_id uuid
      in bind_result (new_ActivityItemInput Provisional id0 id0 (en_now env (ci_ticks c)) (en_inputPrompt env)
           (en_continuationPrompt env) code) (\<lambda>input.
         bind_result (new_RuntimeItemActivity id0 (ItemInput input)) (\<lambda>ra.
         let a = ci_next c;
             c = index_activity id0 a (push_runtime_item (RuntimeItemActivity a) (alloc_activity ra c));
             nCodeLines = length codeLines;
             nPendingLines = length pendingInputLines
         in bind_result
              (if nCodeLines < nPendingLines
               then (case generateUuid env c of (id1, c) \<Rightarrow>
                 bind_result (new_RuntimeItemPendingInput id1 (en_inputPrompt env)
                   (js_join [LF] (drop nCodeLines pendingInputLines))) (\<lambda>p.
                   Inr (push_runtime_item (RuntimeItemPendingInput p) (c\<lparr>ci_pending := Some p\<rparr>))))
               else if nCodeLines = nPendingLines then Inr (c\<lparr>ci_pending := None\<rparr>)
               else Inl Error) (\<lambda>c.
            Inr ((announce (CodeExecuted code Interactive Continue)
              (announce (SessionExecute code id0 Interactive Continue) (announce ItemsChanged c)))\<lparr>ci_processing := Finishing\<rparr>)))))"

text \<open>The answer of \<open>isCodeFragmentComplete\<close>; \<open>None\<close> is a promise that is rejected.\<close>

datatype fragment_status = Complete | Incomplete | Invalid | FragmentUnknown

definition resumeProcessing :: "console_env \<Rightarrow> fragment_status option \<Rightarrow> console \<Rightarrow> console result" where
  "resumeProcessing env status c =
     (case ci_processing c of
        AwaitingStatus codeLines \<Rightarrow>
          if status = None \<or> ci_pendingState c = PendingInterrupted then Inr (c\<lparr>ci_processing := Finishing\<rparr>)
          else (case ci_pending c of
              None \<Rightarrow> Inl TypeError
            | Some p \<Rightarrow>
                let pendingInputLines = js_split LF (pi_code p);
                    removed = c\<lparr>ci_items := remove_pending p (ci_items c)\<rparr>
                in if status = Some Complete then execute_pending env codeLines pendingInputLines removed
                   else if length codeLines < length pendingInputLines
                   then Inr (c\<lparr>ci_processing := AwaitingStatus (codeLines @ [pendingInputLines ! length codeLines])\<rparr>)
                   else Inr (hand_back p removed))
      | _ \<Rightarrow> Inr c)"

section \<open>Executing and enqueueing code\<close>

definition doExecuteCode ::
    "console_env \<Rightarrow> jsstring \<Rightarrow> execution_mode option \<Rightarrow> error_behavior option \<Rightarrow> console \<Rightarrow> console result" where
  "doExecuteCode env code mode0 errorBehavior0 c =
     (let mode = (case mode0 of None \<Rightarrow> Interactive | Some m \<Rightarrow> m);
          errorBehavior = (case errorBehavior0 of None \<Rightarrow> Continue | Some b \<Rightarrow> b);
          (uuid, c) = generateUuid env c;
          id0 = fragment_id uuid
      in bind_result
           (if mode \<noteq> Silent
            then bind_result (new_ActivityItemInput Provisional id0 id0 (en_now env (ci_ticks c)) (en_inputPrompt env)
              (en_continuationPrompt env) code) (\<lambda>input. addOrUpdateUpdateRuntimeItemActivity id0 (ItemInput input) c)
            else Inr c) (\<lambda>c.
         Inr (announce (CodeExecuted code mode errorBehavior) (announce (SessionExecute code id0 mode errorBehavior) c))))"

definition executeCode ::
    "console_env \<Rightarrow> jsstring \<Rightarrow> execution_mode option \<Rightarrow> error_behavior option \<Rightarrow> console \<Rightarrow> console result" where
  "executeCode env code mode errorBehavior c = doExecuteCode env code mode errorBehavior (setPendingCode None c)"

definition enqueueCode ::
    "console_env \<Rightarrow> jsstring \<Rightarrow> bool \<Rightarrow> execution_mode option \<Rightarrow> error_behavior option \<Rightarrow> console \<Rightarrow> console result" where
  "enqueueCode env code allowIncomplete mode errorBehavior c =
     (if ci_pending c \<noteq> None then addPendingInput env code c
      else if \<not> (en_runtimeState env = RSIdle \<or> en_runtimeState env = RSReady) then addPendingInput env code c
      else let task = (\<lambda>code withPending.
                \<lparr>eq_code = code, eq_withPending = withPending, eq_allowIncomplete = allowIncomplete,
                 eq_mode = mode, eq_errorBehavior = errorBehavior\<rparr>)
        in Inr (c\<lparr>ci_enqueues := ci_enqueues c @
             [case en_codeEditor env of
                Some pendingCode \<Rightarrow>
                  if pendingCode \<noteq> [] then task (pendingCode @ [LF] @ code) True else task code False
              | None \<Rightarrow> task code False]\<rparr>))"

definition resumeEnqueue :: "console_env \<Rightarrow> nat \<Rightarrow> fragment_status option \<Rightarrow> console \<Rightarrow> console result" where
  "resumeEnqueue env k status c =
     (if k < length (ci_enqueues c)
      then let task = ci_enqueues c ! k;
               c = c\<lparr>ci_enqueues := take k (ci_enqueues c) @ drop (Suc k) (ci_enqueues c)\<rparr>;
               code = eq_code task
        in if eq_allowIncomplete task \<or> status = Some Complete
           then doExecuteCode env code (eq_mode task) (eq_errorBehavior task)
             (if eq_withPending task then setPendingCode None c else c)
           else if status = None then Inr c
           else Inr (setPendingCode (Some code) c)
      else Inr c)"

definition interrupt :: "console_env \<Rightarrow> jsstring \<Rightarrow> console \<Rightarrow> console result" where
  "interrupt env code c =
     (let c = setPendingCode None (clearPendingInput (announce SessionInterrupt c))
      in if en_runtimeState env = RSReady \<or> en_runtimeState env = RSIdle
         then (case generateUuid env c of (id0, c) \<Rightarrow>
           bind_result (new_ActivityItemInput Cancelled id0 id0 (en_now env (ci_ticks c)) (en_inputPrompt env)
             (en_continuationPrompt env) code) (\<lambda>input. addOrUpdateUpdateRuntimeItemActivity id0 (ItemInput input) c))
         else Inr c)"

section \<open>Prompts\<close>

text \<open>
  A prompt is given by reference. The reference is described by where the object is: the address of its
  activity and its place there; an object that has been trimmed away has no place.
\<close>

definition update_prompt :: "(activity_prompt \<Rightarrow> activity_prompt) \<Rightarrow> (nat \<times> nat) option \<Rightarrow> console \<Rightarrow> console" where
  "update_prompt f loc c =
     (case loc of
        None \<Rightarrow> c
      | Some (a, k) \<Rightarrow>
          update_items (\<lambda>items. if k < length items
            then (case items ! k of ItemPrompt p \<Rightarrow> items[k := ItemPrompt (f p)] | _ \<Rightarrow> items) else items) a c)"

definition replyToPrompt :: "activity_prompt \<Rightarrow> (nat \<times> nat) option \<Rightarrow> jsstring \<Rightarrow> console \<Rightarrow> console" where
  "replyToPrompt prompt loc value c =
     (let c = announce ItemsChanged (update_prompt (\<lambda>p. p\<lparr>pr_state := Answered,
            pr_answer := Some (if \<not> pr_password p then value else [])\<rparr>) loc c)
      in if ci_promptActive c then announce (SessionReply (pr_id prompt) value) (c\<lparr>ci_promptActive := False\<rparr>) else c)"

definition interruptPrompt :: "(nat \<times> nat) option \<Rightarrow> console \<Rightarrow> console" where
  "interruptPrompt loc c =
     (let c = announce ItemsChanged (update_prompt (\<lambda>p. p\<lparr>pr_state := Interrupted\<rparr>) loc c)
      in if ci_promptActive c then announce SessionInterrupt (c\<lparr>ci_promptActive := False\<rparr>) else c)"

section \<open>The console's state\<close>

definition started_message :: "console_env \<Rightarrow> attach_mode \<Rightarrow> jsstring" where
  "started_message env mode =
     (let name = [en_sessionName env] in case mode of
        AttachStarting \<Rightarrow> localize env (js ''positronConsole.started'') (js ''{0} started.'') name
      | AttachSwitching \<Rightarrow> localize env (js ''positronConsole.started'') (js ''{0} started.'') name
      | AttachRestarting \<Rightarrow> localize env (js ''positronConsole.restarted'') (js ''{0} restarted.'') name
      | AttachReconnecting \<Rightarrow> localize env (js ''positronConsole.reconnected'') (js ''{0} reconnected.'') name
      | AttachConnected \<Rightarrow> localize env (js ''positronConsole.connected'') (js ''{0} connected.'') name)"

text \<open>The loop over the items from the last one on: every starting item becomes a started one.\<close>

fun started_loop :: "console_env \<Rightarrow> nat \<Rightarrow> console \<Rightarrow> console result" where
  "started_loop env 0 c = Inr c"
| "started_loop env (Suc i) c =
     (if i < length (ci_items c)
      then (case ci_items c ! i of
          RuntimeItemStarting _ _ mode \<Rightarrow>
            (case generateUuid env c of (id0, c) \<Rightarrow>
               bind_result (new_RuntimeItemStarted id0 (started_message env mode)) (\<lambda>item.
                 started_loop env i (announce ItemsChanged (c\<lparr>ci_items := (ci_items c)[i := item]\<rparr>))))
        | _ \<Rightarrow> started_loop env i c)
      else started_loop env i c)"

definition setState :: "console_env \<Rightarrow> console_state \<Rightarrow> console \<Rightarrow> console result" where
  "setState env state c0 =
     bind_result (if ci_trace c0 \<and> ci_state c0 \<noteq> state
       then addRuntimeItemTrace env (js ''Console state change: '' @ console_state_name (ci_state c0) @
              js '' => '' @ console_state_name state) c0
       else Inr c0) (\<lambda>c.
     bind_result (case state of
         CSReady \<Rightarrow>
           (case ci_state c of
              CSStarting \<Rightarrow> started_loop env (length (ci_items c)) c
            | CSOffline \<Rightarrow> add_new_item env (\<lambda>i. new_RuntimeItemReconnected i
                (en_sessionName env @ js '' reconnected.'')) c
            | _ \<Rightarrow> Inr c)
       | CSOffline \<Rightarrow> add_new_item env (\<lambda>i. new_RuntimeItemOffline i
           (en_sessionName env @ js '' offline. Waiting to reconnect.'')) c
       | _ \<Rightarrow> Inr c) (\<lambda>c.
     Inr (announce (StateChanged state) (c\<lparr>ci_state := state\<rparr>))))"

definition emitStartRuntimeItems :: "console_env \<Rightarrow> attach_mode \<Rightarrow> console \<Rightarrow> console result" where
  "emitStartRuntimeItems env attachMode c =
     (let starting = (\<lambda>key text mode.
            bind_result (setState env CSStarting c) (add_new_item env (\<lambda>i.
              new_RuntimeItemStarting i (localize env key text [en_sessionName env]) mode)))
      in if attachMode = AttachRestarting \<or> (attachMode = AttachStarting \<and> ci_state c = CSExited)
         then starting (js ''positronConsole.starting.restart'') (js ''{0} restarting.'') AttachRestarting
         else if attachMode = AttachStarting \<or> attachMode = AttachSwitching
         then starting (js ''positronConsole.starting.start'') (js ''{0} starting.'') attachMode
         else if attachMode = AttachReconnecting
         then starting (js ''positronConsole.starting.reconnect'') (js ''{0} reconnecting.'') attachMode
         else if attachMode = AttachConnected
         then bind_result (setState env CSReady c) (add_new_item env (\<lambda>i.
           new_RuntimeItemReconnected i (localize env (js ''positronConsole.starting.reconnected'')
             (js ''{0} reconnected.'') [en_sessionName env])))
         else Inr c)"

definition attachRuntime :: "console_env \<Rightarrow> attach_mode \<Rightarrow> console \<Rightarrow> console result" where
  "attachRuntime env attachMode c =
     bind_result (trace_if_enabled env (js ''Attach session '' @ en_sessionName env @ js '' '' @
       js ''(attach mode = '' @ attach_mode_name attachMode @ js '')'') (c\<lparr>ci_runtimeAttached := True\<rparr>)) (\<lambda>c.
     bind_result (emitStartRuntimeItems env attachMode c) (\<lambda>c.
     Inr (announce (RuntimeAttached True) (c\<lparr>ci_handlers := ci_handlers c @ [(ci_session c, attachMode)]\<rparr>))))"

text \<open>The constructor.\<close>

definition new_PositronConsoleInstance :: "console_env \<Rightarrow> jsstring \<Rightarrow> attach_mode \<Rightarrow> console result" where
  "new_PositronConsoleInstance env sid attachMode = attachRuntime env attachMode (fields_of_console sid)"

fun complete_input :: "activity_item \<Rightarrow> activity_item" where
  "complete_input (ItemInput i) = ItemInput (fst (set_input_state Completed i))"
| "complete_input item = item"

definition detachRuntime :: "console_env \<Rightarrow> console \<Rightarrow> console result" where
  "detachRuntime env c =
     bind_result (trace_if_enabled env (js ''Detach session '' @ en_sessionName env) c) (\<lambda>c.
     Inr (if ci_runtimeAttached c
          then (let c = announce (RuntimeAttached False) (c\<lparr>ci_runtimeAttached := False\<rparr>);
                    c = fold (update_items (map complete_input)) (map snd (ci_activities c)) c
                in c\<lparr>ci_handlers := []\<rparr>)
          else announce Warned c))"

definition setRuntimeSession :: "console_env \<Rightarrow> jsstring \<Rightarrow> attach_mode \<Rightarrow> console \<Rightarrow> console result" where
  "setRuntimeSession env sid attachMode c =
     (if ci_session c = sid
      then (if ci_runtimeAttached c
            then (if ci_state c = CSExited then emitStartRuntimeItems env attachMode c else Inr c)
            else attachRuntime env attachMode (c\<lparr>ci_session := sid\<rparr>))
      else attachRuntime env attachMode (c\<lparr>ci_session := sid\<rparr>))"

definition toggleTrace :: "console_env \<Rightarrow> console \<Rightarrow> console result" where
  "toggleTrace env c =
     (let c = c\<lparr>ci_trace := \<not> ci_trace c\<rparr>
      in bind_result (trace_if_enabled env (js ''Trace enabled'') c) (\<lambda>c. Inr (announce (TraceChanged (ci_trace c)) c)))"

definition toggleWordWrap :: "console \<Rightarrow> console" where
  "toggleWordWrap c = (let c = c\<lparr>ci_wordWrap := \<not> ci_wordWrap c\<rparr> in announce (WordWrapChanged (ci_wordWrap c)) c)"

definition focusInput :: "console \<Rightarrow> console" where
  "focusInput c = announce InputFocused c"

definition pasteText :: "jsstring \<Rightarrow> console \<Rightarrow> console" where
  "pasteText text c = announce (TextPasted text) (focusInput c)"

definition selectAll :: "console \<Rightarrow> console" where
  "selectAll c = announce AllSelected c"

definition clearInputHistory :: "console \<Rightarrow> console" where
  "clearInputHistory c = announce InputHistoryCleared c"

section \<open>The end of a session\<close>

record runtime_exit =
  ex_runtime_name :: jsstring
  ex_exit_code :: int
  ex_reason :: exit_reason
  ex_message :: jsstring

definition formatSignal :: "int \<Rightarrow> jsstring" where
  "formatSignal signal =
     (if signal = 1 then js ''SIGHUP''
      else if signal = 2 then js ''SIGINT''
      else if signal = 3 then js ''SIGQUIT''
      else if signal = 4 then js ''SIGILL''
      else if signal = 5 then js ''SIGTRAP''
      else if signal = 6 then js ''SIGABRT''
      else if signal = 7 then js ''SIGBUS''
      else if signal = 9 then js ''SIGKILL''
      else if signal = 11 then js ''SIGSEGV''
      else if signal = 13 then js ''SIGPIPE''
      else if signal = 15 then js ''SIGTERM''
      else if signal = 19 then js ''SIGSTOP''
      else [])"

definition formatExitCode :: "console_env \<Rightarrow> int \<Rightarrow> jsstring" where
  "formatExitCode env exitCode =
     (if exitCode = 1 then localize env (js ''positronConsole.exitCode.error'') (js ''exit code 1 (error)'') []
      else if exitCode = 126
      then localize env (js ''positronConsole.exitCode.cannotExit'') (js ''exit code 126 (not an executable or no permissions)'') []
      else if exitCode = 127
      then localize env (js ''positronConsole.exitCode.notFound'') (js ''exit code 127 (command not found)'') []
      else if exitCode = 130
      then localize env (js ''positronConsole.exitCode.interrupted'') (js ''exit code 130 (interrupted)'') []
      else if exitCode > 128 \<and> exitCode < 160
      then let signal = exitCode - 128;
               formattedSignal = formatSignal signal;
               formattedSignal = (if length formattedSignal > 0 then js '' ('' @ formattedSignal @ js '')'' else formattedSignal)
           in localize env (js ''positronConsole.exitCode.killed'') (js ''killed with signal {0}{1}'')
                [int_string signal, formattedSignal]
      else localize env (js ''positronConsole.exitCode.genericError'') (js ''exit code {0}'') [int_string exitCode])"

definition formatExit :: "console_env \<Rightarrow> runtime_exit \<Rightarrow> jsstring" where
  "formatExit env exit =
     (let name = ex_runtime_name exit; code = int_string (ex_exit_code exit) in case ex_reason exit of
        ForcedQuit \<Rightarrow> localize env (js ''positronConsole.exit.forcedQuit'') (js ''{0} was forced to quit.'') [name]
      | Restart \<Rightarrow> localize env (js ''positronConsole.exit.restart'') (js ''{0} exited (preparing for restart)'') [name]
      | Shutdown \<Rightarrow> localize env (js ''positronConsole.exit.shutdown'') (js ''{0} shut down successfully.'') [name]
      | SwitchRuntime \<Rightarrow> localize env (js ''positronConsole.exit.shutdown'') (js ''{0} shut down successfully.'') [name]
      | ExitError \<Rightarrow> localize env (js ''positronConsole.exit.error'') (js ''{0} exited unexpectedly: {1}'')
          [name, formatExitCode env (ex_exit_code exit)]
      | StartupFailed \<Rightarrow> localize env (js ''positronConsole.exit.startupFailed'')
          (js ''{0} failed to start up (exit code {1})'') [name, code]
      | ExtensionHost \<Rightarrow> localize env (js ''positronConsole.exit.extensionHost'')
          (js ''{0} was disconnected from the extension host.'') [name]
      | ExitUnknown \<Rightarrow> localize env (js ''positronConsole.exit.unknown'') (js ''{0} exited (exit code {1})'') [name, code])"

definition onDidEndSession :: "console_env \<Rightarrow> runtime_exit \<Rightarrow> console \<Rightarrow> console result" where
  "onDidEndSession env exit c =
     bind_result (trace_if_enabled env (js ''onDidEndSession (code '' @ int_string (ex_exit_code exit) @
       js '', reason '' @ [39] @ exit_reason_name (ex_reason exit) @ [39] @ js '')'') c) (\<lambda>c.
     let message = formatExit env exit;
         message = (if ex_message exit \<noteq> [] then message @ [LF, LF] @ ex_message exit else message)
     in bind_result (add_new_item env (\<lambda>i. new_RuntimeItemExited i (ex_reason exit) message) c) (\<lambda>c.
        let crashedAndNeedRestartButton = (ex_reason exit = ExitError \<and> \<not> en_restartOnCrash env)
        in bind_result
             (if ex_reason exit = ForcedQuit \<or> ex_reason exit = Shutdown \<or> ex_reason exit = ExitUnknown \<or>
                 crashedAndNeedRestartButton
              then add_new_item env (\<lambda>i. Inr (RuntimeItemRestartButton i (en_languageName env))) c
              else Inr c)
             (detachRuntime env)))"

section \<open>The events of the session\<close>

datatype online_state = OnlineStarting | OnlineBusy | OnlineIdle

datatype output_kind = OutputText | StaticImage | InlineHtml | ViewerWidget | PlotWidget | IPyWidget
  | WebviewPreload | OutputUnknown

datatype session_event =
    RuntimeStateChanged runtime_state
  | StartupCompleted jsstring jsstring jsstring
  | StartupFailure jsstring jsstring
  | MessageInput runtime_message jsstring
  | MessagePrompt runtime_message jsstring bool
  | MessageOutput runtime_message output_kind mime_data
  | MessageStream runtime_message jsstring jsstring
  | MessageError runtime_message jsstring jsstring "jsstring list"
  | MessageState runtime_message online_state
  | ClientEvent jsstring
  | SessionEnded runtime_exit

definition onDidChangeRuntimeState :: "console_env \<Rightarrow> runtime_state \<Rightarrow> console \<Rightarrow> console result" where
  "onDidChangeRuntimeState env runtimeState c =
     bind_result (trace_if_enabled env (js ''onDidChangeRuntimeState ('' @ runtime_state_name runtimeState @ js '')'') c) (\<lambda>c.
     let c = (if runtimeState = RSIdle \<or> runtimeState = RSReady then processPendingInput c else c);
         c = (if runtimeState = RSReady then clearRestartItems c else c);
         c = (if (runtimeState = RSExited \<or> runtimeState = RSUninitialized) \<and>
                 (ci_runtimeState c = RSStarting \<or> ci_runtimeState c = RSInitializing)
              then c\<lparr>ci_exitTimers := Suc (ci_exitTimers c)\<rparr> else c)
     in bind_result
          (if ci_state c = CSOffline \<and> (runtimeState = RSBusy \<or> runtimeState = RSIdle) then setState env CSReady c
           else Inr c) (\<lambda>c.
        Inr (c\<lparr>ci_runtimeState := runtimeState\<rparr>)))"

text \<open>The timer that a failed start leaves behind.\<close>

definition onExitTimer :: "console_env \<Rightarrow> console \<Rightarrow> console result" where
  "onExitTimer env c =
     (if ci_exitTimers c = 0 then Inr c
      else let c = c\<lparr>ci_exitTimers := ci_exitTimers c - 1\<rparr>
        in if (ci_runtimeState c = RSExited \<or> ci_runtimeState c = RSUninitialized) \<and> ci_runtimeAttached c
           then bind_result (detachRuntime env c) (add_new_item env (\<lambda>i.
             new_RuntimeItemExited i StartupFailed (en_sessionName env @ js '' failed to start.'')))
           else Inr c)"

definition onDidCompleteStartup ::
    "console_env \<Rightarrow> attach_mode \<Rightarrow> jsstring \<Rightarrow> jsstring \<Rightarrow> jsstring \<Rightarrow> console \<Rightarrow> console result" where
  "onDidCompleteStartup env attachMode banner implementation_version language_version c =
     bind_result (setState env CSReady c) (\<lambda>c.
     bind_result (trace_if_enabled env (js ''onDidCompleteStartup'') c)
       (add_new_item env (\<lambda>i. new_RuntimeItemStartup i (if attachMode = AttachReconnecting then [] else banner)
          implementation_version language_version)))"

definition onDidEncounterStartupFailure :: "console_env \<Rightarrow> jsstring \<Rightarrow> jsstring \<Rightarrow> console \<Rightarrow> console result" where
  "onDidEncounterStartupFailure env message details c =
     bind_result (trace_if_enabled env (js ''onDidEncounterStartupFailure'') c) (\<lambda>c.
     bind_result (add_new_item env (\<lambda>i. new_RuntimeItemStartupFailure i message details) c) (\<lambda>c.
     bind_result
       (if (ci_runtimeState c = RSExited \<or> ci_runtimeState c = RSUninitialized) \<and> ci_runtimeAttached c
        then detachRuntime env c else Inr c)
       (setState env CSExited)))"

definition onMessageInput :: "console_env \<Rightarrow> runtime_message \<Rightarrow> jsstring \<Rightarrow> console \<Rightarrow> console result" where
  "onMessageInput env msg code c =
     bind_result (trace_if_enabled env (formatCallbackTrace env ''onDidReceiveRuntimeMessageInput'' msg @
       (LF # js ''Code:'') @ [LF] @ code) c) (\<lambda>c.
     bind_result (new_ActivityItemInput Executing (lm_id msg) (lm_parent_id msg) (lm_when msg) (en_inputPrompt env)
       (en_continuationPrompt env) code) (\<lambda>input.
     addOrUpdateUpdateRuntimeItemActivity (lm_parent_id msg) (ItemInput input) c))"

definition bool_string :: "bool \<Rightarrow> jsstring" where
  "bool_string b = (if b then js ''true'' else js ''false'')"

definition onMessagePrompt :: "console_env \<Rightarrow> runtime_message \<Rightarrow> jsstring \<Rightarrow> bool \<Rightarrow> console \<Rightarrow> console result" where
  "onMessagePrompt env msg prompt password c =
     bind_result (trace_if_enabled env (formatCallbackTrace env ''onDidReceiveRuntimeMessagePrompt'' msg @
       (LF # js ''Prompt: '') @ prompt @ (LF # js ''Password: '') @ bool_string password) c) (\<lambda>c.
     let c = c\<lparr>ci_promptActive := True\<rparr>
     in bind_result (new_ActivityItemPrompt (lm_id msg) (lm_parent_id msg) (lm_when msg) prompt password) (\<lambda>p.
        addOrUpdateUpdateRuntimeItemActivity (lm_parent_id msg) (ItemPrompt p) c))"

text \<open>
  \<open>toLowerCase\<close>, as far as the test below can tell: no character outside ASCII becomes a letter of the
  tags it looks for without a combining mark after it.
\<close>

definition to_lower_case :: "jsstring \<Rightarrow> jsstring" where
  "to_lower_case s = map (\<lambda>c. if 65 \<le> c \<and> c \<le> 90 then c + 32 else c) s"

fun js_includes :: "jsstring \<Rightarrow> jsstring \<Rightarrow> bool" where
  "js_includes [] p \<longleftrightarrow> p = []"
| "js_includes (c # cs) p \<longleftrightarrow> js_starts_with (c # cs) p \<or> js_includes cs p"

definition html_fragment :: "mime_data \<Rightarrow> bool" where
  "html_fragment data =
     (case map_of data (js ''text/html'') of
        None \<Rightarrow> False
      | Some html \<Rightarrow>
          let htmlContent = to_lower_case html
          in \<not> (js_includes htmlContent (js ''<script'') \<or> js_includes htmlContent (js ''<body'') \<or>
                 js_includes htmlContent (js ''<html'') \<or> js_includes htmlContent (js ''<iframe'')))"

definition onMessageOutput :: "console_env \<Rightarrow> runtime_message \<Rightarrow> output_kind \<Rightarrow> mime_data \<Rightarrow> console \<Rightarrow> console result" where
  "onMessageOutput env msg kind data c =
     bind_result (trace_if_enabled env (formatCallbackTrace env ''onDidReceiveRuntimeMessageOutput'' msg @
       formatOutputData data) c) (\<lambda>c.
     if kind = ViewerWidget \<or> kind = IPyWidget then Inr c
     else if find (\<lambda>key. js_starts_with key (js ''image/'')) (map fst data) \<noteq> None
     then bind_result (new_ActivityItemOutputPlot (lm_id msg) (lm_parent_id msg) (lm_when msg) data) (\<lambda>plot.
       addOrUpdateUpdateRuntimeItemActivity (lm_parent_id msg) (ItemOutputPlot plot) c)
     else if html_fragment data
     then addOrUpdateUpdateRuntimeItemActivity (lm_parent_id msg)
       (ItemOutputHtml \<lparr>oh_id = lm_id msg, oh_parentId = lm_parent_id msg, oh_when = lm_when msg,
          oh_html = template (map_of data (js ''text/html''))\<rparr>) c
     else bind_result (new_ActivityItemOutputMessage (lm_id msg) (lm_parent_id msg) (lm_when msg) data) (\<lambda>m.
       addOrUpdateUpdateRuntimeItemActivity (lm_parent_id msg) (ItemOutputMessage m) c))"

definition sanitize_trace :: "jsstring \<Rightarrow> jsstring" where
  "sanitize_trace text =
     (let t = js_replace_all 9 (js ''[HT]'') text;
          t = js_replace_all LF (js ''[LF]'') t;
          t = js_replace_all CR (js ''[CR]'') t;
          t = js_replace_all CSI (js ''CSI'') t;
          t = js_replace_all ESC (js ''ESC'') t
      in js_replace_all CSI (js ''CSI'') t)"

definition onMessageStream :: "console_env \<Rightarrow> runtime_message \<Rightarrow> jsstring \<Rightarrow> jsstring \<Rightarrow> console \<Rightarrow> console result" where
  "onMessageStream env msg name text c =
     bind_result (trace_if_enabled env (formatCallbackTrace env ''onDidReceiveRuntimeMessageStream'' msg @
       formatOutputStream name (sanitize_trace text)) c) (\<lambda>c.
     let stream = (\<lambda>kind. ItemStream (newActivityItemStream kind (lm_id msg) (lm_parent_id msg) (lm_when msg) text))
     in if name = js ''stdout'' then addOrUpdateUpdateRuntimeItemActivity (lm_parent_id msg) (stream OutputStream) c
        else if name = js ''stderr'' then addOrUpdateUpdateRuntimeItemActivity (lm_parent_id msg) (stream ErrorStream) c
        else Inr c)"

definition onMessageError ::
    "console_env \<Rightarrow> runtime_message \<Rightarrow> jsstring \<Rightarrow> jsstring \<Rightarrow> jsstring list \<Rightarrow> console \<Rightarrow> console result" where
  "onMessageError env msg name message traceback c =
     bind_result (trace_if_enabled env (formatCallbackTrace env ''onDidReceiveRuntimeMessageError'' msg @
       (LF # js ''Name: '') @ name @ (LF # js ''Message:'') @ [LF] @ message @ formatTraceback traceback) c) (\<lambda>c.
     bind_result (new_ActivityItemErrorMessage (lm_id msg) (lm_parent_id msg) (lm_when msg) name message traceback) (\<lambda>m.
     addOrUpdateUpdateRuntimeItemActivity (lm_parent_id msg) (ItemErrorMessage m) c))"

fun online_state_name :: "online_state \<Rightarrow> jsstring" where
  "online_state_name OnlineStarting = js ''starting''"
| "online_state_name OnlineBusy = js ''busy''"
| "online_state_name OnlineIdle = js ''idle''"

definition onMessageState :: "console_env \<Rightarrow> runtime_message \<Rightarrow> online_state \<Rightarrow> console \<Rightarrow> console result" where
  "onMessageState env msg state c =
     bind_result (trace_if_enabled env (formatCallbackTrace env ''onDidReceiveRuntimeMessageState'' msg @
       (LF # js ''State: '') @ online_state_name state) c) (\<lambda>c.
     let ours = (js_starts_with (lm_parent_id msg) (js ''fragment-'') \<or> ci_state c = CSOffline)
     in case state of
          OnlineStarting \<Rightarrow> Inr c
        | OnlineBusy \<Rightarrow> bind_result (if ours then setState env CSBusy c else Inr c) (\<lambda>c.
            Inr (markInputBusyState (lm_parent_id msg) True c))
        | OnlineIdle \<Rightarrow> bind_result (if ours then setState env CSReady c else Inr c) (\<lambda>c.
            Inr (markInputBusyState (lm_parent_id msg) False c)))"

definition onClientEvent :: "jsstring \<Rightarrow> console \<Rightarrow> console" where
  "onClientEvent name c = (if name = js ''clear_console'' then clearConsole c else c)"

text \<open>The handler of an event, for the attach mode its registration captured.\<close>

fun handle_event :: "console_env \<Rightarrow> attach_mode \<Rightarrow> session_event \<Rightarrow> console \<Rightarrow> console result" where
  "handle_event env mode (RuntimeStateChanged s) c = onDidChangeRuntimeState env s c"
| "handle_event env mode (StartupCompleted banner iv lv) c = onDidCompleteStartup env mode banner iv lv c"
| "handle_event env mode (StartupFailure message details) c = onDidEncounterStartupFailure env message details c"
| "handle_event env mode (MessageInput msg code) c = onMessageInput env msg code c"
| "handle_event env mode (MessagePrompt msg prompt password) c = onMessagePrompt env msg prompt password c"
| "handle_event env mode (MessageOutput msg kind data) c = onMessageOutput env msg kind data c"
| "handle_event env mode (MessageStream msg name text) c = onMessageStream env msg name text c"
| "handle_event env mode (MessageError msg name message traceback) c = onMessageError env msg name message traceback c"
| "handle_event env mode (MessageState msg state) c = onMessageState env msg state c"
| "handle_event env mode (ClientEvent name) c = Inr (onClientEvent name c)"
| "handle_event env mode (SessionEnded exit) c = onDidEndSession env exit c"

end
