(* ===== verification/Console_Steps.thy ===== *)
theory Console_Steps
  imports Console_Instance "HOL-Library.Sublist"
begin

text \<open>
  The console instance as a state machine: every public method, every event of an attached session and
  every continuation of an asynchronous method is an operation. The locale \<open>console_frame\<close> is the
  contract of a relation that the primitive changes of the state respect; what it gives for every handler
  is instantiated for the pending input and for the index of activities. The theory then shows the
  invariants of reachable states, and that pending input is executed completely and in order.
\<close>

section \<open>Operations\<close>

datatype console_op =
    OpExecute jsstring "execution_mode option" "error_behavior option"
  | OpEnqueue jsstring bool "execution_mode option" "error_behavior option"
  | OpResumeEnqueue nat "fragment_status option"
  | OpResumeProcessing "fragment_status option"
  | OpFinishProcessing
  | OpInterrupt jsstring
  | OpReply activity_prompt "(nat \<times> nat) option" jsstring
  | OpInterruptPrompt "(nat \<times> nat) option"
  | OpClear
  | OpSetSession jsstring attach_mode
  | OpToggleTrace
  | OpToggleWordWrap
  | OpPaste jsstring
  | OpSelectAll
  | OpClearHistory
  | OpExitTimer
  | OpFocusInput
  | OpSetState console_state
  | OpReadStream nat nat
  | OpEvent jsstring attach_mode session_event

text \<open>
  Rendering reads the lines of a stream, the item at a place of an activity. Reading processes the text
  that is waiting; should it throw, the stream stays as it is.
\<close>

definition read_stream_item :: "activity_item \<Rightarrow> activity_item" where
  "read_stream_item item =
     (case item of
        ItemStream st \<Rightarrow> (case stream_outputLines st of Inr (ls, st') \<Rightarrow> ItemStream st' | Inl e \<Rightarrow> item)
      | _ \<Rightarrow> item)"

definition readStream :: "nat \<Rightarrow> nat \<Rightarrow> console \<Rightarrow> console" where
  "readStream a k c =
     update_items (\<lambda>items. if k < length items then items[k := read_stream_item (items ! k)] else items) a c"

fun console_step :: "console_env \<Rightarrow> console_op \<Rightarrow> console \<Rightarrow> console result" where
  "console_step env (OpExecute code mode b) c = executeCode env code mode b c"
| "console_step env (OpEnqueue code allow mode b) c = enqueueCode env code allow mode b c"
| "console_step env (OpResumeEnqueue k status) c = resumeEnqueue env k status c"
| "console_step env (OpResumeProcessing status) c = resumeProcessing env status c"
| "console_step env OpFinishProcessing c = Inr (if ci_processing c = Finishing then finishProcessing c else c)"
| "console_step env (OpInterrupt code) c = interrupt env code c"
| "console_step env (OpReply prompt loc value) c = Inr (replyToPrompt prompt loc value c)"
| "console_step env (OpInterruptPrompt loc) c = Inr (interruptPrompt loc c)"
| "console_step env OpClear c = Inr (clearConsole c)"
| "console_step env (OpSetSession sid mode) c = setRuntimeSession env sid mode c"
| "console_step env OpToggleTrace c = toggleTrace env c"
| "console_step env OpToggleWordWrap c = Inr (toggleWordWrap c)"
| "console_step env (OpPaste text) c = Inr (pasteText text c)"
| "console_step env OpSelectAll c = Inr (selectAll c)"
| "console_step env OpClearHistory c = Inr (clearInputHistory c)"
| "console_step env OpExitTimer c = onExitTimer env c"
| "console_step env OpFocusInput c = Inr (focusInput c)"
| "console_step env (OpSetState state) c = setState env state c"
| "console_step env (OpReadStream a k) c = Inr (readStream a k c)"
| "console_step env (OpEvent sid mode ev) c =
     (if (sid, mode) \<in> set (ci_handlers c) then handle_event env mode ev c else Inr c)"

text \<open>The next identifier of a fragment is not the identifier of an activity: random identifiers are new.\<close>

definition fresh_fragment :: "console_env \<Rightarrow> console \<Rightarrow> bool" where
  "fresh_fragment env c \<longleftrightarrow> map_of (ci_activities c) (fragment_id (en_uuid env (ci_ticks c))) = None"

inductive console_reached :: "console \<Rightarrow> bool" where
  created: "new_PositronConsoleInstance env sid mode = Inr c \<Longrightarrow> console_reached c"
| stepped: "console_reached c \<Longrightarrow> fresh_fragment env c \<Longrightarrow> console_step env op c = Inr d \<Longrightarrow> console_reached d"

section \<open>What the primitive changes respect, every handler respects\<close>

lemma bind_result_elim:
  assumes "bind_result r f = Inr d"
  obtains x where "r = Inr x" and "f x = Inr d"
  using assms by (auto simp: bind_result_Inr_iff)

text \<open>The fields that neither the items nor the pending input depend on.\<close>

definition same_core :: "console \<Rightarrow> console \<Rightarrow> bool" where
  "same_core c d \<longleftrightarrow> ci_store d = ci_store c \<and> ci_next d = ci_next c \<and> ci_activities d = ci_activities c \<and>
     addresses (ci_items d) = addresses (ci_items c) \<and> ci_pending d = ci_pending c \<and>
     ci_pendingState d = ci_pendingState c \<and> ci_processing d = ci_processing c \<and> ci_session d = ci_session c"

lemma same_core_emit: "same_core c (announce e c)"
  by (simp add: same_core_def announce_def)

text \<open>A change of the items of an activity that keeps its streams good.\<close>

definition keeps_items :: "(activity_item list \<Rightarrow> activity_item list) \<Rightarrow> bool" where
  "keeps_items f \<longleftrightarrow> (\<forall>items. (\<forall>x \<in> set items. item_ok x) \<longrightarrow> (\<forall>x \<in> set (f items). item_ok x))"

lemma item_ok_plain [simp]: "item_ok (ItemInput i)" "item_ok (ItemPrompt p)"
  by (simp_all add: item_ok_def)

lemma keeps_mark_first_input: "keeps_items (mark_first_input busy)"
proof -
  have "\<forall>x \<in> set items. item_ok x \<Longrightarrow> \<forall>x \<in> set (mark_first_input busy items). item_ok x" for items
    by (induction busy items rule: mark_first_input.induct) auto
  then show ?thesis
    by (simp add: keeps_items_def)
qed

lemma item_ok_complete_input: "item_ok x \<Longrightarrow> item_ok (complete_input x)"
  by (cases x) auto

lemma keeps_complete_input: "keeps_items (map complete_input)"
  by (simp add: keeps_items_def item_ok_complete_input)

lemma keeps_update_nth: "(\<And>x. item_ok x \<Longrightarrow> item_ok (g x)) \<Longrightarrow> keeps_items (\<lambda>items. if k < length items then items[k := g (items ! k)] else items)"
  by (auto simp: keeps_items_def dest!: set_update_subset_insert [THEN subsetD])

text \<open>Reading flushes the interpreter's buffer, as feeding it no text does.\<close>

lemma stream_accounts_flush:
  assumes "stream_accounts st t" and "st_waiting st = []" and "get_outputLines (st_ansi st) = Inr (ls, a)"
  shows "stream_accounts (st\<lparr>st_ansi := a\<rparr>) t"
proof -
  obtain x outs where x: "sgr_ok x" "run_machine feed (styled_start x) outs = Inr (st_ansi st)" "concat outs = t"
    using assms(1,2) by (auto simp: stream_accounts_def)
  moreover have "processOutput [] (st_ansi st) = Inr a"
    using assms(3) by (auto simp: get_outputLines_def processOutput_def elim!: bind_result_elim)
  ultimately have "run_machine feed (styled_start x) (outs @ [[]]) = Inr a"
    by (simp add: run_machine_append)
  with x(1,3) assms(2) show ?thesis
    by (auto simp: stream_accounts_def intro!: exI [of _ x] exI [of _ "outs @ [[]]"])
qed

lemma item_ok_read: "item_ok x \<Longrightarrow> item_ok (read_stream_item x)"
proof (cases x)
  case (ItemStream st)
  assume "item_ok x"
  then obtain t where t: "stream_accounts st t"
    using ItemStream by (auto simp: item_ok_def)
  then obtain a where a: "processActivityItemStreams st = Inr (st\<lparr>st_ansi := a, st_waiting := []\<rparr>)"
    "stream_accounts (st\<lparr>st_ansi := a, st_waiting := []\<rparr>) t"
    using processActivityItemStreams_accounts by blast
  then have "\<exists>t. stream_accounts (st\<lparr>st_waiting := [], st_ansi := b\<rparr>) t" if "get_outputLines a = Inr (ls, b)" for ls b
    using stream_accounts_flush [OF a(2), of ls b] that by auto
  with a t show ?thesis
    by (auto simp: read_stream_item_def ItemStream stream_outputLines_def item_ok_def
        split: sum.split prod.split elim!: bind_result_elim)
qed (auto simp: read_stream_item_def)

locale console_frame =
  fixes R :: "console \<Rightarrow> console \<Rightarrow> bool"
  assumes R_trans: "R c d \<Longrightarrow> R d e \<Longrightarrow> R c e"
    and R_core: "same_core c d \<Longrightarrow> R c d"
    and R_add_plain: "item_activity item = None \<Longrightarrow> R c (addRuntimeItem item c)"
    and R_add_activity: "addOrUpdateUpdateRuntimeItemActivity i it c = Inr d \<Longrightarrow> item_fresh it \<Longrightarrow> R c d"
    and R_update_items: "keeps_items f \<Longrightarrow> R c (update_items f a c)"
    and R_clear: "R c (clearConsole c)"
begin

lemma R_refl: "R c c"
  by (rule R_core) (simp add: same_core_def)

lemma R_after: "same_core c c' \<Longrightarrow> R c' d \<Longrightarrow> R c d"
  by (blast intro: R_trans R_core)

lemma R_before: "R c d' \<Longrightarrow> same_core d' d \<Longrightarrow> R c d"
  by (blast intro: R_trans R_core)

lemma R_add_plain_after: "same_core c c' \<Longrightarrow> item_activity item = None \<Longrightarrow> R c (addRuntimeItem item c')"
  by (blast intro: R_after R_add_plain)

lemma R_add_activity_after:
  "addOrUpdateUpdateRuntimeItemActivity i it c' = Inr d \<Longrightarrow> item_fresh it \<Longrightarrow> same_core c c' \<Longrightarrow> R c d"
  by (blast intro: R_after R_add_activity)

lemma R_add_new_item:
  assumes "add_new_item env mk c = Inr d" and "\<And>i item. mk i = Inr item \<Longrightarrow> item_activity item = None"
  shows "R c d"
  using assms by (auto simp: add_new_item_def generateUuid_def bind_result_Inr_iff same_core_def
      intro!: R_add_plain_after)

lemma R_trace: "addRuntimeItemTrace env t c = Inr d \<Longrightarrow> R c d"
  by (auto simp: addRuntimeItemTrace_def generateUuid_def new_RuntimeItemTrace_def bind_result_Inr_iff same_core_def
      intro!: R_add_plain_after)

lemma R_trace_if_enabled: "trace_if_enabled env t c = Inr d \<Longrightarrow> R c d"
  by (auto simp: trace_if_enabled_def R_refl split: if_splits intro: R_trace)

lemma R_started_loop: "started_loop env i c = Inr d \<Longrightarrow> R c d"
proof (induction i arbitrary: c)
  case (Suc i)
  show ?case
  proof (cases "i < length (ci_items c)")
    case True
    show ?thesis
    proof (cases "ci_items c ! i")
      case (RuntimeItemStarting j ls mode)
      with True Suc.prems obtain ls' where
        d: "started_loop env i (announce ItemsChanged (c\<lparr>ci_ticks := Suc (ci_ticks c),
           ci_items := (ci_items c)[i := RuntimeItemStarted (en_uuid env (ci_ticks c)) ls']\<rparr>)) = Inr d"
        by (auto simp: generateUuid_def bind_result_Inr_iff new_RuntimeItemStarted_def)
      show ?thesis
        by (rule R_after [OF _ Suc.IH [OF d]])
          (simp add: same_core_def announce_def addresses_list_update RuntimeItemStarting)
    qed (use True Suc in auto)
  qed (use Suc in auto)
qed (auto simp: R_refl)

text \<open>The constructors of plain items.\<close>

lemma plain_items:
  "new_RuntimeItemReconnected i m = Inr item \<Longrightarrow> item_activity item = None"
  "new_RuntimeItemOffline i m = Inr item \<Longrightarrow> item_activity item = None"
  "new_RuntimeItemStarting i m mode = Inr item \<Longrightarrow> item_activity item = None"
  "new_RuntimeItemExited i reason m = Inr item \<Longrightarrow> item_activity item = None"
  "new_RuntimeItemStartup i m iv lv = Inr item \<Longrightarrow> item_activity item = None"
  "new_RuntimeItemStartupFailure i m m' = Inr item \<Longrightarrow> item_activity item = None"
  by (auto simp: new_RuntimeItemReconnected_def new_RuntimeItemOffline_def new_RuntimeItemStarting_def
      new_RuntimeItemExited_def new_RuntimeItemStartup_def new_RuntimeItemStartupFailure_def bind_result_Inr_iff)

lemma R_setState:
  assumes "setState env state c = Inr d"
  shows "R c d"
proof -
  from assms obtain c1 c2 where
    1: "(if ci_trace c \<and> ci_state c \<noteq> state
       then addRuntimeItemTrace env (js ''Console state change: '' @ console_state_name (ci_state c) @
              js '' => '' @ console_state_name state) c
       else Inr c) = Inr c1"
    and 2: "(case state of
         CSReady \<Rightarrow>
           (case ci_state c1 of
              CSStarting \<Rightarrow> started_loop env (length (ci_items c1)) c1
            | CSOffline \<Rightarrow> add_new_item env (\<lambda>i. new_RuntimeItemReconnected i
                (en_sessionName env @ js '' reconnected.'')) c1
            | _ \<Rightarrow> Inr c1)
       | CSOffline \<Rightarrow> add_new_item env (\<lambda>i. new_RuntimeItemOffline i
           (en_sessionName env @ js '' offline. Waiting to reconnect.'')) c1
       | _ \<Rightarrow> Inr c1) = Inr c2"
    and d: "d = announce (StateChanged state) (c2\<lparr>ci_state := state\<rparr>)"
    unfolding setState_def by (elim bind_result_elim) simp
  have "R c c1"
    using 1 by (auto simp: R_refl split: if_splits intro: R_trace)
  moreover have "R c1 c2"
    using 2 by (auto simp: R_refl split: console_state.splits intro: R_started_loop R_add_new_item plain_items)
  moreover have "R c2 d"
    by (rule R_core) (simp add: d same_core_def announce_def)
  ultimately show ?thesis
    by (blast intro: R_trans)
qed

lemma R_then_add:
  "bind_result r (add_new_item env mk) = Inr d \<Longrightarrow> (\<And>c'. r = Inr c' \<Longrightarrow> R c c') \<Longrightarrow>
   (\<And>i item. mk i = Inr item \<Longrightarrow> item_activity item = None) \<Longrightarrow> R c d"
  by (elim bind_result_elim, rule R_trans, blast, rule R_add_new_item)

lemma R_emitStartRuntimeItems: "emitStartRuntimeItems env mode c = Inr d \<Longrightarrow> R c d"
  by (auto simp: emitStartRuntimeItems_def R_refl Let_def split: if_splits
      intro: R_setState plain_items elim!: R_then_add)

lemma R_attachRuntime:
  assumes "attachRuntime env mode c = Inr d"
  shows "R c d"
proof -
  from assms obtain c1 c2 where
    "trace_if_enabled env (js ''Attach session '' @ en_sessionName env @ js '' '' @
       js ''(attach mode = '' @ attach_mode_name mode @ js '')'') (c\<lparr>ci_runtimeAttached := True\<rparr>) = Inr c1"
    "emitStartRuntimeItems env mode c1 = Inr c2"
    and d: "d = announce (RuntimeAttached True) (c2\<lparr>ci_handlers := ci_handlers c2 @ [(ci_session c2, mode)]\<rparr>)"
    unfolding attachRuntime_def by (elim bind_result_elim) simp
  then have "R (c\<lparr>ci_runtimeAttached := True\<rparr>) c2"
    by (blast intro: R_trans R_trace_if_enabled R_emitStartRuntimeItems)
  then have "R c c2"
    by (rule R_after [rotated]) (simp add: same_core_def)
  then show ?thesis
    by (rule R_before) (simp add: d same_core_def announce_def)
qed

lemma R_fold_update: "keeps_items f \<Longrightarrow> R c (fold (update_items f) as c)"
proof (induction "as" arbitrary: c)
  case (Cons a "as")
  then show ?case
    using R_trans [OF R_update_items [OF Cons.prems] Cons.IH [OF Cons.prems]] by simp
qed (simp add: R_refl)

lemma R_detachRuntime:
  assumes "detachRuntime env c = Inr d"
  shows "R c d"
proof -
  from assms obtain c1 where 1: "trace_if_enabled env (js ''Detach session '' @ en_sessionName env) c = Inr c1"
    and d: "d = (if ci_runtimeAttached c1
          then (let c = announce (RuntimeAttached False) (c1\<lparr>ci_runtimeAttached := False\<rparr>);
                    c = fold (update_items (map complete_input)) (map snd (ci_activities c)) c
                in c\<lparr>ci_handlers := []\<rparr>)
          else announce Warned c1)"
    unfolding detachRuntime_def by (elim bind_result_elim) simp
  have "R c1 d"
  proof (cases "ci_runtimeAttached c1")
    case True
    let ?c2 = "announce (RuntimeAttached False) (c1\<lparr>ci_runtimeAttached := False\<rparr>)"
    have "R c1 (fold (update_items (map complete_input)) (map snd (ci_activities ?c2)) ?c2)"
      by (rule R_after [OF _ R_fold_update [OF keeps_complete_input]]) (simp add: same_core_def announce_def)
    then show ?thesis
      by (rule R_before) (simp add: d True same_core_def Let_def)
  next
    case False
    then show ?thesis
      by (simp add: d R_core same_core_emit)
  qed
  with 1 show ?thesis
    by (blast intro: R_trans R_trace_if_enabled)
qed

lemma R_toggleTrace:
  assumes "toggleTrace env c = Inr d"
  shows "R c d"
proof -
  from assms obtain c1 where "trace_if_enabled env (js ''Trace enabled'') (c\<lparr>ci_trace := \<not> ci_trace c\<rparr>) = Inr c1"
    and d: "d = announce (TraceChanged (ci_trace c1)) c1"
    unfolding toggleTrace_def Let_def by (elim bind_result_elim) simp
  then have "R c c1"
    by (intro R_after [OF _ R_trace_if_enabled]) (auto simp: same_core_def)
  then show ?thesis
    by (rule R_before) (simp add: d same_core_emit)
qed

lemma R_update_prompt: "R c (update_prompt f loc c)"
proof -
  have "keeps_items (\<lambda>items. if k < length items
      then (case items ! k of ItemPrompt p \<Rightarrow> items[k := ItemPrompt (f p)] | _ \<Rightarrow> items) else items)" for k
    by (auto simp: keeps_items_def split: activity_item.splits dest!: set_update_subset_insert [THEN subsetD])
  then show ?thesis
    by (auto simp: update_prompt_def R_refl R_update_items split: option.split)
qed

lemma R_replyToPrompt: "R c (replyToPrompt prompt loc v c)"
  by (rule R_before [OF R_update_prompt]) (simp add: replyToPrompt_def same_core_def announce_def Let_def)

lemma R_interruptPrompt: "R c (interruptPrompt loc c)"
  by (rule R_before [OF R_update_prompt]) (simp add: interruptPrompt_def same_core_def announce_def Let_def)

lemma R_markInputBusyState: "R c (markInputBusyState i busy c)"
  by (auto simp: markInputBusyState_def R_refl R_update_items keeps_mark_first_input split: option.split)

lemma R_doExecuteCode:
  assumes "doExecuteCode env code mode0 b0 c = Inr d"
  shows "R c d"
proof -
  let ?c = "c\<lparr>ci_ticks := Suc (ci_ticks c)\<rparr>"
  from assms obtain c1 e e' where d: "d = announce e (announce e' c1)"
    and 1: "c1 = ?c \<or> (\<exists>i it. addOrUpdateUpdateRuntimeItemActivity i it ?c = Inr c1 \<and> item_fresh it)"
    unfolding doExecuteCode_def Let_def generateUuid_def prod.case
    by (elim bind_result_elim) (fastforce split: if_splits elim!: bind_result_elim)
  have "same_core c ?c"
    by (simp add: same_core_def)
  then have "R c c1"
    using 1 by (auto intro: R_core R_add_activity_after)
  then show ?thesis
    by (rule R_before) (simp add: d same_core_def announce_def)
qed

lemma R_traced:
  "bind_result (trace_if_enabled env t c) f = Inr d \<Longrightarrow> (\<And>c'. f c' = Inr d \<Longrightarrow> R c' d) \<Longrightarrow> R c d"
  by (blast elim: bind_result_elim intro: R_trans R_trace_if_enabled)

lemma R_onMessageInput: "onMessageInput env msg code c = Inr d \<Longrightarrow> R c d"
  unfolding onMessageInput_def by (erule R_traced, elim bind_result_elim, erule R_add_activity) simp

lemma R_onMessagePrompt: "onMessagePrompt env msg prompt password c = Inr d \<Longrightarrow> R c d"
  unfolding onMessagePrompt_def Let_def
  by (erule R_traced, elim bind_result_elim, erule R_add_activity_after) (simp_all add: same_core_def)

lemma R_onMessageOutput: "onMessageOutput env msg kind data c = Inr d \<Longrightarrow> R c d"
  unfolding onMessageOutput_def
  by (erule R_traced) (auto simp: R_refl split: if_splits elim!: bind_result_elim intro: R_add_activity)

lemma R_onMessageStream: "onMessageStream env msg name text c = Inr d \<Longrightarrow> R c d"
  unfolding onMessageStream_def Let_def
  by (erule R_traced) (auto simp: R_refl split: if_splits intro: R_add_activity)

lemma R_onMessageError: "onMessageError env msg name message traceback c = Inr d \<Longrightarrow> R c d"
  unfolding onMessageError_def by (erule R_traced, elim bind_result_elim, erule R_add_activity) simp

lemma R_onMessageState:
  assumes "onMessageState env msg state c = Inr d"
  shows "R c d"
proof -
  have "R c1 (markInputBusyState i busy c2)" if "(if ours then setState env s c1 else Inr c1) = Inr c2"
    for ours s c1 c2 i busy
    using that by (auto split: if_splits intro: R_markInputBusyState R_trans [OF R_setState R_markInputBusyState])
  then show ?thesis
    using assms unfolding onMessageState_def Let_def
    by - (erule R_traced, auto simp: R_refl split: online_state.splits elim!: bind_result_elim)
qed

lemma R_onClientEvent: "R c (onClientEvent name c)"
  by (simp add: onClientEvent_def R_refl R_clear)

lemma R_onDidCompleteStartup: "onDidCompleteStartup env mode banner iv lv c = Inr d \<Longrightarrow> R c d"
  unfolding onDidCompleteStartup_def
  by (erule bind_result_elim, rule R_trans, erule R_setState)
    (auto intro: R_trace_if_enabled plain_items elim!: R_then_add)

lemma R_onDidEncounterStartupFailure:
  assumes "onDidEncounterStartupFailure env message details c = Inr d"
  shows "R c d"
  using assms unfolding onDidEncounterStartupFailure_def
proof (rule R_traced)
  fix c1
  assume "bind_result (add_new_item env (\<lambda>i. new_RuntimeItemStartupFailure i message details) c1) (\<lambda>c.
     bind_result
       (if (ci_runtimeState c = RSExited \<or> ci_runtimeState c = RSUninitialized) \<and> ci_runtimeAttached c
        then detachRuntime env c else Inr c)
       (setState env CSExited)) = Inr d"
  then obtain c2 c3 where "add_new_item env (\<lambda>i. new_RuntimeItemStartupFailure i message details) c1 = Inr c2"
    "(if (ci_runtimeState c2 = RSExited \<or> ci_runtimeState c2 = RSUninitialized) \<and> ci_runtimeAttached c2
        then detachRuntime env c2 else Inr c2) = Inr c3" "setState env CSExited c3 = Inr d"
    by (elim bind_result_elim)
  then have "R c1 c2" "R c2 c3" "R c3 d"
    by (auto simp: R_refl split: if_splits intro: R_setState R_detachRuntime R_add_new_item plain_items)
  then show "R c1 d"
    by (blast intro: R_trans)
qed

lemma R_onExitTimer: "onExitTimer env c = Inr d \<Longrightarrow> R c d"
  unfolding onExitTimer_def Let_def
  by (auto simp: R_refl same_core_def split: if_splits intro: R_core plain_items
      elim!: R_then_add R_after [OF _ R_detachRuntime, rotated])

lemma R_onDidEndSession:
  assumes "onDidEndSession env exit c = Inr d"
  shows "R c d"
  using assms unfolding onDidEndSession_def Let_def
proof (rule R_traced, elim bind_result_elim)
  fix c1 c2 c3 message
  assume "add_new_item env (\<lambda>i. new_RuntimeItemExited i (ex_reason exit) message) c1 = Inr c2"
    "(if ex_reason exit = ForcedQuit \<or> ex_reason exit = Shutdown \<or> ex_reason exit = ExitUnknown \<or>
         ex_reason exit = ExitError \<and> \<not> en_restartOnCrash env
      then add_new_item env (\<lambda>i. Inr (RuntimeItemRestartButton i (en_languageName env))) c2 else Inr c2) = Inr c3"
    "detachRuntime env c3 = Inr d"
  then have "R c1 c2" "R c2 c3" "R c3 d"
    by (auto simp: R_refl split: if_splits intro: plain_items R_detachRuntime elim!: R_add_new_item)
  then show "R c1 d"
    by (blast intro: R_trans)
qed

text \<open>Every handler but the one that starts processing pending input.\<close>

lemma R_handle_event:
  "handle_event env mode ev c = Inr d \<Longrightarrow> (\<And>s. ev \<noteq> RuntimeStateChanged s) \<Longrightarrow> R c d"
  by (cases ev) (auto intro: R_onDidCompleteStartup R_onDidEncounterStartupFailure R_onMessageInput
      R_onMessagePrompt R_onMessageOutput R_onMessageStream R_onMessageError R_onMessageState R_onClientEvent
      R_onDidEndSession)

end

text \<open>A relation that also does not depend on which session a console has.\<close>

locale session_frame = console_frame +
  assumes R_session: "R c (c\<lparr>ci_session := sid\<rparr>)"
begin

lemma R_attach_session: "attachRuntime env mode (c\<lparr>ci_session := sid\<rparr>) = Inr d \<Longrightarrow> R c d"
  by (rule R_trans [OF R_session R_attachRuntime])

lemma R_setRuntimeSession: "setRuntimeSession env sid mode c = Inr d \<Longrightarrow> R c d"
  by (auto simp: setRuntimeSession_def R_refl split: if_splits intro: R_emitStartRuntimeItems R_attach_session)

end

section \<open>The two instances\<close>

definition pend_view :: "console \<Rightarrow> pending_input option \<times> pending_state \<times> processing" where
  "pend_view c = (ci_pending c, ci_pendingState c, ci_processing c)"

lemma pend_view_simps [simp]:
  "pend_view (announce e c) = pend_view c"
  "pend_view (trimItems c) = pend_view c"
  "pend_view (push_runtime_item item c) = pend_view c"
  "pend_view (index_activity i a c) = pend_view c"
  "pend_view (alloc_activity ra c) = pend_view c"
  "pend_view (update_items f a c) = pend_view c"
  by (simp_all add: pend_view_def announce_def trimItems_def push_runtime_item_def index_activity_def
      alloc_activity_def update_items_def Let_def split: prod.split)

lemma pend_view_addRuntimeItem [simp]: "pend_view (addRuntimeItem item c) = pend_view c"
  by (simp add: addRuntimeItem_def Let_def split: option.split)

lemma pend_view_core: "same_core c d \<Longrightarrow> pend_view d = pend_view c"
  by (simp add: same_core_def pend_view_def)

lemma pend_view_addOrUpdate:
  "addOrUpdateUpdateRuntimeItemActivity i it c = Inr d \<Longrightarrow> pend_view d = pend_view c"
  by (auto simp: addOrUpdateUpdateRuntimeItemActivity_def Let_def split: option.splits elim!: bind_result_elim)
    (simp add: pend_view_def)

lemma pend_view_clearConsole: "pend_view (clearConsole c) = pend_view c"
  by (simp add: clearConsole_def pend_view_def announce_def)

interpretation pend: session_frame "\<lambda>c d. pend_view d = pend_view c"
  by unfold_locales (simp_all add: pend_view_core pend_view_addOrUpdate pend_view_clearConsole, simp add: pend_view_def)

interpretation idx: session_frame "\<lambda>c d. indexed c \<longrightarrow> indexed d"
  by unfold_locales
    (auto simp: same_core_def intro: indexed_frame indexed_addRuntimeItem_plain indexed_addOrUpdate indexed_clearConsole)

section \<open>Pending input is processed safely\<close>

text \<open>
  The methods run in step: the state is idle exactly when nothing is being processed. While the status of
  some lines is awaited, and no interruption has removed the pending input, these lines are the first
  ones of it: pending input only grows.
\<close>

definition pend_ok :: "console \<Rightarrow> bool" where
  "pend_ok c \<longleftrightarrow>
     (ci_pendingState c = PendingIdle \<longleftrightarrow> ci_processing c = NotProcessing) \<and>
     (\<forall>ls. ci_processing c = AwaitingStatus ls \<longrightarrow> ls \<noteq> [] \<and>
        (ci_pendingState c = PendingProcessing \<longrightarrow>
           (\<exists>p. ci_pending c = Some p \<and> prefix ls (js_split LF (pi_code p)))))"

lemma pend_ok_cong: "pend_view d = pend_view c \<Longrightarrow> pend_ok d = pend_ok c"
  by (simp add: pend_view_def pend_ok_def)

lemma new_RuntimeItemPendingInput_total: "\<exists>p. new_RuntimeItemPendingInput i prompt code = Inr p \<and> pi_code p = code"
  using static_total [of code] by (auto simp: new_RuntimeItemPendingInput_def pending_input_lines_def)

lemma new_ActivityItemInput_total: "\<exists>x. new_ActivityItemInput st i pid date prompt cont code = Inr x"
  using static_total [of code] by (auto simp: new_ActivityItemInput_def)

lemma pend_view_items [simp]: "pend_view (c\<lparr>ci_items := items\<rparr>) = pend_view c"
  "pend_view (c\<lparr>ci_ticks := n\<rparr>) = pend_view c" "pend_view (c\<lparr>ci_enqueues := es\<rparr>) = pend_view c"
  by (simp_all add: pend_view_def)

lemma pend_view_pending [simp]:
  "pend_view (c\<lparr>ci_pending := p\<rparr>) = (p, ci_pendingState c, ci_processing c)"
  "pend_view (c\<lparr>ci_processing := pr\<rparr>) = (ci_pending c, ci_pendingState c, pr)"
  by (simp_all add: pend_view_def)

lemma addPendingInput_spec:
  "\<exists>d p. addPendingInput env code c = Inr d \<and> pend_view d = (Some p, ci_pendingState c, ci_processing c) \<and>
     pi_code p = (case ci_pending c of None \<Rightarrow> code | Some q \<Rightarrow> pi_code q @ [LF] @ code)"
proof (cases "ci_pending c")
  case None
  then show ?thesis
    using new_RuntimeItemPendingInput_total [of "en_uuid env (ci_ticks c)" "en_inputPrompt env" code]
    by (auto simp: addPendingInput_def generateUuid_def)
next
  case (Some q)
  then show ?thesis
    using new_RuntimeItemPendingInput_total [of "en_uuid env (ci_ticks c)" "en_inputPrompt env" "pi_code q @ [LF] @ code"]
    by (auto simp: addPendingInput_def generateUuid_def)
qed

lemma pend_ok_addPendingInput:
  assumes "pend_ok c" and "addPendingInput env code c = Inr d"
  shows "pend_ok d"
proof -
  obtain p where d: "pend_view d = (Some p, ci_pendingState c, ci_processing c)"
    and p: "pi_code p = (case ci_pending c of None \<Rightarrow> code | Some q \<Rightarrow> pi_code q @ [LF] @ code)"
    using addPendingInput_spec [of env code c] assms(2) by auto
  show ?thesis
    using assms(1) d p unfolding pend_ok_def
    by (auto simp: pend_view_def js_split_append intro: prefix_prefix)
qed

lemma pend_ok_clearPendingInput: "pend_ok c \<Longrightarrow> pend_ok (clearPendingInput c)"
  by (auto simp: clearPendingInput_def pend_ok_def Let_def split: option.split)

lemma pend_ok_processPendingInput: "pend_ok c \<Longrightarrow> pend_ok (processPendingInput c)"
proof -
  have "prefix [hd (js_split LF s)] (js_split LF s)" for s
    by (cases "js_split LF s") simp_all
  then show "pend_ok c \<Longrightarrow> ?thesis"
    by (auto simp: processPendingInput_def pend_ok_def Let_def split: option.split)
qed

lemma pend_ok_finishProcessing: "pend_ok (finishProcessing c)"
  by (simp add: pend_ok_def finishProcessing_def)

lemma new_RuntimeItemActivity_single: "new_RuntimeItemActivity i item = Inr \<lparr>ra_id = i, ra_items = [item]\<rparr>"
  by (simp add: new_RuntimeItemActivity_def addActivityItem_def push_item_def)

lemma ci_log_simps [simp]:
  "ci_log (announce e c) = ci_log c @ [e]"
  "ci_log (push_runtime_item item c) = ci_log c"
  "ci_log (index_activity i a c) = ci_log c"
  "ci_log (alloc_activity ra c) = ci_log c"
  "ci_log (trimItems c) = ci_log c"
  by (simp_all add: announce_def push_runtime_item_def index_activity_def alloc_activity_def trimItems_def Let_def
      split: prod.split)

lemma ci_log_addRuntimeItem [simp]: "ci_log (addRuntimeItem item c) = ci_log c @ [ItemsChanged]"
  by (simp add: addRuntimeItem_def Let_def split: option.split)

lemma ci_pending_simps [simp]:
  "ci_pendingState (announce e c) = ci_pendingState c" "ci_pending (announce e c) = ci_pending c"
  "ci_pendingState (push_runtime_item item c) = ci_pendingState c" "ci_pending (push_runtime_item item c) = ci_pending c"
  "ci_pendingState (index_activity i a c) = ci_pendingState c" "ci_pendingState (alloc_activity ra c) = ci_pendingState c"
  by (simp_all add: announce_def push_runtime_item_def index_activity_def alloc_activity_def)

text \<open>Executing the first lines of the pending input.\<close>

definition executed_effects :: "console_env \<Rightarrow> jsstring \<Rightarrow> console \<Rightarrow> console_effect list" where
  "executed_effects env code c =
     [ItemsChanged, SessionExecute code (fragment_id (en_uuid env (ci_ticks c))) Interactive Continue,
      CodeExecuted code Interactive Continue]"

definition show_fragment :: "console_env \<Rightarrow> activity_input \<Rightarrow> console \<Rightarrow> console" where
  "show_fragment env x c =
     (let i = fragment_id (en_uuid env (ci_ticks c)); c = c\<lparr>ci_ticks := Suc (ci_ticks c)\<rparr>
      in index_activity i (ci_next c)
           (push_runtime_item (RuntimeItemActivity (ci_next c)) (alloc_activity \<lparr>ra_id = i, ra_items = [ItemInput x]\<rparr> c)))"

lemma show_fragment_simps [simp]:
  "ci_log (show_fragment env x c) = ci_log c" "ci_pendingState (show_fragment env x c) = ci_pendingState c"
  by (simp_all add: show_fragment_def Let_def)

text \<open>The lines that remain are kept in a new pending input.\<close>

lemma execute_pending_unfold:
  assumes "length ls \<le> length L"
  obtains x p where "pi_code p = js_join [LF] (drop (length ls) L)"
    and "execute_pending env ls L c =
      Inr ((foldl (\<lambda>c e. announce e c)
        (let c1 = show_fragment env x c
         in if length ls < length L
            then push_runtime_item (RuntimeItemPendingInput p) (c1\<lparr>ci_ticks := Suc (ci_ticks c1), ci_pending := Some p\<rparr>)
            else c1\<lparr>ci_pending := None\<rparr>)
        (executed_effects env (js_join [LF] ls) c))\<lparr>ci_processing := Finishing\<rparr>)"
proof -
  let ?c = "c\<lparr>ci_ticks := Suc (ci_ticks c)\<rparr>"
  obtain x where x: "new_ActivityItemInput Provisional (fragment_id (en_uuid env (ci_ticks c)))
      (fragment_id (en_uuid env (ci_ticks c))) (en_now env (ci_ticks ?c)) (en_inputPrompt env)
      (en_continuationPrompt env) (js_join [LF] ls) = Inr x"
    using new_ActivityItemInput_total by blast
  obtain p where p: "new_RuntimeItemPendingInput (en_uuid env (ci_ticks (show_fragment env x c))) (en_inputPrompt env)
      (js_join [LF] (drop (length ls) L)) = Inr p" "pi_code p = js_join [LF] (drop (length ls) L)"
    using new_RuntimeItemPendingInput_total by blast
  have "execute_pending env ls L c =
      Inr ((foldl (\<lambda>c e. announce e c)
        (let c1 = show_fragment env x c
         in if length ls < length L
            then push_runtime_item (RuntimeItemPendingInput p) (c1\<lparr>ci_ticks := Suc (ci_ticks c1), ci_pending := Some p\<rparr>)
            else c1\<lparr>ci_pending := None\<rparr>)
        (executed_effects env (js_join [LF] ls) c))\<lparr>ci_processing := Finishing\<rparr>)"
    using assms p(1) unfolding execute_pending_def Let_def generateUuid_def prod.case x bind_result_simps
      new_RuntimeItemActivity_single show_fragment_def
    by (simp add: executed_effects_def)
  with p(2) that show thesis
    by blast
qed

lemma execute_pending_spec:
  assumes "length ls \<le> length L"
  shows "\<exists>d. execute_pending env ls L c = Inr d \<and> ci_processing d = Finishing \<and>
    ci_pendingState d = ci_pendingState c \<and> ci_log d = ci_log c @ executed_effects env (js_join [LF] ls) c \<and>
    (if length ls < length L then \<exists>p. ci_pending d = Some p \<and> pi_code p = js_join [LF] (drop (length ls) L)
     else ci_pending d = None)"
  using assms by (rule execute_pending_unfold [of ls L env c]) (simp add: executed_effects_def Let_def)

text \<open>Every answer is handled without an exception and keeps the invariant.\<close>

lemma resumeProcessing_awaiting:
  assumes "pend_ok c" and "ci_processing c = AwaitingStatus ls" and "ci_pendingState c \<noteq> PendingInterrupted"
  obtains p where "ci_pendingState c = PendingProcessing" and "ci_pending c = Some p"
    and "prefix ls (js_split LF (pi_code p))" and "ls \<noteq> []"
  using assms by (cases "ci_pendingState c") (auto simp: pend_ok_def)

lemma resumeProcessing_total:
  assumes "pend_ok c"
  shows "\<exists>d. resumeProcessing env status c = Inr d \<and> pend_ok d"
proof (cases "\<exists>ls. ci_processing c = AwaitingStatus ls \<and> status \<noteq> None \<and> ci_pendingState c \<noteq> PendingInterrupted")
  case False
  then show ?thesis
    using assms by (auto simp: resumeProcessing_def pend_ok_def split: processing.splits)
next
  case True
  then obtain ls st where ls: "ci_processing c = AwaitingStatus ls" "status = Some st"
    "ci_pendingState c \<noteq> PendingInterrupted"
    by auto
  obtain p where p: "ci_pendingState c = PendingProcessing" "ci_pending c = Some p"
    "prefix ls (js_split LF (pi_code p))" "ls \<noteq> []"
    using resumeProcessing_awaiting [OF assms ls(1,3)] by blast
  show ?thesis
  proof (cases "st = Complete")
    case True
    then show ?thesis
      using execute_pending_spec [OF prefix_length_le [OF p(3)], of env "c\<lparr>ci_items := remove_pending p (ci_items c)\<rparr>"] ls p
      by (auto simp: resumeProcessing_def pend_ok_def Let_def)
  next
    case st: False
    have "prefix (ls @ [js_split LF (pi_code p) ! length ls]) (js_split LF (pi_code p))"
      if "length ls < length (js_split LF (pi_code p))"
      using p(3) that by (auto simp: prefix_def nth_append) (metis append_Nil2 hd_conv_nth hd_Cons_tl list.size(3))
    then show ?thesis
      using st ls p by (auto simp: resumeProcessing_def pend_ok_def hand_back_def setPendingCode_def Let_def)
  qed
qed

lemma pend_ok_resumeProcessing: "pend_ok c \<Longrightarrow> resumeProcessing env status c = Inr d \<Longrightarrow> pend_ok d"
  using resumeProcessing_total [of c env status] by auto

section \<open>Pending input is executed completely and in order\<close>

text \<open>
  The operations on pending input by themselves: code is submitted, the runtime becomes idle, the status
  of a fragment arrives, the \<open>finally\<close> block runs.
\<close>

datatype pending_op = Submit jsstring | RuntimeIdle | StatusArrives "fragment_status option" | Settle

fun pending_step :: "console_env \<Rightarrow> console \<Rightarrow> pending_op \<Rightarrow> console result" where
  "pending_step env c (Submit code) = addPendingInput env code c"
| "pending_step env c RuntimeIdle = Inr (processPendingInput c)"
| "pending_step env c (StatusArrives status) = resumeProcessing env status c"
| "pending_step env c Settle = Inr (if ci_processing c = Finishing then finishProcessing c else c)"

definition pending_lines :: "console \<Rightarrow> jsstring list" where
  "pending_lines c = (case ci_pending c of None \<Rightarrow> [] | Some p \<Rightarrow> js_split LF (pi_code p))"

text \<open>The lines that the session was asked to execute or that went to the code editor.\<close>

fun effect_lines :: "console_effect \<Rightarrow> jsstring list" where
  "effect_lines (SessionExecute code i m b) = js_split LF code"
| "effect_lines (PendingCode (Some code)) = js_split LF code"
| "effect_lines e = []"

definition delivered_lines :: "console \<Rightarrow> jsstring list" where
  "delivered_lines c = concat (map effect_lines (ci_log c))"

fun submitted_lines :: "pending_op \<Rightarrow> jsstring list" where
  "submitted_lines (Submit code) = js_split LF code"
| "submitted_lines op = []"

lemma pend_ok_pending_step: "pend_ok c \<Longrightarrow> \<exists>d. pending_step env c op = Inr d \<and> pend_ok d"
proof (cases op)
  case (Submit code)
  assume "pend_ok c"
  with Submit show ?thesis
    using addPendingInput_spec [of env code c] pend_ok_addPendingInput [of c env code] by auto
next
  case (StatusArrives status)
  assume "pend_ok c"
  with StatusArrives show ?thesis
    using resumeProcessing_total by simp
qed (auto simp: pend_ok_processPendingInput pend_ok_finishProcessing)

interpretation pending: total_machine "pending_step env" pend_ok for env
  by unfold_locales (rule pend_ok_pending_step)

lemma split_join_lines:
  "set ls \<subseteq> set (js_split LF s) \<Longrightarrow> ls \<noteq> [] \<Longrightarrow> js_split LF (js_join [LF] ls) = ls"
  by (rule js_split_join) (use js_split_pieces in blast)+

lemma resumeProcessing_conserves:
  assumes "pend_ok c" and "resumeProcessing env status c = Inr d"
  shows "delivered_lines d @ pending_lines d = delivered_lines c @ pending_lines c"
proof (cases "\<exists>ls. ci_processing c = AwaitingStatus ls \<and> status \<noteq> None \<and> ci_pendingState c \<noteq> PendingInterrupted")
  case False
  with assms(2) have "d = c \<or> d = c\<lparr>ci_processing := Finishing\<rparr>"
    by (auto simp: resumeProcessing_def split: processing.splits if_splits)
  then show ?thesis
    by (auto simp: delivered_lines_def pending_lines_def)
next
  case True
  then obtain ls st where ls: "ci_processing c = AwaitingStatus ls" "status = Some st"
    "ci_pendingState c \<noteq> PendingInterrupted"
    by auto
  obtain p where p: "ci_pending c = Some p" "prefix ls (js_split LF (pi_code p))" "ls \<noteq> []"
    using resumeProcessing_awaiting [OF assms(1) ls(1,3)] by blast
  let ?L = "js_split LF (pi_code p)" and ?c = "c\<lparr>ci_items := remove_pending p (ci_items c)\<rparr>"
  have ls_L: "ls @ drop (length ls) ?L = ?L"
    using p(2) by (metis append_eq_conv_conj prefix_def)
  show ?thesis
  proof (cases "st = Complete")
    case True
    have d: "execute_pending env ls ?L ?c = Inr d"
      using assms(2) ls p True by (simp add: resumeProcessing_def)
    have "js_split LF (js_join [LF] ls) = ls"
      using p(2,3) by (intro split_join_lines) (auto dest: set_mono_prefix)
    then have "delivered_lines d = delivered_lines c @ ls"
      using execute_pending_spec [OF prefix_length_le [OF p(2)], of env ?c] d
      by (auto simp: delivered_lines_def executed_effects_def)
    moreover have "pending_lines d = drop (length ls) ?L"
    proof (cases "length ls < length ?L")
      case True
      then have "js_split LF (js_join [LF] (drop (length ls) ?L)) = drop (length ls) ?L"
        by (intro split_join_lines) (auto dest: in_set_dropD)
      with True show ?thesis
        using execute_pending_spec [OF prefix_length_le [OF p(2)], of env ?c] d by (auto simp: pending_lines_def)
    next
      case False
      then show ?thesis
        using execute_pending_spec [OF prefix_length_le [OF p(2)], of env ?c] d by (auto simp: pending_lines_def)
    qed
    ultimately show ?thesis
      using ls_L p(1) by (simp add: pending_lines_def)
  next
    case False
    then show ?thesis
      using assms(2) ls p
      by (auto simp: resumeProcessing_def hand_back_def setPendingCode_def delivered_lines_def pending_lines_def
          Let_def split: if_splits)
  qed
qed

lemma processPendingInput_simps [simp]:
  "ci_pending (processPendingInput c) = ci_pending c" "ci_log (processPendingInput c) = ci_log c"
  by (simp_all add: processPendingInput_def Let_def split: option.split)

lemma addPendingInput_log: "addPendingInput env code c = Inr d \<Longrightarrow> ci_log d = ci_log c @ [ItemsChanged]"
  by (auto simp: addPendingInput_def generateUuid_def Let_def elim!: bind_result_elim split: option.splits)

lemma pending_step_conserves:
  assumes "pend_ok c" and "pending_step env c op = Inr d"
  shows "delivered_lines d @ pending_lines d = delivered_lines c @ pending_lines c @ submitted_lines op"
proof (cases op)
  case (Submit code)
  then show ?thesis
    using assms(2) addPendingInput_spec [of env code c] addPendingInput_log [of env code c d]
    by (auto simp: delivered_lines_def pending_lines_def pend_view_def js_split_append split: option.splits)
next
  case (StatusArrives status)
  then show ?thesis
    using assms resumeProcessing_conserves by simp
next
  case RuntimeIdle
  with assms(2) show ?thesis
    by (auto simp: delivered_lines_def pending_lines_def)
next
  case Settle
  with assms(2) show ?thesis
    by (auto simp: finishProcessing_def delivered_lines_def pending_lines_def)
qed


definition plain_env :: console_env where
  "plain_env = \<lparr>en_uuid = (\<lambda>n. nat_string n), en_now = (\<lambda>n. int n),
     en_local = (\<lambda>t. \<lparr>lt_hours = 0, lt_minutes = 0, lt_seconds = 0, lt_milliseconds = 0\<rparr>),
     en_sessionName = js ''R'', en_languageName = js ''R'', en_inputPrompt = js ''>'', en_continuationPrompt = js ''+'',
     en_runtimeState = RSIdle, en_restartOnCrash = True, en_codeEditor = None, en_lookup = (\<lambda>k m. m), en_pseudo = False\<rparr>"


section \<open>Pending input is eventually executed\<close>

text \<open>
  A runtime that answers: the statuses of the fragments that are asked for, as many as there are lines,
  and then the \<open>finally\<close> block.
\<close>

fun answers :: "console_env \<Rightarrow> (jsstring \<Rightarrow> fragment_status) \<Rightarrow> nat \<Rightarrow> console \<Rightarrow> console result" where
  "answers env status 0 c = Inr c"
| "answers env status (Suc k) c =
     (case ci_processing c of
        AwaitingStatus ls \<Rightarrow>
          bind_result (resumeProcessing env (Some (status (js_join [LF] ls))) c) (answers env status k)
      | _ \<Rightarrow> Inr c)"

definition idle_round :: "console_env \<Rightarrow> (jsstring \<Rightarrow> fragment_status) \<Rightarrow> console \<Rightarrow> console result" where
  "idle_round env status c =
     bind_result (answers env status (length (pending_lines c)) (processPendingInput c)) (\<lambda>c. pending_step env c Settle)"

fun idle_rounds :: "console_env \<Rightarrow> (jsstring \<Rightarrow> fragment_status) \<Rightarrow> nat \<Rightarrow> console \<Rightarrow> console result" where
  "idle_rounds env status 0 c = Inr c"
| "idle_rounds env status (Suc n) c = bind_result (idle_round env status c) (idle_rounds env status n)"

text \<open>An answer either finishes the processing, with fewer lines pending, or adds a line to the fragment.\<close>

lemma resumeProcessing_progress:
  assumes "pend_ok c" and "ci_processing c = AwaitingStatus ls" and "ci_pendingState c = PendingProcessing"
    and "resumeProcessing env (Some st) c = Inr d"
  shows "ci_processing d = Finishing \<and> length (pending_lines d) < length (pending_lines c) \<or>
    (\<exists>l. ci_processing d = AwaitingStatus (ls @ [l]) \<and> ci_pendingState d = PendingProcessing \<and>
       pending_lines d = pending_lines c \<and> length ls < length (pending_lines c))"
proof -
  obtain p where p: "ci_pending c = Some p" "prefix ls (js_split LF (pi_code p))" "ls \<noteq> []"
    using resumeProcessing_awaiting [OF assms(1,2)] assms(3) by auto
  show ?thesis
  proof (cases "st = Complete")
    case True
    let ?c = "c\<lparr>ci_items := remove_pending p (ci_items c)\<rparr>"
    have fin: "ci_processing d = Finishing" "ci_log d = ci_log c @ executed_effects env (js_join [LF] ls) ?c"
      using execute_pending_spec [OF prefix_length_le [OF p(2)], of env ?c] assms p True
      by (auto simp: resumeProcessing_def)
    have "js_split LF (js_join [LF] ls) = ls"
      using p(2,3) by (intro split_join_lines) (auto dest: set_mono_prefix)
    then have "delivered_lines d = delivered_lines c @ ls"
      by (simp add: delivered_lines_def fin(2) executed_effects_def)
    then have "length ls + length (pending_lines d) = length (pending_lines c)"
      using arg_cong [where f = length, OF resumeProcessing_conserves [OF assms(1,4)]] by simp
    with fin p(3) show ?thesis
      by (cases ls) auto
  next
    case False
    then show ?thesis
      using assms p by (auto simp: resumeProcessing_def hand_back_def setPendingCode_def pending_lines_def Let_def
          split: if_splits)
  qed
qed

lemma answers_finish:
  assumes "pend_ok c" and "ci_processing c = AwaitingStatus ls" and "ci_pendingState c = PendingProcessing"
    and "length (pending_lines c) < length ls + k"
  shows "\<exists>d. answers env status k c = Inr d \<and> pend_ok d \<and> ci_processing d = Finishing \<and>
    length (pending_lines d) < length (pending_lines c) \<and>
    delivered_lines d @ pending_lines d = delivered_lines c @ pending_lines c"
  using assms
proof (induction k arbitrary: c ls)
  case 0
  obtain p where "ci_pending c = Some p" "prefix ls (js_split LF (pi_code p))"
    using resumeProcessing_awaiting [OF 0(1,2)] 0(3) by auto
  with 0(4) show ?case
    by (auto simp: pending_lines_def dest: prefix_length_le)
next
  case (Suc k)
  obtain d where d: "resumeProcessing env (Some (status (js_join [LF] ls))) c = Inr d" "pend_ok d"
    using resumeProcessing_total [OF Suc.prems(1)] by blast
  note conserved = resumeProcessing_conserves [OF Suc.prems(1) d(1)]
  from resumeProcessing_progress [OF Suc.prems(1-3) d(1)] show ?case
  proof (elim disjE exE conjE)
    assume "ci_processing d = Finishing" "length (pending_lines d) < length (pending_lines c)"
    then show ?thesis
      using Suc.prems(2) d conserved by (cases k) auto
  next
    fix l
    assume l: "ci_processing d = AwaitingStatus (ls @ [l])" "ci_pendingState d = PendingProcessing"
      "pending_lines d = pending_lines c"
    with Suc.IH [OF d(2) l(1,2)] Suc.prems(2,4) d(1) conserved show ?thesis
      by auto
  qed
qed

lemma idle_round_progress:
  assumes "pend_ok c" and "ci_pendingState c = PendingIdle" and "ci_pending c \<noteq> None"
  shows "\<exists>d. idle_round env status c = Inr d \<and> pend_ok d \<and> ci_pendingState d = PendingIdle \<and>
    length (pending_lines d) < length (pending_lines c) \<and>
    delivered_lines d @ pending_lines d = delivered_lines c @ pending_lines c"
proof -
  let ?c = "processPendingInput c"
  obtain p where p: "ci_pending c = Some p"
    using assms(3) by blast
  have "ci_processing ?c = AwaitingStatus [hd (js_split LF (pi_code p))]" "ci_pendingState ?c = PendingProcessing"
    using assms(2) p by (simp_all add: processPendingInput_def)
  moreover have "pending_lines ?c = pending_lines c" "delivered_lines ?c = delivered_lines c"
    by (simp_all add: pending_lines_def delivered_lines_def)
  ultimately obtain d where d: "answers env status (length (pending_lines c)) ?c = Inr d" "ci_processing d = Finishing"
    "length (pending_lines d) < length (pending_lines c)"
    "delivered_lines d @ pending_lines d = delivered_lines c @ pending_lines c"
    using answers_finish [OF pend_ok_processPendingInput [OF assms(1)], of _ "length (pending_lines c)" env status]
    by auto
  then show ?thesis
    by (simp add: idle_round_def pend_ok_finishProcessing)
      (simp add: finishProcessing_def pending_lines_def delivered_lines_def)
qed

lemma idle_round_empty:
  assumes "pend_ok c" and "ci_pendingState c = PendingIdle" and "ci_pending c = None"
  shows "idle_round env status c = Inr c"
proof -
  have "ci_processing c = NotProcessing"
    using assms(1,2) by (simp add: pend_ok_def)
  with assms show ?thesis
    by (simp add: idle_round_def processPendingInput_def pending_lines_def finishProcessing_def)
qed

text \<open>
  C32: Pending input does not wait for ever: when the runtime becomes idle as often as there are pending
  lines, answering each time what it is asked about fragments, whatever the answers, nothing is pending
  any more, and all lines that were have been executed or handed to the code editor, in order.
\<close>

theorem pending_input_drained:
  assumes "pend_ok c" and "ci_pendingState c = PendingIdle"
  shows "\<exists>d. idle_rounds env status (length (pending_lines c)) c = Inr d \<and> ci_pending d = None \<and>
    ci_pendingState d = PendingIdle \<and> delivered_lines d = delivered_lines c @ pending_lines c"
proof -
  have "\<exists>d. idle_rounds env status n c = Inr d \<and> ci_pending d = None \<and> ci_pendingState d = PendingIdle \<and>
      delivered_lines d = delivered_lines c @ pending_lines c"
    if "length (pending_lines c) \<le> n" "pend_ok c" "ci_pendingState c = PendingIdle" for n
    using that
  proof (induction n arbitrary: c)
    case 0
    then show ?case
      by (auto simp: pending_lines_def split: option.splits)
  next
    case (Suc n)
    show ?case
    proof (cases "ci_pending c")
      case None
      then show ?thesis
        using Suc.IH [of c] Suc.prems idle_round_empty [OF Suc.prems(2,3)] by (simp add: pending_lines_def)
    next
      case (Some p)
      then obtain d where "idle_round env status c = Inr d" "pend_ok d" "ci_pendingState d = PendingIdle"
        "length (pending_lines d) < length (pending_lines c)"
        "delivered_lines d @ pending_lines d = delivered_lines c @ pending_lines c"
        using idle_round_progress [OF Suc.prems(2,3)] by blast
      then show ?thesis
        using Suc.IH [of d] Suc.prems(1) by auto
    qed
  qed
  from this [OF order_refl assms] show ?thesis .
qed

theorem pending_input_drained_witness:
  "\<exists>d. idle_rounds plain_env (\<lambda>s. if s = js ''f('' then Incomplete else Complete) (Suc (Suc (Suc 0)))
     ((fields_of_console [])\<lparr>ci_pending := Some \<lparr>pi_id = [], pi_inputPrompt = [],
        pi_code = js ''f('' @ [LF] @ js '')'' @ [LF] @ js ''g'', pi_outputLines = []\<rparr>\<rparr>) = Inr d \<and>
     ci_pending d = None \<and> delivered_lines d = [js ''f('', js '')'', js ''g'']"
  using pending_input_drained [of "(fields_of_console [])\<lparr>ci_pending := Some \<lparr>pi_id = [], pi_inputPrompt = [],
        pi_code = js ''f('' @ [LF] @ js '')'' @ [LF] @ js ''g'', pi_outputLines = []\<rparr>\<rparr>" plain_env
      "\<lambda>s. if s = js ''f('' then Incomplete else Complete"]
  by (simp add: pend_ok_def fields_of_console_def delivered_lines_def pending_lines_def del: idle_rounds.simps
      cong: if_cong) blast

section \<open>Invariants of reachable consoles\<close>

lemma addresses_remove_pending [simp]: "addresses (remove_pending p items) = addresses items"
proof -
  have "remove_pending p items = remove1 (RuntimeItemPendingInput p) items"
  proof (cases "RuntimeItemPendingInput p \<in> set items")
    case True
    then obtain xs ys where "items = xs @ RuntimeItemPendingInput p # ys" "RuntimeItemPendingInput p \<notin> set xs"
      by (metis split_list_first)
    moreover from this have "index_of items (RuntimeItemPendingInput p) = int (length xs)"
      by (induction xs arbitrary: items) (auto simp: Let_def)
    ultimately show ?thesis
      by (simp add: remove_pending_def js_splice_in_range remove1_append)
  next
    case False
    then have "index_of items (RuntimeItemPendingInput p) < 0"
      by (simp add: index_of_neg_iff)
    with False show ?thesis
      by (simp add: remove_pending_def remove1_idem)
  qed
  moreover have "addresses (remove1 (RuntimeItemPendingInput p) items) = addresses items"
    by (induction items) (auto split: option.split)
  ultimately show ?thesis
    by simp
qed

lemma indexed_fields [simp]:
  "indexed (c\<lparr>ci_ticks := n\<rparr>) = indexed c" "indexed (c\<lparr>ci_pending := p\<rparr>) = indexed c"
  "indexed (c\<lparr>ci_processing := pr\<rparr>) = indexed c" "indexed (c\<lparr>ci_pendingState := st\<rparr>) = indexed c"
  "indexed (c\<lparr>ci_items := remove_pending q (ci_items c)\<rparr>) = indexed c"
  by (simp_all add: indexed_def)

lemma indexed_addPendingInput: "indexed c \<Longrightarrow> addPendingInput env code c = Inr d \<Longrightarrow> indexed d"
  by (auto simp: addPendingInput_def generateUuid_def Let_def elim!: bind_result_elim split: option.splits
      intro!: indexed_addRuntimeItem_plain)

lemma indexed_clearPendingInput: "indexed c \<Longrightarrow> indexed (clearPendingInput c)"
  by (auto simp: clearPendingInput_def indexed_def Let_def split: option.split)

lemma indexed_processPendingInput: "indexed c \<Longrightarrow> indexed (processPendingInput c)"
  by (auto simp: processPendingInput_def Let_def split: option.split)

lemma indexed_show_fragment: "indexed c \<Longrightarrow> fresh_fragment env c \<Longrightarrow> indexed (show_fragment env x c)"
  using indexed_push_new [of "c\<lparr>ci_ticks := Suc (ci_ticks c)\<rparr>" "fragment_id (en_uuid env (ci_ticks c))"]
  by (simp add: show_fragment_def push_index_commute [symmetric] fresh_fragment_def Let_def)

lemma indexed_execute_pending:
  assumes "indexed c" and "fresh_fragment env c" and "length ls \<le> length L" and "execute_pending env ls L c = Inr d"
  shows "indexed d"
  using assms(3)
proof (rule execute_pending_unfold [of ls L env c])
  fix x p
  assume "execute_pending env ls L c =
      Inr ((foldl (\<lambda>c e. announce e c)
        (let c1 = show_fragment env x c
         in if length ls < length L
            then push_runtime_item (RuntimeItemPendingInput p) (c1\<lparr>ci_ticks := Suc (ci_ticks c1), ci_pending := Some p\<rparr>)
            else c1\<lparr>ci_pending := None\<rparr>)
        (executed_effects env (js_join [LF] ls) c))\<lparr>ci_processing := Finishing\<rparr>)"
  then show ?thesis
    using indexed_show_fragment [OF assms(1,2), of x] assms(4)
    by (auto simp: executed_effects_def Let_def intro!: indexed_push_plain split: if_splits)
qed

lemma indexed_resumeProcessing:
  assumes "indexed c" and "fresh_fragment env c" and "pend_ok c" and "resumeProcessing env status c = Inr d"
  shows "indexed d"
proof (cases "\<exists>ls. ci_processing c = AwaitingStatus ls \<and> status = Some Complete \<and> ci_pendingState c \<noteq> PendingInterrupted")
  case True
  then obtain ls where ls: "ci_processing c = AwaitingStatus ls" "status = Some Complete"
    "ci_pendingState c \<noteq> PendingInterrupted"
    by blast
  obtain p where p: "ci_pending c = Some p" "prefix ls (js_split LF (pi_code p))"
    using resumeProcessing_awaiting [OF assms(3) ls(1,3)] by blast
  then have "execute_pending env ls (js_split LF (pi_code p)) (c\<lparr>ci_items := remove_pending p (ci_items c)\<rparr>) = Inr d"
    using assms(4) ls by (simp add: resumeProcessing_def)
  then show ?thesis
    using assms(1,2) p(2) by (intro indexed_execute_pending [where d = d]) (auto simp: fresh_fragment_def prefix_length_le)
next
  case False
  with assms(1,4) show ?thesis
    by (auto simp: resumeProcessing_def hand_back_def setPendingCode_def Let_def
        split: processing.splits if_splits option.splits)
qed

lemma clearRestartItems_core: "same_core c (clearRestartItems c)"
proof -
  have "addresses (filter (\<lambda>item. \<not> is_restart_button item) (ci_items c)) = addresses (ci_items c)"
    by (rule addresses_filter) (auto simp: is_restart_button_def split: runtime_item.splits)
  then show ?thesis
    by (simp add: clearRestartItems_def same_core_def announce_def Let_def)
qed

text \<open>The handler of a change of the runtime's state: a trace, then possibly processing, then the rest.\<close>

lemma onDidChangeRuntimeState_parts:
  assumes "onDidChangeRuntimeState env s c = Inr d"
  obtains c1 c2 where "trace_if_enabled env (js ''onDidChangeRuntimeState ('' @ runtime_state_name s @ js '')'') c = Inr c1"
    and "same_core (if s = RSIdle \<or> s = RSReady then processPendingInput c1 else c1) c2"
    and "d = c2\<lparr>ci_runtimeState := s\<rparr> \<or> (\<exists>c3. setState env CSReady c2 = Inr c3 \<and> d = c3\<lparr>ci_runtimeState := s\<rparr>)"
proof -
  from assms obtain c1 where 1: "trace_if_enabled env (js ''onDidChangeRuntimeState ('' @ runtime_state_name s @ js '')'') c = Inr c1"
    and d: "(let c = (if s = RSIdle \<or> s = RSReady then processPendingInput c1 else c1);
         c = (if s = RSReady then clearRestartItems c else c);
         c = (if (s = RSExited \<or> s = RSUninitialized) \<and>
                 (ci_runtimeState c = RSStarting \<or> ci_runtimeState c = RSInitializing)
              then c\<lparr>ci_exitTimers := Suc (ci_exitTimers c)\<rparr> else c)
     in bind_result
          (if ci_state c = CSOffline \<and> (s = RSBusy \<or> s = RSIdle) then setState env CSReady c
           else Inr c) (\<lambda>c. Inr (c\<lparr>ci_runtimeState := s\<rparr>))) = Inr d"
    unfolding onDidChangeRuntimeState_def by (elim bind_result_elim)
  let ?p = "if s = RSIdle \<or> s = RSReady then processPendingInput c1 else c1"
  let ?q = "if s = RSReady then clearRestartItems ?p else ?p"
  let ?r = "if (s = RSExited \<or> s = RSUninitialized) \<and> (ci_runtimeState ?q = RSStarting \<or> ci_runtimeState ?q = RSInitializing)
    then ?q\<lparr>ci_exitTimers := Suc (ci_exitTimers ?q)\<rparr> else ?q"
  have "same_core ?p ?q"
    using clearRestartItems_core by (auto simp: same_core_def)
  then have "same_core ?p ?r"
    by (auto simp: same_core_def)
  moreover have "d = ?r\<lparr>ci_runtimeState := s\<rparr> \<or> (\<exists>c3. setState env CSReady ?r = Inr c3 \<and> d = c3\<lparr>ci_runtimeState := s\<rparr>)"
    using d unfolding Let_def by (auto split: if_splits elim!: bind_result_elim)
  ultimately show ?thesis
    using that 1 by blast
qed

lemma resumeEnqueue_parts:
  assumes "resumeEnqueue env k status c = Inr d"
  shows "same_core c d \<or> (\<exists>c' code mode b. same_core c c' \<and> doExecuteCode env code mode b c' = Inr d)"
  using assms unfolding resumeEnqueue_def Let_def
  by (auto simp: same_core_def setPendingCode_def announce_def split: if_splits)

lemma interrupt_parts:
  assumes "interrupt env code c = Inr d"
  shows "\<exists>c'. same_core (clearPendingInput (announce SessionInterrupt c)) c' \<and>
    (d = c' \<or> (\<exists>i x. addOrUpdateUpdateRuntimeItemActivity i (ItemInput x) c' = Inr d))"
proof -
  let ?c = "setPendingCode None (clearPendingInput (announce SessionInterrupt c))"
  have "same_core (clearPendingInput (announce SessionInterrupt c)) ?c"
    "same_core (clearPendingInput (announce SessionInterrupt c)) (?c\<lparr>ci_ticks := n\<rparr>)" for n
    by (simp_all add: setPendingCode_def announce_def same_core_def)
  with assms show ?thesis
    unfolding interrupt_def Let_def generateUuid_def prod.case
    by (auto split: if_splits elim!: bind_result_elim)
qed

lemma enqueueCode_parts:
  assumes "enqueueCode env code allow mode b c = Inr d"
  shows "addPendingInput env code c = Inr d \<or> same_core c d"
  using assms by (auto simp: enqueueCode_def same_core_def Let_def split: if_splits)

text \<open>The operations that do not deal with pending input respect every frame.\<close>

fun quiet_op :: "console_op \<Rightarrow> bool" where
  "quiet_op (OpEnqueue _ _ _ _) = False"
| "quiet_op (OpResumeProcessing _) = False"
| "quiet_op OpFinishProcessing = False"
| "quiet_op (OpInterrupt _) = False"
| "quiet_op (OpEvent _ _ (RuntimeStateChanged _)) = False"
| "quiet_op _ = True"

context console_frame
begin

lemma R_emit: "R c (announce e c)"
  by (rule R_core [OF same_core_emit])

lemma R_resumeEnqueue: "resumeEnqueue env k status c = Inr d \<Longrightarrow> R c d"
  by (drule resumeEnqueue_parts) (blast intro: R_core R_after R_doExecuteCode)

lemma R_executeCode: "executeCode env code mode b c = Inr d \<Longrightarrow> R c d"
  unfolding executeCode_def setPendingCode_def by (rule R_after [OF same_core_emit R_doExecuteCode])

lemma R_pasteText: "R c (pasteText t c)"
  unfolding pasteText_def focusInput_def by (rule R_trans [OF R_emit R_emit])

lemma R_toggleWordWrap: "R c (toggleWordWrap c)"
  by (rule R_core) (simp add: toggleWordWrap_def same_core_def announce_def)

lemma R_readStream: "R c (readStream a k c)"
  unfolding readStream_def by (intro R_update_items keeps_update_nth item_ok_read)

lemma R_event:
  "(if (sid, mode) \<in> set (ci_handlers c) then handle_event env mode ev c else Inr c) = Inr d \<Longrightarrow>
   (\<And>s. ev \<noteq> RuntimeStateChanged s) \<Longrightarrow> R c d"
  by (auto simp: R_refl split: if_splits intro: R_handle_event)

lemmas R_operations = R_executeCode R_resumeEnqueue R_replyToPrompt R_interruptPrompt R_clear
  R_toggleTrace R_toggleWordWrap R_pasteText R_onExitTimer R_setState R_readStream R_emit

lemma R_session_step:
  assumes "console_step env op c = Inr d" and "quiet_op op" and "\<And>sid mode. op \<noteq> OpSetSession sid mode"
  shows "R c d"
  using assms
proof (cases op)
  case (OpEvent sid mode ev)
  with assms show ?thesis
    using R_event [of sid mode c env ev d] by (cases ev) auto
qed (auto simp: selectAll_def clearInputHistory_def focusInput_def intro: R_operations)

end

context session_frame
begin

lemma R_quiet_step: "console_step env op c = Inr d \<Longrightarrow> quiet_op op \<Longrightarrow> R c d"
  using R_session_step [of env op c d] R_setRuntimeSession by (cases op) auto

end

lemma pend_ok_runtimeState:
  assumes "pend_ok c" and "onDidChangeRuntimeState env s c = Inr d"
  shows "pend_ok d"
  using assms(2)
proof (rule onDidChangeRuntimeState_parts)
  fix c1 c2
  assume "trace_if_enabled env (js ''onDidChangeRuntimeState ('' @ runtime_state_name s @ js '')'') c = Inr c1"
    and c2: "same_core (if s = RSIdle \<or> s = RSReady then processPendingInput c1 else c1) c2"
    and d: "d = c2\<lparr>ci_runtimeState := s\<rparr> \<or> (\<exists>c3. setState env CSReady c2 = Inr c3 \<and> d = c3\<lparr>ci_runtimeState := s\<rparr>)"
  then have "pend_ok c1"
    using assms(1) pend.R_trace_if_enabled pend_ok_cong by blast
  then have "pend_ok c2"
    using pend_ok_cong [OF pend_view_core [OF c2]] pend_ok_processPendingInput by simp
  moreover have "pend_view d = pend_view c2"
    using d pend.R_setState by (auto simp: pend_view_def)
  ultimately show "pend_ok d"
    using pend_ok_cong by blast
qed

lemma indexed_runtimeState:
  assumes "indexed c" and "onDidChangeRuntimeState env s c = Inr d"
  shows "indexed d"
  using assms(2)
proof (rule onDidChangeRuntimeState_parts)
  fix c1 c2
  assume "trace_if_enabled env (js ''onDidChangeRuntimeState ('' @ runtime_state_name s @ js '')'') c = Inr c1"
    and c2: "same_core (if s = RSIdle \<or> s = RSReady then processPendingInput c1 else c1) c2"
    and d: "d = c2\<lparr>ci_runtimeState := s\<rparr> \<or> (\<exists>c3. setState env CSReady c2 = Inr c3 \<and> d = c3\<lparr>ci_runtimeState := s\<rparr>)"
  then have "indexed c1"
    using assms(1) idx.R_trace_if_enabled by blast
  then have "indexed c2"
    using idx.R_core [OF c2] indexed_processPendingInput by simp
  with d show "indexed d"
    using idx.R_setState [of env CSReady c2] by (auto simp: indexed_def)
qed

lemma pend_ok_interrupt:
  assumes "pend_ok c" and "interrupt env code c = Inr d"
  shows "pend_ok d"
proof -
  have "pend_ok (clearPendingInput (announce SessionInterrupt c))"
    using assms(1) pend_ok_cong [of "announce SessionInterrupt c" c] by (intro pend_ok_clearPendingInput) simp
  then show ?thesis
    using interrupt_parts [OF assms(2)] pend_view_core pend_view_addOrUpdate pend_ok_cong by metis
qed

lemma indexed_interrupt:
  assumes "indexed c" and "interrupt env code c = Inr d"
  shows "indexed d"
proof -
  have "indexed (clearPendingInput (announce SessionInterrupt c))"
    using assms(1) by (intro indexed_clearPendingInput) simp
  then show ?thesis
    using interrupt_parts [OF assms(2)] idx.R_core indexed_addOrUpdate by blast
qed

lemma pend_ok_step:
  assumes "pend_ok c" and "console_step env op c = Inr d"
  shows "pend_ok d"
proof (cases "quiet_op op")
  case True
  then show ?thesis
    using pend.R_quiet_step [OF assms(2)] pend_ok_cong assms(1) by blast
next
  case False
  with assms show ?thesis
    by (cases op rule: quiet_op.cases)
      (auto simp: pend_ok_finishProcessing split: if_splits
        intro: pend_ok_addPendingInput pend_ok_interrupt pend_ok_runtimeState pend_ok_resumeProcessing
        dest!: enqueueCode_parts pend_view_core pend_ok_cong)
qed

lemma indexed_step:
  assumes "indexed c" and "pend_ok c" and "fresh_fragment env c" and "console_step env op c = Inr d"
  shows "indexed d"
proof (cases "quiet_op op")
  case True
  then show ?thesis
    using idx.R_quiet_step [OF assms(4)] assms(1) by blast
next
  case False
  with assms show ?thesis
    by (cases op rule: quiet_op.cases)
      (auto simp: finishProcessing_def split: if_splits
        intro: indexed_addPendingInput indexed_interrupt indexed_runtimeState indexed_resumeProcessing
        dest!: enqueueCode_parts idx.R_core)
qed

lemma created_ok:
  assumes "new_PositronConsoleInstance env sid mode = Inr c"
  shows "pend_ok c" and "indexed c"
proof -
  have "pend_view c = pend_view (fields_of_console sid)" "indexed (fields_of_console sid) \<longrightarrow> indexed c"
    using assms pend.R_attachRuntime idx.R_attachRuntime unfolding new_PositronConsoleInstance_def by blast+
  then show "pend_ok c" "indexed c"
    using indexed_empty [of sid] pend_ok_cong [of c "fields_of_console sid"]
    by (auto simp: pend_ok_def fields_of_console_def)
qed

lemma reached_ok: "console_reached c \<Longrightarrow> pend_ok c \<and> indexed c"
  by (induction rule: console_reached.induct) (auto intro: created_ok pend_ok_step indexed_step)

end
