(* ===== verification/Console_Safety.thy ===== *)
theory Console_Safety
  imports Console_Steps
begin

text \<open>
  What holds of every console that can be reached: no operation throws, the index of activities agrees
  with the items, and a detached runtime leaves no input executing. The only exceptions the model has come
  from plots whose SVG text is not well-formed UTF-16.
\<close>

section \<open>No operation throws\<close>

definition returns :: "'a result \<Rightarrow> bool" where
  "returns r \<longleftrightarrow> (\<exists>x. r = Inr x)"

lemma returns_Inr [simp]: "returns (Inr x)"
  by (simp add: returns_def)

lemma returns_bind: "returns r \<Longrightarrow> (\<And>x. r = Inr x \<Longrightarrow> returns (f x)) \<Longrightarrow> returns (bind_result r f)"
  by (auto simp: returns_def)

lemma returns_constructors [simp]:
  "returns (processOutput_static out)"
  "returns (new_RuntimeItemTrace i n t)"
  "returns (new_RuntimeItemStarting i t m)"
  "returns (new_RuntimeItemStarted i t)"
  "returns (new_RuntimeItemReconnected i t)"
  "returns (new_RuntimeItemOffline i t)"
  "returns (new_RuntimeItemExited i r t)"
  "returns (new_RuntimeItemStartup i t iv lv)"
  "returns (new_RuntimeItemStartupFailure i t t')"
  "returns (new_ActivityItemInput st i p d ip cp t)"
  "returns (new_ActivityItemPrompt i p d t pw)"
  using static_total [of out] static_total [of t] static_total [of "trace_text t"] static_total [of t']
  by (auto simp: returns_def trace_lines_def new_RuntimeItemTrace_def new_RuntimeItemStarting_def new_RuntimeItemStarted_def
      new_RuntimeItemReconnected_def new_RuntimeItemOffline_def new_RuntimeItemExited_def new_RuntimeItemStartup_def
      new_RuntimeItemStartupFailure_def new_ActivityItemInput_def new_ActivityItemPrompt_def)

lemma returns_error_message [simp]: "returns (new_ActivityItemErrorMessage i p d n t tb)"
  unfolding new_ActivityItemErrorMessage_def Let_def by (auto intro!: returns_bind)

lemma returns_plain_output_lines [simp]: "returns (plain_output_lines data)"
  by (simp add: plain_output_lines_def split: option.split)

lemma returns_output_message [simp]: "returns (new_ActivityItemOutputMessage i p d data)"
  unfolding new_ActivityItemOutputMessage_def by (auto intro!: returns_bind)

lemma returns_trace [simp]: "returns (trace_if_enabled env t c)"
  unfolding trace_if_enabled_def addRuntimeItemTrace_def generateUuid_def by (auto intro!: returns_bind)

lemma returns_add_new_item: "(\<And>i. returns (mk i)) \<Longrightarrow> returns (add_new_item env mk c)"
  unfolding add_new_item_def generateUuid_def by (auto intro!: returns_bind)

lemma returns_started_loop: "returns (started_loop env i c)"
proof (induction i arbitrary: c)
  case (Suc i)
  then show ?case
    by (auto simp: generateUuid_def split: runtime_item.split intro!: returns_bind)
qed simp

lemma returns_setState [simp]: "returns (setState env s c)"
  unfolding setState_def addRuntimeItemTrace_def generateUuid_def
  by (auto intro!: returns_bind returns_started_loop returns_add_new_item split: console_state.split)

lemma returns_emitStartRuntimeItems [simp]: "returns (emitStartRuntimeItems env m c)"
  unfolding emitStartRuntimeItems_def Let_def by (auto intro!: returns_bind returns_add_new_item)

lemma returns_attachRuntime [simp]: "returns (attachRuntime env m c)"
  unfolding attachRuntime_def by (auto intro!: returns_bind)

lemma returns_detachRuntime [simp]: "returns (detachRuntime env c)"
  unfolding detachRuntime_def by (auto intro!: returns_bind)

lemma returns_addPendingInput [simp]: "returns (addPendingInput env code c)"
  using addPendingInput_spec [of env code c] by (auto simp: returns_def)

lemma streams_ok_frame: "streams_ok c \<Longrightarrow> ci_store d = ci_store c \<Longrightarrow> streams_ok d"
  by (simp add: streams_ok_def)

interpretation strm: session_frame "\<lambda>c d. streams_ok c \<longrightarrow> streams_ok d"
proof unfold_locales
  show "streams_ok c \<longrightarrow> streams_ok d" if "addOrUpdateUpdateRuntimeItemActivity i it c = Inr d" "item_fresh it" for i it c d
    using addOrUpdate_total [of c it i] that by auto
  show "streams_ok c \<longrightarrow> streams_ok (update_items f a c)" if "keeps_items f" for f a c
    using that by (auto simp: streams_ok_def update_items_def keeps_items_def)
  show "streams_ok c \<longrightarrow> streams_ok (clearConsole c)" for c
    by (simp add: clearConsole_def) (simp add: streams_ok_def)
qed (auto simp: same_core_def streams_ok_addRuntimeItem intro: streams_ok_frame)

lemma returns_addOrUpdate: "streams_ok c \<Longrightarrow> item_fresh it \<Longrightarrow> returns (addOrUpdateUpdateRuntimeItemActivity i it c)"
  using addOrUpdate_total [of c it i] by (auto simp: returns_def)

lemma returns_traced:
  "streams_ok c \<Longrightarrow> (\<And>c'. streams_ok c' \<Longrightarrow> returns (f c')) \<Longrightarrow> returns (bind_result (trace_if_enabled env t c) f)"
  by (intro returns_bind) (auto dest: strm.R_trace_if_enabled)

lemma returns_doExecuteCode: "streams_ok c \<Longrightarrow> returns (doExecuteCode env code m b c)"
  unfolding doExecuteCode_def Let_def generateUuid_def prod.case
  by (auto intro!: returns_bind returns_addOrUpdate intro: streams_ok_frame)

lemma returns_interrupt: "streams_ok c \<Longrightarrow> returns (interrupt env code c)"
proof -
  assume "streams_ok c"
  then have "streams_ok (setPendingCode None (clearPendingInput (announce SessionInterrupt c)))"
    by (rule streams_ok_frame) (simp add: setPendingCode_def announce_def clearPendingInput_def Let_def split: option.split)
  then show ?thesis
    unfolding interrupt_def Let_def generateUuid_def prod.case
    by (auto intro!: returns_bind returns_addOrUpdate intro: streams_ok_frame)
qed

lemma returns_resumeEnqueue: "streams_ok c \<Longrightarrow> returns (resumeEnqueue env k st c)"
  unfolding resumeEnqueue_def Let_def setPendingCode_def
  by (auto intro!: returns_doExecuteCode intro: streams_ok_frame simp: announce_def)

lemma returns_resumeProcessing: "pend_ok c \<Longrightarrow> returns (resumeProcessing env st c)"
  using resumeProcessing_total [of c env st] by (auto simp: returns_def)

lemma returns_onExitTimer: "returns (onExitTimer env c)"
  unfolding onExitTimer_def Let_def by (auto intro!: returns_bind returns_add_new_item)

lemma returns_onDidEndSession: "returns (onDidEndSession env exit c)"
  unfolding onDidEndSession_def Let_def by (auto intro!: returns_bind returns_add_new_item)

lemma returns_onDidChangeRuntimeState: "returns (onDidChangeRuntimeState env s c)"
  unfolding onDidChangeRuntimeState_def Let_def by (auto intro!: returns_bind)

lemma returns_onDidCompleteStartup: "returns (onDidCompleteStartup env m banner iv lv c)"
  unfolding onDidCompleteStartup_def by (auto intro!: returns_bind returns_add_new_item)

lemma returns_onDidEncounterStartupFailure: "returns (onDidEncounterStartupFailure env m details c)"
  unfolding onDidEncounterStartupFailure_def by (auto intro!: returns_bind returns_add_new_item)

text \<open>Well-formed UTF-16: surrogates come in pairs. Such a text can be encoded in a URI.\<close>

fun well_formed :: "jsstring \<Rightarrow> bool" where
  "well_formed [] = True"
| "well_formed (c # cs) =
     (if is_high_surrogate c then (case cs of [] \<Rightarrow> False | d # ds \<Rightarrow> is_low_surrogate d \<and> well_formed ds)
      else \<not> is_low_surrogate c \<and> well_formed cs)"

lemma uri_unreserved_no_surrogate: "uri_unreserved c \<Longrightarrow> \<not> is_high_surrogate c \<and> \<not> is_low_surrogate c"
  by (auto simp: uri_unreserved_def is_high_surrogate_def is_low_surrogate_def is_letter_def is_digit_def)

lemma returns_encodeURIComponent: "well_formed s \<Longrightarrow> returns (encodeURIComponent s)"
proof (induction s rule: encodeURIComponent.induct)
  case (2 c cs)
  consider "uri_unreserved c" | "\<not> uri_unreserved c" "\<not> is_high_surrogate c" "\<not> is_low_surrogate c"
    | d ds where "\<not> uri_unreserved c" "is_high_surrogate c" "\<not> is_low_surrogate c" "cs = d # ds" "is_low_surrogate d" "well_formed ds"
    using "2.prems" by (cases cs) (auto simp: is_high_surrogate_def is_low_surrogate_def split: if_splits)
  then show ?case
  proof cases
    case 1
    with 2 uri_unreserved_no_surrogate [of c] show ?thesis
      by (auto intro!: returns_bind)
  next
    case c: 2
    with 2 show ?thesis
      by (auto intro!: returns_bind)
  next
    case 3
    with "2.IH"(2) show ?thesis
      by (auto intro!: returns_bind)
  qed
qed simp

lemma returns_plot:
  assumes "\<forall>(k, v) \<in> set data. well_formed v"
  shows "returns (new_ActivityItemOutputPlot i p d data)"
proof -
  have "well_formed (template (map_of data k))" for k
    using assms by (auto simp: template_def is_high_surrogate_def is_low_surrogate_def split: option.splits dest: map_of_SomeD)
  then show ?thesis
    unfolding new_ActivityItemOutputPlot_def Let_def
    by (auto intro!: returns_bind returns_encodeURIComponent)
qed

definition event_well_formed :: "session_event \<Rightarrow> bool" where
  "event_well_formed ev =
     (case ev of MessageOutput msg kind data \<Rightarrow> list_all (\<lambda>(k, v). well_formed v) data | _ \<Rightarrow> True)"

lemma returns_handle_event:
  assumes "streams_ok c" and "event_well_formed ev"
  shows "returns (handle_event env mode ev c)"
proof (cases ev)
  case (MessageInput msg code)
  then show ?thesis
    using assms(2) unfolding MessageInput handle_event.simps onMessageInput_def
    by - (rule returns_traced [OF assms(1)], auto intro!: returns_bind returns_addOrUpdate)
next
  case (MessagePrompt msg prompt password)
  then show ?thesis
    using assms(2) unfolding MessagePrompt handle_event.simps onMessagePrompt_def Let_def
    by - (rule returns_traced [OF assms(1)], auto intro!: returns_bind returns_addOrUpdate intro: streams_ok_frame)
next
  case (MessageOutput msg kind data)
  then show ?thesis
    using assms(2) unfolding MessageOutput handle_event.simps onMessageOutput_def
    by - (rule returns_traced [OF assms(1)], auto simp: event_well_formed_def list_all_iff intro!: returns_bind returns_addOrUpdate returns_plot)
next
  case (MessageStream msg name out)
  then show ?thesis
    using assms(2) unfolding MessageStream handle_event.simps onMessageStream_def Let_def
    by - (rule returns_traced [OF assms(1)], auto intro!: returns_addOrUpdate)
next
  case (MessageError msg name message traceback)
  then show ?thesis
    using assms(2) unfolding MessageError handle_event.simps onMessageError_def
    by - (rule returns_traced [OF assms(1)], auto intro!: returns_bind returns_addOrUpdate)
next
  case (MessageState msg state)
  then show ?thesis
    using assms(2) unfolding MessageState handle_event.simps onMessageState_def Let_def
    by - (rule returns_traced [OF assms(1)], auto intro!: returns_bind split: online_state.split)
qed (simp_all add: returns_onDidChangeRuntimeState returns_onDidCompleteStartup returns_onDidEncounterStartupFailure
    returns_onDidEndSession)

definition op_well_formed :: "console_op \<Rightarrow> bool" where
  "op_well_formed op = (case op of OpEvent sid mode ev \<Rightarrow> event_well_formed ev | _ \<Rightarrow> True)"

lemma returns_console_step:
  assumes "streams_ok c" and "pend_ok c" and "op_well_formed op"
  shows "returns (console_step env op c)"
  using assms
  by (cases op)
    (auto simp: op_well_formed_def executeCode_def setPendingCode_def enqueueCode_def setRuntimeSession_def toggleTrace_def
      announce_def Let_def intro!: returns_doExecuteCode returns_bind returns_interrupt returns_resumeEnqueue
      returns_resumeProcessing returns_onExitTimer returns_handle_event intro: streams_ok_frame)

section \<open>Reachable consoles\<close>

lemma streams_ok_addPendingInput:
  assumes "streams_ok c" and "addPendingInput env code c = Inr d"
  shows "streams_ok d"
proof -
  obtain p c1 where "d = addRuntimeItem (RuntimeItemPendingInput p) c1" "ci_store c1 = ci_store c"
    using assms(2) by (auto simp: addPendingInput_def generateUuid_def Let_def elim!: bind_result_elim split: option.splits)
  then show ?thesis
    using assms(1) streams_ok_addRuntimeItem streams_ok_frame by blast
qed

lemma streams_ok_execute_pending:
  assumes "streams_ok c" and "length ls \<le> length L" and "execute_pending env ls L c = Inr d"
  shows "streams_ok d"
  using assms(2)
proof (rule execute_pending_unfold [of ls L env c])
  fix x p
  assume "execute_pending env ls L c =
      Inr ((foldl (\<lambda>c e. announce e c)
        (let c1 = show_fragment env x c
         in if length ls < length L
            then push_runtime_item (RuntimeItemPendingInput p) (c1\<lparr>ci_ticks := Suc (ci_ticks c1), ci_pending := Some p\<rparr>)
            else c1\<lparr>ci_pending := None\<rparr>)
        (executed_effects env (js_join [LF] ls) c))\<lparr>ci_processing := Finishing\<rparr>)"
  then have "ci_store d = ci_store (show_fragment env x c)"
    using assms(3) by (auto simp: executed_effects_def announce_def push_runtime_item_def Let_def)
  moreover have "streams_ok (show_fragment env x c)"
    using assms(1) by (auto simp: show_fragment_def Let_def intro!: streams_ok_alloc intro: streams_ok_frame)
  ultimately show ?thesis
    by (rule streams_ok_frame [rotated])
qed

lemma streams_ok_resumeProcessing:
  assumes "streams_ok c" and "pend_ok c" and "resumeProcessing env status c = Inr d"
  shows "streams_ok d"
proof (cases "\<exists>ls. ci_processing c = AwaitingStatus ls \<and> status = Some Complete \<and> ci_pendingState c \<noteq> PendingInterrupted")
  case True
  then obtain ls where ls: "ci_processing c = AwaitingStatus ls" "status = Some Complete"
    "ci_pendingState c \<noteq> PendingInterrupted"
    by blast
  obtain p where p: "ci_pending c = Some p" "prefix ls (js_split LF (pi_code p))"
    using resumeProcessing_awaiting [OF assms(2) ls(1,3)] by blast
  then have "execute_pending env ls (js_split LF (pi_code p)) (c\<lparr>ci_items := remove_pending p (ci_items c)\<rparr>) = Inr d"
    using assms(3) ls by (simp add: resumeProcessing_def)
  then show ?thesis
    using assms(1) p(2) by (intro streams_ok_execute_pending [where d = d]) (auto simp: prefix_length_le intro: streams_ok_frame)
next
  case False
  then have "ci_store d = ci_store c"
    using assms(3) by (auto simp: resumeProcessing_def hand_back_def setPendingCode_def announce_def Let_def
        split: processing.splits if_splits option.splits)
  then show ?thesis
    using assms(1) streams_ok_frame by blast
qed

lemma streams_ok_interrupt:
  assumes "streams_ok c" and "interrupt env code c = Inr d"
  shows "streams_ok d"
proof -
  have "streams_ok (clearPendingInput (announce SessionInterrupt c))"
    using assms(1) by (rule streams_ok_frame) (simp add: clearPendingInput_def announce_def Let_def split: option.split)
  then show ?thesis
    using interrupt_parts [OF assms(2)] strm.R_core strm.R_add_activity [OF _ item_simps(1)] by blast
qed

lemma streams_ok_runtimeState:
  assumes "streams_ok c" and "onDidChangeRuntimeState env s c = Inr d"
  shows "streams_ok d"
  using assms(2)
proof (rule onDidChangeRuntimeState_parts)
  fix c1 c2
  assume "trace_if_enabled env (js ''onDidChangeRuntimeState ('' @ runtime_state_name s @ js '')'') c = Inr c1"
    and c2: "same_core (if s = RSIdle \<or> s = RSReady then processPendingInput c1 else c1) c2"
    and d: "d = c2\<lparr>ci_runtimeState := s\<rparr> \<or> (\<exists>c3. setState env CSReady c2 = Inr c3 \<and> d = c3\<lparr>ci_runtimeState := s\<rparr>)"
  then have "streams_ok c1"
    using assms(1) strm.R_trace_if_enabled by blast
  then have "streams_ok (if s = RSIdle \<or> s = RSReady then processPendingInput c1 else c1)"
    by (rule streams_ok_frame) (simp add: processPendingInput_def Let_def split: option.split)
  then have "streams_ok c2"
    using strm.R_core [OF c2] by simp
  with d show "streams_ok d"
    using strm.R_setState [of env CSReady c2] by (auto intro: streams_ok_frame)
qed

lemma streams_ok_step:
  assumes "streams_ok c" and "pend_ok c" and "console_step env op c = Inr d"
  shows "streams_ok d"
proof (cases "quiet_op op")
  case True
  then show ?thesis
    using strm.R_quiet_step [OF assms(3)] assms(1) by blast
next
  case False
  with assms show ?thesis
    by (cases op rule: quiet_op.cases)
      (auto simp: finishProcessing_def split: if_splits
        intro: streams_ok_addPendingInput streams_ok_interrupt streams_ok_runtimeState streams_ok_resumeProcessing
          streams_ok_frame
        dest!: enqueueCode_parts strm.R_core)
qed

lemma reached_streams_ok: "console_reached c \<Longrightarrow> streams_ok c"
proof (induction rule: console_reached.induct)
  case (created env sid mode c)
  then have "streams_ok (fields_of_console sid) \<longrightarrow> streams_ok c"
    unfolding new_PositronConsoleInstance_def by (rule strm.R_attachRuntime)
  then show ?case
    by (simp add: streams_ok_def fields_of_console_def)
next
  case (stepped c env op d)
  then show ?case
    using reached_ok streams_ok_step by blast
qed

lemma created_returns: "\<exists>c. new_PositronConsoleInstance env sid mode = Inr c"
  using returns_attachRuntime [of env mode "fields_of_console sid"]
  by (simp add: new_PositronConsoleInstance_def returns_def)



text \<open>
  C33: In a console that has been reached, the array of items and the index of activities agree: no activity
  is shown twice, and looking up an identifier finds an activity exactly when the activity with that
  identifier is shown. So output for a parent goes to the activity shown for it, and nothing is added to an
  activity that was trimmed or cleared away.
\<close>

theorem console_index_consistent:
  assumes "console_reached c"
  shows "distinct (addresses (ci_items c)) \<and>
    (\<forall>i a. map_of (ci_activities c) i = Some a \<longleftrightarrow> RuntimeItemActivity a \<in> set (ci_items c) \<and> ra_id (ci_store c a) = i)"
  using reached_ok [OF assms] by (simp add: indexed_def set_addresses)

theorem console_index_consistent_witness:
  "\<exists>c. new_PositronConsoleInstance plain_env (js ''s'') AttachStarting = Inr c \<and> distinct (addresses (ci_items c)) \<and>
    (\<forall>i a. map_of (ci_activities c) i = Some a \<longleftrightarrow> RuntimeItemActivity a \<in> set (ci_items c) \<and> ra_id (ci_store c a) = i)"
proof -
  obtain c where c: "new_PositronConsoleInstance plain_env (js ''s'') AttachStarting = Inr c"
    using created_returns by blast
  then show ?thesis
    using console_index_consistent [OF created [OF c]] by blast
qed

section \<open>Detaching\<close>

lemma complete_input_idem [simp]: "complete_input (complete_input x) = complete_input x"
  by (cases x) (auto simp: set_input_state_def)

lemma complete_input_state: "complete_input x = ItemInput i \<Longrightarrow> in_state i = Completed"
  by (cases x) (auto simp: set_input_state_def split: if_splits)

lemma fold_complete_items:
  "ra_items (ci_store (fold (update_items (map complete_input)) as c) a) =
     (if a \<in> set as then map complete_input (ra_items (ci_store c a)) else ra_items (ci_store c a))"
  by (induction "as" arbitrary: c) (auto simp: update_items_def)

lemma fold_update_simps [simp]:
  "ci_items (fold (update_items f) as c) = ci_items c" "ci_activities (fold (update_items f) as c) = ci_activities c"
  by (induction "as" arbitrary: c) simp_all

lemma trace_attached: "trace_if_enabled env t c = Inr d \<Longrightarrow> ci_runtimeAttached d = ci_runtimeAttached c"
  by (auto simp: trace_if_enabled_def addRuntimeItemTrace_def generateUuid_def new_RuntimeItemTrace_def addRuntimeItem_def
      announce_def trimItems_def push_runtime_item_def Let_def split: if_splits prod.splits elim!: bind_result_elim)

text \<open>
  After the runtime of a console has been detached, no input that is shown is marked as executing: all
  of them are completed, whatever the runtime had told about them.
\<close>

theorem detached_inputs_completed:
  assumes "console_reached c" and "ci_runtimeAttached c" and "detachRuntime env c = Inr d"
    and "RuntimeItemActivity a \<in> set (ci_items d)" and "ItemInput i \<in> set (ra_items (ci_store d a))"
  shows "in_state i = Completed"
proof -
  from assms(3) obtain c1 where c1: "trace_if_enabled env (js ''Detach session '' @ en_sessionName env) c = Inr c1"
    and d: "d = (if ci_runtimeAttached c1
          then (let c = announce (RuntimeAttached False) (c1\<lparr>ci_runtimeAttached := False\<rparr>);
                    c = fold (update_items (map complete_input)) (map snd (ci_activities c)) c
                in c\<lparr>ci_handlers := []\<rparr>)
          else announce Warned c1)"
    unfolding detachRuntime_def by (elim bind_result_elim) simp
  let ?c2 = "announce (RuntimeAttached False) (c1\<lparr>ci_runtimeAttached := False\<rparr>)"
  have "ci_runtimeAttached c1"
    using trace_attached [OF c1] assms(2) by simp
  then have d: "d = (fold (update_items (map complete_input)) (map snd (ci_activities ?c2)) ?c2)\<lparr>ci_handlers := []\<rparr>"
    using d by (simp add: Let_def)
  have "indexed c1"
    using idx.R_trace_if_enabled [OF c1] reached_ok [OF assms(1)] by simp
  moreover have "a \<in> set (addresses (ci_items c1))"
    using assms(4) by (simp add: d set_addresses announce_def)
  ultimately have "map_of (ci_activities c1) (ra_id (ci_store c1 a)) = Some a"
    by (simp add: indexed_def)
  then have "a \<in> set (map snd (ci_activities ?c2))"
    by (auto simp: announce_def dest!: map_of_SomeD intro: image_eqI [rotated])
  then have "ra_items (ci_store d a) = map complete_input (ra_items (ci_store ?c2 a))"
    using fold_complete_items [of "map snd (ci_activities ?c2)" ?c2 a] by (simp add: d)
  with assms(5) show ?thesis
    using complete_input_state by auto
qed

definition is_input :: "activity_item \<Rightarrow> bool" where
  "is_input item = (case item of ItemInput _ \<Rightarrow> True | _ \<Rightarrow> False)"

lemma is_input_iff: "is_input x \<longleftrightarrow> (\<exists>i. x = ItemInput i)"
  by (cases x) (simp_all add: is_input_def)

abbreviation demo_input :: console_op where
  "demo_input \<equiv> OpEvent (js ''s'') AttachStarting
     (MessageInput \<lparr>lm_id = js ''i'', lm_parent_id = js ''p'', lm_when = 0\<rparr> (js ''x''))"

theorem detached_inputs_completed_witness:
  "\<exists>c0 c d i. new_PositronConsoleInstance plain_env (js ''s'') AttachStarting = Inr c0 \<and>
     console_step plain_env demo_input c0 = Inr c \<and> detachRuntime plain_env c = Inr d \<and>
     ItemInput i \<in> set (ra_items (ci_store d 0)) \<and> in_state i = Completed"
proof -
  have "map_sum id (\<lambda>(c0, c, d). (fresh_fragment plain_env c0, ci_runtimeAttached c, 0 \<in> set (addresses (ci_items d)),
        list_ex is_input (ra_items (ci_store d 0))))
      (bind_result (new_PositronConsoleInstance plain_env (js ''s'') AttachStarting) (\<lambda>c0.
       bind_result (console_step plain_env demo_input c0) (\<lambda>c.
       bind_result (detachRuntime plain_env c) (\<lambda>d. Inr (c0, c, d))))) = Inr (True, True, True, True)"
    by code_simp
  then obtain c0 c d where run: "new_PositronConsoleInstance plain_env (js ''s'') AttachStarting = Inr c0"
    "console_step plain_env demo_input c0 = Inr c" "detachRuntime plain_env c = Inr d"
    and facts: "fresh_fragment plain_env c0" "ci_runtimeAttached c" "0 \<in> set (addresses (ci_items d))"
    "list_ex is_input (ra_items (ci_store d 0))"
    by (auto simp: bind_result_def split: sum.splits)
  from facts(4) obtain i where i: "ItemInput i \<in> set (ra_items (ci_store d 0))"
    by (auto simp: list_ex_iff is_input_iff)
  have "console_reached c"
    using created [OF run(1)] facts(1) run(2) by (rule stepped)
  then have "in_state i = Completed"
    using detached_inputs_completed [OF _ facts(2) run(3), of 0 i] facts(3) i by (simp add: set_addresses)
  with run i show ?thesis
    by blast
qed

section \<open>Where the code does not do what its comments say\<close>

text \<open>
  Detaching completes every input, also one that the user cancelled and that never executed, although its
  comment only speaks of clearing the executing state.
\<close>

theorem detaching_completes_cancelled:
  "complete_input (ItemInput (i\<lparr>in_state := Cancelled\<rparr>)) = ItemInput (i\<lparr>in_state := Completed\<rparr>)"
  by (simp add: set_input_state_def)

text \<open>
  Clearing the console leaves the pending input in place but not shown, although the comments at its uses
  say that it is always among the items: it is executed later without having been visible.
\<close>

theorem cleared_pending_input_not_shown:
  "\<exists>c p. console_reached c \<and> ci_pending c = Some p \<and> RuntimeItemPendingInput p \<notin> set (ci_items c)"
proof -
  let ?busy = "plain_env\<lparr>en_runtimeState := RSBusy\<rparr>"
  have "map_sum id (\<lambda>(c0, c). (fresh_fragment ?busy c0, fresh_fragment ?busy c, ci_pending c \<noteq> None, \<not> ci_promptActive c))
      (bind_result (new_PositronConsoleInstance plain_env (js ''s'') AttachStarting) (\<lambda>c0.
       bind_result (console_step ?busy (OpEnqueue (js ''x'') False None None) c0) (\<lambda>c. Inr (c0, c)))) =
      Inr (True, True, True, True)"
    by code_simp
  then obtain c0 c p where run: "new_PositronConsoleInstance plain_env (js ''s'') AttachStarting = Inr c0"
    "console_step ?busy (OpEnqueue (js ''x'') False None None) c0 = Inr c"
    and facts: "fresh_fragment ?busy c0" "fresh_fragment ?busy c" "ci_pending c = Some p" "\<not> ci_promptActive c"
    by (auto simp: bind_result_def split: sum.splits)
  have "console_reached c"
    using created [OF run(1)] facts(1) run(2) by (rule stepped)
  then have "console_reached (clearConsole c)"
    using facts(2) by (rule stepped) (rule console_step.simps)
  moreover have "ci_pending (clearConsole c) = Some p" "ci_items (clearConsole c) = []"
    using facts(3,4) by (simp_all add: clearConsole_def announce_def)
  ultimately show ?thesis
    by auto
qed

text \<open>
  The end of a session leaves a prompt that was active active: the console cannot be cleared until the
  stale prompt is answered.
\<close>

lemma prompt_kept:
  "ci_promptActive (addRuntimeItem item c) = ci_promptActive c"
  "add_new_item env mk c = Inr d \<Longrightarrow> ci_promptActive d = ci_promptActive c"
  "trace_if_enabled env t c = Inr d \<Longrightarrow> ci_promptActive d = ci_promptActive c"
  "ci_promptActive (fold (update_items f) as c) = ci_promptActive c"
proof -
  show 1: "ci_promptActive (addRuntimeItem item c) = ci_promptActive c" for item c
    by (simp add: addRuntimeItem_def announce_def trimItems_def push_runtime_item_def index_activity_def Let_def
        split: prod.split option.split)
  show "add_new_item env mk c = Inr d \<Longrightarrow> ci_promptActive d = ci_promptActive c"
    by (auto simp: add_new_item_def generateUuid_def 1 elim!: bind_result_elim)
  show "trace_if_enabled env t c = Inr d \<Longrightarrow> ci_promptActive d = ci_promptActive c"
    by (auto simp: trace_if_enabled_def addRuntimeItemTrace_def generateUuid_def 1 split: if_splits elim!: bind_result_elim)
  show "ci_promptActive (fold (update_items f) as c) = ci_promptActive c"
    by (induction "as" arbitrary: c) (simp_all add: update_items_def)
qed

theorem ended_session_blocks_clearing:
  assumes "ci_promptActive c" and "onDidEndSession env exit c = Inr d"
  shows "clearConsole d = announce Notified d"
proof -
  have "ci_promptActive y = ci_promptActive x" if "detachRuntime env x = Inr y" for x y
    using that by (auto simp: detachRuntime_def announce_def prompt_kept Let_def split: if_splits elim!: bind_result_elim)
  then have "ci_promptActive d"
    using assms unfolding onDidEndSession_def Let_def
    by (auto simp: prompt_kept split: if_splits elim!: bind_result_elim)
  then show ?thesis
    by (simp add: clearConsole_def)
qed

text \<open>Milliseconds of two digits are shown with three, so the times of traces are not aligned.\<close>

theorem two_digit_milliseconds:
  "length (toFourDigits 7) = 4" "length (toFourDigits 45) = 3" "length (toFourDigits 345) = 4"
  by (simp_all add: toFourDigits_def nat_string.simps)

text \<open>A placeholder with two digits shows the argument that its first digit selects.\<close>

theorem two_digit_placeholder:
  "nls_format False (js ''{10}'') (map (\<lambda>c. [c]) [97..107]) = js ''b''"
  by code_simp

end
