(* ===== verification/Console_Service.thy ===== *)
theory Console_Service
  imports Console_Safety
begin

text \<open>
  The class \<open>PositronConsoleService\<close> of \<open>positronConsoleService.ts\<close>: it owns the console instances, finds them by
  session and by language, routes the events of the runtime session service to them and executes code in the console
  of a language. The two maps and the active instance share the instances, which are therefore held in a list, the
  store, and named by their position in it. A JavaScript \<open>Map\<close> is an association list in the order of insertion.

  The service of runtime sessions, the startup service and the view service are parameters: what they answer are
  arguments, what is asked of them is recorded. An asynchronous method is cut at its awaits; the executions that wait
  are kept in the state, so that anything may happen in between. Assigning the foreground session makes the session
  service fire an event, which is a step of its own.
\<close>

section \<open>State\<close>

datatype session_mode = ConsoleMode | NotebookMode | BackgroundMode

datatype start_mode = StartModeStarting | StartModeRestarting | StartModeReconnecting | StartModeSwitching

record runtime_session =
  rs_sessionId :: jsstring
  rs_runtimeId :: jsstring
  rs_languageId :: jsstring
  rs_sessionMode :: session_mode

datatype service_effect = InstanceStarted nat | ActiveInstanceChanged "nat option" | ConsoleWidthChanged int
  | LoggedError | LoggedTrace | OpenedView | StartNewRuntimeSession jsstring | SetForegroundSession jsstring
  | ExecuteReturned bool

record execution =
  ex_languageId :: jsstring
  ex_code :: jsstring
  ex_focus :: bool
  ex_allowIncomplete :: bool
  ex_mode :: "execution_mode option"
  ex_errorBehavior :: "error_behavior option"
  ex_viewOpened :: bool

record console_service =
  sv_instances :: "console list"
  sv_widths :: "int list"
  sv_byLanguageId :: "(jsstring \<times> nat) list"
  sv_bySessionId :: "(jsstring \<times> nat) list"
  sv_active :: "nat option"
  sv_widthTimer :: "int option"
  sv_executions :: "execution list"
  sv_log :: "service_effect list"

definition new_service :: console_service where
  "new_service = \<lparr>sv_instances = [], sv_widths = [], sv_byLanguageId = [], sv_bySessionId = [], sv_active = None,
     sv_widthTimer = None, sv_executions = [], sv_log = []\<rparr>"

definition emit :: "service_effect \<Rightarrow> console_service \<Rightarrow> console_service" where
  "emit e sv = sv\<lparr>sv_log := sv_log sv @ [e]\<rparr>"

definition on_instance :: "nat \<Rightarrow> (console \<Rightarrow> console result) \<Rightarrow> console_service \<Rightarrow> console_service result" where
  "on_instance a f sv =
     bind_result (f (sv_instances sv ! a)) (\<lambda>c. Inr (sv\<lparr>sv_instances := (sv_instances sv)[a := c]\<rparr>))"

section \<open>Starting instances\<close>

definition startPositronConsoleInstance ::
  "console_env \<Rightarrow> runtime_session \<Rightarrow> attach_mode \<Rightarrow> bool \<Rightarrow> console_service \<Rightarrow> console_service result" where
  "startPositronConsoleInstance env session attachMode activate sv =
     bind_result (new_PositronConsoleInstance env (rs_sessionId session) attachMode) (\<lambda>c.
       let a = length (sv_instances sv);
           sv = emit (InstanceStarted a) (sv\<lparr>sv_instances := sv_instances sv @ [c], sv_widths := sv_widths sv @ [80],
             sv_byLanguageId := AList.update (rs_languageId session) a (sv_byLanguageId sv),
             sv_bySessionId := AList.update (rs_sessionId session) a (sv_bySessionId sv)\<rparr>)
       in Inr (if activate then emit (ActiveInstanceChanged (Some a)) (sv\<lparr>sv_active := Some a\<rparr>) else sv))"

text \<open>The loop of the constructor over the active sessions; \<open>first\<close> is the flag it keeps.\<close>

fun start_sessions ::
  "(runtime_session \<Rightarrow> console_env) \<Rightarrow> jsstring option \<Rightarrow> bool \<Rightarrow> runtime_session list \<Rightarrow> console_service \<Rightarrow> console_service result" where
  "start_sessions env_of foreground first [] sv = Inr sv"
| "start_sessions env_of foreground first (session # sessions) sv =
     (if rs_sessionMode session = ConsoleMode
      then let activate = (foreground = Some (rs_sessionId session) \<or> (first \<and> foreground = None))
        in bind_result (startPositronConsoleInstance (env_of session) session AttachConnected activate sv)
             (start_sessions env_of foreground False sessions)
      else start_sessions env_of foreground first sessions sv)"

definition new_PositronConsoleService ::
  "(runtime_session \<Rightarrow> console_env) \<Rightarrow> jsstring option \<Rightarrow> runtime_session list \<Rightarrow> console_service result" where
  "new_PositronConsoleService env_of foreground activeSessions = start_sessions env_of foreground True activeSessions new_service"

section \<open>Events of the runtime session service\<close>

fun attach_mode_of :: "start_mode \<Rightarrow> attach_mode" where
  "attach_mode_of StartModeStarting = AttachStarting"
| "attach_mode_of StartModeRestarting = AttachRestarting"
| "attach_mode_of StartModeReconnecting = AttachReconnecting"
| "attach_mode_of StartModeSwitching = AttachSwitching"

definition onWillStartSession ::
  "console_env \<Rightarrow> runtime_session \<Rightarrow> start_mode \<Rightarrow> bool \<Rightarrow> console_service \<Rightarrow> console_service result" where
  "onWillStartSession env session startMode activate sv =
     (if rs_sessionMode session \<noteq> ConsoleMode then Inr sv
      else let attachMode = attach_mode_of startMode
        in case map_of (sv_bySessionId sv) (rs_sessionId session) of
             Some a \<Rightarrow> on_instance a (setRuntimeSession env (rs_sessionId session) attachMode) sv
           | None \<Rightarrow>
               (case map_of (sv_byLanguageId sv) (rs_languageId session) of
                  Some a \<Rightarrow>
                    if ci_state (sv_instances sv ! a) = CSExited
                    then bind_result (on_instance a (setRuntimeSession env (rs_sessionId session) attachMode)
                           (sv\<lparr>sv_bySessionId := AList.delete (ci_session (sv_instances sv ! a)) (sv_bySessionId sv)\<rparr>)) (\<lambda>sv.
                         Inr (sv\<lparr>sv_bySessionId := AList.update (rs_sessionId session) a (sv_bySessionId sv)\<rparr>))
                    else startPositronConsoleInstance env session attachMode activate sv
                | None \<Rightarrow> startPositronConsoleInstance env session attachMode activate sv))"

text \<open>The instances are looked up by the identifier of the runtime.\<close>

definition onDidStartRuntime :: "console_env \<Rightarrow> runtime_session \<Rightarrow> console_service \<Rightarrow> console_service result" where
  "onDidStartRuntime env session sv =
     (case map_of (sv_bySessionId sv) (rs_runtimeId session) of
        Some a \<Rightarrow> on_instance a (setState env CSReady) sv
      | None \<Rightarrow> Inr sv)"

definition onDidFailStartRuntime :: "console_env \<Rightarrow> runtime_session \<Rightarrow> console_service \<Rightarrow> console_service result" where
  "onDidFailStartRuntime env session sv =
     (case map_of (sv_bySessionId sv) (rs_runtimeId session) of
        Some a \<Rightarrow> on_instance a (setState env CSExited) sv
      | None \<Rightarrow> Inr sv)"

fun console_state_of :: "runtime_state \<Rightarrow> console_state option" where
  "console_state_of RSStarting = Some CSStarting"
| "console_state_of RSReady = Some CSReady"
| "console_state_of RSOffline = Some CSOffline"
| "console_state_of RSExiting = Some CSExiting"
| "console_state_of RSExited = Some CSExited"
| "console_state_of _ = None"

definition service_onDidChangeRuntimeState ::
  "console_env \<Rightarrow> jsstring \<Rightarrow> runtime_state \<Rightarrow> console_service \<Rightarrow> console_service result" where
  "service_onDidChangeRuntimeState env sid new_state sv =
     (case map_of (sv_bySessionId sv) sid of
        None \<Rightarrow> Inr sv
      | Some a \<Rightarrow> (case console_state_of new_state of None \<Rightarrow> Inr sv | Some s \<Rightarrow> on_instance a (setState env s) sv))"

definition setActivePositronConsoleInstance :: "nat option \<Rightarrow> console_service \<Rightarrow> console_service" where
  "setActivePositronConsoleInstance a sv = emit (ActiveInstanceChanged a) (sv\<lparr>sv_active := a\<rparr>)"

definition onDidChangeForegroundSession :: "jsstring option \<Rightarrow> console_service \<Rightarrow> console_service" where
  "onDidChangeForegroundSession session sv =
     (case session of
        None \<Rightarrow> setActivePositronConsoleInstance None sv
      | Some sid \<Rightarrow>
          (case map_of (sv_bySessionId sv) sid of
             Some a \<Rightarrow> setActivePositronConsoleInstance (Some a) sv
           | None \<Rightarrow> emit LoggedError sv))"

section \<open>Methods\<close>

definition positronConsoleInstances :: "console_service \<Rightarrow> nat list" where
  "positronConsoleInstances sv = map snd (sv_bySessionId sv)"

definition service_executeCode ::
  "jsstring \<Rightarrow> jsstring \<Rightarrow> bool \<Rightarrow> bool \<Rightarrow> execution_mode option \<Rightarrow> error_behavior option \<Rightarrow> console_service \<Rightarrow> console_service" where
  "service_executeCode languageId code focus allowIncomplete mode errorBehavior sv =
     emit OpenedView (sv\<lparr>sv_executions := sv_executions sv @ [\<lparr>ex_languageId = languageId, ex_code = code, ex_focus = focus,
       ex_allowIncomplete = allowIncomplete, ex_mode = mode, ex_errorBehavior = errorBehavior, ex_viewOpened = False\<rparr>]\<rparr>)"

text \<open>
  The value of the promise is recorded when it is certain: \<open>true\<close> is returned once the enqueueing, whose continuation is an
  operation of the console, has completed.
\<close>

definition finish_execution :: "console_env \<Rightarrow> execution \<Rightarrow> console_service \<Rightarrow> console_service result" where
  "finish_execution env ex sv =
     (case map_of (sv_byLanguageId sv) (ex_languageId ex) of
        None \<Rightarrow> Inr (emit (ExecuteReturned False) sv)
      | Some a \<Rightarrow>
          let sv = (if sv_active sv \<noteq> Some a
                then emit (SetForegroundSession (ci_session (sv_instances sv ! a))) (setActivePositronConsoleInstance (Some a) sv)
                else sv)
          in bind_result (on_instance a (\<lambda>c. enqueueCode env (ex_code ex) (ex_allowIncomplete ex) (ex_mode ex) (ex_errorBehavior ex)
                 (if ex_focus ex then focusInput c else c)) sv) (\<lambda>sv.
               Inr (emit (ExecuteReturned True) sv)))"

text \<open>
  Execution \<open>k\<close> of those that wait goes on: after the view has opened, with the active sessions and the preferred
  runtime of the language, and after a runtime that it started has started.
\<close>

definition resume_execution ::
  "console_env \<Rightarrow> runtime_session list \<Rightarrow> (jsstring \<Rightarrow> jsstring option) \<Rightarrow> nat \<Rightarrow> console_service \<Rightarrow> console_service result" where
  "resume_execution env activeSessions preferred k sv =
     (if k < length (sv_executions sv)
      then let ex = sv_executions sv ! k;
               others = take k (sv_executions sv) @ drop (Suc k) (sv_executions sv)
        in if \<not> ex_viewOpened ex \<and> filter (\<lambda>s. rs_languageId s = ex_languageId ex) activeSessions = []
           then (case preferred (ex_languageId ex) of
                   None \<Rightarrow> Inr (emit (ExecuteReturned False) (sv\<lparr>sv_executions := others\<rparr>))
                 | Some runtimeId \<Rightarrow> Inr (emit (StartNewRuntimeSession runtimeId) (emit LoggedTrace
                     (sv\<lparr>sv_executions := (sv_executions sv)[k := ex\<lparr>ex_viewOpened := True\<rparr>]\<rparr>))))
           else finish_execution env ex (sv\<lparr>sv_executions := others\<rparr>)
      else Inr sv)"

definition getConsoleWidth :: "console_service \<Rightarrow> int result" where
  "getConsoleWidth sv = (case sv_active sv of Some a \<Rightarrow> Inr (sv_widths sv ! a) | None \<Rightarrow> Inl Error)"

definition onConsoleWidthChange :: "int \<Rightarrow> console_service \<Rightarrow> console_service" where
  "onConsoleWidthChange newWidth sv = sv\<lparr>sv_widthTimer := Some newWidth\<rparr>"

definition setWidthInChars :: "nat \<Rightarrow> int \<Rightarrow> console_service \<Rightarrow> console_service" where
  "setWidthInChars a newWidth sv =
     (if sv_widths sv ! a \<noteq> newWidth
      then onConsoleWidthChange newWidth (sv\<lparr>sv_widths := (sv_widths sv)[a := newWidth]\<rparr>) else sv)"

definition onWidthTimer :: "console_service \<Rightarrow> console_service" where
  "onWidthTimer sv =
     (case sv_widthTimer sv of None \<Rightarrow> sv | Some w \<Rightarrow> emit (ConsoleWidthChanged w) (sv\<lparr>sv_widthTimer := None\<rparr>))"

section \<open>Steps\<close>

datatype service_op =
    WillStartSession runtime_session start_mode bool
  | DidStartRuntime runtime_session
  | DidFailStartRuntime runtime_session
  | RuntimeStateEvent jsstring runtime_state
  | ForegroundSessionEvent "jsstring option"
  | ServiceExecute jsstring jsstring bool bool "execution_mode option" "error_behavior option"
  | ResumeExecution "runtime_session list" "jsstring \<Rightarrow> jsstring option" nat
  | WidthChange nat int
  | WidthTimer
  | InstanceOp nat console_op

fun service_step :: "console_env \<Rightarrow> service_op \<Rightarrow> console_service \<Rightarrow> console_service result" where
  "service_step env (WillStartSession session mode activate) sv = onWillStartSession env session mode activate sv"
| "service_step env (DidStartRuntime session) sv = onDidStartRuntime env session sv"
| "service_step env (DidFailStartRuntime session) sv = onDidFailStartRuntime env session sv"
| "service_step env (RuntimeStateEvent sid state) sv = service_onDidChangeRuntimeState env sid state sv"
| "service_step env (ForegroundSessionEvent session) sv = Inr (onDidChangeForegroundSession session sv)"
| "service_step env (ServiceExecute lang code focus allow mode b) sv = Inr (service_executeCode lang code focus allow mode b sv)"
| "service_step env (ResumeExecution sessions preferred k) sv = resume_execution env sessions preferred k sv"
| "service_step env (WidthChange a w) sv = Inr (setWidthInChars a w sv)"
| "service_step env WidthTimer sv = Inr (onWidthTimer sv)"
| "service_step env (InstanceOp a op) sv = on_instance a (console_step env op) sv"

text \<open>
  Only the service gives a console another session; the consoles that operations of their own are called on exist.
\<close>

fun service_op_ok :: "service_op \<Rightarrow> console_service \<Rightarrow> bool" where
  "service_op_ok (InstanceOp a op) sv \<longleftrightarrow> a < length (sv_instances sv) \<and> op_well_formed op \<and>
     (case op of OpSetSession sid mode \<Rightarrow> False | _ \<Rightarrow> True)"
| "service_op_ok (WidthChange a w) sv \<longleftrightarrow> a < length (sv_instances sv)"
| "service_op_ok _ sv \<longleftrightarrow> True"

definition fresh_fragments :: "console_env \<Rightarrow> console_service \<Rightarrow> bool" where
  "fresh_fragments env sv \<longleftrightarrow> list_all (fresh_fragment env) (sv_instances sv)"

inductive service_reached :: "console_service \<Rightarrow> bool" where
  service_created: "distinct (map rs_sessionId sessions) \<Longrightarrow> new_PositronConsoleService env_of foreground sessions = Inr sv \<Longrightarrow>
    service_reached sv"
| service_stepped: "service_reached sv \<Longrightarrow> fresh_fragments env sv \<Longrightarrow> service_op_ok op sv \<Longrightarrow>
    service_step env op sv = Inr sv' \<Longrightarrow> service_reached sv'"

section \<open>The session of a console\<close>

text \<open>Nothing but the service changes the session of a console.\<close>

lemma session_simps [simp]:
  "ci_session (announce e c) = ci_session c" "ci_session (trimItems c) = ci_session c"
  "ci_session (push_runtime_item item c) = ci_session c" "ci_session (index_activity i a c) = ci_session c"
  "ci_session (alloc_activity r c) = ci_session c" "ci_session (update_items f a c) = ci_session c"
  "ci_session (clearConsole c) = ci_session c" "ci_session (processPendingInput c) = ci_session c"
  by (simp_all add: announce_def trimItems_def push_runtime_item_def index_activity_def alloc_activity_def update_items_def
      clearConsole_def processPendingInput_def Let_def split: prod.split option.split)

lemma session_addRuntimeItem [simp]: "ci_session (addRuntimeItem item c) = ci_session c"
  by (simp add: addRuntimeItem_def Let_def split: option.split)

interpretation sess: console_frame "\<lambda>c d. ci_session d = ci_session c"
  by unfold_locales
    (auto simp: same_core_def addOrUpdateUpdateRuntimeItemActivity_def Let_def split: option.splits elim!: bind_result_elim)

lemma session_addPendingInput: "addPendingInput env code c = Inr d \<Longrightarrow> ci_session d = ci_session c"
  by (auto simp: addPendingInput_def generateUuid_def Let_def split: option.splits elim!: bind_result_elim)

lemma session_enqueueCode: "enqueueCode env code allow mode b c = Inr d \<Longrightarrow> ci_session d = ci_session c"
  by (drule enqueueCode_parts) (auto simp: session_addPendingInput sess.R_core)

lemma session_resumeProcessing: "resumeProcessing env status c = Inr d \<Longrightarrow> ci_session d = ci_session c"
  by (auto simp: resumeProcessing_def execute_pending_def hand_back_def setPendingCode_def generateUuid_def Let_def
      split: processing.splits option.splits if_splits elim!: bind_result_elim)

lemma session_interrupt: "interrupt env code c = Inr d \<Longrightarrow> ci_session d = ci_session c"
proof (drule interrupt_parts, elim exE conjE disjE)
  have "ci_session (clearPendingInput (announce SessionInterrupt c)) = ci_session c"
    by (simp add: clearPendingInput_def Let_def split: option.split)
  then show "ci_session d = ci_session c" if "same_core (clearPendingInput (announce SessionInterrupt c)) c'" "d = c'" for c'
    using sess.R_core [OF that(1)] that(2) by simp
  show "ci_session d = ci_session c" if "same_core (clearPendingInput (announce SessionInterrupt c)) c'"
    "addOrUpdateUpdateRuntimeItemActivity i (ItemInput x) c' = Inr d" for c' i x
    using sess.R_core [OF that(1)] sess.R_add_activity [OF that(2) item_simps(1)] \<open>ci_session (clearPendingInput _) = _\<close> by simp
qed

lemma session_runtimeState: "onDidChangeRuntimeState env s c = Inr d \<Longrightarrow> ci_session d = ci_session c"
  by (erule onDidChangeRuntimeState_parts)
    (auto dest!: sess.R_trace_if_enabled sess.R_core sess.R_setState split: if_splits)

lemma session_step:
  assumes "console_step env op c = Inr d" and "\<And>sid mode. op \<noteq> OpSetSession sid mode"
  shows "ci_session d = ci_session c"
proof (cases "quiet_op op")
  case True
  then show ?thesis
    using sess.R_session_step [OF assms(1) True assms(2)] by simp
next
  case False
  with assms show ?thesis
    by (cases op rule: quiet_op.cases)
      (auto simp: finishProcessing_def session_enqueueCode session_resumeProcessing session_interrupt session_runtimeState
        split: if_splits)
qed

lemma session_set: "setRuntimeSession env sid mode c = Inr d \<Longrightarrow> ci_session d = sid"
  by (auto simp: setRuntimeSession_def split: if_splits dest!: sess.R_attachRuntime sess.R_emitStartRuntimeItems)

lemma session_new: "new_PositronConsoleInstance env sid mode = Inr c \<Longrightarrow> ci_session c = sid"
  unfolding new_PositronConsoleInstance_def by (drule sess.R_attachRuntime) (simp add: fields_of_console_def)

section \<open>The index of sessions\<close>

text \<open>The map from sessions to instances against the list of the sessions that the instances have.\<close>

definition sessions_ok :: "jsstring list \<Rightarrow> (jsstring \<times> nat) list \<Rightarrow> bool" where
  "sessions_ok ss idx \<longleftrightarrow> distinct (map fst idx) \<and> (\<forall>a < length ss. (ss ! a, a) \<in> set idx) \<and>
     (\<forall>(s, a) \<in> set idx. a < length ss \<and> ss ! a = s)"

lemma sessions_ok_map_of: "sessions_ok ss idx \<Longrightarrow> map_of idx s = Some a \<longleftrightarrow> a < length ss \<and> ss ! a = s"
  by (fastforce simp: sessions_ok_def dest: map_of_SomeD intro: map_of_is_SomeI)

lemma sessions_ok_absent: "sessions_ok ss idx \<Longrightarrow> map_of idx s = None \<longleftrightarrow> s \<notin> set ss"
  using sessions_ok_map_of [of ss idx s] by (cases "map_of idx s") (auto simp: in_set_conv_nth)

lemma sessions_okI:
  assumes "distinct (map fst idx)" and "\<And>s a. map_of idx s = Some a \<longleftrightarrow> a < length ss \<and> ss ! a = s"
  shows "sessions_ok ss idx"
  using assms(1) assms(2) [THEN iffD1] assms(2) [THEN iffD2]
  by (auto simp: sessions_ok_def dest: map_of_SomeD intro: map_of_is_SomeI)

lemma sessions_ok_distinct: "sessions_ok ss idx \<Longrightarrow> a < length ss \<Longrightarrow> b < length ss \<Longrightarrow> ss ! a = ss ! b \<Longrightarrow> a = b"
  using sessions_ok_map_of [of ss idx] by (metis option.inject)

lemma sessions_started:
  assumes "sessions_ok ss idx" and "map_of idx s = None"
  shows "sessions_ok (ss @ [s]) (AList.update s (length ss) idx)"
proof (rule sessions_okI)
  show "distinct (map fst (AList.update s (length ss) idx))"
    using assms(1) by (simp add: sessions_ok_def distinct_update)
  show "map_of (AList.update s (length ss) idx) t = Some a \<longleftrightarrow> a < length (ss @ [s]) \<and> (ss @ [s]) ! a = t" for t a
    using sessions_ok_map_of [OF assms(1)] sessions_ok_absent [OF assms(1)] assms(2)
    by (auto simp: update_conv' nth_append in_set_conv_nth)
qed

lemma sessions_moved:
  assumes "sessions_ok ss idx" and "map_of idx s = None" and "a < length ss"
  shows "sessions_ok (ss[a := s]) (AList.update s a (AList.delete (ss ! a) idx))"
proof (rule sessions_okI)
  show "distinct (map fst (AList.update s a (AList.delete (ss ! a) idx)))"
    using assms(1) by (simp add: sessions_ok_def distinct_update distinct_delete)
  show "map_of (AList.update s a (AList.delete (ss ! a) idx)) t = Some b \<longleftrightarrow> b < length (ss[a := s]) \<and> ss[a := s] ! b = t" for t b
    using sessions_ok_map_of [OF assms(1)] sessions_ok_absent [OF assms(1)] sessions_ok_distinct [OF assms(1), of a b] assms(2,3)
    by (auto simp: update_conv' delete_conv' nth_list_update in_set_conv_nth)
qed

definition service_ok :: "console_service \<Rightarrow> bool" where
  "service_ok sv \<longleftrightarrow> length (sv_widths sv) = length (sv_instances sv) \<and> (\<forall>c \<in> set (sv_instances sv). console_reached c) \<and>
     sessions_ok (map ci_session (sv_instances sv)) (sv_bySessionId sv) \<and>
     (\<forall>(l, a) \<in> set (sv_byLanguageId sv). a < length (sv_instances sv)) \<and>
     (\<forall>a. sv_active sv = Some a \<longrightarrow> a < length (sv_instances sv))"

lemma service_ok_frame [simp]:
  "service_ok (emit e sv) \<longleftrightarrow> service_ok sv" "service_ok (sv\<lparr>sv_executions := xs\<rparr>) \<longleftrightarrow> service_ok sv"
  "service_ok (sv\<lparr>sv_widthTimer := t\<rparr>) \<longleftrightarrow> service_ok sv"
  by (simp_all add: service_ok_def emit_def)

lemma emit_simps [simp]:
  "sv_instances (emit e sv) = sv_instances sv" "sv_bySessionId (emit e sv) = sv_bySessionId sv"
  "sv_byLanguageId (emit e sv) = sv_byLanguageId sv" "sv_active (emit e sv) = sv_active sv"
  "sv_widths (emit e sv) = sv_widths sv" "(emit e sv)\<lparr>sv_active := x\<rparr> = emit e (sv\<lparr>sv_active := x\<rparr>)"
  by (simp_all add: emit_def)

definition service_keeps :: "console_service result \<Rightarrow> bool" where
  "service_keeps r \<longleftrightarrow> (\<exists>sv. r = Inr sv \<and> service_ok sv)"

lemma service_keeps_Inr [simp]: "service_keeps (Inr sv) \<longleftrightarrow> service_ok sv"
  by (simp add: service_keeps_def)

text \<open>One operation of one console.\<close>

definition console_keeps :: "console \<Rightarrow> console result \<Rightarrow> jsstring \<Rightarrow> bool" where
  "console_keeps c r sid \<longleftrightarrow> (\<exists>d. r = Inr d \<and> console_reached d \<and> ci_session d = sid)"

lemma console_keeps_step:
  assumes "console_reached c" and "fresh_fragment env c" and "op_well_formed op" and "\<And>sid mode. op \<noteq> OpSetSession sid mode"
  shows "console_keeps c (console_step env op c) (ci_session c)"
proof -
  obtain d where d: "console_step env op c = Inr d"
    using returns_console_step [OF reached_streams_ok [OF assms(1)] _ assms(3), of env] reached_ok [OF assms(1)]
    by (auto simp: returns_def)
  with assms show ?thesis
    using stepped [OF assms(1,2) d] session_step [OF d assms(4)] by (simp add: console_keeps_def)
qed

lemma console_keeps_setState:
  "console_reached c \<Longrightarrow> fresh_fragment env c \<Longrightarrow> console_keeps c (setState env s c) (ci_session c)"
  using console_keeps_step [of c env "OpSetState s"] by (simp add: op_well_formed_def)

lemma console_keeps_enqueue:
  assumes "console_reached c" and "fresh_fragment env c"
  shows "console_keeps c (enqueueCode env code allow mode b (if focus then focusInput c else c)) (ci_session c)"
proof -
  let ?c = "if focus then focusInput c else c"
  have "console_reached ?c" "ci_session ?c = ci_session c"
    using stepped [OF assms, of OpFocusInput "focusInput c"] assms(1) by (auto simp: focusInput_def)
  moreover have "fresh_fragment env ?c"
    using assms(2) by (simp add: fresh_fragment_def focusInput_def announce_def)
  ultimately show ?thesis
    using console_keeps_step [of ?c env "OpEnqueue code allow mode b"] by (simp add: op_well_formed_def console_keeps_def)
qed

lemma console_keeps_session:
  assumes "console_reached c" and "fresh_fragment env c"
  shows "console_keeps c (setRuntimeSession env sid mode c) sid"
proof -
  obtain d where d: "console_step env (OpSetSession sid mode) c = Inr d"
    using returns_console_step [OF reached_streams_ok [OF assms(1)], of "OpSetSession sid mode" env] reached_ok [OF assms(1)]
    by (auto simp: returns_def op_well_formed_def)
  with stepped [OF assms d] session_set [of env sid mode c d] show ?thesis
    by (simp add: console_keeps_def)
qed

lemma on_instance_keeps:
  assumes "service_ok sv" and "a < length (sv_instances sv)"
    and "console_keeps (sv_instances sv ! a) (f (sv_instances sv ! a)) (ci_session (sv_instances sv ! a))"
  shows "service_keeps (on_instance a f sv)"
proof -
  obtain d where d: "f (sv_instances sv ! a) = Inr d" "console_reached d" "ci_session d = ci_session (sv_instances sv ! a)"
    using assms(3) by (auto simp: console_keeps_def)
  have "map ci_session ((sv_instances sv)[a := d]) = map ci_session (sv_instances sv)"
    using assms(2) d(3) by (simp add: map_update list_update_same_conv)
  then show ?thesis
    using assms(1) d(1,2) by (auto simp: on_instance_def service_ok_def dest!: set_update_subset_insert [THEN subsetD])
qed

lemma alist_update_set: "set (AList.update k v al) \<subseteq> insert (k, v) (set al)"
  by (induction al) auto

lemma started_keeps:
  assumes "service_ok sv" and "map_of (sv_bySessionId sv) (rs_sessionId session) = None"
  shows "service_keeps (startPositronConsoleInstance env session mode activate sv)"
proof -
  obtain c where c: "new_PositronConsoleInstance env (rs_sessionId session) mode = Inr c"
    using created_returns by blast
  let ?n = "length (sv_instances sv)"
  have "\<forall>(l, a) \<in> set (AList.update (rs_languageId session) ?n (sv_byLanguageId sv)). a < Suc ?n"
    using assms(1) alist_update_set [of "rs_languageId session" ?n "sv_byLanguageId sv"] by (force simp: service_ok_def)
  then show ?thesis
    using sessions_started [of "map ci_session (sv_instances sv)" "sv_bySessionId sv" "rs_sessionId session"] assms c
      created [OF c] session_new [OF c]
    by (auto simp: startPositronConsoleInstance_def Let_def service_ok_def less_Suc_eq)
qed

lemma service_okD:
  assumes "service_ok sv"
  shows "map_of (sv_bySessionId sv) sid = Some a \<Longrightarrow> a < length (sv_instances sv) \<and> ci_session (sv_instances sv ! a) = sid"
    and "map_of (sv_byLanguageId sv) l = Some a \<Longrightarrow> a < length (sv_instances sv)"
    and "a < length (sv_instances sv) \<Longrightarrow> console_reached (sv_instances sv ! a)"
    and "a < length (sv_instances sv) \<Longrightarrow> fresh_fragments env sv \<Longrightarrow> fresh_fragment env (sv_instances sv ! a)"
  using assms sessions_ok_map_of [of "map ci_session (sv_instances sv)" "sv_bySessionId sv" sid a]
  by (auto simp: service_ok_def fresh_fragments_def list_all_length dest!: map_of_SomeD)

lemma reused_keeps:
  assumes "service_ok sv" and "fresh_fragments env sv" and "map_of (sv_bySessionId sv) sid = None" and "a < length (sv_instances sv)"
  shows "service_keeps (bind_result (on_instance a (setRuntimeSession env sid mode)
      (sv\<lparr>sv_bySessionId := AList.delete (ci_session (sv_instances sv ! a)) (sv_bySessionId sv)\<rparr>)) (\<lambda>sv.
    Inr (sv\<lparr>sv_bySessionId := AList.update sid a (sv_bySessionId sv)\<rparr>)))"
proof -
  obtain d where d: "setRuntimeSession env sid mode (sv_instances sv ! a) = Inr d" "console_reached d" "ci_session d = sid"
    using console_keeps_session [of "sv_instances sv ! a" env sid mode] service_okD(3,4) [OF assms(1,4)] assms(2)
    by (auto simp: console_keeps_def)
  have "sessions_ok (map ci_session ((sv_instances sv)[a := d]))
      (AList.update sid a (AList.delete (ci_session (sv_instances sv ! a)) (sv_bySessionId sv)))"
    using sessions_moved [of "map ci_session (sv_instances sv)" "sv_bySessionId sv" sid a] assms d(3)
    by (simp add: service_ok_def map_update)
  then show ?thesis
    using assms(1) d(1,2) by (auto simp: on_instance_def service_ok_def dest!: set_update_subset_insert [THEN subsetD])
qed

lemma willStart_keeps:
  assumes "service_ok sv" and "fresh_fragments env sv"
  shows "service_keeps (onWillStartSession env session mode activate sv)"
proof -
  note okD = service_okD [OF assms(1)]
  have existing: "service_keeps (on_instance a (setRuntimeSession env (rs_sessionId session) m) sv)"
    if "map_of (sv_bySessionId sv) (rs_sessionId session) = Some a" for a m
    using okD(1) [OF that] okD(3,4) [of a] assms console_keeps_session [of "sv_instances sv ! a" env "rs_sessionId session" m]
    by (intro on_instance_keeps) auto
  show ?thesis
    using assms existing started_keeps [OF assms(1)] reused_keeps [OF assms] okD(2)
    by (auto simp: onWillStartSession_def Let_def split: option.split)
qed

lemma state_keeps:
  assumes "service_ok sv" and "fresh_fragments env sv" and "map_of (sv_bySessionId sv) sid = Some a"
  shows "service_keeps (on_instance a (setState env s) sv)"
  using service_okD [OF assms(1)] assms console_keeps_setState by (intro on_instance_keeps) blast+

lemma finish_keeps:
  assumes "service_ok sv" and "fresh_fragments env sv"
  shows "service_keeps (finish_execution env ex sv)"
proof (cases "map_of (sv_byLanguageId sv) (ex_languageId ex)")
  case (Some a)
  note okD = service_okD [OF assms(1)]
  let ?sv = "if sv_active sv \<noteq> Some a
    then emit (SetForegroundSession (ci_session (sv_instances sv ! a))) (setActivePositronConsoleInstance (Some a) sv) else sv"
  have a: "a < length (sv_instances sv)"
    by (rule okD(2) [OF Some])
  have sv: "service_ok ?sv" "sv_instances ?sv = sv_instances sv"
    using assms(1) a by (auto simp: setActivePositronConsoleInstance_def) (simp add: service_ok_def)
  let ?f = "\<lambda>c. enqueueCode env (ex_code ex) (ex_allowIncomplete ex) (ex_mode ex) (ex_errorBehavior ex)
    (if ex_focus ex then focusInput c else c)"
  have "console_keeps (sv_instances sv ! a) (?f (sv_instances sv ! a)) (ci_session (sv_instances sv ! a))"
    by (rule console_keeps_enqueue [OF okD(3) [OF a] okD(4) [OF a assms(2)]])
  then obtain sv' where "on_instance a ?f ?sv = Inr sv'" "service_ok sv'"
    using on_instance_keeps [OF sv(1), of a ?f] a unfolding service_keeps_def sv(2) by blast
  then show ?thesis
    using Some by (simp add: finish_execution_def Let_def)
qed (use assms in \<open>simp add: finish_execution_def\<close>)

lemma service_step_keeps:
  assumes "service_ok sv" and "fresh_fragments env sv" and "service_op_ok op sv"
  shows "service_keeps (service_step env op sv)"
proof (cases op)
  case (ResumeExecution sessions preferred k)
  have "service_keeps (finish_execution env ex (sv\<lparr>sv_executions := xs\<rparr>))" for ex xs
    by (rule finish_keeps) (use assms in \<open>simp_all add: fresh_fragments_def\<close>)
  then show ?thesis
    using assms ResumeExecution by (auto simp: resume_execution_def Let_def split: option.split)
next
  case (InstanceOp a op')
  then have "a < length (sv_instances sv)" "op_well_formed op'" "\<And>sid mode. op' \<noteq> OpSetSession sid mode"
    using assms(3) by (auto split: console_op.splits)
  then show ?thesis
    using InstanceOp on_instance_keeps [OF assms(1)] console_keeps_step service_okD(3,4) [OF assms(1)] assms(2) by auto
next
  case (WidthChange a w)
  then show ?thesis
    using assms by (simp add: setWidthInChars_def onConsoleWidthChange_def) (simp add: service_ok_def)
next
  case (ForegroundSessionEvent session)
  then show ?thesis
    using assms service_okD(1) [OF assms(1)]
    by (auto simp: onDidChangeForegroundSession_def setActivePositronConsoleInstance_def split: option.split)
      (auto simp: service_ok_def)
qed (use assms in \<open>auto simp: willStart_keeps onDidStartRuntime_def onDidFailStartRuntime_def service_onDidChangeRuntimeState_def
    service_executeCode_def onWidthTimer_def intro: state_keeps split: option.split\<close>)

lemma started_index:
  "startPositronConsoleInstance env session mode activate sv = Inr sv' \<Longrightarrow>
   sv_bySessionId sv' = AList.update (rs_sessionId session) (length (sv_instances sv)) (sv_bySessionId sv)"
  by (auto simp: startPositronConsoleInstance_def Let_def elim!: bind_result_elim split: if_splits)

lemma start_sessions_keeps:
  assumes "service_ok sv" and "distinct (map rs_sessionId sessions)"
    and "\<forall>s \<in> set sessions. map_of (sv_bySessionId sv) (rs_sessionId s) = None"
  shows "service_keeps (start_sessions env_of foreground first sessions sv)"
  using assms
proof (induction sessions arbitrary: first sv)
  case (Cons session sessions)
  have "service_keeps (bind_result (startPositronConsoleInstance (env_of session) session AttachConnected activate sv)
      (start_sessions env_of foreground False sessions))" for activate
  proof -
    obtain sv' where sv': "startPositronConsoleInstance (env_of session) session AttachConnected activate sv = Inr sv'" "service_ok sv'"
      using started_keeps [of sv session "env_of session" AttachConnected activate] Cons.prems by (auto simp: service_keeps_def)
    moreover have "rs_sessionId s \<noteq> rs_sessionId session" if "s \<in> set sessions" for s
      using Cons.prems(2) that by (metis distinct.simps(2) imageI list.set_map list.simps(9))
    ultimately have "service_keeps (start_sessions env_of foreground False sessions sv')"
      using Cons.prems by (intro Cons.IH) (auto simp: started_index [OF sv'(1)] update_conv')
    with sv' show ?thesis
      by simp
  qed
  moreover have "service_keeps (start_sessions env_of foreground first sessions sv)"
    using Cons by simp
  ultimately show ?case
    by (simp add: Let_def)
qed simp

lemma reached_service_ok: "service_reached sv \<Longrightarrow> service_ok sv"
proof (induction rule: service_reached.induct)
  case (service_created sessions env_of foreground sv)
  have "service_ok new_service"
    by (simp add: service_ok_def new_service_def sessions_ok_def)
  then have "service_keeps (new_PositronConsoleService env_of foreground sessions)"
    unfolding new_PositronConsoleService_def
    by (rule start_sessions_keeps) (use service_created in \<open>simp_all add: new_service_def\<close>)
  with service_created show ?case
    by (simp add: service_keeps_def)
next
  case (service_stepped sv env op sv')
  then show ?case
    using service_step_keeps [of sv env op] by (simp add: service_keeps_def)
qed

section \<open>Properties\<close>

lemma setState_state: "setState env s c = Inr d \<Longrightarrow> ci_state d = s"
  unfolding setState_def by (elim bind_result_elim) (auto simp: announce_def)

lemma on_instance_others: "on_instance a f sv = Inr sv' \<Longrightarrow> b \<noteq> a \<Longrightarrow> sv_instances sv' ! b = sv_instances sv ! b"
  by (auto simp: on_instance_def elim!: bind_result_elim)

lemma on_instance_setState:
  "on_instance a (setState env s) sv = Inr sv' \<Longrightarrow> a < length (sv_instances sv) \<Longrightarrow> ci_state (sv_instances sv' ! a) = s"
  by (auto simp: on_instance_def elim!: bind_result_elim dest: setState_state)

text \<open>A service with one console, and what the examples below start from.\<close>

definition example_session :: runtime_session where
  "example_session = \<lparr>rs_sessionId = js ''s'', rs_runtimeId = js ''r'', rs_languageId = js ''python'', rs_sessionMode = ConsoleMode\<rparr>"

definition example_service :: console_service where
  "example_service = (case new_PositronConsoleService (\<lambda>_. plain_env) None [example_session] of Inr sv \<Rightarrow> sv | Inl e \<Rightarrow> new_service)"

lemma example_reached: "service_reached example_service"
proof -
  have "isl (new_PositronConsoleService (\<lambda>_. plain_env) None [example_session]) = False"
    by code_simp
  then obtain sv where "new_PositronConsoleService (\<lambda>_. plain_env) None [example_session] = Inr sv"
    by (cases "new_PositronConsoleService (\<lambda>_. plain_env) None [example_session]") simp_all
  then show ?thesis
    using service_created [of "[example_session]"] by (simp add: example_service_def)
qed

lemma example_facts:
  "map_of (sv_bySessionId example_service) (js ''s'') = Some 0" "length (sv_instances example_service) = 1"
  "fresh_fragments plain_env example_service" "ci_state (sv_instances example_service ! 0) = CSReady"
  by code_simp+

text \<open>
  C35: The service finds its consoles: in every state it reaches, its map holds every console exactly once, under the
  identifier of the session that the console has now, also after a console that exited was reused for a new session.
\<close>

theorem service_index_consistent:
  assumes "service_reached sv"
  shows "distinct (positronConsoleInstances sv) \<and> set (positronConsoleInstances sv) = {..<length (sv_instances sv)} \<and>
    (\<forall>sid a. map_of (sv_bySessionId sv) sid = Some a \<longleftrightarrow> a < length (sv_instances sv) \<and> ci_session (sv_instances sv ! a) = sid)"
proof -
  have ok: "sessions_ok (map ci_session (sv_instances sv)) (sv_bySessionId sv)"
    using reached_service_ok [OF assms] by (simp add: service_ok_def)
  have "\<forall>sid a. map_of (sv_bySessionId sv) sid = Some a \<longleftrightarrow> a < length (sv_instances sv) \<and> ci_session (sv_instances sv ! a) = sid"
    using sessions_ok_map_of [OF ok] by auto
  moreover have "set (positronConsoleInstances sv) = {..<length (sv_instances sv)}"
  proof (intro equalityI subsetI)
    show "a \<in> {..<length (sv_instances sv)}" if "a \<in> set (positronConsoleInstances sv)" for a
      using ok that by (auto simp: positronConsoleInstances_def sessions_ok_def)
    show "a \<in> set (positronConsoleInstances sv)" if "a \<in> {..<length (sv_instances sv)}" for a
    proof -
      have "(map ci_session (sv_instances sv) ! a, a) \<in> set (sv_bySessionId sv)"
        using ok that unfolding sessions_ok_def by simp
      from imageI [OF this, of snd] show ?thesis
        by (simp add: positronConsoleInstances_def)
    qed
  qed
  moreover have "distinct (positronConsoleInstances sv)"
    unfolding positronConsoleInstances_def distinct_map
  proof
    show "distinct (sv_bySessionId sv)"
      using ok by (auto simp: sessions_ok_def distinct_map)
    have "map ci_session (sv_instances sv) ! snd x = fst x" if "x \<in> set (sv_bySessionId sv)" for x
      using ok that by (cases x) (auto simp: sessions_ok_def)
    then show "inj_on snd (set (sv_bySessionId sv))"
      by (intro inj_onI prod_eqI) (metis, simp)
  qed
  ultimately show ?thesis
    by blast
qed

theorem service_index_consistent_witness: "set (positronConsoleInstances example_service) = {..<1}"
  using service_index_consistent [OF example_reached] example_facts(2) by simp



text \<open>
  An event that the state of a session has changed reaches the console of that session and no other: the state of
  that console becomes the one that belongs to the new state of the runtime, if one does, and every other console is
  left as it is.
\<close>

theorem runtime_state_reaches_its_console:
  assumes "service_reached sv" and "service_onDidChangeRuntimeState env sid new_state sv = Inr sv'" and "b < length (sv_instances sv)"
  shows "if ci_session (sv_instances sv ! b) = sid
    then (case console_state_of new_state of Some s \<Rightarrow> ci_state (sv_instances sv' ! b) = s
          | None \<Rightarrow> sv_instances sv' ! b = sv_instances sv ! b)
    else sv_instances sv' ! b = sv_instances sv ! b"
proof -
  have "map_of (sv_bySessionId sv) sid = Some a \<longleftrightarrow> a < length (sv_instances sv) \<and> ci_session (sv_instances sv ! a) = sid" for a
    using sessions_ok_map_of [of "map ci_session (sv_instances sv)" "sv_bySessionId sv" sid a] reached_service_ok [OF assms(1)]
    by (auto simp: service_ok_def)
  note found = this
  show ?thesis
  proof (cases "map_of (sv_bySessionId sv) sid")
    case None
    then have "ci_session (sv_instances sv ! b) \<noteq> sid" "sv' = sv"
      using found [of b] assms(2,3) by (simp_all add: service_onDidChangeRuntimeState_def)
    then show ?thesis
      by simp
  next
    case (Some a)
    then have "ci_session (sv_instances sv ! b) = sid \<longleftrightarrow> b = a" "a < length (sv_instances sv)"
      using found [of b] found [of a] assms(3) by auto
    then show ?thesis
      using Some assms(2) on_instance_others [of a _ sv sv' b] on_instance_setState [of a env _ sv sv']
      by (cases "console_state_of new_state") (auto simp: service_onDidChangeRuntimeState_def)
  qed
qed

theorem runtime_state_reaches_its_console_witness:
  "\<exists>sv'. service_onDidChangeRuntimeState plain_env (js ''s'') RSExited example_service = Inr sv' \<and>
     ci_state (sv_instances sv' ! 0) = CSExited"
proof -
  obtain sv' where sv': "service_onDidChangeRuntimeState plain_env (js ''s'') RSExited example_service = Inr sv'"
    using state_keeps [OF reached_service_ok [OF example_reached] example_facts(3,1), of CSExited]
    unfolding service_onDidChangeRuntimeState_def example_facts(1) by (auto simp: service_keeps_def)
  moreover have "ci_session (sv_instances example_service ! 0) = js ''s''"
    by code_simp
  ultimately show ?thesis
    using runtime_state_reaches_its_console [OF example_reached sv', of 0] example_facts(2) by simp
qed

text \<open>
  The handlers of the events that a runtime has started, or has failed to start, look for the console under the
  identifier of the runtime in the map that is keyed by sessions: unless a session happens to have the identifier of
  the runtime, they find nothing and do nothing.
\<close>

theorem started_runtime_not_found:
  assumes "service_reached sv" and "\<forall>c \<in> set (sv_instances sv). ci_session c \<noteq> rs_runtimeId session"
  shows "onDidStartRuntime env session sv = Inr sv \<and> onDidFailStartRuntime env session sv = Inr sv"
proof -
  have "map_of (sv_bySessionId sv) (rs_runtimeId session) = None"
    using sessions_ok_absent [of "map ci_session (sv_instances sv)" "sv_bySessionId sv" "rs_runtimeId session"]
      reached_service_ok [OF assms(1)] assms(2) by (auto simp: service_ok_def)
  then show ?thesis
    by (simp add: onDidStartRuntime_def onDidFailStartRuntime_def)
qed

theorem started_runtime_not_found_witness:
  "onDidFailStartRuntime plain_env example_session example_service = Inr example_service"
proof -
  have "list_all (\<lambda>c. ci_session c \<noteq> rs_runtimeId example_session) (sv_instances example_service)"
    by code_simp
  then show ?thesis
    using started_runtime_not_found [OF example_reached, of example_session plain_env] by (simp add: list_all_iff)
qed

end
