(* ===== verification/Throttled_Emitter.thy ===== *)
theory Throttled_Emitter
  imports Js_Prelude "HOL-Library.Sublist"
begin

text \<open>
  The class \<open>ThrottledEmitter\<close> of
  \<open>src/vs/workbench/services/positronConsole/browser/classes/throttledEmitter.ts\<close>, through which a console
  announces changes of its items.

  Time is explicit: \<open>fire\<close> gets the reading of the clock, and the callback of the timeout is an operation
  of its own, which the event loop runs at some time not before the timeout is due. The calls of the base
  class's \<open>fire\<close>, which reach the listeners, are recorded with their time and the place they come from. The
  clock is assumed not to go backwards where a property needs it.
\<close>

section \<open>The class\<close>

datatype call_site = Immediately | OnTimeout

record 'e throttled_emitter =
  te_throttleThreshold :: int
  te_throttleInterval :: int
  te_throttleEventTimeout :: "int option"
  te_throttleHistory :: "int list"
  te_lastEvent :: "'e option"
  te_delivered :: "(int \<times> call_site \<times> 'e option) list"

definition new_ThrottledEmitter :: "int \<Rightarrow> int \<Rightarrow> 'e throttled_emitter" where
  "new_ThrottledEmitter throttleThreshold throttleInterval =
     \<lparr>te_throttleThreshold = throttleThreshold, te_throttleInterval = throttleInterval,
      te_throttleEventTimeout = None, te_throttleHistory = [], te_lastEvent = None, te_delivered = []\<rparr>"

definition super_fire :: "int \<Rightarrow> call_site \<Rightarrow> 'e option \<Rightarrow> 'e throttled_emitter \<Rightarrow> 'e throttled_emitter" where
  "super_fire now site event t = t\<lparr>te_delivered := te_delivered t @ [(now, site, event)]\<rparr>"

text \<open>The timeout is kept as the time at which it is due.\<close>

definition fire :: "int \<Rightarrow> 'e \<Rightarrow> 'e throttled_emitter \<Rightarrow> 'e throttled_emitter" where
  "fire now event t =
     (let cutoff = now - te_throttleInterval t;
          t = t\<lparr>te_throttleHistory := filter (\<lambda>time. time \<ge> cutoff) (te_throttleHistory t) @ [now]\<rparr>
      in if te_throttleEventTimeout t \<noteq> None then t\<lparr>te_lastEvent := Some event\<rparr>
         else if int (length (te_throttleHistory t)) < te_throttleThreshold t then super_fire now Immediately (Some event) t
         else t\<lparr>te_lastEvent := Some event, te_throttleEventTimeout := Some (now + te_throttleInterval t)\<rparr>)"

definition on_timeout :: "int \<Rightarrow> 'e throttled_emitter \<Rightarrow> 'e throttled_emitter" where
  "on_timeout now t =
     (case te_throttleEventTimeout t of
        Some due \<Rightarrow>
          if due \<le> now then super_fire now OnTimeout (te_lastEvent t) (t\<lparr>te_throttleEventTimeout := None\<rparr>) else t
      | None \<Rightarrow> t)"

definition dispose :: "'e throttled_emitter \<Rightarrow> 'e throttled_emitter" where
  "dispose t = (if te_throttleEventTimeout t \<noteq> None then t\<lparr>te_throttleEventTimeout := None\<rparr> else t)"

section \<open>Runs\<close>

datatype 'e emitter_op = Fire int 'e | Tick int

fun op_time :: "'e emitter_op \<Rightarrow> int" where
  "op_time (Fire now e) = now"
| "op_time (Tick now) = now"

fun emitter_step :: "'e emitter_op \<Rightarrow> 'e throttled_emitter \<Rightarrow> 'e throttled_emitter" where
  "emitter_step (Fire now e) t = fire now e t"
| "emitter_step (Tick now) t = on_timeout now t"

definition run :: "int \<Rightarrow> int \<Rightarrow> 'e emitter_op list \<Rightarrow> 'e throttled_emitter" where
  "run T I ops = fold emitter_step ops (new_ThrottledEmitter T I)"

definition fired :: "'e emitter_op list \<Rightarrow> (int \<times> 'e) list" where
  "fired ops = List.map_filter (\<lambda>op. case op of Fire now e \<Rightarrow> Some (now, e) | Tick now \<Rightarrow> None) ops"

definition delivered_events :: "'e throttled_emitter \<Rightarrow> 'e option list" where
  "delivered_events t = map (snd \<circ> snd) (te_delivered t)"

lemma run_snoc: "run T I (ops @ [op]) = emitter_step op (run T I ops)"
  by (simp add: run_def)

lemma run_Nil: "run T I [] = new_ThrottledEmitter T I"
  by (simp add: run_def)

lemma fired_simps [simp]:
  "fired [] = []" "fired (ops @ [Fire now e]) = fired ops @ [(now, e)]" "fired (ops @ [Tick now]) = fired ops"
  by (simp_all add: fired_def List.map_filter_def)

lemma step_parameters [simp]:
  "te_throttleThreshold (emitter_step op t) = te_throttleThreshold t"
  "te_throttleInterval (emitter_step op t) = te_throttleInterval t"
  by (cases op; simp add: fire_def on_timeout_def super_fire_def Let_def split: option.split)+

lemma run_parameters [simp]: "te_throttleThreshold (run T I ops) = T" "te_throttleInterval (run T I ops) = I"
  by (induction ops rule: rev_induct) (simp_all add: run_Nil run_snoc new_ThrottledEmitter_def)

lemma emitter_step_fire:
  "emitter_step (Fire now e) t =
     (let h = filter (\<lambda>time. time \<ge> now - te_throttleInterval t) (te_throttleHistory t) @ [now];
          t' = t\<lparr>te_throttleHistory := h\<rparr>
      in if te_throttleEventTimeout t \<noteq> None then t'\<lparr>te_lastEvent := Some e\<rparr>
         else if int (length h) < te_throttleThreshold t then t'\<lparr>te_delivered := te_delivered t @ [(now, Immediately, Some e)]\<rparr>
         else t'\<lparr>te_lastEvent := Some e, te_throttleEventTimeout := Some (now + te_throttleInterval t)\<rparr>)"
  by (simp add: fire_def super_fire_def Let_def)

section \<open>The latest event is delivered\<close>

text \<open>
  Between fires and ticks, what has been delivered is an ordered selection of what was fired. Without a
  timeout the latest event has been delivered; with one it is the event the timeout will deliver.
\<close>

definition up_to_date :: "'e emitter_op list \<Rightarrow> 'e throttled_emitter \<Rightarrow> bool" where
  "up_to_date ops t \<longleftrightarrow>
     (case te_throttleEventTimeout t of
        None \<Rightarrow> subseq (delivered_events t) (map (Some \<circ> snd) (fired ops)) \<and>
          (fired ops \<noteq> [] \<longrightarrow> delivered_events t \<noteq> [] \<and> last (delivered_events t) = Some (snd (last (fired ops))))
      | Some due \<Rightarrow> fired ops \<noteq> [] \<and> te_lastEvent t = Some (snd (last (fired ops))) \<and>
          subseq (delivered_events t) (map (Some \<circ> snd) (butlast (fired ops))))"

lemma subseq_map_butlast: "subseq xs (map f (butlast ys)) \<Longrightarrow> subseq xs (map f ys)"
proof (cases ys rule: rev_cases)
  case (snoc zs z)
  assume "subseq xs (map f (butlast ys))"
  with snoc show ?thesis
    using list_emb_append_mono [of "(=)" xs "map f zs" "[]" "[f z]"] by simp
qed simp

lemma subseq_snoc_butlast:
  "ys \<noteq> [] \<Longrightarrow> subseq xs (map f (butlast ys)) \<Longrightarrow> subseq (xs @ [f (last ys)]) (map f ys)"
  by (cases ys rule: rev_cases) (auto intro: list_emb_append_mono)

lemma up_to_date_run: "up_to_date ops (run T I ops)"
proof (induction ops rule: rev_induct)
  case Nil
  then show ?case
    by (simp add: up_to_date_def run_Nil new_ThrottledEmitter_def delivered_events_def)
next
  case (snoc op ops)
  then show ?case
  proof (cases op)
    case (Fire now e)
    with snoc show ?thesis
      by (auto simp: up_to_date_def run_snoc emitter_step_fire delivered_events_def Let_def
          simp del: emitter_step.simps split: option.splits intro: list_emb_append_mono subseq_map_butlast)
  next
    case (Tick now)
    with snoc subseq_snoc_butlast [of "fired ops" _ "Some \<circ> snd"] show ?thesis
      by (auto simp: up_to_date_def run_snoc on_timeout_def super_fire_def delivered_events_def split: option.splits)
  qed
qed

text \<open>With a clock that does not go backwards, a timeout is due at most an interval after the latest event.\<close>

lemma fired_time: "f \<in> set (fired ops) \<Longrightarrow> \<exists>op \<in> set ops. fst f = op_time op"
  by (force simp: fired_def List.map_filter_def split: emitter_op.splits)

lemma sorted_snoc_le: "sorted (map op_time (ops @ [op])) \<Longrightarrow> f \<in> set (fired ops) \<Longrightarrow> fst f \<le> op_time op"
  using fired_time [of f ops] by (auto simp: sorted_append)

lemma last_fired_le: "sorted (map op_time (ops @ [op])) \<Longrightarrow> fired ops \<noteq> [] \<Longrightarrow> fst (last (fired ops)) \<le> op_time op"
  by (rule sorted_snoc_le [OF _ last_in_set])

lemma due_bound:
  assumes "sorted (map op_time ops)" and "te_throttleEventTimeout (run T I ops) = Some due"
  shows "fired ops \<noteq> [] \<and> due \<le> fst (last (fired ops)) + I"
  using assms
proof (induction ops rule: rev_induct)
  case (snoc op ops)
  then have IH: "te_throttleEventTimeout (run T I ops) = Some due \<Longrightarrow> fired ops \<noteq> [] \<and> due \<le> fst (last (fired ops)) + I"
    by (simp add: sorted_append)
  show ?case
  proof (cases op)
    case (Fire now e)
    with snoc.prems IH last_fired_le [of ops op] show ?thesis
      by (auto simp: run_snoc emitter_step_fire Let_def simp del: emitter_step.simps split: if_splits)
  next
    case (Tick now)
    with snoc.prems(2) IH show ?thesis
      by (auto simp: run_snoc on_timeout_def super_fire_def split: option.splits if_splits)
  qed
qed (simp add: run_Nil new_ThrottledEmitter_def)

text \<open>
  C36: The latest event is not lost to throttling: whatever was fired before, once the event loop has run
  the timeout, at any time an interval or more after the latest event was fired, that event is the last
  one the listeners got and no timeout is left.
\<close>

theorem latest_event_delivered:
  assumes "sorted (map op_time ops)" and "fired ops \<noteq> []" and "fst (last (fired ops)) + I \<le> s"
  shows "te_throttleEventTimeout (on_timeout s (run T I ops)) = None \<and>
    delivered_events (on_timeout s (run T I ops)) \<noteq> [] \<and>
    last (delivered_events (on_timeout s (run T I ops))) = Some (snd (last (fired ops)))"
  using up_to_date_run [of ops T I] assms due_bound [OF assms(1)]
  by (cases "te_throttleEventTimeout (run T I ops)")
    (fastforce simp: up_to_date_def on_timeout_def super_fire_def delivered_events_def)+

theorem latest_event_delivered_witness:
  "last (delivered_events (on_timeout 60 (run 2 50 [Fire 0 ''a'', Fire 5 ''b'', Fire 10 ''c'']))) = Some ''c''"
  using latest_event_delivered [of "[Fire 0 ''a'', Fire 5 ''b'', Fire 10 ''c'']" 50 60 2]
  by (simp add: fired_def List.map_filter_def)

text \<open>
  What the listeners get is a selection of the events that were fired, in the order in which they were
  fired: none is delivered twice, out of order or made up.
\<close>

theorem delivered_in_order: "subseq (delivered_events (run T I ops)) (map (Some \<circ> snd) (fired ops))"
  using up_to_date_run [of ops T I] by (auto simp: up_to_date_def split: option.splits intro: subseq_map_butlast)

section \<open>The rate is bounded\<close>

definition times_of :: "call_site \<Rightarrow> 'e throttled_emitter \<Rightarrow> int list" where
  "times_of site t = map fst (filter (\<lambda>d. fst (snd d) = site) (te_delivered t))"

lemma times_of_append [simp]:
  "times_of site (t\<lparr>te_delivered := te_delivered t @ [(now, site', e)]\<rparr>) = times_of site t @ (if site = site' then [now] else [])"
  by (simp add: times_of_def)

definition in_window :: "int \<Rightarrow> int \<Rightarrow> int \<Rightarrow> bool" where
  "in_window I w s \<longleftrightarrow> w - I < s \<and> s \<le> w"

text \<open>The history is the part of the fires that is not older than an interval at the latest one.\<close>

lemma history_run:
  "sorted (map op_time ops) \<Longrightarrow> 0 \<le> I \<Longrightarrow>
   te_throttleHistory (run T I ops) = filter (\<lambda>s. s \<ge> fst (last (fired ops)) - I) (map fst (fired ops))"
proof (induction ops rule: rev_induct)
  case (snoc op ops)
  then have IH: "te_throttleHistory (run T I ops) = filter (\<lambda>s. s \<ge> fst (last (fired ops)) - I) (map fst (fired ops))"
    by (simp add: sorted_append)
  show ?case
  proof (cases op)
    case (Fire now e)
    have "fired ops = [] \<or> fst (last (fired ops)) \<le> now"
      using last_fired_le [OF snoc.prems(1)] Fire by auto
    then have "filter (\<lambda>s. now - I \<le> s) (te_throttleHistory (run T I ops)) = filter (\<lambda>s. now - I \<le> s) (map fst (fired ops))"
      unfolding IH by (auto simp: filter_filter intro!: filter_cong)
    then show ?thesis
      using snoc.prems(2) by (simp add: Fire run_snoc emitter_step_fire Let_def del: emitter_step.simps)
  next
    case (Tick now)
    then show ?thesis
      using IH by (simp add: run_snoc on_timeout_def super_fire_def split: option.split)
  qed
qed (simp add: run_Nil new_ThrottledEmitter_def)

lemma immediate_subseq: "subseq (times_of Immediately (run T I ops)) (map fst (fired ops))"
proof (induction ops rule: rev_induct)
  case (snoc op ops)
  then show ?case
    by (cases op) (auto simp: run_snoc emitter_step_fire on_timeout_def super_fire_def Let_def times_of_def
        simp del: emitter_step.simps(1) split: option.split intro: list_emb_append_mono)
qed (simp add: run_Nil new_ThrottledEmitter_def times_of_def)

lemma length_filter_mono: "(\<And>x. P x \<Longrightarrow> Q x) \<Longrightarrow> length (filter P xs) \<le> length (filter Q xs)"
  by (induction xs) auto

lemma immediate_rate:
  assumes "sorted (map op_time ops)" and "0 \<le> I" and "1 \<le> T"
  shows "int (length (filter (in_window I w) (times_of Immediately (run T I ops)))) < T"
  using assms
proof (induction ops rule: rev_induct)
  case (snoc op ops)
  then have IH: "int (length (filter (in_window I w) (times_of Immediately (run T I ops)))) < T"
    by (simp add: sorted_append)
  show ?case
  proof (cases op)
    case (Fire now e)
    let ?h = "filter (\<lambda>time. time \<ge> now - I) (te_throttleHistory (run T I ops)) @ [now]"
    have h: "?h = filter (\<lambda>s. s \<ge> now - I) (map fst (fired ops)) @ [now]"
      using history_run [OF snoc.prems(1,2), of T] history_run [of ops I T] snoc.prems(1,2) last_fired_le [OF snoc.prems(1)]
      by (cases "fired ops = []") (auto simp: Fire sorted_append filter_filter intro!: filter_cong)
    have "length (filter (in_window I w) (times_of Immediately (run T I ops) @ [now])) \<le> length ?h" if "in_window I w now"
    proof -
      have "length (filter (in_window I w) (times_of Immediately (run T I ops))) \<le>
          length (filter (in_window I w) (map fst (fired ops)))"
        by (rule list_emb_length [where P = "(=)"]) (intro subseq_filter immediate_subseq)
      also have "\<dots> \<le> length (filter (\<lambda>s. s \<ge> now - I) (map fst (fired ops)))"
        using that by (intro length_filter_mono) (auto simp: in_window_def)
      finally show ?thesis
        using that unfolding h by simp
    qed
    with IH show ?thesis
      by (auto simp: Fire run_snoc emitter_step_fire Let_def times_of_def simp del: emitter_step.simps)
  next
    case (Tick now)
    with IH show ?thesis
      by (simp add: run_snoc on_timeout_def super_fire_def times_of_def split: option.split)
  qed
qed (simp add: run_Nil new_ThrottledEmitter_def times_of_def)

text \<open>Deliveries on timeout are at least an interval apart.\<close>

definition apart :: "int \<Rightarrow> int list \<Rightarrow> bool" where
  "apart I ts \<longleftrightarrow> sorted_wrt (\<lambda>a b. a + I \<le> b) ts"

lemma apart_window: "apart I ts \<Longrightarrow> length (filter (in_window I w) ts) \<le> 1"
proof (induction ts)
  case (Cons t ts)
  have "filter (in_window I w) ts = []" if "in_window I w t"
    using Cons.prems that by (force simp: apart_def in_window_def filter_empty_conv)
  with Cons show ?case
    by (auto simp: apart_def)
qed simp

lemma timeouts_apart:
  fixes T :: int
  assumes "sorted (map op_time ops)" and "0 \<le> I"
  defines "t \<equiv> run T I ops"
  shows "apart I (times_of OnTimeout t) \<and>
    (case te_throttleEventTimeout t of
       None \<Rightarrow> \<forall>a \<in> set (times_of OnTimeout t). \<exists>op \<in> set ops. a \<le> op_time op
     | Some due \<Rightarrow> \<forall>a \<in> set (times_of OnTimeout t). a + I \<le> due)"
  using assms(1,2) unfolding t_def
proof (induction ops rule: rev_induct)
  case (snoc op ops)
  then have IH: "apart I (times_of OnTimeout (run T I ops))"
    "te_throttleEventTimeout (run T I ops) = None \<Longrightarrow> a \<in> set (times_of OnTimeout (run T I ops)) \<Longrightarrow> a \<le> op_time op"
    "te_throttleEventTimeout (run T I ops) = Some due \<Longrightarrow> a \<in> set (times_of OnTimeout (run T I ops)) \<Longrightarrow> a + I \<le> due" for a due
    by (fastforce simp: sorted_append)+
  show ?case
  proof (cases op)
    case (Fire now e)
    show ?thesis
      using IH snoc.prems(2)
      by (auto simp: Fire run_snoc emitter_step_fire Let_def times_of_def simp del: emitter_step.simps split: option.splits)
  next
    case (Tick now)
    show ?thesis
    proof (cases "te_throttleEventTimeout (run T I ops)")
      case None
      then show ?thesis
        using IH by (force simp: Tick run_snoc on_timeout_def)
    next
      case (Some due)
      have "apart I (times_of OnTimeout (run T I ops) @ [now])" if "due \<le> now"
        using IH(1) IH(3) [OF Some] that by (force simp: apart_def sorted_wrt_append)
      then show ?thesis
        using IH Some snoc.prems(2)
        by (fastforce simp: Tick run_snoc on_timeout_def super_fire_def times_of_def)
    qed
  qed
qed (simp add: run_Nil new_ThrottledEmitter_def times_of_def apart_def)

lemma deliveries_by_site:
  "length (filter (\<lambda>d. P (fst d)) ds) =
   length (filter P (map fst (filter (\<lambda>d. fst (snd d) = Immediately) ds))) +
   length (filter P (map fst (filter (\<lambda>d. fst (snd d) = OnTimeout) ds)))"
proof (induction ds)
  case (Cons d ds)
  then show ?case
    by (cases "fst (snd d)") auto
qed simp

text \<open>
  C37: Throttling bounds the rate: in no stretch of time as long as the interval do the listeners get more
  events than the threshold, however many are fired and however late timeouts run, as long as the clock
  does not go backwards.
\<close>

theorem delivery_rate_bounded:
  assumes "sorted (map op_time ops)" and "0 \<le> I" and "1 \<le> T"
  shows "int (length (filter (\<lambda>d. in_window I w (fst d)) (te_delivered (run T I ops)))) \<le> T"
  using immediate_rate [OF assms, of w] apart_window [of I "times_of OnTimeout (run T I ops)" w]
    timeouts_apart [OF assms(1,2), of T]
  by (simp add: deliveries_by_site times_of_def)

theorem delivery_rate_bounded_witness:
  "int (length (filter (\<lambda>d. in_window 50 60 (fst d))
     (te_delivered (run 2 50 [Fire 0 ''a'', Fire 5 ''b'', Fire 10 ''c'', Tick 55, Fire 56 ''d'', Fire 57 ''e''])))) \<le> 2"
  by (rule delivery_rate_bounded) simp_all

end
