(* ===== verification/Layout_Manager.thy ===== *)
theory Layout_Manager
  imports Js_Prelude "HOL-Library.AList" "HOL-Library.Multiset"
begin

text \<open>
  The class \<open>LayoutManager\<close> of \<open>src/vs/workbench/services/positronDataExplorer/common/layoutManager.ts\<close>,
  which lays out the columns or rows of a data grid: every property and method. Indexes, sizes and
  offsets are integers (the method \<open>Number.isInteger\<close> is always true of them), the overrides are a
  \<open>Map\<close>, kept as an association list in insertion order.

  The layout is specified by the size of every entry (\<open>spec_size\<close>) and the sum of the sizes before it
  (\<open>spec_start\<close>). The lemmas show that the manager computes this layout with and without an array of
  entries, through the cache, and that the two binary searches find the entry an offset falls into. The
  locale \<open>axis\<close> is what the binary search relies on, interpreted on the starts of both representations.
\<close>

section \<open>Entries\<close>

record layout_entry =
  le_index :: int
  le_start :: int
  le_defaultSize :: int
  le_overrideSize :: "int option"

definition new_LayoutEntry :: "int \<Rightarrow> int \<Rightarrow> int \<Rightarrow> int option \<Rightarrow> layout_entry" where
  "new_LayoutEntry index start defaultSize overrideSize =
     \<lparr>le_index = index, le_start = start, le_defaultSize = defaultSize, le_overrideSize = overrideSize\<rparr>"

definition le_size :: "layout_entry \<Rightarrow> int" where
  "le_size e = (case le_overrideSize e of None \<Rightarrow> le_defaultSize e | Some s \<Rightarrow> s)"

definition le_end :: "layout_entry \<Rightarrow> int" where
  "le_end e = le_start e + le_size e"

section \<open>The manager\<close>

datatype layout_entries = Count int | Entries "layout_entry list"

record layout_manager =
  lm_defaultSize :: int
  lm_entries :: layout_entries
  lm_overrides :: "(int \<times> int) list"
  lm_cached :: "layout_entry option"

definition new_LayoutManager :: "int \<Rightarrow> layout_manager" where
  "new_LayoutManager defaultSize =
     \<lparr>lm_defaultSize = defaultSize, lm_entries = Count 0, lm_overrides = [], lm_cached = None\<rparr>"

definition getSortedLayoutOverrides :: "layout_manager \<Rightarrow> (int \<times> int) list" where
  "getSortedLayoutOverrides lm = sort_key fst (lm_overrides lm)"

text \<open>
  The loop over the sorted overrides that replaces the default size by the override size for the
  overrides in front of an index, and stops at the first other one.
\<close>

fun adjust_overrides :: "int \<Rightarrow> int \<Rightarrow> int \<Rightarrow> (int \<times> int) list \<Rightarrow> int" where
  "adjust_overrides defaultSize index acc [] = acc"
| "adjust_overrides defaultSize index acc ((i, s) # os) =
     (if i < index then adjust_overrides defaultSize index (acc - defaultSize + s) os else acc)"

definition lm_size :: "layout_manager \<Rightarrow> int result" where
  "lm_size lm =
     (case lm_entries lm of
        Entries es \<Rightarrow>
          (case js_get es (int (length es) - 1) of None \<Rightarrow> Inl TypeError | Some e \<Rightarrow> Inr (le_end e))
      | Count n \<Rightarrow>
          Inr (adjust_overrides (lm_defaultSize lm) n (n * lm_defaultSize lm) (getSortedLayoutOverrides lm)))"

text \<open>The argument of \<open>setLayoutEntries\<close>: a number or an array of sizes.\<close>

datatype layout_sizes = Number int | Sizes "int list"

fun build_entries :: "(int \<times> int) list \<Rightarrow> int \<Rightarrow> int \<Rightarrow> int list \<Rightarrow> layout_entry list" where
  "build_entries overrides index start [] = []"
| "build_entries overrides index start (s # ss) =
     (let e = new_LayoutEntry index start s (map_of overrides index)
      in e # build_entries overrides (index + 1) (le_end e) ss)"

definition setLayoutEntries :: "layout_sizes \<Rightarrow> layout_manager \<Rightarrow> layout_manager" where
  "setLayoutEntries sizes lm =
     (case sizes of
        Number n \<Rightarrow> lm\<lparr>lm_cached := None, lm_entries := Count n\<rparr>
      | Sizes ss \<Rightarrow> lm\<lparr>lm_cached := None, lm_entries := Entries (build_entries (lm_overrides lm) 0 0 ss)\<rparr>)"

text \<open>Moving entries so that each starts where the one before it ends.\<close>

fun restart :: "int \<Rightarrow> layout_entry list \<Rightarrow> layout_entry list" where
  "restart start [] = []"
| "restart start (e # es) = (let e' = e\<lparr>le_start := start\<rparr> in e' # restart (le_end e') es)"

definition override_entry :: "int \<Rightarrow> int option \<Rightarrow> layout_entry list \<Rightarrow> layout_entry list result" where
  "override_entry index overrideSize es =
     (case js_get es index of
        None \<Rightarrow> Inl TypeError
      | Some e \<Rightarrow>
          (let e' = e\<lparr>le_overrideSize := overrideSize\<rparr>
           in Inr (take (nat index) es @ e' # restart (le_end e') (drop (nat index + 1) es))))"

definition adjust_entries :: "int \<Rightarrow> int option \<Rightarrow> layout_manager \<Rightarrow> layout_manager result" where
  "adjust_entries index overrideSize lm =
     (case lm_entries lm of
        Count n \<Rightarrow> Inr lm
      | Entries es \<Rightarrow>
          (if index < int (length es)
           then bind_result (override_entry index overrideSize es) (\<lambda>es'. Inr (lm\<lparr>lm_entries := Entries es'\<rparr>))
           else Inr lm))"

definition discard_cached :: "int \<Rightarrow> layout_manager \<Rightarrow> layout_manager" where
  "discard_cached index lm =
     (case lm_cached lm of
        None \<Rightarrow> lm
      | Some e \<Rightarrow> if le_index e \<ge> index then lm\<lparr>lm_cached := None\<rparr> else lm)"

definition clearLayoutOverride :: "int \<Rightarrow> layout_manager \<Rightarrow> layout_manager result" where
  "clearLayoutOverride index lm =
     (let lm = discard_cached index lm;
          lm = lm\<lparr>lm_overrides := AList.delete index (lm_overrides lm)\<rparr>
      in adjust_entries index None lm)"

definition setLayoutOverride :: "int \<Rightarrow> int \<Rightarrow> layout_manager \<Rightarrow> layout_manager result" where
  "setLayoutOverride index overrideSize lm =
     (if index < 0 \<or> overrideSize \<le> 0 then Inr lm
      else
        let lm = discard_cached index lm;
            lm = lm\<lparr>lm_overrides := AList.update index overrideSize (lm_overrides lm)\<rparr>
        in adjust_entries index (Some overrideSize) lm)"

definition counted_start :: "layout_manager \<Rightarrow> int \<Rightarrow> int" where
  "counted_start lm index =
     adjust_overrides (lm_defaultSize lm) index (index * lm_defaultSize lm) (getSortedLayoutOverrides lm)"

definition computed_entry :: "layout_manager \<Rightarrow> int \<Rightarrow> layout_entry" where
  "computed_entry lm index =
     (if lm_overrides lm = [] then new_LayoutEntry index (index * lm_defaultSize lm) (lm_defaultSize lm) None
      else new_LayoutEntry index (counted_start lm index) (lm_defaultSize lm) (map_of (lm_overrides lm) index))"

text \<open>A lookup by index.\<close>

definition getLayoutEntry :: "int \<Rightarrow> layout_manager \<Rightarrow> layout_entry option" where
  "getLayoutEntry index lm =
     (if index < 0 then None
      else
        let found = (case lm_entries lm of
              Entries es \<Rightarrow> (if index \<ge> int (length es) then None else js_get es index)
            | Count n \<Rightarrow> (if index \<ge> n then None else Some (computed_entry lm index)))
        in case lm_cached lm of
          Some e \<Rightarrow> if le_index e = index then Some e else found
        | None \<Rightarrow> found)"

text \<open>The binary search that both representations use, over the starts and the sizes of the entries.\<close>

function chop :: "(int \<Rightarrow> int) \<Rightarrow> (int \<Rightarrow> int) \<Rightarrow> int \<Rightarrow> int \<Rightarrow> int \<Rightarrow> int option" where
  "chop start sz offset leftIndex rightIndex =
     (if leftIndex \<le> rightIndex
      then
        let middleIndex = (leftIndex + rightIndex) div 2 in
        if offset \<ge> start middleIndex \<and> offset < start middleIndex + sz middleIndex then Some middleIndex
        else if start middleIndex < offset then chop start sz offset (middleIndex + 1) rightIndex
        else chop start sz offset leftIndex (middleIndex - 1)
      else None)"
  by pat_completeness auto
termination
  by (relation "measure (\<lambda>(start, sz, offset, l, r). nat (r - l + 1))") auto

declare chop.simps [simp del]

text \<open>
  The outcome of a lookup by offset. With the default size 0 and no overrides, the quotient of the
  offset 0 is \<open>NaN\<close>, and an entry whose index and start are \<open>NaN\<close> is returned and cached. No comparison
  with \<open>NaN\<close> is true, so that cached entry is never found nor discarded: the state is as if none were
  cached.
\<close>

datatype found = Found layout_entry | NotFound | FoundNaN

definition cache :: "layout_entry \<Rightarrow> layout_manager \<Rightarrow> found \<times> layout_manager" where
  "cache e lm = (Found e, lm\<lparr>lm_cached := Some e\<rparr>)"

definition find_counted :: "int \<Rightarrow> int \<Rightarrow> layout_manager \<Rightarrow> found \<times> layout_manager" where
  "find_counted n offset lm =
     (if lm_overrides lm = []
      then if lm_defaultSize lm = 0
        then (if offset = 0 then (FoundNaN, lm\<lparr>lm_cached := None\<rparr>) else (NotFound, lm))
        else let index = offset div lm_defaultSize lm in
          if index \<ge> n then (NotFound, lm) else cache (computed_entry lm index) lm
      else case chop (counted_start lm)
             (\<lambda>i. case map_of (lm_overrides lm) i of None \<Rightarrow> lm_defaultSize lm | Some s \<Rightarrow> s) offset 0 (n - 1) of
          None \<Rightarrow> (NotFound, lm)
        | Some i \<Rightarrow> cache (computed_entry lm i) lm)"

definition find_entries :: "layout_entry list \<Rightarrow> int \<Rightarrow> layout_manager \<Rightarrow> found \<times> layout_manager" where
  "find_entries es offset lm =
     (case chop (\<lambda>i. le_start (es ! nat i)) (\<lambda>i. le_size (es ! nat i)) offset 0 (int (length es) - 1) of
        None \<Rightarrow> (NotFound, lm)
      | Some i \<Rightarrow> cache (es ! nat i) lm)"

definition findLayoutEntry :: "int \<Rightarrow> layout_manager \<Rightarrow> found \<times> layout_manager" where
  "findLayoutEntry offset lm =
     (if offset < 0 then (NotFound, lm)
      else
        let uncached = (case lm_entries lm of
              Count n \<Rightarrow> find_counted n offset lm | Entries es \<Rightarrow> find_entries es offset lm)
        in case lm_cached lm of
          Some e \<Rightarrow> if offset \<ge> le_start e \<and> offset < le_end e then (Found e, lm) else uncached
        | None \<Rightarrow> uncached)"

section \<open>The binary search\<close>

lemma chop_cong:
  assumes "\<And>i. l \<le> i \<Longrightarrow> i \<le> r \<Longrightarrow> start i = start' i \<and> sz i = sz' i"
  shows "chop start sz offset l r = chop start' sz' offset l r"
  using assms
proof (induction "nat (r - l + 1)" arbitrary: l r rule: less_induct)
  case less
  let ?m = "(l + r) div 2"
  show ?case
  proof (cases "l \<le> r")
    case True
    then have m: "l \<le> ?m" "?m \<le> r" "nat (r - (?m + 1) + 1) < nat (r - l + 1)" "nat (?m - 1 - l + 1) < nat (r - l + 1)"
      by auto
    have "chop start sz offset (?m + 1) r = chop start' sz' offset (?m + 1) r"
      "chop start sz offset l (?m - 1) = chop start' sz' offset l (?m - 1)"
      by (rule less.hyps; use less.prems m in simp)+
    with less.prems [OF m(1,2)] show ?thesis
      by (simp add: chop.simps [of start sz offset l r] chop.simps [of start' sz' offset l r] Let_def)
  qed (simp add: chop.simps [of start sz offset l r] chop.simps [of start' sz' offset l r])
qed

text \<open>
  The interface: a layout \<open>x\<close> that is in order has \<open>n x\<close> entries of positive sizes, one after the other
  from 0 on.
\<close>

locale axis =
  fixes ok :: "'a \<Rightarrow> bool" and n :: "'a \<Rightarrow> int" and start :: "'a \<Rightarrow> int \<Rightarrow> int" and sz :: "'a \<Rightarrow> int \<Rightarrow> int"
  assumes start_0: "ok x \<Longrightarrow> start x 0 = 0"
    and start_step: "ok x \<Longrightarrow> 0 \<le> i \<Longrightarrow> i < n x \<Longrightarrow> start x (i + 1) = start x i + sz x i"
    and sz_pos: "ok x \<Longrightarrow> 0 \<le> i \<Longrightarrow> i < n x \<Longrightarrow> 0 < sz x i"
begin

definition covers :: "'a \<Rightarrow> int \<Rightarrow> int \<Rightarrow> bool" where
  "covers x i offset \<longleftrightarrow> 0 \<le> i \<and> i < n x \<and> start x i \<le> offset \<and> offset < start x i + sz x i"

lemma start_mono:
  assumes "ok x" and "0 \<le> i" and "i \<le> j" and "j \<le> n x"
  shows "start x i \<le> start x j"
  using assms(3,4)
proof (induction j rule: int_ge_induct)
  case (step j)
  then show ?case
    using start_step [OF assms(1), of j] sz_pos [OF assms(1), of j] assms(2) by auto
qed simp

lemma end_before_start:
  "ok x \<Longrightarrow> 0 \<le> i \<Longrightarrow> i < j \<Longrightarrow> j \<le> n x \<Longrightarrow> start x i + sz x i \<le> start x j"
  using start_mono [of x "i + 1" j] start_step [of x i] by simp

lemma covers_unique: "ok x \<Longrightarrow> covers x i offset \<Longrightarrow> covers x j offset \<Longrightarrow> i = j"
  using end_before_start [of x i j] end_before_start [of x j i] by (force simp: covers_def)

lemma covers_exists:
  assumes "ok x" and "0 \<le> m" and "m \<le> n x" and "0 \<le> offset" and "offset < start x m"
  shows "\<exists>i. covers x i offset"
  using assms(2-)
proof (induction m rule: int_ge_induct)
  case (step m)
  then show ?case
    using start_step [OF assms(1), of m] by (cases "offset < start x m") (auto simp: covers_def)
qed (simp add: start_0 [OF assms(1)])

lemma covers_bound:
  assumes "ok x" and "covers x i offset"
  shows "0 \<le> offset \<and> offset < start x (n x)"
  using assms(2) start_mono [OF assms(1), of 0 i] end_before_start [OF assms(1), of i "n x"]
    start_step [OF assms(1), of i] start_0 [OF assms(1)]
  by (cases "i + 1 = n x") (auto simp: covers_def)

lemma chop_finds:
  assumes "ok x" and "0 \<le> l" and "r < n x" and "l \<le> i" and "i \<le> r" and "covers x i offset"
  shows "chop (start x) (sz x) offset l r = Some i"
  using assms(2-5)
proof (induction "nat (r - l + 1)" arbitrary: l r rule: less_induct)
  case less
  let ?m = "(l + r) div 2"
  have m: "l \<le> ?m" "?m \<le> r" "0 \<le> ?m" "?m < n x"
    using less.prems by auto
  have "?m = i" if "start x ?m \<le> offset" "offset < start x ?m + sz x ?m"
    using covers_unique [OF assms(1) _ assms(6), of ?m] that m(3,4) by (simp add: covers_def)
  moreover have "?m < i" if "start x ?m + sz x ?m \<le> offset"
    using that assms(6) end_before_start [OF assms(1), of i ?m] m sz_pos [OF assms(1), of ?m]
    by (cases i ?m rule: linorder_cases) (auto simp: covers_def)
  moreover have "i < ?m" if "offset < start x ?m"
    using that assms(6) start_mono [OF assms(1), of ?m i] m
    by (cases i ?m rule: linorder_cases) (auto simp: covers_def)
  ultimately show ?case
    using less.hyps [of r "?m + 1"] less.hyps [of "?m - 1" l] less.prems m assms(6) sz_pos [OF assms(1), of ?m]
    by (subst chop.simps) (auto simp: Let_def covers_def)
qed

lemma chop_sound:
  "0 \<le> l \<Longrightarrow> r < n x \<Longrightarrow> chop (start x) (sz x) offset l r = Some i \<Longrightarrow> covers x i offset"
proof (induction "nat (r - l + 1)" arbitrary: l r rule: less_induct)
  case less
  let ?m = "(l + r) div 2"
  have lr: "l \<le> r"
    using less.prems(3) by (subst (asm) chop.simps) (auto split: if_splits)
  then have m: "0 \<le> ?m" "?m < n x" "nat (r - (?m + 1) + 1) < nat (r - l + 1)" "nat (?m - 1 - l + 1) < nat (r - l + 1)"
    using less.prems(1,2) by auto
  have "(if offset \<ge> start x ?m \<and> offset < start x ?m + sz x ?m then Some ?m
     else if start x ?m < offset then chop (start x) (sz x) offset (?m + 1) r
     else chop (start x) (sz x) offset l (?m - 1)) = Some i"
    using less.prems(3) lr by (subst (asm) chop.simps) (simp only: Let_def simp_thms if_True)
  then show ?case
    using less.hyps [OF m(3)] less.hyps [OF m(4)] less.prems(1,2) m(1,2)
    by (auto simp: covers_def split: if_splits)
qed

lemma chop_covers:
  "ok x \<Longrightarrow> chop (start x) (sz x) offset 0 (n x - 1) = Some i \<longleftrightarrow> covers x i offset"
  using chop_finds [of x 0 "n x - 1" i offset] chop_sound [of 0 "n x - 1" x offset i] by (auto simp: covers_def)

end

section \<open>The layout\<close>

definition spec_count :: "layout_manager \<Rightarrow> int" where
  "spec_count lm = (case lm_entries lm of Count n \<Rightarrow> n | Entries es \<Rightarrow> int (length es))"

definition spec_default :: "layout_manager \<Rightarrow> int \<Rightarrow> int" where
  "spec_default lm i =
     (case lm_entries lm of Count n \<Rightarrow> lm_defaultSize lm | Entries es \<Rightarrow> le_defaultSize (es ! nat i))"

definition spec_size :: "layout_manager \<Rightarrow> int \<Rightarrow> int" where
  "spec_size lm i = (case map_of (lm_overrides lm) i of None \<Rightarrow> spec_default lm i | Some s \<Rightarrow> s)"

definition spec_start :: "layout_manager \<Rightarrow> int \<Rightarrow> int" where
  "spec_start lm i = (\<Sum>j \<in> {0..<i}. spec_size lm j)"

definition spec_entry :: "layout_manager \<Rightarrow> int \<Rightarrow> layout_entry" where
  "spec_entry lm i = new_LayoutEntry i (spec_start lm i) (spec_default lm i) (map_of (lm_overrides lm) i)"

text \<open>Entries that are numbered, overridden and placed as they should.\<close>

fun laid_out :: "(int \<times> int) list \<Rightarrow> int \<Rightarrow> int \<Rightarrow> layout_entry list \<Rightarrow> bool" where
  "laid_out overrides index start [] \<longleftrightarrow> True"
| "laid_out overrides index start (e # es) \<longleftrightarrow>
     le_index e = index \<and> le_start e = start \<and> le_overrideSize e = map_of overrides index \<and>
     laid_out overrides (index + 1) (le_end e) es"

definition overrides_ok :: "(int \<times> int) list \<Rightarrow> bool" where
  "overrides_ok os \<longleftrightarrow> distinct (map fst os) \<and> list_all (\<lambda>(i, s). 0 \<le> i \<and> 0 < s) os"

definition lm_ok :: "layout_manager \<Rightarrow> bool" where
  "lm_ok lm \<longleftrightarrow>
     0 < lm_defaultSize lm \<and> overrides_ok (lm_overrides lm) \<and>
     (case lm_entries lm of
        Count n \<Rightarrow> 0 \<le> n
      | Entries es \<Rightarrow> laid_out (lm_overrides lm) 0 0 es \<and> list_all (\<lambda>e. 0 < le_defaultSize e) es) \<and>
     (case lm_cached lm of
        None \<Rightarrow> True
      | Some e \<Rightarrow> 0 \<le> le_index e \<and> le_index e < spec_count lm \<and> e = spec_entry lm (le_index e))"

lemma interval_extend: "0 \<le> (i::int) \<Longrightarrow> {0..<i + 1} = insert i {0..<i}"
  by auto

lemma spec_start_step [simp]: "0 \<le> i \<Longrightarrow> spec_start lm (i + 1) = spec_start lm i + spec_size lm i"
  by (simp add: spec_start_def interval_extend)

lemma spec_start_0 [simp]: "spec_start lm 0 = 0"
  by (simp add: spec_start_def)

lemma override_pos: "overrides_ok os \<Longrightarrow> map_of os i = Some s \<Longrightarrow> 0 \<le> i \<and> 0 < s"
  by (auto simp: overrides_ok_def list_all_iff dest!: map_of_SomeD)

lemma spec_size_pos:
  assumes "lm_ok lm" and "0 \<le> i" and "i < spec_count lm"
  shows "0 < spec_size lm i"
proof -
  have "0 < spec_default lm i"
    using assms by (auto simp: lm_ok_def spec_default_def spec_count_def list_all_length split: layout_entries.splits)
  with assms(1) override_pos [of "lm_overrides lm" i] show ?thesis
    by (auto simp: spec_size_def lm_ok_def split: option.split)
qed

interpretation layout: axis lm_ok spec_count spec_start spec_size
  by unfold_locales (auto intro: spec_size_pos)

section \<open>Starts computed from the overrides\<close>

lemma adjust_overrides_sum:
  "adjust_overrides d i acc os = acc + (\<Sum>(k, s) \<leftarrow> takeWhile (\<lambda>x. fst x < i) os. s - d)"
  by (induction os arbitrary: acc) auto

lemma takeWhile_sorted:
  "sorted (map fst os) \<Longrightarrow> takeWhile (\<lambda>x. fst x < (i::int)) os = filter (\<lambda>x. fst x < i) os"
proof (induction os)
  case (Cons x os)
  show ?case
  proof (cases "fst x < i")
    case False
    with Cons.prems have "filter (\<lambda>x. fst x < i) os = []"
      by (auto simp: filter_empty_conv)
    with False show ?thesis
      by simp
  qed (use Cons in simp)
qed simp

lemma sum_list_filter_sort:
  "(\<Sum>x \<leftarrow> filter P (sort_key k xs). f x) = (\<Sum>x \<leftarrow> filter P xs. f x)" for f :: "'a \<Rightarrow> int"
  by (simp flip: sum_mset_sum_list add: mset_filter)

lemma sum_overrides:
  assumes "distinct (map fst os)" and "list_all (\<lambda>(k, s). 0 \<le> k \<and> 0 < s) os" and "0 \<le> i"
  shows "(\<Sum>j \<in> {0..<i}. case map_of os j of None \<Rightarrow> (d::int) | Some s \<Rightarrow> s)
    = i * d + (\<Sum>(k, s) \<leftarrow> filter (\<lambda>x. fst x < i) os. s - d)"
  using assms(1,2)
proof (induction os)
  case (Cons x os)
  obtain k s where x: "x = (k, s)"
    by force
  have k: "map_of os k = None" "0 \<le> k"
    using Cons.prems by (auto simp: x map_of_eq_None_iff)
  have "(case map_of (x # os) j of None \<Rightarrow> d | Some s \<Rightarrow> s) =
      (case map_of os j of None \<Rightarrow> d | Some s \<Rightarrow> s) + (if j = k then s - d else 0)" for j
    using k(1) by (simp add: x)
  then have "(\<Sum>j \<in> {0..<i}. case map_of (x # os) j of None \<Rightarrow> d | Some s \<Rightarrow> s) =
      (\<Sum>j \<in> {0..<i}. case map_of os j of None \<Rightarrow> d | Some s \<Rightarrow> s) + (if k < i then s - d else 0)"
    using k(2) by (simp add: sum.distrib sum.delta)
  with Cons show ?case
    by (simp add: x)
qed (use assms(3) in simp)

lemma counted_start_spec:
  assumes "lm_ok lm" and "lm_entries lm = Count n" and "0 \<le> i"
  shows "counted_start lm i = spec_start lm i"
proof -
  have "overrides_ok (lm_overrides lm)"
    using assms(1) by (simp add: lm_ok_def)
  then have "spec_start lm i =
      i * lm_defaultSize lm + (\<Sum>(k, s) \<leftarrow> filter (\<lambda>x. fst x < i) (lm_overrides lm). s - lm_defaultSize lm)"
    using sum_overrides [of "lm_overrides lm" i "lm_defaultSize lm"] assms(2,3)
    by (simp add: spec_start_def spec_size_def spec_default_def overrides_ok_def cong: option.case_cong)
  then show ?thesis
    by (simp add: counted_start_def getSortedLayoutOverrides_def adjust_overrides_sum takeWhile_sorted
        sum_list_filter_sort)
qed

section \<open>Laid out entries\<close>

lemma laid_out_build: "laid_out os k start (build_entries os k start ss)"
  by (induction ss arbitrary: k start) (simp_all add: Let_def new_LayoutEntry_def)

lemma build_entries_defaults: "map le_defaultSize (build_entries os k start ss) = ss"
  by (induction ss arbitrary: k start) (simp_all add: Let_def new_LayoutEntry_def)

lemma laid_out_restart:
  assumes "laid_out os k start0 es" and "\<forall>j \<ge> k. map_of os' j = map_of os j"
  shows "laid_out os' k start (restart start es)"
  using assms
proof (induction es arbitrary: k start0 start)
  case (Cons e es)
  then show ?case
    using Cons.IH [of "k + 1" "le_end e"] by (simp add: Let_def)
qed simp

lemma restart_defaults [simp]: "map le_defaultSize (restart start es) = map le_defaultSize es"
  by (induction es arbitrary: start) (simp_all add: Let_def)

lemma laid_out_override:
  assumes "laid_out os k start es" and "m < length es" and "map_of os' (k + int m) = v"
    and "\<forall>j. j \<noteq> k + int m \<longrightarrow> map_of os' j = map_of os j"
  shows "laid_out os' k start (take m es @
    (es ! m)\<lparr>le_overrideSize := v\<rparr> # restart (le_end ((es ! m)\<lparr>le_overrideSize := v\<rparr>)) (drop (Suc m) es))"
  using assms
proof (induction es arbitrary: k start m)
  case (Cons e es)
  show ?case
  proof (cases m)
    case 0
    with Cons.prems laid_out_restart [of os "k + 1" "le_end e" es os'] show ?thesis
      by simp
  next
    case (Suc m')
    then show ?thesis
      using Cons.prems Cons.IH [of "k + 1" "le_end e" m'] by (simp add: add.assoc)
  qed
qed simp

lemma laid_out_nth:
  assumes "laid_out os k start es" and "j < length es"
  shows "le_index (es ! j) = k + int j \<and> le_overrideSize (es ! j) = map_of os (k + int j)"
  using assms
proof (induction es arbitrary: k start j)
  case (Cons e es)
  then show ?case
    using Cons.IH [of "k + 1" "le_end e" "j - 1"] by (cases j) (auto simp: add.assoc)
qed simp

lemma laid_out_starts:
  assumes "laid_out os k start es" and "j < length es"
  shows "le_start (es ! j) = start + (\<Sum>i<j. le_size (es ! i))"
  using assms
proof (induction es arbitrary: k start j)
  case (Cons e es)
  then show ?case
    using Cons.IH [of "k + 1" "le_end e" "j - 1"]
    by (cases j) (auto simp: sum.lessThan_Suc_shift le_end_def simp del: sum.lessThan_Suc)
qed simp

lemma spec_start_nat: "spec_start lm (int j) = (\<Sum>i<j. spec_size lm (int i))"
  by (induction j) (simp_all add: add.commute [of 1])

lemma entries_spec:
  assumes "lm_ok lm" and "lm_entries lm = Entries es" and "j < length es"
  shows "es ! j = spec_entry lm (int j)"
proof -
  have laid: "laid_out (lm_overrides lm) 0 0 es"
    using assms(1,2) by (simp add: lm_ok_def)
  have sz: "le_size (es ! i) = spec_size lm (int i)" if "i < length es" for i
    using laid_out_nth [OF laid that] assms(2) by (simp add: le_size_def spec_size_def spec_default_def split: option.split)
  have "le_start (es ! j) = spec_start lm (int j)"
    using laid_out_starts [OF laid assms(3)] assms(3) sz by (simp add: spec_start_nat)
  with laid_out_nth [OF laid assms(3)] assms(2) show ?thesis
    by (simp add: spec_entry_def new_LayoutEntry_def spec_default_def)
qed

section \<open>Lookups\<close>

lemma computed_entry_spec:
  assumes "lm_ok lm" and "lm_entries lm = Count n" and "0 \<le> i"
  shows "computed_entry lm i = spec_entry lm i"
proof -
  have "counted_start lm i = i * lm_defaultSize lm" if "lm_overrides lm = []"
    using that by (simp add: counted_start_def getSortedLayoutOverrides_def)
  then show ?thesis
    using counted_start_spec [OF assms] assms(2)
    by (simp add: computed_entry_def spec_entry_def spec_default_def)
qed

lemma getLayoutEntry_spec:
  assumes "lm_ok lm"
  shows "getLayoutEntry i lm = (if 0 \<le> i \<and> i < spec_count lm then Some (spec_entry lm i) else None)"
proof -
  have "0 \<le> le_index e \<and> le_index e < spec_count lm \<and> e = spec_entry lm (le_index e)" if "lm_cached lm = Some e" for e
    using assms that by (simp add: lm_ok_def)
  moreover have "(case lm_entries lm of
        Entries es \<Rightarrow> (if i \<ge> int (length es) then None else js_get es i)
      | Count n \<Rightarrow> (if i \<ge> n then None else Some (computed_entry lm i))) =
      (if i < spec_count lm then Some (spec_entry lm i) else None)" if "0 \<le> i"
    using that assms computed_entry_spec [OF assms _ that] entries_spec [OF assms, of _ "nat i"]
    by (auto simp: spec_count_def js_get_def nat_less_iff split: layout_entries.split)
  ultimately show ?thesis
    by (auto simp: getLayoutEntry_def Let_def split: option.split)
qed

lemma spec_entry_fields [simp]:
  "le_index (spec_entry lm i) = i" "le_start (spec_entry lm i) = spec_start lm i"
  "le_size (spec_entry lm i) = spec_size lm i" "le_end (spec_entry lm i) = spec_start lm i + spec_size lm i"
  by (simp_all add: spec_entry_def new_LayoutEntry_def le_size_def le_end_def spec_size_def split: option.split)

text \<open>The layout does not depend on the cache.\<close>

lemma spec_default_uncached [simp]: "spec_default (lm\<lparr>lm_cached := c\<rparr>) = spec_default lm"
  by (simp add: fun_eq_iff spec_default_def split: layout_entries.split)

lemma spec_size_uncached [simp]: "spec_size (lm\<lparr>lm_cached := c\<rparr>) = spec_size lm"
  by (simp add: fun_eq_iff spec_size_def split: option.split)

lemma spec_uncached [simp]:
  "spec_count (lm\<lparr>lm_cached := c\<rparr>) = spec_count lm"
  "spec_start (lm\<lparr>lm_cached := c\<rparr>) i = spec_start lm i" "spec_entry (lm\<lparr>lm_cached := c\<rparr>) i = spec_entry lm i"
  by (simp_all add: spec_count_def spec_start_def spec_entry_def)

lemma lm_ok_cache:
  assumes "lm_ok lm" and "c = None \<or> (\<exists>i. 0 \<le> i \<and> i < spec_count lm \<and> c = Some (spec_entry lm i))"
  shows "lm_ok (lm\<lparr>lm_cached := c\<rparr>)"
  using assms by (auto simp: lm_ok_def split: layout_entries.splits)

text \<open>A search that is right: the entry that covers the offset, cached, or none and nothing changed.\<close>

definition found_right :: "layout_manager \<Rightarrow> int \<Rightarrow> found \<times> layout_manager \<Rightarrow> bool" where
  "found_right lm offset r \<longleftrightarrow>
     (\<exists>i. layout.covers lm i offset \<and> fst r = Found (spec_entry lm i) \<and>
        (snd r = lm \<or> snd r = lm\<lparr>lm_cached := Some (spec_entry lm i)\<rparr>)) \<or>
     (\<not> (\<exists>i. layout.covers lm i offset) \<and> r = (NotFound, lm))"

lemma find_entries_right:
  assumes "lm_ok lm" and "lm_entries lm = Entries es"
  shows "found_right lm offset (find_entries es offset lm)"
proof -
  have eq: "es ! nat i = spec_entry lm i" if "0 \<le> i" "i < spec_count lm" for i
    using entries_spec [OF assms, of "nat i"] that assms(2) by (simp add: spec_count_def nat_less_iff)
  have "chop (\<lambda>i. le_start (es ! nat i)) (\<lambda>i. le_size (es ! nat i)) offset 0 (int (length es) - 1) =
      chop (spec_start lm) (spec_size lm) offset 0 (int (length es) - 1)"
    by (rule chop_cong) (use eq assms(2) in \<open>simp add: spec_count_def\<close>)
  then have chop: "chop (\<lambda>i. le_start (es ! nat i)) (\<lambda>i. le_size (es ! nat i)) offset 0 (int (length es) - 1) = Some i
      \<longleftrightarrow> layout.covers lm i offset" for i
    using layout.chop_covers [OF assms(1), of offset i] assms(2) by (simp add: spec_count_def)
  show ?thesis
  proof (cases "chop (\<lambda>i. le_start (es ! nat i)) (\<lambda>i. le_size (es ! nat i)) offset 0 (int (length es) - 1)")
    case None
    then show ?thesis
      using chop by (auto simp: find_entries_def found_right_def)
  next
    case (Some i)
    then have "layout.covers lm i offset" "es ! nat i = spec_entry lm i"
      using chop eq by (simp_all add: layout.covers_def)
    with Some show ?thesis
      by (auto simp: find_entries_def found_right_def cache_def)
  qed
qed

lemma spec_start_uniform:
  assumes "lm_overrides lm = []" and "lm_entries lm = Count n" and "0 \<le> i"
  shows "spec_start lm i = i * lm_defaultSize lm"
  using assms by (simp add: spec_start_def spec_size_def spec_default_def)

lemma cache_right:
  assumes "layout.covers lm i offset"
  shows "found_right lm offset (cache (spec_entry lm i) lm)"
  using assms by (auto simp: found_right_def cache_def)

lemma find_uniform_right:
  assumes "lm_ok lm" and "lm_entries lm = Count n" and "lm_overrides lm = []" and "0 \<le> offset"
  shows "found_right lm offset (find_counted n offset lm)"
proof -
  have d: "0 < lm_defaultSize lm" and n: "spec_count lm = n"
    using assms(1,2) by (simp_all add: lm_ok_def spec_count_def)
  let ?i = "offset div lm_defaultSize lm"
  have i: "0 \<le> ?i"
    using d assms(4) by (simp add: pos_imp_zdiv_nonneg_iff)
  have q: "?i * lm_defaultSize lm \<le> offset" "offset < ?i * lm_defaultSize lm + lm_defaultSize lm"
    using d div_mult_mod_eq [of offset "lm_defaultSize lm"] pos_mod_bound [OF d, of offset] pos_mod_sign [OF d, of offset]
    by linarith+
  then have covers: "layout.covers lm ?i offset \<longleftrightarrow> ?i < n"
    using i n spec_start_uniform [OF assms(3,2) i] assms(2,3)
    by (auto simp: layout.covers_def spec_size_def spec_default_def)
  have "?i < n" if "layout.covers lm j offset" for j
  proof -
    have "0 \<le> j" "j < n" "offset < (j + 1) * lm_defaultSize lm"
      using that n spec_start_uniform [OF assms(3,2), of j] assms(2,3)
      by (auto simp: layout.covers_def spec_size_def spec_default_def algebra_simps)
    then have "?i * lm_defaultSize lm < (j + 1) * lm_defaultSize lm"
      using q(1) by linarith
    then have "?i < j + 1"
      using d mult_less_cancel_right_pos by blast
    with \<open>j < n\<close> show ?thesis
      by simp
  qed
  with covers d cache_right [of lm ?i offset] computed_entry_spec [OF assms(1,2) i] assms(3) show ?thesis
    by (auto simp: find_counted_def Let_def found_right_def)
qed

lemma find_overridden_right:
  assumes "lm_ok lm" and "lm_entries lm = Count n" and "lm_overrides lm \<noteq> []"
  shows "found_right lm offset (find_counted n offset lm)"
proof -
  let ?chop = "chop (counted_start lm)
    (\<lambda>i. case map_of (lm_overrides lm) i of None \<Rightarrow> lm_defaultSize lm | Some s \<Rightarrow> s) offset 0 (n - 1)"
  have "?chop = chop (spec_start lm) (spec_size lm) offset 0 (spec_count lm - 1)"
    using assms(2) counted_start_spec [OF assms(1,2)]
    by (simp add: spec_count_def) (rule chop_cong, simp add: spec_size_def spec_default_def split: option.split)
  then have chop: "?chop = Some i \<longleftrightarrow> layout.covers lm i offset" for i
    using layout.chop_covers [OF assms(1), of offset i] by simp
  show ?thesis
  proof (cases ?chop)
    case None
    then show ?thesis
      using chop assms(3) by (simp add: find_counted_def found_right_def)
  next
    case (Some i)
    then have "layout.covers lm i offset" "computed_entry lm i = spec_entry lm i"
      using chop computed_entry_spec [OF assms(1,2), of i] by (simp_all add: layout.covers_def)
    with Some assms(3) cache_right show ?thesis
      by (simp add: find_counted_def)
  qed
qed

lemma findLayoutEntry_right:
  assumes "lm_ok lm" and "0 \<le> offset"
  shows "found_right lm offset (findLayoutEntry offset lm)"
proof -
  have "found_right lm offset (case lm_entries lm of
      Count n \<Rightarrow> find_counted n offset lm | Entries es \<Rightarrow> find_entries es offset lm)"
    using find_entries_right [OF assms(1)] find_uniform_right [OF assms(1) _ _ assms(2)] find_overridden_right [OF assms(1)]
    by (cases "lm_overrides lm = []") (simp_all split: layout_entries.split)
  moreover have "found_right lm offset (Found e, lm)"
    if "lm_cached lm = Some e" "le_start e \<le> offset" "offset < le_end e" for e
  proof -
    have e: "0 \<le> le_index e" "le_index e < spec_count lm" "e = spec_entry lm (le_index e)"
      using assms(1) that(1) by (simp_all add: lm_ok_def)
    then have "layout.covers lm (le_index e) offset"
      using that(2,3) spec_entry_fields [of lm "le_index e"] by (simp add: layout.covers_def)
    with e(3) show ?thesis
      by (auto simp: found_right_def)
  qed
  ultimately show ?thesis
    using assms(2) by (auto simp: findLayoutEntry_def Let_def split: option.split)
qed

lemma found_right_iff:
  assumes "lm_ok lm" and "found_right lm offset r"
  shows "fst r = Found e \<longleftrightarrow> (\<exists>i. layout.covers lm i offset \<and> e = spec_entry lm i)"
proof (cases "\<exists>i. layout.covers lm i offset")
  case True
  then obtain i where i: "layout.covers lm i offset" "fst r = Found (spec_entry lm i)"
    using assms(2) by (auto simp: found_right_def)
  then have "layout.covers lm k offset \<longleftrightarrow> k = i" for k
    using layout.covers_unique [OF assms(1)] by blast
  with i show ?thesis
    by auto
qed (use assms(2) in \<open>simp add: found_right_def\<close>)

lemma lm_ok_find:
  assumes "lm_ok lm"
  shows "lm_ok (snd (findLayoutEntry offset lm))"
proof (cases "0 \<le> offset")
  case True
  with findLayoutEntry_right [OF assms True] assms show ?thesis
    by (auto simp: found_right_def layout.covers_def intro!: lm_ok_cache [OF assms])
qed (simp add: findLayoutEntry_def assms)

section \<open>Updates\<close>

lemma lm_ok_new: "0 < d \<Longrightarrow> lm_ok (new_LayoutManager d)"
  by (simp add: lm_ok_def new_LayoutManager_def overrides_ok_def)

definition sizes_ok :: "layout_sizes \<Rightarrow> bool" where
  "sizes_ok sizes = (case sizes of Number n \<Rightarrow> 0 \<le> n | Sizes ss \<Rightarrow> list_all (\<lambda>s. 0 < s) ss)"

lemma lm_ok_setLayoutEntries:
  assumes "lm_ok lm" and "sizes_ok sizes"
  shows "lm_ok (setLayoutEntries sizes lm)"
proof (cases sizes)
  case (Sizes ss)
  have "list_all (\<lambda>s. 0 < s) (map le_defaultSize (build_entries (lm_overrides lm) 0 0 ss))"
    using assms(2) Sizes by (simp add: build_entries_defaults sizes_ok_def)
  then have "list_all (\<lambda>e. 0 < le_defaultSize e) (build_entries (lm_overrides lm) 0 0 ss)"
    by (simp add: list_all_iff)
  with assms Sizes show ?thesis
    by (simp add: lm_ok_def setLayoutEntries_def laid_out_build)
qed (use assms in \<open>simp add: lm_ok_def setLayoutEntries_def sizes_ok_def\<close>)

text \<open>What an update at an index keeps: the count and the default sizes, and all entries in front of it.\<close>

definition updated_at :: "int \<Rightarrow> (int \<times> int) list \<Rightarrow> layout_manager \<Rightarrow> layout_manager \<Rightarrow> bool" where
  "updated_at index os lm lm' \<longleftrightarrow>
     lm_defaultSize lm' = lm_defaultSize lm \<and> lm_overrides lm' = os \<and> spec_count lm' = spec_count lm \<and>
     (\<forall>j. 0 \<le> j \<longrightarrow> j < spec_count lm \<longrightarrow> spec_default lm' j = spec_default lm j)"

lemma updated_entry_before:
  assumes "updated_at index os lm lm'" and "\<forall>j. j \<noteq> index \<longrightarrow> map_of os j = map_of (lm_overrides lm) j"
    and "0 \<le> k" and "k < index" and "k < spec_count lm"
  shows "spec_entry lm' k = spec_entry lm k"
proof -
  have "spec_size lm' j = spec_size lm j" if "0 \<le> j" "j \<le> k" for j
    using assms that by (simp add: spec_size_def updated_at_def split: option.split)
  then have "spec_start lm' k = spec_start lm k"
    by (simp add: spec_start_def)
  with assms show ?thesis
    by (simp add: spec_entry_def updated_at_def)
qed

lemma overridden_defaults:
  assumes "m < length es"
  shows "map le_defaultSize (take m es @ (es ! m)\<lparr>le_overrideSize := v\<rparr> # restart start (drop (Suc m) es)) =
    map le_defaultSize es"
  using assms id_take_nth_drop [of m "map le_defaultSize es"] by (simp add: take_map drop_map)

lemma laid_out_unchanged:
  assumes "laid_out os k start es" and "\<forall>j. k \<le> j \<and> j < k + int (length es) \<longrightarrow> map_of os' j = map_of os j"
  shows "laid_out os' k start es"
  using assms
proof (induction es arbitrary: k start)
  case (Cons e es)
  then show ?case
    using Cons.IH [of "k + 1" "le_end e"] by simp
qed simp

text \<open>The representation of the entries after an update.\<close>

definition repr_ok :: "layout_manager \<Rightarrow> bool" where
  "repr_ok lm =
     (case lm_entries lm of Count n \<Rightarrow> 0 \<le> n
      | Entries es \<Rightarrow> laid_out (lm_overrides lm) 0 0 es \<and> list_all (\<lambda>e. 0 < le_defaultSize e) es)"

lemma adjust_entries_ok:
  assumes "repr_ok lm" and "0 \<le> index" and "\<forall>j. j \<noteq> index \<longrightarrow> map_of os j = map_of (lm_overrides lm) j"
  shows "\<exists>lm'. adjust_entries index (map_of os index) (lm\<lparr>lm_overrides := os\<rparr>) = Inr lm' \<and>
    updated_at index os lm lm' \<and> lm_cached lm' = lm_cached lm \<and> repr_ok lm'"
proof (cases "lm_entries lm")
  case (Count n)
  with assms(1) show ?thesis
    by (simp add: adjust_entries_def updated_at_def spec_count_def spec_default_def repr_ok_def)
next
  case (Entries es)
  have laid: "laid_out (lm_overrides lm) 0 0 es" "list_all (\<lambda>e. 0 < le_defaultSize e) es"
    using assms(1) Entries by (simp_all add: repr_ok_def)
  show ?thesis
  proof (cases "nat index < length es")
    case True
    let ?e = "(es ! nat index)\<lparr>le_overrideSize := map_of os index\<rparr>"
    let ?es = "take (nat index) es @ ?e # restart (le_end ?e) (drop (Suc (nat index)) es)"
    have "laid_out os 0 0 ?es"
      using laid_out_override [OF laid(1) True, of os] assms(2,3) by simp
    moreover have d: "map le_defaultSize ?es = map le_defaultSize es"
      by (rule overridden_defaults [OF True])
    moreover have len: "length ?es = length es"
      using arg_cong [OF d, of length] by (simp only: length_map)
    moreover have "list_all (\<lambda>s. 0 < s) (map le_defaultSize ?es)"
      unfolding d using laid(2) by (simp add: list_all_iff)
    then have "list_all (\<lambda>e. 0 < le_defaultSize e) ?es"
      by (simp only: list_all_iff set_map ball_simps)
    moreover have "le_defaultSize (?es ! j) = le_defaultSize (es ! j)" if "j < length es" for j
      using arg_cong [OF d, of "\<lambda>xs. xs ! j"] that len by (simp only: nth_map)
    ultimately show ?thesis
      using Entries True assms(2)
      by (intro exI [of _ "lm\<lparr>lm_overrides := os, lm_entries := Entries ?es\<rparr>"])
        (simp add: adjust_entries_def override_entry_def js_get_def updated_at_def spec_count_def spec_default_def
          repr_ok_def nat_less_iff Let_def)
  next
    case False
    then have "\<forall>j. 0 \<le> j \<and> j < 0 + int (length es) \<longrightarrow> map_of os j = map_of (lm_overrides lm) j"
      using assms(2,3) by auto
    then have "laid_out os 0 0 es"
      by (rule laid_out_unchanged [OF laid(1)])
    with False Entries laid(2) assms(2) show ?thesis
      by (auto simp: adjust_entries_def updated_at_def spec_count_def spec_default_def repr_ok_def)
  qed
qed

lemma lm_ok_iff:
  "lm_ok lm \<longleftrightarrow> 0 < lm_defaultSize lm \<and> overrides_ok (lm_overrides lm) \<and> repr_ok lm \<and>
     (case lm_cached lm of
        None \<Rightarrow> True
      | Some e \<Rightarrow> 0 \<le> le_index e \<and> le_index e < spec_count lm \<and> e = spec_entry lm (le_index e))"
  by (simp add: lm_ok_def repr_ok_def)

lemma lm_ok_updated:
  assumes "lm_ok lm" and "overrides_ok os" and "0 \<le> index"
    and "\<forall>j. j \<noteq> index \<longrightarrow> map_of os j = map_of (lm_overrides lm) j"
  shows "\<exists>lm'. adjust_entries index (map_of os index) ((discard_cached index lm)\<lparr>lm_overrides := os\<rparr>) = Inr lm' \<and>
    updated_at index os lm lm' \<and> lm_ok lm'"
proof -
  let ?lm = "discard_cached index lm"
  have d: "lm_overrides ?lm = lm_overrides lm" "lm_defaultSize ?lm = lm_defaultSize lm"
    "lm_entries ?lm = lm_entries lm" "repr_ok ?lm"
    "updated_at index os ?lm lm' \<longleftrightarrow> updated_at index os lm lm'" for lm'
    using assms(1)
    by (auto simp: discard_cached_def repr_ok_def lm_ok_iff updated_at_def split: option.split layout_entries.splits)
  obtain lm' where lm': "adjust_entries index (map_of os index) (?lm\<lparr>lm_overrides := os\<rparr>) = Inr lm'"
    "updated_at index os lm lm'" "lm_cached lm' = lm_cached ?lm" "repr_ok lm'"
    using adjust_entries_ok [OF d(4) assms(3), of os] assms(4) d by auto
  have "0 \<le> le_index e \<and> le_index e < spec_count lm' \<and> e = spec_entry lm' (le_index e)"
    if "lm_cached lm' = Some e" for e
  proof -
    have "lm_cached lm = Some e" "le_index e < index"
      using that lm'(3) by (auto simp: discard_cached_def split: option.splits if_splits)
    then have "0 \<le> le_index e" "le_index e < spec_count lm" "e = spec_entry lm (le_index e)"
      using assms(1) by (simp_all add: lm_ok_iff)
    with updated_entry_before [OF lm'(2) assms(4), of "le_index e"] \<open>le_index e < index\<close> lm'(2) show ?thesis
      by (simp add: updated_at_def)
  qed
  with lm' assms(1,2) have "lm_ok lm'"
    by (auto simp: lm_ok_iff updated_at_def split: option.split)
  with lm' show ?thesis
    by blast
qed

lemma overrides_ok_update:
  assumes "overrides_ok os" and "0 \<le> i" and "0 < v"
  shows "overrides_ok (AList.update i v os)"
proof -
  have "list_all (\<lambda>(i, s). 0 \<le> i \<and> 0 < s) os \<Longrightarrow> list_all (\<lambda>(i, s). 0 \<le> i \<and> 0 < s) (AList.update i v os)"
    using assms(2,3) by (induction os) auto
  with assms(1) distinct_update [of os i v] show ?thesis
    by (simp add: overrides_ok_def)
qed

lemma overrides_ok_delete: "overrides_ok os \<Longrightarrow> overrides_ok (AList.delete i os)"
  by (auto simp: overrides_ok_def list_all_iff AList.delete_eq distinct_map_filter)

lemma setLayoutOverride_ok:
  assumes "lm_ok lm"
  shows "\<exists>lm'. setLayoutOverride i v lm = Inr lm' \<and> lm_ok lm' \<and>
    (if i < 0 \<or> v \<le> 0 then lm' = lm else updated_at i (AList.update i v (lm_overrides lm)) lm lm')"
proof (cases "i < 0 \<or> v \<le> 0")
  case False
  let ?os = "AList.update i v (lm_overrides lm)"
  have "overrides_ok ?os"
    using assms False by (simp add: lm_ok_iff overrides_ok_update)
  then obtain lm' where "adjust_entries i (map_of ?os i) ((discard_cached i lm)\<lparr>lm_overrides := ?os\<rparr>) = Inr lm'"
    "updated_at i ?os lm lm'" "lm_ok lm'"
    using lm_ok_updated [OF assms, of ?os i] False by (auto simp: update_conv')
  moreover have "lm_overrides (discard_cached i lm) = lm_overrides lm"
    by (simp add: discard_cached_def split: option.split)
  ultimately show ?thesis
    using False by (simp add: setLayoutOverride_def Let_def update_conv')
qed (use assms in \<open>simp add: setLayoutOverride_def\<close>)

lemma clearLayoutOverride_ok:
  assumes "lm_ok lm" and "0 \<le> i"
  shows "\<exists>lm'. clearLayoutOverride i lm = Inr lm' \<and> lm_ok lm' \<and>
    updated_at i (AList.delete i (lm_overrides lm)) lm lm'"
proof -
  let ?os = "AList.delete i (lm_overrides lm)"
  have "overrides_ok ?os"
    using assms by (simp add: lm_ok_iff overrides_ok_delete)
  then obtain lm' where "adjust_entries i (map_of ?os i) ((discard_cached i lm)\<lparr>lm_overrides := ?os\<rparr>) = Inr lm'"
    "updated_at i ?os lm lm'" "lm_ok lm'"
    using lm_ok_updated [OF assms(1), of ?os i] assms(2) by (auto simp: delete_conv')
  moreover have "lm_overrides (discard_cached i lm) = lm_overrides lm"
    by (simp add: discard_cached_def split: option.split)
  ultimately show ?thesis
    by (simp add: clearLayoutOverride_def Let_def delete_conv')
qed

section \<open>Reachable managers\<close>

text \<open>The managers that clients produce with counts and sizes that make sense.\<close>

inductive reachable_layout :: "layout_manager \<Rightarrow> bool" where
  created: "0 < d \<Longrightarrow> reachable_layout (new_LayoutManager d)"
| entries_set: "reachable_layout lm \<Longrightarrow> sizes_ok sizes \<Longrightarrow> reachable_layout (setLayoutEntries sizes lm)"
| override_set: "reachable_layout lm \<Longrightarrow> setLayoutOverride i v lm = Inr lm' \<Longrightarrow> reachable_layout lm'"
| override_cleared:
    "reachable_layout lm \<Longrightarrow> 0 \<le> i \<Longrightarrow> clearLayoutOverride i lm = Inr lm' \<Longrightarrow> reachable_layout lm'"
| searched: "reachable_layout lm \<Longrightarrow> reachable_layout (snd (findLayoutEntry offset lm))"

lemma reachable_lm_ok: "reachable_layout lm \<Longrightarrow> lm_ok lm"
proof (induction rule: reachable_layout.induct)
  case (override_set lm i v lm')
  then show ?case
    using setLayoutOverride_ok [of lm i v] by auto
next
  case (override_cleared lm i lm')
  then show ?case
    using clearLayoutOverride_ok [of lm i] by auto
qed (simp_all add: lm_ok_new lm_ok_setLayoutEntries lm_ok_find)

lemma updated_size:
  assumes "updated_at i (AList.update i v (lm_overrides lm)) lm lm'" and "0 \<le> j" and "j < spec_count lm"
  shows "spec_size lm' j = (if j = i then v else spec_size lm j)"
  using assms by (simp add: updated_at_def spec_size_def update_conv' split: option.split)

lemma updated_start:
  assumes "updated_at i (AList.update i v (lm_overrides lm)) lm lm'" and "0 \<le> i" and "0 \<le> j" and "j \<le> spec_count lm"
  shows "spec_start lm' j = spec_start lm j + (if i < j then v - spec_size lm i else 0)"
  using assms(3,4)
proof (induction j rule: int_ge_induct)
  case (step j)
  then show ?case
    using updated_size [OF assms(1), of j] assms(2) by auto
qed (use assms(2) in simp)

lemma uniform_same_layout:
  assumes "0 \<le> i" and "i < int n"
  shows "spec_entry (setLayoutEntries (Sizes (replicate n (lm_defaultSize lm))) lm) i =
      spec_entry (setLayoutEntries (Number (int n)) lm) i"
proof -
  let ?a = "setLayoutEntries (Sizes (replicate n (lm_defaultSize lm))) lm"
  let ?b = "setLayoutEntries (Number (int n)) lm"
  let ?es = "build_entries (lm_overrides lm) 0 0 (replicate n (lm_defaultSize lm))"
  have ds: "map le_defaultSize ?es = replicate n (lm_defaultSize lm)"
    by (rule build_entries_defaults)
  then have "length ?es = n"
    by (metis length_map length_replicate)
  then have "le_defaultSize (?es ! j) = lm_defaultSize lm" if "j < n" for j
    using arg_cong [OF ds, of "\<lambda>xs. xs ! j"] that by simp
  then have default: "spec_default ?a j = spec_default ?b j" if "0 \<le> j" "j < int n" for j
    using that by (simp add: spec_default_def setLayoutEntries_def nat_less_iff)
  moreover have os: "lm_overrides ?a = lm_overrides ?b"
    by (simp add: setLayoutEntries_def)
  ultimately have "spec_size ?a j = spec_size ?b j" if "0 \<le> j" "j < int n" for j
    using that by (simp add: spec_size_def split: option.split)
  with assms have "spec_start ?a i = spec_start ?b i"
    by (simp add: spec_start_def)
  with default os assms show ?thesis
    by (simp add: spec_entry_def)
qed

lemma last_entry_end:
  assumes "lm_ok lm" and "lm_entries lm = Entries es" and "es \<noteq> []"
  shows "lm_size lm = Inr (spec_start lm (spec_count lm))"
proof -
  let ?k = "int (length es) - 1"
  have k: "0 \<le> ?k" "nat ?k < length es"
    using assms(3) by (auto simp: nat_less_iff Suc_leI)
  then have "es ! nat ?k = spec_entry lm ?k"
    using entries_spec [OF assms(1,2), of "nat ?k"] by simp
  then show ?thesis
    using k assms(2) spec_start_step [of ?k lm] by (simp add: lm_size_def js_get_def spec_count_def)
qed

lemma lm_size_spec:
  assumes "lm_ok lm"
  shows "lm_size lm = (if lm_entries lm = Entries [] then Inl TypeError else Inr (spec_start lm (spec_count lm)))"
proof (cases "lm_entries lm")
  case (Count n)
  then have "0 \<le> n"
    using assms by (simp add: lm_ok_def)
  from counted_start_spec [OF assms Count this] Count show ?thesis
    by (simp add: lm_size_def counted_start_def spec_count_def)
next
  case (Entries es)
  then show ?thesis
    using last_entry_end [OF assms Entries] by (auto simp: lm_size_def js_get_def)
qed

lemma found_layout:
  assumes "lm_ok lm"
  shows "(\<exists>i. layout.covers lm i offset \<and> fst (findLayoutEntry offset lm) = Found (spec_entry lm i) \<and> 0 \<le> offset) \<or>
      fst (findLayoutEntry offset lm) = NotFound"
    and "spec_count (snd (findLayoutEntry offset lm)) = spec_count lm"
    and "spec_entry (snd (findLayoutEntry offset lm)) = spec_entry lm"
    and "lm_size (snd (findLayoutEntry offset lm)) = lm_size lm"
proof -
  consider (negative) "offset < 0" | (found) "0 \<le> offset" "found_right lm offset (findLayoutEntry offset lm)"
    using findLayoutEntry_right [OF assms] by force
  then have "((\<exists>i. layout.covers lm i offset \<and> fst (findLayoutEntry offset lm) = Found (spec_entry lm i) \<and> 0 \<le> offset) \<or>
      fst (findLayoutEntry offset lm) = NotFound) \<and> (\<exists>c. snd (findLayoutEntry offset lm) = lm\<lparr>lm_cached := c\<rparr>)"
  proof cases
    case negative
    then show ?thesis
      by (auto simp: findLayoutEntry_def intro!: exI [of _ "lm_cached lm"])
  next
    case found
    have "\<exists>c. lm = lm\<lparr>lm_cached := c\<rparr>"
      by (rule exI [of _ "lm_cached lm"]) simp
    with found show ?thesis
      unfolding found_right_def by (metis fst_conv snd_conv)
  qed
  moreover have "spec_entry (lm\<lparr>lm_cached := c\<rparr>) = spec_entry lm" "lm_size (lm\<lparr>lm_cached := c\<rparr>) = lm_size lm" for c
    by (simp_all add: fun_eq_iff spec_entry_def spec_start_def lm_size_def getSortedLayoutOverrides_def cong: layout_entries.case_cong)
  ultimately show "(\<exists>i. layout.covers lm i offset \<and> fst (findLayoutEntry offset lm) = Found (spec_entry lm i) \<and> 0 \<le> offset) \<or>
      fst (findLayoutEntry offset lm) = NotFound" "spec_count (snd (findLayoutEntry offset lm)) = spec_count lm"
    "spec_entry (snd (findLayoutEntry offset lm)) = spec_entry lm" "lm_size (snd (findLayoutEntry offset lm)) = lm_size lm"
    by (auto simp: spec_count_def)
qed

section \<open>Properties\<close>

text \<open>
  Every manager that clients produce with sensible counts and sizes is in order: its overrides are
  distinct and positive, its entries are numbered and laid out without gaps, its cached entry is the
  entry of the layout with that index, and setting an override or clearing one at a non-negative index
  does not throw.
\<close>

theorem layout_invariant:
  assumes "reachable_layout lm"
  shows "lm_ok lm \<and> (\<exists>lm'. setLayoutOverride i v lm = Inr lm') \<and> (0 \<le> i \<longrightarrow> (\<exists>lm'. clearLayoutOverride i lm = Inr lm'))"
  using reachable_lm_ok [OF assms] setLayoutOverride_ok [of lm i v] clearLayoutOverride_ok [of lm i] by blast

theorem layout_invariant_witness:
  "\<exists>lm. setLayoutOverride 2 30 (setLayoutEntries (Sizes [10, 20, 10]) (new_LayoutManager 10)) = Inr lm \<and> lm_ok lm"
proof -
  have r: "reachable_layout (setLayoutEntries (Sizes [10, 20, 10]) (new_LayoutManager 10))"
    by (intro reachable_layout.intros) (simp_all add: sizes_ok_def)
  from layout_invariant [OF this] obtain lm where
    "setLayoutOverride 2 30 (setLayoutEntries (Sizes [10, 20, 10]) (new_LayoutManager 10)) = Inr lm"
    by blast
  with layout_invariant [OF override_set [OF r this]] show ?thesis
    by blast
qed

text \<open>
  A lookup by index gives, whatever is cached and whether the entries are counted or listed, the
  entry whose start is the sum of the sizes of the entries before it, with overrides in place of default
  sizes; there is one exactly for the indexes of the layout.
\<close>

theorem get_layout_entry_refines:
  assumes "reachable_layout lm"
  shows "getLayoutEntry i lm = (if 0 \<le> i \<and> i < spec_count lm then Some (spec_entry lm i) else None)"
  by (rule getLayoutEntry_spec [OF reachable_lm_ok [OF assms]])

theorem get_layout_entry_refines_witness:
  "getLayoutEntry 2 (setLayoutEntries (Number 3) (new_LayoutManager 10)) =
     Some (spec_entry (setLayoutEntries (Number 3) (new_LayoutManager 10)) 2)"
proof -
  have "reachable_layout (setLayoutEntries (Number 3) (new_LayoutManager 10))"
    by (intro reachable_layout.intros) (simp_all add: sizes_ok_def)
  from get_layout_entry_refines [OF this, of 2] show ?thesis
    by (simp add: spec_count_def setLayoutEntries_def)
qed

text \<open>
  C4: A lookup by offset finds the entry that the offset falls into, and finds one exactly when the
  offset lies in the layout; it changes nothing of the layout.
\<close>

theorem find_layout_entry_refines:
  assumes "reachable_layout lm"
  shows "(fst (findLayoutEntry offset lm) = Found e \<longleftrightarrow>
      (\<exists>i. 0 \<le> i \<and> i < spec_count lm \<and> e = spec_entry lm i \<and> spec_start lm i \<le> offset \<and>
         offset < spec_start lm i + spec_size lm i)) \<and>
    ((\<exists>e. fst (findLayoutEntry offset lm) = Found e) \<longleftrightarrow> 0 \<le> offset \<and> offset < spec_start lm (spec_count lm)) \<and>
    getLayoutEntry j (snd (findLayoutEntry offset lm)) = getLayoutEntry j lm"
proof (cases "0 \<le> offset")
  case True
  have ok: "lm_ok lm"
    by (rule reachable_lm_ok [OF assms])
  have right: "found_right lm offset (findLayoutEntry offset lm)"
    by (rule findLayoutEntry_right [OF ok True])
  have e: "fst (findLayoutEntry offset lm) = Found e \<longleftrightarrow> (\<exists>i. layout.covers lm i offset \<and> e = spec_entry lm i)" for e
    by (rule found_right_iff [OF ok right])
  have "0 \<le> spec_count lm"
    using ok by (simp add: lm_ok_def spec_count_def split: layout_entries.splits)
  then have "(\<exists>i. layout.covers lm i offset) \<longleftrightarrow> offset < spec_start lm (spec_count lm)"
    using layout.covers_exists [OF ok, of "spec_count lm" offset] layout.covers_bound [OF ok] True by blast
  moreover have "getLayoutEntry j (snd (findLayoutEntry offset lm)) = getLayoutEntry j lm"
    using right getLayoutEntry_spec [OF ok] getLayoutEntry_spec [OF lm_ok_find [OF ok, of offset]]
    by (auto simp: found_right_def)
  ultimately show ?thesis
    using e True by (auto simp: layout.covers_def)
next
  case False
  have "\<not> (spec_start lm i \<le> offset)" if "0 \<le> i" "i < spec_count lm" for i
    using layout.start_mono [OF reachable_lm_ok [OF assms], of 0 i] that False by simp
  with False show ?thesis
    by (auto simp: findLayoutEntry_def)
qed

theorem find_layout_entry_refines_witness:
  "\<exists>e. fst (findLayoutEntry 25 (setLayoutEntries (Sizes [10, 20, 10]) (new_LayoutManager 10))) = Found e"
proof -
  let ?lm = "setLayoutEntries (Sizes [10, 20, 10]) (new_LayoutManager 10)"
  have "reachable_layout ?lm"
    by (intro reachable_layout.intros) (simp_all add: sizes_ok_def)
  moreover have "0 \<le> (25::int) \<and> 25 < spec_start ?lm (spec_count ?lm)"
    by code_simp
  ultimately show ?thesis
    using find_layout_entry_refines [of ?lm 25] by blast
qed

text \<open>
  The size of a layout is the sum of the sizes of its entries, whether they are counted or listed;
  only for an empty list of entries does reading it throw.
\<close>

theorem layout_size_refines:
  assumes "reachable_layout lm"
  shows "lm_size lm = (if lm_entries lm = Entries [] then Inl TypeError else Inr (spec_start lm (spec_count lm)))"
  by (rule lm_size_spec [OF reachable_lm_ok [OF assms]])

theorem layout_size_refines_witness:
  "lm_size (setLayoutEntries (Sizes []) (new_LayoutManager 10)) = Inl TypeError \<and>
   lm_size (setLayoutEntries (Sizes [10, 20]) (new_LayoutManager 10)) = Inr 30"
proof -
  let ?e = "setLayoutEntries (Sizes []) (new_LayoutManager 10)"
  let ?f = "setLayoutEntries (Sizes [10, 20]) (new_LayoutManager 10)"
  have "reachable_layout ?e" "reachable_layout ?f"
    by (intro reachable_layout.intros; simp add: sizes_ok_def)+
  moreover have "lm_entries ?e = Entries [] \<and> lm_entries ?f \<noteq> Entries [] \<and> spec_start ?f (spec_count ?f) = 30"
    by code_simp
  ultimately show ?thesis
    using layout_size_refines [of ?e] layout_size_refines [of ?f] by simp
qed

text \<open>
  Counting entries and listing the default size for each of them are the same layout, overrides
  included: every lookup by index gives the same entry.
\<close>

theorem counted_listed_equivalent:
  assumes "reachable_layout lm"
  shows "getLayoutEntry i (setLayoutEntries (Sizes (replicate n (lm_defaultSize lm))) lm) =
    getLayoutEntry i (setLayoutEntries (Number (int n)) lm)"
proof -
  let ?a = "setLayoutEntries (Sizes (replicate n (lm_defaultSize lm))) lm"
  let ?b = "setLayoutEntries (Number (int n)) lm"
  have "0 < lm_defaultSize lm"
    using reachable_lm_ok [OF assms] by (simp add: lm_ok_def)
  then have "sizes_ok (Sizes (replicate n (lm_defaultSize lm)))" "sizes_ok (Number (int n))"
    by (simp_all add: sizes_ok_def list_all_iff)
  then have "lm_ok ?a" "lm_ok ?b"
    using lm_ok_setLayoutEntries [OF reachable_lm_ok [OF assms]] by blast+
  moreover have "length (build_entries (lm_overrides lm) 0 0 (replicate n (lm_defaultSize lm))) = n"
    using arg_cong [OF build_entries_defaults, of length] by (simp only: length_map length_replicate)
  then have "spec_count ?a = int n" "spec_count ?b = int n"
    by (simp_all add: spec_count_def setLayoutEntries_def)
  ultimately show ?thesis
    using getLayoutEntry_spec [of ?a i] getLayoutEntry_spec [of ?b i] uniform_same_layout [of i n lm] by simp
qed

theorem counted_listed_equivalent_witness:
  "getLayoutEntry 1 (setLayoutEntries (Sizes (replicate 2 (lm_defaultSize (new_LayoutManager 5)))) (new_LayoutManager 5)) =
   getLayoutEntry 1 (setLayoutEntries (Number (int 2)) (new_LayoutManager 5))"
  by (rule counted_listed_equivalent) (simp add: created)

text \<open>
  Overriding the size of an entry moves exactly the entries after it, by the difference of the
  sizes, and gives the entry itself its new size; all others keep theirs.
\<close>

theorem override_moves_later_entries:
  assumes "reachable_layout lm" and "0 \<le> i" and "i < spec_count lm" and "0 < v" and "0 \<le> j" and "j < spec_count lm"
  shows "\<exists>lm' e e' old. setLayoutOverride i v lm = Inr lm' \<and> getLayoutEntry i lm = Some old \<and>
    getLayoutEntry j lm = Some e \<and> getLayoutEntry j lm' = Some e' \<and>
    le_start e' = le_start e + (if i < j then v - le_size old else 0) \<and>
    le_size e' = (if i = j then v else le_size e)"
proof -
  have ok: "lm_ok lm"
    by (rule reachable_lm_ok [OF assms(1)])
  obtain lm' where lm': "setLayoutOverride i v lm = Inr lm'" "lm_ok lm'"
    "updated_at i (AList.update i v (lm_overrides lm)) lm lm'"
    using setLayoutOverride_ok [OF ok, of i v] assms(2,4) by auto
  have "spec_count lm' = spec_count lm"
    using lm'(3) by (simp add: updated_at_def)
  then show ?thesis
    using lm' getLayoutEntry_spec [OF ok] getLayoutEntry_spec [OF lm'(2)] assms
      updated_size [OF lm'(3), of j] updated_start [OF lm'(3), of j]
    by auto
qed

theorem override_moves_later_entries_witness:
  "\<exists>lm' e e' old. setLayoutOverride 0 25 (setLayoutEntries (Number 3) (new_LayoutManager 10)) = Inr lm' \<and>
     getLayoutEntry 0 (setLayoutEntries (Number 3) (new_LayoutManager 10)) = Some old \<and>
     getLayoutEntry 2 (setLayoutEntries (Number 3) (new_LayoutManager 10)) = Some e \<and>
     getLayoutEntry 2 lm' = Some e' \<and> le_start e' = le_start e + (25 - le_size old)"
proof -
  have "reachable_layout (setLayoutEntries (Number 3) (new_LayoutManager 10))"
    by (intro reachable_layout.intros) (simp_all add: sizes_ok_def)
  moreover have "spec_count (setLayoutEntries (Number 3) (new_LayoutManager 10)) = 3"
    by (simp add: spec_count_def setLayoutEntries_def)
  ultimately show ?thesis
    using override_moves_later_entries [of "setLayoutEntries (Number 3) (new_LayoutManager 10)" 0 25 2] by auto
qed

text \<open>
  Clearing an override at a negative index of listed entries throws: unlike setting an override,
  clearing one does not check the index.
\<close>

theorem clear_negative_index_throws:
  "clearLayoutOverride (-1) (setLayoutEntries (Sizes [10]) (new_LayoutManager 10)) = Inl TypeError \<and>
   (\<exists>lm. setLayoutOverride (-1) 5 (setLayoutEntries (Sizes [10]) (new_LayoutManager 10)) = Inr lm)"
  by (simp add: clearLayoutOverride_def setLayoutOverride_def setLayoutEntries_def adjust_entries_def override_entry_def
      js_get_def discard_cached_def new_LayoutManager_def Let_def)

end
