(* ===== verification/Notebook_Selection.thy ===== *)
theory Notebook_Selection
  imports Machine
begin

text \<open>
  The selection of cells in a notebook: the class \<open>SelectionStateMachine\<close> of
  \<open>src/vs/workbench/services/positronNotebook/browser/selectionMachine.ts\<close>, every method. A cell is an
  object with identity, a value of the type variable; a selected cell is an option, because one of the
  moves can select \<open>undefined\<close>. What the machine asks of cells (to take or give up focus), of the
  observers of its state and of the log is recorded in the order it is asked, and so is the timer that
  focuses an editor; a method call on \<open>undefined\<close> is a \<open>TypeError\<close>.
\<close>

section \<open>State\<close>

datatype 'c selection_states = NoSelection | SingleSelection "'c option list" | MultiSelection "'c option list"
  | EditingSelection "'c option"

datatype cell_selection_type = Add | Edit | Normal

datatype 'c effect = Notify "'c selection_states" | Focus 'c | DefocusEditor 'c
  | FocusEditorTimer "'c option" | LogError

record 'c selection_machine =
  sm_state :: "'c selection_states"
  sm_cells :: "'c list"
  sm_effects :: "'c effect list"

definition new_SelectionStateMachine :: "'c selection_machine" where
  "new_SelectionStateMachine = \<lparr>sm_state = NoSelection, sm_cells = [], sm_effects = []\<rparr>"

definition emit :: "'c effect \<Rightarrow> 'c selection_machine \<Rightarrow> 'c selection_machine" where
  "emit e m = m\<lparr>sm_effects := sm_effects m @ [e]\<rparr>"

definition setState :: "'c selection_states \<Rightarrow> 'c selection_machine \<Rightarrow> 'c selection_machine" where
  "setState st m = emit (Notify st) (m\<lparr>sm_state := st\<rparr>)"

section \<open>Operations\<close>

definition cellSelectionIntersection :: "'c list \<Rightarrow> 'c option list \<Rightarrow> 'c option list" where
  "cellSelectionIntersection cells selection = filter (\<lambda>c. c \<in> Some ` set cells) selection"

definition selected_cells :: "'c option list \<Rightarrow> 'c selection_states" where
  "selected_cells sel = (if length sel = 1 then SingleSelection sel else MultiSelection sel)"

definition setCells :: "'c list \<Rightarrow> 'c selection_machine \<Rightarrow> 'c selection_machine" where
  "setCells cells m =
     (let m = m\<lparr>sm_cells := cells\<rparr>;
          intersect = (\<lambda>sel. let after = cellSelectionIntersection cells sel
            in if after = [] then setState NoSelection m else setState (selected_cells after) m)
      in case sm_state m of
        NoSelection \<Rightarrow> m
      | EditingSelection c \<Rightarrow> (if c \<notin> Some ` set cells then setState NoSelection m else m)
      | SingleSelection sel \<Rightarrow> intersect sel
      | MultiSelection sel \<Rightarrow> intersect sel)"

definition selectCell :: "'c option \<Rightarrow> cell_selection_type \<Rightarrow> 'c selection_machine \<Rightarrow> 'c selection_machine" where
  "selectCell cell selectType m =
     (if selectType = Normal \<or> (sm_state m = NoSelection \<and> selectType = Add)
      then setState (SingleSelection [cell]) m
      else if selectType = Edit then setState (EditingSelection cell) m
      else case sm_state m of
        SingleSelection sel \<Rightarrow> setState (MultiSelection (sel @ [cell])) m
      | MultiSelection sel \<Rightarrow> setState (MultiSelection (sel @ [cell])) m
      | _ \<Rightarrow> emit LogError m)"

text \<open>\<open>updatedSelection.at(-1)?.focus()\<close>.\<close>

definition focus_last :: "'c option list \<Rightarrow> 'c selection_machine \<Rightarrow> 'c selection_machine" where
  "focus_last sel m = (case js_at sel (-1) of Some (Some c) \<Rightarrow> emit (Focus c) m | _ \<Rightarrow> m)"

definition deselectCell :: "'c option \<Rightarrow> 'c selection_machine \<Rightarrow> 'c selection_machine" where
  "deselectCell cell m =
     (case sm_state m of
        NoSelection \<Rightarrow> m
      | SingleSelection sel \<Rightarrow> setState NoSelection m
      | EditingSelection c \<Rightarrow> (if c = cell then setState NoSelection m else m)
      | MultiSelection sel \<Rightarrow>
          (let updated = filter (\<lambda>c. c \<noteq> cell) sel
           in setState (selected_cells updated) (focus_last updated m)))"

text \<open>\<open>indexOf\<close> of a cell that may be \<open>undefined\<close>, and reading a cell by index.\<close>

definition cell_index :: "'c list \<Rightarrow> 'c option \<Rightarrow> int" where
  "cell_index cells c = (case c of None \<Rightarrow> -1 | Some x \<Rightarrow> index_of cells x)"

definition at_edge :: "bool \<Rightarrow> int \<Rightarrow> 'c list \<Rightarrow> bool" where
  "at_edge up i cells \<longleftrightarrow> (i \<le> 0 \<and> up) \<or> (i \<ge> int (length cells) - 1 \<and> \<not> up)"

definition move_from ::
    "bool \<Rightarrow> bool \<Rightarrow> bool \<Rightarrow> 'c option list \<Rightarrow> 'c selection_machine \<Rightarrow> 'c selection_machine result" where
  "move_from up addMode multi sel m =
     (let edgeCell = (case js_at sel (if up then 0 else -1) of None \<Rightarrow> None | Some c \<Rightarrow> c);
          indexOfEdgeCell = cell_index (sm_cells m) edgeCell;
          nextCell = js_get (sm_cells m) (indexOfEdgeCell + (if up then -1 else 1))
      in if addMode
         then if at_edge up indexOfEdgeCell (sm_cells m) then Inr m
           else Inr (setState (MultiSelection (if up then nextCell # sel else sel @ [nextCell])) m)
         else if multi then Inr (selectCell nextCell Normal m)
         else if at_edge up indexOfEdgeCell (sm_cells m) then Inr m
         else let m = selectCell nextCell Normal m in
           case nextCell of None \<Rightarrow> Inl TypeError | Some c \<Rightarrow> Inr (emit (Focus c) m))"

definition moveSelection :: "bool \<Rightarrow> bool \<Rightarrow> 'c selection_machine \<Rightarrow> 'c selection_machine result" where
  "moveSelection up addMode m =
     (case sm_state m of
        EditingSelection c \<Rightarrow> Inr m
      | NoSelection \<Rightarrow>
          (case js_at (sm_cells m) (if up then -1 else 0) of
             None \<Rightarrow> Inr m
           | Some c \<Rightarrow> Inr (selectCell (Some c) Normal m))
      | SingleSelection sel \<Rightarrow> move_from up addMode False sel m
      | MultiSelection sel \<Rightarrow> move_from up addMode True sel m)"

definition moveUp :: "bool \<Rightarrow> 'c selection_machine \<Rightarrow> 'c selection_machine result" where
  "moveUp addMode m = moveSelection True addMode m"

definition moveDown :: "bool \<Rightarrow> 'c selection_machine \<Rightarrow> 'c selection_machine result" where
  "moveDown addMode m = moveSelection False addMode m"

definition first_selected :: "'c option list \<Rightarrow> 'c option" where
  "first_selected sel = (case js_get sel 0 of None \<Rightarrow> None | Some c \<Rightarrow> c)"

definition enterEditor :: "'c selection_machine \<Rightarrow> 'c selection_machine" where
  "enterEditor m =
     (case sm_state m of
        SingleSelection sel \<Rightarrow>
          (let c = first_selected sel in emit (FocusEditorTimer c) (setState (EditingSelection c) m))
      | _ \<Rightarrow> m)"

definition exitEditor :: "'c selection_machine \<Rightarrow> 'c selection_machine result" where
  "exitEditor m =
     (case sm_state m of
        EditingSelection None \<Rightarrow> Inl TypeError
      | EditingSelection (Some c) \<Rightarrow> Inr (setState (SingleSelection [Some c]) (emit (DefocusEditor c) m))
      | _ \<Rightarrow> Inr m)"

definition getIndexOfSelectedCell :: "'c selection_machine \<Rightarrow> int option" where
  "getIndexOfSelectedCell m =
     (case sm_state m of SingleSelection sel \<Rightarrow> Some (cell_index (sm_cells m) (first_selected sel)) | _ \<Rightarrow> None)"

definition getSelectedCell :: "'c selection_machine \<Rightarrow> 'c option" where
  "getSelectedCell m = (case sm_state m of SingleSelection sel \<Rightarrow> first_selected sel | _ \<Rightarrow> None)"

definition getEditingCell :: "'c selection_machine \<Rightarrow> 'c option" where
  "getEditingCell m = (case sm_state m of EditingSelection c \<Rightarrow> c | _ \<Rightarrow> None)"

section \<open>The machine as a whole\<close>

datatype 'c selection_command = SetCells "'c list" | SelectCell 'c cell_selection_type | DeselectCell 'c
  | MoveUp bool | MoveDown bool | EnterEditor | ExitEditor

fun sm_step :: "'c selection_machine \<Rightarrow> 'c selection_command \<Rightarrow> 'c selection_machine result" where
  "sm_step m (SetCells cells) = Inr (setCells cells m)"
| "sm_step m (SelectCell c t) = Inr (selectCell (Some c) t m)"
| "sm_step m (DeselectCell c) = Inr (deselectCell (Some c) m)"
| "sm_step m (MoveUp addMode) = moveUp addMode m"
| "sm_step m (MoveDown addMode) = moveDown addMode m"
| "sm_step m EnterEditor = Inr (enterEditor m)"
| "sm_step m ExitEditor = exitEditor m"

text \<open>A move without adding, out of a selection of several cells.\<close>

definition leaves_multi :: "'c selection_machine \<Rightarrow> 'c selection_command \<Rightarrow> bool" where
  "leaves_multi m cmd \<longleftrightarrow> (\<exists>sel. sm_state m = MultiSelection sel) \<and> cmd \<in> {MoveUp False, MoveDown False}"

inductive selection_reached :: "'c selection_machine \<Rightarrow> bool" where
  created: "selection_reached new_SelectionStateMachine"
| stepped: "selection_reached m \<Longrightarrow> \<not> leaves_multi m cmd \<Longrightarrow> sm_step m cmd = Inr m' \<Longrightarrow> selection_reached m'"

text \<open>No selected cell is \<open>undefined\<close>, and a single selection is of one cell.\<close>

fun state_ok :: "'c selection_states \<Rightarrow> bool" where
  "state_ok NoSelection = True"
| "state_ok (SingleSelection sel) = (length sel = 1 \<and> None \<notin> set sel)"
| "state_ok (MultiSelection sel) = (None \<notin> set sel)"
| "state_ok (EditingSelection c) = (c \<noteq> None)"

lemma setState_sel [simp]: "sm_state (setState st m) = st" "sm_cells (setState st m) = sm_cells m"
  by (simp_all add: setState_def emit_def)

lemma emit_sel [simp]: "sm_state (emit e m) = sm_state m" "sm_cells (emit e m) = sm_cells m"
  by (simp_all add: emit_def)

lemma focus_last_sel [simp]: "sm_state (focus_last sel m) = sm_state m" "sm_cells (focus_last sel m) = sm_cells m"
  by (simp_all add: focus_last_def split: option.split)

lemma selected_cells_ok [simp]: "state_ok (selected_cells sel) \<longleftrightarrow> None \<notin> set sel"
  by (simp add: selected_cells_def)

lemma setCells_ok: "state_ok (sm_state m) \<Longrightarrow> state_ok (sm_state (setCells cells m))"
  by (cases "sm_state m") (auto simp: setCells_def Let_def cellSelectionIntersection_def)

lemma selectCell_ok:
  "state_ok (sm_state m) \<Longrightarrow> state_ok (sm_state (selectCell (Some c) t m))"
  by (cases "sm_state m") (auto simp: selectCell_def)

lemma deselectCell_ok: "state_ok (sm_state m) \<Longrightarrow> state_ok (sm_state (deselectCell c m))"
  by (cases "sm_state m") (auto simp: deselectCell_def Let_def)

lemma enterEditor_ok: "state_ok (sm_state m) \<Longrightarrow> state_ok (sm_state (enterEditor m))"
  by (cases "sm_state m") (auto simp: enterEditor_def Let_def first_selected_def js_get_def length_Suc_conv eq_commute [of None])

lemma exitEditor_ok:
  "state_ok (sm_state m) \<Longrightarrow> \<exists>m'. exitEditor m = Inr m' \<and> state_ok (sm_state m')"
  by (cases "sm_state m") (auto simp: exitEditor_def)

text \<open>Away from the edge there is a next cell.\<close>

lemma cell_index_bounds: "-1 \<le> cell_index cells c \<and> cell_index cells c < int (length cells)"
  using index_of_bounds [of cells "the c"] by (cases c) (simp_all add: cell_index_def)

lemma next_cell_exists:
  assumes "\<not> at_edge up (cell_index cells c) cells"
  shows "\<exists>x. js_get cells (cell_index cells c + (if up then -1 else 1)) = Some x"
  using assms cell_index_bounds [of cells c] by (auto simp: at_edge_def js_get_def)

lemma move_from_ok:
  assumes "None \<notin> set sel" and "multi \<longrightarrow> addMode" and "state_ok (sm_state m)"
  shows "\<exists>m'. move_from up addMode multi sel m = Inr m' \<and> state_ok (sm_state m')"
proof -
  let ?e = "case js_at sel (if up then 0 else -1) of None \<Rightarrow> None | Some c \<Rightarrow> c"
  let ?i = "cell_index (sm_cells m) ?e"
  show ?thesis
  proof (cases "at_edge up ?i (sm_cells m)")
    case True
    then show ?thesis
      using assms unfolding move_from_def Let_def by auto
  next
    case False
    from next_cell_exists [OF this] obtain x where
      "js_get (sm_cells m) (?i + (if up then -1 else 1)) = Some x"
      by blast
    with False assms show ?thesis
      unfolding move_from_def Let_def by (auto simp: selectCell_def)
  qed
qed

lemma moveSelection_ok:
  assumes "state_ok (sm_state m)" and "\<not> (\<exists>sel. sm_state m = MultiSelection sel \<and> \<not> addMode)"
  shows "\<exists>m'. moveSelection up addMode m = Inr m' \<and> state_ok (sm_state m')"
  using assms move_from_ok [of _ False addMode m up] move_from_ok [of _ True addMode m up]
  by (cases "sm_state m") (auto simp: moveSelection_def selectCell_def split: option.split)

lemma sm_step_ok:
  assumes "state_ok (sm_state m)" and "\<not> leaves_multi m cmd"
  shows "\<exists>m'. sm_step m cmd = Inr m' \<and> state_ok (sm_state m')"
  using assms moveSelection_ok [OF assms(1)] exitEditor_ok [OF assms(1)]
  by (cases cmd)
    (auto simp: leaves_multi_def moveUp_def moveDown_def setCells_ok selectCell_ok deselectCell_ok enterEditor_ok)

lemma selection_reached_ok: "selection_reached m \<Longrightarrow> state_ok (sm_state m)"
proof (induction rule: selection_reached.induct)
  case (stepped m cmd m')
  then show ?case
    using sm_step_ok [of m cmd] by auto
qed (simp add: new_SelectionStateMachine_def)

section \<open>Moves in a list of distinct cells\<close>

lemma index_of_distinct:
  assumes "distinct xs" and "i < length xs"
  shows "index_of xs (xs ! i) = int i"
proof -
  have "0 \<le> index_of xs (xs ! i)" "index_of xs (xs ! i) < int (length xs)"
    using assms(2) index_of_bounds [of xs "xs ! i"] index_of_nonneg_iff [of xs "xs ! i"] by auto
  then show ?thesis
    using index_of_nth [of "xs ! i" xs] nth_eq_iff_index_eq [OF assms(1), of "nat (index_of xs (xs ! i))" i] assms(2)
    by auto
qed

text \<open>The cells from an index on, as many as given.\<close>

definition block :: "'c list \<Rightarrow> nat \<Rightarrow> nat \<Rightarrow> 'c option list" where
  "block cells i k = map Some (take k (drop i cells))"

lemma block_edges:
  assumes "0 < k" and "i + k \<le> length cells"
  shows "js_at (block cells i k) 0 = Some (Some (cells ! i))"
    and "js_at (block cells i k) (-1) = Some (Some (cells ! (i + k - 1)))"
proof -
  have len: "length (block cells i k) = k"
    using assms(2) by (simp add: block_def)
  have nth: "block cells i k ! j = Some (cells ! (i + j))" if "j < k" for j
    using assms(2) that by (simp add: block_def)
  have "nat (int k - 1) = k - 1" "i + (k - 1) = i + k - 1"
    using assms(1) by auto
  with len nth [of 0] nth [of "k - 1"] assms(1)
  show "js_at (block cells i k) 0 = Some (Some (cells ! i))"
    and "js_at (block cells i k) (-1) = Some (Some (cells ! (i + k - 1)))"
    by (simp_all add: js_at_def js_get_def)
qed

lemma block_grow_down:
  "i + k < length cells \<Longrightarrow> block cells i k @ [Some (cells ! (i + k))] = block cells i (Suc k)"
  by (simp add: block_def take_Suc_conv_app_nth)

lemma block_grow_up:
  "Suc i + k \<le> length cells \<Longrightarrow> Some (cells ! i) # block cells (Suc i) k = block cells i (Suc k)"
  by (simp add: block_def Cons_nth_drop_Suc [symmetric])

text \<open>A move from a block of cells, with adding: the edge is the first or the last cell of the block.\<close>

lemma extend_down:
  assumes "distinct (sm_cells m)" and "0 < k" and "i + k \<le> length (sm_cells m)"
  shows "move_from False True multi (block (sm_cells m) i k) m =
    Inr (if i + k < length (sm_cells m) then setState (MultiSelection (block (sm_cells m) i (Suc k))) m else m)"
proof -
  have "index_of (sm_cells m) (sm_cells m ! (i + k - 1)) = int (i + k - 1)"
    by (rule index_of_distinct) (use assms in auto)
  moreover have "js_get (sm_cells m) (int (i + k - 1) + 1) = Some (sm_cells m ! (i + k))" if "i + k < length (sm_cells m)"
    using that assms(2) by (simp add: js_get_def of_nat_diff nat_add_distrib)
  ultimately show ?thesis
    using assms block_edges(2) [OF assms(2,3)] block_grow_down [of i k "sm_cells m"]
    by (auto simp: move_from_def cell_index_def at_edge_def of_nat_diff)
qed

lemma extend_up:
  assumes "distinct (sm_cells m)" and "0 < k" and "i + k \<le> length (sm_cells m)"
  shows "move_from True True multi (block (sm_cells m) i k) m =
    Inr (if 0 < i then setState (MultiSelection (block (sm_cells m) (i - 1) (Suc k))) m else m)"
proof -
  have "index_of (sm_cells m) (sm_cells m ! i) = int i"
    by (rule index_of_distinct) (use assms in auto)
  moreover have "js_get (sm_cells m) (int i - 1) = Some (sm_cells m ! (i - 1))" if "0 < i"
    using that assms(2,3) by (auto simp: js_get_def nat_diff_distrib)
  ultimately show ?thesis
    using assms block_edges(1) [OF assms(2,3)] block_grow_up [of "i - 1" k "sm_cells m"]
    by (cases i) (auto simp: move_from_def cell_index_def at_edge_def)
qed

lemma single_move:
  assumes "distinct (sm_cells m)" and "i < length (sm_cells m)"
  shows "move_from up False False [Some (sm_cells m ! i)] m =
    Inr (let j = (if up then int i - 1 else int i + 1) in
      case js_get (sm_cells m) j of
        None \<Rightarrow> m
      | Some c \<Rightarrow> emit (Focus c) (setState (SingleSelection [Some c]) m))"
proof -
  have "index_of (sm_cells m) (sm_cells m ! i) = int i"
    by (rule index_of_distinct [OF assms])
  then show ?thesis
    using assms(2)
    by (cases up) (auto simp: move_from_def cell_index_def at_edge_def js_at_def js_get_def selectCell_def Let_def)
qed

section \<open>Properties\<close>

text \<open>
  C6: As long as no plain move leaves a selection of several cells, the machine never throws, whatever
  it is asked, no selected cell is undefined, and a single selection is of exactly one cell.
\<close>

theorem selection_well_formed:
  assumes "selection_reached m"
  shows "state_ok (sm_state m) \<and> (\<not> leaves_multi m cmd \<longrightarrow> (\<exists>m'. sm_step m cmd = Inr m' \<and> state_ok (sm_state m')))"
  using selection_reached_ok [OF assms] sm_step_ok [of m cmd] by blast

theorem selection_well_formed_witness:
  "\<exists>m'. sm_step (new_SelectionStateMachine :: nat selection_machine) (SetCells [1, 2]) = Inr m' \<and> state_ok (sm_state m')"
  using selection_well_formed [OF created, of "SetCells [1, 2 :: nat]"] by (simp add: leaves_multi_def)

text \<open>
  Setting the cells keeps exactly those selected cells that are still there, in order; the state is
  a single selection for one cell, a selection of several for more, and none when no cell is left. A
  cell that is edited stays edited as long as it is there.
\<close>

theorem set_cells_restricts_selection:
  "sm_state (setCells cells m) =
     (case sm_state m of
        NoSelection \<Rightarrow> NoSelection
      | EditingSelection c \<Rightarrow> (if c \<in> Some ` set cells then EditingSelection c else NoSelection)
      | SingleSelection sel \<Rightarrow>
          (let kept = filter (\<lambda>c. c \<in> Some ` set cells) sel in
           if kept = [] then NoSelection else if length kept = 1 then SingleSelection kept else MultiSelection kept)
      | MultiSelection sel \<Rightarrow>
          (let kept = filter (\<lambda>c. c \<in> Some ` set cells) sel in
           if kept = [] then NoSelection else if length kept = 1 then SingleSelection kept else MultiSelection kept)) \<and>
   sm_cells (setCells cells m) = cells"
  by (cases "sm_state m")
    (auto simp: setCells_def Let_def cellSelectionIntersection_def selected_cells_def)

text \<open>
  With one cell selected, a move selects and focuses the neighbour in the given direction and does
  nothing at the end of the cells; moving on and back again returns to the cell.
\<close>

theorem single_move_selects_neighbour:
  assumes "distinct (sm_cells m)" and "i < length (sm_cells m)"
    and "sm_state m = SingleSelection [Some (sm_cells m ! i)]"
  shows "\<exists>m'. moveDown False m = Inr m' \<and>
    (if Suc i < length (sm_cells m)
     then sm_state m' = SingleSelection [Some (sm_cells m ! Suc i)] \<and> last (sm_effects m') = Focus (sm_cells m ! Suc i) \<and>
       (\<exists>m''. moveUp False m' = Inr m'' \<and> sm_state m'' = sm_state m)
     else m' = m)"
proof (cases "Suc i < length (sm_cells m)")
  case True
  let ?m = "emit (Focus (sm_cells m ! Suc i)) (setState (SingleSelection [Some (sm_cells m ! Suc i)]) m)"
  have "js_get (sm_cells m) (int i + 1) = Some (sm_cells m ! Suc i)"
    using True by (simp add: js_get_def nat_add_distrib)
  then have down: "moveDown False m = Inr ?m"
    using single_move [OF assms(1,2), of False] assms(3) by (simp add: moveDown_def moveSelection_def)
  have "js_get (sm_cells ?m) (int (Suc i) - 1) = Some (sm_cells m ! i)"
    using assms(2) by (simp add: js_get_def)
  then have "\<exists>m''. moveUp False ?m = Inr m'' \<and> sm_state m'' = sm_state m"
    using single_move [of ?m "Suc i" True] True assms(1,3) by (simp add: moveUp_def moveSelection_def)
  with True down show ?thesis
    by (simp add: emit_def)
next
  case False
  then have "js_get (sm_cells m) (int i + 1) = None"
    by (simp add: js_get_def)
  with False show ?thesis
    using single_move [OF assms(1,2), of False] assms(3) by (simp add: moveDown_def moveSelection_def)
qed

theorem single_move_selects_neighbour_witness:
  "\<exists>m'. moveDown False \<lparr>sm_state = SingleSelection [Some (1::nat)], sm_cells = [1, 2], sm_effects = []\<rparr> = Inr m' \<and>
     sm_state m' = SingleSelection [Some 2]"
  using single_move_selects_neighbour
    [of "\<lparr>sm_state = SingleSelection [Some (1::nat)], sm_cells = [1, 2], sm_effects = []\<rparr>" 0] by auto

text \<open>
  With a block of neighbouring cells selected, adding by a move extends the block by the next cell
  at the end it moves to, and does nothing when the block reaches that end of the cells.
\<close>

theorem adding_extends_block:
  assumes "distinct (sm_cells m)" and "0 < k" and "i + k \<le> length (sm_cells m)"
    and "sm_state m \<in> {SingleSelection (block (sm_cells m) i k), MultiSelection (block (sm_cells m) i k)}"
  shows "(\<exists>m'. moveDown True m = Inr m' \<and>
      (if i + k < length (sm_cells m) then sm_state m' = MultiSelection (block (sm_cells m) i (Suc k)) else m' = m)) \<and>
    (\<exists>m'. moveUp True m = Inr m' \<and>
      (if 0 < i then sm_state m' = MultiSelection (block (sm_cells m) (i - 1) (Suc k)) else m' = m))"
proof -
  have "moveDown True m =
      Inr (if i + k < length (sm_cells m) then setState (MultiSelection (block (sm_cells m) i (Suc k))) m else m)"
    using assms(4) extend_down [OF assms(1-3)] by (auto simp: moveDown_def moveSelection_def)
  moreover have "moveUp True m =
      Inr (if 0 < i then setState (MultiSelection (block (sm_cells m) (i - 1) (Suc k))) m else m)"
    using assms(4) extend_up [OF assms(1-3)] by (auto simp: moveUp_def moveSelection_def)
  ultimately show ?thesis
    by simp
qed

theorem adding_extends_block_witness:
  "\<exists>m'. moveDown True \<lparr>sm_state = SingleSelection (block [1, 2] 0 1), sm_cells = [1, 2 :: nat], sm_effects = []\<rparr> = Inr m' \<and>
     sm_state m' = MultiSelection (block [1, 2] 0 2)"
  using adding_extends_block
    [of "\<lparr>sm_state = SingleSelection (block [1, 2] 0 1), sm_cells = [1, 2 :: nat], sm_effects = []\<rparr>" 1 0]
  by (auto simp: numeral_2_eq_2)

text \<open>
  Leaving a selection of several cells at the end of the cells selects \<open>undefined\<close>; entering and
  leaving the editor then throws.
\<close>

theorem leaving_multi_at_edge_throws:
  "\<exists>m. run_machine sm_step new_SelectionStateMachine
       [SetCells [1, 2 :: nat], SelectCell 1 Normal, SelectCell 2 Add, MoveDown False] = Inr m \<and>
     sm_state m = SingleSelection [None] \<and> run_machine sm_step m [EnterEditor, ExitEditor] = Inl TypeError"
  by (simp add: new_SelectionStateMachine_def setCells_def selectCell_def setState_def emit_def moveDown_def
      moveSelection_def move_from_def js_at_def js_get_def cell_index_def enterEditor_def exitEditor_def first_selected_def)

text \<open>
  Deselecting a cell clears a single selection of any other cell too, although the comment says
  that nothing is done for a cell that is not selected; deselecting every cell of a selection of several
  cells leaves a selection of several cells with none in it.
\<close>

theorem deselect_clears_other_selection:
  "sm_state (deselectCell (Some d) (selectCell (Some c) Normal m)) = NoSelection \<and>
   (sm_state m = MultiSelection [Some c, Some c] \<longrightarrow> sm_state (deselectCell (Some c) m) = MultiSelection [])"
  by (simp add: deselectCell_def selectCell_def selected_cells_def)

end
