(* ===== verification/Arrays_Find.thy ===== *)
theory Arrays_Find
  imports Js_Prelude
begin

text \<open>
  The searches of \<open>src/vs/base/common/arraysFind.ts\<close>: linear ones, the binary searches for predicates that
  hold on a prefix or on a suffix of an array, the class \<open>MonotonousArray\<close>, and the searches for extreme
  items. The optional indices are arguments here; a caller that leaves them out passes \<open>0\<close> and the length. They
  are natural numbers, and the ones past the array (where the source hands \<open>undefined\<close> to the predicate) are
  excluded in the lemmas.
\<close>

section \<open>Linear searches\<close>

text \<open>The loop from \<open>fromIndex\<close> down; \<open>n\<close> is the index after the one that is looked at.\<close>

fun find_last_loop :: "'a list \<Rightarrow> ('a \<Rightarrow> bool) \<Rightarrow> nat \<Rightarrow> int" where
  "find_last_loop array predicate 0 = -1"
| "find_last_loop array predicate (Suc i) =
     (if predicate (array ! i) then int i else find_last_loop array predicate i)"

definition findLastIdx :: "'a list \<Rightarrow> ('a \<Rightarrow> bool) \<Rightarrow> int \<Rightarrow> int" where
  "findLastIdx array predicate fromIndex = find_last_loop array predicate (nat (fromIndex + 1))"

definition findLast :: "'a list \<Rightarrow> ('a \<Rightarrow> bool) \<Rightarrow> 'a option" where
  "findLast array predicate = (let idx = findLastIdx array predicate (int (length array) - 1) in if idx = -1 then None else js_get array idx)"

fun mapFindFirst :: "('a \<Rightarrow> 'b option) \<Rightarrow> 'a list \<Rightarrow> 'b option" where
  "mapFindFirst mapFn [] = None"
| "mapFindFirst mapFn (value # items) =
     (case mapFn value of Some mapped \<Rightarrow> Some mapped | None \<Rightarrow> mapFindFirst mapFn items)"

section \<open>Binary searches\<close>

function find_last_mono_loop :: "'a list \<Rightarrow> ('a \<Rightarrow> bool) \<Rightarrow> nat \<Rightarrow> nat \<Rightarrow> nat" where
  "find_last_mono_loop array predicate i j =
     (if i < j
      then let k = (i + j) div 2
        in if predicate (array ! k) then find_last_mono_loop array predicate (k + 1) j
           else find_last_mono_loop array predicate i k
      else i)"
  by pat_completeness auto
termination
  by (relation "measure (\<lambda>(array, predicate, i, j). j - i)") auto

declare find_last_mono_loop.simps [simp del]

definition findLastIdxMonotonous :: "'a list \<Rightarrow> ('a \<Rightarrow> bool) \<Rightarrow> nat \<Rightarrow> nat \<Rightarrow> int" where
  "findLastIdxMonotonous array predicate startIdx endIdxEx =
     int (find_last_mono_loop array predicate startIdx endIdxEx) - 1"

definition findLastMonotonous :: "'a list \<Rightarrow> ('a \<Rightarrow> bool) \<Rightarrow> 'a option" where
  "findLastMonotonous array predicate =
     (let idx = findLastIdxMonotonous array predicate 0 (length array) in if idx = -1 then None else js_get array idx)"

function find_first_mono_loop :: "'a list \<Rightarrow> ('a \<Rightarrow> bool) \<Rightarrow> nat \<Rightarrow> nat \<Rightarrow> nat" where
  "find_first_mono_loop array predicate i j =
     (if i < j
      then let k = (i + j) div 2
        in if predicate (array ! k) then find_first_mono_loop array predicate i k
           else find_first_mono_loop array predicate (k + 1) j
      else i)"
  by pat_completeness auto
termination
  by (relation "measure (\<lambda>(array, predicate, i, j). j - i)") auto

declare find_first_mono_loop.simps [simp del]

definition findFirstIdxMonotonousOrArrLen :: "'a list \<Rightarrow> ('a \<Rightarrow> bool) \<Rightarrow> nat \<Rightarrow> nat \<Rightarrow> nat" where
  "findFirstIdxMonotonousOrArrLen array predicate startIdx endIdxEx =
     find_first_mono_loop array predicate startIdx endIdxEx"

definition findFirstIdxMonotonous :: "'a list \<Rightarrow> ('a \<Rightarrow> bool) \<Rightarrow> nat \<Rightarrow> nat \<Rightarrow> int" where
  "findFirstIdxMonotonous array predicate startIdx endIdxEx =
     (let idx = findFirstIdxMonotonousOrArrLen array predicate startIdx endIdxEx
      in if idx = length array then -1 else int idx)"

definition findFirstMonotonous :: "'a list \<Rightarrow> ('a \<Rightarrow> bool) \<Rightarrow> 'a option" where
  "findFirstMonotonous array predicate =
     (let idx = findFirstIdxMonotonousOrArrLen array predicate 0 (length array)
      in if idx = length array then None else js_get array (int idx))"

text \<open>
  The class \<open>MonotonousArray\<close>. \<open>assertInvariants\<close> is the static property that switches the check of its
  precondition on; it is off by default.
\<close>

record 'a monotonous_array =
  ma_array :: "'a list"
  ma_findLastMonotonousLastIdx :: nat
  ma_prevFindLastPredicate :: "('a \<Rightarrow> bool) option"

definition new_MonotonousArray :: "'a list \<Rightarrow> 'a monotonous_array" where
  "new_MonotonousArray array =
     \<lparr>ma_array = array, ma_findLastMonotonousLastIdx = 0, ma_prevFindLastPredicate = None\<rparr>"

definition assert_weaker :: "('a \<Rightarrow> bool) \<Rightarrow> 'a monotonous_array \<Rightarrow> 'a monotonous_array result" where
  "assert_weaker predicate m =
     (case ma_prevFindLastPredicate m of
        Some prev \<Rightarrow>
          if list_ex (\<lambda>item. prev item \<and> \<not> predicate item) (ma_array m) then Inl Error
          else Inr (m\<lparr>ma_prevFindLastPredicate := Some predicate\<rparr>)
      | None \<Rightarrow> Inr (m\<lparr>ma_prevFindLastPredicate := Some predicate\<rparr>))"

definition ma_findLastMonotonous ::
  "bool \<Rightarrow> ('a \<Rightarrow> bool) \<Rightarrow> 'a monotonous_array \<Rightarrow> ('a option \<times> 'a monotonous_array) result" where
  "ma_findLastMonotonous assertInvariants predicate m =
     bind_result (if assertInvariants then assert_weaker predicate m else Inr m) (\<lambda>m.
       let idx = findLastIdxMonotonous (ma_array m) predicate (ma_findLastMonotonousLastIdx m) (length (ma_array m))
       in Inr (if idx = -1 then None else js_get (ma_array m) idx, m\<lparr>ma_findLastMonotonousLastIdx := nat (idx + 1)\<rparr>))"

section \<open>Extreme items\<close>

definition findFirstMax :: "'a list \<Rightarrow> ('a \<Rightarrow> 'a \<Rightarrow> int) \<Rightarrow> 'a option" where
  "findFirstMax array comparator =
     (case array of [] \<Rightarrow> None
      | x # xs \<Rightarrow> Some (fold (\<lambda>item max. if comparator item max > 0 then item else max) xs x))"

definition findLastMax :: "'a list \<Rightarrow> ('a \<Rightarrow> 'a \<Rightarrow> int) \<Rightarrow> 'a option" where
  "findLastMax array comparator =
     (case array of [] \<Rightarrow> None
      | x # xs \<Rightarrow> Some (fold (\<lambda>item max. if comparator item max \<ge> 0 then item else max) xs x))"

definition findFirstMin :: "'a list \<Rightarrow> ('a \<Rightarrow> 'a \<Rightarrow> int) \<Rightarrow> 'a option" where
  "findFirstMin array comparator = findFirstMax array (\<lambda>a b. - comparator a b)"

definition findMaxIdx :: "'a list \<Rightarrow> ('a \<Rightarrow> 'a \<Rightarrow> int) \<Rightarrow> int" where
  "findMaxIdx array comparator =
     (if array = [] then -1
      else int (fold (\<lambda>i maxIdx. if comparator (array ! i) (array ! maxIdx) > 0 then i else maxIdx) [1..<length array] 0))"

section \<open>The binary searches are right\<close>

text \<open>A predicate is monotonous on an array when it holds exactly on a prefix of it.\<close>

definition monotonous :: "('a \<Rightarrow> bool) \<Rightarrow> 'a list \<Rightarrow> bool" where
  "monotonous p xs \<longleftrightarrow> (\<forall>x \<in> set (dropWhile p xs). \<not> p x)"

lemma monotonous_sorted: "sorted_wrt (\<lambda>x y. p y \<longrightarrow> p x) xs \<Longrightarrow> monotonous p xs"
proof (induction xs)
  case (Cons x xs)
  show ?case
  proof (cases "p x")
    case True
    moreover have "monotonous p xs"
      using Cons.prems unfolding sorted_wrt.simps by (intro Cons.IH) blast
    ultimately show ?thesis
      unfolding monotonous_def by simp
  next
    case False
    with Cons.prems have "\<forall>y \<in> set xs. \<not> p y"
      unfolding sorted_wrt.simps by blast
    with False show ?thesis
      unfolding monotonous_def by simp
  qed
qed (simp add: monotonous_def)

lemma monotonous_nth:
  assumes "monotonous p xs" and "i < length xs"
  shows "p (xs ! i) \<longleftrightarrow> i < length (takeWhile p xs)"
proof (cases "i < length (takeWhile p xs)")
  case True
  then show ?thesis
    using takeWhile_nth [of i p xs] nth_mem [OF True] by (auto dest: set_takeWhileD)
next
  case False
  then have "xs ! i = dropWhile p xs ! (i - length (takeWhile p xs))" "i - length (takeWhile p xs) < length (dropWhile p xs)"
    using assms(2) by (simp_all add: dropWhile_nth dropWhile_eq_drop)
  with assms(1) False show ?thesis
    unfolding monotonous_def by (metis nth_mem)
qed

lemma find_last_mono_loop_spec:
  assumes "monotonous p xs" and "i \<le> length (takeWhile p xs)" and "length (takeWhile p xs) \<le> j" and "j \<le> length xs"
  shows "find_last_mono_loop xs p i j = length (takeWhile p xs)"
  using assms
proof (induction xs p i j rule: find_last_mono_loop.induct)
  case (1 xs p i j)
  show ?case
  proof (cases "i < j")
    case True
    let ?k = "(i + j) div 2"
    have "p (xs ! ?k) \<longleftrightarrow> ?k < length (takeWhile p xs)"
      using "1.prems" True by (intro monotonous_nth) auto
    with 1 True show ?thesis
      by (subst find_last_mono_loop.simps) (auto simp: Let_def)
  next
    case False
    with "1.prems" show ?thesis
      by (subst find_last_mono_loop.simps) simp
  qed
qed

lemma find_first_mono_loop_not: "find_first_mono_loop xs p i j = find_last_mono_loop xs (\<lambda>x. \<not> p x) i j"
proof (induction xs p i j rule: find_first_mono_loop.induct)
  case (1 xs p i j)
  then show ?case
    by (subst find_first_mono_loop.simps, subst find_last_mono_loop.simps) (simp add: Let_def)
qed

lemma findLastIdxMonotonous_spec:
  "monotonous p xs \<Longrightarrow> s \<le> length (takeWhile p xs) \<Longrightarrow>
     findLastIdxMonotonous xs p s (length xs) = int (length (takeWhile p xs)) - 1"
  by (simp add: findLastIdxMonotonous_def find_last_mono_loop_spec length_takeWhile_le)

lemma findFirstIdxMonotonousOrArrLen_spec:
  "monotonous (\<lambda>x. \<not> p x) xs \<Longrightarrow>
     findFirstIdxMonotonousOrArrLen xs p 0 (length xs) = length (takeWhile (\<lambda>x. \<not> p x) xs)"
  by (simp add: findFirstIdxMonotonousOrArrLen_def find_first_mono_loop_not find_last_mono_loop_spec length_takeWhile_le)

text \<open>The last item a monotonous predicate accepts, found with the binary search started at \<open>s\<close>.\<close>

lemma last_of_prefix:
  "(if int (length (takeWhile p xs)) - 1 = -1 then None else js_get xs (int (length (takeWhile p xs)) - 1)) =
     (if takeWhile p xs = [] then None else Some (last (takeWhile p xs)))"
proof -
  have "xs ! (length (takeWhile p xs) - 1) = last (takeWhile p xs)" if "takeWhile p xs \<noteq> []"
    using that takeWhile_nth [of "length (takeWhile p xs) - 1" p xs] by (simp add: last_conv_nth)
  moreover have "nat (int (length (takeWhile p xs)) - 1) = length (takeWhile p xs) - 1"
    by simp
  ultimately show ?thesis
    using length_takeWhile_le [of p xs] by (cases "takeWhile p xs = []") (simp_all add: js_get_def)
qed

lemma findLastMonotonous_spec:
  "monotonous p xs \<Longrightarrow> findLastMonotonous xs p = (if takeWhile p xs = [] then None else Some (last (takeWhile p xs)))"
  by (simp only: findLastMonotonous_def Let_def findLastIdxMonotonous_spec [of p xs 0] le0 last_of_prefix)

lemma find_last_loop_prefix:
  assumes "monotonous p xs" and "n \<le> length xs"
  shows "find_last_loop xs p n = int (min n (length (takeWhile p xs))) - 1"
  using assms(2)
proof (induction n)
  case (Suc n)
  then show ?case
    using monotonous_nth [OF assms(1), of n] by (auto simp: min_def)
qed simp

lemma findLast_spec:
  "monotonous p xs \<Longrightarrow> findLast xs p = (if takeWhile p xs = [] then None else Some (last (takeWhile p xs)))"
  using find_last_loop_prefix [of p xs "length xs"]
  by (simp only: findLast_def findLastIdx_def Let_def last_of_prefix [symmetric])
    (simp add: length_takeWhile_le min.absorb2)

lemma takeWhile_weaker: "\<forall>x \<in> set xs. p x \<longrightarrow> q x \<Longrightarrow> length (takeWhile p xs) \<le> length (takeWhile q xs)"
  by (induction xs) auto

text \<open>
  A sequence of queries to one \<open>MonotonousArray\<close>, and the condition its documentation puts on it: every
  predicate holds on a prefix, and each one is weaker than the ones before.
\<close>

definition weaker_queries :: "('a \<Rightarrow> bool) list \<Rightarrow> 'a list \<Rightarrow> bool" where
  "weaker_queries ps xs \<longleftrightarrow> (\<forall>p \<in> set ps. monotonous p xs) \<and> sorted_wrt (\<lambda>p q. \<forall>x \<in> set xs. p x \<longrightarrow> q x) ps"

fun ask :: "bool \<Rightarrow> ('a \<Rightarrow> bool) list \<Rightarrow> 'a monotonous_array \<Rightarrow> 'a option list result" where
  "ask assertInvariants [] m = Inr []"
| "ask assertInvariants (p # ps) m =
     bind_result (ma_findLastMonotonous assertInvariants p m) (\<lambda>(answer, m').
     bind_result (ask assertInvariants ps m') (\<lambda>answers. Inr (answer # answers)))"

text \<open>The array between two queries: what it searched and asked before fits the queries to come.\<close>

definition ready :: "('a \<Rightarrow> bool) list \<Rightarrow> 'a monotonous_array \<Rightarrow> bool" where
  "ready ps m \<longleftrightarrow> (\<forall>p \<in> set ps. ma_findLastMonotonousLastIdx m \<le> length (takeWhile p (ma_array m)) \<and>
     (\<forall>prev. ma_prevFindLastPredicate m = Some prev \<longrightarrow> (\<forall>x \<in> set (ma_array m). prev x \<longrightarrow> p x)))"

lemma ma_findLastMonotonous_spec:
  assumes "monotonous p (ma_array m)" and "ready [p] m"
  shows "ma_findLastMonotonous b p m = Inr (findLast (ma_array m) p,
    m\<lparr>ma_findLastMonotonousLastIdx := length (takeWhile p (ma_array m)),
      ma_prevFindLastPredicate := if b then Some p else ma_prevFindLastPredicate m\<rparr>)"
proof -
  have start: "ma_findLastMonotonousLastIdx m \<le> length (takeWhile p (ma_array m))"
    using assms(2) by (simp add: ready_def)
  have "(if b then assert_weaker p m else Inr m) =
      Inr (m\<lparr>ma_prevFindLastPredicate := if b then Some p else ma_prevFindLastPredicate m\<rparr>)"
    using assms(2) by (auto simp: ready_def assert_weaker_def list_ex_iff split: option.splits)
  then show ?thesis
    using findLastIdxMonotonous_spec [OF assms(1) start] last_of_prefix [of p "ma_array m"] findLast_spec [OF assms(1)]
    by (auto simp: ma_findLastMonotonous_def Let_def)
qed

lemma ask_from:
  assumes "weaker_queries ps (ma_array m)" and "ready ps m"
  shows "ask b ps m = Inr (map (findLast (ma_array m)) ps)"
  using assms
proof (induction ps arbitrary: m)
  case (Cons p ps)
  let ?m = "m\<lparr>ma_findLastMonotonousLastIdx := length (takeWhile p (ma_array m)),
      ma_prevFindLastPredicate := if b then Some p else ma_prevFindLastPredicate m\<rparr>"
  have weaker: "\<forall>x \<in> set (ma_array m). p x \<longrightarrow> q x" if "q \<in> set ps" for q
    using Cons.prems(1) that unfolding weaker_queries_def sorted_wrt.simps by blast
  then have "length (takeWhile p (ma_array m)) \<le> length (takeWhile q (ma_array m))" if "q \<in> set ps" for q
    using that by (intro takeWhile_weaker) blast
  with weaker have "ready ps ?m"
    using Cons.prems(2) by (auto simp: ready_def)
  moreover have "weaker_queries ps (ma_array ?m)"
    using Cons.prems(1) by (simp add: weaker_queries_def)
  ultimately have "ask b ps ?m = Inr (map (findLast (ma_array m)) ps)"
    using Cons.IH [of ?m] by simp
  moreover have "ma_findLastMonotonous b p m = Inr (findLast (ma_array m) p, ?m)"
    using Cons.prems by (intro ma_findLastMonotonous_spec) (simp_all add: weaker_queries_def ready_def)
  ultimately show ?case
    by simp
qed simp

text \<open>
  A \<open>MonotonousArray\<close> that is asked for a sequence of predicates, each of them true on a prefix of the
  array and weaker than the ones before, answers every one of them as the linear search \<open>findLast\<close> from the end
  of the whole array does, although each of its binary searches starts where the one before it ended; it does so
  with its assertions switched on, none of which fails, as well as with them switched off.
\<close>

theorem monotonous_array_answers:
  assumes "weaker_queries ps xs"
  shows "ask b ps (new_MonotonousArray xs) = Inr (map (findLast xs) ps)"
  using assms ask_from [of ps "new_MonotonousArray xs" b] by (simp add: new_MonotonousArray_def ready_def)

theorem monotonous_array_answers_witness:
  "ask True [\<lambda>x. x < 3, \<lambda>x. x < 3, \<lambda>x. x \<le> 8] (new_MonotonousArray [1, 4, 5, 8, 9 :: int]) = Inr [Some 1, Some 1, Some 8]"
proof -
  have "weaker_queries [\<lambda>x. x < 3, \<lambda>x. x < 3, \<lambda>x. x \<le> 8] [1, 4, 5, 8, 9 :: int]"
    by (simp add: weaker_queries_def monotonous_def)
  from monotonous_array_answers [OF this, of True] show ?thesis
    by (simp add: findLast_def findLastIdx_def js_get_def eval_nat_numeral)
qed

text \<open>
  With an end index before the end of the array, \<open>findFirstIdxMonotonous\<close> does not answer \<open>-1\<close> when no item of
  the searched part matches: it compares with the length of the array and hands back the end index.
\<close>

theorem bounded_search_misses_end:
  "findFirstIdxMonotonous [1, 2, 3, 4 :: int] (\<lambda>x. 4 \<le> x) 0 2 = 2"
  by (simp add: findFirstIdxMonotonous_def findFirstIdxMonotonousOrArrLen_def find_first_mono_loop.simps eval_nat_numeral)

end
