(* ===== verification/Range_List.thy ===== *)
theory Range_List
  imports Arrays_Find
begin

text \<open>
  Sorted lists of half-open integer ranges, whatever the class that holds a range: the offset ranges and the line
  ranges of \<open>src/vs/editor/common/core\<close> keep the same normal form. \<open>covered\<close> is the set of integers such a list
  stands for, \<open>separated\<close> its normal form (ordered, no two ranges touch) and the locale \<open>range_type\<close> what a class of
  ranges provides: two bounds and a constructor. Its lemmas show that joining a range into a list keeps the normal
  form and adds the range's integers, and that the normal form of a set of integers is unique.
\<close>

section \<open>The integers of a list of ranges\<close>

definition covered :: "('r \<Rightarrow> int) \<Rightarrow> ('r \<Rightarrow> int) \<Rightarrow> 'r list \<Rightarrow> int set" where
  "covered lo hi rs = (\<Union>r \<in> set rs. {lo r..<hi r})"

definition separated :: "('r \<Rightarrow> int) \<Rightarrow> ('r \<Rightarrow> int) \<Rightarrow> 'r list \<Rightarrow> bool" where
  "separated lo hi rs \<longleftrightarrow> (\<forall>r \<in> set rs. lo r \<le> hi r) \<and> sorted_wrt (\<lambda>r s. hi r < lo s) rs"

definition solid :: "('r \<Rightarrow> int) \<Rightarrow> ('r \<Rightarrow> int) \<Rightarrow> 'r list \<Rightarrow> bool" where
  "solid lo hi rs \<longleftrightarrow> separated lo hi rs \<and> (\<forall>r \<in> set rs. lo r < hi r)"

lemma covered_simps [simp]:
  "covered lo hi [] = {}"
  "covered lo hi (r # rs) = {lo r..<hi r} \<union> covered lo hi rs"
  "covered lo hi (rs @ ss) = covered lo hi rs \<union> covered lo hi ss"
  by (auto simp: covered_def)

lemma separated_Nil [simp]: "separated lo hi []"
  by (simp add: separated_def)

lemma separated_Cons [simp]:
  "separated lo hi (r # rs) \<longleftrightarrow> lo r \<le> hi r \<and> (\<forall>s \<in> set rs. hi r < lo s) \<and> separated lo hi rs"
  by (auto simp: separated_def)

lemma separated_append [simp]:
  "separated lo hi (rs @ ss) \<longleftrightarrow>
     separated lo hi rs \<and> separated lo hi ss \<and> (\<forall>r \<in> set rs. \<forall>s \<in> set ss. hi r < lo s)"
  by (auto simp: separated_def sorted_wrt_append)

lemma solid_Nil [simp]: "solid lo hi []"
  by (simp add: solid_def)

lemma solid_Cons [simp]: "solid lo hi (r # rs) \<longleftrightarrow> lo r < hi r \<and> (\<forall>s \<in> set rs. hi r < lo s) \<and> solid lo hi rs"
  by (auto simp: solid_def)

lemma solid_append [simp]:
  "solid lo hi (rs @ ss) \<longleftrightarrow> solid lo hi rs \<and> solid lo hi ss \<and> (\<forall>r \<in> set rs. \<forall>s \<in> set ss. hi r < lo s)"
  by (auto simp: solid_def)

lemma covered_above: "separated lo hi rs \<Longrightarrow> \<forall>s \<in> set rs. b < lo s \<Longrightarrow> x \<in> covered lo hi rs \<Longrightarrow> b < x"
  by (force simp: covered_def)

lemma covered_length: "separated lo hi rs \<Longrightarrow> int (card (covered lo hi rs)) = sum_list (map (\<lambda>r. hi r - lo r) rs)"
proof (induction rs)
  case (Cons r rs)
  have "{lo r..<hi r} \<inter> covered lo hi rs = {}"
    using covered_above [of lo hi rs "hi r"] Cons.prems by force
  moreover have "finite (covered lo hi rs)"
    by (simp add: covered_def)
  ultimately show ?case
    using Cons by (simp add: card_Un_disjoint)
qed simp

text \<open>Both binary searches of \<open>Arrays_Find\<close> apply to a separated list: its bounds increase.\<close>

lemma separated_sorted:
  "separated lo hi rs \<Longrightarrow> (\<And>r s. lo r \<le> hi r \<Longrightarrow> lo s \<le> hi s \<Longrightarrow> hi r < lo s \<Longrightarrow> P r s) \<Longrightarrow> sorted_wrt P rs"
  unfolding separated_def by (elim conjE) (rule sorted_wrt_mono_rel, auto)

lemma monotonous_hi: "separated lo hi rs \<Longrightarrow> monotonous (\<lambda>r. hi r < b) rs"
  by (rule monotonous_sorted, erule separated_sorted) auto

lemma monotonous_lo: "separated lo hi rs \<Longrightarrow> monotonous (\<lambda>r. lo r \<le> b) rs"
  by (rule monotonous_sorted, erule separated_sorted) auto

lemma monotonous_lo_less: "separated lo hi rs \<Longrightarrow> monotonous (\<lambda>r. lo r < b) rs"
  by (rule monotonous_sorted, erule separated_sorted) auto

section \<open>Joining a range into a list\<close>

text \<open>The loop \<open>while (i < xs.length && p(xs[i])) { i++; }\<close>.\<close>

function scan :: "('a \<Rightarrow> bool) \<Rightarrow> 'a list \<Rightarrow> nat \<Rightarrow> nat" where
  "scan p xs i = (if i < length xs \<and> p (xs ! i) then scan p xs (i + 1) else i)"
  by pat_completeness auto
termination
  by (relation "measure (\<lambda>(p, xs, i). length xs - i)") auto

declare scan.simps [simp del]

lemma scan_takeWhile: "i \<le> length xs \<Longrightarrow> scan p xs i = i + length (takeWhile p (drop i xs))"
proof (induction p xs i rule: scan.induct)
  case (1 p xs i)
  show ?case
  proof (cases "i < length xs")
    case True
    then have "drop i xs = xs ! i # drop (i + 1) xs"
      by (simp add: Cons_nth_drop_Suc)
    with 1 True show ?thesis
      by (subst scan.simps) simp
  next
    case False
    with 1 show ?thesis
      by (subst scan.simps) simp
  qed
qed

definition merged :: "('r \<Rightarrow> int) \<Rightarrow> ('r \<Rightarrow> int) \<Rightarrow> (int \<Rightarrow> int \<Rightarrow> 'r) \<Rightarrow> 'r \<Rightarrow> 'r list \<Rightarrow> 'r list" where
  "merged lo hi mk r rs =
     (let before = takeWhile (\<lambda>s. hi s < lo r) rs; rest = dropWhile (\<lambda>s. hi s < lo r) rs;
          touching = takeWhile (\<lambda>s. lo s \<le> hi r) rest; after = dropWhile (\<lambda>s. lo s \<le> hi r) rest
      in before @ (if touching = [] then r
                   else mk (min (lo r) (lo (hd touching))) (max (hi r) (hi (last touching)))) # after)"

text \<open>The three parts of a separated list relative to a range: before it, touching it, after it.\<close>

lemma separated_parts:
  assumes "separated lo hi rs"
  obtains before touching after
  where "rs = before @ touching @ after"
    and "before = takeWhile (\<lambda>s. hi s < a) rs"
    and "touching = takeWhile (\<lambda>s. lo s \<le> b) (dropWhile (\<lambda>s. hi s < a) rs)"
    and "after = dropWhile (\<lambda>s. lo s \<le> b) (dropWhile (\<lambda>s. hi s < a) rs)"
    and "\<forall>s \<in> set before. hi s < a" and "\<forall>s \<in> set touching. a \<le> hi s \<and> lo s \<le> b" and "\<forall>s \<in> set after. a \<le> hi s \<and> b < lo s"
proof
  let ?rest = "dropWhile (\<lambda>s. hi s < a) rs"
  show "rs = takeWhile (\<lambda>s. hi s < a) rs @ takeWhile (\<lambda>s. lo s \<le> b) ?rest @ dropWhile (\<lambda>s. lo s \<le> b) ?rest"
    by simp
  show "\<forall>s \<in> set (takeWhile (\<lambda>s. hi s < a) rs). hi s < a"
    by (auto dest: set_takeWhileD)
  have late: "\<forall>s \<in> set ?rest. a \<le> hi s"
    using monotonous_hi [OF assms, of a] by (simp add: monotonous_def not_less)
  then show "\<forall>s \<in> set (takeWhile (\<lambda>s. lo s \<le> b) ?rest). a \<le> hi s \<and> lo s \<le> b"
    by (auto dest: set_takeWhileD)
  have "separated lo hi ?rest"
    using assms separated_append [of lo hi "takeWhile (\<lambda>s. hi s < a) rs" ?rest] by simp
  from monotonous_lo [OF this, of b] late
  show "\<forall>s \<in> set (dropWhile (\<lambda>s. lo s \<le> b) ?rest). a \<le> hi s \<and> b < lo s"
    by (auto simp: monotonous_def not_le dest: set_dropWhileD)
qed (rule refl)+

locale range_type =
  fixes lo hi :: "'r \<Rightarrow> int" and mk :: "int \<Rightarrow> int \<Rightarrow> 'r"
  assumes lo_mk [simp]: "lo (mk a b) = a"
    and hi_mk [simp]: "hi (mk a b) = b"
    and mk_bounds: "mk (lo r) (hi r) = r"
begin

lemma touching_join:
  assumes "separated lo hi ss" and "ss \<noteq> []" and "lo r \<le> hi r" and "\<forall>s \<in> set ss. lo r \<le> hi s \<and> lo s \<le> hi r"
  shows "{min (lo r) (lo (hd ss))..<max (hi r) (hi (last ss))} = {lo r..<hi r} \<union> covered lo hi ss"
proof (rule set_eqI)
  fix x
  have ends: "hd ss \<in> set ss" "last ss \<in> set ss"
    using assms(2) by simp_all
  have inner: "lo (hd ss) \<le> lo s \<and> hi s \<le> hi (last ss)" if "s \<in> set ss" for s
  proof -
    have "lo (hd ss) \<le> lo s"
      using assms(1) that by (cases ss) force+
    moreover have "hi s \<le> hi (last ss)"
      using assms(1) that by (cases ss rule: rev_cases) force+
    ultimately show ?thesis ..
  qed
  have "x \<in> covered lo hi ss" if "x < lo r" "lo (hd ss) \<le> x"
    using that ends assms(4) by (force simp: covered_def)
  moreover have "x \<in> covered lo hi ss" if "hi r \<le> x" "x < hi (last ss)"
    using that ends assms(4) by (force simp: covered_def)
  moreover have "lo (hd ss) \<le> x \<and> x < hi (last ss)" if "x \<in> covered lo hi ss"
    using that inner by (force simp: covered_def)
  ultimately show "x \<in> {min (lo r) (lo (hd ss))..<max (hi r) (hi (last ss))} \<longleftrightarrow> x \<in> {lo r..<hi r} \<union> covered lo hi ss"
    unfolding Un_iff atLeastLessThan_iff min_le_iff_disj less_max_iff_disj by linarith
qed

lemma merged_covered:
  assumes "separated lo hi rs" and "lo r \<le> hi r"
  shows "covered lo hi (merged lo hi mk r rs) = covered lo hi rs \<union> {lo r..<hi r}"
proof -
  obtain before touching after where parts: "rs = before @ touching @ after"
    "before = takeWhile (\<lambda>s. hi s < lo r) rs"
    "touching = takeWhile (\<lambda>s. lo s \<le> hi r) (dropWhile (\<lambda>s. hi s < lo r) rs)"
    "after = dropWhile (\<lambda>s. lo s \<le> hi r) (dropWhile (\<lambda>s. hi s < lo r) rs)"
    "\<forall>s \<in> set touching. lo r \<le> hi s \<and> lo s \<le> hi r"
    by (rule separated_parts [OF assms(1), of "lo r" "hi r"]) blast
  have "separated lo hi touching"
    using assms(1) unfolding parts(1) by simp
  with touching_join [OF this _ assms(2) parts(5)] show ?thesis
    unfolding merged_def Let_def parts(2-4) [symmetric] by (subst parts(1)) auto
qed

lemma merged_separated:
  assumes "separated lo hi rs" and "lo r \<le> hi r"
  shows "separated lo hi (merged lo hi mk r rs)"
proof -
  obtain before touching after where parts: "rs = before @ touching @ after"
    "before = takeWhile (\<lambda>s. hi s < lo r) rs"
    "touching = takeWhile (\<lambda>s. lo s \<le> hi r) (dropWhile (\<lambda>s. hi s < lo r) rs)"
    "after = dropWhile (\<lambda>s. lo s \<le> hi r) (dropWhile (\<lambda>s. hi s < lo r) rs)"
    "\<forall>s \<in> set before. hi s < lo r" "\<forall>s \<in> set after. lo r \<le> hi s \<and> hi r < lo s"
    by (rule separated_parts [OF assms(1), of "lo r" "hi r"]) blast
  have sep: "separated lo hi (before @ touching @ after)"
    using assms(1) unfolding parts(1) .
  show ?thesis
  proof (cases "touching = []")
    case True
    with sep parts(5,6) assms(2) show ?thesis
      unfolding merged_def Let_def parts(2-4) [symmetric] by fastforce
  next
    case False
    then have "hd touching \<in> set touching" "last touching \<in> set touching"
      by simp_all
    with sep parts(5,6) assms(2) False show ?thesis
      unfolding merged_def Let_def parts(2-4) [symmetric] by fastforce
  qed
qed

lemma merged_solid:
  assumes "solid lo hi rs" and "lo r < hi r"
  shows "solid lo hi (merged lo hi mk r rs)"
proof -
  have "separated lo hi (merged lo hi mk r rs)"
    using assms by (intro merged_separated) (simp_all add: solid_def)
  moreover have "lo s < hi s" if "s \<in> set (merged lo hi mk r rs)" for s
    using that assms unfolding merged_def Let_def solid_def
    by (auto split: if_splits dest!: set_takeWhileD set_dropWhileD)
  ultimately show ?thesis
    by (simp add: solid_def)
qed

text \<open>Two lists in normal form with non-empty ranges that cover the same integers are the same list.\<close>

lemma solid_head:
  assumes "solid lo hi (r # rs)"
  shows "lo r \<in> covered lo hi (r # rs)" and "\<And>x. x \<in> covered lo hi (r # rs) \<Longrightarrow> lo r \<le> x"
    and "hi r \<notin> covered lo hi (r # rs)"
  using assms covered_above [of lo hi rs "hi r"] by (force simp: solid_def)+

lemma solid_tail: "solid lo hi (r # rs) \<Longrightarrow> covered lo hi rs = {x \<in> covered lo hi (r # rs). hi r < x}"
  using covered_above [of lo hi rs "hi r"] by (auto simp: solid_def)

lemma solid_unique:
  assumes "solid lo hi rs" and "solid lo hi ss" and "covered lo hi rs = covered lo hi ss"
  shows "rs = ss"
  using assms
proof (induction rs arbitrary: ss)
  case Nil
  then show ?case
    by (cases ss) (auto dest: solid_head(1))
next
  case (Cons r rs)
  then obtain s ss' where ss: "ss = s # ss'"
    using solid_head(1) [OF Cons.prems(1)] by (cases ss) auto
  note heads = solid_head [OF Cons.prems(1)] solid_head [OF Cons.prems(2) [unfolded ss]]
  have lo_eq: "lo r = lo s"
    using heads Cons.prems(3) unfolding ss by (intro antisym) blast+
  have "hi r \<le> hi s"
  proof (rule ccontr)
    assume "\<not> hi r \<le> hi s"
    then have "hi s \<in> {lo r..<hi r}"
      using lo_eq Cons.prems(2) by (simp add: ss)
    with heads(6) Cons.prems(3) show False
      unfolding ss by (metis UnI1 covered_simps(2))
  qed
  moreover have "hi s \<le> hi r"
  proof (rule ccontr)
    assume "\<not> hi s \<le> hi r"
    then have "hi r \<in> {lo s..<hi s}"
      using lo_eq Cons.prems(1) by simp
    with heads(3) Cons.prems(3) show False
      unfolding ss by (metis UnI1 covered_simps(2))
  qed
  ultimately have hi_eq: "hi r = hi s"
    by simp
  have "covered lo hi rs = covered lo hi ss'"
    unfolding solid_tail [OF Cons.prems(1)] solid_tail [OF Cons.prems(2) [unfolded ss]] hi_eq Cons.prems(3) [unfolded ss] ..
  with Cons.prems(1,2) have "rs = ss'"
    unfolding ss solid_Cons by (intro Cons.IH) blast+
  moreover have "r = s"
    by (metis lo_eq hi_eq mk_bounds)
  ultimately show ?case
    by (simp only: ss)
qed

end

end
