(* ===== verification/Offset_Range.thy ===== *)
theory Offset_Range
  imports Range_List
begin

text \<open>
  Ranges of 0-based offsets and sets of them: the classes \<open>OffsetRange\<close> and \<open>OffsetRangeSet\<close> of
  \<open>src/vs/editor/common/core/offsetRange.ts\<close>. A range is a record, and only \<open>new_OffsetRange\<close>, the constructor
  with its check, makes one whose bounds are not known to be ordered: every method that calls the constructor
  returns a result. A set is its sorted array. \<open>off\<close> interprets \<open>range_type\<close> on the record.
\<close>

section \<open>Offset ranges\<close>

record offset_range =
  or_start :: int
  or_endExclusive :: int

definition new_OffsetRange :: "int \<Rightarrow> int \<Rightarrow> offset_range result" where
  "new_OffsetRange start endExclusive =
     (if start > endExclusive then Inl BugIndicatingError
      else Inr \<lparr>or_start = start, or_endExclusive = endExclusive\<rparr>)"

definition or_tryCreate :: "int \<Rightarrow> int \<Rightarrow> offset_range option" where
  "or_tryCreate start endExclusive =
     (if start > endExclusive then None else Some \<lparr>or_start = start, or_endExclusive = endExclusive\<rparr>)"

definition or_ofLength :: "int \<Rightarrow> offset_range result" where
  "or_ofLength len = new_OffsetRange 0 len"

definition or_ofStartAndLength :: "int \<Rightarrow> int \<Rightarrow> offset_range result" where
  "or_ofStartAndLength start len = new_OffsetRange start (start + len)"

definition or_emptyAt :: "int \<Rightarrow> offset_range" where
  "or_emptyAt offset = \<lparr>or_start = offset, or_endExclusive = offset\<rparr>"

definition or_isEmpty :: "offset_range \<Rightarrow> bool" where
  "or_isEmpty r \<longleftrightarrow> or_start r = or_endExclusive r"

definition or_delta :: "int \<Rightarrow> offset_range \<Rightarrow> offset_range result" where
  "or_delta offset r = new_OffsetRange (or_start r + offset) (or_endExclusive r + offset)"

definition or_deltaStart :: "int \<Rightarrow> offset_range \<Rightarrow> offset_range result" where
  "or_deltaStart offset r = new_OffsetRange (or_start r + offset) (or_endExclusive r)"

definition or_deltaEnd :: "int \<Rightarrow> offset_range \<Rightarrow> offset_range result" where
  "or_deltaEnd offset r = new_OffsetRange (or_start r) (or_endExclusive r + offset)"

definition or_length :: "offset_range \<Rightarrow> int" where
  "or_length r = or_endExclusive r - or_start r"

definition or_toString :: "offset_range \<Rightarrow> jsstring" where
  "or_toString r = js ''['' @ int_string (or_start r) @ js '', '' @ int_string (or_endExclusive r) @ js '')''"

definition or_equals :: "offset_range \<Rightarrow> offset_range \<Rightarrow> bool" where
  "or_equals r other \<longleftrightarrow> or_start r = or_start other \<and> or_endExclusive r = or_endExclusive other"

definition or_containsRange :: "offset_range \<Rightarrow> offset_range \<Rightarrow> bool" where
  "or_containsRange r other \<longleftrightarrow> or_start r \<le> or_start other \<and> or_endExclusive other \<le> or_endExclusive r"

definition or_contains :: "offset_range \<Rightarrow> int \<Rightarrow> bool" where
  "or_contains r offset \<longleftrightarrow> or_start r \<le> offset \<and> offset < or_endExclusive r"

definition or_join :: "offset_range \<Rightarrow> offset_range \<Rightarrow> offset_range result" where
  "or_join r other =
     new_OffsetRange (min (or_start r) (or_start other)) (max (or_endExclusive r) (or_endExclusive other))"

text \<open>The constructor is called only when the bounds are ordered.\<close>

definition or_intersect :: "offset_range \<Rightarrow> offset_range \<Rightarrow> offset_range option" where
  "or_intersect r other =
     (let start = max (or_start r) (or_start other); stop = min (or_endExclusive r) (or_endExclusive other)
      in if start \<le> stop then Some \<lparr>or_start = start, or_endExclusive = stop\<rparr> else None)"

definition or_intersectionLength :: "offset_range \<Rightarrow> offset_range \<Rightarrow> int" where
  "or_intersectionLength r rng =
     (let start = max (or_start r) (or_start rng); stop = min (or_endExclusive r) (or_endExclusive rng)
      in max 0 (stop - start))"

definition or_intersects :: "offset_range \<Rightarrow> offset_range \<Rightarrow> bool" where
  "or_intersects r other \<longleftrightarrow>
     (let start = max (or_start r) (or_start other); stop = min (or_endExclusive r) (or_endExclusive other)
      in start < stop)"

definition or_intersectsOrTouches :: "offset_range \<Rightarrow> offset_range \<Rightarrow> bool" where
  "or_intersectsOrTouches r other \<longleftrightarrow>
     (let start = max (or_start r) (or_start other); stop = min (or_endExclusive r) (or_endExclusive other)
      in start \<le> stop)"

definition or_isBefore :: "offset_range \<Rightarrow> offset_range \<Rightarrow> bool" where
  "or_isBefore r other \<longleftrightarrow> or_endExclusive r \<le> or_start other"

definition or_isAfter :: "offset_range \<Rightarrow> offset_range \<Rightarrow> bool" where
  "or_isAfter r other \<longleftrightarrow> or_start r \<ge> or_endExclusive other"

definition or_slice :: "offset_range \<Rightarrow> 'a list \<Rightarrow> 'a list" where
  "or_slice r arr = js_slice arr (or_start r) (or_endExclusive r)"

definition or_substring :: "offset_range \<Rightarrow> jsstring \<Rightarrow> jsstring" where
  "or_substring r str = js_substring str (or_start r) (or_endExclusive r)"

definition or_clip :: "offset_range \<Rightarrow> int \<Rightarrow> int result" where
  "or_clip r value =
     (if or_isEmpty r then Inl BugIndicatingError
      else Inr (max (or_start r) (min (or_endExclusive r - 1) value)))"

text \<open>The operands of both remainders are positive, so that \<open>%\<close> is \<open>mod\<close>.\<close>

definition or_clipCyclic :: "offset_range \<Rightarrow> int \<Rightarrow> int result" where
  "or_clipCyclic r value =
     (if or_isEmpty r then Inl BugIndicatingError
      else if value < or_start r then Inr (or_endExclusive r - ((or_start r - value) mod or_length r))
      else if value \<ge> or_endExclusive r then Inr (or_start r + ((value - or_start r) mod or_length r))
      else Inr value)"

definition or_map :: "(int \<Rightarrow> 'a) \<Rightarrow> offset_range \<Rightarrow> 'a list" where
  "or_map f r = map f [or_start r..or_endExclusive r - 1]"

text \<open>The callback of \<open>forEach\<close> acts on a state.\<close>

definition or_forEach :: "(int \<Rightarrow> 's \<Rightarrow> 's) \<Rightarrow> offset_range \<Rightarrow> 's \<Rightarrow> 's" where
  "or_forEach f r = fold f [or_start r..or_endExclusive r - 1]"

definition or_addRange :: "offset_range \<Rightarrow> offset_range list \<Rightarrow> offset_range list result" where
  "or_addRange rng sortedRanges =
     (let i = scan (\<lambda>s. or_endExclusive s < or_start rng) sortedRanges 0;
          j = scan (\<lambda>s. or_start s \<le> or_endExclusive rng) sortedRanges i
      in if i = j then Inr (js_splice sortedRanges (int i) 0 [rng])
         else bind_result
           (new_OffsetRange (min (or_start rng) (or_start (sortedRanges ! i)))
              (max (or_endExclusive rng) (or_endExclusive (sortedRanges ! (j - 1)))))
           (\<lambda>joined. Inr (js_splice sortedRanges (int i) (int j - int i) [joined])))"

section \<open>Sets of offset ranges\<close>

type_synonym offset_range_set = "offset_range list"

definition new_OffsetRangeSet :: offset_range_set where
  "new_OffsetRangeSet = []"

definition ors_addRange :: "offset_range \<Rightarrow> offset_range_set \<Rightarrow> offset_range_set result" where
  "ors_addRange rng sortedRanges =
     (let i = scan (\<lambda>s. or_endExclusive s < or_start rng) sortedRanges 0;
          j = scan (\<lambda>s. or_start s \<le> or_endExclusive rng) sortedRanges i
      in if i = j then Inr (js_splice sortedRanges (int i) 0 [rng])
         else bind_result
           (new_OffsetRange (min (or_start rng) (or_start (sortedRanges ! i)))
              (max (or_endExclusive rng) (or_endExclusive (sortedRanges ! (j - 1)))))
           (\<lambda>joined. Inr (js_splice sortedRanges (int i) (int j - int i) [joined])))"

definition ors_toString :: "offset_range_set \<Rightarrow> jsstring" where
  "ors_toString s = js_join (js '', '') (map or_toString s)"

definition ors_intersectsStrict :: "offset_range \<Rightarrow> offset_range_set \<Rightarrow> bool" where
  "ors_intersectsStrict other s \<longleftrightarrow>
     (let i = scan (\<lambda>r. or_endExclusive r \<le> or_start other) s 0
      in i < length s \<and> or_start (s ! i) < or_endExclusive other)"

fun intersect_loop :: "offset_range \<Rightarrow> offset_range list \<Rightarrow> offset_range_set \<Rightarrow> offset_range_set result" where
  "intersect_loop other [] res = Inr res"
| "intersect_loop other (rng # ranges) res =
     (case or_intersect rng other of
        Some intersection \<Rightarrow> bind_result (ors_addRange intersection res) (intersect_loop other ranges)
      | None \<Rightarrow> intersect_loop other ranges res)"

definition ors_intersectWithRange :: "offset_range \<Rightarrow> offset_range_set \<Rightarrow> offset_range_set result" where
  "ors_intersectWithRange other s = intersect_loop other s new_OffsetRangeSet"

definition ors_length :: "offset_range_set \<Rightarrow> int" where
  "ors_length s = foldl (\<lambda>prev cur. prev + or_length cur) 0 s"

definition ors_intersectWithRangeLength :: "offset_range \<Rightarrow> offset_range_set \<Rightarrow> int result" where
  "ors_intersectWithRangeLength other s = bind_result (ors_intersectWithRange other s) (\<lambda>res. Inr (ors_length res))"


section \<open>A set of ranges stands for its offsets\<close>

abbreviation mk_offset_range :: "int \<Rightarrow> int \<Rightarrow> offset_range" where
  "mk_offset_range a b \<equiv> \<lparr>or_start = a, or_endExclusive = b\<rparr>"

interpretation off: range_type or_start or_endExclusive mk_offset_range
  by unfold_locales simp_all

definition valid_offset_range :: "offset_range \<Rightarrow> bool" where
  "valid_offset_range r \<longleftrightarrow> or_start r \<le> or_endExclusive r"

abbreviation offsets :: "offset_range list \<Rightarrow> int set" where
  "offsets s \<equiv> covered or_start or_endExclusive s"

abbreviation sorted_ranges :: "offset_range list \<Rightarrow> bool" where
  "sorted_ranges s \<equiv> separated or_start or_endExclusive s"

lemma new_OffsetRange_valid: "new_OffsetRange a b = Inr r \<Longrightarrow> valid_offset_range r"
  by (auto simp: new_OffsetRange_def valid_offset_range_def split: if_splits)

lemma new_OffsetRange_ok [simp]: "a \<le> b \<Longrightarrow> new_OffsetRange a b = Inr (mk_offset_range a b)"
  by (simp add: new_OffsetRange_def)

text \<open>Both copies of \<open>addRange\<close> join the range into the sorted array, and never throw.\<close>

lemma or_addRange_merged:
  assumes "sorted_ranges s" and "valid_offset_range r"
  shows "or_addRange r s = Inr (merged or_start or_endExclusive mk_offset_range r s)"
proof -
  obtain before touching after where parts: "s = before @ touching @ after"
    "before = takeWhile (\<lambda>q. or_endExclusive q < or_start r) s"
    "touching = takeWhile (\<lambda>q. or_start q \<le> or_endExclusive r) (dropWhile (\<lambda>q. or_endExclusive q < or_start r) s)"
    "after = dropWhile (\<lambda>q. or_start q \<le> or_endExclusive r) (dropWhile (\<lambda>q. or_endExclusive q < or_start r) s)"
    by (rule separated_parts [OF assms(1), of "or_start r" "or_endExclusive r"]) blast
  let ?i = "length before" and ?j = "length before + length touching"
  have i: "scan (\<lambda>q. or_endExclusive q < or_start r) s 0 = ?i"
    by (simp add: scan_takeWhile parts(2))
  have rest: "drop ?i s = dropWhile (\<lambda>q. or_endExclusive q < or_start r) s"
    by (simp add: dropWhile_eq_drop parts(2))
  have "?i \<le> length s"
    by (subst parts(1)) simp
  then have j: "scan (\<lambda>q. or_start q \<le> or_endExclusive r) s ?i = ?j"
    by (simp add: scan_takeWhile rest parts(3) [symmetric])
  have splice: "js_splice s (int ?i) (int ?j - int ?i) [x] = before @ x # after" for x
    by (subst parts(1)) (simp add: js_splice_def rel_index_def)
  show ?thesis
  proof (cases "touching = []")
    case True
    then show ?thesis
      using splice [of r] unfolding or_addRange_def merged_def Let_def i j parts(2-4) [symmetric] by simp
  next
    case False
    have "s ! ?i = hd touching"
      using False by (subst parts(1)) (simp add: nth_append hd_conv_nth)
    moreover have "s ! (?j - 1) = last touching"
      using False by (subst parts(1), cases touching rule: rev_cases) (simp_all add: nth_append)
    ultimately have nth: "s ! ?i = hd touching" "s ! (?j - 1) = last touching" .
    have "min (or_start r) (or_start (hd touching)) \<le> max (or_endExclusive r) (or_endExclusive (last touching))"
      using assms(2) by (simp add: valid_offset_range_def)
    then show ?thesis
      using False splice unfolding or_addRange_def merged_def Let_def i j parts(2-4) [symmetric] nth by simp
  qed
qed

lemma ors_addRange_eq: "ors_addRange = or_addRange"
  by (intro ext) (simp only: ors_addRange_def or_addRange_def)

lemma ors_addRange_spec:
  assumes "sorted_ranges s" and "valid_offset_range r"
  shows "\<exists>s'. ors_addRange r s = Inr s' \<and> sorted_ranges s' \<and> offsets s' = offsets s \<union> {or_start r..<or_endExclusive r}"
  using assms off.merged_covered [of s r] off.merged_separated [of s r] or_addRange_merged [OF assms]
  by (simp add: ors_addRange_eq valid_offset_range_def)

definition add_ranges :: "offset_range list \<Rightarrow> offset_range_set \<Rightarrow> offset_range_set result" where
  "add_ranges rs s = foldl (\<lambda>acc r. bind_result acc (ors_addRange r)) (Inr s) rs"

lemma add_ranges_spec:
  "sorted_ranges s \<Longrightarrow> \<forall>r \<in> set rs. valid_offset_range r \<Longrightarrow>
     \<exists>s'. add_ranges rs s = Inr s' \<and> sorted_ranges s' \<and> offsets s' = offsets s \<union> offsets rs"
proof (induction rs arbitrary: s)
  case (Cons r rs)
  then obtain s1 where s1: "ors_addRange r s = Inr s1" "sorted_ranges s1"
    "offsets s1 = offsets s \<union> {or_start r..<or_endExclusive r}"
    using ors_addRange_spec [of s r] by auto
  with Cons.IH [of s1] Cons.prems show ?case
    by (auto simp: add_ranges_def)
qed (simp add: add_ranges_def)

lemma intersect_loop_spec:
  "sorted_ranges res \<Longrightarrow>
     \<exists>s'. intersect_loop other rs res = Inr s' \<and> sorted_ranges s' \<and>
       offsets s' = offsets res \<union> (offsets rs \<inter> {or_start other..<or_endExclusive other})"
proof (induction other rs res rule: intersect_loop.induct)
  case (2 other rng ranges res)
  show ?case
  proof (cases "or_intersect rng other")
    case None
    then have "offsets (rng # ranges) \<inter> {or_start other..<or_endExclusive other} =
        offsets ranges \<inter> {or_start other..<or_endExclusive other}"
      by (auto simp: or_intersect_def Let_def split: if_splits)
    with None 2 show ?thesis
      by (simp del: covered_simps)
  next
    case (Some x)
    then have x: "valid_offset_range x" "{or_start x..<or_endExclusive x} =
        {or_start rng..<or_endExclusive rng} \<inter> {or_start other..<or_endExclusive other}"
      by (auto simp: or_intersect_def valid_offset_range_def Let_def split: if_splits)
    obtain s1 where s1: "ors_addRange x res = Inr s1" "sorted_ranges s1"
      "offsets s1 = offsets res \<union> {or_start x..<or_endExclusive x}"
      using ors_addRange_spec [OF "2.prems" x(1)] by blast
    from "2.IH"(2) [OF Some s1(2)] Some s1 x(2) show ?thesis
      by (simp add: Int_Un_distrib2 Un_assoc)
  qed
qed simp

lemma ors_length_sum: "ors_length s = sum_list (map (\<lambda>r. or_endExclusive r - or_start r) s)"
proof -
  have "foldl (\<lambda>prev cur. prev + or_length cur) n s = n + sum_list (map (\<lambda>r. or_endExclusive r - or_start r) s)" for n
    by (induction s arbitrary: n) (simp_all add: or_length_def)
  then show ?thesis
    by (simp add: ors_length_def)
qed

lemma ors_length_card: "sorted_ranges s \<Longrightarrow> ors_length s = int (card (offsets s))"
  by (simp add: ors_length_sum covered_length)

text \<open>
  A set of offset ranges counts offsets. Whatever ranges are added to an empty \<open>OffsetRangeSet\<close>, in
  whatever order, no call throws; the set's length is the number of offsets that some of the ranges contain, and
  the length of its intersection with a further range is the number of those that the range contains as well.
\<close>

theorem offset_set_counts:
  assumes "\<forall>r \<in> set rs. valid_offset_range r"
  shows "\<exists>s. add_ranges rs new_OffsetRangeSet = Inr s \<and>
    ors_length s = int (card {x. \<exists>r \<in> set rs. or_contains r x}) \<and>
    ors_intersectWithRangeLength other s = Inr (int (card {x. or_contains other x \<and> (\<exists>r \<in> set rs. or_contains r x)}))"
proof -
  have union: "offsets rs = {x. \<exists>r \<in> set rs. or_contains r x}"
    by (auto simp: covered_def or_contains_def)
  have both: "offsets rs \<inter> {or_start other..<or_endExclusive other} = {x. or_contains other x \<and> (\<exists>r \<in> set rs. or_contains r x)}"
    by (auto simp: covered_def or_contains_def)
  obtain s where s: "add_ranges rs new_OffsetRangeSet = Inr s" "sorted_ranges s" "offsets s = offsets rs"
    using add_ranges_spec [of new_OffsetRangeSet rs] assms by (auto simp: new_OffsetRangeSet_def)
  obtain t where "ors_intersectWithRange other s = Inr t" "sorted_ranges t"
    "offsets t = offsets s \<inter> {or_start other..<or_endExclusive other}"
    using intersect_loop_spec [of new_OffsetRangeSet other s] by (auto simp: ors_intersectWithRange_def new_OffsetRangeSet_def)
  with s show ?thesis
    by (auto simp: ors_intersectWithRangeLength_def ors_length_card union [symmetric] both [symmetric])
qed

theorem offset_set_counts_witness:
  "\<exists>s. add_ranges [mk_offset_range 3 5, mk_offset_range 0 2, mk_offset_range 1 4] new_OffsetRangeSet = Inr s \<and> ors_length s = 5"
proof -
  let ?rs = "[mk_offset_range 3 5, mk_offset_range 0 2, mk_offset_range 1 4]"
  have "\<forall>r \<in> set ?rs. valid_offset_range r"
    by (simp add: valid_offset_range_def)
  moreover have "{x. \<exists>r \<in> set ?rs. or_contains r x} = {0..<5}"
    by (auto simp: or_contains_def)
  ultimately show ?thesis
    using offset_set_counts [of ?rs] by force
qed

section \<open>Clipping\<close>

text \<open>
  Clipping a value cyclically to a non-empty range gives a value that differs by a multiple of the range's
  length and lies in the range or at its exclusive end; it is the end, which the range does not contain, exactly
  for the values before the start whose distance to the start is a multiple of the length.
\<close>

theorem clip_cyclic_residue:
  assumes "or_start r < or_endExclusive r"
  shows "\<exists>c. or_clipCyclic r value = Inr c \<and> (c - value) mod or_length r = 0 \<and>
    (if value < or_start r \<and> (or_start r - value) mod or_length r = 0 then c = or_endExclusive r else or_contains r c)"
proof -
  have len: "0 < or_length r"
    using assms by (simp add: or_length_def)
  note bounds = pos_mod_bound [OF len] pos_mod_sign [OF len]
  consider (before) "value < or_start r" | (inside) "or_contains r value" | (after) "or_endExclusive r \<le> value"
    unfolding or_contains_def by linarith
  then show ?thesis
  proof cases
    case before
    let ?c = "or_endExclusive r - (or_start r - value) mod or_length r"
    have "?c - value = or_length r + ((or_start r - value) - (or_start r - value) mod or_length r)"
      by (simp add: or_length_def)
    then have "(?c - value) mod or_length r = 0"
      by (simp only: minus_mod_eq_mult_div) simp
    moreover have "or_clipCyclic r value = Inr ?c"
      using before assms by (simp add: or_clipCyclic_def or_isEmpty_def)
    ultimately show ?thesis
      using before bounds [of "or_start r - value"] by (force simp: or_contains_def or_length_def)
  next
    case inside
    then show ?thesis
      by (auto simp: or_clipCyclic_def or_isEmpty_def or_contains_def)
  next
    case after
    let ?c = "or_start r + (value - or_start r) mod or_length r"
    have "?c - value = - ((value - or_start r) - (value - or_start r) mod or_length r)"
      by simp
    then have "(?c - value) mod or_length r = 0"
      by (simp only: minus_mod_eq_mult_div) simp
    moreover have "or_clipCyclic r value = Inr ?c"
      using after assms by (simp add: or_clipCyclic_def or_isEmpty_def)
    moreover have "or_contains r ?c"
      using bounds [of "value - or_start r"] unfolding or_contains_def or_length_def by linarith
    ultimately show ?thesis
      using after assms by auto
  qed
qed

theorem clip_cyclic_residue_witness:
  "or_clipCyclic (mk_offset_range 5 10) 4 = Inr 9 \<and> or_contains (mk_offset_range 5 10) 9"
  using clip_cyclic_residue [of "mk_offset_range 5 10" 4]
  by (simp add: or_clipCyclic_def or_isEmpty_def or_length_def)

text \<open>The range the comment of \<open>clipCyclic\<close> uses, at a value one length further down.\<close>

theorem clip_cyclic_outside: "or_clipCyclic (mk_offset_range 5 10) 0 = Inr 10"
  by (simp add: or_clipCyclic_def or_isEmpty_def or_length_def)

text \<open>
  A set that holds an empty range intersects a range around it strictly, although no offset is contained in
  both: the comment of \<open>intersectsStrict\<close> promises such an offset.
\<close>

theorem empty_range_intersects_strictly:
  "add_ranges [or_emptyAt 3] new_OffsetRangeSet = Inr [or_emptyAt 3]"
  "ors_intersectsStrict (mk_offset_range 1 5) [or_emptyAt 3]"
  "ors_length [or_emptyAt 3] = 0"
  by (simp_all add: add_ranges_def new_OffsetRangeSet_def ors_addRange_def scan.simps js_splice_def rel_index_def
      ors_intersectsStrict_def or_emptyAt_def ors_length_def or_length_def)

end
