(* ===== verification/Editor_Range.thy ===== *)
theory Editor_Range
  imports Js_Prelude "HOL-Library.Product_Lexorder"
begin

text \<open>
  Positions, ranges and selections of the editor: the classes \<open>Position\<close>, \<open>Range\<close> and \<open>Selection\<close> of
  \<open>src/vs/editor/common/core/position.ts\<close>, \<open>range.ts\<close> and \<open>selection.ts\<close>. A selection extends a range as
  the class does. Instance and static methods of the same name have one definition. Line and column
  numbers are integers; the bitwise or with 0 in the comparison functions is the conversion to 32 bits.
  The dynamic type tests \<open>isIPosition\<close>, \<open>isIRange\<close> and \<open>isISelection\<close> are left out: every value of the
  model has the type they test for.

  Positions are a linear order, so that the relations and operations on ranges are those of closed
  intervals of positions. The locale \<open>comparator\<close> is the contract of a comparison function that an array
  is sorted with; it is interpreted on the comparison functions of positions and ranges.
\<close>

section \<open>Comparison functions\<close>

text \<open>\<open>Array.prototype.sort\<close> with a comparison function: stable.\<close>

fun js_insort :: "('a \<Rightarrow> 'a \<Rightarrow> int) \<Rightarrow> 'a \<Rightarrow> 'a list \<Rightarrow> 'a list" where
  "js_insort cmp x [] = [x]"
| "js_insort cmp x (y # ys) = (if cmp x y \<le> 0 then x # y # ys else y # js_insort cmp x ys)"

definition js_sort :: "('a \<Rightarrow> 'a \<Rightarrow> int) \<Rightarrow> 'a list \<Rightarrow> 'a list" where
  "js_sort cmp xs = foldr (js_insort cmp) xs []"

locale comparator =
  fixes ok :: "'a \<Rightarrow> bool" and cmp :: "'a \<Rightarrow> 'a \<Rightarrow> int" and key :: "'a \<Rightarrow> 'k::linorder"
  assumes cmp_neg: "ok a \<Longrightarrow> ok b \<Longrightarrow> cmp a b < 0 \<longleftrightarrow> key a < key b"
    and cmp_zero: "ok a \<Longrightarrow> ok b \<Longrightarrow> cmp a b = 0 \<longleftrightarrow> key a = key b"
begin

lemma cmp_le: "ok a \<Longrightarrow> ok b \<Longrightarrow> cmp a b \<le> 0 \<longleftrightarrow> key a \<le> key b"
  using cmp_neg [of a b] cmp_zero [of a b] by (auto simp: le_less)

lemma insort_key: "ok x \<Longrightarrow> list_all ok ys \<Longrightarrow> js_insort cmp x ys = insort_key key x ys"
  by (induction ys) (simp_all add: cmp_le)

lemma sort_is_sort_key: "list_all ok xs \<Longrightarrow> js_sort cmp xs = sort_key key xs"
proof (induction xs)
  case (Cons x xs)
  then have "list_all ok (sort_key key xs)"
    by (simp add: list_all_iff)
  with Cons show ?case
    by (simp add: js_sort_def insort_key)
qed (simp add: js_sort_def)

lemma sorted_after:
  assumes "list_all ok xs" and "i \<le> j" and "j < length xs"
  shows "cmp (js_sort cmp xs ! i) (js_sort cmp xs ! j) \<le> 0"
proof -
  have "set (js_sort cmp xs) = set xs" "length (js_sort cmp xs) = length xs"
    using sort_is_sort_key [OF assms(1)] by simp_all
  then have "ok (js_sort cmp xs ! i)" "ok (js_sort cmp xs ! j)"
    using assms nth_mem [of i "js_sort cmp xs"] nth_mem [of j "js_sort cmp xs"] by (auto simp: list_all_iff)
  moreover have "key (js_sort cmp xs ! i) \<le> key (js_sort cmp xs ! j)"
    using sort_is_sort_key [OF assms(1)] assms(2,3) sorted_nth_mono [of "map key (sort_key key xs)" i j] by simp
  ultimately show ?thesis
    by (simp add: cmp_le)
qed

end

section \<open>Position\<close>

record position =
  lineNumber :: int
  column :: int

definition new_Position :: "int \<Rightarrow> int \<Rightarrow> position" where
  "new_Position line col = \<lparr>lineNumber = line, column = col\<rparr>"

text \<open>An argument that is left out is \<open>None\<close>.\<close>

definition pos_with :: "int option \<Rightarrow> int option \<Rightarrow> position \<Rightarrow> position" where
  "pos_with newLineNumber newColumn p =
     (let l = (case newLineNumber of None \<Rightarrow> lineNumber p | Some l \<Rightarrow> l);
          c = (case newColumn of None \<Rightarrow> column p | Some c \<Rightarrow> c)
      in if l = lineNumber p \<and> c = column p then p else new_Position l c)"

definition pos_delta :: "int option \<Rightarrow> int option \<Rightarrow> position \<Rightarrow> position" where
  "pos_delta deltaLineNumber deltaColumn p =
     pos_with (Some (lineNumber p + (case deltaLineNumber of None \<Rightarrow> 0 | Some d \<Rightarrow> d)))
       (Some (column p + (case deltaColumn of None \<Rightarrow> 0 | Some d \<Rightarrow> d))) p"

definition pos_equals :: "position option \<Rightarrow> position option \<Rightarrow> bool" where
  "pos_equals a b =
     (case (a, b) of
        (None, None) \<Rightarrow> True
      | (Some x, Some y) \<Rightarrow> lineNumber x = lineNumber y \<and> column x = column y
      | _ \<Rightarrow> False)"

definition isBefore :: "position \<Rightarrow> position \<Rightarrow> bool" where
  "isBefore a b =
     (if lineNumber a < lineNumber b then True
      else if lineNumber b < lineNumber a then False
      else column a < column b)"

definition isBeforeOrEqual :: "position \<Rightarrow> position \<Rightarrow> bool" where
  "isBeforeOrEqual a b =
     (if lineNumber a < lineNumber b then True
      else if lineNumber b < lineNumber a then False
      else column a \<le> column b)"

definition pos_compare :: "position \<Rightarrow> position \<Rightarrow> int" where
  "pos_compare a b =
     (let aLineNumber = to_int32 (lineNumber a); bLineNumber = to_int32 (lineNumber b)
      in if aLineNumber = bLineNumber then to_int32 (column a) - to_int32 (column b)
         else aLineNumber - bLineNumber)"

definition pos_clone :: "position \<Rightarrow> position" where
  "pos_clone p = new_Position (lineNumber p) (column p)"

definition pos_toString :: "position \<Rightarrow> jsstring" where
  "pos_toString p = js ''('' @ int_string (lineNumber p) @ js '','' @ int_string (column p) @ js '')''"

section \<open>Range\<close>

record editor_range =
  startLineNumber :: int
  startColumn :: int
  endLineNumber :: int
  endColumn :: int

definition new_Range :: "int \<Rightarrow> int \<Rightarrow> int \<Rightarrow> int \<Rightarrow> editor_range" where
  "new_Range sl sc el ec =
     (if sl > el \<or> (sl = el \<and> sc > ec)
      then \<lparr>startLineNumber = el, startColumn = ec, endLineNumber = sl, endColumn = sc\<rparr>
      else \<lparr>startLineNumber = sl, startColumn = sc, endLineNumber = el, endColumn = ec\<rparr>)"

definition range_isEmpty :: "'a editor_range_scheme \<Rightarrow> bool" where
  "range_isEmpty r \<longleftrightarrow> startLineNumber r = endLineNumber r \<and> startColumn r = endColumn r"

definition containsPosition :: "'a editor_range_scheme \<Rightarrow> position \<Rightarrow> bool" where
  "containsPosition r p =
     (if lineNumber p < startLineNumber r \<or> lineNumber p > endLineNumber r then False
      else if lineNumber p = startLineNumber r \<and> column p < startColumn r then False
      else if lineNumber p = endLineNumber r \<and> column p > endColumn r then False
      else True)"

definition strictContainsPosition :: "'a editor_range_scheme \<Rightarrow> position \<Rightarrow> bool" where
  "strictContainsPosition r p =
     (if lineNumber p < startLineNumber r \<or> lineNumber p > endLineNumber r then False
      else if lineNumber p = startLineNumber r \<and> column p \<le> startColumn r then False
      else if lineNumber p = endLineNumber r \<and> column p \<ge> endColumn r then False
      else True)"

definition containsRange :: "'a editor_range_scheme \<Rightarrow> 'b editor_range_scheme \<Rightarrow> bool" where
  "containsRange r s =
     (if startLineNumber s < startLineNumber r \<or> endLineNumber s < startLineNumber r then False
      else if startLineNumber s > endLineNumber r \<or> endLineNumber s > endLineNumber r then False
      else if startLineNumber s = startLineNumber r \<and> startColumn s < startColumn r then False
      else if endLineNumber s = endLineNumber r \<and> endColumn s > endColumn r then False
      else True)"

definition strictContainsRange :: "'a editor_range_scheme \<Rightarrow> 'b editor_range_scheme \<Rightarrow> bool" where
  "strictContainsRange r s =
     (if startLineNumber s < startLineNumber r \<or> endLineNumber s < startLineNumber r then False
      else if startLineNumber s > endLineNumber r \<or> endLineNumber s > endLineNumber r then False
      else if startLineNumber s = startLineNumber r \<and> startColumn s \<le> startColumn r then False
      else if endLineNumber s = endLineNumber r \<and> endColumn s \<ge> endColumn r then False
      else True)"

definition plusRange :: "'a editor_range_scheme \<Rightarrow> 'b editor_range_scheme \<Rightarrow> editor_range" where
  "plusRange a b =
     (let (sl, sc) =
            (if startLineNumber b < startLineNumber a then (startLineNumber b, startColumn b)
             else if startLineNumber b = startLineNumber a
             then (startLineNumber b, min (startColumn b) (startColumn a))
             else (startLineNumber a, startColumn a));
          (el, ec) =
            (if endLineNumber b > endLineNumber a then (endLineNumber b, endColumn b)
             else if endLineNumber b = endLineNumber a
             then (endLineNumber b, max (endColumn b) (endColumn a))
             else (endLineNumber a, endColumn a))
      in new_Range sl sc el ec)"

definition intersectRanges :: "'a editor_range_scheme \<Rightarrow> 'b editor_range_scheme \<Rightarrow> editor_range option" where
  "intersectRanges a b =
     (let (sl, sc) =
            (if startLineNumber a < startLineNumber b then (startLineNumber b, startColumn b)
             else if startLineNumber a = startLineNumber b
             then (startLineNumber a, max (startColumn a) (startColumn b))
             else (startLineNumber a, startColumn a));
          (el, ec) =
            (if endLineNumber a > endLineNumber b then (endLineNumber b, endColumn b)
             else if endLineNumber a = endLineNumber b
             then (endLineNumber a, min (endColumn a) (endColumn b))
             else (endLineNumber a, endColumn a))
      in if sl > el then None
         else if sl = el \<and> sc > ec then None
         else Some (new_Range sl sc el ec))"

definition equalsRange :: "'a editor_range_scheme option \<Rightarrow> 'b editor_range_scheme option \<Rightarrow> bool" where
  "equalsRange a b =
     (case (a, b) of
        (None, None) \<Rightarrow> True
      | (Some x, Some y) \<Rightarrow>
          startLineNumber x = startLineNumber y \<and> startColumn x = startColumn y \<and>
          endLineNumber x = endLineNumber y \<and> endColumn x = endColumn y
      | _ \<Rightarrow> False)"

definition getEndPosition :: "'a editor_range_scheme \<Rightarrow> position" where
  "getEndPosition r = new_Position (endLineNumber r) (endColumn r)"

definition getStartPosition :: "'a editor_range_scheme \<Rightarrow> position" where
  "getStartPosition r = new_Position (startLineNumber r) (startColumn r)"

definition range_toString :: "editor_range \<Rightarrow> jsstring" where
  "range_toString r =
     js ''['' @ int_string (startLineNumber r) @ js '','' @ int_string (startColumn r) @ js '' -> '' @
     int_string (endLineNumber r) @ js '','' @ int_string (endColumn r) @ js '']''"

definition range_setEndPosition :: "int \<Rightarrow> int \<Rightarrow> editor_range \<Rightarrow> editor_range" where
  "range_setEndPosition el ec r = new_Range (startLineNumber r) (startColumn r) el ec"

definition range_setStartPosition :: "int \<Rightarrow> int \<Rightarrow> editor_range \<Rightarrow> editor_range" where
  "range_setStartPosition sl sc r = new_Range sl sc (endLineNumber r) (endColumn r)"

definition collapseToStart :: "'a editor_range_scheme \<Rightarrow> editor_range" where
  "collapseToStart r = new_Range (startLineNumber r) (startColumn r) (startLineNumber r) (startColumn r)"

definition collapseToEnd :: "'a editor_range_scheme \<Rightarrow> editor_range" where
  "collapseToEnd r = new_Range (endLineNumber r) (endColumn r) (endLineNumber r) (endColumn r)"

definition range_delta :: "int \<Rightarrow> 'a editor_range_scheme \<Rightarrow> editor_range" where
  "range_delta lineCount r =
     new_Range (startLineNumber r + lineCount) (startColumn r) (endLineNumber r + lineCount) (endColumn r)"

definition range_fromPositions :: "position \<Rightarrow> position option \<Rightarrow> editor_range" where
  "range_fromPositions start stop =
     (let e = (case stop of None \<Rightarrow> start | Some p \<Rightarrow> p)
      in new_Range (lineNumber start) (column start) (lineNumber e) (column e))"

definition range_lift :: "'a editor_range_scheme option \<Rightarrow> editor_range option" where
  "range_lift r =
     map_option (\<lambda>r. new_Range (startLineNumber r) (startColumn r) (endLineNumber r) (endColumn r)) r"

definition areIntersectingOrTouching :: "'a editor_range_scheme \<Rightarrow> 'b editor_range_scheme \<Rightarrow> bool" where
  "areIntersectingOrTouching a b =
     (if endLineNumber a < startLineNumber b \<or> (endLineNumber a = startLineNumber b \<and> endColumn a < startColumn b)
      then False
      else if endLineNumber b < startLineNumber a \<or> (endLineNumber b = startLineNumber a \<and> endColumn b < startColumn a)
      then False
      else True)"

definition areIntersecting :: "'a editor_range_scheme \<Rightarrow> 'b editor_range_scheme \<Rightarrow> bool" where
  "areIntersecting a b =
     (if endLineNumber a < startLineNumber b \<or> (endLineNumber a = startLineNumber b \<and> endColumn a \<le> startColumn b)
      then False
      else if endLineNumber b < startLineNumber a \<or> (endLineNumber b = startLineNumber a \<and> endColumn b \<le> startColumn a)
      then False
      else True)"

definition compareRangesUsingStarts ::
    "'a editor_range_scheme option \<Rightarrow> 'b editor_range_scheme option \<Rightarrow> int" where
  "compareRangesUsingStarts a b =
     (case (a, b) of
        (Some x, Some y) \<Rightarrow>
          (let asl = to_int32 (startLineNumber x); bsl = to_int32 (startLineNumber y) in
           if asl = bsl
           then let asc = to_int32 (startColumn x); bsc = to_int32 (startColumn y) in
             if asc = bsc
             then let ael = to_int32 (endLineNumber x); bel = to_int32 (endLineNumber y) in
               if ael = bel then to_int32 (endColumn x) - to_int32 (endColumn y)
               else ael - bel
             else asc - bsc
           else asl - bsl)
      | _ \<Rightarrow> (if a \<noteq> None then 1 else 0) - (if b \<noteq> None then 1 else 0))"

definition compareRangesUsingEnds :: "'a editor_range_scheme \<Rightarrow> 'b editor_range_scheme \<Rightarrow> int" where
  "compareRangesUsingEnds a b =
     (if endLineNumber a = endLineNumber b
      then if endColumn a = endColumn b
        then if startLineNumber a = startLineNumber b
          then startColumn a - startColumn b
          else startLineNumber a - startLineNumber b
        else endColumn a - endColumn b
      else endLineNumber a - endLineNumber b)"

definition spansMultipleLines :: "'a editor_range_scheme \<Rightarrow> bool" where
  "spansMultipleLines r \<longleftrightarrow> endLineNumber r > startLineNumber r"

section \<open>Selection\<close>

datatype selection_direction = LTR | RTL

record editor_selection = editor_range +
  selectionStartLineNumber :: int
  selectionStartColumn :: int
  positionLineNumber :: int
  positionColumn :: int

definition new_Selection :: "int \<Rightarrow> int \<Rightarrow> int \<Rightarrow> int \<Rightarrow> editor_selection" where
  "new_Selection sl sc pl pc =
     editor_range.extend (new_Range sl sc pl pc)
       \<lparr>selectionStartLineNumber = sl, selectionStartColumn = sc, positionLineNumber = pl, positionColumn = pc\<rparr>"

definition sel_toString :: "editor_selection \<Rightarrow> jsstring" where
  "sel_toString s =
     js ''['' @ int_string (selectionStartLineNumber s) @ js '','' @ int_string (selectionStartColumn s) @ js '' -> '' @
     int_string (positionLineNumber s) @ js '','' @ int_string (positionColumn s) @ js '']''"

definition selectionsEqual :: "editor_selection \<Rightarrow> editor_selection \<Rightarrow> bool" where
  "selectionsEqual a b \<longleftrightarrow>
     selectionStartLineNumber a = selectionStartLineNumber b \<and> selectionStartColumn a = selectionStartColumn b \<and>
     positionLineNumber a = positionLineNumber b \<and> positionColumn a = positionColumn b"

definition getDirection :: "editor_selection \<Rightarrow> selection_direction" where
  "getDirection s =
     (if selectionStartLineNumber s = startLineNumber s \<and> selectionStartColumn s = startColumn s then LTR else RTL)"

definition sel_setEndPosition :: "int \<Rightarrow> int \<Rightarrow> editor_selection \<Rightarrow> editor_selection" where
  "sel_setEndPosition el ec s =
     (if getDirection s = LTR then new_Selection (startLineNumber s) (startColumn s) el ec
      else new_Selection el ec (startLineNumber s) (startColumn s))"

definition getPosition :: "editor_selection \<Rightarrow> position" where
  "getPosition s = new_Position (positionLineNumber s) (positionColumn s)"

definition getSelectionStart :: "editor_selection \<Rightarrow> position" where
  "getSelectionStart s = new_Position (selectionStartLineNumber s) (selectionStartColumn s)"

definition sel_setStartPosition :: "int \<Rightarrow> int \<Rightarrow> editor_selection \<Rightarrow> editor_selection" where
  "sel_setStartPosition sl sc s =
     (if getDirection s = LTR then new_Selection sl sc (endLineNumber s) (endColumn s)
      else new_Selection (endLineNumber s) (endColumn s) sl sc)"

definition sel_fromPositions :: "position \<Rightarrow> position option \<Rightarrow> editor_selection" where
  "sel_fromPositions start stop =
     (let e = (case stop of None \<Rightarrow> start | Some p \<Rightarrow> p)
      in new_Selection (lineNumber start) (column start) (lineNumber e) (column e))"

definition fromRange :: "'a editor_range_scheme \<Rightarrow> selection_direction \<Rightarrow> editor_selection" where
  "fromRange r direction =
     (if direction = LTR then new_Selection (startLineNumber r) (startColumn r) (endLineNumber r) (endColumn r)
      else new_Selection (endLineNumber r) (endColumn r) (startLineNumber r) (startColumn r))"

definition liftSelection :: "editor_selection \<Rightarrow> editor_selection" where
  "liftSelection s =
     new_Selection (selectionStartLineNumber s) (selectionStartColumn s) (positionLineNumber s) (positionColumn s)"

fun selectionsArrEqual :: "editor_selection list option \<Rightarrow> editor_selection list option \<Rightarrow> bool" where
  "selectionsArrEqual None None = True"
| "selectionsArrEqual (Some a) (Some b) =
     (if length a \<noteq> length b then False else list_all (\<lambda>(x, y). selectionsEqual x y) (zip a b))"
| "selectionsArrEqual _ _ = False"

definition createWithDirection :: "int \<Rightarrow> int \<Rightarrow> int \<Rightarrow> int \<Rightarrow> selection_direction \<Rightarrow> editor_selection" where
  "createWithDirection sl sc el ec direction =
     (if direction = LTR then new_Selection sl sc el ec else new_Selection el ec sl sc)"

section \<open>The order of positions\<close>

instantiation position_ext :: (linorder) linorder
begin

definition less_eq_position_ext :: "('a::linorder) position_scheme \<Rightarrow> 'a position_scheme \<Rightarrow> bool" where
  "less_eq_position_ext p q \<longleftrightarrow>
     (lineNumber p, column p, position.more p) \<le> (lineNumber q, column q, position.more q)"

definition less_position_ext :: "('a::linorder) position_scheme \<Rightarrow> 'a position_scheme \<Rightarrow> bool" where
  "less_position_ext p q \<longleftrightarrow> p \<le> q \<and> \<not> q \<le> p"

instance
  by standard (auto simp: less_eq_position_ext_def less_position_ext_def)

end

lemma position_le: "p \<le> q \<longleftrightarrow> lineNumber p < lineNumber q \<or> (lineNumber p = lineNumber q \<and> column p \<le> column q)"
  for p q :: position
  by (auto simp: less_eq_position_ext_def)

lemma position_less: "p < q \<longleftrightarrow> lineNumber p < lineNumber q \<or> (lineNumber p = lineNumber q \<and> column p < column q)"
  for p q :: position
  by (auto simp: less_position_ext_def position_le)

lemma position_eq: "p = q \<longleftrightarrow> lineNumber p = lineNumber q \<and> column p = column q" for p q :: position
  by (cases p; cases q) simp

lemmas position_order = position_le position_less position_eq

lemma isBefore_less: "isBefore p q \<longleftrightarrow> p < q"
  by (auto simp: isBefore_def position_less)

lemma isBeforeOrEqual_le: "isBeforeOrEqual p q \<longleftrightarrow> p \<le> q"
  by (auto simp: isBeforeOrEqual_def position_le)

lemma new_Position_sel [simp]: "lineNumber (new_Position l c) = l" "column (new_Position l c) = c"
  by (simp_all add: new_Position_def)

text \<open>Coordinates that the conversion to 32 bits leaves alone.\<close>

definition int32 :: "int \<Rightarrow> bool" where
  "int32 i \<longleftrightarrow> - (2 ^ 31) \<le> i \<and> i < 2 ^ 31"

definition pos_int32 :: "position \<Rightarrow> bool" where
  "pos_int32 p \<longleftrightarrow> int32 (lineNumber p) \<and> int32 (column p)"

lemma int32_to_int32 [simp]: "int32 i \<Longrightarrow> to_int32 i = i"
  by (simp add: int32_def to_int32_id)

interpretation positions: comparator pos_int32 pos_compare "\<lambda>p. p"
  by unfold_locales (auto simp: pos_int32_def pos_compare_def Let_def position_order)

section \<open>Ranges as intervals\<close>

abbreviation rstart :: "'a editor_range_scheme \<Rightarrow> position" where
  "rstart r \<equiv> getStartPosition r"

abbreviation rend :: "'a editor_range_scheme \<Rightarrow> position" where
  "rend r \<equiv> getEndPosition r"

lemma position_parts:
  "new_Position (startLineNumber r) (startColumn r) = rstart r" "new_Position (endLineNumber r) (endColumn r) = rend r"
  by (simp_all add: getStartPosition_def getEndPosition_def)

definition range_ok :: "'a editor_range_scheme \<Rightarrow> bool" where
  "range_ok r \<longleftrightarrow> rstart r \<le> rend r"

named_theorems range_order \<open>the operations on ranges in terms of the order of positions\<close>

lemma rstart_sel [simp]: "lineNumber (rstart r) = startLineNumber r" "column (rstart r) = startColumn r"
  by (simp_all add: getStartPosition_def)

lemma rend_sel [simp]: "lineNumber (rend r) = endLineNumber r" "column (rend r) = endColumn r"
  by (simp_all add: getEndPosition_def)

lemma new_Range_start: "rstart (new_Range sl sc el ec) = min (new_Position sl sc) (new_Position el ec)"
  by (auto simp: new_Range_def min_def position_order)

lemma new_Range_end: "rend (new_Range sl sc el ec) = max (new_Position sl sc) (new_Position el ec)"
  by (auto simp: new_Range_def max_def position_order)

lemma new_Range_ok: "range_ok (new_Range sl sc el ec)"
  by (simp add: range_ok_def new_Range_start new_Range_end min_le_iff_disj le_max_iff_disj)

lemma range_eqI: "rstart r = rstart s \<Longrightarrow> rend r = rend s \<Longrightarrow> r = s" for r s :: editor_range
  by (cases r; cases s) (simp add: position_eq getStartPosition_def getEndPosition_def)

lemma containsPosition_order [range_order]: "containsPosition r p \<longleftrightarrow> rstart r \<le> p \<and> p \<le> rend r"
  by (auto simp: containsPosition_def position_order)

lemma strictContainsPosition_order [range_order]: "strictContainsPosition r p \<longleftrightarrow> rstart r < p \<and> p < rend r"
  by (auto simp: strictContainsPosition_def position_order)

lemma containsRange_order [range_order]:
  "range_ok s \<Longrightarrow> containsRange r s \<longleftrightarrow> rstart r \<le> rstart s \<and> rend s \<le> rend r"
  by (auto simp: containsRange_def range_ok_def position_order)

lemma strictContainsRange_order [range_order]:
  "range_ok s \<Longrightarrow> strictContainsRange r s \<longleftrightarrow> rstart r < rstart s \<and> rend s < rend r"
  by (auto simp: strictContainsRange_def range_ok_def position_order)

lemma areIntersectingOrTouching_order [range_order]:
  "areIntersectingOrTouching a b \<longleftrightarrow> rstart a \<le> rend b \<and> rstart b \<le> rend a"
  by (auto simp: areIntersectingOrTouching_def position_order)

lemma areIntersecting_order [range_order]: "areIntersecting a b \<longleftrightarrow> rstart a < rend b \<and> rstart b < rend a"
  by (auto simp: areIntersecting_def position_order)

lemma range_isEmpty_order [range_order]: "range_isEmpty r \<longleftrightarrow> rstart r = rend r"
  by (auto simp: range_isEmpty_def position_order)

text \<open>The choice of the start and the end that \<open>plusRange\<close> and \<open>intersectRanges\<close> make.\<close>

lemma pick_min: "(if l' < l then (l', c') else if l' = l then (l', min c' c) else (l, c)) =
    (lineNumber (min (new_Position l c) (new_Position l' c')), column (min (new_Position l c) (new_Position l' c')))"
  for l c :: int
  by (auto simp: min_def position_order)

lemma pick_max: "(if l' > l then (l', c') else if l' = l then (l', max c' c) else (l, c)) =
    (lineNumber (max (new_Position l c) (new_Position l' c')), column (max (new_Position l c) (new_Position l' c')))"
  for l c :: int
  by (auto simp: max_def position_order)

lemma new_Position_parts: "new_Position (lineNumber p) (column p) = p" for p :: position
  by (simp add: position_eq)

lemma plusRange_ends:
  assumes "range_ok a" and "range_ok b"
  shows "rstart (plusRange a b) = min (rstart a) (rstart b)" and "rend (plusRange a b) = max (rend a) (rend b)"
proof -
  have "plusRange a b = (let s = min (rstart a) (rstart b); e = max (rend a) (rend b)
      in new_Range (lineNumber s) (column s) (lineNumber e) (column e))"
    unfolding plusRange_def pick_min pick_max by (simp add: getStartPosition_def getEndPosition_def Let_def)
  moreover have "min (rstart a) (rstart b) \<le> max (rend a) (rend b)"
    using assms by (auto simp: range_ok_def min_def max_def)
  ultimately show "rstart (plusRange a b) = min (rstart a) (rstart b)" "rend (plusRange a b) = max (rend a) (rend b)"
    by (simp_all add: new_Range_start new_Range_end new_Position_parts Let_def)
qed

lemma intersectRanges_order:
  "intersectRanges a b =
     (let s = max (rstart a) (rstart b); e = min (rend a) (rend b)
      in if s \<le> e then Some (new_Range (lineNumber s) (column s) (lineNumber e) (column e)) else None)"
proof -
  have "(if l < l' then (l', c') else if l = l' then (l, max c c') else (l, c)) =
      (if l' > l then (l', c') else if l' = l then (l', max c' c) else (l, c))"
    "(if l > l' then (l', c') else if l = l' then (l, min c c') else (l, c)) =
      (if l' < l then (l', c') else if l' = l then (l', min c' c) else (l, c))" for l l' c c' :: int
    by auto
  then have "intersectRanges a b =
    (let s = max (rstart a) (rstart b); e = min (rend a) (rend b)
     in if lineNumber s > lineNumber e then None
        else if lineNumber s = lineNumber e \<and> column s > column e then None
        else Some (new_Range (lineNumber s) (column s) (lineNumber e) (column e)))"
    unfolding intersectRanges_def pick_min pick_max by (simp add: getStartPosition_def getEndPosition_def Let_def)
  then show ?thesis
    by (auto simp: Let_def position_le)
qed

lemma intersectRanges_Some:
  assumes "intersectRanges a b = Some r"
  shows "rstart r = max (rstart a) (rstart b)" "rend r = min (rend a) (rend b)" "range_ok r"
proof -
  let ?s = "max (rstart a) (rstart b)" and ?e = "min (rend a) (rend b)"
  have "?s \<le> ?e" and r: "r = new_Range (lineNumber ?s) (column ?s) (lineNumber ?e) (column ?e)"
    using assms by (simp_all add: intersectRanges_order Let_def split: if_splits)
  then show "rstart r = ?s" "rend r = ?e"
    by (simp_all only: r new_Range_start new_Range_end new_Position_parts min_absorb1 max_absorb2)
  show "range_ok r"
    unfolding r by (rule new_Range_ok)
qed

text \<open>The sort keys of ranges.\<close>

definition range_int32 :: "editor_range \<Rightarrow> bool" where
  "range_int32 r \<longleftrightarrow> pos_int32 (rstart r) \<and> pos_int32 (rend r)"

definition starts_key :: "editor_range option \<Rightarrow> int \<times> position \<times> position" where
  "starts_key r = (case r of None \<Rightarrow> (0, new_Position 0 0, new_Position 0 0) | Some x \<Rightarrow> (1, rstart x, rend x))"

definition ends_key :: "editor_range \<Rightarrow> position \<times> position" where
  "ends_key r = (rend r, rstart r)"

interpretation starts: comparator "pred_option range_int32" compareRangesUsingStarts starts_key
  by unfold_locales
    (auto simp: range_int32_def pos_int32_def compareRangesUsingStarts_def starts_key_def Let_def position_order
      less_prod_def less_eq_prod_def split: option.splits)

interpretation ends: comparator "\<lambda>r. True" compareRangesUsingEnds ends_key
  by unfold_locales (auto simp: compareRangesUsingEnds_def ends_key_def position_order)

section \<open>Selections\<close>

definition range_of :: "editor_selection \<Rightarrow> editor_range" where
  "range_of s = editor_range.truncate s"

lemma truncate_ends:
  "rstart (editor_range.truncate r) = rstart r" "rend (editor_range.truncate r) = rend r"
  by (simp_all add: editor_range.truncate_def getStartPosition_def getEndPosition_def)

lemma range_of_sel [simp]: "rstart (range_of s) = rstart s" "rend (range_of s) = rend s"
  by (simp_all add: range_of_def truncate_ends)

lemma new_Selection_sel [simp]:
  "selectionStartLineNumber (new_Selection sl sc pl pc) = sl" "selectionStartColumn (new_Selection sl sc pl pc) = sc"
  "positionLineNumber (new_Selection sl sc pl pc) = pl" "positionColumn (new_Selection sl sc pl pc) = pc"
  by (simp_all add: new_Selection_def editor_range.defs)

lemma new_Selection_range [simp]:
  "startLineNumber (new_Selection sl sc pl pc) = startLineNumber (new_Range sl sc pl pc)"
  "startColumn (new_Selection sl sc pl pc) = startColumn (new_Range sl sc pl pc)"
  "endLineNumber (new_Selection sl sc pl pc) = endLineNumber (new_Range sl sc pl pc)"
  "endColumn (new_Selection sl sc pl pc) = endColumn (new_Range sl sc pl pc)"
  by (simp_all add: new_Selection_def editor_range.defs)

lemma new_Selection_start: "rstart (new_Selection sl sc pl pc) = min (new_Position sl sc) (new_Position pl pc)"
  using new_Range_start [of sl sc pl pc] by (simp add: getStartPosition_def)

lemma new_Selection_end: "rend (new_Selection sl sc pl pc) = max (new_Position sl sc) (new_Position pl pc)"
  using new_Range_end [of sl sc pl pc] by (simp add: getEndPosition_def)

lemma direction_order: "getDirection s = (if getSelectionStart s = rstart s then LTR else RTL)"
  by (auto simp: getDirection_def getSelectionStart_def position_eq)

text \<open>A selection whose range is the one between its two ends.\<close>

definition sel_ok :: "editor_selection \<Rightarrow> bool" where
  "sel_ok s \<longleftrightarrow> rstart s = min (getSelectionStart s) (getPosition s) \<and> rend s = max (getSelectionStart s) (getPosition s)"

lemma new_Selection_ok: "sel_ok (new_Selection sl sc pl pc)"
  by (simp add: sel_ok_def new_Selection_start new_Selection_end getSelectionStart_def getPosition_def)

section \<open>Properties\<close>

text \<open>
  Sorting positions with \<open>Position.compare\<close> sorts them: for coordinates of 32 bits the result is the
  stable sort by the order that \<open>isBeforeOrEqual\<close> decides, and each element is before or equal to the
  later ones.
\<close>

theorem positions_sorted:
  assumes "list_all pos_int32 ps"
  shows "js_sort pos_compare ps = sort ps \<and>
    (\<forall>i j. i \<le> j \<longrightarrow> j < length ps \<longrightarrow> isBeforeOrEqual (js_sort pos_compare ps ! i) (js_sort pos_compare ps ! j))"
proof -
  have "js_sort pos_compare ps = sort ps"
    by (rule positions.sort_is_sort_key [OF assms])
  then show ?thesis
    by (simp add: isBeforeOrEqual_le sorted_nth_mono)
qed

theorem positions_sorted_witness:
  "js_sort pos_compare [new_Position 2 1, new_Position 1 7, new_Position 1 3] =
     sort [new_Position 2 1, new_Position 1 7, new_Position 1 3]"
  using positions_sorted [of "[new_Position 2 1, new_Position 1 7, new_Position 1 3]"]
  by (simp add: pos_int32_def int32_def)

text \<open>
  Beyond 32 bits \<open>Position.compare\<close> contradicts \<open>Position.isBefore\<close>: the conversion wraps around.
\<close>

theorem compare_wraps_around:
  "isBefore (new_Position 1 1) (new_Position (2 ^ 31) 1) \<and>
   pos_compare (new_Position 1 1) (new_Position (2 ^ 31) 1) > 0"
  by code_simp

text \<open>
  The constructor orders its two ends, and a range then contains exactly the positions from the
  smaller to the larger of them.
\<close>

theorem new_range_contains_between:
  "range_ok (new_Range sl sc el ec) \<and>
   (containsPosition (new_Range sl sc el ec) p \<longleftrightarrow>
      (isBeforeOrEqual (new_Position sl sc) p \<and> isBeforeOrEqual p (new_Position el ec)) \<or>
      (isBeforeOrEqual (new_Position el ec) p \<and> isBeforeOrEqual p (new_Position sl sc)))"
  by (auto simp: new_Range_ok range_order new_Range_start new_Range_end isBeforeOrEqual_le min_def max_def)

text \<open>
  \<open>containsRange\<close> decides inclusion: a range contains another exactly when it contains all the
  positions of the other.
\<close>

theorem contains_range_is_inclusion:
  assumes "range_ok s"
  shows "containsRange r s \<longleftrightarrow> (\<forall>p. containsPosition s p \<longrightarrow> containsPosition r p)"
proof
  assume all: "\<forall>p. containsPosition s p \<longrightarrow> containsPosition r p"
  have "containsPosition s (rstart s)" "containsPosition s (rend s)"
    using assms by (simp_all add: range_order range_ok_def)
  with all show "containsRange r s"
    using assms by (simp add: range_order)
qed (use assms in \<open>auto simp: range_order\<close>)

theorem contains_range_is_inclusion_witness:
  "containsRange (new_Range 1 1 2 9) (new_Range 1 5 2 1) \<and> containsPosition (new_Range 1 5 2 1) (new_Position 1 6) \<and>
   containsPosition (new_Range 1 1 2 9) (new_Position 1 6)"
proof -
  have "containsRange (new_Range 1 1 2 9) (new_Range 1 5 2 1) \<and> containsPosition (new_Range 1 5 2 1) (new_Position 1 6)"
    by code_simp
  with contains_range_is_inclusion [OF new_Range_ok [of 1 5 2 1], of "new_Range 1 1 2 9"] show ?thesis
    by blast
qed

text \<open>
  \<open>plusRange\<close> is the least range that contains two ranges: it contains both, and a range contains it
  exactly when it contains both.
\<close>

theorem plus_range_least:
  assumes "range_ok a" and "range_ok b"
  shows "range_ok (plusRange a b) \<and> containsRange (plusRange a b) a \<and> containsRange (plusRange a b) b \<and>
    (containsRange r (plusRange a b) \<longleftrightarrow> containsRange r a \<and> containsRange r b)"
proof -
  have ok: "range_ok (plusRange a b)"
    using assms plusRange_ends [OF assms] by (auto simp: range_ok_def min_le_iff_disj le_max_iff_disj)
  with assms plusRange_ends [OF assms] show ?thesis
    by (auto simp: range_order)
qed

theorem plus_range_least_witness:
  "containsRange (plusRange (new_Range 1 1 1 4) (new_Range 3 2 3 9)) (new_Range 3 2 3 9)"
  using plus_range_least [OF new_Range_ok [of 1 1 1 4] new_Range_ok [of 3 2 3 9]] by blast

text \<open>
  C5: \<open>intersectRanges\<close> is the intersection: a position is in the result exactly when it is in both ranges,
  and there is no result exactly when the ranges do not touch, that is, share no position.
\<close>

theorem intersect_ranges_is_intersection:
  assumes "range_ok a" and "range_ok b"
  shows "(case intersectRanges a b of
      Some r \<Rightarrow> range_ok r \<and> areIntersectingOrTouching a b \<and>
        (\<forall>p. containsPosition r p \<longleftrightarrow> containsPosition a p \<and> containsPosition b p)
    | None \<Rightarrow> \<not> areIntersectingOrTouching a b \<and> (\<forall>p. \<not> (containsPosition a p \<and> containsPosition b p)))"
proof (cases "intersectRanges a b")
  case None
  then have "\<not> max (rstart a) (rstart b) \<le> min (rend a) (rend b)"
    by (auto simp: intersectRanges_order Let_def split: if_splits)
  with None assms show ?thesis
    by (auto simp: range_order range_ok_def)
next
  case (Some r)
  then have "max (rstart a) (rstart b) \<le> min (rend a) (rend b)"
    by (auto simp: intersectRanges_order Let_def split: if_splits)
  with Some intersectRanges_Some [OF Some] show ?thesis
    by (auto simp: range_order)
qed

theorem intersect_ranges_is_intersection_witness:
  "intersectRanges (new_Range 1 1 2 4) (new_Range 2 2 3 9) \<noteq> None \<and>
   areIntersectingOrTouching (new_Range 1 1 2 4) (new_Range 2 2 3 9)"
proof -
  have "intersectRanges (new_Range 1 1 2 4) (new_Range 2 2 3 9) = Some (new_Range 2 2 2 4)"
    by code_simp
  with intersect_ranges_is_intersection [OF new_Range_ok [of 1 1 2 4] new_Range_ok [of 2 2 3 9]] show ?thesis
    by simp
qed

text \<open>
  Ranges that only touch do not intersect for \<open>areIntersecting\<close>, although its comment says it returns
  true for them; for ranges that are not empty it holds exactly when the intersection is not empty.
\<close>

theorem touching_ranges_not_intersecting:
  assumes "range_ok a" and "range_ok b" and "\<not> range_isEmpty a" and "\<not> range_isEmpty b"
  shows "areIntersecting a b \<longleftrightarrow> (\<exists>r. intersectRanges a b = Some r \<and> \<not> range_isEmpty r)"
proof (cases "intersectRanges a b")
  case None
  then have "\<not> max (rstart a) (rstart b) \<le> min (rend a) (rend b)"
    by (auto simp: intersectRanges_order Let_def split: if_splits)
  with None assms show ?thesis
    by (auto simp: range_order range_ok_def)
next
  case (Some r)
  then show ?thesis
    using intersectRanges_Some [OF Some] assms
    by (auto simp: range_order range_ok_def max_def min_def split: if_splits)
qed

theorem touching_ranges_not_intersecting_witness:
  "\<not> areIntersecting (new_Range 1 1 1 4) (new_Range 1 4 1 9)"
proof -
  have "\<not> range_isEmpty (new_Range 1 1 1 4) \<and> \<not> range_isEmpty (new_Range 1 4 1 9) \<and>
      intersectRanges (new_Range 1 1 1 4) (new_Range 1 4 1 9) = Some (new_Range 1 4 1 4) \<and> range_isEmpty (new_Range 1 4 1 4)"
    by code_simp
  with touching_ranges_not_intersecting [OF new_Range_ok [of 1 1 1 4] new_Range_ok [of 1 4 1 9]] show ?thesis
    by simp
qed

text \<open>
  Sorting ranges by their starts or by their ends sorts them by the start and then the end, or by the
  end and then the start; missing ranges come first in the sort by starts.
\<close>

theorem ranges_sorted:
  assumes "list_all (pred_option range_int32) rs"
  shows "js_sort compareRangesUsingStarts rs = sort_key starts_key rs \<and>
    js_sort compareRangesUsingEnds qs = sort_key ends_key qs"
  using starts.sort_is_sort_key [OF assms] ends.sort_is_sort_key [of qs] by (simp add: list_all_iff)

theorem ranges_sorted_witness:
  "js_sort compareRangesUsingStarts [Some (new_Range 1 1 1 1), None] =
     sort_key starts_key [Some (new_Range 1 1 1 1), None]"
  using ranges_sorted [of "[Some (new_Range 1 1 1 1), None]" "[]"]
  by (simp add: range_int32_def pos_int32_def int32_def new_Range_def getStartPosition_def getEndPosition_def)

text \<open>
  A selection made of a range and a direction has that range, and that direction unless the range is
  empty, when it runs from left to right; lifting a selection changes nothing.
\<close>

theorem selection_from_range:
  assumes "range_ok r"
  shows "range_of (fromRange r d) = editor_range.truncate r \<and>
    getDirection (fromRange r d) = (if range_isEmpty r then LTR else d) \<and>
    liftSelection (fromRange r d) = fromRange r d"
proof -
  let ?s = "fromRange r d"
  have ends: "rstart ?s = rstart r" "rend ?s = rend r"
    using assms
    by (auto simp: fromRange_def new_Selection_start new_Selection_end range_ok_def position_parts min_def max_def)
  then have "range_of ?s = editor_range.truncate r"
    by (intro range_eqI) (simp_all add: truncate_ends)
  moreover have "getSelectionStart ?s = (if d = LTR then rstart r else rend r)"
    by (simp add: fromRange_def getSelectionStart_def getStartPosition_def getEndPosition_def)
  then have "getDirection ?s = (if range_isEmpty r then LTR else d)"
    using ends by (cases d) (auto simp: direction_order range_order)
  moreover have "liftSelection ?s = ?s"
    by (simp add: fromRange_def liftSelection_def)
  ultimately show ?thesis
    by blast
qed

theorem selection_from_range_witness:
  "getDirection (fromRange (new_Range 1 1 2 1) RTL) = RTL"
  using selection_from_range [OF new_Range_ok [of 1 1 2 1], of RTL] by (simp add: range_isEmpty_def new_Range_def)

text \<open>
  \<open>setEndPosition\<close> of a selection keeps the start of its range as one end and makes the given position the
  other. From left to right the given position is the active end; from right to left it becomes the
  anchor, against the comment, which says the active position is replaced.
\<close>

theorem set_end_position_of_selection:
  "rstart (sel_setEndPosition el ec s) = min (rstart s) (new_Position el ec) \<and>
   rend (sel_setEndPosition el ec s) = max (rstart s) (new_Position el ec) \<and>
   (if getDirection s = LTR then getPosition (sel_setEndPosition el ec s) = new_Position el ec
    else getSelectionStart (sel_setEndPosition el ec s) = new_Position el ec \<and>
         getPosition (sel_setEndPosition el ec s) = rstart s)"
  by (auto simp: sel_setEndPosition_def new_Selection_start new_Selection_end getPosition_def getSelectionStart_def
      position_parts min.commute max.commute)

end
