(* ===== verification/Line_Range.thy ===== *)
theory Line_Range
  imports Offset_Range Editor_Range
begin

text \<open>
  Ranges of 1-based line numbers and sets of them: the classes \<open>LineRange\<close> and \<open>LineRangeSet\<close> of
  \<open>src/vs/editor/common/core/lineRange.ts\<close>. A set is its array of normalised ranges; it is searched with the
  binary searches of \<open>Arrays_Find\<close>. \<open>ln\<close> interprets \<open>range_type\<close> on line ranges.
\<close>

section \<open>Line ranges\<close>

record line_range =
  startLine :: int
  endLineExclusive :: int

definition new_LineRange :: "int \<Rightarrow> int \<Rightarrow> line_range result" where
  "new_LineRange start stop =
     (if start > stop then Inl BugIndicatingError
      else Inr \<lparr>startLine = start, endLineExclusive = stop\<rparr>)"

definition lr_fromRange :: "editor_range \<Rightarrow> line_range result" where
  "lr_fromRange rng = new_LineRange (startLineNumber rng) (endLineNumber rng)"

definition lr_fromRangeInclusive :: "editor_range \<Rightarrow> line_range result" where
  "lr_fromRangeInclusive rng = new_LineRange (startLineNumber rng) (endLineNumber rng + 1)"

definition lr_subtract :: "line_range \<Rightarrow> line_range option \<Rightarrow> line_range list result" where
  "lr_subtract a b' =
     (case b' of None \<Rightarrow> Inr [a]
      | Some b \<Rightarrow>
          if startLine a < startLine b \<and> endLineExclusive b < endLineExclusive a
          then bind_result (new_LineRange (startLine a) (startLine b)) (\<lambda>before.
               bind_result (new_LineRange (endLineExclusive b) (endLineExclusive a)) (\<lambda>after. Inr [before, after]))
          else if startLine b \<le> startLine a \<and> endLineExclusive a \<le> endLineExclusive b then Inr []
          else if endLineExclusive b < endLineExclusive a
          then bind_result (new_LineRange (max (endLineExclusive b) (startLine a)) (endLineExclusive a)) (\<lambda>rest. Inr [rest])
          else bind_result (new_LineRange (startLine a) (min (startLine b) (endLineExclusive a))) (\<lambda>rest. Inr [rest]))"

text \<open>The loop of the static \<open>join\<close> keeps the two bounds.\<close>

definition lr_join_all :: "line_range list \<Rightarrow> line_range result" where
  "lr_join_all lineRanges =
     (case lineRanges of [] \<Rightarrow> Inl BugIndicatingError
      | r # rs \<Rightarrow>
          (case fold (\<lambda>s (start, stop). (min start (startLine s), max stop (endLineExclusive s))) rs
                  (startLine r, endLineExclusive r) of
             (start, stop) \<Rightarrow> new_LineRange start stop))"

definition lr_ofLength :: "int \<Rightarrow> int \<Rightarrow> line_range result" where
  "lr_ofLength start len = new_LineRange start (start + len)"

definition lr_deserialize :: "int \<times> int \<Rightarrow> line_range result" where
  "lr_deserialize lineRange = new_LineRange (fst lineRange) (snd lineRange)"

definition lr_contains :: "line_range \<Rightarrow> int \<Rightarrow> bool" where
  "lr_contains r line \<longleftrightarrow> startLine r \<le> line \<and> line < endLineExclusive r"

definition lr_isEmpty :: "line_range \<Rightarrow> bool" where
  "lr_isEmpty r \<longleftrightarrow> startLine r = endLineExclusive r"

definition lr_delta :: "int \<Rightarrow> line_range \<Rightarrow> line_range result" where
  "lr_delta offset r = new_LineRange (startLine r + offset) (endLineExclusive r + offset)"

definition lr_deltaLength :: "int \<Rightarrow> line_range \<Rightarrow> line_range result" where
  "lr_deltaLength offset r = new_LineRange (startLine r) (endLineExclusive r + offset)"

definition lr_length :: "line_range \<Rightarrow> int" where
  "lr_length r = endLineExclusive r - startLine r"

definition lr_join :: "line_range \<Rightarrow> line_range \<Rightarrow> line_range result" where
  "lr_join r other =
     new_LineRange (min (startLine r) (startLine other)) (max (endLineExclusive r) (endLineExclusive other))"

definition lr_toString :: "line_range \<Rightarrow> jsstring" where
  "lr_toString r = js ''['' @ int_string (startLine r) @ js '','' @ int_string (endLineExclusive r) @ js '')''"

text \<open>The constructor is called only when the bounds are ordered.\<close>

definition lr_intersect :: "line_range \<Rightarrow> line_range \<Rightarrow> line_range option" where
  "lr_intersect r other =
     (let start = max (startLine r) (startLine other); stop = min (endLineExclusive r) (endLineExclusive other)
      in if start \<le> stop then Some \<lparr>startLine = start, endLineExclusive = stop\<rparr> else None)"

definition lr_intersectsStrict :: "line_range \<Rightarrow> line_range \<Rightarrow> bool" where
  "lr_intersectsStrict r other \<longleftrightarrow> startLine r < endLineExclusive other \<and> startLine other < endLineExclusive r"

definition lr_overlapOrTouch :: "line_range \<Rightarrow> line_range \<Rightarrow> bool" where
  "lr_overlapOrTouch r other \<longleftrightarrow> startLine r \<le> endLineExclusive other \<and> startLine other \<le> endLineExclusive r"

definition lr_equals :: "line_range \<Rightarrow> line_range \<Rightarrow> bool" where
  "lr_equals r b \<longleftrightarrow> startLine r = startLine b \<and> endLineExclusive r = endLineExclusive b"

definition lr_toInclusiveRange :: "line_range \<Rightarrow> editor_range option" where
  "lr_toInclusiveRange r =
     (if lr_isEmpty r then None else Some (new_Range (startLine r) 1 (endLineExclusive r - 1) (2 ^ 53 - 1)))"

definition lr_toExclusiveRange :: "line_range \<Rightarrow> editor_range" where
  "lr_toExclusiveRange r = new_Range (startLine r) 1 (endLineExclusive r) 1"

definition lr_mapToLineArray :: "(int \<Rightarrow> 'a) \<Rightarrow> line_range \<Rightarrow> 'a list" where
  "lr_mapToLineArray f r = map f [startLine r..endLineExclusive r - 1]"

definition lr_forEach :: "(int \<Rightarrow> 's \<Rightarrow> 's) \<Rightarrow> line_range \<Rightarrow> 's \<Rightarrow> 's" where
  "lr_forEach f r = fold f [startLine r..endLineExclusive r - 1]"

definition lr_serialize :: "line_range \<Rightarrow> int \<times> int" where
  "lr_serialize r = (startLine r, endLineExclusive r)"

definition lr_includes :: "line_range \<Rightarrow> int \<Rightarrow> bool" where
  "lr_includes r line \<longleftrightarrow> startLine r \<le> line \<and> line < endLineExclusive r"

definition lr_toOffsetRange :: "line_range \<Rightarrow> offset_range result" where
  "lr_toOffsetRange r = new_OffsetRange (startLine r - 1) (endLineExclusive r - 1)"

definition lr_distanceToRange :: "line_range \<Rightarrow> line_range \<Rightarrow> int" where
  "lr_distanceToRange r other =
     (if endLineExclusive r \<le> startLine other then startLine other - endLineExclusive r
      else if endLineExclusive other \<le> startLine r then startLine r - endLineExclusive other
      else 0)"

definition lr_distanceToLine :: "line_range \<Rightarrow> int \<Rightarrow> int" where
  "lr_distanceToLine r line =
     (if lr_contains r line then 0
      else if line < startLine r then startLine r - line
      else line - endLineExclusive r)"

definition lr_addMargin :: "int \<Rightarrow> int \<Rightarrow> line_range \<Rightarrow> line_range result" where
  "lr_addMargin marginTop marginBottom r = new_LineRange (startLine r - marginTop) (endLineExclusive r + marginBottom)"

section \<open>Sets of line ranges\<close>

type_synonym line_range_set = "line_range list"

definition lrs_addRange :: "line_range \<Rightarrow> line_range_set \<Rightarrow> line_range_set result" where
  "lrs_addRange rng s =
     (if lr_length rng = 0 then Inr s
      else let joinStart = findFirstIdxMonotonousOrArrLen s (\<lambda>r. endLineExclusive r \<ge> startLine rng) 0 (length s);
               joinEnd = nat (findLastIdxMonotonous s (\<lambda>r. startLine r \<le> endLineExclusive rng) 0 (length s) + 1)
           in if joinStart = joinEnd then Inr (js_splice s (int joinStart) 0 [rng])
              else if int joinStart = int joinEnd - 1
              then bind_result (lr_join (s ! joinStart) rng) (\<lambda>joined. Inr (s[joinStart := joined]))
              else bind_result (lr_join (s ! joinStart) (s ! (joinEnd - 1))) (\<lambda>both.
                   bind_result (lr_join both rng) (\<lambda>joined.
                     Inr (js_splice s (int joinStart) (int joinEnd - int joinStart) [joined]))))"

definition lrs_contains :: "line_range_set \<Rightarrow> int \<Rightarrow> bool" where
  "lrs_contains s line \<longleftrightarrow>
     (case findLastMonotonous s (\<lambda>r. startLine r \<le> line) of
        None \<Rightarrow> False | Some r \<Rightarrow> endLineExclusive r > line)"

definition lrs_intersects :: "line_range_set \<Rightarrow> line_range \<Rightarrow> bool" where
  "lrs_intersects s rng \<longleftrightarrow>
     (case findLastMonotonous s (\<lambda>r. startLine r < endLineExclusive rng) of
        None \<Rightarrow> False | Some r \<Rightarrow> endLineExclusive r > startLine rng)"

text \<open>The body of the loop of \<open>getUnion\<close>, once \<open>next\<close> is chosen, on the pending range and the ranges pushed.\<close>

definition union_push ::
  "line_range \<Rightarrow> line_range option \<Rightarrow> line_range list \<Rightarrow> (line_range option \<times> line_range list) result" where
  "union_push nxt current res =
     (case current of None \<Rightarrow> Inr (Some nxt, res)
      | Some c \<Rightarrow>
          if endLineExclusive c \<ge> startLine nxt
          then bind_result (new_LineRange (startLine c) (max (endLineExclusive c) (endLineExclusive nxt)))
                 (\<lambda>joined. Inr (Some joined, res))
          else Inr (Some nxt, res @ [c]))"

function union_loop ::
  "line_range list \<Rightarrow> line_range list \<Rightarrow> line_range option \<Rightarrow> line_range list \<Rightarrow> line_range list result" where
  "union_loop [] [] current res = Inr (case current of None \<Rightarrow> res | Some c \<Rightarrow> res @ [c])"
| "union_loop (r1 # s1) [] current res =
     bind_result (union_push r1 current res) (\<lambda>(current, res). union_loop s1 [] current res)"
| "union_loop [] (r2 # s2) current res =
     bind_result (union_push r2 current res) (\<lambda>(current, res). union_loop [] s2 current res)"
| "union_loop (r1 # s1) (r2 # s2) current res =
     (if startLine r1 < startLine r2
      then bind_result (union_push r1 current res) (\<lambda>(current, res). union_loop s1 (r2 # s2) current res)
      else bind_result (union_push r2 current res) (\<lambda>(current, res). union_loop (r1 # s1) s2 current res))"
  by pat_completeness auto
termination
  by (relation "measure (\<lambda>(s1, s2, current, res). length s1 + length s2)") auto

definition getUnion :: "line_range_set \<Rightarrow> line_range_set \<Rightarrow> line_range_set result" where
  "getUnion s other = (if s = [] then Inr other else if other = [] then Inr s else union_loop s other None [])"

fun subtract_loop :: "line_range \<Rightarrow> int \<Rightarrow> line_range list \<Rightarrow> line_range list result" where
  "subtract_loop rng start [] =
     (if start < endLineExclusive rng
      then bind_result (new_LineRange start (endLineExclusive rng)) (\<lambda>rest. Inr [rest]) else Inr [])"
| "subtract_loop rng start (r # rs) =
     (if startLine r > start
      then bind_result (new_LineRange start (startLine r)) (\<lambda>before.
           bind_result (subtract_loop rng (endLineExclusive r) rs) (\<lambda>rest. Inr (before # rest)))
      else subtract_loop rng (endLineExclusive r) rs)"

definition subtractFrom :: "line_range_set \<Rightarrow> line_range \<Rightarrow> line_range_set result" where
  "subtractFrom s rng =
     (let joinStart = findFirstIdxMonotonousOrArrLen s (\<lambda>r. endLineExclusive r \<ge> startLine rng) 0 (length s);
          joinEnd = nat (findLastIdxMonotonous s (\<lambda>r. startLine r \<le> endLineExclusive rng) 0 (length s) + 1)
      in if joinStart = joinEnd then Inr [rng]
         else subtract_loop rng (startLine rng) (take (joinEnd - joinStart) (drop joinStart s)))"

definition lrs_toString :: "line_range_set \<Rightarrow> jsstring" where
  "lrs_toString s = js_join (js '', '') (map lr_toString s)"

function getIntersection :: "line_range_set \<Rightarrow> line_range_set \<Rightarrow> line_range_set" where
  "getIntersection [] other = []"
| "getIntersection (r1 # s1) [] = []"
| "getIntersection (r1 # s1) (r2 # s2) =
     (case lr_intersect r1 r2 of Some i \<Rightarrow> if \<not> lr_isEmpty i then [i] else [] | None \<Rightarrow> []) @
     (if endLineExclusive r1 < endLineExclusive r2 then getIntersection s1 (r2 # s2) else getIntersection (r1 # s1) s2)"
  by pat_completeness auto
termination
  by (relation "measure (\<lambda>(s1, s2). length s1 + length s2)") auto

fun getWithDelta :: "int \<Rightarrow> line_range_set \<Rightarrow> line_range_set result" where
  "getWithDelta v [] = Inr []"
| "getWithDelta v (r # rs) = bind_result (lr_delta v r) (\<lambda>r'. bind_result (getWithDelta v rs) (\<lambda>rs'. Inr (r' # rs')))"

definition lr_joinMany :: "line_range list list \<Rightarrow> line_range list result" where
  "lr_joinMany lineRanges =
     (case lineRanges of [] \<Rightarrow> Inr []
      | s # ss \<Rightarrow> foldl (\<lambda>res other. bind_result res (\<lambda>res. getUnion res other)) (Inr s) ss)"

section \<open>A set stands for its lines\<close>

abbreviation mk_line_range :: "int \<Rightarrow> int \<Rightarrow> line_range" where
  "mk_line_range a b \<equiv> \<lparr>startLine = a, endLineExclusive = b\<rparr>"

interpretation ln: range_type startLine endLineExclusive mk_line_range
  by unfold_locales simp_all

abbreviation lines_of :: "line_range list \<Rightarrow> int set" where
  "lines_of s \<equiv> covered startLine endLineExclusive s"

abbreviation normalized :: "line_range list \<Rightarrow> bool" where
  "normalized s \<equiv> solid startLine endLineExclusive s"

abbreviation lines_in :: "line_range \<Rightarrow> int set" where
  "lines_in r \<equiv> {startLine r..<endLineExclusive r}"

definition valid_line_range :: "line_range \<Rightarrow> bool" where
  "valid_line_range r \<longleftrightarrow> startLine r \<le> endLineExclusive r"

lemma new_LineRange_ok [simp]: "a \<le> b \<Longrightarrow> new_LineRange a b = Inr (mk_line_range a b)"
  by (simp add: new_LineRange_def)

lemma normalized_separated: "normalized s \<Longrightarrow> separated startLine endLineExclusive s"
  by (simp add: solid_def)

text \<open>The two binary searches find the part of the array that touches a range.\<close>

lemma touching_indices:
  assumes "normalized s" and "valid_line_range r"
  obtains before touching after
  where "s = before @ touching @ after"
    and "before = takeWhile (\<lambda>q. endLineExclusive q < startLine r) s"
    and "touching = takeWhile (\<lambda>q. startLine q \<le> endLineExclusive r) (dropWhile (\<lambda>q. endLineExclusive q < startLine r) s)"
    and "after = dropWhile (\<lambda>q. startLine q \<le> endLineExclusive r) (dropWhile (\<lambda>q. endLineExclusive q < startLine r) s)"
    and "findFirstIdxMonotonousOrArrLen s (\<lambda>q. endLineExclusive q \<ge> startLine r) 0 (length s) = length before"
    and "nat (findLastIdxMonotonous s (\<lambda>q. startLine q \<le> endLineExclusive r) 0 (length s) + 1) = length before + length touching"
    and "\<forall>q \<in> set before. endLineExclusive q < startLine r"
    and "\<forall>q \<in> set touching. startLine r \<le> endLineExclusive q \<and> startLine q \<le> endLineExclusive r"
    and "\<forall>q \<in> set after. startLine r \<le> endLineExclusive q \<and> endLineExclusive r < startLine q"
proof -
  note sep = normalized_separated [OF assms(1)]
  obtain before touching after where parts: "s = before @ touching @ after"
    "before = takeWhile (\<lambda>q. endLineExclusive q < startLine r) s"
    "touching = takeWhile (\<lambda>q. startLine q \<le> endLineExclusive r) (dropWhile (\<lambda>q. endLineExclusive q < startLine r) s)"
    "after = dropWhile (\<lambda>q. startLine q \<le> endLineExclusive r) (dropWhile (\<lambda>q. endLineExclusive q < startLine r) s)"
    "\<forall>q \<in> set before. endLineExclusive q < startLine r"
    "\<forall>q \<in> set touching. startLine r \<le> endLineExclusive q \<and> startLine q \<le> endLineExclusive r"
    "\<forall>q \<in> set after. startLine r \<le> endLineExclusive q \<and> endLineExclusive r < startLine q"
    by (rule separated_parts [OF sep, of "startLine r" "endLineExclusive r"])
  have "monotonous (\<lambda>q. \<not> endLineExclusive q \<ge> startLine r) s"
    using monotonous_hi [OF sep, of "startLine r"] by (simp add: not_le)
  from findFirstIdxMonotonousOrArrLen_spec [OF this]
  have first: "findFirstIdxMonotonousOrArrLen s (\<lambda>q. endLineExclusive q \<ge> startLine r) 0 (length s) = length before"
    by (simp add: not_le parts(2))
  have "\<forall>q \<in> set (before @ touching). startLine q \<le> endLineExclusive r"
  proof -
    have "startLine q \<le> endLineExclusive r" if "q \<in> set before" for q
    proof -
      have "startLine q \<le> endLineExclusive q"
        using sep that unfolding parts(1) by (simp add: separated_def)
      with parts(5) that assms(2) show ?thesis
        by (fastforce simp: valid_line_range_def)
    qed
    with parts(6) show ?thesis
      by auto
  qed
  moreover have "\<forall>q \<in> set after. \<not> startLine q \<le> endLineExclusive r"
    using parts(7) by auto
  ultimately have "takeWhile (\<lambda>q. startLine q \<le> endLineExclusive r) s = before @ touching"
    unfolding parts(1) append_assoc [symmetric] by (subst takeWhile_append2) (auto simp: takeWhile_eq_Nil_iff hd_in_set)
  with findLastIdxMonotonous_spec [OF monotonous_lo [OF sep], of 0 "endLineExclusive r"]
  have "nat (findLastIdxMonotonous s (\<lambda>q. startLine q \<le> endLineExclusive r) 0 (length s) + 1) = length before + length touching"
    by simp
  with first parts show thesis
    by (intro that) assumption+
qed

lemma lrs_addRange_merged:
  assumes "normalized s" and "startLine r < endLineExclusive r"
  shows "lrs_addRange r s = Inr (merged startLine endLineExclusive mk_line_range r s)"
proof -
  have valid: "valid_line_range r"
    using assms(2) by (simp add: valid_line_range_def)
  obtain before touching after where parts: "s = before @ touching @ after"
    "before = takeWhile (\<lambda>q. endLineExclusive q < startLine r) s"
    "touching = takeWhile (\<lambda>q. startLine q \<le> endLineExclusive r) (dropWhile (\<lambda>q. endLineExclusive q < startLine r) s)"
    "after = dropWhile (\<lambda>q. startLine q \<le> endLineExclusive r) (dropWhile (\<lambda>q. endLineExclusive q < startLine r) s)"
    "findFirstIdxMonotonousOrArrLen s (\<lambda>q. endLineExclusive q \<ge> startLine r) 0 (length s) = length before"
    "nat (findLastIdxMonotonous s (\<lambda>q. startLine q \<le> endLineExclusive r) 0 (length s) + 1) = length before + length touching"
    by (rule touching_indices [OF assms(1) valid])
  have step: "lrs_addRange r s =
      (if touching = [] then Inr (js_splice s (int (length before)) 0 [r])
       else if length touching = 1
       then bind_result (lr_join (s ! length before) r) (\<lambda>joined. Inr (s[length before := joined]))
       else bind_result (lr_join (s ! length before) (s ! (length before + length touching - 1))) (\<lambda>both.
            bind_result (lr_join both r) (\<lambda>joined.
              Inr (js_splice s (int (length before)) (int (length touching)) [joined]))))"
    using assms(2) unfolding lrs_addRange_def Let_def parts(5,6) lr_length_def by (cases touching) auto
  have splice: "js_splice s (int (length before)) (int (length touching)) [x] = before @ x # after" for x
    by (subst parts(1)) (simp add: js_splice_def rel_index_def)
  have "valid_line_range q" if "q \<in> set s" for q
    using assms(1) that by (auto simp: solid_def separated_def valid_line_range_def)
  then have sound: "startLine q \<le> endLineExclusive q" if "q \<in> set touching" for q
    using that by (subst (asm) parts(1)) (auto simp: valid_line_range_def)
  note unfold_merged = merged_def Let_def parts(2-4) [symmetric]
  consider (none) "touching = []" | (one) t where "touching = [t]" | (many) t ts u where "touching = t # ts @ [u]"
    by (metis append_Cons append_Nil neq_Nil_conv rev_exhaust)
  then show ?thesis
  proof cases
    case none
    with splice [of r] show ?thesis
      unfolding step unfold_merged by simp
  next
    case one
    have "s ! length before = t" "s[length before := x] = before @ x # after" for x
      by (subst parts(1), simp add: one nth_append list_update_append)+
    moreover have "lr_join t r = Inr (mk_line_range (min (startLine r) (startLine t)) (max (endLineExclusive r) (endLineExclusive t)))"
      using assms(2) by (simp add: lr_join_def min.commute max.commute)
    ultimately show ?thesis
      using one unfolding step unfold_merged by simp
  next
    case many
    have nths: "s ! length before = t" "s ! (length before + length touching - 1) = u"
      by (subst parts(1), simp add: many nth_append)+
    have order: "startLine t \<le> startLine u" "endLineExclusive t \<le> endLineExclusive u" "startLine t \<le> endLineExclusive u"
    proof -
      have "endLineExclusive t < startLine u"
        using assms(1) by (subst (asm) parts(1)) (simp add: many)
      then show "startLine t \<le> startLine u" "endLineExclusive t \<le> endLineExclusive u" "startLine t \<le> endLineExclusive u"
        using sound [of t] sound [of u] many by simp_all
    qed
    have "lr_join t u = Inr (mk_line_range (startLine t) (endLineExclusive u))"
      using order by (simp add: lr_join_def)
    moreover have "lr_join (mk_line_range (startLine t) (endLineExclusive u)) r =
        Inr (mk_line_range (min (startLine r) (startLine t)) (max (endLineExclusive r) (endLineExclusive u)))"
      using assms(2) by (simp add: lr_join_def min.commute max.commute)
    ultimately show ?thesis
      using many splice unfolding step unfold_merged nths by simp
  qed
qed

lemma lrs_addRange_spec:
  assumes "normalized s" and "valid_line_range r"
  shows "\<exists>s'. lrs_addRange r s = Inr s' \<and> normalized s' \<and> lines_of s' = lines_of s \<union> lines_in r"
proof (cases "lr_length r = 0")
  case True
  then have "lines_in r = {}" "lrs_addRange r s = Inr s"
    by (simp_all add: lr_length_def lrs_addRange_def)
  with assms(1) show ?thesis
    by simp
next
  case False
  then have "startLine r < endLineExclusive r"
    using assms(2) by (simp add: valid_line_range_def lr_length_def)
  then show ?thesis
    using lrs_addRange_merged [OF assms(1)] ln.merged_solid [OF assms(1)]
      ln.merged_covered [OF normalized_separated [OF assms(1)], of r] by simp
qed

end
