(* ===== verification/Line_Sets.thy ===== *)
theory Line_Sets
  imports Line_Range
begin

text \<open>
  The operations of \<open>LineRangeSet\<close> are the operations on sets of line numbers: membership, union, intersection,
  difference and translation, each with a result in normal form. As the normal form of a set of lines is unique,
  a \<open>LineRangeSet\<close> does not depend on the order in which its ranges were added.
\<close>

section \<open>Membership\<close>

lemma last_start:
  assumes "normalized s" and "monotonous p s" and "findLastMonotonous s p = Some r"
  obtains before after where "s = before @ r # after" and "p r" and "\<forall>q \<in> set after. \<not> p q"
proof -
  from assms(2,3) have "takeWhile p s \<noteq> []" and r: "r = last (takeWhile p s)"
    by (auto simp: findLastMonotonous_spec split: if_splits)
  then have "takeWhile p s = butlast (takeWhile p s) @ [r]"
    by simp
  then have "s = butlast (takeWhile p s) @ r # dropWhile p s"
    by (metis append.assoc append_Cons append_Nil takeWhile_dropWhile_id)
  moreover have "p r"
    using \<open>takeWhile p s \<noteq> []\<close> r by (metis last_in_set set_takeWhileD)
  moreover have "\<forall>q \<in> set (dropWhile p s). \<not> p q"
    using assms(2) by (simp add: monotonous_def)
  ultimately show thesis
    by (rule that)
qed

lemma no_start:
  assumes "monotonous p s" and "findLastMonotonous s p = None"
  shows "\<forall>q \<in> set s. \<not> p q"
proof -
  have "takeWhile p s = []"
    using assms by (simp add: findLastMonotonous_spec split: if_splits)
  then have "dropWhile p s = s"
    by (metis append_Nil takeWhile_dropWhile_id)
  with assms(1) show ?thesis
    by (simp add: monotonous_def)
qed

lemma lrs_contains_iff:
  assumes "normalized s"
  shows "lrs_contains s n \<longleftrightarrow> n \<in> lines_of s"
proof (cases "findLastMonotonous s (\<lambda>r. startLine r \<le> n)")
  case None
  with no_start [OF monotonous_lo [OF normalized_separated [OF assms]]] show ?thesis
    by (force simp: lrs_contains_def covered_def)
next
  case (Some r)
  then obtain before after where s: "s = before @ r # after" and r: "startLine r \<le> n" and "\<forall>q \<in> set after. \<not> startLine q \<le> n"
    using last_start [OF assms monotonous_lo [OF normalized_separated [OF assms]]] by blast
  moreover have "n \<notin> lines_of before" if "startLine r \<le> n"
    using assms that unfolding s by (force simp: covered_def)
  ultimately show ?thesis
    using Some by (force simp: lrs_contains_def covered_def)
qed

lemma lrs_intersects_iff:
  assumes "normalized s" and "startLine r < endLineExclusive r"
  shows "lrs_intersects s r \<longleftrightarrow> lines_of s \<inter> lines_in r \<noteq> {}"
proof (cases "findLastMonotonous s (\<lambda>q. startLine q < endLineExclusive r)")
  case None
  then have "\<forall>q \<in> set s. \<not> startLine q < endLineExclusive r"
    by (rule no_start [OF monotonous_lo_less [OF normalized_separated [OF assms(1)]]])
  with None show ?thesis
    by (force simp: lrs_intersects_def covered_def)
next
  case (Some l)
  then obtain before after where s: "s = before @ l # after" and l: "startLine l < endLineExclusive r"
    and late: "\<forall>q \<in> set after. \<not> startLine q < endLineExclusive r"
    using last_start [OF assms(1) monotonous_lo_less [OF normalized_separated [OF assms(1)]]] by blast
  have sound: "startLine l < endLineExclusive l" and early: "\<forall>q \<in> set before. endLineExclusive q < startLine l"
    using assms(1) unfolding s by auto
  have "max (startLine l) (startLine r) \<in> lines_of s \<inter> lines_in r" if "startLine r < endLineExclusive l"
    using that sound l assms(2) unfolding s by (auto simp: covered_def)
  moreover have "lines_of s \<inter> lines_in r = {}" if "\<not> startLine r < endLineExclusive l"
    using that early late sound unfolding s by (force simp: covered_def)
  ultimately show ?thesis
    using Some by (auto simp: lrs_intersects_def)
qed

section \<open>Union\<close>

abbreviation pending_range :: "line_range option \<Rightarrow> line_range list" where
  "pending_range current \<equiv> (case current of None \<Rightarrow> [] | Some c \<Rightarrow> [c])"

text \<open>What the loop keeps: the ranges pushed and the pending one are in normal form, and the pending one starts first.\<close>

definition union_state :: "line_range option \<Rightarrow> line_range list \<Rightarrow> line_range list \<Rightarrow> bool" where
  "union_state current res todo \<longleftrightarrow> normalized (res @ pending_range current) \<and> (current = None \<longrightarrow> res = []) \<and>
     (\<forall>c \<in> set (pending_range current). \<forall>r \<in> set todo. startLine c \<le> startLine r)"

lemma union_push_spec:
  assumes "union_state current res (r # todo)" and "startLine r < endLineExclusive r"
    and "\<forall>q \<in> set todo. startLine r \<le> startLine q"
  shows "\<exists>current' res'. union_push r current res = Inr (current', res') \<and> union_state current' res' todo \<and>
    lines_of (res' @ pending_range current') = lines_of (res @ pending_range current) \<union> lines_in r"
proof (cases current)
  case None
  with assms show ?thesis
    by (simp add: union_push_def union_state_def)
next
  case (Some c)
  then have c: "normalized res" "\<forall>q \<in> set res. endLineExclusive q < startLine c" "startLine c < endLineExclusive c"
    "startLine c \<le> startLine r" "\<forall>q \<in> set todo. startLine c \<le> startLine q"
    using assms(1) by (auto simp: union_state_def)
  show ?thesis
  proof (cases "endLineExclusive c \<ge> startLine r")
    case True
    have "{startLine c..<max (endLineExclusive c) (endLineExclusive r)} = lines_in c \<union> lines_in r"
      using True c(3,4) assms(2) by auto
    with Some True c show ?thesis
      by (auto simp: union_push_def union_state_def)
  next
    case False
    with Some c assms(2,3) show ?thesis
      by (auto simp: union_push_def union_state_def)
  qed
qed

lemma solid_starts: "normalized (r # s) \<Longrightarrow> \<forall>q \<in> set s. startLine r \<le> startLine q"
  by fastforce

lemma union_loop_spec:
  assumes "normalized s1" and "normalized s2" and "union_state current res (s1 @ s2)"
  shows "\<exists>s. union_loop s1 s2 current res = Inr s \<and> normalized s \<and>
    lines_of s = lines_of (res @ pending_range current) \<union> lines_of s1 \<union> lines_of s2"
  using assms
proof (induction s1 s2 current res rule: union_loop.induct)
  case (1 current res)
  then show ?case
    by (auto simp: union_state_def split: option.splits)
next
  case (2 r1 s1 current res)
  obtain c' res' where "union_push r1 current res = Inr (c', res')" "union_state c' res' s1"
    "lines_of (res' @ pending_range c') = lines_of (res @ pending_range current) \<union> lines_in r1"
    using union_push_spec [of current res r1 s1] "2.prems" solid_starts [OF "2.prems"(1)] by auto
  with "2.IH" [of c' res'] "2.prems" show ?case
    by (auto simp: Un_assoc)
next
  case (3 r2 s2 current res)
  obtain c' res' where "union_push r2 current res = Inr (c', res')" "union_state c' res' s2"
    "lines_of (res' @ pending_range c') = lines_of (res @ pending_range current) \<union> lines_in r2"
    using union_push_spec [of current res r2 s2] "3.prems" solid_starts [OF "3.prems"(2)] by auto
  with "3.IH" [of c' res'] "3.prems" show ?case
    by (auto simp: Un_assoc)
next
  case (4 r1 s1 r2 s2 current res)
  note starts = solid_starts [OF "4.prems"(1)] solid_starts [OF "4.prems"(2)]
  show ?case
  proof (cases "startLine r1 < startLine r2")
    case True
    obtain c' res' where "union_push r1 current res = Inr (c', res')" "union_state c' res' (s1 @ r2 # s2)"
      "lines_of (res' @ pending_range c') = lines_of (res @ pending_range current) \<union> lines_in r1"
      using union_push_spec [of current res r1 "s1 @ r2 # s2"] "4.prems" starts True by fastforce
    with "4.IH"(1) [OF True, of c' res'] "4.prems" True show ?thesis
      by (auto simp: Un_assoc Un_left_commute)
  next
    case False
    have "union_state current res (r2 # r1 # s1 @ s2)"
      using "4.prems"(3) by (auto simp: union_state_def)
    then obtain c' res' where "union_push r2 current res = Inr (c', res')" "union_state c' res' (r1 # s1 @ s2)"
      "lines_of (res' @ pending_range c') = lines_of (res @ pending_range current) \<union> lines_in r2"
      using union_push_spec [of current res r2 "r1 # s1 @ s2"] "4.prems" starts False by fastforce
    with "4.IH"(2) [OF False, of c' res'] "4.prems" False show ?thesis
      by (auto simp: Un_assoc Un_left_commute)
  qed
qed

lemma getUnion_spec:
  assumes "normalized s" and "normalized t"
  shows "\<exists>u. getUnion s t = Inr u \<and> normalized u \<and> lines_of u = lines_of s \<union> lines_of t"
  using union_loop_spec [OF assms, of None "[]"] assms by (auto simp: getUnion_def union_state_def)

section \<open>Intersection\<close>

lemma intersection_piece:
  assumes "startLine r1 < endLineExclusive r1" and "startLine r2 < endLineExclusive r2"
  defines "x \<equiv> (case lr_intersect r1 r2 of Some i \<Rightarrow> if \<not> lr_isEmpty i then [i] else [] | None \<Rightarrow> [])"
  shows "lines_of x = lines_in r1 \<inter> lines_in r2" and "normalized x"
    and "\<forall>i \<in> set x. startLine r1 \<le> startLine i \<and> startLine r2 \<le> startLine i \<and>
      endLineExclusive i \<le> endLineExclusive r1 \<and> endLineExclusive i \<le> endLineExclusive r2"
  by (auto simp: x_def lr_intersect_def lr_isEmpty_def Let_def)

text \<open>A first piece and the rest, when all of the rest lies beyond a bound of the piece.\<close>

lemma append_pieces:
  assumes "normalized x" and "normalized y" and "\<forall>i \<in> set x. endLineExclusive i \<le> b" and "\<forall>j \<in> set y. b < startLine j"
  shows "normalized (x @ y)"
  using assms by fastforce

lemma getIntersection_spec:
  assumes "normalized s1" and "normalized s2"
  shows "normalized (getIntersection s1 s2) \<and> lines_of (getIntersection s1 s2) = lines_of s1 \<inter> lines_of s2 \<and>
    (\<forall>i \<in> set (getIntersection s1 s2). (\<exists>r \<in> set s1. startLine r \<le> startLine i) \<and> (\<exists>r \<in> set s2. startLine r \<le> startLine i))"
  using assms
proof (induction s1 s2 rule: getIntersection.induct)
  case (3 r1 s1 r2 s2)
  have r: "startLine r1 < endLineExclusive r1" "startLine r2 < endLineExclusive r2"
    "\<forall>q \<in> set s1. endLineExclusive r1 < startLine q" "\<forall>q \<in> set s2. endLineExclusive r2 < startLine q"
    "normalized s1" "normalized s2"
    using "3.prems" by auto
  have above: "lines_of s1 \<subseteq> {endLineExclusive r1<..}" "lines_of s2 \<subseteq> {endLineExclusive r2<..}"
    using covered_above [OF normalized_separated [OF r(5)] r(3)] covered_above [OF normalized_separated [OF r(6)] r(4)] by auto
  note piece = intersection_piece [OF r(1,2)]
  let ?x = "case lr_intersect r1 r2 of Some i \<Rightarrow> if \<not> lr_isEmpty i then [i] else [] | None \<Rightarrow> []"
  show ?case
  proof (cases "endLineExclusive r1 < endLineExclusive r2")
    case True
    have "lines_in r1 \<inter> lines_of s2 = {}"
      using above(2) True by force
    then have "lines_of (r1 # s1) \<inter> lines_of (r2 # s2) =
        lines_in r1 \<inter> lines_in r2 \<union> lines_of s1 \<inter> lines_of (r2 # s2)"
      unfolding covered_simps by blast
    moreover note rest = "3.IH"(1) [OF True r(5) "3.prems"(2)]
    moreover have "endLineExclusive r1 < startLine j" if "j \<in> set (getIntersection s1 (r2 # s2))" for j
      using rest that r(3) by fastforce
    ultimately have "normalized (?x @ getIntersection s1 (r2 # s2))"
        "lines_of (?x @ getIntersection s1 (r2 # s2)) = lines_of (r1 # s1) \<inter> lines_of (r2 # s2)"
      using piece append_pieces [of ?x "getIntersection s1 (r2 # s2)" "endLineExclusive r1"] by auto
    moreover have "\<forall>i \<in> set (?x @ getIntersection s1 (r2 # s2)).
        (\<exists>r \<in> set (r1 # s1). startLine r \<le> startLine i) \<and> (\<exists>r \<in> set (r2 # s2). startLine r \<le> startLine i)"
      using piece(3) rest unfolding set_append list.set(2) by blast
    ultimately show ?thesis
      using True by (simp only: getIntersection.simps if_True if_False simp_thms)
  next
    case False
    have "lines_in r2 \<inter> lines_of s1 = {}"
      using above(1) False by force
    then have "lines_of (r1 # s1) \<inter> lines_of (r2 # s2) =
        lines_in r1 \<inter> lines_in r2 \<union> lines_of (r1 # s1) \<inter> lines_of s2"
      unfolding covered_simps by blast
    moreover note rest = "3.IH"(2) [OF False "3.prems"(1) r(6)]
    moreover have "endLineExclusive r2 < startLine j" if "j \<in> set (getIntersection (r1 # s1) s2)" for j
      using rest that r(4) by fastforce
    ultimately have "normalized (?x @ getIntersection (r1 # s1) s2)"
        "lines_of (?x @ getIntersection (r1 # s1) s2) = lines_of (r1 # s1) \<inter> lines_of (r2 # s2)"
      using piece append_pieces [of ?x "getIntersection (r1 # s1) s2" "endLineExclusive r2"] by auto
    moreover have "\<forall>i \<in> set (?x @ getIntersection (r1 # s1) s2).
        (\<exists>r \<in> set (r1 # s1). startLine r \<le> startLine i) \<and> (\<exists>r \<in> set (r2 # s2). startLine r \<le> startLine i)"
      using piece(3) rest unfolding set_append list.set(2) by blast
    ultimately show ?thesis
      using False by (simp only: getIntersection.simps if_True if_False simp_thms)
  qed
qed auto

section \<open>Difference\<close>

text \<open>\<open>pieces\<close> are in normal form, lie at or after \<open>start\<close> and, after the first, beyond what was skipped.\<close>

lemma subtract_loop_spec:
  assumes "normalized rs" and "start \<le> endLineExclusive r \<or> rs = []" and "\<forall>q \<in> set rs. start \<le> endLineExclusive q \<and> startLine q \<le> endLineExclusive r"
  shows "\<exists>s. subtract_loop r start rs = Inr s \<and> normalized s \<and> lines_of s = {start..<endLineExclusive r} - lines_of rs \<and>
    (\<forall>q \<in> set s. start \<le> startLine q)"
  using assms
proof (induction rs arbitrary: start)
  case Nil
  then show ?case
    by auto
next
  case (Cons q rs)
  have q: "startLine q < endLineExclusive q" "\<forall>q' \<in> set rs. endLineExclusive q < startLine q'" "normalized rs"
    "start \<le> endLineExclusive q" "startLine q \<le> endLineExclusive r"
    using Cons.prems by auto
  have "endLineExclusive q \<le> endLineExclusive q'" if "q' \<in> set rs" for q'
    using q(2,3) that by (force simp: solid_def)
  moreover have "endLineExclusive q \<le> endLineExclusive r \<or> rs = []"
    using q(2) Cons.prems(3) by (cases rs) force+
  ultimately obtain s where s: "subtract_loop r (endLineExclusive q) rs = Inr s" "normalized s"
    "lines_of s = {endLineExclusive q..<endLineExclusive r} - lines_of rs" "\<forall>q' \<in> set s. endLineExclusive q \<le> startLine q'"
    using Cons.IH [of "endLineExclusive q"] q Cons.prems(3) by auto
  have above: "lines_of rs \<subseteq> {endLineExclusive q<..}"
    using covered_above [OF normalized_separated [OF q(3)] q(2)] by auto
  show ?case
  proof (cases "startLine q > start")
    case True
    have "{start..<endLineExclusive r} - lines_of (q # rs) =
        {start..<startLine q} \<union> ({endLineExclusive q..<endLineExclusive r} - lines_of rs)"
      using above q(1,5) True by force
    with s True q show ?thesis
      by force
  next
    case False
    have "{start..<endLineExclusive r} - lines_of (q # rs) = {endLineExclusive q..<endLineExclusive r} - lines_of rs"
      using above q(4) False by force
    with s False q(4) show ?thesis
      by force
  qed
qed

lemma subtractFrom_spec:
  assumes "normalized s" and "valid_line_range r"
  shows "\<exists>d. subtractFrom s r = Inr d \<and> lines_of d = lines_in r - lines_of s \<and> (startLine r < endLineExclusive r \<longrightarrow> normalized d)"
proof -
  obtain before touching after where parts: "s = before @ touching @ after"
    "findFirstIdxMonotonousOrArrLen s (\<lambda>q. endLineExclusive q \<ge> startLine r) 0 (length s) = length before"
    "nat (findLastIdxMonotonous s (\<lambda>q. startLine q \<le> endLineExclusive r) 0 (length s) + 1) = length before + length touching"
    "\<forall>q \<in> set before. endLineExclusive q < startLine r"
    "\<forall>q \<in> set touching. startLine r \<le> endLineExclusive q \<and> startLine q \<le> endLineExclusive r"
    "\<forall>q \<in> set after. startLine r \<le> endLineExclusive q \<and> endLineExclusive r < startLine q"
    by (rule touching_indices [OF assms])
  have "lines_in r \<inter> lines_of before = {}" "lines_in r \<inter> lines_of after = {}"
    using parts(4,6) by (force simp: covered_def)+
  then have same: "lines_in r - lines_of s = lines_in r - lines_of touching"
    unfolding parts(1) covered_simps by blast
  have "drop (length before) s = touching @ after"
    by (subst parts(1)) simp
  then have "subtractFrom s r = (if touching = [] then Inr [r] else subtract_loop r (startLine r) touching)"
    unfolding subtractFrom_def Let_def parts(2,3) by simp
  moreover have "normalized touching"
    using assms(1) unfolding parts(1) by simp
  then obtain d where "subtract_loop r (startLine r) touching = Inr d" "normalized d" "lines_of d = lines_in r - lines_of touching"
    using subtract_loop_spec [of touching "startLine r" r] parts(5) assms(2) by (auto simp: valid_line_range_def)
  ultimately show ?thesis
    using same by (cases "touching = []") auto
qed

lemma lr_subtract_spec:
  assumes "valid_line_range a" and "valid_line_range b"
  shows "\<exists>d. lr_subtract a (Some b) = Inr d \<and> lines_of d = lines_in a - lines_in b"
  using assms by (auto simp: lr_subtract_def valid_line_range_def)

section \<open>The laws of line sets\<close>

text \<open>
  C9: A \<open>LineRangeSet\<close> in normal form is the set of its lines. \<open>getUnion\<close>, \<open>getIntersection\<close> and \<open>subtractFrom\<close> throw
  nothing and give the union, the intersection and the difference of the sets of lines, the first two in normal
  form again; \<open>contains\<close> is membership.
\<close>

theorem line_set_operations:
  assumes "normalized s" and "normalized t" and "valid_line_range r"
  shows "\<exists>u d. getUnion s t = Inr u \<and> normalized u \<and> subtractFrom s r = Inr d \<and>
    normalized (getIntersection s t) \<and>
    (\<forall>n. (n \<in> lines_of u \<longleftrightarrow> lrs_contains s n \<or> lrs_contains t n) \<and>
      (n \<in> lines_of (getIntersection s t) \<longleftrightarrow> lrs_contains s n \<and> lrs_contains t n) \<and>
      (n \<in> lines_of d \<longleftrightarrow> lr_contains r n \<and> \<not> lrs_contains s n))"
proof -
  obtain u where "getUnion s t = Inr u" "normalized u" "lines_of u = lines_of s \<union> lines_of t"
    using getUnion_spec [OF assms(1,2)] by blast
  moreover obtain d where "subtractFrom s r = Inr d" "lines_of d = lines_in r - lines_of s"
    using subtractFrom_spec [OF assms(1,3)] by blast
  ultimately show ?thesis
    using getIntersection_spec [OF assms(1,2)]
    by (simp add: lrs_contains_iff [OF assms(1)] lrs_contains_iff [OF assms(2)] lr_contains_def)
qed

theorem line_set_operations_witness:
  "\<exists>u. getUnion [mk_line_range 1 3, mk_line_range 7 9] [mk_line_range 3 5] = Inr u \<and> 4 \<in> lines_of u \<and> 6 \<notin> lines_of u"
proof -
  have "normalized [mk_line_range 1 3, mk_line_range 7 9]" "normalized [mk_line_range 3 5]" "valid_line_range (mk_line_range 1 2)"
    by (simp_all add: valid_line_range_def)
  from line_set_operations [OF this] show ?thesis
    by (auto simp: lrs_contains_def findLastMonotonous_def findLastIdxMonotonous_def find_last_mono_loop.simps js_get_def)
qed

definition add_line_ranges :: "line_range list \<Rightarrow> line_range_set \<Rightarrow> line_range_set result" where
  "add_line_ranges rs s = foldl (\<lambda>acc r. bind_result acc (lrs_addRange r)) (Inr s) rs"

lemma add_line_ranges_spec:
  "normalized s \<Longrightarrow> \<forall>r \<in> set rs. valid_line_range r \<Longrightarrow>
     \<exists>s'. add_line_ranges rs s = Inr s' \<and> normalized s' \<and> lines_of s' = lines_of s \<union> lines_of rs"
proof (induction rs arbitrary: s)
  case (Cons r rs)
  then obtain s1 where "lrs_addRange r s = Inr s1" "normalized s1" "lines_of s1 = lines_of s \<union> lines_in r"
    using lrs_addRange_spec [of s r] by auto
  with Cons.IH [of s1] Cons.prems show ?case
    by (auto simp: add_line_ranges_def)
qed (simp add: add_line_ranges_def)

text \<open>
  C10: The normal form is canonical. Two sequences of line ranges that contain the same lines, added to an
  empty \<open>LineRangeSet\<close> in their order, throw nothing and give the very same array of ranges, sorted, with no empty
  range and no two that touch, which contains exactly those lines.
\<close>

theorem line_sets_canonical:
  assumes "\<forall>r \<in> set rs \<union> set qs. valid_line_range r"
    and "\<forall>n. (\<exists>r \<in> set rs. lr_contains r n) \<longleftrightarrow> (\<exists>q \<in> set qs. lr_contains q n)"
  shows "\<exists>s. add_line_ranges rs [] = Inr s \<and> add_line_ranges qs [] = Inr s \<and> normalized s \<and>
    (\<forall>n. lrs_contains s n \<longleftrightarrow> (\<exists>r \<in> set rs. lr_contains r n))"
proof -
  have lines: "lines_of xs = {n. \<exists>r \<in> set xs. lr_contains r n}" for xs
    by (auto simp: covered_def lr_contains_def)
  obtain s where s: "add_line_ranges rs [] = Inr s" "normalized s" "lines_of s = lines_of rs"
    using add_line_ranges_spec [of "[]" rs] assms(1) by auto
  obtain t where t: "add_line_ranges qs [] = Inr t" "normalized t" "lines_of t = lines_of qs"
    using add_line_ranges_spec [of "[]" qs] assms(1) by auto
  have "lines_of s = lines_of t"
    using assms(2) unfolding s(3) t(3) by (simp add: lines [of rs] lines [of qs])
  then have "s = t"
    by (rule ln.solid_unique [OF s(2) t(2)])
  moreover have "lrs_contains s n \<longleftrightarrow> (\<exists>r \<in> set rs. lr_contains r n)" for n
    unfolding lrs_contains_iff [OF s(2)] s(3) lines [of rs] by simp
  ultimately show ?thesis
    using s t by auto
qed

theorem line_sets_canonical_witness:
  "\<exists>s. add_line_ranges [mk_line_range 1 4] [] = Inr s \<and> add_line_ranges [mk_line_range 3 4, mk_line_range 1 2, mk_line_range 2 3] [] = Inr s"
proof -
  let ?rs = "[mk_line_range 1 4]" and ?qs = "[mk_line_range 3 4, mk_line_range 1 2, mk_line_range 2 3]"
  have "\<forall>r \<in> set ?rs \<union> set ?qs. valid_line_range r"
    by (simp add: valid_line_range_def)
  moreover have "\<forall>n. (\<exists>r \<in> set ?rs. lr_contains r n) \<longleftrightarrow> (\<exists>q \<in> set ?qs. lr_contains q n)"
    by (auto simp: lr_contains_def)
  ultimately show ?thesis
    using line_sets_canonical [of ?rs ?qs] by blast
qed

text \<open>\<open>joinMany\<close> and \<open>getWithDelta\<close>: the union of all the lists, and every line moved by the same distance.\<close>

lemma joinMany_spec:
  assumes "\<forall>s \<in> set ss. normalized s"
  shows "\<exists>u. lr_joinMany ss = Inr u \<and> normalized u \<and> lines_of u = (\<Union>s \<in> set ss. lines_of s)"
proof (cases ss)
  case (Cons s ts)
  have "\<exists>u. foldl (\<lambda>res other. bind_result res (\<lambda>res. getUnion res other)) (Inr s) ts = Inr u \<and> normalized u \<and>
      lines_of u = lines_of s \<union> (\<Union>t \<in> set ts. lines_of t)" if "normalized s" "\<forall>t \<in> set ts. normalized t" for s
    using that
  proof (induction ts arbitrary: s)
    case (Cons t ts)
    then obtain u where "getUnion s t = Inr u" "normalized u" "lines_of u = lines_of s \<union> lines_of t"
      using getUnion_spec [of s t] by auto
    with Cons.IH [of u] Cons.prems show ?case
      by (auto simp: Un_assoc)
  qed simp
  from this [of s] Cons assms show ?thesis
    by (simp add: lr_joinMany_def)
qed (simp add: lr_joinMany_def)

lemma getWithDelta_spec:
  "normalized s \<Longrightarrow> \<exists>t. getWithDelta v s = Inr t \<and> normalized t \<and> lines_of t = (\<lambda>n. n + v) ` lines_of s \<and>
     map startLine t = map (\<lambda>r. startLine r + v) s"
proof (induction s)
  case (Cons r s)
  then obtain t where t: "getWithDelta v s = Inr t" "normalized t" "lines_of t = (\<lambda>n. n + v) ` lines_of s"
    "map startLine t = map (\<lambda>r. startLine r + v) s"
    by auto
  have "endLineExclusive r + v < startLine q" if "q \<in> set t" for q
  proof -
    have "startLine q \<in> set (map (\<lambda>r. startLine r + v) s)"
      using that unfolding t(4) [symmetric] by simp
    with Cons.prems show ?thesis
      by auto
  qed
  with t Cons.prems show ?case
    by (auto simp: lr_delta_def image_Un)
qed simp

text \<open>
  \<open>distanceToLine\<close> is not symmetric: the first line after a range has distance 0 to it, like the lines it contains,
  and the last line before it has distance 1.
\<close>

theorem distance_of_next_line:
  "lr_distanceToLine (mk_line_range 5 8) 8 = 0 \<and> \<not> lr_contains (mk_line_range 5 8) 8 \<and> lr_distanceToLine (mk_line_range 5 8) 4 = 1"
  by (simp add: lr_distanceToLine_def lr_contains_def)

end
