(* ===== verification/Offset_Compose.thy ===== *)
theory Offset_Compose
  imports Offset_Edit_Laws
begin

text \<open>
  The invariant the source states above \<open>joinEdits\<close>: applying the composition of two edits is applying one after
  the other. Throughout, \<open>S\<close> is the original text and \<open>T\<close> the text the first edit makes of it. \<open>aligned S T p q d\<close>
  relates a place in both: the queue \<open>q\<close> makes, of what follows offset \<open>p\<close> in \<open>S\<close>, what follows offset \<open>p + d\<close> in \<open>T\<close>.
  Each inner loop of \<open>joinEdits\<close> keeps it, and \<open>joined\<close> adds what the edits already emitted produce.
\<close>

section \<open>Aligned places in the two texts\<close>

definition aligned :: "jsstring \<Rightarrow> jsstring \<Rightarrow> int \<Rightarrow> single_edit list \<Rightarrow> int \<Rightarrow> bool" where
  "aligned S T p q d \<longleftrightarrow> 0 \<le> p \<and> fits p q (int (length S)) \<and> 0 \<le> p + d \<and> p + d \<le> int (length T) \<and>
     js_substring_from T (p + d) = apply_loop S p q"

lemma substring_take:
  assumes "js_substring_from s t = x @ y" and "0 \<le> t" and "t \<le> int (length s)" and "0 \<le> k" and "k \<le> int (length x)"
  shows "js_substring s t (t + k) = take (nat k) x" and "js_substring_from s (t + k) = drop (nat k) x @ y"
    and "t + k \<le> int (length s)"
proof -
  have "js_substring_from s t = take (nat k) x @ drop (nat k) x @ y" "int (length (take (nat k) x)) = k"
    using assms by simp_all
  with substring_prefix [of s t "take (nat k) x" "drop (nat k) x @ y"] assms(2,3)
  show "js_substring s t (t + k) = take (nat k) x" "js_substring_from s (t + k) = drop (nat k) x @ y"
    "t + k \<le> int (length s)"
    by simp_all
qed

text \<open>As far as the next edit of the queue, both texts go on in step.\<close>

lemma aligned_forward:
  assumes "aligned S T p q d" and "p + d \<le> x" and "x \<le> int (length T)" and "q = [] \<or> x \<le> edit_start (hd q) + d"
  shows "aligned S T (x - d) q d" and "js_substring T (p + d) x = js_substring S p (x - d)"
proof -
  have p: "0 \<le> p" "fits p q (int (length S))" "0 \<le> p + d" "p + d \<le> int (length T)"
    "js_substring_from T (p + d) = apply_loop S p q"
    using assms(1) by (auto simp: aligned_def)
  have fits: "fits (x - d) q (int (length S))"
  proof (cases q)
    case Nil
    then have "int (length T) - (p + d) = int (length S) - p"
      using p length_substring_from [of "p + d" T] length_substring_from [of p S] by simp
    with Nil assms(3) show ?thesis
      by simp
  next
    case (Cons e es)
    with p(2) assms(4) show ?thesis
      by simp
  qed
  have "apply_loop S p q = js_substring S p (x - d) @ apply_loop S (x - d) q"
    using fits p(1) assms(2) by (intro apply_from_earlier) simp_all
  moreover have "int (length (js_substring S p (x - d))) = x - d - p"
    using p(1) assms(2) fits_le [OF fits] by (intro length_substring) simp_all
  ultimately have "js_substring T (p + d) (p + d + (x - d - p)) = js_substring S p (x - d)"
    "js_substring_from T (p + d + (x - d - p)) = apply_loop S (x - d) q"
    using substring_prefix [of T "p + d" "js_substring S p (x - d)" "apply_loop S (x - d) q"] p by simp_all
  then show "js_substring T (p + d) x = js_substring S p (x - d)" "aligned S T (x - d) q d"
    using p fits assms(2,3) by (simp_all add: aligned_def)
qed

lemma aligned_edit:
  assumes "aligned S T p (e # q) d"
  shows "aligned S T (edit_start e) (e # q) d"
    and "js_substring T (p + d) (edit_start e + d) = js_substring S p (edit_start e)"
    and "js_substring_from T (edit_start e + d) = newText e @ apply_loop S (edit_end e) q"
    and "edit_start e + d \<le> int (length T)" and "0 \<le> edit_start e + d"
proof -
  have p: "0 \<le> p" "fits p (e # q) (int (length S))" "0 \<le> p + d" "p + d \<le> int (length T)"
    "js_substring_from T (p + d) = js_substring S p (edit_start e) @ newText e @ apply_loop S (edit_end e) q"
    using assms by (auto simp: aligned_def)
  have "int (length (js_substring S p (edit_start e))) = edit_start e - p"
    using p(1) fits_bounds [OF p(2)] by (intro length_substring) auto
  then show "edit_start e + d \<le> int (length T)"
    using substring_prefix(3) [OF p(5,3,4)] by simp
  with aligned_forward [OF assms, of "edit_start e + d"] p
  show "aligned S T (edit_start e) (e # q) d"
    "js_substring T (p + d) (edit_start e + d) = js_substring S p (edit_start e)"
    by simp_all
  then show "js_substring_from T (edit_start e + d) = newText e @ apply_loop S (edit_end e) q"
    by (simp add: aligned_def js_substring_def Let_def)
  show "0 \<le> edit_start e + d"
    using p by simp
qed

text \<open>Past an edit of the queue, the difference changes by the edit's growth.\<close>

lemma aligned_next:
  assumes "aligned S T p (e # q) d"
  shows "aligned S T (edit_end e) q (d + growth e)"
    and "js_substring T (edit_start e + d) (edit_end e + (d + growth e)) = newText e"
    and "edit_end e + (d + growth e) = edit_start e + d + text_length e"
proof -
  note e = aligned_edit [OF assms]
  show eq: "edit_end e + (d + growth e) = edit_start e + d + text_length e"
    by (simp add: growth_def or_length_def)
  note past = substring_prefix [OF e(3) e(5) e(4)]
  then show "js_substring T (edit_start e + d) (edit_end e + (d + growth e)) = newText e"
    by (simp only: eq)
  have "0 \<le> edit_end e" "fits (edit_end e) q (int (length S))"
    using assms by (auto simp: aligned_def)
  then show "aligned S T (edit_end e) q (d + growth e)"
    using past e(5) unfolding aligned_def eq by simp
qed

section \<open>The two inner loops\<close>

definition joined :: "jsstring \<Rightarrow> jsstring \<Rightarrow> single_edit list \<Rightarrow> join_state \<Rightarrow> bool" where
  "joined S T finished st \<longleftrightarrow>
     (let p = ended 0 (joinResult st)
      in fits 0 (joinResult st) p \<and> aligned S T p (edit1Queue st) (edit1ToEdit2 st) \<and>
         ended 0 finished \<le> p + edit1ToEdit2 st \<and>
         produced S 0 (joinResult st) =
           produced T 0 finished @ js_substring T (ended 0 finished) (p + edit1ToEdit2 st))"

abbreviation reached :: "join_state \<Rightarrow> int" where
  "reached st \<equiv> ended 0 (joinResult st) + edit1ToEdit2 st"

lemma copy_loop_joined:
  assumes "joined S T finished \<lparr>edit1Queue = q, joinResult = res, edit1ToEdit2 = d\<rparr>"
    and "ended 0 res + d \<le> edit_start e2" and "0 \<le> ended 0 finished"
  shows "joined S T finished (copy_loop e2 q res d) \<and> reached (copy_loop e2 q res d) \<le> edit_start e2 \<and>
    (edit1Queue (copy_loop e2 q res d) = [] \<or>
       edit_start e2 \<le> edit_start (hd (edit1Queue (copy_loop e2 q res d))) + edit1ToEdit2 (copy_loop e2 q res d) +
         text_length (hd (edit1Queue (copy_loop e2 q res d))))"
  using assms
proof (induction e2 q res d rule: copy_loop.induct)
  case (2 e2 e q res d)
  show ?case
  proof (cases "edit_start e + d + text_length e \<ge> edit_start e2")
    case True
    with "2.prems" show ?thesis
      by simp
  next
    case False
    have al: "aligned S T (ended 0 res) (e # q) d" and fits: "fits 0 res (ended 0 res)"
      and made: "produced S 0 res = produced T 0 finished @ js_substring T (ended 0 finished) (ended 0 res + d)"
      and le: "ended 0 finished \<le> ended 0 res + d"
      using "2.prems"(1) by (auto simp: joined_def Let_def)
    note e = aligned_edit [OF al] and nxt = aligned_next [OF al]
    let ?t = "edit_end e + (d + growth e)"
    have bounds: "ended 0 res \<le> edit_start e" "edit_start e \<le> edit_end e" "?t \<le> int (length T)"
      using al nxt(1) by (auto simp: aligned_def)
    have c1: "js_substring T (ended 0 finished) (edit_start e + d) =
        js_substring T (ended 0 finished) (ended 0 res + d) @ js_substring S (ended 0 res) (edit_start e)"
      using bounds le "2.prems"(3) e(2,4) substring_cat [of "ended 0 finished" "ended 0 res + d" "edit_start e + d" T] by simp
    have "js_substring T (ended 0 finished) ?t = js_substring T (ended 0 finished) (edit_start e + d) @ newText e"
      using bounds le "2.prems"(3) nxt(3) by (subst nxt(2) [symmetric], intro substring_cat [symmetric]) simp_all
    then have "js_substring T (ended 0 finished) ?t =
        js_substring T (ended 0 finished) (ended 0 res + d) @ js_substring S (ended 0 res) (edit_start e) @ newText e"
      unfolding c1 by simp
    moreover have "ended 0 finished \<le> ?t"
      using le bounds(1) nxt(3) by simp
    ultimately have "joined S T finished \<lparr>edit1Queue = q, joinResult = res @ [e], edit1ToEdit2 = d + growth e\<rparr>"
      using nxt(1) fits made bounds(1,2) by (simp add: joined_def Let_def fits_append)
    moreover have "ended 0 (res @ [e]) + (d + growth e) \<le> edit_start e2"
      using False nxt(3) by simp
    ultimately show ?thesis
      using "2.IH" [OF False] "2.prems"(3) False by (simp add: growth_def)
  qed
qed simp

text \<open>What the collecting loop leaves, when it has taken \<open>l\<close> as its last edit.\<close>

definition collected :: "jsstring \<Rightarrow> jsstring \<Rightarrow> single_edit \<Rightarrow> int \<Rightarrow> single_edit \<Rightarrow> single_edit list \<Rightarrow> int \<Rightarrow> bool" where
  "collected S T e2 p l q d \<longleftrightarrow> p \<le> edit_end l \<and> aligned S T (edit_end l) q d \<and>
     0 \<le> edit_end l + d - text_length l \<and> edit_end l + d - text_length l \<le> edit_end e2 \<and>
     js_substring_from T (edit_end l + d - text_length l) = newText l @ apply_loop S (edit_end l) q"

lemma aligned_collected:
  assumes "aligned S T p (e # q) d" and "edit_start e + d \<le> edit_end e2" and "r \<le> edit_end e"
  shows "collected S T e2 r e q (d + growth e)"
proof -
  have "edit_end e + (d + growth e) - text_length e = edit_start e + d"
    using aligned_next(3) [OF assms(1)] by simp
  then show ?thesis
    using aligned_edit(3,5) [OF assms(1)] aligned_next(1) [OF assms(1)] assms(2,3) by (simp only: collected_def simp_thms)
qed

lemma collect_loop_taken:
  assumes "collect_loop e2 q d (Some (f, l)) = (q', d', taken)" and "collected S T e2 r l q d"
  shows "\<exists>l'. taken = Some (f, l') \<and> collected S T e2 r l' q' d' \<and> (q' = [] \<or> edit_end e2 < edit_start (hd q') + d')"
  using assms
proof (induction q arbitrary: d l)
  case (Cons e q)
  show ?case
  proof (cases "edit_start e + d > edit_end e2")
    case True
    with Cons.prems show ?thesis
      by auto
  next
    case False
    have al: "aligned S T (edit_end l) (e # q) d" and "r \<le> edit_end l"
      using Cons.prems(2) by (simp_all add: collected_def)
    moreover from al have "edit_end l \<le> edit_end e"
      by (auto simp: aligned_def)
    ultimately have "collected S T e2 r e q (d + growth e)"
      using aligned_collected [OF al] False by simp
    with Cons.IH [of "d + growth e" e] Cons.prems(1) False show ?thesis
      by (simp add: growth_def)
  qed
qed auto

lemma collect_loop_spec:
  assumes "collect_loop e2 q d None = (q', d', taken)" and "aligned S T p q d"
  shows "q' = [] \<or> edit_end e2 < edit_start (hd q') + d'"
    and "case taken of None \<Rightarrow> q' = q \<and> d' = d
      | Some (f, l) \<Rightarrow> q \<noteq> [] \<and> f = hd q \<and> edit_start f + d \<le> edit_end e2 \<and> collected S T e2 (edit_end f) l q' d'"
proof -
  have "(q' = [] \<or> edit_end e2 < edit_start (hd q') + d') \<and> (case taken of None \<Rightarrow> q' = q \<and> d' = d
      | Some (f, l) \<Rightarrow> q \<noteq> [] \<and> f = hd q \<and> edit_start f + d \<le> edit_end e2 \<and> collected S T e2 (edit_end f) l q' d')"
  proof (cases q)
    case (Cons e es)
    show ?thesis
    proof (cases "edit_start e + d > edit_end e2")
      case True
      with assms(1) Cons show ?thesis
        by auto
    next
      case False
      with assms Cons have "collected S T e2 (edit_end e) e es (d + growth e)"
        by (auto intro: aligned_collected)
      from collect_loop_taken [OF _ this, of e q' d' taken] assms(1) Cons False show ?thesis
        by (auto simp: growth_def)
    qed
  qed (use assms(1) in auto)
  then show "q' = [] \<or> edit_end e2 < edit_start (hd q') + d'"
    and "case taken of None \<Rightarrow> q' = q \<and> d' = d
      | Some (f, l) \<Rightarrow> q \<noteq> [] \<and> f = hd q \<and> edit_start f + d \<le> edit_end e2 \<and> collected S T e2 (edit_end f) l q' d'"
    by blast+
qed

section \<open>One edit of the second list\<close>

text \<open>
  Emitting an edit that replaces \<open>a\<close> to \<open>b\<close> by \<open>pre\<close> and the new text of \<open>e2\<close>, when \<open>pre\<close> completes what the
  second text has before \<open>e2\<close> and the queue is aligned at the end of \<open>e2\<close>.
\<close>

lemma joined_emit:
  assumes "joined S T finished st" and "0 \<le> ended 0 finished" and "edit_start e2 \<le> int (length T)"
    and "reached st \<le> edit_start e2" and "ended 0 (joinResult st) \<le> a" and "a \<le> edit_end e2 - d"
    and "js_substring T (reached st) (edit_start e2) = js_substring S (ended 0 (joinResult st)) a @ pre"
    and "aligned S T (edit_end e2 - d) q d" and "edit_start e2 \<le> edit_end e2"
  defines "e \<equiv> new_SingleOffsetEdit \<lparr>or_start = a, or_endExclusive = edit_end e2 - d\<rparr> (pre @ newText e2)"
  shows "joined S T (finished @ [e2]) \<lparr>edit1Queue = q, joinResult = joinResult st @ [e], edit1ToEdit2 = d\<rparr>"
proof -
  have st: "fits 0 (joinResult st) (ended 0 (joinResult st))" "ended 0 finished \<le> reached st"
    "produced S 0 (joinResult st) = produced T 0 finished @ js_substring T (ended 0 finished) (reached st)"
    using assms(1) by (auto simp: joined_def Let_def)
  have "js_substring T (ended 0 finished) (edit_start e2) =
      js_substring T (ended 0 finished) (reached st) @ js_substring T (reached st) (edit_start e2)"
    using assms(2-4) st(2) substring_cat [of "ended 0 finished" "reached st" "edit_start e2" T] by simp
  then have "produced S 0 (joinResult st @ [e]) = produced T 0 (finished @ [e2])"
    by (simp add: st(3) assms(7) e_def new_SingleOffsetEdit_def)
  moreover have "js_substring T x x = []" for x
    by (simp add: js_substring_def Let_def)
  ultimately show ?thesis
    using st(1) assms(5,6,8) by (simp add: joined_def Let_def e_def new_SingleOffsetEdit_def fits_append)
qed

text \<open>The text between the place reached and \<open>e2\<close>: unchanged text, then a prefix of the first edit taken.\<close>

lemma prefix_text:
  assumes "aligned S T p (f # q) d" and "p + d \<le> edit_start e2" and "edit_start e2 \<le> int (length T)"
    and "edit_start e2 \<le> edit_start f + d + text_length f"
  defines "k \<equiv> edit_start e2 - (edit_start f + d)"
  shows "js_substring T (p + d) (edit_start e2) =
    js_substring S p (min (edit_start f) (edit_start e2 - d)) @ (if k > 0 then js_slice (newText f) 0 k else [])"
proof (cases "k > 0")
  case True
  note f = aligned_edit [OF assms(1)]
  have k: "0 \<le> k" "k \<le> text_length f" "edit_start e2 = edit_start f + d + k"
    using True assms(4) by (simp_all add: k_def)
  have "js_substring T (edit_start f + d) (edit_start e2) = take (nat k) (newText f)"
    using substring_take(1) [OF f(3) f(5) f(4) k(1,2)] by (simp only: k(3))
  moreover have "js_substring T (p + d) (edit_start e2) =
      js_substring T (p + d) (edit_start f + d) @ js_substring T (edit_start f + d) (edit_start e2)"
    using assms(1,3) True by (intro substring_cat [symmetric]) (auto simp: aligned_def k_def)
  ultimately show ?thesis
    using f(2) True k by (simp add: js_slice_prefix min_def)
next
  case False
  then have "edit_start e2 \<le> edit_start f + d"
    by (simp add: k_def)
  then show ?thesis
    using aligned_forward(2) [OF assms(1-3)] False by (simp add: min.absorb2)
qed

text \<open>Handing back the suffix keeps the queue aligned at the end of \<open>e2\<close>.\<close>

lemma push_suffix_spec:
  assumes "collected S T e2 r l q d" and "q = [] \<or> edit_end e2 < edit_start (hd q) + d" and "edit_end e2 \<le> int (length T)"
  shows "\<exists>q' d'. push_suffix e2 l q d = Inr (q', d') \<and> aligned S T (edit_end e2 - d') q' d' \<and> edit_end l \<le> edit_end e2 - d'"
proof (cases "edit_end l + d - edit_end e2 > 0")
  case True
  let ?k = "edit_end l + d - edit_end e2" and ?t = "edit_end l + d - text_length l"
  let ?n = "text_length l - ?k"
  have al: "aligned S T (edit_end l) q d" and l: "js_substring_from T ?t = newText l @ apply_loop S (edit_end l) q"
    "0 \<le> ?t" "?t \<le> edit_end e2"
    using assms(1) by (auto simp: collected_def)
  have n: "0 \<le> ?n" "?n \<le> text_length l" "?t + ?n = edit_end e2" "?t \<le> int (length T)"
    using True l assms(3) by simp_all
  have suffix: "js_slice_from (newText l) (- ?k) = drop (nat ?n) (newText l)"
  proof -
    have "rel_index (text_length l) (- ?k) = ?n"
      using True n(1) by (simp add: rel_index_def)
    then show ?thesis
      using n(1,2) by (simp add: js_slice_from_def js_slice_def Let_def rel_index_def)
  qed
  let ?e = "new_SingleOffsetEdit \<lparr>or_start = edit_end l, or_endExclusive = edit_end l\<rparr> (drop (nat ?n) (newText l))"
  have len: "text_length ?e = ?k"
    using n(1) True by (simp add: new_SingleOffsetEdit_def of_nat_diff nat_le_iff)
  have "push_suffix e2 l q d = Inr (?e # q, d - ?k)"
    using True len unfolding push_suffix_def Let_def suffix
    by (simp add: or_ofStartAndLength_def or_length_def new_SingleOffsetEdit_def)
  moreover have "js_substring_from T (edit_end e2) = drop (nat ?n) (newText l) @ apply_loop S (edit_end l) q"
    using substring_take(2) [OF l(1,2) n(4,1,2)] unfolding n(3) .
  then have "aligned S T (edit_end l) (?e # q) (d - ?k)"
    using al l(2,3) assms(3) by (simp add: aligned_def new_SingleOffsetEdit_def js_substring_def Let_def)
  ultimately show ?thesis
    by simp
next
  case False
  then have "push_suffix e2 l q d = Inr (q, d)"
    by (simp add: push_suffix_def)
  moreover have "aligned S T (edit_end l) q d"
    using assms(1) by (simp add: collected_def)
  ultimately show ?thesis
    using aligned_forward(1) [of S T "edit_end l" q d "edit_end e2"] assms(2,3) False by auto
qed

lemma join_step_joined:
  assumes "joined S T finished st" and "0 \<le> ended 0 finished" and "reached st \<le> edit_start e2"
    and "edit_start e2 \<le> edit_end e2" and "edit_end e2 \<le> int (length T)"
  shows "\<exists>st'. join_step e2 st = Inr st' \<and> joined S T (finished @ [e2]) st' \<and> reached st' = edit_end e2"
proof -
  define st1 where "st1 = copy_loop e2 (edit1Queue st) (joinResult st) (edit1ToEdit2 st)"
  let ?p = "ended 0 (joinResult st1)" and ?d = "edit1ToEdit2 st1"
  have "joined S T finished \<lparr>edit1Queue = edit1Queue st, joinResult = joinResult st, edit1ToEdit2 = edit1ToEdit2 st\<rparr>"
    using assms(1) by (cases st) simp
  then have st1: "joined S T finished st1" "reached st1 \<le> edit_start e2"
    "edit1Queue st1 = [] \<or> edit_start e2 \<le> edit_start (hd (edit1Queue st1)) + ?d + text_length (hd (edit1Queue st1))"
    unfolding st1_def using copy_loop_joined [OF _ assms(3,2)] by blast+
  have al: "aligned S T ?p (edit1Queue st1) ?d"
    using st1(1) by (simp add: joined_def Let_def)
  obtain q d taken where collect: "collect_loop e2 (edit1Queue st1) ?d None = (q, d, taken)"
    by (cases "collect_loop e2 (edit1Queue st1) ?d None") auto
  note rest = collect_loop_spec [OF collect al]
  note emit = joined_emit [OF st1(1) assms(2) order_trans [OF assms(4,5)] st1(2) _ _ _ _ assms(4)]
  show ?thesis
  proof (cases taken)
    case None
    with rest have q: "q = edit1Queue st1" "d = ?d"
      by simp_all
    have "aligned S T (edit_end e2 - ?d) q ?d"
      using rest(1) al st1(2) assms(4,5) unfolding q by (intro aligned_forward(1)) auto
    moreover have "js_substring T (reached st1) (edit_start e2) = js_substring S ?p (edit_start e2 - ?d)"
      using rest(1) al st1(2) assms(4,5) unfolding q by (intro aligned_forward(2)) auto
    ultimately have "joined S T (finished @ [e2]) \<lparr>edit1Queue = q, joinResult = joinResult st1 @
        [new_SingleOffsetEdit \<lparr>or_start = edit_start e2 - d, or_endExclusive = edit_end e2 - d\<rparr> (newText e2)], edit1ToEdit2 = d\<rparr>"
      using emit [of "edit_start e2 - d" d "[]" q] st1(2) assms(4) q by simp
    then show ?thesis
      using assms(4) None collect
      by (simp add: join_step_def Let_def st1_def [symmetric] or_delta_def new_SingleOffsetEdit_def)
  next
    case (Some fl)
    obtain f l where taken: "taken = Some (f, l)"
      using Some by (cases fl) simp
    then obtain qs where f: "edit1Queue st1 = f # qs" "edit_start f + ?d \<le> edit_end e2"
      and got: "collected S T e2 (edit_end f) l q d"
      using rest(2) by (cases "edit1Queue st1") auto
    obtain q' d' where push: "push_suffix e2 l q d = Inr (q', d')" "aligned S T (edit_end e2 - d') q' d'"
      "edit_end l \<le> edit_end e2 - d'"
      using push_suffix_spec [OF got rest(1) assms(5)] by blast
    let ?a = "min (edit_start f) (edit_start e2 - ?d)" and ?k = "edit_start e2 - (edit_start f + ?d)"
    let ?pre = "if ?k > 0 then js_slice (newText f) 0 ?k else []"
    have a: "?p \<le> ?a" "?a \<le> edit_end e2 - d'"
      using al st1(2) push(3) got unfolding f aligned_def collected_def by auto
    have "js_substring T (reached st1) (edit_start e2) = js_substring S ?p ?a @ ?pre"
      using prefix_text [OF al [unfolded f] st1(2) order_trans [OF assms(4,5)]] st1(3) f(1) by simp
    from emit [OF a this push(2)] a(2) push(1) show ?thesis
      by (simp add: join_step_def Let_def st1_def [symmetric] collect taken new_SingleOffsetEdit_def)
  qed
qed

lemma join_loop_joined:
  assumes "joined S T finished st" and "0 \<le> ended 0 finished" and "reached st = ended 0 finished"
    and "fits (ended 0 finished) edits2 (int (length T))"
  shows "\<exists>st'. join_loop edits2 st = Inr st' \<and> joined S T (finished @ edits2) st' \<and> reached st' = ended 0 (finished @ edits2)"
  using assms
proof (induction edits2 arbitrary: finished st)
  case (Cons e2 edits2)
  then have "ended 0 finished \<le> edit_start e2" "edit_start e2 \<le> edit_end e2" "edit_end e2 \<le> int (length T)"
    using fits_bounds [OF Cons.prems(4)] by auto
  with join_step_joined [OF Cons.prems(1,2)] Cons.prems(3) obtain st1 where
    st1: "join_step e2 st = Inr st1" "joined S T (finished @ [e2]) st1" "reached st1 = edit_end e2"
    by auto
  moreover have "0 \<le> edit_end e2"
    using fits_bounds [OF Cons.prems(4)] Cons.prems(2) by auto
  ultimately show ?case
    using Cons.IH [OF st1(2)] Cons.prems(4) by simp
qed simp

section \<open>Composition\<close>

lemma join_all:
  assumes "fits 0 e1 (int (length S))" and "fits 0 e2 (int (length (apply_loop S 0 e1)))"
  shows "\<exists>st. join_loop e2 \<lparr>edit1Queue = e1, joinResult = [], edit1ToEdit2 = 0\<rparr> = Inr st \<and>
    fits 0 (joinResult st @ edit1Queue st) (int (length S)) \<and>
    apply_loop S 0 (joinResult st @ edit1Queue st) = apply_loop (apply_loop S 0 e1) 0 e2"
proof -
  let ?T = "apply_loop S 0 e1" and ?st = "\<lparr>edit1Queue = e1, joinResult = [], edit1ToEdit2 = 0\<rparr>"
  have "js_substring ?T 0 0 = []" "js_substring_from ?T 0 = ?T"
    by (simp_all add: js_substring_def js_substring_from_def Let_def)
  then have "joined S ?T [] ?st"
    using assms(1) by (simp add: joined_def aligned_def)
  with join_loop_joined [of S ?T "[]" ?st e2] assms(2) obtain st where
    st: "join_loop e2 ?st = Inr st" "joined S ?T e2 st" "reached st = ended 0 e2"
    by auto
  have "js_substring ?T x x = []" for x
    by (simp add: js_substring_def Let_def)
  with st(2,3) have "fits 0 (joinResult st @ edit1Queue st) (int (length S))"
    "produced S 0 (joinResult st) = produced ?T 0 e2"
    "apply_loop S (ended 0 (joinResult st)) (edit1Queue st) = js_substring_from ?T (ended 0 e2)"
    by (auto simp: joined_def aligned_def Let_def fits_append)
  with st(1) show ?thesis
    by (simp add: apply_append apply_loop_split [of ?T])
qed

lemma joinEdits_spec:
  assumes "fits 0 e1 (int (length S))" and "fits 0 e2 (int (length (apply_loop S 0 e1)))"
  shows "\<exists>e. joinEdits e1 e2 = Inr e \<and> fits 0 e (int (length S)) \<and> normal e \<and>
    apply_loop S 0 e = apply_loop (apply_loop S 0 e1) 0 e2"
proof -
  obtain n1 where n1: "normalize e1 = Inr n1" "fits 0 n1 (int (length S))" "normal n1" "apply_loop S 0 n1 = apply_loop S 0 e1"
    using normalize_spec [OF assms(1)] by blast
  let ?T = "apply_loop S 0 e1"
  obtain n2 where n2: "normalize e2 = Inr n2" "fits 0 n2 (int (length ?T))" "normal n2" "apply_loop ?T 0 n2 = apply_loop ?T 0 e2"
    using normalize_spec [OF assms(2)] by blast
  have none: "apply_loop s 0 [] = s" for s
    by (simp add: js_substring_from_def js_substring_def Let_def)
  consider (first) "n1 = []" | (second) "n1 \<noteq> []" "n2 = []" | (both) "n1 \<noteq> []" "n2 \<noteq> []"
    by blast
  then show ?thesis
  proof cases
    case first
    then have "?T = S"
      using n1(4) none by simp
    with first n1 n2 show ?thesis
      by (simp add: joinEdits_def oe_isEmpty_def)
  next
    case second
    with n1 n2 none show ?thesis
      by (simp add: joinEdits_def oe_isEmpty_def)
  next
    case both
    obtain st where st: "join_loop n2 \<lparr>edit1Queue = n1, joinResult = [], edit1ToEdit2 = 0\<rparr> = Inr st"
      "fits 0 (joinResult st @ edit1Queue st) (int (length S))"
      "apply_loop S 0 (joinResult st @ edit1Queue st) = apply_loop ?T 0 n2"
      using join_all [of n1 S n2] n1 n2 by auto
    with normalize_spec [OF st(2)] n2(4) both n1(1) n2(1) show ?thesis
      by (auto simp: joinEdits_def oe_isEmpty_def new_OffsetEdit_ok)
  qed
qed

text \<open>
  C0: Composition. For an edit that fits a text and a second edit that fits the edited text, \<open>compose\<close>
  throws nothing and gives one edit that fits the original text, has no empty and no two touching single edits, and
  makes of the text what applying the first edit and then the second makes of it: the invariant stated above
  \<open>joinEdits\<close>.
\<close>

theorem compose_applies_both:
  assumes "fits 0 e1 (int (length s))" and "fits 0 e2 (int (length (oe_apply e1 s)))"
  shows "\<exists>e. compose e2 e1 = Inr e \<and> fits 0 e (int (length s)) \<and> normal e \<and> oe_apply e s = oe_apply e2 (oe_apply e1 s)"
  using joinEdits_spec [of e1 s e2] assms by (simp add: oe_apply_def compose_def)

theorem compose_applies_both_witness:
  "\<exists>e. compose [new_SingleOffsetEdit \<lparr>or_start = 1, or_endExclusive = 4\<rparr> (js ''x'')] [soe_insert 2 (js ''abc'')] = Inr e \<and>
    oe_apply e (js ''0123'') = js ''0xc23''"
proof -
  let ?e1 = "[soe_insert 2 (js ''abc'')]" and ?e2 = "[new_SingleOffsetEdit \<lparr>or_start = 1, or_endExclusive = 4\<rparr> (js ''x'')]"
  have applied: "oe_apply ?e1 (js ''0123'') = js ''01abc23''"
    by (simp add: oe_apply_def soe_insert_def new_SingleOffsetEdit_def or_emptyAt_def js_substring_def js_substring_from_def)
  have "fits 0 ?e1 (int (length (js ''0123'')))" "fits 0 ?e2 (int (length (oe_apply ?e1 (js ''0123''))))"
    unfolding applied by (simp_all add: soe_insert_def new_SingleOffsetEdit_def or_emptyAt_def)
  moreover have "oe_apply ?e2 (js ''01abc23'') = js ''0xc23''"
    by (simp add: oe_apply_def new_SingleOffsetEdit_def js_substring_def js_substring_from_def)
  ultimately show ?thesis
    using compose_applies_both [of ?e1 "js ''0123''" ?e2] applied by metis
qed

end
