(* ===== verification/Offset_Transform.thy ===== *)
theory Offset_Transform
  imports Offset_Compose
begin

text \<open>
  Inverting an edit, rebasing one edit over another and carrying offsets through an edit. The places of the two
  texts are related by \<open>aligned\<close> again, now for the text and the edited text.
\<close>

lemma aligned_start: "fits 0 e (int (length s)) \<Longrightarrow> aligned s (oe_apply e s) 0 e 0"
  by (simp add: aligned_def oe_apply_def js_substring_from_def js_substring_def Let_def)

section \<open>The inverse edit\<close>

lemma inverse_loop_spec:
  assumes "aligned S T p es d"
  shows "\<exists>inv. inverse_loop S d es = Inr inv \<and> fits (p + d) inv (int (length T)) \<and>
    apply_loop T (p + d) inv = js_substring_from S p"
  using assms
proof (induction es arbitrary: p d)
  case Nil
  then show ?case
    by (simp add: aligned_def)
next
  case (Cons e es)
  note e = aligned_edit [OF Cons.prems] and nxt = aligned_next [OF Cons.prems]
  obtain inv where inv: "inverse_loop S (d + growth e) es = Inr inv"
    "fits (edit_end e + (d + growth e)) inv (int (length T))"
    "apply_loop T (edit_end e + (d + growth e)) inv = js_substring_from S (edit_end e)"
    using Cons.IH [OF nxt(1)] by blast
  let ?i = "new_SingleOffsetEdit \<lparr>or_start = edit_start e + d, or_endExclusive = edit_end e + (d + growth e)\<rparr>
      (js_substring S (edit_start e) (edit_end e))"
  have "or_ofStartAndLength (edit_start e + d) (text_length e) =
      Inr \<lparr>or_start = edit_start e + d, or_endExclusive = edit_end e + (d + growth e)\<rparr>"
    unfolding nxt(3) by (simp add: or_ofStartAndLength_def)
  moreover have growing: "edit_start e + d \<le> edit_end e + (d + growth e)"
    unfolding nxt(3) by simp
  ultimately have "inverse_loop S d (e # es) = Inr (?i # inv)"
    using inv(1) by (simp add: growth_def)
  moreover have "0 \<le> p" "fits p (e # es) (int (length S))"
    using Cons.prems by (simp_all add: aligned_def)
  with fits_bounds [OF this(2)]
  have bounds: "0 \<le> p" "p \<le> edit_start e" "edit_start e \<le> edit_end e" "edit_end e \<le> int (length S)"
    by simp_all
  moreover have "fits (p + d) (?i # inv) (int (length T))"
    using inv(2) bounds growing by (simp add: new_SingleOffsetEdit_def)
  moreover have "apply_loop T (p + d) (?i # inv) = js_substring_from S p"
    using inv(3) e(2) bounds by (simp add: new_SingleOffsetEdit_def substring_from_cat)
  ultimately show ?case
    by blast
qed

text \<open>
  The inverse of an edit reverts it: for an edit that fits a text, \<open>inverse\<close> throws nothing, and
  applying the edit it gives to the edited text gives the original text back.
\<close>

theorem inverse_reverts:
  assumes "fits 0 e (int (length s))"
  shows "\<exists>e'. inverse_edit s e = Inr e' \<and> oe_apply e' (oe_apply e s) = s"
proof -
  obtain inv where inv: "inverse_loop s 0 e = Inr inv" "fits 0 inv (int (length (oe_apply e s)))"
    "apply_loop (oe_apply e s) 0 inv = js_substring_from s 0"
    using inverse_loop_spec [OF aligned_start [OF assms]] by auto
  then show ?thesis
    by (simp add: inverse_edit_def new_OffsetEdit_ok oe_apply_def js_substring_from_def js_substring_def Let_def)
qed

theorem inverse_reverts_witness:
  "\<exists>e'. inverse_edit (js ''abc'') [soe_insert 0 (js ''xy''), new_SingleOffsetEdit \<lparr>or_start = 1, or_endExclusive = 3\<rparr> []] = Inr e' \<and>
    oe_apply e' (js ''xya'') = js ''abc''"
proof -
  let ?e = "[soe_insert 0 (js ''xy''), new_SingleOffsetEdit \<lparr>or_start = 1, or_endExclusive = 3\<rparr> []]"
  have "fits 0 ?e (int (length (js ''abc'')))" "oe_apply ?e (js ''abc'') = js ''xya''"
    by (simp_all add: oe_apply_def soe_insert_def new_SingleOffsetEdit_def or_emptyAt_def js_substring_def js_substring_from_def)
  then show ?thesis
    using inverse_reverts [of ?e "js ''abc''"] by metis
qed

lemma new_text_loop_spec:
  assumes "aligned S T p es d"
  shows "\<exists>rs. new_text_loop d es = Inr rs \<and> map (\<lambda>r. or_substring r T) rs = map newText es"
  using assms
proof (induction es arbitrary: p d)
  case (Cons e es)
  note nxt = aligned_next [OF Cons.prems]
  obtain rs where rs: "new_text_loop (d + growth e) es = Inr rs" "map (\<lambda>r. or_substring r T) rs = map newText es"
    using Cons.IH [OF nxt(1)] by blast
  have "or_ofStartAndLength (edit_start e + d) (text_length e) =
      Inr \<lparr>or_start = edit_start e + d, or_endExclusive = edit_end e + (d + growth e)\<rparr>"
    unfolding nxt(3) by (simp add: or_ofStartAndLength_def)
  with rs nxt(2) show ?case
    by (simp add: growth_def or_substring_def)
qed simp

text \<open>
  The ranges \<open>getNewTextRanges\<close> gives are those of the edited text that hold the new texts: there is one
  for every single edit, and cutting it out of the edited text gives that edit's new text.
\<close>

theorem new_text_ranges_hold_new_texts:
  assumes "fits 0 e (int (length s))"
  shows "\<exists>rs. getNewTextRanges e = Inr rs \<and> map (\<lambda>r. or_substring r (oe_apply e s)) rs = map newText e"
  using new_text_loop_spec [OF aligned_start [OF assms]] by (simp add: getNewTextRanges_def)

theorem new_text_ranges_hold_new_texts_witness:
  "\<exists>rs. getNewTextRanges [soe_insert 2 (js ''ab'')] = Inr rs \<and>
    map (\<lambda>r. or_substring r (oe_apply [soe_insert 2 (js ''ab'')] (js ''0123''))) rs = [js ''ab'']"
  using new_text_ranges_hold_new_texts [of "[soe_insert 2 (js ''ab'')]" "js ''0123''"]
  by (simp add: soe_insert_def new_SingleOffsetEdit_def or_emptyAt_def)

section \<open>Rebasing\<close>

abbreviation conflict :: "single_edit \<Rightarrow> single_edit \<Rightarrow> bool" where
  "conflict x y \<equiv> or_intersectsOrTouches (replaceRange x) (replaceRange y)"

lemma conflict_iff: "conflict x y \<longleftrightarrow> edit_start x \<le> edit_end x \<and> edit_start y \<le> edit_end y \<and>
    edit_start x \<le> edit_end y \<and> edit_start y \<le> edit_end x"
  by (auto simp: or_intersectsOrTouches_def Let_def)

lemma fits_later: "fits p es n \<Longrightarrow> y \<in> set es \<Longrightarrow> p \<le> edit_start y \<and> edit_start y \<le> edit_end y"
  by (induction p es n rule: fits.induct) fastforce+

text \<open>Both lists of edits as one sorted list.\<close>

function interleave :: "single_edit list \<Rightarrow> single_edit list \<Rightarrow> single_edit list" where
  "interleave [] ys = ys"
| "interleave (x # xs) [] = x # xs"
| "interleave (x # xs) (y # ys) =
     (if edit_start x < edit_start y then x # interleave xs (y # ys) else y # interleave (x # xs) ys)"
  by pat_completeness auto
termination
  by (relation "measure (\<lambda>(xs, ys). length xs + length ys)") auto

lemma interleave_Nil [simp]: "interleave xs [] = xs"
  by (cases xs) simp_all

lemma interleave_commute:
  "\<forall>x \<in> set xs. \<forall>y \<in> set ys. edit_start x \<noteq> edit_start y \<Longrightarrow> interleave xs ys = interleave ys xs"
  by (induction xs ys rule: interleave.induct) (auto simp: not_less_iff_gr_or_eq)

lemma rebase_before:
  assumes "aligned S T p base d" and "fits p (x # ours) (int (length S))"
    and "base = [] \<or> edit_end x < edit_start (hd base)"
  shows "or_delta d (replaceRange x) = Inr \<lparr>or_start = edit_start x + d, or_endExclusive = edit_end x + d\<rparr>"
    and "aligned S T (edit_end x) base d"
    and "js_substring T (p + d) (edit_start x + d) = js_substring S p (edit_start x)"
proof -
  have bounds: "p \<le> edit_start x" "edit_start x \<le> edit_end x" "edit_end x \<le> int (length S)"
    using fits_bounds [OF assms(2)] by auto
  show "or_delta d (replaceRange x) = Inr \<lparr>or_start = edit_start x + d, or_endExclusive = edit_end x + d\<rparr>"
    using bounds by (simp add: or_delta_def)
  have "edit_end x + d \<le> int (length T)"
  proof (cases base)
    case Nil
    then have "int (length T) - (p + d) = int (length S) - p"
      using assms(1) length_substring_from [of "p + d" T] length_substring_from [of p S] by (simp add: aligned_def)
    with bounds show ?thesis
      by simp
  next
    case (Cons y ys)
    with assms(1,3) aligned_edit(4) [of S T p y ys d] show ?thesis
      by simp
  qed
  with bounds assms(3) aligned_forward [OF assms(1), of "edit_end x + d"] aligned_forward [OF assms(1), of "edit_start x + d"]
  show "aligned S T (edit_end x) base d" "js_substring T (p + d) (edit_start x + d) = js_substring S p (edit_start x)"
    by auto
qed

lemma rebase_push:
  assumes "aligned S T p base d" and "fits p (x # ours) (int (length S))"
    and "base = [] \<or> edit_end x < edit_start (hd base)"
    and "fits (edit_end x + d) ours' (int (length T))" and "apply_loop T (edit_end x + d) ours' = apply_loop S (edit_end x) rest"
  defines "x' \<equiv> new_SingleOffsetEdit \<lparr>or_start = edit_start x + d, or_endExclusive = edit_end x + d\<rparr> (newText x)"
  shows "fits (p + d) (x' # ours') (int (length T))" and "apply_loop T (p + d) (x' # ours') = apply_loop S p (x # rest)"
  using rebase_before [OF assms(1-3)] assms(2,4,5) by (simp_all add: x'_def new_SingleOffsetEdit_def)

lemma rebase_loop_spec:
  assumes "aligned S T p base d" and "fits p ours (int (length S))"
    and "\<forall>x \<in> set ours. \<forall>y \<in> set base. \<not> conflict x y"
  shows "\<exists>ours'. rebase_loop n ours base d = Inr (Some ours') \<and> fits (p + d) ours' (int (length T)) \<and>
    apply_loop T (p + d) ours' = apply_loop S p (interleave ours base)"
  using assms
proof (induction n ours base d arbitrary: p rule: rebase_loop.induct)
  case (1 n base d)
  then show ?case
    by (simp add: aligned_def)
next
  case (2 n x ours d)
  have "fits (edit_end x) ours (int (length S))"
    using "2.prems"(2) by simp
  with "2.IH" [OF rebase_before(2) [OF "2.prems"(1,2)]] obtain ours' where
    "rebase_loop n ours [] d = Inr (Some ours')" "fits (edit_end x + d) ours' (int (length T))"
    "apply_loop T (edit_end x + d) ours' = apply_loop S (edit_end x) ours"
    by auto
  with rebase_push [OF "2.prems"(1,2)] rebase_before(1) [OF "2.prems"(1,2)] show ?case
    by simp
next
  case (3 n x ours y base d)
  have apart: "\<not> conflict x y" and valid: "edit_start x \<le> edit_end x" "edit_start y \<le> edit_end y"
    using "3.prems" by (auto simp: aligned_def)
  show ?case
  proof (cases "edit_start x < edit_start y")
    case True
    with apart valid have before: "y # base = [] \<or> edit_end x < edit_start (hd (y # base))"
      by (auto simp: conflict_iff)
    have "fits (edit_end x) ours (int (length S))" "\<forall>x \<in> set ours. \<forall>y \<in> set (y # base). \<not> conflict x y"
      using "3.prems" by auto
    with "3.IH"(2) [OF apart True rebase_before(2) [OF "3.prems"(1,2) before]] obtain ours' where
      "rebase_loop n ours (y # base) d = Inr (Some ours')" "fits (edit_end x + d) ours' (int (length T))"
      "apply_loop T (edit_end x + d) ours' = apply_loop S (edit_end x) (interleave ours (y # base))"
      by auto
    with rebase_push [OF "3.prems"(1,2) before] rebase_before(1) [OF "3.prems"(1,2) before] apart True show ?thesis
      by simp
  next
    case False
    with apart valid have after: "edit_end y < edit_start x"
      by (auto simp: conflict_iff)
    note y = aligned_edit [OF "3.prems"(1)] and nxt = aligned_next [OF "3.prems"(1)]
    have "fits (edit_end y) (x # ours) (int (length S))"
      using "3.prems"(2) after by simp
    then obtain ours' where ours': "rebase_loop n (x # ours) base (d + growth y) = Inr (Some ours')"
      "fits (edit_end y + (d + growth y)) ours' (int (length T))"
      "apply_loop T (edit_end y + (d + growth y)) ours' = apply_loop S (edit_end y) (interleave (x # ours) base)"
      using "3.IH"(3) [OF apart False, of "edit_end y"] nxt(1) "3.prems"(3) by (auto simp: growth_def)
    have p: "0 \<le> p + d" "p + d \<le> edit_start y + d" "edit_start y + d \<le> edit_end y + (d + growth y)"
      "edit_end y + (d + growth y) \<le> int (length T)"
      using "3.prems"(1) nxt(1,3) by (auto simp: aligned_def)
    have "js_substring T (p + d) (edit_end y + (d + growth y)) = js_substring S p (edit_start y) @ newText y"
      using substring_cat [OF p] y(2) nxt(2) by simp
    then have "apply_loop T (p + d) ours' = apply_loop S p (y # interleave (x # ours) base)"
      using apply_from_earlier [OF ours'(2) p(1)] p(2,3) ours'(3) by simp
    moreover have "fits (p + d) ours' (int (length T))"
      using fits_earlier [OF ours'(2)] p(2,3) by simp
    ultimately show ?thesis
      using ours'(1) apart False by (simp add: growth_def)
  qed
qed

text \<open>An edit that lies before the next one of the other list is in conflict with none of that list.\<close>

lemma before_no_conflict:
  assumes "fits p (y # base) n" and "\<not> conflict x y" and "edit_start x \<le> edit_end x" and "edit_start x \<le> edit_start y"
    and "z \<in> set (y # base)"
  shows "\<not> conflict x z" and "\<not> conflict z x"
proof -
  have "edit_end x < edit_start y"
    using assms(1-4) by (auto simp: conflict_iff)
  moreover have "edit_start y \<le> edit_start z"
    using assms(1,5) fits_later [of "edit_end y" base n z] by auto
  ultimately show "\<not> conflict x z" "\<not> conflict z x"
    by (auto simp: conflict_iff)
qed

text \<open>With \<open>noOverlap\<close> a conflict makes the loop give up; without it the edit in conflict is left out.\<close>

lemma rebase_loop_conflict:
  assumes "fits p ours n" and "fits r base n'" and "\<exists>x \<in> set ours. \<exists>y \<in> set base. conflict x y"
  shows "rebase_loop True ours base d = Inr None"
  using assms
proof (induction True ours base d arbitrary: p r rule: rebase_loop.induct)
  case (3 x ours y base d)
  show ?case
  proof (cases "conflict x y")
    case False
    have x: "fits (edit_end x) ours n" "edit_start x \<le> edit_end x" and y: "fits (edit_end y) base n'" "edit_start y \<le> edit_end y"
      using "3.prems" by simp_all
    show ?thesis
    proof (cases "edit_start x < edit_start y")
      case True
      then have "\<not> conflict x z" if "z \<in> set (y # base)" for z
        using before_no_conflict(1) [OF "3.prems"(2) False x(2) _ that] by simp
      with "3.prems"(3) have "\<exists>x \<in> set ours. \<exists>y \<in> set (y # base). conflict x y"
        unfolding list.set(2) by blast
      with "3.hyps"(2) [OF False True x(1) "3.prems"(2)] x(2) False True show ?thesis
        by (simp add: or_delta_def)
    next
      case after: False
      have "\<not> conflict y x"
        using False by (auto simp: conflict_iff)
      then have "\<not> conflict z y" if "z \<in> set (x # ours)" for z
        using before_no_conflict(2) [OF "3.prems"(1) _ y(2) _ that] after by simp
      with "3.prems"(3) have "\<exists>x \<in> set (x # ours). \<exists>y \<in> set base. conflict x y"
        unfolding list.set(2) by blast
      with "3.hyps"(3) [OF False after "3.prems"(1) y(1)] False after show ?thesis
        by simp
    qed
  qed simp
qed simp_all

lemma rebase_skip_base:
  assumes "\<forall>x \<in> set ours. edit_end y < edit_start x" and "edit_start y \<le> edit_end y"
  shows "rebase_loop n ours (y # base) d = rebase_loop n ours base (d + growth y)"
  using assms by (cases ours) (auto simp: conflict_iff growth_def)

lemma rebase_loop_skips:
  assumes "fits p ours n" and "fits r base n'"
  shows "rebase_loop False ours base d = rebase_loop False (filter (\<lambda>x. \<forall>y \<in> set base. \<not> conflict x y) ours) base d"
  using assms
proof (induction False ours base d arbitrary: p r rule: rebase_loop.induct)
  case (3 x ours y base d)
  let ?free = "filter (\<lambda>x. \<forall>y \<in> set (y # base). \<not> conflict x y)"
  have x: "fits (edit_end x) ours n" "edit_start x \<le> edit_end x" and y: "fits (edit_end y) base n'" "edit_start y \<le> edit_end y"
    using "3.prems" by simp_all
  consider (conf) "conflict x y" | (before) "\<not> conflict x y" "edit_start x < edit_start y"
    | (after) "\<not> conflict x y" "\<not> edit_start x < edit_start y"
    by blast
  then show ?case
  proof cases
    case conf
    with "3.hyps"(1) [OF conf _ x(1) "3.prems"(2)] show ?thesis
      by simp
  next
    case before
    then have "\<forall>z \<in> set (y # base). \<not> conflict x z"
      using before_no_conflict(1) [OF "3.prems"(2) _ x(2)] by auto
    with "3.hyps"(2) [OF before x(1) "3.prems"(2)] before show ?thesis
      by simp
  next
    case after
    have late: "edit_end y < edit_start z" if "z \<in> set (x # ours)" for z
      using that after y(2) x fits_later [OF "3.prems"(1) that] fits_later [OF x(1), of z] by (auto simp: conflict_iff)
    let ?later = "filter (\<lambda>x. \<forall>y \<in> set base. \<not> conflict x y)"
    have same: "?free (x # ours) = ?later (x # ours)"
      using late by (intro filter_cong refl) (auto simp: conflict_iff not_le)
    have skip: "rebase_loop False zs (y # base) d = rebase_loop False zs base (d + growth y)"
      if "set zs \<subseteq> set (x # ours)" for zs
      using late that y(2) by (intro rebase_skip_base) auto
    have "rebase_loop False (x # ours) base (d + growth y) = rebase_loop False (?later (x # ours)) base (d + growth y)"
      using "3.hyps"(3) [OF after "3.prems"(1) y(1)] by (simp only: growth_def)
    then show ?thesis
      unfolding same skip [OF order_refl] skip [OF filter_is_subset] .
  qed
qed simp_all

lemma rebase_from_start:
  "fits 0 base (int (length s)) \<Longrightarrow> fits 0 e (int (length s)) \<Longrightarrow> \<forall>x \<in> set e. \<forall>y \<in> set base. \<not> conflict x y \<Longrightarrow>
     \<exists>e'. rebase_loop n e base 0 = Inr (Some e') \<and> fits 0 e' (int (length (oe_apply base s))) \<and>
       apply_loop (oe_apply base s) 0 e' = apply_loop s 0 (interleave e base)"
  using rebase_loop_spec [of s "oe_apply base s" 0 base 0 e n] aligned_start [of base s] by simp

lemma fits_filter: "fits p es n \<Longrightarrow> fits p (filter Q es) n"
  by (induction p es n rule: fits.induct) (auto intro: fits_earlier)

text \<open>
  Rebasing merges. For two edits that fit the same text, \<open>tryRebase\<close> without \<open>noOverlap\<close> throws nothing
  and gives an edit that, applied after the base edit, makes of the text what the single edits of both make of it
  in order of their offsets, without those of ours that intersect or touch one of the base.
\<close>

theorem rebase_merges:
  assumes "fits 0 e (int (length s))" and "fits 0 base (int (length s))"
  shows "\<exists>e'. tryRebase base False e = Inr (Some e') \<and> oe_apply e' (oe_apply base s) =
    oe_apply (interleave (filter (\<lambda>x. \<forall>y \<in> set base. \<not> conflict x y) e) base) s"
proof -
  let ?e = "filter (\<lambda>x. \<forall>y \<in> set base. \<not> conflict x y) e"
  have "\<forall>x \<in> set ?e. \<forall>y \<in> set base. \<not> conflict x y"
    by simp
  from rebase_from_start [OF assms(2) fits_filter [OF assms(1)] this, of False] obtain e' where
    "rebase_loop False ?e base 0 = Inr (Some e')" "fits 0 e' (int (length (oe_apply base s)))"
    "apply_loop (oe_apply base s) 0 e' = apply_loop s 0 (interleave ?e base)"
    by blast
  then show ?thesis
    using rebase_loop_skips [OF assms] by (simp add: tryRebase_def new_OffsetEdit_ok oe_apply_def)
qed

theorem rebase_merges_witness:
  "\<exists>e'. tryRebase [soe_insert 1 (js ''B'')] False [soe_insert 1 (js ''x''), soe_insert 3 (js ''y'')] = Inr (Some e') \<and>
    oe_apply e' (oe_apply [soe_insert 1 (js ''B'')] (js ''0123'')) = js ''0B12y3''"
proof -
  let ?e = "[soe_insert 1 (js ''x''), soe_insert 3 (js ''y'')]" and ?b = "[soe_insert 1 (js ''B'')]"
  have "fits 0 ?e (int (length (js ''0123'')))" "fits 0 ?b (int (length (js ''0123'')))"
    by (simp_all add: soe_insert_def new_SingleOffsetEdit_def or_emptyAt_def)
  moreover have "interleave (filter (\<lambda>x. \<forall>y \<in> set ?b. \<not> conflict x y) ?e) ?b = [soe_insert 1 (js ''B''), soe_insert 3 (js ''y'')]"
    by (simp add: soe_insert_def new_SingleOffsetEdit_def or_emptyAt_def or_intersectsOrTouches_def)
  moreover have "oe_apply [soe_insert 1 (js ''B''), soe_insert 3 (js ''y'')] (js ''0123'') = js ''0B12y3''"
    by (simp add: oe_apply_def soe_insert_def new_SingleOffsetEdit_def or_emptyAt_def js_substring_def js_substring_from_def)
  ultimately show ?thesis
    using rebase_merges [of ?e "js ''0123''" ?b] by simp
qed

lemma tryRebase_free:
  assumes "fits 0 e (int (length s))" and "fits 0 base (int (length s))" and "\<forall>x \<in> set e. \<forall>y \<in> set base. \<not> conflict x y"
  shows "\<exists>e'. tryRebase base True e = Inr (Some e') \<and> oe_apply e' (oe_apply base s) = oe_apply (interleave e base) s"
  using rebase_from_start [OF assms(2,1,3), of True] new_OffsetEdit_ok by (auto simp: tryRebase_def oe_apply_def)

text \<open>
  C8: Concurrent edits converge. For two edits of the same text, \<open>tryRebase\<close> with \<open>noOverlap\<close> gives
  \<open>undefined\<close> in both directions when a single edit of one intersects or touches one of the other; otherwise each
  is rebased over the other, and both orders (one edit, then the other rebased) give the same text.
\<close>

theorem rebased_edits_converge:
  assumes "fits 0 a (int (length s))" and "fits 0 b (int (length s))"
  shows "if \<exists>x \<in> set a. \<exists>y \<in> set b. conflict x y
    then tryRebase b True a = Inr None \<and> tryRebase a True b = Inr None
    else \<exists>a' b'. tryRebase b True a = Inr (Some a') \<and> tryRebase a True b = Inr (Some b') \<and>
      oe_apply a' (oe_apply b s) = oe_apply b' (oe_apply a s)"
proof (cases "\<exists>x \<in> set a. \<exists>y \<in> set b. conflict x y")
  case True
  moreover from this have "\<exists>y \<in> set b. \<exists>x \<in> set a. conflict y x"
    by (auto simp: conflict_iff)
  ultimately show ?thesis
    using rebase_loop_conflict [OF assms] rebase_loop_conflict [OF assms(2,1)] by (simp add: tryRebase_def)
next
  case False
  then have free: "\<forall>x \<in> set a. \<forall>y \<in> set b. \<not> conflict x y" "\<forall>y \<in> set b. \<forall>x \<in> set a. \<not> conflict y x"
    by (auto simp: conflict_iff)
  have "edit_start x \<noteq> edit_start y" if "x \<in> set a" "y \<in> set b" for x y
  proof -
    have "\<not> conflict x y"
      using free(1) that by blast
    with fits_later [OF assms(1) that(1)] fits_later [OF assms(2) that(2)] show ?thesis
      by (auto simp: conflict_iff)
  qed
  then have "interleave a b = interleave b a"
    by (intro interleave_commute) blast
  with tryRebase_free [OF assms free(1)] tryRebase_free [OF assms(2,1) free(2)] False show ?thesis
    by auto
qed

theorem rebased_edits_converge_witness:
  "\<exists>a' b'. tryRebase [soe_insert 2 (js ''b'')] True [soe_insert 0 (js ''a'')] = Inr (Some a') \<and>
    tryRebase [soe_insert 0 (js ''a'')] True [soe_insert 2 (js ''b'')] = Inr (Some b') \<and>
    oe_apply a' (oe_apply [soe_insert 2 (js ''b'')] (js ''012'')) = oe_apply b' (oe_apply [soe_insert 0 (js ''a'')] (js ''012''))"
  using rebased_edits_converge [of "[soe_insert 0 (js ''a'')]" "js ''012''" "[soe_insert 2 (js ''b'')]"]
  by (simp add: soe_insert_def new_SingleOffsetEdit_def or_emptyAt_def or_intersectsOrTouches_def)

section \<open>Carrying offsets through an edit\<close>

lemma to_offset_lower: "fits p es n \<Longrightarrow> p \<le> x \<Longrightarrow> p + d \<le> to_offset_loop x d es"
proof (induction es arbitrary: p d)
  case (Cons e es)
  then show ?case
    using Cons.IH [of "edit_end e" "d + growth e"] by (auto simp: growth_def or_length_def)
qed simp

lemma to_offset_mono: "fits p es n \<Longrightarrow> x \<le> y \<Longrightarrow> to_offset_loop x d es \<le> to_offset_loop y d es"
proof (induction es arbitrary: p d)
  case (Cons e es)
  have es: "fits (edit_end e) es n" "edit_start e \<le> edit_end e"
    using Cons.prems(1) by simp_all
  have lower: "edit_start e + d \<le> to_offset_loop y (d + growth e) es" if "edit_end e \<le> y"
    using to_offset_lower [OF es(1) that, of "d + growth e"] by (simp add: growth_def or_length_def)
  show ?case
    using Cons.IH [OF es(1) Cons.prems(2), of "d + growth e"] lower Cons.prems(2) es(2) by (auto simp: growth_def)
qed simp

text \<open>
  C38: Offsets keep their order when they are carried through an edit, so that the constructor call in
  \<open>applyToOffsetRange\<close> never throws: a range with ordered bounds is mapped to a range with ordered bounds.
\<close>

theorem mapped_range_valid:
  assumes "fits 0 e n" and "valid_offset_range r"
  shows "\<exists>r'. applyToOffsetRange r e = Inr r' \<and> valid_offset_range r' \<and>
    or_start r' = applyToOffset (or_start r) e \<and> or_endExclusive r' = applyToOffset (or_endExclusive r) e"
  using to_offset_mono [OF assms(1), of "or_start r" "or_endExclusive r" 0] assms(2)
  by (simp add: applyToOffsetRange_def applyToOffset_def valid_offset_range_def)

theorem mapped_range_valid_witness:
  "\<exists>r'. applyToOffsetRange (mk_offset_range 1 3) [new_SingleOffsetEdit (mk_offset_range 0 2) []] = Inr r' \<and> valid_offset_range r'"
  using mapped_range_valid [of "[new_SingleOffsetEdit (mk_offset_range 0 2) []]" 3 "mk_offset_range 1 3"]
  by (force simp: new_SingleOffsetEdit_def valid_offset_range_def)

text \<open>An offset no single edit replaces.\<close>

definition kept :: "int \<Rightarrow> single_edit list \<Rightarrow> bool" where
  "kept x es \<longleftrightarrow> (\<forall>e \<in> set es. \<not> or_contains (replaceRange e) x)"

lemma kept_Cons [simp]: "kept x (e # es) \<longleftrightarrow> (x < edit_start e \<or> edit_end e \<le> x) \<and> kept x es"
  by (auto simp: kept_def or_contains_def)

lemma get_of_substring:
  assumes "js_substring s a b = js_substring t c (c + (b - a))" and "0 \<le> a" and "a \<le> x" and "x < b" and "b \<le> int (length s)"
    and "0 \<le> c" and "c + (b - a) \<le> int (length t)"
  shows "js_get s x = js_get t (c + (x - a))"
proof -
  have "take (nat (b - a)) (drop (nat a) s) ! nat (x - a) = take (nat (b - a)) (drop (nat c) t) ! nat (x - a)"
    using assms by (simp add: js_substring_in_range)
  moreover have "nat a + nat (x - a) = nat x" "nat c + nat (x - a) = nat (c + (x - a))"
    using assms(2-4,6) by (simp_all add: nat_add_distrib [symmetric])
  ultimately have "s ! nat x = t ! nat (c + (x - a))"
    using assms by (simp add: nth_drop)
  then show ?thesis
    using assms by (simp add: js_get_def)
qed

lemma to_offset_char:
  assumes "aligned S T p es d" and "p \<le> x" and "x < int (length S)" and "kept x es"
  shows "js_get T (to_offset_loop x d es) = js_get S x"
  using assms
proof (induction es arbitrary: p d)
  case Nil
  then have eq: "js_substring_from T (p + d) = js_substring_from S p" and bounds: "0 \<le> p" "0 \<le> p + d" "p + d \<le> int (length T)"
    by (auto simp: aligned_def)
  then have "int (length T) - (p + d) = int (length S) - p"
    using Nil.prems(2,3) length_substring_from [of "p + d" T] length_substring_from [of p S] by simp
  then show ?case
    using get_of_substring [of S p "int (length S)" T "p + d" x] eq bounds Nil.prems(2,3)
    by (simp add: js_substring_from_def algebra_simps)
next
  case (Cons e es)
  note e = aligned_edit [OF Cons.prems(1)] and nxt = aligned_next [OF Cons.prems(1)]
  show ?case
  proof (cases "edit_start e \<le> x")
    case True
    with Cons.prems Cons.IH [OF nxt(1)] show ?thesis
      by (simp add: growth_def)
  next
    case False
    have fits: "fits p (e # es) (int (length S))" and "0 \<le> p" "0 \<le> p + d"
      using Cons.prems(1) by (simp_all add: aligned_def)
    with fits_bounds [OF fits] have "0 \<le> p" "0 \<le> p + d" "edit_start e \<le> int (length S)"
      by simp_all
    with False e(2,4) Cons.prems(2) show ?thesis
      using get_of_substring [of S p "edit_start e" T "p + d" x] by (simp add: algebra_simps)
  qed
qed

lemma inverse_of_to_offset:
  assumes "fits p es n" and "p \<le> x" and "kept x es"
  shows "inverse_offset_loop (to_offset_loop x d es) d es = x"
  using assms
proof (induction es arbitrary: p d)
  case (Cons e es)
  show ?case
  proof (cases "edit_start e \<le> x")
    case True
    with Cons.prems have past: "edit_end e \<le> x" and es: "fits (edit_end e) es n" "edit_start e \<le> edit_end e" "kept x es"
      by auto
    have "edit_end e + (d + growth e) \<le> to_offset_loop x (d + growth e) es"
      using to_offset_lower [OF es(1) past] .
    then have "edit_start e + text_length e \<le> to_offset_loop x (d + growth e) es - d"
      by (simp add: growth_def or_length_def)
    with Cons.IH [OF es(1) past es(3), of "d + growth e"] True past show ?thesis
      by (simp add: growth_def)
  qed simp
qed simp

text \<open>
  An offset follows its character. For an edit that fits a text and an offset of the text that no single
  edit replaces, the edited text has at the offset given by \<open>applyToOffset\<close> the character the text has at the
  offset, and \<open>applyInverseToOffset\<close> leads back to the offset.
\<close>

theorem offset_follows_character:
  assumes "fits 0 e (int (length s))" and "0 \<le> x" and "x < int (length s)" and "kept x e"
  shows "js_get (oe_apply e s) (applyToOffset x e) = js_get s x \<and> applyInverseToOffset (applyToOffset x e) e = x"
  using to_offset_char [OF aligned_start [OF assms(1)] assms(2-4)] inverse_of_to_offset [OF assms(1,2,4), of 0]
  by (simp add: applyToOffset_def applyInverseToOffset_def)

theorem offset_follows_character_witness:
  "js_get (oe_apply [new_SingleOffsetEdit (mk_offset_range 0 1) (js ''xyz'')] (js ''ab''))
     (applyToOffset 1 [new_SingleOffsetEdit (mk_offset_range 0 1) (js ''xyz'')]) = js_get (js ''ab'') 1"
proof -
  let ?e = "[new_SingleOffsetEdit (mk_offset_range 0 1) (js ''xyz'')]"
  have "fits 0 ?e (int (length (js ''ab'')))" "kept 1 ?e"
    by (simp_all add: new_SingleOffsetEdit_def kept_def or_contains_def)
  then show ?thesis
    using offset_follows_character [of ?e "js ''ab''" 1] by simp
qed

end
