(* ===== verification/Data_Grid.thy ===== *)
theory Data_Grid
  imports Layout_Manager
begin

text \<open>
  The data grid of \<open>src/vs/workbench/browser/positronDataGrid/classes/dataGridInstance.tsx\<close>: its settings, scrolling,
  cursor, selection of cells, columns and rows, sort keys and clipboard data. It owns two layout managers, those
  of \<open>Layout_Manager\<close>. The abstract getters \<open>columns\<close> and \<open>rows\<close> of a subclass are two fields that no method
  changes. The calls of the abstract \<open>fetchData\<close> and \<open>sortData\<close> and the events fired are recorded in a log.

  The asynchronous methods change the state before they first wait for data: what follows an await of
  \<open>fetchData\<close> only fires events, and the other awaits are of functions that are already complete. A method is
  therefore one step here; in the log its events follow its calls. The default sizes are positive: a size of 0,
  for which a lookup in the layout manager gives an entry with the index \<open>NaN\<close>, counts as no entry.
\<close>

section \<open>Selections\<close>

record cell_selection_range =
  firstColumnIndex :: int
  firstRowIndex :: int
  lastColumnIndex :: int
  lastRowIndex :: int

definition new_CellSelectionRange :: "int \<Rightarrow> int \<Rightarrow> int \<Rightarrow> int \<Rightarrow> cell_selection_range" where
  "new_CellSelectionRange fc fr lc lr =
     \<lparr>firstColumnIndex = fc, firstRowIndex = fr, lastColumnIndex = lc, lastRowIndex = lr\<rparr>"

definition csr_contains :: "int \<Rightarrow> int \<Rightarrow> cell_selection_range \<Rightarrow> bool" where
  "csr_contains columnIndex rowIndex r \<longleftrightarrow> columnIndex \<ge> firstColumnIndex r \<and> columnIndex \<le> lastColumnIndex r \<and>
     rowIndex \<ge> firstRowIndex r \<and> rowIndex \<le> lastRowIndex r"

record selection_range =
  firstIndex :: int
  lastIndex :: int

definition new_SelectionRange :: "int \<Rightarrow> int \<Rightarrow> selection_range" where
  "new_SelectionRange f l = \<lparr>firstIndex = f, lastIndex = l\<rparr>"

definition sr_contains :: "int \<Rightarrow> selection_range \<Rightarrow> bool" where
  "sr_contains index r \<longleftrightarrow> index \<ge> firstIndex r \<and> index \<le> lastIndex r"

text \<open>A JavaScript \<open>Set\<close> of numbers: a list without duplicates, in the order of insertion.\<close>

type_synonym selection_indexes = "int list"

definition si_add :: "int \<Rightarrow> selection_indexes \<Rightarrow> selection_indexes" where
  "si_add index s = (if index \<in> set s then s else s @ [index])"

definition new_SelectionIndexes :: "int list \<Rightarrow> selection_indexes" where
  "new_SelectionIndexes indexes = fold si_add indexes []"

definition si_has :: "int \<Rightarrow> selection_indexes \<Rightarrow> bool" where
  "si_has index s \<longleftrightarrow> index \<in> set s"

definition si_isEmpty :: "selection_indexes \<Rightarrow> bool" where
  "si_isEmpty s \<longleftrightarrow> length s = 0"

definition si_delete :: "int \<Rightarrow> selection_indexes \<Rightarrow> selection_indexes" where
  "si_delete index s = filter (\<lambda>i. i \<noteq> index) s"

text \<open>\<open>max\<close> of an empty set is minus infinity, here \<open>None\<close>.\<close>

definition si_max :: "selection_indexes \<Rightarrow> int option" where
  "si_max s = (if s = [] then None else Some (fold max (tl s) (hd s)))"

definition si_sortedArray :: "selection_indexes \<Rightarrow> int list" where
  "si_sortedArray s = sort s"

text \<open>The array literal starts with one element, the difference of the bounds.\<close>

definition sr_indexes :: "selection_range \<Rightarrow> selection_indexes" where
  "sr_indexes r = new_SelectionIndexes ((lastIndex r - firstIndex r) # [firstIndex r..lastIndex r])"

datatype clipboard_data =
    ClipboardCell int int
  | ClipboardCellRange int int int int
  | ClipboardColumnRange int int
  | ClipboardColumnIndexes "int list"
  | ClipboardRowRange int int
  | ClipboardRowIndexes "int list"

datatype mouse_selection_type = Single | Range_selection | Multi

datatype extend_column_selection_by = ByColumn | ByColumnPage | ByColumnScreen

datatype extend_row_selection_by = ByRow | ByRowPage | ByRowScreen

record column_sort_key =
  sortIndex :: int
  sk_columnIndex :: int
  ascending :: bool

definition new_ColumnSortKeyDescriptor :: "int \<Rightarrow> int \<Rightarrow> bool \<Rightarrow> column_sort_key" where
  "new_ColumnSortKeyDescriptor i c a = \<lparr>sortIndex = i, sk_columnIndex = c, ascending = a\<rparr>"

datatype grid_effect = FetchData | SortData "column_sort_key list" | DidUpdate | DidChangeColumnSorting bool

section \<open>The grid\<close>

record data_grid_options =
  opt_columnHeaders :: bool
  opt_columnHeadersHeight :: "int option"
  opt_rowHeaders :: bool
  opt_rowHeadersWidth :: "int option"
  opt_rowHeadersResize :: "bool option"
  opt_defaultColumnWidth :: int
  opt_defaultRowHeight :: int
  opt_columnResize :: bool
  opt_minimumColumnWidth :: "int option"
  opt_maximumColumnWidth :: "int option"
  opt_rowResize :: bool
  opt_minimumRowHeight :: "int option"
  opt_maximumRowHeight :: "int option"
  opt_horizontalScrollbar :: bool
  opt_verticalScrollbar :: bool
  opt_scrollbarThickness :: "int option"
  opt_scrollbarOverscroll :: "int option"
  opt_useEditorFont :: bool
  opt_automaticLayout :: bool
  opt_rowsMargin :: "int option"
  opt_cellBorders :: "bool option"
  opt_horizontalCellPadding :: "int option"
  opt_cursorInitiallyHidden :: "bool option"
  opt_internalCursor :: "bool option"
  opt_cursorOffset :: "int option"
  opt_selection :: "bool option"

record grid_settings =
  columnHeaders :: bool
  columnHeadersHeight :: int
  rowHeaders :: bool
  rowHeadersWidth :: int
  rowHeadersResize :: bool
  columnResize :: bool
  minimumColumnWidth :: int
  maximumColumnWidth :: int
  defaultColumnWidth :: int
  rowResize :: bool
  minimumRowHeight :: int
  maximumRowHeight :: int
  defaultRowHeight :: int
  horizontalScrollbar :: bool
  verticalScrollbar :: bool
  scrollbarThickness :: int
  scrollbarOverscroll :: int
  useEditorFont :: bool
  automaticLayout :: bool
  rowsMargin :: int
  cellBorders :: bool
  horizontalCellPadding :: int
  cursorInitiallyHidden :: bool
  internalCursor :: bool
  cursorOffset :: int
  selection :: bool

record data_grid = grid_settings +
  dg_columns :: int
  dg_rows :: int
  dg_focused :: bool
  dg_width :: int
  dg_height :: int
  horizontalScrollOffset :: int
  verticalScrollOffset :: int
  cursorColumnIndex :: int
  cursorRowIndex :: int
  cellSelectionRange :: "cell_selection_range option"
  columnSelectionRange :: "selection_range option"
  columnSelectionIndexes :: "selection_indexes option"
  rowSelectionRange :: "selection_range option"
  rowSelectionIndexes :: "selection_indexes option"
  columnLayoutManager :: layout_manager
  rowLayoutManager :: layout_manager
  columnSortKeys :: "(int \<times> column_sort_key) list"
  dg_log :: "grid_effect list"

abbreviation or_else :: "'a option \<Rightarrow> 'a \<Rightarrow> 'a" where
  "or_else x d \<equiv> (case x of None \<Rightarrow> d | Some y \<Rightarrow> y)"

definition new_DataGridInstance :: "data_grid_options \<Rightarrow> int \<Rightarrow> int \<Rightarrow> data_grid" where
  "new_DataGridInstance options columns rows =
     (let hidden = or_else (opt_cursorInitiallyHidden options) False; internal = or_else (opt_internalCursor options) True
      in \<lparr>columnHeaders = opt_columnHeaders options,
        columnHeadersHeight = (if opt_columnHeaders options then or_else (opt_columnHeadersHeight options) 0 else 0),
        rowHeaders = opt_rowHeaders options,
        rowHeadersWidth = (if opt_rowHeaders options then or_else (opt_rowHeadersWidth options) 0 else 0),
        rowHeadersResize = (if opt_rowHeaders options then or_else (opt_rowHeadersResize options) False else False),
        columnResize = opt_columnResize options,
        minimumColumnWidth = or_else (opt_minimumColumnWidth options) (opt_defaultColumnWidth options),
        maximumColumnWidth = or_else (opt_maximumColumnWidth options) (opt_defaultColumnWidth options),
        defaultColumnWidth = opt_defaultColumnWidth options,
        rowResize = opt_rowResize options,
        minimumRowHeight = or_else (opt_minimumRowHeight options) (opt_defaultRowHeight options),
        maximumRowHeight = or_else (opt_maximumRowHeight options) (opt_defaultRowHeight options),
        defaultRowHeight = opt_defaultRowHeight options,
        horizontalScrollbar = opt_horizontalScrollbar options,
        verticalScrollbar = opt_verticalScrollbar options,
        scrollbarThickness = or_else (opt_scrollbarThickness options) 0,
        scrollbarOverscroll = or_else (opt_scrollbarOverscroll options) 0,
        useEditorFont = opt_useEditorFont options,
        automaticLayout = opt_automaticLayout options,
        rowsMargin = or_else (opt_rowsMargin options) 0,
        cellBorders = or_else (opt_cellBorders options) True,
        horizontalCellPadding = or_else (opt_horizontalCellPadding options) 0,
        cursorInitiallyHidden = hidden,
        internalCursor = internal,
        cursorOffset = (if internal then or_else (opt_cursorOffset options) 0 else 0),
        selection = or_else (opt_selection options) True,
        dg_columns = columns, dg_rows = rows, dg_focused = False, dg_width = 0, dg_height = 0,
        horizontalScrollOffset = 0, verticalScrollOffset = 0,
        cursorColumnIndex = (if hidden then -1 else 0), cursorRowIndex = (if hidden then -1 else 0),
        cellSelectionRange = None, columnSelectionRange = None, columnSelectionIndexes = None,
        rowSelectionRange = None, rowSelectionIndexes = None,
        columnLayoutManager = new_LayoutManager (opt_defaultColumnWidth options),
        rowLayoutManager = new_LayoutManager (opt_defaultRowHeight options),
        columnSortKeys = [], dg_log = []\<rparr>)"

definition fire_update :: "data_grid \<Rightarrow> data_grid" where
  "fire_update g = g\<lparr>dg_log := dg_log g @ [DidUpdate]\<rparr>"

definition fetchData :: "data_grid \<Rightarrow> data_grid" where
  "fetchData g = g\<lparr>dg_log := dg_log g @ [FetchData]\<rparr>"

section \<open>Measures\<close>

definition scrollWidth :: "data_grid \<Rightarrow> int result" where
  "scrollWidth g = bind_result (lm_size (columnLayoutManager g)) (\<lambda>size. Inr (size + scrollbarOverscroll g))"

definition scrollHeight :: "data_grid \<Rightarrow> int result" where
  "scrollHeight g =
     bind_result (lm_size (rowLayoutManager g)) (\<lambda>size. Inr ((rowsMargin g * 2) + size + scrollbarOverscroll g))"

definition layoutWidth :: "data_grid \<Rightarrow> int" where
  "layoutWidth g =
     (let w = dg_width g;
          w = (if rowHeaders g then w - rowHeadersWidth g else w)
      in if verticalScrollbar g then w - scrollbarThickness g else w)"

definition layoutHeight :: "data_grid \<Rightarrow> int" where
  "layoutHeight g =
     (let h = dg_height g;
          h = (if columnHeaders g then h - columnHeadersHeight g else h)
      in if horizontalScrollbar g then h - scrollbarThickness g else h)"

definition pageWidth :: "data_grid \<Rightarrow> int" where
  "pageWidth g = layoutWidth g"

definition pageHeight :: "data_grid \<Rightarrow> int" where
  "pageHeight g = layoutHeight g"

definition layoutRight :: "data_grid \<Rightarrow> int" where
  "layoutRight g = horizontalScrollOffset g + layoutWidth g"

definition layoutBottom :: "data_grid \<Rightarrow> int" where
  "layoutBottom g = verticalScrollOffset g + layoutHeight g"

text \<open>\<open>Math.ceil\<close> of a quotient.\<close>

definition ceil_div :: "int \<Rightarrow> int \<Rightarrow> int" where
  "ceil_div a b = - ((- a) div b)"

definition screenColumns :: "data_grid \<Rightarrow> int" where
  "screenColumns g = ceil_div (dg_width g) (minimumColumnWidth g)"

definition screenRows :: "data_grid \<Rightarrow> int" where
  "screenRows g = ceil_div (dg_height g) (minimumRowHeight g)"

definition maximumHorizontalScrollOffset :: "data_grid \<Rightarrow> int result" where
  "maximumHorizontalScrollOffset g =
     bind_result (scrollWidth g) (\<lambda>w. Inr (if w \<le> layoutWidth g then 0 else w - layoutWidth g))"

definition maximumVerticalScrollOffset :: "data_grid \<Rightarrow> int result" where
  "maximumVerticalScrollOffset g =
     bind_result (scrollHeight g) (\<lambda>h. Inr (if h \<le> layoutHeight g then 0 else h - layoutHeight g))"

definition found_entry :: "found \<Rightarrow> layout_entry option" where
  "found_entry f = (case f of Found e \<Rightarrow> Some e | NotFound \<Rightarrow> None | FoundNaN \<Rightarrow> None)"

text \<open>The descriptors are pairs of an index and an offset; a search updates the layout manager's cache.\<close>

definition firstColumn :: "data_grid \<Rightarrow> (int \<times> int) option \<times> data_grid" where
  "firstColumn g =
     (case findLayoutEntry (horizontalScrollOffset g) (columnLayoutManager g) of (f, lm) \<Rightarrow>
        (map_option (\<lambda>e. (le_index e, le_start e)) (found_entry f), g\<lparr>columnLayoutManager := lm\<rparr>))"

definition firstRow :: "data_grid \<Rightarrow> (int \<times> int) option \<times> data_grid" where
  "firstRow g =
     (case findLayoutEntry (verticalScrollOffset g) (rowLayoutManager g) of (f, lm) \<Rightarrow>
        (map_option (\<lambda>e. (le_index e, le_start e)) (found_entry f), g\<lparr>rowLayoutManager := lm\<rparr>))"

definition getColumn :: "int \<Rightarrow> data_grid \<Rightarrow> (int \<times> int) option" where
  "getColumn columnIndex g =
     map_option (\<lambda>e. (le_index e, le_start e)) (getLayoutEntry columnIndex (columnLayoutManager g))"

definition getRow :: "int \<Rightarrow> data_grid \<Rightarrow> (int \<times> int) option" where
  "getRow rowIndex g = map_option (\<lambda>e. (le_index e, le_start e)) (getLayoutEntry rowIndex (rowLayoutManager g))"

definition getColumnWidth :: "int \<Rightarrow> data_grid \<Rightarrow> int" where
  "getColumnWidth columnIndex g =
     (case getLayoutEntry columnIndex (columnLayoutManager g) of None \<Rightarrow> 0 | Some e \<Rightarrow> le_size e)"

definition getRowHeight :: "int \<Rightarrow> data_grid \<Rightarrow> int option" where
  "getRowHeight rowIndex g = map_option le_size (getLayoutEntry rowIndex (rowLayoutManager g))"

definition isColumnSorting :: "data_grid \<Rightarrow> bool" where
  "isColumnSorting g \<longleftrightarrow> length (columnSortKeys g) > 0"

section \<open>Focus, cursor and sizes\<close>

definition setFocused :: "bool \<Rightarrow> data_grid \<Rightarrow> data_grid" where
  "setFocused focused g = (if dg_focused g \<noteq> focused then fire_update (g\<lparr>dg_focused := focused\<rparr>) else g)"

definition setCursorPosition :: "int \<Rightarrow> int \<Rightarrow> data_grid \<Rightarrow> data_grid" where
  "setCursorPosition c r g =
     (if c \<noteq> cursorColumnIndex g \<or> r \<noteq> cursorRowIndex g
      then fire_update (g\<lparr>cursorColumnIndex := c, cursorRowIndex := r\<rparr>) else g)"

definition setCursorColumn :: "int \<Rightarrow> data_grid \<Rightarrow> data_grid" where
  "setCursorColumn c g = (if c \<noteq> cursorColumnIndex g then fire_update (g\<lparr>cursorColumnIndex := c\<rparr>) else g)"

definition setCursorRow :: "int \<Rightarrow> data_grid \<Rightarrow> data_grid" where
  "setCursorRow r g = (if r \<noteq> cursorRowIndex g then fire_update (g\<lparr>cursorRowIndex := r\<rparr>) else g)"

definition showCursor :: "data_grid \<Rightarrow> bool \<times> data_grid" where
  "showCursor g =
     (if cursorInitiallyHidden g \<and> cursorColumnIndex g = -1 \<and> cursorRowIndex g = -1
      then (True, setCursorPosition 0 0 g) else (False, g))"

definition setColumnWidth :: "int \<Rightarrow> int \<Rightarrow> data_grid \<Rightarrow> data_grid result" where
  "setColumnWidth columnIndex columnWidth g =
     (if \<not> columnResize g then Inr g
      else bind_result (setLayoutOverride columnIndex columnWidth (columnLayoutManager g)) (\<lambda>lm.
             Inr (fire_update (fetchData (g\<lparr>columnLayoutManager := lm\<rparr>)))))"

definition setRowHeight :: "int \<Rightarrow> int \<Rightarrow> data_grid \<Rightarrow> data_grid result" where
  "setRowHeight rowIndex rowHeight g =
     (if \<not> rowResize g then Inr g
      else bind_result (setLayoutOverride rowIndex rowHeight (rowLayoutManager g)) (\<lambda>lm.
             Inr (fire_update (fetchData (g\<lparr>rowLayoutManager := lm\<rparr>)))))"

definition setRowHeadersWidth :: "int \<Rightarrow> data_grid \<Rightarrow> data_grid" where
  "setRowHeadersWidth w g = (if w \<noteq> rowHeadersWidth g then fire_update (fetchData (g\<lparr>rowHeadersWidth := w\<rparr>)) else g)"

definition setSize :: "int \<Rightarrow> int \<Rightarrow> data_grid \<Rightarrow> data_grid result" where
  "setSize width height g =
     (if width \<noteq> dg_width g \<or> height \<noteq> dg_height g
      then let g = g\<lparr>dg_width := width, dg_height := height\<rparr>
        in bind_result (maximumVerticalScrollOffset g) (\<lambda>m.
             Inr (fire_update (fetchData (if verticalScrollOffset g > m then g\<lparr>verticalScrollOffset := m\<rparr> else g))))
      else Inr g)"

section \<open>Scrolling\<close>

definition setScrollOffsets :: "int \<Rightarrow> int \<Rightarrow> data_grid \<Rightarrow> data_grid" where
  "setScrollOffsets h v g =
     (if h \<noteq> horizontalScrollOffset g \<or> v \<noteq> verticalScrollOffset g
      then fire_update (fetchData (g\<lparr>horizontalScrollOffset := h, verticalScrollOffset := v\<rparr>)) else g)"

definition setHorizontalScrollOffset :: "int \<Rightarrow> data_grid \<Rightarrow> data_grid" where
  "setHorizontalScrollOffset h g =
     (if h \<noteq> horizontalScrollOffset g then fire_update (fetchData (g\<lparr>horizontalScrollOffset := h\<rparr>)) else g)"

definition setVerticalScrollOffset :: "int \<Rightarrow> data_grid \<Rightarrow> data_grid" where
  "setVerticalScrollOffset v g =
     (if v \<noteq> verticalScrollOffset g then fire_update (fetchData (g\<lparr>verticalScrollOffset := v\<rparr>)) else g)"

text \<open>
  The loop of \<open>scrollPageUp\<close> from the row \<open>n - 1\<close> down: the offset to scroll to, or none when all rows up to the
  first one fit the page.
\<close>

fun page_up_loop :: "data_grid \<Rightarrow> layout_entry option \<Rightarrow> nat \<Rightarrow> int option" where
  "page_up_loop g lastFullyVisible 0 = None"
| "page_up_loop g lastFullyVisible (Suc index) =
     (case getLayoutEntry (int index) (rowLayoutManager g) of
        None \<Rightarrow> page_up_loop g lastFullyVisible index
      | Some e \<Rightarrow>
          if le_start e \<ge> verticalScrollOffset g - layoutHeight g then page_up_loop g (Some e) index
          else Some (case lastFullyVisible of Some l \<Rightarrow> le_start l | None \<Rightarrow> le_start e))"

definition scrollPageUp :: "data_grid \<Rightarrow> data_grid" where
  "scrollPageUp g =
     (case findLayoutEntry (verticalScrollOffset g) (rowLayoutManager g) of (f, lm) \<Rightarrow>
        let g = g\<lparr>rowLayoutManager := lm\<rparr>;
            target = (case found_entry f of
                Some e \<Rightarrow> if le_index e > 1 then page_up_loop g None (nat (le_index e)) else None
              | None \<Rightarrow> None)
        in fire_update (fetchData (setVerticalScrollOffset (or_else target 0) g)))"

function page_down_loop :: "data_grid \<Rightarrow> int \<Rightarrow> layout_entry option" where
  "page_down_loop g index =
     (if index < dg_rows g
      then case getLayoutEntry index (rowLayoutManager g) of
          Some e \<Rightarrow> if le_end e \<ge> verticalScrollOffset g + layoutHeight g then Some e else page_down_loop g (index + 1)
        | None \<Rightarrow> page_down_loop g (index + 1)
      else None)"
  by pat_completeness auto
termination
  by (relation "measure (\<lambda>(g, index). nat (dg_rows g - index))") auto

declare page_down_loop.simps [simp del]

definition scrollPageDown :: "data_grid \<Rightarrow> data_grid result" where
  "scrollPageDown g =
     (case findLayoutEntry (verticalScrollOffset g) (rowLayoutManager g) of (f, lm) \<Rightarrow>
        let g = g\<lparr>rowLayoutManager := lm\<rparr>;
            target = (case found_entry f of
                Some e \<Rightarrow> if le_index e < dg_rows g - 1 then page_down_loop g (le_index e + 1) else None
              | None \<Rightarrow> None)
        in bind_result (maximumVerticalScrollOffset g) (\<lambda>m.
             Inr (fire_update (fetchData (setVerticalScrollOffset
               (case target of Some e \<Rightarrow> min (le_start e) m | None \<Rightarrow> m) g)))))"

text \<open>The two halves of \<open>scrollToCell\<close>, each with the flag that an offset was updated.\<close>

definition scroll_column_into_view :: "int \<Rightarrow> layout_entry \<Rightarrow> data_grid \<Rightarrow> (bool \<times> data_grid) result" where
  "scroll_column_into_view columnIndex e g =
     (if le_start e < horizontalScrollOffset g then Inr (True, g\<lparr>horizontalScrollOffset := le_start e\<rparr>)
      else if le_end e > horizontalScrollOffset g + layoutWidth g
      then if columnIndex = dg_columns g - 1
           then bind_result (maximumHorizontalScrollOffset g) (\<lambda>m. Inr (True, g\<lparr>horizontalScrollOffset := m\<rparr>))
           else Inr (True, g\<lparr>horizontalScrollOffset := le_end e - layoutWidth g\<rparr>)
      else Inr (False, g))"

definition scroll_row_into_view :: "int \<Rightarrow> layout_entry \<Rightarrow> data_grid \<Rightarrow> (bool \<times> data_grid) result" where
  "scroll_row_into_view rowIndex e g =
     (if le_start e < verticalScrollOffset g then Inr (True, g\<lparr>verticalScrollOffset := le_start e\<rparr>)
      else if le_end e > verticalScrollOffset g + layoutHeight g
      then if rowIndex = dg_rows g - 1
           then bind_result (maximumVerticalScrollOffset g) (\<lambda>m. Inr (True, g\<lparr>verticalScrollOffset := m\<rparr>))
           else Inr (True, g\<lparr>verticalScrollOffset := le_end e - layoutHeight g\<rparr>)
      else Inr (False, g))"

definition scrollToCell :: "int \<Rightarrow> int \<Rightarrow> data_grid \<Rightarrow> data_grid result" where
  "scrollToCell columnIndex rowIndex g =
     (case getLayoutEntry columnIndex (columnLayoutManager g) of
        None \<Rightarrow> Inr g
      | Some ce \<Rightarrow>
          (case getLayoutEntry rowIndex (rowLayoutManager g) of
             None \<Rightarrow> Inr g
           | Some re \<Rightarrow>
               bind_result (scroll_column_into_view columnIndex ce g) (\<lambda>(u1, g).
               bind_result (scroll_row_into_view rowIndex re g) (\<lambda>(u2, g).
                 Inr (if u1 \<or> u2 then fire_update (fetchData g) else g)))))"

definition scrollToCursor :: "data_grid \<Rightarrow> data_grid result" where
  "scrollToCursor g = scrollToCell (cursorColumnIndex g) (cursorRowIndex g) g"

definition scrollToColumn :: "int \<Rightarrow> data_grid \<Rightarrow> data_grid" where
  "scrollToColumn columnIndex g =
     (case getLayoutEntry columnIndex (columnLayoutManager g) of
        None \<Rightarrow> g
      | Some e \<Rightarrow>
          if le_start e < horizontalScrollOffset g then setHorizontalScrollOffset (le_start e) g
          else if le_end e > horizontalScrollOffset g + layoutWidth g
          then setHorizontalScrollOffset (le_end e - layoutWidth g) g
          else g)"

definition scrollToRow :: "int \<Rightarrow> data_grid \<Rightarrow> data_grid" where
  "scrollToRow rowIndex g =
     (case getLayoutEntry rowIndex (rowLayoutManager g) of
        None \<Rightarrow> g
      | Some e \<Rightarrow>
          if le_start e < verticalScrollOffset g then setVerticalScrollOffset (le_start e) g
          else if le_end e > verticalScrollOffset g + layoutHeight g
          then setVerticalScrollOffset (le_end e - layoutHeight g) g
          else g)"

section \<open>Sorting\<close>

text \<open>A JavaScript \<open>Map\<close> keeps the order in which its keys were inserted.\<close>

definition doSortData :: "data_grid \<Rightarrow> data_grid" where
  "doSortData g = g\<lparr>dg_log := dg_log g @ [SortData (sort_key sortIndex (map snd (columnSortKeys g)))]\<rparr>"

definition fire_sorting :: "bool \<Rightarrow> data_grid \<Rightarrow> data_grid" where
  "fire_sorting b g = g\<lparr>dg_log := dg_log g @ [DidChangeColumnSorting b]\<rparr>"

definition setColumnSortKey :: "int \<Rightarrow> bool \<Rightarrow> data_grid \<Rightarrow> data_grid" where
  "setColumnSortKey columnIndex asc g =
     (case map_of (columnSortKeys g) columnIndex of
        None \<Rightarrow>
          doSortData (fire_update (fire_sorting True (g\<lparr>columnSortKeys := columnSortKeys g @
            [(columnIndex, new_ColumnSortKeyDescriptor (int (length (columnSortKeys g))) columnIndex asc)]\<rparr>)))
      | Some key \<Rightarrow>
          if asc \<noteq> ascending key
          then doSortData (fire_update (fire_sorting True (g\<lparr>columnSortKeys :=
            map (\<lambda>(c, k). (c, if c = columnIndex then k\<lparr>ascending := asc\<rparr> else k)) (columnSortKeys g)\<rparr>)))
          else g)"

definition removeColumnSortKey :: "int \<Rightarrow> data_grid \<Rightarrow> data_grid" where
  "removeColumnSortKey columnIndex g =
     (case map_of (columnSortKeys g) columnIndex of
        None \<Rightarrow> g
      | Some key \<Rightarrow>
          let keys = map (\<lambda>(c, k). (c, if sortIndex k > sortIndex key then k\<lparr>sortIndex := sortIndex k - 1\<rparr> else k))
                (filter (\<lambda>(c, k). c \<noteq> columnIndex) (columnSortKeys g))
          in doSortData (fire_update (fire_sorting (length keys > 0) (g\<lparr>columnSortKeys := keys\<rparr>))))"

definition clearColumnSortKeys :: "data_grid \<Rightarrow> data_grid" where
  "clearColumnSortKeys g = doSortData (fire_update (fire_sorting False (g\<lparr>columnSortKeys := []\<rparr>)))"

definition columnSortKey :: "int \<Rightarrow> data_grid \<Rightarrow> column_sort_key option" where
  "columnSortKey columnIndex g = map_of (columnSortKeys g) columnIndex"

end
