(* ===== verification/Grid_Selection.thy ===== *)
theory Grid_Selection
  imports Data_Grid
begin

text \<open>
  The selection methods of \<open>DataGridInstance\<close>: selecting with the mouse, extending with the keyboard, the selection
  states that cells, columns and rows are drawn with, and the clipboard data. The states are the numbers of the
  enumerations \<open>CellSelectionState\<close>, \<open>ColumnSelectionState\<close> and \<open>RowSelectionState\<close>, combined bitwise.
\<close>

unbundle bit_operations_syntax

section \<open>Selecting\<close>

definition resetSelection :: "data_grid \<Rightarrow> data_grid" where
  "resetSelection g = g\<lparr>cellSelectionRange := None, columnSelectionRange := None, columnSelectionIndexes := None,
     rowSelectionRange := None, rowSelectionIndexes := None\<rparr>"

definition softReset :: "data_grid \<Rightarrow> data_grid" where
  "softReset g =
     (let g = g\<lparr>horizontalScrollOffset := 0, verticalScrollOffset := 0\<rparr>;
          g = (if cursorInitiallyHidden g then g\<lparr>cursorColumnIndex := -1, cursorRowIndex := -1\<rparr>
               else g\<lparr>cursorColumnIndex := 0, cursorRowIndex := 0\<rparr>)
      in resetSelection g)"

definition clearSelection :: "data_grid \<Rightarrow> data_grid" where
  "clearSelection g = fire_update (g\<lparr>cellSelectionRange := None, columnSelectionRange := None,
     columnSelectionIndexes := None, rowSelectionRange := None, rowSelectionIndexes := None\<rparr>)"

definition selectAll :: "data_grid \<Rightarrow> data_grid" where
  "selectAll g = fire_update (g\<lparr>cellSelectionRange := None, columnSelectionRange := None, columnSelectionIndexes := None,
     rowSelectionIndexes := None, rowSelectionRange := Some (new_SelectionRange 0 (dg_rows g - 1))\<rparr>)"

text \<open>
  Multi selection of columns or of rows: unselecting an individually selected index, and selecting a further one,
  which turns a selection range into individual indexes.
\<close>

definition unselect :: "int \<Rightarrow> selection_indexes option \<Rightarrow> selection_indexes option" where
  "unselect index indexes =
     (case indexes of None \<Rightarrow> None
      | Some s \<Rightarrow> let s' = si_delete index s in if si_isEmpty s' then None else Some s')"

definition also_select ::
  "int \<Rightarrow> selection_range option \<Rightarrow> selection_indexes option \<Rightarrow> selection_range option \<times> selection_indexes option" where
  "also_select index rng indexes =
     (case indexes of Some s \<Rightarrow> (rng, Some (si_add index s))
      | None \<Rightarrow>
          (case rng of None \<Rightarrow> (None, Some (new_SelectionIndexes [index]))
           | Some r \<Rightarrow> (None, Some (si_add index (sr_indexes r)))))"

definition mouseSelectCell :: "int \<Rightarrow> int \<Rightarrow> mouse_selection_type \<Rightarrow> data_grid \<Rightarrow> data_grid result" where
  "mouseSelectCell columnIndex rowIndex selectionType g =
     (let g = g\<lparr>columnSelectionRange := None, columnSelectionIndexes := None, rowSelectionRange := None,
            rowSelectionIndexes := None\<rparr>
      in case selectionType of
           Single \<Rightarrow>
             bind_result (scrollToCursor (setCursorPosition columnIndex rowIndex (g\<lparr>cellSelectionRange := None\<rparr>)))
               (\<lambda>g. Inr (fire_update g))
         | Range_selection \<Rightarrow>
             bind_result (scrollToCell columnIndex rowIndex (g\<lparr>cellSelectionRange := Some (new_CellSelectionRange
                 (min (cursorColumnIndex g) columnIndex) (min (cursorRowIndex g) rowIndex)
                 (max (cursorColumnIndex g) columnIndex) (max (cursorRowIndex g) rowIndex))\<rparr>))
               (\<lambda>g. Inr (fire_update g))
         | Multi \<Rightarrow> Inr g)"

definition selectColumn :: "int \<Rightarrow> data_grid \<Rightarrow> data_grid" where
  "selectColumn columnIndex g = fire_update (g\<lparr>cellSelectionRange := None, rowSelectionRange := None,
     rowSelectionIndexes := None, columnSelectionRange := None,
     columnSelectionIndexes := Some (new_SelectionIndexes [columnIndex])\<rparr>)"

definition adjust_cursor_to_column :: "int \<Rightarrow> data_grid \<Rightarrow> data_grid" where
  "adjust_cursor_to_column columnIndex g =
     (case firstRow g of (row, g) \<Rightarrow>
        g\<lparr>cursorColumnIndex := columnIndex, cursorRowIndex := (case row of Some (i, _) \<Rightarrow> i | None \<Rightarrow> 0)\<rparr>)"

definition mouseSelectColumn :: "int \<Rightarrow> mouse_selection_type \<Rightarrow> data_grid \<Rightarrow> data_grid" where
  "mouseSelectColumn columnIndex selectionType g =
     (let g = g\<lparr>cellSelectionRange := None, rowSelectionRange := None, rowSelectionIndexes := None\<rparr>
      in case selectionType of
           Single \<Rightarrow>
             fire_update (fetchData (scrollToColumn columnIndex (adjust_cursor_to_column columnIndex
               (g\<lparr>columnSelectionRange := None, columnSelectionIndexes := Some (new_SelectionIndexes [columnIndex])\<rparr>))))
         | Range_selection \<Rightarrow>
             fire_update (fetchData (scrollToColumn columnIndex
               (g\<lparr>columnSelectionIndexes := None, columnSelectionRange := Some (new_SelectionRange
                  (min (cursorColumnIndex g) columnIndex) (max (cursorColumnIndex g) columnIndex))\<rparr>)))
         | Multi \<Rightarrow>
             if (case columnSelectionRange g of Some r \<Rightarrow> sr_contains columnIndex r | None \<Rightarrow> False) then g
             else if (case columnSelectionIndexes g of Some s \<Rightarrow> si_has columnIndex s | None \<Rightarrow> False)
             then fire_update (g\<lparr>columnSelectionIndexes := unselect columnIndex (columnSelectionIndexes g)\<rparr>)
             else case also_select columnIndex (columnSelectionRange g) (columnSelectionIndexes g) of (r, s) \<Rightarrow>
               fire_update (fetchData (scrollToColumn columnIndex (adjust_cursor_to_column columnIndex
                 (g\<lparr>columnSelectionRange := r, columnSelectionIndexes := s\<rparr>)))))"

definition selectRow :: "int \<Rightarrow> data_grid \<Rightarrow> data_grid" where
  "selectRow rowIndex g = fire_update (g\<lparr>cellSelectionRange := None, columnSelectionRange := None,
     columnSelectionIndexes := None, rowSelectionRange := None,
     rowSelectionIndexes := Some (new_SelectionIndexes [rowIndex])\<rparr>)"

definition adjust_cursor_to_row :: "int \<Rightarrow> data_grid \<Rightarrow> data_grid" where
  "adjust_cursor_to_row rowIndex g =
     (case firstColumn g of (column, g) \<Rightarrow>
        g\<lparr>cursorColumnIndex := (case column of Some (i, _) \<Rightarrow> i | None \<Rightarrow> 0), cursorRowIndex := rowIndex\<rparr>)"

definition mouseSelectRow :: "int \<Rightarrow> mouse_selection_type \<Rightarrow> data_grid \<Rightarrow> data_grid" where
  "mouseSelectRow rowIndex selectionType g =
     (let g = g\<lparr>cellSelectionRange := None, columnSelectionRange := None, columnSelectionIndexes := None\<rparr>
      in case selectionType of
           Single \<Rightarrow>
             fire_update (fetchData (scrollToRow rowIndex (adjust_cursor_to_row rowIndex
               (g\<lparr>rowSelectionRange := None, rowSelectionIndexes := Some (new_SelectionIndexes [rowIndex])\<rparr>))))
         | Range_selection \<Rightarrow>
             fire_update (fetchData (scrollToRow rowIndex
               (g\<lparr>rowSelectionIndexes := None, rowSelectionRange := Some (new_SelectionRange
                  (min (cursorRowIndex g) rowIndex) (max (cursorRowIndex g) rowIndex))\<rparr>)))
         | Multi \<Rightarrow>
             if (case rowSelectionRange g of Some r \<Rightarrow> sr_contains rowIndex r | None \<Rightarrow> False) then g
             else if (case rowSelectionIndexes g of Some s \<Rightarrow> si_has rowIndex s | None \<Rightarrow> False)
             then fire_update (g\<lparr>rowSelectionIndexes := unselect rowIndex (rowSelectionIndexes g)\<rparr>)
             else case also_select rowIndex (rowSelectionRange g) (rowSelectionIndexes g) of (r, s) \<Rightarrow>
               fire_update (fetchData (scrollToRow rowIndex (adjust_cursor_to_row rowIndex
                 (g\<lparr>rowSelectionRange := r, rowSelectionIndexes := s\<rparr>)))))"

section \<open>Extending the selection\<close>

text \<open>The argument says how far to extend; the methods do not look at it.\<close>

definition extendColumnSelectionLeft :: "extend_column_selection_by \<Rightarrow> data_grid \<Rightarrow> data_grid result" where
  "extendColumnSelectionLeft by g =
     (if rowSelectionRange g \<noteq> None \<or> rowSelectionIndexes g \<noteq> None then Inr g
      else case columnSelectionIndexes g of
        Some s \<Rightarrow>
          if si_has (cursorColumnIndex g) s \<and> cursorColumnIndex g > 0
          then Inr (fire_update (scrollToColumn (cursorColumnIndex g - 1) (g\<lparr>columnSelectionIndexes := None,
                 columnSelectionRange := Some (new_SelectionRange (cursorColumnIndex g - 1) (cursorColumnIndex g))\<rparr>)))
          else Inr g
      | None \<Rightarrow>
          (case columnSelectionRange g of
             Some r \<Rightarrow>
               if cursorColumnIndex g = lastIndex r
               then if firstIndex r > 0
                    then Inr (fire_update (scrollToColumn (firstIndex r - 1)
                           (g\<lparr>columnSelectionRange := Some (r\<lparr>firstIndex := firstIndex r - 1\<rparr>)\<rparr>)))
                    else Inr g
               else if cursorColumnIndex g = firstIndex r
               then Inr (fire_update (scrollToColumn (lastIndex r - 1)
                      (g\<lparr>columnSelectionRange := Some (r\<lparr>lastIndex := lastIndex r - 1\<rparr>)\<rparr>)))
               else Inr g
           | None \<Rightarrow>
               (case cellSelectionRange g of
                  Some r \<Rightarrow>
                    if cursorColumnIndex g = lastColumnIndex r
                    then if firstColumnIndex r > 0
                         then Inr (fire_update (scrollToColumn (firstColumnIndex r - 1)
                                (g\<lparr>cellSelectionRange := Some (r\<lparr>firstColumnIndex := firstColumnIndex r - 1\<rparr>)\<rparr>)))
                         else Inr g
                    else if cursorColumnIndex g = firstColumnIndex r
                    then Inr (fire_update (scrollToColumn (lastColumnIndex r - 1)
                           (g\<lparr>cellSelectionRange := Some (r\<lparr>lastColumnIndex := lastColumnIndex r - 1\<rparr>)\<rparr>)))
                    else Inr g
                | None \<Rightarrow>
                    if cursorColumnIndex g > 0
                    then bind_result (scrollToCell (cursorColumnIndex g - 1) (cursorRowIndex g) (g\<lparr>cellSelectionRange := Some (
                             new_CellSelectionRange (cursorColumnIndex g - 1) (cursorRowIndex g) (cursorColumnIndex g) (cursorRowIndex g))\<rparr>))
                           (\<lambda>g. Inr (fire_update g))
                    else Inr g)))"

definition extendColumnSelectionRight :: "extend_column_selection_by \<Rightarrow> data_grid \<Rightarrow> data_grid result" where
  "extendColumnSelectionRight by g =
     (if rowSelectionRange g \<noteq> None \<or> rowSelectionIndexes g \<noteq> None then Inr g
      else case columnSelectionIndexes g of
        Some s \<Rightarrow>
          if si_has (cursorColumnIndex g) s \<and> cursorColumnIndex g < dg_columns g - 1
          then Inr (fire_update (scrollToColumn (cursorColumnIndex g + 1) (g\<lparr>columnSelectionIndexes := None,
                 columnSelectionRange := Some (new_SelectionRange (cursorColumnIndex g) (cursorColumnIndex g + 1))\<rparr>)))
          else Inr g
      | None \<Rightarrow>
          (case columnSelectionRange g of
             Some r \<Rightarrow>
               if cursorColumnIndex g = firstIndex r
               then if lastIndex r < dg_columns g - 1
                    then Inr (fire_update (scrollToColumn (lastIndex r + 1)
                           (g\<lparr>columnSelectionRange := Some (r\<lparr>lastIndex := lastIndex r + 1\<rparr>)\<rparr>)))
                    else Inr g
               else if cursorColumnIndex g = lastIndex r
               then Inr (fire_update (scrollToColumn (firstIndex r + 1)
                      (g\<lparr>columnSelectionRange := Some (r\<lparr>firstIndex := firstIndex r + 1\<rparr>)\<rparr>)))
               else Inr g
           | None \<Rightarrow>
               (case cellSelectionRange g of
                  Some r \<Rightarrow>
                    if cursorColumnIndex g = firstColumnIndex r
                    then if lastColumnIndex r < dg_columns g - 1
                         then Inr (fire_update (scrollToColumn (lastColumnIndex r + 1)
                                (g\<lparr>cellSelectionRange := Some (r\<lparr>lastColumnIndex := lastColumnIndex r + 1\<rparr>)\<rparr>)))
                         else Inr g
                    else if cursorColumnIndex g = lastColumnIndex r
                    then Inr (fire_update (scrollToColumn (firstColumnIndex r + 1)
                           (g\<lparr>cellSelectionRange := Some (r\<lparr>firstColumnIndex := firstColumnIndex r + 1\<rparr>)\<rparr>)))
                    else Inr g
                | None \<Rightarrow>
                    if cursorColumnIndex g < dg_columns g - 1
                    then bind_result (scrollToCell (cursorColumnIndex g + 1) (cursorRowIndex g) (g\<lparr>cellSelectionRange := Some (
                             new_CellSelectionRange (cursorColumnIndex g) (cursorRowIndex g) (cursorColumnIndex g + 1) (cursorRowIndex g))\<rparr>))
                           (\<lambda>g. Inr (fire_update g))
                    else Inr g)))"

definition extendRowSelectionUp :: "extend_row_selection_by \<Rightarrow> data_grid \<Rightarrow> data_grid result" where
  "extendRowSelectionUp by g =
     (if columnSelectionRange g \<noteq> None \<or> columnSelectionIndexes g \<noteq> None then Inr g
      else case rowSelectionIndexes g of
        Some s \<Rightarrow>
          if si_has (cursorRowIndex g) s \<and> cursorRowIndex g > 0
          then Inr (fire_update (scrollToRow (cursorRowIndex g - 1) (g\<lparr>rowSelectionIndexes := None,
                 rowSelectionRange := Some (new_SelectionRange (cursorRowIndex g - 1) (cursorRowIndex g))\<rparr>)))
          else Inr g
      | None \<Rightarrow>
          (case rowSelectionRange g of
             Some r \<Rightarrow>
               if cursorRowIndex g = lastIndex r
               then if firstIndex r > 0
                    then Inr (fire_update (scrollToRow (firstIndex r - 1)
                           (g\<lparr>rowSelectionRange := Some (r\<lparr>firstIndex := firstIndex r - 1\<rparr>)\<rparr>)))
                    else Inr g
               else if cursorRowIndex g = firstIndex r
               then Inr (fire_update (scrollToRow (lastIndex r - 1)
                      (g\<lparr>rowSelectionRange := Some (r\<lparr>lastIndex := lastIndex r - 1\<rparr>)\<rparr>)))
               else Inr g
           | None \<Rightarrow>
               (case cellSelectionRange g of
                  Some r \<Rightarrow>
                    if cursorRowIndex g = lastRowIndex r
                    then if firstRowIndex r > 0
                         then Inr (fire_update (scrollToRow (firstRowIndex r - 1)
                                (g\<lparr>cellSelectionRange := Some (r\<lparr>firstRowIndex := firstRowIndex r - 1\<rparr>)\<rparr>)))
                         else Inr g
                    else if cursorRowIndex g = firstRowIndex r
                    then Inr (fire_update (scrollToRow (lastRowIndex r - 1)
                           (g\<lparr>cellSelectionRange := Some (r\<lparr>lastRowIndex := lastRowIndex r - 1\<rparr>)\<rparr>)))
                    else Inr g
                | None \<Rightarrow>
                    if cursorRowIndex g > 0
                    then bind_result (scrollToCell (cursorColumnIndex g) (cursorRowIndex g - 1) (g\<lparr>cellSelectionRange := Some (
                             new_CellSelectionRange (cursorColumnIndex g) (cursorRowIndex g - 1) (cursorColumnIndex g) (cursorRowIndex g))\<rparr>))
                           (\<lambda>g. Inr (fire_update g))
                    else Inr g)))"

definition extendRowSelectionDown :: "extend_row_selection_by \<Rightarrow> data_grid \<Rightarrow> data_grid result" where
  "extendRowSelectionDown by g =
     (if columnSelectionRange g \<noteq> None \<or> columnSelectionIndexes g \<noteq> None then Inr g
      else case rowSelectionIndexes g of
        Some s \<Rightarrow>
          if si_has (cursorRowIndex g) s \<and> cursorRowIndex g < dg_rows g - 1
          then Inr (fire_update (scrollToRow (cursorRowIndex g + 1) (g\<lparr>rowSelectionIndexes := None,
                 rowSelectionRange := Some (new_SelectionRange (cursorRowIndex g) (cursorRowIndex g + 1))\<rparr>)))
          else Inr g
      | None \<Rightarrow>
          (case rowSelectionRange g of
             Some r \<Rightarrow>
               if cursorRowIndex g = firstIndex r
               then if lastIndex r < dg_rows g - 1
                    then Inr (fire_update (scrollToRow (lastIndex r + 1)
                           (g\<lparr>rowSelectionRange := Some (r\<lparr>lastIndex := lastIndex r + 1\<rparr>)\<rparr>)))
                    else Inr g
               else if cursorRowIndex g = lastIndex r
               then Inr (fire_update (scrollToRow (firstIndex r + 1)
                      (g\<lparr>rowSelectionRange := Some (r\<lparr>firstIndex := firstIndex r + 1\<rparr>)\<rparr>)))
               else Inr g
           | None \<Rightarrow>
               (case cellSelectionRange g of
                  Some r \<Rightarrow>
                    if cursorRowIndex g = firstRowIndex r
                    then if lastRowIndex r < dg_rows g - 1
                         then Inr (fire_update (scrollToRow (lastRowIndex r + 1)
                                (g\<lparr>cellSelectionRange := Some (r\<lparr>lastRowIndex := lastRowIndex r + 1\<rparr>)\<rparr>)))
                         else Inr g
                    else if cursorRowIndex g = lastRowIndex r
                    then Inr (fire_update (scrollToRow (firstRowIndex r + 1)
                           (g\<lparr>cellSelectionRange := Some (r\<lparr>firstRowIndex := firstRowIndex r + 1\<rparr>)\<rparr>)))
                    else Inr g
                | None \<Rightarrow>
                    if cursorRowIndex g < dg_rows g - 1
                    then bind_result (scrollToCell (cursorColumnIndex g) (cursorRowIndex g + 1) (g\<lparr>cellSelectionRange := Some (
                             new_CellSelectionRange (cursorColumnIndex g) (cursorRowIndex g) (cursorColumnIndex g) (cursorRowIndex g + 1))\<rparr>))
                           (\<lambda>g. Inr (fire_update g))
                    else Inr g)))"

section \<open>Selection states and clipboard data\<close>

abbreviation (input) selected_bit :: int where "selected_bit \<equiv> 1"

abbreviation (input) selected_left :: int where "selected_left \<equiv> 2"

abbreviation (input) selected_right :: int where "selected_right \<equiv> 4"

abbreviation (input) selected_top :: int where "selected_top \<equiv> 8"

abbreviation (input) selected_bottom :: int where "selected_bottom \<equiv> 16"

definition flag :: "bool \<Rightarrow> int \<Rightarrow> int \<Rightarrow> int" where
  "flag b bit_value st = (if b then st OR bit_value else st)"

definition columnSelectionState :: "int \<Rightarrow> data_grid \<Rightarrow> int" where
  "columnSelectionState columnIndex g =
     (case columnSelectionIndexes g of
        Some s \<Rightarrow>
          if si_has columnIndex s
          then flag (\<not> si_has (columnIndex + 1) s) selected_right (flag (\<not> si_has (columnIndex - 1) s) selected_left selected_bit)
          else (case columnSelectionRange g of
              Some r \<Rightarrow> if columnIndex \<ge> firstIndex r \<and> columnIndex \<le> lastIndex r
                then flag (columnIndex = lastIndex r) selected_right (flag (columnIndex = firstIndex r) selected_left selected_bit)
                else 0
            | None \<Rightarrow> 0)
      | None \<Rightarrow>
          (case columnSelectionRange g of
              Some r \<Rightarrow> if columnIndex \<ge> firstIndex r \<and> columnIndex \<le> lastIndex r
                then flag (columnIndex = lastIndex r) selected_right (flag (columnIndex = firstIndex r) selected_left selected_bit)
                else 0
            | None \<Rightarrow> 0))"

definition rowSelectionState :: "int \<Rightarrow> data_grid \<Rightarrow> int" where
  "rowSelectionState rowIndex g =
     (case rowSelectionIndexes g of
        Some s \<Rightarrow>
          if si_has rowIndex s
          then flag (\<not> si_has (rowIndex + 1) s) selected_bottom (flag (\<not> si_has (rowIndex - 1) s) selected_top selected_bit)
          else (case rowSelectionRange g of
              Some r \<Rightarrow> if sr_contains rowIndex r
                then flag (rowIndex = lastIndex r) selected_bottom (flag (rowIndex = firstIndex r) selected_top selected_bit)
                else 0
            | None \<Rightarrow> 0)
      | None \<Rightarrow>
          (case rowSelectionRange g of
              Some r \<Rightarrow> if sr_contains rowIndex r
                then flag (rowIndex = lastIndex r) selected_bottom (flag (rowIndex = firstIndex r) selected_top selected_bit)
                else 0
            | None \<Rightarrow> 0))"

definition cellSelectionState :: "int \<Rightarrow> int \<Rightarrow> data_grid \<Rightarrow> int" where
  "cellSelectionState columnIndex rowIndex g =
     (case cellSelectionRange g of
        None \<Rightarrow> columnSelectionState columnIndex g OR rowSelectionState rowIndex g
      | Some r \<Rightarrow>
          if csr_contains columnIndex rowIndex r
          then flag (rowIndex = lastRowIndex r) selected_bottom
                 (flag (rowIndex = firstRowIndex r) selected_top
                   (flag (columnIndex = lastColumnIndex r) selected_right
                     (flag (columnIndex = firstColumnIndex r) selected_left selected_bit)))
          else 0)"

definition getClipboardData :: "data_grid \<Rightarrow> clipboard_data option" where
  "getClipboardData g =
     (case cellSelectionRange g of
        Some r \<Rightarrow> Some (ClipboardCellRange (firstColumnIndex r) (firstRowIndex r) (lastColumnIndex r) (lastRowIndex r))
      | None \<Rightarrow>
     (case columnSelectionRange g of
        Some r \<Rightarrow> Some (ClipboardColumnRange (firstIndex r) (lastIndex r))
      | None \<Rightarrow>
     (case columnSelectionIndexes g of
        Some s \<Rightarrow> Some (ClipboardColumnIndexes (si_sortedArray s))
      | None \<Rightarrow>
     (case rowSelectionRange g of
        Some r \<Rightarrow> Some (ClipboardRowRange (firstIndex r) (lastIndex r))
      | None \<Rightarrow>
     (case rowSelectionIndexes g of
        Some s \<Rightarrow> Some (ClipboardRowIndexes (si_sortedArray s))
      | None \<Rightarrow>
          if cursorColumnIndex g \<ge> 0 \<and> cursorRowIndex g \<ge> 0
          then Some (ClipboardCell (cursorColumnIndex g) (cursorRowIndex g))
          else None)))))"

end
