(* ===== verification/Grid_Laws.thy ===== *)
theory Grid_Laws
  imports Grid_Selection Machine
begin

text \<open>
  The laws of the data grid. \<open>view\<close> is what the selection depends on: the numbers of columns and rows, the cursor and
  the five selection fields, with the state of the layout managers reduced to their invariant and their counts.
  Scrolling and events leave it alone. On it stands the invariant \<open>grid_ok\<close>, which every method keeps.
\<close>

section \<open>The view of a grid\<close>

record grid_view =
  v_columns :: int
  v_rows :: int
  v_column :: int
  v_row :: int
  v_cells :: "cell_selection_range option"
  v_columnRange :: "selection_range option"
  v_columnIndexes :: "selection_indexes option"
  v_rowRange :: "selection_range option"
  v_rowIndexes :: "selection_indexes option"
  v_hidden :: bool
  v_keys :: "(int \<times> column_sort_key) list"
  v_ready :: bool

text \<open>A layout that is ready: well formed, not an empty list, whose total size throws, and no longer than the table.\<close>

definition layout_ready :: "layout_manager \<Rightarrow> int \<Rightarrow> bool" where
  "layout_ready lm n \<longleftrightarrow> lm_ok lm \<and> lm_entries lm \<noteq> Entries [] \<and> spec_count lm \<le> n"

definition view :: "data_grid \<Rightarrow> grid_view" where
  "view g = \<lparr>v_columns = dg_columns g, v_rows = dg_rows g, v_column = cursorColumnIndex g, v_row = cursorRowIndex g,
     v_cells = cellSelectionRange g, v_columnRange = columnSelectionRange g, v_columnIndexes = columnSelectionIndexes g,
     v_rowRange = rowSelectionRange g, v_rowIndexes = rowSelectionIndexes g,
     v_hidden = cursorInitiallyHidden g, v_keys = columnSortKeys g,
     v_ready = (layout_ready (columnLayoutManager g) (dg_columns g) \<and> layout_ready (rowLayoutManager g) (dg_rows g))\<rparr>"

lemma view_fields [simp]:
  "v_columns (view g) = dg_columns g" "v_rows (view g) = dg_rows g" "v_column (view g) = cursorColumnIndex g"
  "v_row (view g) = cursorRowIndex g" "v_cells (view g) = cellSelectionRange g" "v_columnRange (view g) = columnSelectionRange g"
  "v_columnIndexes (view g) = columnSelectionIndexes g" "v_rowRange (view g) = rowSelectionRange g"
  "v_rowIndexes (view g) = rowSelectionIndexes g"
  "v_hidden (view g) = cursorInitiallyHidden g" "v_keys (view g) = columnSortKeys g"
  "v_ready (view g) \<longleftrightarrow> layout_ready (columnLayoutManager g) (dg_columns g) \<and> layout_ready (rowLayoutManager g) (dg_rows g)"
  by (simp_all add: view_def)

lemma view_update [simp]:
  "view (g\<lparr>cellSelectionRange := a\<rparr>) = (view g)\<lparr>v_cells := a\<rparr>"
  "view (g\<lparr>columnSelectionRange := r\<rparr>) = (view g)\<lparr>v_columnRange := r\<rparr>"
  "view (g\<lparr>columnSelectionIndexes := s\<rparr>) = (view g)\<lparr>v_columnIndexes := s\<rparr>"
  "view (g\<lparr>rowSelectionRange := r\<rparr>) = (view g)\<lparr>v_rowRange := r\<rparr>"
  "view (g\<lparr>rowSelectionIndexes := s\<rparr>) = (view g)\<lparr>v_rowIndexes := s\<rparr>"
  "view (g\<lparr>cursorColumnIndex := i\<rparr>) = (view g)\<lparr>v_column := i\<rparr>"
  "view (g\<lparr>cursorRowIndex := i\<rparr>) = (view g)\<lparr>v_row := i\<rparr>"
  "view (g\<lparr>horizontalScrollOffset := i\<rparr>) = view g" "view (g\<lparr>verticalScrollOffset := i\<rparr>) = view g"
  "view (g\<lparr>dg_log := l\<rparr>) = view g" "view (g\<lparr>dg_focused := b\<rparr>) = view g" "view (g\<lparr>dg_width := i\<rparr>) = view g"
  "view (g\<lparr>dg_height := i\<rparr>) = view g" "view (g\<lparr>rowHeadersWidth := i\<rparr>) = view g" "view (g\<lparr>columnSortKeys := k\<rparr>) = (view g)\<lparr>v_keys := k\<rparr>"
  by (simp_all add: view_def)

lemma view_events [simp]:
  "view (fire_update g) = view g" "view (fetchData g) = view g" "view (fire_sorting b g) = view g" "view (doSortData g) = view g"
  "view (setHorizontalScrollOffset i g) = view g" "view (setVerticalScrollOffset i g) = view g"
  "view (setScrollOffsets i j g) = view g" "view (scrollToColumn i g) = view g" "view (scrollToRow i g) = view g"
  by (simp_all add: fire_update_def fetchData_def fire_sorting_def doSortData_def setHorizontalScrollOffset_def
      setVerticalScrollOffset_def setScrollOffsets_def scrollToColumn_def scrollToRow_def split: option.split)

text \<open>
  Scrolling to a cell never throws: a layout that is ready has a size. A search updates the cache of a layout
  manager only.
\<close>

lemma ready_size: "layout_ready lm n \<Longrightarrow> lm_size lm = Inr (spec_start lm (spec_count lm))"
  by (simp add: layout_ready_def lm_size_spec)

lemma ready_maximum:
  assumes "v_ready (view g)"
  shows "\<exists>m. maximumHorizontalScrollOffset g = Inr m" and "\<exists>m. maximumVerticalScrollOffset g = Inr m"
  using assms
  by (auto simp: maximumHorizontalScrollOffset_def maximumVerticalScrollOffset_def scrollWidth_def scrollHeight_def ready_size)

lemma scroll_column_into_view_ok:
  assumes "v_ready (view g)"
  shows "\<exists>u g'. scroll_column_into_view i e g = Inr (u, g') \<and> view g' = view g"
  using ready_maximum(1) [OF assms] by (auto simp: scroll_column_into_view_def)

lemma scroll_row_into_view_ok:
  assumes "v_ready (view g)"
  shows "\<exists>u g'. scroll_row_into_view i e g = Inr (u, g') \<and> view g' = view g"
  using ready_maximum(2) [OF assms] by (auto simp: scroll_row_into_view_def)

lemma scrollToCell_ok:
  assumes "v_ready (view g)"
  shows "\<exists>g'. scrollToCell c r g = Inr g' \<and> view g' = view g"
proof (cases "getLayoutEntry c (columnLayoutManager g) = None \<or> getLayoutEntry r (rowLayoutManager g) = None")
  case False
  then obtain ce re where e: "getLayoutEntry c (columnLayoutManager g) = Some ce" "getLayoutEntry r (rowLayoutManager g) = Some re"
    by auto
  obtain u g1 where g1: "scroll_column_into_view c ce g = Inr (u, g1)" "view g1 = view g"
    using scroll_column_into_view_ok [OF assms] by blast
  obtain u' g2 where "scroll_row_into_view r re g1 = Inr (u', g2)" "view g2 = view g1"
    using scroll_row_into_view_ok [of g1] assms g1(2) by metis
  with g1 e show ?thesis
    by (simp add: scrollToCell_def)
qed (auto simp: scrollToCell_def split: option.split)

lemma found_ready:
  assumes "layout_ready lm n" and "findLayoutEntry offset lm = (f, lm')"
  shows "layout_ready lm' n" and "found_entry f = Some e \<Longrightarrow> 0 \<le> le_index e \<and> le_index e < n"
proof -
  have ok: "lm_ok lm"
    using assms(1) by (simp add: layout_ready_def)
  have "lm_ok lm'" "lm_size lm' = lm_size lm" "spec_count lm' = spec_count lm"
    using lm_ok_find [OF ok, of offset] found_layout [OF ok, of offset] assms(2) by auto
  with assms(1) ok show "layout_ready lm' n"
    by (auto simp: layout_ready_def lm_size_spec split: if_splits)
  show "found_entry f = Some e \<Longrightarrow> 0 \<le> le_index e \<and> le_index e < n"
    using found_layout(1) [OF ok, of offset] assms
    by (auto simp: found_entry_def layout.covers_def layout_ready_def split: found.splits)
qed

lemma searched_view:
  assumes "v_ready (view g)"
  shows "findLayoutEntry o1 (columnLayoutManager g) = (f, lm) \<Longrightarrow> view (g\<lparr>columnLayoutManager := lm\<rparr>) = view g"
    and "findLayoutEntry o1 (rowLayoutManager g) = (f, lm) \<Longrightarrow> view (g\<lparr>rowLayoutManager := lm\<rparr>) = view g"
  using assms by (auto simp: view_def dest: found_ready(1))

lemma adjust_cursor_to_column_view:
  assumes "v_ready (view g)" and "0 < dg_rows g"
  shows "\<exists>r. view (adjust_cursor_to_column c g) = (view g)\<lparr>v_column := c, v_row := r\<rparr> \<and> 0 \<le> r \<and> r < dg_rows g"
proof -
  obtain f lm where f: "findLayoutEntry (verticalScrollOffset g) (rowLayoutManager g) = (f, lm)"
    by fastforce
  show ?thesis
    using assms f searched_view(2) [OF assms(1) f] found_ready(2) [OF _ f]
    by (cases "found_entry f") (auto simp: adjust_cursor_to_column_def firstRow_def)
qed

lemma adjust_cursor_to_row_view:
  assumes "v_ready (view g)" and "0 < dg_columns g"
  shows "\<exists>c. view (adjust_cursor_to_row r g) = (view g)\<lparr>v_column := c, v_row := r\<rparr> \<and> 0 \<le> c \<and> c < dg_columns g"
proof -
  obtain f lm where f: "findLayoutEntry (horizontalScrollOffset g) (columnLayoutManager g) = (f, lm)"
    by fastforce
  show ?thesis
    using assms f searched_view(1) [OF assms(1) f] found_ready(2) [OF _ f]
    by (cases "found_entry f") (auto simp: adjust_cursor_to_row_def firstColumn_def)
qed

section \<open>The invariant\<close>

definition range_within :: "int \<Rightarrow> selection_range \<Rightarrow> bool" where
  "range_within n r \<longleftrightarrow> 0 \<le> firstIndex r \<and> firstIndex r \<le> lastIndex r \<and> lastIndex r < n"

definition indexes_within :: "int \<Rightarrow> selection_indexes \<Rightarrow> bool" where
  "indexes_within n s \<longleftrightarrow> s \<noteq> [] \<and> distinct s \<and> list_all (\<lambda>i. 0 \<le> i \<and> i < n) s"

definition cells_within :: "int \<Rightarrow> int \<Rightarrow> cell_selection_range \<Rightarrow> bool" where
  "cells_within n m r \<longleftrightarrow> 0 \<le> firstColumnIndex r \<and> firstColumnIndex r \<le> lastColumnIndex r \<and> lastColumnIndex r < n \<and>
     0 \<le> firstRowIndex r \<and> firstRowIndex r \<le> lastRowIndex r \<and> lastRowIndex r < m"

text \<open>Of the five selection fields at most one is set.\<close>

definition one_selection :: "grid_view \<Rightarrow> bool" where
  "one_selection v \<longleftrightarrow>
     (v_cells v = None \<or> v_columnRange v = None \<and> v_columnIndexes v = None \<and> v_rowRange v = None \<and> v_rowIndexes v = None) \<and>
     (v_columnRange v = None \<or> v_columnIndexes v = None) \<and> (v_rowRange v = None \<or> v_rowIndexes v = None) \<and>
     (v_columnRange v = None \<and> v_columnIndexes v = None \<or> v_rowRange v = None \<and> v_rowIndexes v = None)"

text \<open>
  The sort keys are an ordered list of columns, each with its direction: the sort index of a key is its position.
\<close>

fun keys_of :: "int \<Rightarrow> (int \<times> bool) list \<Rightarrow> (int \<times> column_sort_key) list" where
  "keys_of i [] = []"
| "keys_of i ((c, a) # l) = (c, new_ColumnSortKeyDescriptor i c a) # keys_of (i + 1) l"

definition sort_order :: "(int \<times> column_sort_key) list \<Rightarrow> (int \<times> bool) list" where
  "sort_order ks = map (\<lambda>(c, k). (c, ascending k)) ks"

definition keys_ok :: "(int \<times> column_sort_key) list \<Rightarrow> bool" where
  "keys_ok ks \<longleftrightarrow> ks = keys_of 0 (sort_order ks) \<and> distinct (map fst ks)"

definition view_ok :: "grid_view \<Rightarrow> bool" where
  "view_ok v \<longleftrightarrow> v_ready v \<and> \<not> v_hidden v \<and> 0 \<le> v_column v \<and> v_column v < v_columns v \<and> 0 \<le> v_row v \<and> v_row v < v_rows v \<and>
     keys_ok (v_keys v) \<and> one_selection v \<and> pred_option (cells_within (v_columns v) (v_rows v)) (v_cells v) \<and>
     pred_option (range_within (v_columns v)) (v_columnRange v) \<and> pred_option (indexes_within (v_columns v)) (v_columnIndexes v) \<and>
     pred_option (range_within (v_rows v)) (v_rowRange v) \<and> pred_option (indexes_within (v_rows v)) (v_rowIndexes v)"

text \<open>A method that completes and leaves the invariant true.\<close>

definition keeps :: "data_grid result \<Rightarrow> bool" where
  "keeps r \<longleftrightarrow> (case r of Inl e \<Rightarrow> False | Inr g \<Rightarrow> view_ok (view g))"

lemma keeps_Inr [simp]: "keeps (Inr g) \<longleftrightarrow> view_ok (view g)"
  by (simp add: keeps_def)

text \<open>
  The selection sets of multi selection. Turning a range into indexes keeps them in the table, although it adds
  an index that was not selected: the difference of the bounds is an index of the table too.
\<close>

lemma si_add_set: "set (si_add i s) = insert i (set s)"
  and distinct_si_add: "distinct (si_add i s) \<longleftrightarrow> distinct s"
  by (auto simp: si_add_def)

lemma fold_si_add: "set (fold si_add is s) = set is \<union> set s \<and> (distinct s \<longrightarrow> distinct (fold si_add is s))"
  by (induction "is" arbitrary: s) (auto simp: si_add_set distinct_si_add)

lemma new_SelectionIndexes_set [simp]: "set (new_SelectionIndexes is) = set is"
  and distinct_new_SelectionIndexes [simp]: "distinct (new_SelectionIndexes is)"
  using fold_si_add [of "is" "[]"] by (simp_all add: new_SelectionIndexes_def)

lemma sr_indexes_set: "set (sr_indexes r) = insert (lastIndex r - firstIndex r) {firstIndex r..lastIndex r}"
  by (simp add: sr_indexes_def)

lemma indexes_within_iff: "indexes_within n s \<longleftrightarrow> set s \<noteq> {} \<and> distinct s \<and> (\<forall>i \<in> set s. 0 \<le> i \<and> i < n)"
  by (simp add: indexes_within_def list_all_iff)

lemma indexes_within_new [simp]: "indexes_within n (new_SelectionIndexes [i]) \<longleftrightarrow> 0 \<le> i \<and> i < n"
  by (simp add: indexes_within_iff)

lemma unselect_within: "pred_option (indexes_within n) s \<Longrightarrow> pred_option (indexes_within n) (unselect i s)"
  by (auto simp: unselect_def si_delete_def si_isEmpty_def indexes_within_def list_all_iff Let_def split: option.splits)

lemma indexes_within_add:
  assumes "0 \<le> i" and "i < n" and "distinct s" and "\<forall>j \<in> set s. 0 \<le> j \<and> j < n"
  shows "indexes_within n (si_add i s)"
  unfolding indexes_within_iff si_add_set distinct_si_add using assms by auto

lemma also_select_within:
  assumes "pred_option (range_within n) r" and "pred_option (indexes_within n) s" and "0 \<le> i" and "i < n"
    and "also_select i r s = (r', s')" and "r = None \<or> s = None"
  shows "r' = None" and "\<exists>t. s' = Some t \<and> indexes_within n t"
proof -
  show "r' = None"
    using assms(5,6) by (auto simp: also_select_def split: option.splits)
  have "indexes_within n (si_add i (sr_indexes x))" if "range_within n x" for x
    using assms(3,4) that by (intro indexes_within_add) (auto simp: sr_indexes_def range_within_def)
  moreover have "indexes_within n (si_add i t)" if "indexes_within n t" for t
    using assms(3,4) that by (intro indexes_within_add) (auto simp: indexes_within_iff)
  ultimately show "\<exists>t. s' = Some t \<and> indexes_within n t"
    using assms(1-5) by (auto simp: also_select_def split: option.splits)
qed

section \<open>The methods keep the invariant\<close>

lemmas view_ok_defs = view_ok_def one_selection_def range_within_def cells_within_def

lemma view_ok_ready: "view_ok (view g) \<Longrightarrow> v_ready (view g)"
  by (simp add: view_ok_def)

lemma scroll_keeps:
  assumes "view_ok (view g)"
  shows "keeps (bind_result (scrollToCell c r g) (\<lambda>g. Inr (fire_update g)))" and "keeps (scrollToCell c r g)"
  using scrollToCell_ok [OF view_ok_ready [OF assms], of c r] assms by auto

lemma setCursorPosition_view [simp]: "view (setCursorPosition c r g) = (view g)\<lparr>v_column := c, v_row := r\<rparr>"
  and setCursorColumn_view [simp]: "view (setCursorColumn c g) = (view g)\<lparr>v_column := c\<rparr>"
  and setCursorRow_view [simp]: "view (setCursorRow r g) = (view g)\<lparr>v_row := r\<rparr>"
  by (simp_all add: setCursorPosition_def setCursorColumn_def setCursorRow_def view_def fire_update_def)

lemma mouseSelectCell_keeps:
  assumes "view_ok (view g)" and "0 \<le> c" and "c < dg_columns g" and "0 \<le> r" and "r < dg_rows g"
  shows "keeps (mouseSelectCell c r t g)"
  unfolding mouseSelectCell_def scrollToCursor_def Let_def
  by (cases t; simp only: mouse_selection_type.case keeps_Inr; (rule scroll_keeps(1))?)
    (use assms in \<open>auto simp: view_ok_defs new_CellSelectionRange_def\<close>)

lemma view_swap:
  "v\<lparr>v_columnIndexes := s, v_columnRange := r\<rparr> = v\<lparr>v_columnRange := r, v_columnIndexes := s\<rparr>"
  "v\<lparr>v_rowIndexes := s, v_rowRange := r\<rparr> = v\<lparr>v_rowRange := r, v_rowIndexes := s\<rparr>" for v :: grid_view
  by simp_all

lemma spanned_within:
  assumes "0 \<le> i" and "i < n" and "0 \<le> j" and "j < n"
  shows "range_within n (new_SelectionRange (min i j) (max i j))"
  using assms by (auto simp: range_within_def new_SelectionRange_def)

lemma columns_selected:
  assumes "view_ok (view g)" and "pred_option (range_within (dg_columns g)) r"
    and "pred_option (indexes_within (dg_columns g)) s" and "r = None \<or> s = None"
  shows "view_ok ((view g)\<lparr>v_cells := None, v_rowRange := None, v_rowIndexes := None, v_columnRange := r, v_columnIndexes := s\<rparr>)"
  using assms by (auto simp: view_ok_def one_selection_def)

lemma rows_selected:
  assumes "view_ok (view g)" and "pred_option (range_within (dg_rows g)) r"
    and "pred_option (indexes_within (dg_rows g)) s" and "r = None \<or> s = None"
  shows "view_ok ((view g)\<lparr>v_cells := None, v_columnRange := None, v_columnIndexes := None, v_rowRange := r, v_rowIndexes := s\<rparr>)"
  using assms by (auto simp: view_ok_def one_selection_def)

lemma adjust_cursor_ok:
  assumes "view_ok (view g)"
  shows "0 \<le> c \<Longrightarrow> c < dg_columns g \<Longrightarrow> view_ok (view (adjust_cursor_to_column c g))"
    and "0 \<le> r \<Longrightarrow> r < dg_rows g \<Longrightarrow> view_ok (view (adjust_cursor_to_row r g))"
proof -
  have move: "view_ok ((view g)\<lparr>v_column := i, v_row := j\<rparr>)" if "0 \<le> i" "i < dg_columns g" "0 \<le> j" "j < dg_rows g" for i j
    using assms that by (simp add: view_ok_def one_selection_def)
  have pos: "v_ready (view g)" "0 < dg_rows g" "0 < dg_columns g"
    using assms by (auto simp: view_ok_def)
  show "0 \<le> c \<Longrightarrow> c < dg_columns g \<Longrightarrow> view_ok (view (adjust_cursor_to_column c g))"
    using adjust_cursor_to_column_view [OF pos(1,2), of c] move by auto
  show "0 \<le> r \<Longrightarrow> r < dg_rows g \<Longrightarrow> view_ok (view (adjust_cursor_to_row r g))"
    using adjust_cursor_to_row_view [OF pos(1,3), of r] move by auto
qed

lemma mouseSelectColumn_keeps:
  assumes "view_ok (view g)" and "0 \<le> c" and "c < dg_columns g"
  shows "view_ok (view (mouseSelectColumn c t g))"
proof -
  have cur: "0 \<le> cursorColumnIndex g" "cursorColumnIndex g < dg_columns g"
    and sel: "pred_option (range_within (dg_columns g)) (columnSelectionRange g)"
      "pred_option (indexes_within (dg_columns g)) (columnSelectionIndexes g)"
      "columnSelectionRange g = None \<or> columnSelectionIndexes g = None"
    using assms(1) by (auto simp: view_ok_def one_selection_def)
  note further = also_select_within [OF sel(1,2) assms(2,3) _ sel(3)]
  note selected = columns_selected [OF assms(1)]
  show ?thesis
  proof (cases t)
    case Single
    then show ?thesis
      using selected [of None "Some (new_SelectionIndexes [c])"] assms(2,3)
      by (simp add: mouseSelectColumn_def adjust_cursor_ok)
  next
    case Range_selection
    then show ?thesis
      using selected [of "Some (new_SelectionRange (min (cursorColumnIndex g) c) (max (cursorColumnIndex g) c))" None] spanned_within [OF cur assms(2,3)]
      by (simp add: mouseSelectColumn_def view_swap)
  next
    case Multi
    obtain r s where rs: "also_select c (columnSelectionRange g) (columnSelectionIndexes g) = (r, s)"
      by fastforce
    let ?v = "(view g)\<lparr>v_cells := None, v_rowRange := None, v_rowIndexes := None\<rparr>"
    have "view_ok ?v" "view_ok (?v\<lparr>v_columnIndexes := unselect c (columnSelectionIndexes g)\<rparr>)"
      using assms(1) unselect_within [OF sel(2), of c] by (auto simp: view_ok_def one_selection_def unselect_def)
    then show ?thesis
      using Multi rs further [OF rs] selected [of r s] assms(2,3)
      by (auto simp: mouseSelectColumn_def Let_def adjust_cursor_ok)
  qed
qed

lemma mouseSelectRow_keeps:
  assumes "view_ok (view g)" and "0 \<le> i" and "i < dg_rows g"
  shows "view_ok (view (mouseSelectRow i t g))"
proof -
  have cur: "0 \<le> cursorRowIndex g" "cursorRowIndex g < dg_rows g"
    and sel: "pred_option (range_within (dg_rows g)) (rowSelectionRange g)"
      "pred_option (indexes_within (dg_rows g)) (rowSelectionIndexes g)"
      "rowSelectionRange g = None \<or> rowSelectionIndexes g = None"
    using assms(1) by (auto simp: view_ok_def one_selection_def)
  note further = also_select_within [OF sel(1,2) assms(2,3) _ sel(3)]
  note selected = rows_selected [OF assms(1)]
  show ?thesis
  proof (cases t)
    case Single
    then show ?thesis
      using selected [of None "Some (new_SelectionIndexes [i])"] assms(2,3)
      by (simp add: mouseSelectRow_def adjust_cursor_ok)
  next
    case Range_selection
    then show ?thesis
      using selected [of "Some (new_SelectionRange (min (cursorRowIndex g) i) (max (cursorRowIndex g) i))" None] spanned_within [OF cur assms(2,3)]
      by (simp add: mouseSelectRow_def view_swap)
  next
    case Multi
    obtain r s where rs: "also_select i (rowSelectionRange g) (rowSelectionIndexes g) = (r, s)"
      by fastforce
    let ?v = "(view g)\<lparr>v_cells := None, v_columnRange := None, v_columnIndexes := None\<rparr>"
    have "view_ok ?v" "view_ok (?v\<lparr>v_rowIndexes := unselect i (rowSelectionIndexes g)\<rparr>)"
      using assms(1) unselect_within [OF sel(2), of i] by (auto simp: view_ok_def one_selection_def unselect_def)
    then show ?thesis
      using Multi rs further [OF rs] selected [of r s] assms(2,3)
      by (auto simp: mouseSelectRow_def Let_def adjust_cursor_ok)
  qed
qed

text \<open>Extending: a range grows or shrinks at the end away from the cursor, and the cursor stays inside it.\<close>

lemma selection_cases:
  assumes "view_ok (view g)"
  obtains (cells) r where "cellSelectionRange g = Some r" "columnSelectionRange g = None" "columnSelectionIndexes g = None"
      "rowSelectionRange g = None" "rowSelectionIndexes g = None" "cells_within (dg_columns g) (dg_rows g) r"
    | (column_range) r where "cellSelectionRange g = None" "columnSelectionRange g = Some r" "columnSelectionIndexes g = None"
      "rowSelectionRange g = None" "rowSelectionIndexes g = None" "range_within (dg_columns g) r"
    | (column_indexes) s where "cellSelectionRange g = None" "columnSelectionRange g = None" "columnSelectionIndexes g = Some s"
      "rowSelectionRange g = None" "rowSelectionIndexes g = None" "indexes_within (dg_columns g) s"
    | (row_range) r where "cellSelectionRange g = None" "columnSelectionRange g = None" "columnSelectionIndexes g = None"
      "rowSelectionRange g = Some r" "rowSelectionIndexes g = None" "range_within (dg_rows g) r"
    | (row_indexes) s where "cellSelectionRange g = None" "columnSelectionRange g = None" "columnSelectionIndexes g = None"
      "rowSelectionRange g = None" "rowSelectionIndexes g = Some s" "indexes_within (dg_rows g) s"
    | (nothing) "cellSelectionRange g = None" "columnSelectionRange g = None" "columnSelectionIndexes g = None"
      "rowSelectionRange g = None" "rowSelectionIndexes g = None"
  using assms
  by (cases "cellSelectionRange g"; cases "columnSelectionRange g"; cases "columnSelectionIndexes g";
      cases "rowSelectionRange g"; cases "rowSelectionIndexes g") (simp_all add: view_ok_def one_selection_def)

lemma cursor_within:
  assumes "view_ok (view g)"
  shows "0 \<le> cursorColumnIndex g" "cursorColumnIndex g < dg_columns g" "0 \<le> cursorRowIndex g" "cursorRowIndex g < dg_rows g"
  using assms by (simp_all add: view_ok_def)

text \<open>The three ways a selection changes while it keeps its kind, or starts.\<close>

lemma cells_extended:
  assumes "view_ok (view g)" and "cells_within (dg_columns g) (dg_rows g) r"
    and "columnSelectionRange g = None" "columnSelectionIndexes g = None" "rowSelectionRange g = None" "rowSelectionIndexes g = None"
  shows "view_ok ((view g)\<lparr>v_cells := Some r\<rparr>)"
  using assms by (simp add: view_ok_def one_selection_def)

lemma columns_extended:
  assumes "view_ok (view g)" and "range_within (dg_columns g) r"
    and "cellSelectionRange g = None" "rowSelectionRange g = None" "rowSelectionIndexes g = None"
  shows "columnSelectionIndexes g = None \<Longrightarrow> view_ok ((view g)\<lparr>v_columnRange := Some r\<rparr>)"
    and "view_ok ((view g)\<lparr>v_columnIndexes := None, v_columnRange := Some r\<rparr>)"
  using assms by (simp_all add: view_ok_def one_selection_def)

lemma rows_extended:
  assumes "view_ok (view g)" and "range_within (dg_rows g) r"
    and "cellSelectionRange g = None" "columnSelectionRange g = None" "columnSelectionIndexes g = None"
  shows "rowSelectionIndexes g = None \<Longrightarrow> view_ok ((view g)\<lparr>v_rowRange := Some r\<rparr>)"
    and "view_ok ((view g)\<lparr>v_rowIndexes := None, v_rowRange := Some r\<rparr>)"
  using assms by (simp_all add: view_ok_def one_selection_def)

lemmas extending = extendColumnSelectionLeft_def extendColumnSelectionRight_def extendRowSelectionUp_def extendRowSelectionDown_def
lemmas extended = cells_extended columns_extended rows_extended new_SelectionRange_def new_CellSelectionRange_def range_within_def
  cells_within_def

lemma extend_keeps:
  assumes "view_ok (view g)"
  shows "keeps (extendColumnSelectionLeft cs g)" and "keeps (extendColumnSelectionRight cs g)"
    and "keeps (extendRowSelectionUp rs g)" and "keeps (extendRowSelectionDown rs g)"
  by (use assms cursor_within [OF assms] in \<open>cases rule: selection_cases [OF assms];
      auto simp: extending extended intro!: scroll_keeps(1)\<close>)+

text \<open>Sizes and layouts.\<close>

lemma override_nonempty:
  assumes "setLayoutOverride i v lm = Inr lm'" and "lm_entries lm \<noteq> Entries []"
  shows "lm_entries lm' \<noteq> Entries []"
  using assms
  by (auto simp: setLayoutOverride_def adjust_entries_def override_entry_def discard_cached_def Let_def
      split: if_splits option.splits layout_entries.splits)

lemma override_ready:
  assumes "layout_ready lm n"
  shows "\<exists>lm'. setLayoutOverride i v lm = Inr lm' \<and> layout_ready lm' n"
  using setLayoutOverride_ok [of lm i v] override_nonempty [of i v lm] assms
  by (auto simp: layout_ready_def updated_at_def split: if_splits)

definition layout_fits :: "layout_sizes \<Rightarrow> int \<Rightarrow> bool" where
  "layout_fits sizes n \<longleftrightarrow> sizes_ok sizes \<and> sizes \<noteq> Sizes [] \<and>
     (case sizes of Number k \<Rightarrow> k \<le> n | Sizes ss \<Rightarrow> int (length ss) \<le> n)"

lemma length_build_entries: "length (build_entries os k start ss) = length ss"
  using arg_cong [OF build_entries_defaults, of length] by simp

lemma layout_fits_ready:
  assumes "layout_ready lm n" and "layout_fits sizes n"
  shows "layout_ready (setLayoutEntries sizes lm) n"
proof -
  have "build_entries os k start ss \<noteq> []" if "ss \<noteq> []" for os k start ss
    using that length_build_entries [of os k start ss] by auto
  then show ?thesis
    using assms lm_ok_setLayoutEntries [of lm sizes]
    by (auto simp: layout_ready_def layout_fits_def setLayoutEntries_def spec_count_def length_build_entries
        split: layout_sizes.splits)
qed

lemma relaid_view:
  "layout_ready lm (dg_columns g) \<Longrightarrow> v_ready (view g) \<Longrightarrow> view (g\<lparr>columnLayoutManager := lm\<rparr>) = view g"
  "layout_ready lm (dg_rows g) \<Longrightarrow> v_ready (view g) \<Longrightarrow> view (g\<lparr>rowLayoutManager := lm\<rparr>) = view g"
  by (simp_all add: view_def)

lemma resize_keeps:
  assumes "view_ok (view g)"
  shows "keeps (setColumnWidth i w g)" and "keeps (setRowHeight i w g)" and "keeps (setSize w h g)"
proof -
  have "\<exists>m. maximumVerticalScrollOffset (g\<lparr>dg_width := w, dg_height := h\<rparr>) = Inr m"
    using ready_maximum(2) [of "g\<lparr>dg_width := w, dg_height := h\<rparr>"] view_ok_ready [OF assms] by simp
  then show "keeps (setSize w h g)"
    using assms by (auto simp: setSize_def Let_def)
  show "keeps (setColumnWidth i w g)" "keeps (setRowHeight i w g)"
    using assms view_ok_ready [OF assms] override_ready [of "columnLayoutManager g" "dg_columns g" i w]
      override_ready [of "rowLayoutManager g" "dg_rows g" i w]
    by (auto simp: setColumnWidth_def setRowHeight_def relaid_view)
qed

lemma page_keeps:
  assumes "view_ok (view g)"
  shows "view_ok (view (scrollPageUp g))" and "keeps (scrollPageDown g)"
proof -
  obtain f lm where f: "findLayoutEntry (verticalScrollOffset g) (rowLayoutManager g) = (f, lm)"
    by fastforce
  let ?g = "g\<lparr>rowLayoutManager := lm\<rparr>"
  have v: "view ?g = view g"
    by (rule searched_view(2) [OF view_ok_ready [OF assms] f])
  show "view_ok (view (scrollPageUp g))"
    using assms f v by (simp add: scrollPageUp_def Let_def)
  obtain m where "maximumVerticalScrollOffset ?g = Inr m"
    using ready_maximum(2) [of ?g] v view_ok_ready [OF assms] by metis
  then show "keeps (scrollPageDown g)"
    using assms f v by (simp add: scrollPageDown_def Let_def)
qed

end
