(* ===== verification/Grid_Runs.thy ===== *)
theory Grid_Runs
  imports Grid_Laws
begin

text \<open>
  Runs of the data grid: the sort keys as an ordered list of columns, the calls of the methods in any order, and what
  holds of every grid they lead to.
\<close>

section \<open>Sort keys\<close>

lemma keys_of_fst [simp]: "map fst (keys_of i l) = map fst l"
  by (induction i l rule: keys_of.induct) simp_all

lemma sort_order_keys_of [simp]: "sort_order (keys_of i l) = l"
  by (induction i l rule: keys_of.induct) (simp_all add: sort_order_def new_ColumnSortKeyDescriptor_def)

lemma keys_ok_of: "distinct (map fst l) \<Longrightarrow> keys_ok (keys_of 0 l)"
  by (simp add: keys_ok_def)

lemma keys_of_append: "keys_of i (l @ m) = keys_of i l @ keys_of (i + int (length l)) m"
  by (induction i l rule: keys_of.induct) (simp_all add: algebra_simps)

lemma length_keys_of [simp]: "length (keys_of i l) = length l"
  by (induction i l rule: keys_of.induct) simp_all

lemma keys_of_range: "(c, k) \<in> set (keys_of i l) \<Longrightarrow> i \<le> sortIndex k \<and> sortIndex k < i + int (length l)"
  by (induction i l rule: keys_of.induct) (auto simp: new_ColumnSortKeyDescriptor_def)

lemma keys_of_sorted: "sort_key sortIndex (map snd (keys_of i l)) = map snd (keys_of i l)"
proof (rule sort_key_id_if_sorted)
  show "sorted (map sortIndex (map snd (keys_of i l)))"
    by (induction i l rule: keys_of.induct)
      (auto simp: new_ColumnSortKeyDescriptor_def dest!: keys_of_range)
qed

lemma map_of_keys_of: "map_of (keys_of i l) c = None \<longleftrightarrow> c \<notin> fst ` set l"
  by (induction i l rule: keys_of.induct) auto

definition set_direction :: "int \<Rightarrow> bool \<Rightarrow> (int \<times> bool) list \<Rightarrow> (int \<times> bool) list" where
  "set_direction c a l = map (\<lambda>(d, b). (d, if d = c then a else b)) l"

lemma set_direction_fst [simp]: "map fst (set_direction c a l) = map fst l"
  by (induction l) (auto simp: set_direction_def)

lemma keys_of_direction:
  "map (\<lambda>(d, k). (d, if d = c then k\<lparr>ascending := a\<rparr> else k)) (keys_of i l) = keys_of i (set_direction c a l)"
  by (induction i l rule: keys_of.induct) (simp_all add: set_direction_def new_ColumnSortKeyDescriptor_def)

lemma same_direction:
  assumes "map_of (keys_of i l) c = Some k" and "distinct (map fst l)"
  shows "set_direction c (ascending k) l = l"
  using assms
proof (induction i l rule: keys_of.induct)
  case (2 i d b l)
  have "set_direction c a l = l" if "c \<notin> fst ` set l" for a
    using that by (induction l) (auto simp: set_direction_def)
  with 2 show ?case
    by (auto simp: set_direction_def new_ColumnSortKeyDescriptor_def split: if_splits)
qed simp

abbreviation closed_up :: "int \<Rightarrow> int \<times> column_sort_key \<Rightarrow> int \<times> column_sort_key" where
  "closed_up j \<equiv> \<lambda>(c, k). (c, if sortIndex k > j then k\<lparr>sortIndex := sortIndex k - 1\<rparr> else k)"

lemma keys_of_shift: "j < i \<Longrightarrow> map (closed_up j) (keys_of i l) = keys_of (i - 1) l"
  by (induction i l rule: keys_of.induct) (simp_all add: new_ColumnSortKeyDescriptor_def)

lemma keys_of_absent: "c \<notin> fst ` set l \<Longrightarrow> filter (\<lambda>(d, k). d \<noteq> c) (keys_of i l) = keys_of i l"
  by (induction i l rule: keys_of.induct) auto

lemma keys_of_remove:
  assumes "map_of (keys_of i l) c = Some key" and "distinct (map fst l)"
  shows "map (closed_up (sortIndex key)) (filter (\<lambda>(d, k). d \<noteq> c) (keys_of i l)) =
    keys_of i (filter (\<lambda>(d, a). d \<noteq> c) l)"
  using assms
proof (induction i l rule: keys_of.induct)
  case (2 i d a l)
  show ?case
  proof (cases "d = c")
    case True
    then have "filter (\<lambda>(d, a). d \<noteq> c) l = l"
      using 2(3) by (force simp: filter_id_conv)
    moreover have "sortIndex key = i"
      using 2(2) True by (auto simp: new_ColumnSortKeyDescriptor_def)
    ultimately show ?thesis
      using True 2(3) keys_of_shift [of i "i + 1" l] keys_of_absent [of c l "i + 1"] by simp
  next
    case False
    then have "i < sortIndex key"
      using 2(2) by (auto dest!: map_of_SomeD keys_of_range)
    with False 2 show ?thesis
      by (simp add: new_ColumnSortKeyDescriptor_def)
  qed
qed simp

text \<open>The abstract operations on the ordered list, and what the grid asks the data to be sorted by.\<close>

definition sort_by :: "int \<Rightarrow> bool \<Rightarrow> (int \<times> bool) list \<Rightarrow> (int \<times> bool) list" where
  "sort_by c a l = (if c \<in> fst ` set l then set_direction c a l else l @ [(c, a)])"

definition unsort :: "int \<Rightarrow> (int \<times> bool) list \<Rightarrow> (int \<times> bool) list" where
  "unsort c l = filter (\<lambda>(d, a). d \<noteq> c) l"

lemma sort_effects [simp]:
  "columnSortKeys (doSortData g) = columnSortKeys g" "columnSortKeys (fire_update g) = columnSortKeys g"
  "columnSortKeys (fire_sorting b g) = columnSortKeys g"
  by (simp_all add: doSortData_def fire_update_def fire_sorting_def)

lemma last_doSortData:
  assumes "h = g \<or> (\<exists>h'. h = doSortData h')" and "columnSortKeys h = keys_of i l"
  shows "h = g \<or> last (dg_log h) = SortData (map snd (columnSortKeys h))"
  using assms keys_of_sorted [of i l] by (auto simp: doSortData_def)

lemma distinct_sort_by: "distinct (map fst l) \<Longrightarrow> distinct (map fst (sort_by c a l))"
  by (simp add: sort_by_def)

lemma distinct_unsort: "distinct (map fst l) \<Longrightarrow> distinct (map fst (unsort c l))"
  by (simp add: unsort_def distinct_map_filter)

lemma setColumnSortKey_keys:
  assumes "keys_ok (columnSortKeys g)"
  shows "columnSortKeys (setColumnSortKey c a g) = keys_of 0 (sort_by c a (sort_order (columnSortKeys g)))" (is ?keys)
    and "setColumnSortKey c a g = g \<or>
      last (dg_log (setColumnSortKey c a g)) = SortData (map snd (columnSortKeys (setColumnSortKey c a g)))" (is ?log)
proof -
  obtain l where l: "columnSortKeys g = keys_of 0 l" "distinct (map fst l)" "sort_order (columnSortKeys g) = l"
    using assms by (metis keys_of_fst keys_ok_def)
  show keys: ?keys
    using map_of_keys_of [of 0 l c] same_direction [of 0 l c] l
    by (cases "map_of (keys_of 0 l) c")
      (auto simp: setColumnSortKey_def sort_by_def keys_of_direction keys_of_append)
  show ?log
    by (rule last_doSortData [OF _ keys]) (auto simp: setColumnSortKey_def split: option.split)
qed

lemma removeColumnSortKey_keys:
  assumes "keys_ok (columnSortKeys g)"
  shows "columnSortKeys (removeColumnSortKey c g) = keys_of 0 (unsort c (sort_order (columnSortKeys g)))" (is ?keys)
    and "removeColumnSortKey c g = g \<or>
      last (dg_log (removeColumnSortKey c g)) = SortData (map snd (columnSortKeys (removeColumnSortKey c g)))" (is ?log)
proof -
  obtain l where l: "columnSortKeys g = keys_of 0 l" "distinct (map fst l)" "sort_order (columnSortKeys g) = l"
    using assms by (metis keys_of_fst keys_ok_def)
  have "unsort c l = l" if "c \<notin> fst ` set l"
    using that by (force simp: unsort_def filter_id_conv)
  then show keys: ?keys
    using map_of_keys_of [of 0 l c] keys_of_remove [of 0 l c] l
    by (cases "map_of (keys_of 0 l) c") (auto simp: removeColumnSortKey_def Let_def unsort_def)
  show ?log
    by (rule last_doSortData [OF _ keys]) (auto simp: removeColumnSortKey_def Let_def split: option.split)
qed

section \<open>Reachable grids\<close>

datatype grid_op =
    SetFocused bool | SetCursorPosition int int | SetCursorColumn int | SetCursorRow int | ShowCursor
  | SetColumnWidth int int | SetRowHeight int int | SetRowHeadersWidth int | SetSize int int
  | SetScrollOffsets int int | SetHorizontalScrollOffset int | SetVerticalScrollOffset int
  | ScrollPageUp | ScrollPageDown | ScrollToCursor | ScrollToCell int int | ScrollToColumn int | ScrollToRow int
  | SetColumnSortKey int bool | RemoveColumnSortKey int | ClearColumnSortKeys
  | SoftReset | ClearSelection | SelectAll | MouseSelectCell int int mouse_selection_type
  | MouseSelectColumn int mouse_selection_type | MouseSelectRow int mouse_selection_type
  | SelectColumn int | SelectRow int
  | ExtendLeft extend_column_selection_by | ExtendRight extend_column_selection_by
  | ExtendUp extend_row_selection_by | ExtendDown extend_row_selection_by
  | LayoutColumns layout_sizes | LayoutRows layout_sizes

fun grid_step :: "data_grid \<Rightarrow> grid_op \<Rightarrow> data_grid result" where
  "grid_step g (SetFocused b) = Inr (setFocused b g)"
| "grid_step g (SetCursorPosition c r) = Inr (setCursorPosition c r g)"
| "grid_step g (SetCursorColumn c) = Inr (setCursorColumn c g)"
| "grid_step g (SetCursorRow r) = Inr (setCursorRow r g)"
| "grid_step g ShowCursor = Inr (snd (showCursor g))"
| "grid_step g (SetColumnWidth i w) = setColumnWidth i w g"
| "grid_step g (SetRowHeight i h) = setRowHeight i h g"
| "grid_step g (SetRowHeadersWidth w) = Inr (setRowHeadersWidth w g)"
| "grid_step g (SetSize w h) = setSize w h g"
| "grid_step g (SetScrollOffsets h v) = Inr (setScrollOffsets h v g)"
| "grid_step g (SetHorizontalScrollOffset h) = Inr (setHorizontalScrollOffset h g)"
| "grid_step g (SetVerticalScrollOffset v) = Inr (setVerticalScrollOffset v g)"
| "grid_step g ScrollPageUp = Inr (scrollPageUp g)"
| "grid_step g ScrollPageDown = scrollPageDown g"
| "grid_step g ScrollToCursor = scrollToCursor g"
| "grid_step g (ScrollToCell c r) = scrollToCell c r g"
| "grid_step g (ScrollToColumn c) = Inr (scrollToColumn c g)"
| "grid_step g (ScrollToRow r) = Inr (scrollToRow r g)"
| "grid_step g (SetColumnSortKey c a) = Inr (setColumnSortKey c a g)"
| "grid_step g (RemoveColumnSortKey c) = Inr (removeColumnSortKey c g)"
| "grid_step g ClearColumnSortKeys = Inr (clearColumnSortKeys g)"
| "grid_step g SoftReset = Inr (softReset g)"
| "grid_step g ClearSelection = Inr (clearSelection g)"
| "grid_step g SelectAll = Inr (selectAll g)"
| "grid_step g (MouseSelectCell c r t) = mouseSelectCell c r t g"
| "grid_step g (MouseSelectColumn c t) = Inr (mouseSelectColumn c t g)"
| "grid_step g (MouseSelectRow r t) = Inr (mouseSelectRow r t g)"
| "grid_step g (SelectColumn c) = Inr (selectColumn c g)"
| "grid_step g (SelectRow r) = Inr (selectRow r g)"
| "grid_step g (ExtendLeft by) = extendColumnSelectionLeft by g"
| "grid_step g (ExtendRight by) = extendColumnSelectionRight by g"
| "grid_step g (ExtendUp by) = extendRowSelectionUp by g"
| "grid_step g (ExtendDown by) = extendRowSelectionDown by g"
| "grid_step g (LayoutColumns sizes) = Inr (g\<lparr>columnLayoutManager := setLayoutEntries sizes (columnLayoutManager g)\<rparr>)"
| "grid_step g (LayoutRows sizes) = Inr (g\<lparr>rowLayoutManager := setLayoutEntries sizes (rowLayoutManager g)\<rparr>)"

text \<open>
  The calls the grid's views make: the cells, columns and rows they name are of the table, and the layouts a
  subclass sets fit it. Scrolling, sizing and sorting take any arguments.
\<close>

fun op_valid :: "grid_op \<Rightarrow> int \<Rightarrow> int \<Rightarrow> bool" where
  "op_valid (SetCursorPosition c r) n m \<longleftrightarrow> 0 \<le> c \<and> c < n \<and> 0 \<le> r \<and> r < m"
| "op_valid (SetCursorColumn c) n m \<longleftrightarrow> 0 \<le> c \<and> c < n"
| "op_valid (SetCursorRow r) n m \<longleftrightarrow> 0 \<le> r \<and> r < m"
| "op_valid (MouseSelectCell c r t) n m \<longleftrightarrow> 0 \<le> c \<and> c < n \<and> 0 \<le> r \<and> r < m"
| "op_valid (MouseSelectColumn c t) n m \<longleftrightarrow> 0 \<le> c \<and> c < n"
| "op_valid (MouseSelectRow r t) n m \<longleftrightarrow> 0 \<le> r \<and> r < m"
| "op_valid (SelectColumn c) n m \<longleftrightarrow> 0 \<le> c \<and> c < n"
| "op_valid (SelectRow r) n m \<longleftrightarrow> 0 \<le> r \<and> r < m"
| "op_valid (LayoutColumns sizes) n m \<longleftrightarrow> layout_fits sizes n"
| "op_valid (LayoutRows sizes) n m \<longleftrightarrow> layout_fits sizes m"
| "op_valid _ n m \<longleftrightarrow> True"


lemma sort_view:
  "view (setColumnSortKey c a g) = (view g)\<lparr>v_keys := columnSortKeys (setColumnSortKey c a g)\<rparr>"
  "view (removeColumnSortKey c g) = (view g)\<lparr>v_keys := columnSortKeys (removeColumnSortKey c g)\<rparr>"
  "view (clearColumnSortKeys g) = (view g)\<lparr>v_keys := []\<rparr>"
proof -
  have same: "(view g)\<lparr>v_keys := columnSortKeys g\<rparr> = view g"
    by (simp add: view_def)
  show "view (setColumnSortKey c a g) = (view g)\<lparr>v_keys := columnSortKeys (setColumnSortKey c a g)\<rparr>"
    by (simp add: setColumnSortKey_def same split: option.split)
  show "view (removeColumnSortKey c g) = (view g)\<lparr>v_keys := columnSortKeys (removeColumnSortKey c g)\<rparr>"
    by (simp add: removeColumnSortKey_def same Let_def split: option.split)
qed (simp add: clearColumnSortKeys_def)

lemma sort_keeps:
  assumes "view_ok (view g)"
  shows "view_ok (view (setColumnSortKey c a g))" and "view_ok (view (removeColumnSortKey c g))"
    and "view_ok (view (clearColumnSortKeys g))"
proof -
  have keys: "keys_ok (columnSortKeys g)"
    using assms by (simp add: view_ok_def)
  then have d: "distinct (map fst (sort_order (columnSortKeys g)))"
    unfolding keys_ok_def by (metis keys_of_fst)
  have ok: "view_ok ((view g)\<lparr>v_keys := keys_of 0 l\<rparr>)" if "distinct (map fst l)" for l
    using assms keys_ok_of [OF that] by (simp add: view_ok_def one_selection_def)
  show "view_ok (view (setColumnSortKey c a g))" "view_ok (view (removeColumnSortKey c g))"
    unfolding sort_view(1,2) setColumnSortKey_keys(1) [OF keys] removeColumnSortKey_keys(1) [OF keys]
    by (rule ok, rule distinct_sort_by distinct_unsort, rule d)+
  show "view_ok (view (clearColumnSortKeys g))"
    using ok [of "[]"] by (simp add: sort_view(3))
qed

lemma cursor_keeps:
  assumes "view_ok (view g)" and "0 \<le> c" and "c < dg_columns g" and "0 \<le> r" and "r < dg_rows g"
  shows "view_ok ((view g)\<lparr>v_column := c, v_row := r\<rparr>)"
  using assms by (simp add: view_ok_def one_selection_def)

lemma select_keeps:
  assumes "view_ok (view g)"
  shows "view_ok (view (clearSelection g))" and "view_ok (view (selectAll g))" and "view_ok (view (softReset g))"
    and "0 \<le> i \<Longrightarrow> i < dg_columns g \<Longrightarrow> view_ok (view (selectColumn i g))"
    and "0 \<le> i \<Longrightarrow> i < dg_rows g \<Longrightarrow> view_ok (view (selectRow i g))"
  using assms
  by (simp_all add: clearSelection_def selectAll_def softReset_def resetSelection_def selectColumn_def selectRow_def Let_def
      view_ok_def one_selection_def range_within_def new_SelectionRange_def)

lemma step_keeps:
  assumes "view_ok (view g)" and "op_valid op (dg_columns g) (dg_rows g)"
  shows "keeps (grid_step g op)"
proof -
  have "layout_ready (columnLayoutManager g) (dg_columns g)" "layout_ready (rowLayoutManager g) (dg_rows g)"
    using view_ok_ready [OF assms(1)] by simp_all
  then have laid: "layout_fits sizes (dg_columns g) \<Longrightarrow>
        view (g\<lparr>columnLayoutManager := setLayoutEntries sizes (columnLayoutManager g)\<rparr>) = view g"
      "layout_fits sizes (dg_rows g) \<Longrightarrow> view (g\<lparr>rowLayoutManager := setLayoutEntries sizes (rowLayoutManager g)\<rparr>) = view g"
    for sizes
    using layout_fits_ready relaid_view view_ok_ready [OF assms(1)] by blast+
  have cursor: "0 \<le> c \<Longrightarrow> c < dg_columns g \<Longrightarrow> view_ok ((view g)\<lparr>v_column := c\<rparr>)"
      "0 \<le> r \<Longrightarrow> r < dg_rows g \<Longrightarrow> view_ok ((view g)\<lparr>v_row := r\<rparr>)" "\<not> cursorInitiallyHidden g" for c r
    using assms(1) by (simp_all add: view_ok_def one_selection_def)
  show ?thesis
    using assms
    by (cases op) (simp_all add: laid cursor cursor_keeps sort_keeps select_keeps page_keeps resize_keeps extend_keeps scroll_keeps
        mouseSelectCell_keeps mouseSelectColumn_keeps mouseSelectRow_keeps scrollToCursor_def showCursor_def
        setFocused_def setRowHeadersWidth_def)
qed

inductive reachable_grid :: "data_grid \<Rightarrow> bool" where
  created: "0 < opt_defaultColumnWidth options \<Longrightarrow> 0 < opt_defaultRowHeight options \<Longrightarrow>
    opt_cursorInitiallyHidden options \<noteq> Some True \<Longrightarrow> 0 < columns \<Longrightarrow> 0 < rows \<Longrightarrow>
    reachable_grid (new_DataGridInstance options columns rows)"
| called: "reachable_grid g \<Longrightarrow> op_valid op (dg_columns g) (dg_rows g) \<Longrightarrow> grid_step g op = Inr g' \<Longrightarrow> reachable_grid g'"

lemma new_grid_ok:
  assumes "0 < opt_defaultColumnWidth options" and "0 < opt_defaultRowHeight options"
    and "opt_cursorInitiallyHidden options \<noteq> Some True" and "0 < columns" and "0 < rows"
  shows "view_ok (view (new_DataGridInstance options columns rows))"
  using assms
  by (auto simp: view_ok_def one_selection_def keys_ok_def sort_order_def new_DataGridInstance_def Let_def layout_ready_def lm_ok_new
      spec_count_def split: option.split) (simp_all add: new_LayoutManager_def)

lemma reachable_view_ok: "reachable_grid g \<Longrightarrow> view_ok (view g)"
proof (induction rule: reachable_grid.induct)
  case (called g op g')
  with step_keeps [of g op] show ?case
    by simp
qed (rule new_grid_ok)

end
