(* ===== verification/Grid_Properties.thy ===== *)
theory Grid_Properties
  imports Grid_Runs
begin

text \<open>
  The properties of the data grid, of every grid that calls of its methods lead to: the invariant, what is drawn as
  selected against what is copied, the borders of the selection, extending and shrinking it, scrolling to a cell and
  the order of the sort keys.
\<close>

unbundle bit_operations_syntax

section \<open>What is selected\<close>

abbreviation cell_selected :: "int \<Rightarrow> int \<Rightarrow> data_grid \<Rightarrow> bool" where
  "cell_selected c r g \<equiv> bit (cellSelectionState c r g) 0"

fun in_clipboard :: "clipboard_data \<Rightarrow> int \<Rightarrow> int \<Rightarrow> bool" where
  "in_clipboard (ClipboardCell c' r') c r \<longleftrightarrow> c = c' \<and> r = r'"
| "in_clipboard (ClipboardCellRange fc fr lc lr) c r \<longleftrightarrow> fc \<le> c \<and> c \<le> lc \<and> fr \<le> r \<and> r \<le> lr"
| "in_clipboard (ClipboardColumnRange f l) c r \<longleftrightarrow> f \<le> c \<and> c \<le> l"
| "in_clipboard (ClipboardColumnIndexes s) c r \<longleftrightarrow> c \<in> set s"
| "in_clipboard (ClipboardRowRange f l) c r \<longleftrightarrow> f \<le> r \<and> r \<le> l"
| "in_clipboard (ClipboardRowIndexes s) c r \<longleftrightarrow> r \<in> set s"

definition has_selection :: "data_grid \<Rightarrow> bool" where
  "has_selection g \<longleftrightarrow> cellSelectionRange g \<noteq> None \<or> columnSelectionRange g \<noteq> None \<or> columnSelectionIndexes g \<noteq> None \<or>
     rowSelectionRange g \<noteq> None \<or> rowSelectionIndexes g \<noteq> None"

lemma bit_flag [simp]: "bit (flag b v st) n \<longleftrightarrow> bit st n \<or> b \<and> bit v n"
  by (simp add: flag_def bit_or_iff)

lemma bit_states [simp]:
  "bit (1::int) (Suc n) \<longleftrightarrow> False" "bit (1::int) 0" "bit (2::int) n \<longleftrightarrow> n = 1" "bit (4::int) n \<longleftrightarrow> n = 2"
  "bit (8::int) n \<longleftrightarrow> n = 3" "bit (16::int) n \<longleftrightarrow> n = 4"
proof -
  have "bit (2 ^ m :: int) n \<longleftrightarrow> n = m" for m
    by (auto simp: bit_exp_iff)
  from this [of 1] this [of 2] this [of 3] this [of 4]
  show "bit (2::int) n \<longleftrightarrow> n = 1" "bit (4::int) n \<longleftrightarrow> n = 2" "bit (8::int) n \<longleftrightarrow> n = 3" "bit (16::int) n \<longleftrightarrow> n = 4"
    by simp_all
qed (simp_all add: bit_1_iff)

lemmas selection_states = cellSelectionState_def columnSelectionState_def rowSelectionState_def csr_contains_def sr_contains_def
  si_has_def bit_or_iff

lemma clipboard_selected:
  assumes "view_ok (view g)"
  shows "\<exists>d. getClipboardData g = Some d \<and> (cell_selected c r g \<longleftrightarrow> has_selection g \<and> in_clipboard d c r) \<and>
    (\<not> has_selection g \<longrightarrow> d = ClipboardCell (cursorColumnIndex g) (cursorRowIndex g))"
  by (cases rule: selection_cases [OF assms])
    (use cursor_within [OF assms] in \<open>auto simp: selection_states getClipboardData_def has_selection_def si_sortedArray_def\<close>)

lemma outlined:
  assumes "view_ok (view g)"
  shows "bit (cellSelectionState c r g) 1 \<longleftrightarrow> cell_selected c r g \<and> \<not> cell_selected (c - 1) r g"
    and "bit (cellSelectionState c r g) 2 \<longleftrightarrow> cell_selected c r g \<and> \<not> cell_selected (c + 1) r g"
    and "bit (cellSelectionState c r g) 3 \<longleftrightarrow> cell_selected c r g \<and> \<not> cell_selected c (r - 1) g"
    and "bit (cellSelectionState c r g) 4 \<longleftrightarrow> cell_selected c r g \<and> \<not> cell_selected c (r + 1) g"
  by (cases rule: selection_cases [OF assms]; auto simp: selection_states cells_within_def range_within_def numeral_eq_Suc)+

section \<open>Scrolling\<close>

lemma start_nonneg:
  assumes "lm_ok lm" and "0 \<le> i" and "i \<le> spec_count lm"
  shows "0 \<le> spec_start lm i"
  using layout.start_mono [OF assms(1), of 0 i] assms(2,3) by simp

lemma end_le_size:
  assumes "lm_ok lm" and "0 \<le> i" and "i < spec_count lm"
  shows "spec_start lm i + spec_size lm i \<le> spec_start lm (spec_count lm)"
  by (rule layout.end_before_start [OF assms(1)]) (use assms in auto)

lemma last_end: "0 \<le> i \<Longrightarrow> spec_count lm = i + 1 \<Longrightarrow> spec_start lm (spec_count lm) = spec_start lm i + spec_size lm i"
  by simp

lemma column_visible:
  assumes "v_ready (view g)" and "0 \<le> c" and "c < spec_count (columnLayoutManager g)" and "0 \<le> scrollbarOverscroll g"
    and "spec_size (columnLayoutManager g) c + (if c = dg_columns g - 1 then scrollbarOverscroll g else 0) \<le> layoutWidth g"
    and "scroll_column_into_view c (spec_entry (columnLayoutManager g) c) g = Inr (u, g')"
  shows "horizontalScrollOffset g' \<le> spec_start (columnLayoutManager g) c \<and>
    spec_start (columnLayoutManager g) c + spec_size (columnLayoutManager g) c \<le> horizontalScrollOffset g' + layoutWidth g"
proof -
  let ?lm = "columnLayoutManager g"
  have ready: "layout_ready ?lm (dg_columns g)" and ok: "lm_ok ?lm" and "spec_count ?lm \<le> dg_columns g"
    using assms(1) by (simp_all add: layout_ready_def)
  then have last: "spec_start ?lm (spec_count ?lm) = spec_start ?lm c + spec_size ?lm c" if "c = dg_columns g - 1"
    using last_end [of c ?lm] that assms(2,3) by simp
  show ?thesis
    using assms(2-) start_nonneg [OF ok, of c] end_le_size [OF ok, of c] last
    by (auto simp: scroll_column_into_view_def maximumHorizontalScrollOffset_def scrollWidth_def ready_size [OF ready] split: if_splits)
qed

lemma row_visible:
  assumes "v_ready (view g)" and "0 \<le> r" and "r < spec_count (rowLayoutManager g)" and "0 \<le> scrollbarOverscroll g" and "0 \<le> rowsMargin g"
    and "spec_size (rowLayoutManager g) r + (if r = dg_rows g - 1 then 2 * rowsMargin g + scrollbarOverscroll g else 0) \<le> layoutHeight g"
    and "scroll_row_into_view r (spec_entry (rowLayoutManager g) r) g = Inr (u, g')"
  shows "verticalScrollOffset g' \<le> spec_start (rowLayoutManager g) r \<and>
    spec_start (rowLayoutManager g) r + spec_size (rowLayoutManager g) r \<le> verticalScrollOffset g' + layoutHeight g"
proof -
  let ?lm = "rowLayoutManager g"
  have ready: "layout_ready ?lm (dg_rows g)" and ok: "lm_ok ?lm" and "spec_count ?lm \<le> dg_rows g"
    using assms(1) by (simp_all add: layout_ready_def)
  then have last: "spec_start ?lm (spec_count ?lm) = spec_start ?lm r + spec_size ?lm r" if "r = dg_rows g - 1"
    using last_end [of r ?lm] that assms(2,3) by simp
  show ?thesis
    using assms(2-) start_nonneg [OF ok, of r] end_le_size [OF ok, of r] last
    by (auto simp: scroll_row_into_view_def maximumVerticalScrollOffset_def scrollHeight_def ready_size [OF ready] split: if_splits)
qed

text \<open>What scrolling leaves alone.\<close>

lemma scroll_column_frame:
  assumes "scroll_column_into_view c e g = Inr (u, g')"
  shows "columnLayoutManager g' = columnLayoutManager g" "rowLayoutManager g' = rowLayoutManager g" "layoutWidth g' = layoutWidth g"
    "layoutHeight g' = layoutHeight g" "dg_rows g' = dg_rows g" "scrollbarOverscroll g' = scrollbarOverscroll g"
    "rowsMargin g' = rowsMargin g" "view g' = view g"
proof -
  obtain off where g': "g' = g\<lparr>horizontalScrollOffset := off\<rparr>"
  proof (cases "g' = g")
    case True
    then have "g' = g\<lparr>horizontalScrollOffset := horizontalScrollOffset g\<rparr>"
      by simp
    then show ?thesis
      by (rule that)
  next
    case False
    with assms that show ?thesis
      by (cases "maximumHorizontalScrollOffset g") (auto simp: scroll_column_into_view_def split: if_splits)
  qed
  show "columnLayoutManager g' = columnLayoutManager g" "rowLayoutManager g' = rowLayoutManager g" "layoutWidth g' = layoutWidth g"
    "layoutHeight g' = layoutHeight g" "dg_rows g' = dg_rows g" "scrollbarOverscroll g' = scrollbarOverscroll g"
    "rowsMargin g' = rowsMargin g" "view g' = view g"
    by (simp_all add: g' layoutWidth_def layoutHeight_def Let_def)
qed

lemma scroll_row_frame:
  assumes "scroll_row_into_view r e g = Inr (u, g')"
  shows "columnLayoutManager g' = columnLayoutManager g" "rowLayoutManager g' = rowLayoutManager g" "layoutWidth g' = layoutWidth g"
    "layoutHeight g' = layoutHeight g" "horizontalScrollOffset g' = horizontalScrollOffset g" "view g' = view g"
proof -
  obtain off where g': "g' = g\<lparr>verticalScrollOffset := off\<rparr>"
  proof (cases "g' = g")
    case True
    then have "g' = g\<lparr>verticalScrollOffset := verticalScrollOffset g\<rparr>"
      by simp
    then show ?thesis
      by (rule that)
  next
    case False
    with assms that show ?thesis
      by (cases "maximumVerticalScrollOffset g") (auto simp: scroll_row_into_view_def split: if_splits)
  qed
  show "columnLayoutManager g' = columnLayoutManager g" "rowLayoutManager g' = rowLayoutManager g" "layoutWidth g' = layoutWidth g"
    "layoutHeight g' = layoutHeight g" "horizontalScrollOffset g' = horizontalScrollOffset g" "view g' = view g"
    by (simp_all add: g' layoutWidth_def layoutHeight_def Let_def)
qed

definition cell_visible :: "int \<Rightarrow> int \<Rightarrow> data_grid \<Rightarrow> bool" where
  "cell_visible c r g \<longleftrightarrow>
     (case (getLayoutEntry c (columnLayoutManager g), getLayoutEntry r (rowLayoutManager g)) of
        (Some ce, Some re) \<Rightarrow> horizontalScrollOffset g \<le> le_start ce \<and> le_end ce \<le> layoutRight g \<and>
          verticalScrollOffset g \<le> le_start re \<and> le_end re \<le> layoutBottom g
      | _ \<Rightarrow> False)"

text \<open>A cell fits: with the overscroll and margins that the maximum scroll offsets of the last column and row include.\<close>

definition cell_fits :: "int \<Rightarrow> int \<Rightarrow> data_grid \<Rightarrow> bool" where
  "cell_fits c r g \<longleftrightarrow>
     (case (getLayoutEntry c (columnLayoutManager g), getLayoutEntry r (rowLayoutManager g)) of
        (Some ce, Some re) \<Rightarrow>
          le_size ce + (if c = dg_columns g - 1 then scrollbarOverscroll g else 0) \<le> layoutWidth g \<and>
          le_size re + (if r = dg_rows g - 1 then 2 * rowsMargin g + scrollbarOverscroll g else 0) \<le> layoutHeight g
      | _ \<Rightarrow> False)"

lemma scrolled_visible:
  assumes "view_ok (view g)" and "0 \<le> scrollbarOverscroll g" and "0 \<le> rowsMargin g" and "cell_fits c r g"
  shows "\<exists>g'. scrollToCell c r g = Inr g' \<and> cell_visible c r g'"
proof -
  note ready = view_ok_ready [OF assms(1)]
  let ?cl = "columnLayoutManager g" and ?rl = "rowLayoutManager g"
  have "lm_ok ?cl" "lm_ok ?rl"
    using ready by (simp_all add: layout_ready_def)
  note entries = getLayoutEntry_spec [OF this(1)] getLayoutEntry_spec [OF this(2)]
  have c: "0 \<le> c" "c < spec_count ?cl" and r: "0 \<le> r" "r < spec_count ?rl"
    using assms(4) by (auto simp: cell_fits_def entries split: if_splits)
  obtain u g1 where g1: "scroll_column_into_view c (spec_entry ?cl c) g = Inr (u, g1)"
    using scroll_column_into_view_ok [OF ready] by blast
  note f1 = scroll_column_frame [OF g1]
  obtain u' g2 where g2: "scroll_row_into_view r (spec_entry ?rl r) g1 = Inr (u', g2)"
    using scroll_row_into_view_ok [of g1] ready f1(8) by metis
  note f2 = scroll_row_frame [OF g2]
  have fit: "spec_size ?cl c + (if c = dg_columns g - 1 then scrollbarOverscroll g else 0) \<le> layoutWidth g"
    "spec_size ?rl r + (if r = dg_rows g - 1 then 2 * rowsMargin g + scrollbarOverscroll g else 0) \<le> layoutHeight g"
    using assms(4) c r by (simp_all add: cell_fits_def entries)
  have "verticalScrollOffset g2 \<le> spec_start ?rl r \<and> spec_start ?rl r + spec_size ?rl r \<le> verticalScrollOffset g2 + layoutHeight g"
    using row_visible [of g1 r u' g2] ready assms(2,3) r fit(2) g2 unfolding f1 by blast
  with column_visible [OF ready c assms(2) fit(1) g1] have "cell_visible c r g2"
    using c r f1 f2 by (simp add: cell_visible_def layoutRight_def layoutBottom_def entries)
  moreover have "cell_visible c r (fire_update (fetchData g2)) = cell_visible c r g2"
    by (simp add: cell_visible_def layoutRight_def layoutBottom_def fire_update_def fetchData_def layoutWidth_def layoutHeight_def
        Let_def split: option.split)
  ultimately show ?thesis
    using c r by (simp add: scrollToCell_def entries g1 g2)
qed

section \<open>Extending and shrinking\<close>

text \<open>The selection a grid holds, without scroll offsets and events.\<close>

lemma view_same: "view g\<lparr>v_columnRange := columnSelectionRange g\<rparr> = view g" "view g\<lparr>v_cells := cellSelectionRange g\<rparr> = view g"
  "view g\<lparr>v_rowRange := rowSelectionRange g\<rparr> = view g"
  by (simp_all add: view_def)

lemma view_eqD:
  assumes "view g' = v"
  shows "cellSelectionRange g' = v_cells v" "columnSelectionRange g' = v_columnRange v" "columnSelectionIndexes g' = v_columnIndexes v"
    "rowSelectionRange g' = v_rowRange v" "rowSelectionIndexes g' = v_rowIndexes v" "cursorColumnIndex g' = v_column v"
    "cursorRowIndex g' = v_row v" "dg_columns g' = v_columns v" "dg_rows g' = v_rows v"
  using assms by auto

lemma columns_restored:
  assumes "view_ok (view g)" and "columnSelectionRange g \<noteq> None \<or> cellSelectionRange g \<noteq> None"
    and "extendColumnSelectionRight b g = Inr g1" and "view g1 \<noteq> view g"
  shows "\<exists>g2. extendColumnSelectionLeft b' g1 = Inr g2 \<and> view g2 = view g"
  using assms(1)
proof (cases rule: selection_cases)
  case (column_range r)
  then obtain r' where r': "view g1 = (view g)\<lparr>v_columnRange := Some r'\<rparr>"
      "cursorColumnIndex g = firstIndex r \<and> r' = r\<lparr>lastIndex := lastIndex r + 1\<rparr> \<or>
       cursorColumnIndex g \<noteq> firstIndex r \<and> cursorColumnIndex g = lastIndex r \<and> r' = r\<lparr>firstIndex := firstIndex r + 1\<rparr>"
    using assms(3,4) by (auto simp: extendColumnSelectionRight_def split: if_splits)
  then show ?thesis
    using column_range view_eqD [OF r'(1)] view_same(1) [of g] by (auto simp: extendColumnSelectionLeft_def range_within_def r'(1))
next
  case (cells r)
  then obtain r' where r': "view g1 = (view g)\<lparr>v_cells := Some r'\<rparr>"
      "cursorColumnIndex g = firstColumnIndex r \<and> r' = r\<lparr>lastColumnIndex := lastColumnIndex r + 1\<rparr> \<or>
       cursorColumnIndex g \<noteq> firstColumnIndex r \<and> cursorColumnIndex g = lastColumnIndex r \<and>
       r' = r\<lparr>firstColumnIndex := firstColumnIndex r + 1\<rparr>"
    using assms(3,4) by (auto simp: extendColumnSelectionRight_def split: if_splits)
  then show ?thesis
    using cells view_eqD [OF r'(1)] view_same(2) [of g] by (auto simp: extendColumnSelectionLeft_def cells_within_def r'(1))
qed (use assms(2) in simp_all)

lemma rows_restored:
  assumes "view_ok (view g)" and "rowSelectionRange g \<noteq> None \<or> cellSelectionRange g \<noteq> None"
    and "extendRowSelectionDown b g = Inr g1" and "view g1 \<noteq> view g"
  shows "\<exists>g2. extendRowSelectionUp b' g1 = Inr g2 \<and> view g2 = view g"
  using assms(1)
proof (cases rule: selection_cases)
  case (row_range r)
  then obtain r' where r': "view g1 = (view g)\<lparr>v_rowRange := Some r'\<rparr>"
      "cursorRowIndex g = firstIndex r \<and> r' = r\<lparr>lastIndex := lastIndex r + 1\<rparr> \<or>
       cursorRowIndex g \<noteq> firstIndex r \<and> cursorRowIndex g = lastIndex r \<and> r' = r\<lparr>firstIndex := firstIndex r + 1\<rparr>"
    using assms(3,4) by (auto simp: extendRowSelectionDown_def split: if_splits)
  then show ?thesis
    using row_range view_eqD [OF r'(1)] view_same(3) [of g] by (auto simp: extendRowSelectionUp_def range_within_def r'(1))
next
  case (cells r)
  then obtain r' where r': "view g1 = (view g)\<lparr>v_cells := Some r'\<rparr>"
      "cursorRowIndex g = firstRowIndex r \<and> r' = r\<lparr>lastRowIndex := lastRowIndex r + 1\<rparr> \<or>
       cursorRowIndex g \<noteq> firstRowIndex r \<and> cursorRowIndex g = lastRowIndex r \<and>
       r' = r\<lparr>firstRowIndex := firstRowIndex r + 1\<rparr>"
    using assms(3,4) by (auto simp: extendRowSelectionDown_def split: if_splits)
  then show ?thesis
    using cells view_eqD [OF r'(1)] view_same(2) [of g] by (auto simp: extendRowSelectionUp_def cells_within_def r'(1))
qed (use assms(2) in simp_all)

section \<open>Properties\<close>

definition example_options :: data_grid_options where
  "example_options = \<lparr>opt_columnHeaders = False, opt_columnHeadersHeight = None, opt_rowHeaders = False, opt_rowHeadersWidth = None,
     opt_rowHeadersResize = None, opt_defaultColumnWidth = 20, opt_defaultRowHeight = 10, opt_columnResize = True,
     opt_minimumColumnWidth = None, opt_maximumColumnWidth = None, opt_rowResize = False, opt_minimumRowHeight = None,
     opt_maximumRowHeight = None, opt_horizontalScrollbar = False, opt_verticalScrollbar = False, opt_scrollbarThickness = None,
     opt_scrollbarOverscroll = Some 5, opt_useEditorFont = False, opt_automaticLayout = True, opt_rowsMargin = None,
     opt_cellBorders = None, opt_horizontalCellPadding = None, opt_cursorInitiallyHidden = None, opt_internalCursor = None,
     opt_cursorOffset = None, opt_selection = None\<rparr>"

definition example_grid :: data_grid where
  "example_grid = new_DataGridInstance example_options 12 30"

lemma example_created: "reachable_grid example_grid"
  unfolding example_grid_def by (rule created) (simp_all add: example_options_def)

lemma example_size [simp]: "dg_columns example_grid = 12" "dg_rows example_grid = 30"
  by (simp_all add: example_grid_def new_DataGridInstance_def Let_def)

lemma reachable_selectColumns:
  assumes "reachable_grid g" and "0 \<le> c" and "c < dg_columns g"
  shows "reachable_grid (mouseSelectColumn c t g)"
  by (rule called [OF assms(1), of "MouseSelectColumn c t"]) (use assms in simp_all)





text \<open>
  The border bits outline the selection: of every grid that calls lead to, the left, right, top or bottom bit is
  set on a cell exactly if the cell is selected and its neighbour on that side is not.
\<close>

theorem border_bits_outline:
  assumes "reachable_grid g"
  shows "(bit (cellSelectionState c r g) 1 \<longleftrightarrow> bit (cellSelectionState c r g) 0 \<and> \<not> bit (cellSelectionState (c - 1) r g) 0) \<and>
    (bit (cellSelectionState c r g) 2 \<longleftrightarrow> bit (cellSelectionState c r g) 0 \<and> \<not> bit (cellSelectionState (c + 1) r g) 0) \<and>
    (bit (cellSelectionState c r g) 3 \<longleftrightarrow> bit (cellSelectionState c r g) 0 \<and> \<not> bit (cellSelectionState c (r - 1) g) 0) \<and>
    (bit (cellSelectionState c r g) 4 \<longleftrightarrow> bit (cellSelectionState c r g) 0 \<and> \<not> bit (cellSelectionState c (r + 1) g) 0)"
  using outlined [OF reachable_view_ok [OF assms], of c r] by blast

theorem border_bits_outline_witness:
  "bit (cellSelectionState 7 3 (mouseSelectColumn 7 Single example_grid)) 1 \<and>
   \<not> bit (cellSelectionState 7 3 (mouseSelectColumn 7 Single example_grid)) 3"
proof -
  let ?g = "mouseSelectColumn 7 Single example_grid"
  have "reachable_grid ?g"
    by (rule reachable_selectColumns [OF example_created]) simp_all
  moreover have "bit (cellSelectionState 7 3 ?g) 0" "\<not> bit (cellSelectionState 6 3 ?g) 0" "bit (cellSelectionState 7 2 ?g) 0"
    by code_simp+
  ultimately show ?thesis
    using border_bits_outline [of ?g 7 3] by simp
qed



text \<open>
  C13: Scrolling to a cell of the layout that fits the grid, with the overscroll and margins when it is in the last
  column or row, does not throw and makes the cell visible: no part of it is outside the scrolled area.
\<close>

theorem scrolled_cell_is_visible:
  assumes "reachable_grid g" and "0 \<le> scrollbarOverscroll g" and "0 \<le> rowsMargin g" and "cell_fits c r g"
  shows "\<exists>g'. scrollToCell c r g = Inr g' \<and> cell_visible c r g'"
  by (rule scrolled_visible [OF reachable_view_ok [OF assms(1)] assms(2-4)])

definition sized_grid :: data_grid where
  "sized_grid = (case setSize 100 50 (example_grid\<lparr>columnLayoutManager := setLayoutEntries (Number 12) (columnLayoutManager example_grid),
     rowLayoutManager := setLayoutEntries (Number 30) (rowLayoutManager example_grid)\<rparr>) of Inr g \<Rightarrow> g | Inl e \<Rightarrow> example_grid)"

lemma sized_reachable: "reachable_grid sized_grid"
proof -
  let ?g = "example_grid\<lparr>columnLayoutManager := setLayoutEntries (Number 12) (columnLayoutManager example_grid)\<rparr>"
  let ?h = "?g\<lparr>rowLayoutManager := setLayoutEntries (Number 30) (rowLayoutManager ?g)\<rparr>"
  have "reachable_grid ?g"
    by (rule called [OF example_created, of "LayoutColumns (Number 12)"]) (simp_all add: layout_fits_def sizes_ok_def)
  then have h: "reachable_grid ?h"
    by (rule called [of _ "LayoutRows (Number 30)"]) (simp_all add: layout_fits_def sizes_ok_def)
  from called [OF this, of "SetSize 100 50"] show ?thesis
    by (auto simp: sized_grid_def example_created split: sum.split)
qed

theorem scrolled_cell_is_visible_witness:
  "\<not> cell_visible 11 29 sized_grid \<and> (\<exists>g'. scrollToCell 11 29 sized_grid = Inr g' \<and> cell_visible 11 29 g')"
proof -
  have "\<not> cell_visible 11 29 sized_grid" "cell_fits 11 29 sized_grid" "0 \<le> scrollbarOverscroll sized_grid" "0 \<le> rowsMargin sized_grid"
    by code_simp+
  with scrolled_cell_is_visible [OF sized_reachable, of 11 29] show ?thesis
    by blast
qed

text \<open>
  C14: The sort keys of a grid are an ordered list of columns with directions: sorting by a column appends it, or changes
  its direction in place when it is there; removing a column closes the gap; and unless nothing changes the data is
  sorted by just these keys, in this order, each with its position as its sort index.
\<close>

theorem sort_keys_refine_list:
  assumes "reachable_grid g"
  shows "sort_order (columnSortKeys (setColumnSortKey c a g)) = sort_by c a (sort_order (columnSortKeys g)) \<and>
    sort_order (columnSortKeys (removeColumnSortKey c g)) = unsort c (sort_order (columnSortKeys g)) \<and>
    (setColumnSortKey c a g = g \<or>
      last (dg_log (setColumnSortKey c a g)) = SortData (map snd (keys_of 0 (sort_by c a (sort_order (columnSortKeys g)))))) \<and>
    (removeColumnSortKey c g = g \<or>
      last (dg_log (removeColumnSortKey c g)) = SortData (map snd (keys_of 0 (unsort c (sort_order (columnSortKeys g))))))"
proof -
  have keys: "keys_ok (columnSortKeys g)"
    using reachable_view_ok [OF assms] by (simp add: view_ok_def)
  show ?thesis
    using setColumnSortKey_keys [OF keys, of c a] removeColumnSortKey_keys [OF keys, of c] by simp
qed

theorem sort_keys_refine_list_witness:
  "sort_order (columnSortKeys (removeColumnSortKey 3 (setColumnSortKey 5 False (setColumnSortKey 3 True example_grid)))) = [(5, False)]"
proof -
  have g: "reachable_grid (setColumnSortKey 3 True example_grid)"
    by (rule called [OF example_created, of "SetColumnSortKey 3 True"]) simp_all
  then have "reachable_grid (setColumnSortKey 5 False (setColumnSortKey 3 True example_grid))"
    by (rule called [of _ "SetColumnSortKey 5 False"]) simp_all
  moreover have "sort_order (columnSortKeys example_grid) = []"
    by code_simp
  ultimately show ?thesis
    using sort_keys_refine_list [of _ 3 True] sort_keys_refine_list [OF g, of 5 False]
      sort_keys_refine_list [OF example_created, of 3 True]
    by (simp add: sort_by_def unsort_def)
qed

text \<open>
  Control-clicking a further column when a range of columns is selected selects the columns of the range and the
  clicked one, and also the column whose index is the length of the range less one, which nobody selected.
\<close>

theorem multi_select_after_range:
  assumes "columnSelectionRange g = Some r" and "columnSelectionIndexes g = None" and "\<not> sr_contains c r"
  shows "\<exists>s. columnSelectionIndexes (mouseSelectColumn c Multi g) = Some s \<and>
    set s = insert c (insert (lastIndex r - firstIndex r) {firstIndex r..lastIndex r})"
proof -
  have "also_select c (Some r) None = (None, Some (si_add c (sr_indexes r)))"
    by (simp add: also_select_def)
  moreover have "columnSelectionIndexes (scrollToColumn c h) = columnSelectionIndexes h"
    "columnSelectionIndexes (adjust_cursor_to_column c h) = columnSelectionIndexes h"
    "columnSelectionIndexes (fire_update (fetchData h)) = columnSelectionIndexes h" for h
    by (simp_all add: scrollToColumn_def setHorizontalScrollOffset_def adjust_cursor_to_column_def firstRow_def fire_update_def
        fetchData_def split: option.split prod.split)
  ultimately show ?thesis
    using assms by (simp add: mouseSelectColumn_def Let_def si_add_set sr_indexes_set)
qed

theorem multi_select_after_range_witness:
  "\<exists>s. columnSelectionIndexes (mouseSelectColumn 9 Multi (example_grid\<lparr>columnSelectionRange := Some (new_SelectionRange 4 6)\<rparr>)) = Some s \<and>
     set s = {2, 4, 5, 6, 9}"
proof -
  have "columnSelectionIndexes (example_grid\<lparr>columnSelectionRange := Some (new_SelectionRange 4 6)\<rparr>) = None"
    by code_simp
  moreover have "{4..6::int} = {4, 5, 6}"
    by auto
  ultimately show ?thesis
    using multi_select_after_range [of "example_grid\<lparr>columnSelectionRange := Some (new_SelectionRange 4 6)\<rparr>" "new_SelectionRange 4 6" 9]
    by (auto simp: sr_contains_def new_SelectionRange_def)
qed

end
