(* ===== verification/Prefix_Sums.thy ===== *)
theory Prefix_Sums
  imports Js_Prelude "HOL-Library.Word"
begin

text \<open>
  The prefix sums of \<open>src/vs/editor/common/model/prefixSumComputer.ts\<close>, with which the editor turns offsets into lines
  and view lines into model lines. \<open>PrefixSumComputer\<close> keeps its values and the sums it has computed so far in typed
  arrays of 32 bit words; \<open>ConstantTimePrefixSumComputer\<close> keeps plain arrays and an index by sums. The conversion
  \<open>toUint32\<close> is that of \<open>src/vs/base/common/uint.ts\<close>.

  A typed array is a list of words whose length does not change: a read outside gives \<open>undefined\<close>, a write outside is
  ignored. Its words are read as numbers, here integers.
\<close>

section \<open>Typed arrays\<close>

definition toUint32 :: "int \<Rightarrow> int" where
  "toUint32 v = (if v < 0 then 0 else if v > 4294967295 then 4294967295 else to_int32 v)"

type_synonym uint32_array = "32 word list"

definition ta_new :: "int \<Rightarrow> uint32_array" where
  "ta_new n = replicate (nat n) 0"

definition ta_get :: "uint32_array \<Rightarrow> int \<Rightarrow> int option" where
  "ta_get a i = map_option uint (js_get a i)"

definition ta_put :: "uint32_array \<Rightarrow> int \<Rightarrow> 32 word \<Rightarrow> uint32_array" where
  "ta_put a i v = (if 0 \<le> i \<and> i < int (length a) then a[nat i := v] else a)"

text \<open>\<open>set\<close> copies an array to an offset and throws when it does not fit.\<close>

definition ta_set :: "uint32_array \<Rightarrow> uint32_array \<Rightarrow> int \<Rightarrow> uint32_array result" where
  "ta_set a src offset =
     (if offset < 0 \<or> offset + int (length src) > int (length a) then Inl RangeError
      else Inr (take (nat offset) a @ src @ drop (nat offset + length src) a))"

section \<open>PrefixSumComputer\<close>

record prefix_sums =
  ps_values :: uint32_array
  ps_prefixSum :: uint32_array
  ps_validIndex :: int

definition new_PrefixSumComputer :: "uint32_array \<Rightarrow> prefix_sums" where
  "new_PrefixSumComputer values = \<lparr>ps_values = values, ps_prefixSum = ta_new (int (length values)), ps_validIndex = -1\<rparr>"

definition ps_getCount :: "prefix_sums \<Rightarrow> int" where
  "ps_getCount p = int (length (ps_values p))"

text \<open>The valid index is an element of a signed typed array.\<close>

definition invalidate_from :: "int \<Rightarrow> prefix_sums \<Rightarrow> prefix_sums" where
  "invalidate_from index p = (if index - 1 < ps_validIndex p then p\<lparr>ps_validIndex := to_int32 (index - 1)\<rparr> else p)"

definition keep_valid :: "uint32_array \<Rightarrow> prefix_sums \<Rightarrow> prefix_sums result" where
  "keep_valid oldPrefixSum p =
     (let sums = ta_new (int (length (ps_values p)))
      in if ps_validIndex p \<ge> 0
         then bind_result (ta_set sums (js_slice oldPrefixSum 0 (ps_validIndex p + 1)) 0) (\<lambda>sums. Inr (p\<lparr>ps_prefixSum := sums\<rparr>))
         else Inr (p\<lparr>ps_prefixSum := sums\<rparr>))"

definition ps_insertValues :: "int \<Rightarrow> uint32_array \<Rightarrow> prefix_sums \<Rightarrow> (bool \<times> prefix_sums) result" where
  "ps_insertValues insertIndex insertValues p =
     (let insertIndex = toUint32 insertIndex; oldValues = ps_values p; n = int (length insertValues)
      in if n = 0 then Inr (False, p)
         else bind_result (ta_set (ta_new (int (length oldValues) + n)) (js_slice oldValues 0 insertIndex) 0) (\<lambda>values.
              bind_result (ta_set values (js_slice_from oldValues insertIndex) (insertIndex + n)) (\<lambda>values.
              bind_result (ta_set values insertValues insertIndex) (\<lambda>values.
              bind_result (keep_valid (ps_prefixSum p) (invalidate_from insertIndex (p\<lparr>ps_values := values\<rparr>))) (\<lambda>p.
                Inr (True, p))))))"

definition ps_setValue :: "int \<Rightarrow> int \<Rightarrow> prefix_sums \<Rightarrow> bool \<times> prefix_sums" where
  "ps_setValue index v p =
     (let index = toUint32 index; v = toUint32 v
      in if ta_get (ps_values p) index = Some v then (False, p)
         else (True, invalidate_from index (p\<lparr>ps_values := ta_put (ps_values p) index (word_of_int v)\<rparr>)))"

definition ps_removeValues :: "int \<Rightarrow> int \<Rightarrow> prefix_sums \<Rightarrow> (bool \<times> prefix_sums) result" where
  "ps_removeValues startIndex count p =
     (let startIndex = toUint32 startIndex; count = toUint32 count; oldValues = ps_values p; len = int (length oldValues)
      in if startIndex \<ge> len then Inr (False, p)
         else let count = (if count \<ge> len - startIndex then len - startIndex else count)
           in if count = 0 then Inr (False, p)
              else bind_result (ta_set (ta_new (len - count)) (js_slice oldValues 0 startIndex) 0) (\<lambda>values.
                   bind_result (ta_set values (js_slice_from oldValues (startIndex + count)) startIndex) (\<lambda>values.
                   bind_result (keep_valid (ps_prefixSum p) (invalidate_from startIndex (p\<lparr>ps_values := values\<rparr>))) (\<lambda>p.
                     Inr (True, p)))))"

text \<open>The loop that extends the valid sums, for \<open>k\<close> further indexes from \<open>i\<close> on; the sums wrap around when they are stored.\<close>

fun sum_loop :: "uint32_array \<Rightarrow> nat \<Rightarrow> nat \<Rightarrow> uint32_array \<Rightarrow> uint32_array" where
  "sum_loop values 0 i sums = sums"
| "sum_loop values (Suc k) i sums = sum_loop values k (Suc i) (sums[i := sums ! (i - 1) + values ! i])"

definition ps_get_prefix_sum :: "int \<Rightarrow> prefix_sums \<Rightarrow> int option \<times> prefix_sums" where
  "ps_get_prefix_sum index p =
     (if index \<le> ps_validIndex p then (ta_get (ps_prefixSum p) index, p)
      else
        let startIndex = ps_validIndex p + 1;
            sums = (if startIndex = 0
              then (case js_get (ps_values p) 0 of Some v \<Rightarrow> ta_put (ps_prefixSum p) 0 v | None \<Rightarrow> ps_prefixSum p)
              else ps_prefixSum p);
            startIndex = (if startIndex = 0 then 1 else startIndex);
            len = int (length (ps_values p));
            index = (if index \<ge> len then len - 1 else index);
            sums = sum_loop (ps_values p) (nat (index + 1 - startIndex)) (nat startIndex) sums
        in (ta_get sums index, p\<lparr>ps_prefixSum := sums, ps_validIndex := to_int32 (max (ps_validIndex p) index)\<rparr>))"

definition ps_getTotalSum :: "prefix_sums \<Rightarrow> int option \<times> prefix_sums" where
  "ps_getTotalSum p = (if length (ps_values p) = 0 then (Some 0, p) else ps_get_prefix_sum (int (length (ps_values p)) - 1) p)"

definition ps_getPrefixSum :: "int \<Rightarrow> prefix_sums \<Rightarrow> int option \<times> prefix_sums" where
  "ps_getPrefixSum index p = (if index < 0 then (Some 0, p) else ps_get_prefix_sum (toUint32 index) p)"

text \<open>A result is an index and a remainder. The search ends with the last middle and the last start of it.\<close>

function index_of_loop :: "uint32_array \<Rightarrow> uint32_array \<Rightarrow> int \<Rightarrow> int \<Rightarrow> int \<Rightarrow> int \<Rightarrow> int \<Rightarrow> int \<times> int" where
  "index_of_loop values sums target low high mid midStart =
     (if low \<le> high
      then let mid = low + (high - low) div 2;
               midStop = uint (sums ! nat mid);
               midStart = midStop - uint (values ! nat mid)
        in if target < midStart then index_of_loop values sums target low (mid - 1) mid midStart
           else if target \<ge> midStop then index_of_loop values sums target (mid + 1) high mid midStart
           else (mid, midStart)
      else (mid, midStart))"
  by pat_completeness auto
termination
  by (relation "measure (\<lambda>(values, sums, target, low, high, mid, midStart). nat (high - low + 1))") auto

declare index_of_loop.simps [simp del]

definition ps_getIndexOf :: "int \<Rightarrow> prefix_sums \<Rightarrow> (int \<times> int) \<times> prefix_sums" where
  "ps_getIndexOf target p =
     (let p = snd (ps_getTotalSum p);
          (mid, midStart) = index_of_loop (ps_values p) (ps_prefixSum p) target 0 (int (length (ps_values p)) - 1) 0 0
      in ((mid, target - midStart), p))"

section \<open>ConstantTimePrefixSumComputer\<close>

text \<open>
  A plain array of numbers is a list in which \<open>None\<close> is a hole, \<open>undefined\<close> or \<open>NaN\<close>: reading outside gives \<open>None\<close>,
  writing past the end leaves holes, and a write at an index that is no index is ignored.
\<close>

type_synonym num_array = "int option list"

definition na_get :: "num_array \<Rightarrow> int \<Rightarrow> int option" where
  "na_get a i = (case js_get a i of Some v \<Rightarrow> v | None \<Rightarrow> None)"

definition na_put :: "num_array \<Rightarrow> int \<Rightarrow> int option \<Rightarrow> num_array" where
  "na_put a i v =
     (if i < 0 then a
      else if i < int (length a) then a[nat i := v]
      else a @ replicate (nat i - length a) None @ [v])"

text \<open>Setting the length of an array throws unless it is a number of 32 bits.\<close>

definition na_set_length :: "num_array \<Rightarrow> int option \<Rightarrow> num_array result" where
  "na_set_length a n =
     (case n of
        None \<Rightarrow> Inl RangeError
      | Some n \<Rightarrow>
          if n < 0 \<or> n > 4294967295 then Inl RangeError
          else Inr (take (nat n) a @ replicate (nat n - length a) None))"

definition num_add :: "int option \<Rightarrow> int option \<Rightarrow> int option" where
  "num_add a b = (case a of None \<Rightarrow> None | Some x \<Rightarrow> map_option (\<lambda>y. x + y) b)"

record constant_sums =
  cs_values :: num_array
  cs_isValid :: bool
  cs_validEndIndex :: int
  cs_prefixSum :: num_array
  cs_indexBySum :: num_array

definition new_ConstantTimePrefixSumComputer :: "num_array \<Rightarrow> constant_sums" where
  "new_ConstantTimePrefixSumComputer values =
     \<lparr>cs_values = values, cs_isValid = False, cs_validEndIndex = -1, cs_prefixSum = [], cs_indexBySum = []\<rparr>"

definition cs_invalidate :: "int \<Rightarrow> constant_sums \<Rightarrow> constant_sums" where
  "cs_invalidate index c = c\<lparr>cs_isValid := False, cs_validEndIndex := min (cs_validEndIndex c) (index - 1)\<rparr>"

text \<open>The inner loop writes the index \<open>i\<close> at \<open>k\<close> sums from \<open>sumAbove\<close> on; the outer one goes over \<open>k\<close> values from \<open>i\<close> on.\<close>

fun fill_loop :: "nat \<Rightarrow> int \<Rightarrow> int \<Rightarrow> num_array \<Rightarrow> num_array" where
  "fill_loop 0 at i a = a"
| "fill_loop (Suc k) at i a = fill_loop k (at + 1) i (na_put a at (Some i))"

fun valid_loop :: "num_array \<Rightarrow> nat \<Rightarrow> int \<Rightarrow> num_array \<Rightarrow> num_array \<Rightarrow> num_array \<times> num_array" where
  "valid_loop values 0 i sums index = (sums, index)"
| "valid_loop values (Suc k) i sums index =
     (let v = na_get values i;
          sumAbove = (if i > 0 then na_get sums (i - 1) else Some 0);
          sums = na_put sums i (num_add sumAbove v);
          index = (case sumAbove of None \<Rightarrow> index
            | Some s \<Rightarrow> (case v of None \<Rightarrow> index | Some n \<Rightarrow> fill_loop (nat n) s i index))
      in valid_loop values k (i + 1) sums index)"

definition cs_ensureValid :: "constant_sums \<Rightarrow> constant_sums result" where
  "cs_ensureValid c =
     (if cs_isValid c then Inr c
      else let i = cs_validEndIndex c + 1; len = int (length (cs_values c));
               (sums, index) = valid_loop (cs_values c) (nat (len - i)) i (cs_prefixSum c) (cs_indexBySum c)
        in bind_result (na_set_length sums (Some len)) (\<lambda>sums.
           bind_result (na_set_length index (na_get sums (int (length sums) - 1))) (\<lambda>index.
             Inr (c\<lparr>cs_prefixSum := sums, cs_indexBySum := index, cs_isValid := True, cs_validEndIndex := len - 1\<rparr>))))"

definition cs_getTotalSum :: "constant_sums \<Rightarrow> (int \<times> constant_sums) result" where
  "cs_getTotalSum c = bind_result (cs_ensureValid c) (\<lambda>c. Inr (int (length (cs_indexBySum c)), c))"

definition cs_getPrefixSum :: "int \<Rightarrow> constant_sums \<Rightarrow> (int option \<times> constant_sums) result" where
  "cs_getPrefixSum count c =
     bind_result (cs_ensureValid c) (\<lambda>c. Inr (if count = 0 then Some 0 else na_get (cs_prefixSum c) (count - 1), c))"

definition cs_getIndexOf :: "int \<Rightarrow> constant_sums \<Rightarrow> ((int option \<times> int option) \<times> constant_sums) result" where
  "cs_getIndexOf target c =
     bind_result (cs_ensureValid c) (\<lambda>c.
       let idx = na_get (cs_indexBySum c) target;
           viewLinesAbove = (case idx of Some i \<Rightarrow> if i > 0 then na_get (cs_prefixSum c) (i - 1) else Some 0 | None \<Rightarrow> Some 0)
       in Inr ((idx, map_option (\<lambda>above. target - above) viewLinesAbove), c))"

definition cs_removeValues :: "int \<Rightarrow> int \<Rightarrow> constant_sums \<Rightarrow> constant_sums" where
  "cs_removeValues start deleteCount c = cs_invalidate start (c\<lparr>cs_values := js_splice (cs_values c) start deleteCount []\<rparr>)"

definition arrayInsert :: "'a list \<Rightarrow> int \<Rightarrow> 'a list \<Rightarrow> 'a list" where
  "arrayInsert xs insertIndex insertArr = js_slice xs 0 insertIndex @ insertArr @ js_slice_from xs insertIndex"

definition cs_insertValues :: "int \<Rightarrow> num_array \<Rightarrow> constant_sums \<Rightarrow> constant_sums" where
  "cs_insertValues insertIndex insertArr c =
     cs_invalidate insertIndex (c\<lparr>cs_values := arrayInsert (cs_values c) insertIndex insertArr\<rparr>)"

definition cs_setValue :: "int \<Rightarrow> int \<Rightarrow> constant_sums \<Rightarrow> constant_sums" where
  "cs_setValue index v c =
     (if na_get (cs_values c) index = Some v then c
      else cs_invalidate index (c\<lparr>cs_values := na_put (cs_values c) index (Some v)\<rparr>))"

section \<open>Sums of words\<close>

definition prefix :: "uint32_array \<Rightarrow> nat \<Rightarrow> 32 word" where
  "prefix vs k = sum_list (take k vs)"

lemma prefix_Suc: "k < length vs \<Longrightarrow> prefix vs (Suc k) = prefix vs k + vs ! k"
  by (simp add: prefix_def take_Suc_conv_app_nth)

lemma uint_sum_list: "uint (sum_list ws :: 32 word) = sum_list (map uint ws) mod 2 ^ 32"
  by (induction ws) (simp_all add: uint_word_ariths mod_add_right_eq)

lemma uint_prefix: "uint (prefix vs k) = sum_list (take k (map uint vs)) mod 2 ^ 32"
  by (simp add: prefix_def uint_sum_list take_map)

lemma toUint32_small [simp]: "0 \<le> i \<Longrightarrow> i < 2147483648 \<Longrightarrow> toUint32 i = i"
  by (simp add: toUint32_def to_int32_def signed_take_bit_int_eq_self)

lemma to_int32_small [simp]: "- 2147483648 \<le> i \<Longrightarrow> i < 2147483648 \<Longrightarrow> to_int32 i = i"
  by (simp add: to_int32_def signed_take_bit_int_eq_self)

section \<open>The invariant\<close>

text \<open>Arrays have fewer than \<open>2 ^ 31\<close> elements: the valid index is a signed word. The valid sums are sums.\<close>

definition sums_ok :: "prefix_sums \<Rightarrow> bool" where
  "sums_ok p \<longleftrightarrow> length (ps_prefixSum p) = length (ps_values p) \<and> length (ps_values p) < 2147483648 \<and>
     -1 \<le> ps_validIndex p \<and> ps_validIndex p < int (length (ps_values p)) \<and>
     (\<forall>i. int i \<le> ps_validIndex p \<longrightarrow> ps_prefixSum p ! i = prefix (ps_values p) (Suc i))"

lemma sums_ok_new: "length vs < 2147483648 \<Longrightarrow> sums_ok (new_PrefixSumComputer vs)"
  by (simp add: sums_ok_def new_PrefixSumComputer_def ta_new_def)

lemma sum_loop_spec:
  assumes "length sums = length vs" and "1 \<le> i" and "i + k \<le> length vs" and "\<forall>j < i. sums ! j = prefix vs (Suc j)"
  shows "length (sum_loop vs k i sums) = length vs \<and> (\<forall>j < i + k. sum_loop vs k i sums ! j = prefix vs (Suc j))"
  using assms
proof (induction vs k i sums rule: sum_loop.induct)
  case (2 vs k i sums)
  have "sums ! (i - 1) + vs ! i = prefix vs (Suc i)"
    using 2(3-5) by (cases i) (simp_all add: prefix_Suc)
  then have "\<forall>j < Suc i. sums[i := sums ! (i - 1) + vs ! i] ! j = prefix vs (Suc j)"
    using 2(2,4,5) by (auto simp: less_Suc_eq nth_list_update)
  with 2 show ?case
    by simp
qed simp

lemma ta_get_nth: "0 \<le> i \<Longrightarrow> i < int (length a) \<Longrightarrow> ta_get a i = Some (uint (a ! nat i))"
  by (simp add: ta_get_def js_get_def)

lemma valid_prefix: "sums_ok p \<Longrightarrow> 0 \<le> i \<Longrightarrow> i \<le> ps_validIndex p \<Longrightarrow> ps_prefixSum p ! nat i = prefix (ps_values p) (Suc (nat i))"
  by (simp add: sums_ok_def)

text \<open>Extending the valid sums up to an index of the array.\<close>

lemma get_prefix_sum_spec:
  assumes "sums_ok p" and "0 \<le> i" and "ps_values p \<noteq> []"
  defines "k \<equiv> min (nat i) (length (ps_values p) - 1)"
  shows "fst (ps_get_prefix_sum i p) = Some (uint (prefix (ps_values p) (Suc k)))"
    and "sums_ok (snd (ps_get_prefix_sum i p))" and "ps_values (snd (ps_get_prefix_sum i p)) = ps_values p"
    and "int k \<le> ps_validIndex (snd (ps_get_prefix_sum i p))"
proof -
  let ?vs = "ps_values p" and ?valid = "ps_validIndex p"
  have n: "0 < length ?vs" and len: "length (ps_prefixSum p) = length ?vs" "length ?vs < 2147483648" "-1 \<le> ?valid"
      "?valid < int (length ?vs)"
    using assms(1,3) by (simp_all add: sums_ok_def)
  have "fst (ps_get_prefix_sum i p) = Some (uint (prefix ?vs (Suc k))) \<and> sums_ok (snd (ps_get_prefix_sum i p)) \<and>
      ps_values (snd (ps_get_prefix_sum i p)) = ?vs \<and> int k \<le> ps_validIndex (snd (ps_get_prefix_sum i p))"
  proof (cases "i \<le> ?valid")
    case True
    then have "k = nat i"
      using len(4) by (simp add: k_def)
    with True show ?thesis
      using assms(1,2) len valid_prefix [OF assms(1,2) True] by (simp add: ps_get_prefix_sum_def ta_get_nth)
  next
    case False
    define start where "start = (if ?valid + 1 = 0 then 1 else nat (?valid + 1))"
    let ?sums = "if ?valid + 1 = 0 then (ps_prefixSum p)[0 := ?vs ! 0] else ps_prefixSum p"
    let ?loop = "sum_loop ?vs (Suc k - start) start ?sums"
    have k: "int k = (if i \<ge> int (length ?vs) then int (length ?vs) - 1 else i)" and "k < length ?vs"
      using n assms(2) Suc_leI [OF n] by (simp_all add: k_def of_nat_diff)
    have "?valid \<le> int k"
      using False k len(4) by auto
    then have start: "1 \<le> start" "start \<le> Suc k" "(if ?valid + 1 = 0 then 1 else ?valid + 1) = int start"
      using len(3) unfolding start_def by (simp_all split: if_split) linarith+
    have "(ps_prefixSum p)[0 := ?vs ! 0] ! 0 = prefix ?vs (Suc 0)"
      using n len(1) by (simp add: prefix_Suc) (simp add: prefix_def)
    then have "\<forall>j < start. ?sums ! j = prefix ?vs (Suc j)"
      using assms(1) len(3) by (auto simp: sums_ok_def less_Suc_eq start_def)
    then have loop: "length ?loop = length ?vs" "\<forall>j < Suc k. ?loop ! j = prefix ?vs (Suc j)"
      using sum_loop_spec [of ?sums ?vs start "Suc k - start"] len(1) start(1,2) \<open>k < length ?vs\<close> by simp_all
    have counts: "nat (int k + 1 - int start) = Suc k - start"
      using start(2) by simp
    have "ps_get_prefix_sum i p = (ta_get ?loop (int k), p\<lparr>ps_prefixSum := ?loop, ps_validIndex := to_int32 (max ?valid (int k))\<rparr>)"
      using False n len(1) unfolding ps_get_prefix_sum_def Let_def k [symmetric] start(3) counts
      by (simp add: js_get_def ta_put_def)
    moreover have "max ?valid (int k) = int k"
      using False k len(4) by auto
    ultimately show ?thesis
      using loop len(2) \<open>k < length ?vs\<close> by (simp add: sums_ok_def ta_get_nth)
  qed
  then show "fst (ps_get_prefix_sum i p) = Some (uint (prefix (ps_values p) (Suc k)))"
    "sums_ok (snd (ps_get_prefix_sum i p))" "ps_values (snd (ps_get_prefix_sum i p)) = ps_values p"
    "int k \<le> ps_validIndex (snd (ps_get_prefix_sum i p))"
    by simp_all
qed

section \<open>Changing the values\<close>

lemma slice_take: "0 \<le> i \<Longrightarrow> i \<le> int (length xs) \<Longrightarrow> js_slice xs 0 i = take (nat i) xs"
  by (simp add: js_slice_def rel_index_def)

lemma slice_drop: "0 \<le> i \<Longrightarrow> i \<le> int (length xs) \<Longrightarrow> js_slice_from xs i = drop (nat i) xs"
  by (simp add: js_slice_from_def js_slice_def rel_index_def nat_diff_distrib)

lemma ta_set_parts:
  "length src = length ys \<Longrightarrow> offset = int (length xs) \<Longrightarrow> ta_set (xs @ ys @ zs) src offset = Inr (xs @ src @ zs)"
  by (simp add: ta_set_def)

lemma ta_new_append: "0 \<le> m \<Longrightarrow> 0 \<le> n \<Longrightarrow> ta_new (m + n) = ta_new m @ ta_new n"
  by (simp add: ta_new_def nat_add_distrib replicate_add)

lemma length_ta_new [simp]: "length (ta_new n) = nat n"
  by (simp add: ta_new_def)

text \<open>What all changes have in common: the values before an index stay, the sums before it stay valid.\<close>

lemma keep_valid_spec:
  assumes "sums_ok p" and "i \<le> length (ps_values p)" and "i \<le> length vs" and "take i vs = take i (ps_values p)"
    and "length vs < 2147483648"
  shows "\<exists>q. keep_valid (ps_prefixSum p) (invalidate_from (int i) (p\<lparr>ps_values := vs\<rparr>)) = Inr q \<and> sums_ok q \<and> ps_values q = vs"
proof -
  let ?q = "invalidate_from (int i) (p\<lparr>ps_values := vs\<rparr>)"
  define v where "v = min (ps_validIndex p) (int i - 1)"
  have p: "length (ps_prefixSum p) = length (ps_values p)" "-1 \<le> ps_validIndex p" "ps_validIndex p < int (length (ps_values p))"
    using assms(1) by (simp_all add: sums_ok_def)
  have v: "-1 \<le> v" "v \<le> int i - 1" "v \<le> ps_validIndex p"
    using p(2) by (auto simp: v_def)
  have q: "?q = p\<lparr>ps_values := vs, ps_validIndex := v\<rparr>"
    using assms(2) assms(5) p(1,2) assms(1) by (auto simp: invalidate_from_def v_def sums_ok_def)
  have same: "prefix vs (Suc j) = prefix (ps_values p) (Suc j)" if "int j \<le> v" for j
  proof -
    have "take (Suc j) vs = take (Suc j) (take i vs)" "take (Suc j) (ps_values p) = take (Suc j) (take i (ps_values p))"
      using that v(2) by (simp_all add: min_absorb1)
    then show ?thesis
      using assms(4) by (simp add: prefix_def)
  qed
  show ?thesis
  proof (cases "0 \<le> v")
    case True
    define k where "k = nat (v + 1)"
    have k: "v + 1 = int k" "k \<le> length vs" "k \<le> length (ps_prefixSum p)"
      using True v(2,3) assms(2,3) p by (simp_all add: k_def)
    have "ta_new (int (length vs)) = [] @ ta_new (int k) @ ta_new (int (length vs - k))"
      using ta_new_append [of "int k" "int (length vs - k)"] k(2) by (simp add: of_nat_diff)
    then have "ta_set (ta_new (int (length vs))) (js_slice (ps_prefixSum p) 0 (v + 1)) 0 =
        Inr (take k (ps_prefixSum p) @ ta_new (int (length vs - k)))"
      using ta_set_parts [of "take k (ps_prefixSum p)" "ta_new (int k)" 0 "[]"] k by (simp add: slice_take)
    then have "keep_valid (ps_prefixSum p) ?q = Inr (?q\<lparr>ps_prefixSum := take k (ps_prefixSum p) @ ta_new (int (length vs - k))\<rparr>)"
      using True by (simp add: keep_valid_def q)
    moreover have "(take k (ps_prefixSum p) @ ta_new (int (length vs - k))) ! j = prefix vs (Suc j)" if "int j \<le> v" for j
      using that k v(3) same [OF that] assms(1) by (auto simp: nth_append sums_ok_def)
    ultimately show ?thesis
      using assms(3,5) v(1,2) k by (simp add: q sums_ok_def)
  next
    case False
    then show ?thesis
      using v(1) assms(5) by (simp add: keep_valid_def q sums_ok_def)
  qed
qed

lemma insertValues_spec:
  assumes "sums_ok p" and "i \<le> length (ps_values p)" and "length (ps_values p) + length ins < 2147483648"
  shows "\<exists>b q. ps_insertValues (int i) ins p = Inr (b, q) \<and> sums_ok q \<and>
    ps_values q = take i (ps_values p) @ ins @ drop i (ps_values p)"
proof (cases "ins = []")
  case False
  let ?vs = "ps_values p" and ?m = "int (length ins)"
  let ?new = "take i ?vs @ ins @ drop i ?vs"
  have "int (length ?vs) + ?m = int i + (?m + int (length ?vs - i))"
    using assms(2) by simp
  then have n: "ta_new (int (length ?vs) + ?m) = [] @ ta_new (int i) @ ta_new ?m @ ta_new (int (length ?vs - i))"
    by (simp only: ta_new_append of_nat_0_le_iff add_nonneg_nonneg append_Nil)
  have "ta_set (ta_new (int (length ?vs) + ?m)) (take i ?vs) 0 = Inr (take i ?vs @ ta_new ?m @ ta_new (int (length ?vs - i)))"
    unfolding n using ta_set_parts [of "take i ?vs" "ta_new (int i)" 0 "[]"] assms(2) by simp
  moreover have "ta_set (take i ?vs @ ta_new ?m @ ta_new (int (length ?vs - i))) (drop i ?vs) (int i + ?m) =
      Inr (take i ?vs @ ta_new ?m @ drop i ?vs)"
    using ta_set_parts [of "drop i ?vs" "ta_new (int (length ?vs - i))" "int i + ?m" "take i ?vs @ ta_new ?m" "[]"] assms(2)
    by simp
  moreover have "ta_set (take i ?vs @ ta_new ?m @ drop i ?vs) ins (int i) = Inr ?new"
    using assms(2) by (intro ta_set_parts) simp_all
  moreover obtain q where "keep_valid (ps_prefixSum p) (invalidate_from (int i) (p\<lparr>ps_values := ?new\<rparr>)) = Inr q"
      "sums_ok q" "ps_values q = ?new"
    using keep_valid_spec [OF assms(1,2), of ?new] assms(2,3) by auto
  ultimately have "ps_insertValues (int i) ins p = Inr (True, q) \<and> sums_ok q \<and> ps_values q = ?new"
    using assms(2,3) False by (simp add: ps_insertValues_def slice_take slice_drop)
  then show ?thesis
    by blast
qed (use assms(1) in \<open>auto simp: ps_insertValues_def\<close>)

lemma removeValues_spec:
  assumes "sums_ok p" and "i < 2147483648" and "n < 2147483648"
  shows "\<exists>b q. ps_removeValues (int i) (int n) p = Inr (b, q) \<and> sums_ok q \<and>
    ps_values q = take i (ps_values p) @ drop (i + n) (ps_values p)"
proof (cases "i \<ge> length (ps_values p) \<or> n = 0")
  case True
  then show ?thesis
    using assms by (auto simp: ps_removeValues_def Let_def)
next
  case False
  let ?vs = "ps_values p"
  define k where "k = min n (length ?vs - i)"
  have small: "length ?vs < 2147483648" "i < length ?vs"
    using assms(1) False by (simp_all add: sums_ok_def)
  have k: "0 < k" "i + k \<le> length ?vs" "drop (i + n) ?vs = drop (i + k) ?vs"
    using False by (auto simp: k_def min_def)
  have count: "(if int (length ?vs) - int i \<le> int n then int (length ?vs) - int i else int n) = int k"
    using False by (auto simp: k_def min_def of_nat_diff)
  have "int (length ?vs) - int k = int i + int (length ?vs - (i + k))"
    using k by simp
  then have len: "ta_new (int (length ?vs) - int k) = [] @ ta_new (int i) @ ta_new (int (length ?vs - (i + k)))"
    by (simp only: ta_new_append of_nat_0_le_iff append_Nil)
  let ?new = "take i ?vs @ drop (i + k) ?vs"
  have bounds: "i \<le> length ?vs - k" "length ?vs - k < 2147483648"
    using k(2) small(1) by simp_all
  have "ta_set (ta_new (int (length ?vs) - int k)) (take i ?vs) 0 = Inr (take i ?vs @ ta_new (int (length ?vs - (i + k))))"
    unfolding len using ta_set_parts [of "take i ?vs" "ta_new (int i)" 0 "[]"] False by simp
  moreover have "ta_set (take i ?vs @ ta_new (int (length ?vs - (i + k)))) (drop (i + k) ?vs) (int i) = Inr ?new"
    by (rule ta_set_parts [where zs = "[]", unfolded append_Nil2]) (use False in \<open>simp_all only: length_drop length_ta_new length_take nat_int, simp\<close>)
  moreover obtain q where "keep_valid (ps_prefixSum p) (invalidate_from (int i) (p\<lparr>ps_values := ?new\<rparr>)) = Inr q"
      "sums_ok q" "ps_values q = ?new"
    using keep_valid_spec [OF assms(1), of i ?new] small k(1,2) bounds by auto
  ultimately have "ps_removeValues (int i) (int n) p = Inr (True, q) \<and> sums_ok q \<and> ps_values q = ?new"
    using assms False k(1,2) count by (simp add: ps_removeValues_def Let_def slice_take slice_drop flip: of_nat_add)
  then show ?thesis
    unfolding k(3) by blast
qed

lemma word_of_toUint32: "0 \<le> v \<Longrightarrow> v < 4294967296 \<Longrightarrow> (word_of_int (toUint32 v) :: 32 word) = word_of_int v"
  by (simp add: toUint32_def to_int32_def word_of_int_eq_iff take_bit_signed_take_bit)

lemma setValue_spec:
  assumes "sums_ok p" and "i < 2147483648" and "0 \<le> v" and "v < 4294967296"
  shows "sums_ok (snd (ps_setValue (int i) v p)) \<and> ps_values (snd (ps_setValue (int i) v p)) = (ps_values p)[i := word_of_int v]"
proof (cases "ta_get (ps_values p) (int i) = Some (toUint32 v)")
  case True
  then have "i < length (ps_values p)" "uint (ps_values p ! i) = toUint32 v"
    by (auto simp: ta_get_def js_get_def split: if_splits)
  then have "(ps_values p)[i := word_of_int v] = ps_values p"
    using word_of_toUint32 [OF assms(3,4)] by (metis list_update_id word_of_int_uint)
  with True assms(1,2) show ?thesis
    by (simp add: ps_setValue_def)
next
  case False
  let ?vs = "(ps_values p)[i := word_of_int v]"
  let ?i = "min i (length (ps_values p))"
  have "ta_put (ps_values p) (int i) (word_of_int (toUint32 v)) = ?vs"
    using word_of_toUint32 [OF assms(3,4)] by (simp add: ta_put_def list_update_beyond)
  then have q: "snd (ps_setValue (int i) v p) = invalidate_from (int i) (p\<lparr>ps_values := ?vs\<rparr>)"
    using False assms(2) by (simp add: ps_setValue_def)
  have "prefix ?vs (Suc j) = prefix (ps_values p) (Suc j)" if "int j \<le> int i - 1" for j
    using that by (simp add: prefix_def)
  then show ?thesis
    using assms(1,2) unfolding q invalidate_from_def by (auto simp: sums_ok_def)
qed

end
