(* ===== verification/Prefix_Laws.thy ===== *)
theory Prefix_Laws
  imports Prefix_Sums Machine
begin

text \<open>
  What the prefix sums of \<open>Prefix_Sums\<close> promise. A client changes values and asks for sums and for the value a sum
  falls into, in any order: \<open>ps_op\<close> and \<open>cs_op\<close> run such a request on the two classes, and \<open>list_op\<close> says what it
  does to the list of values. The locale \<open>sums_index\<close> is the contract of \<open>getIndexOf\<close> that both classes meet.
\<close>

section \<open>The contract of getIndexOf\<close>

definition sum_upto :: "int list \<Rightarrow> nat \<Rightarrow> int" where
  "sum_upto vs k = sum_list (take k vs)"

lemma sum_upto_0 [simp]: "sum_upto vs 0 = 0"
  by (simp add: sum_upto_def)

lemma sum_upto_Suc: "k < length vs \<Longrightarrow> sum_upto vs (Suc k) = sum_upto vs k + vs ! k"
  by (simp add: sum_upto_def take_Suc_conv_app_nth)

lemma sum_upto_all: "length vs \<le> k \<Longrightarrow> sum_upto vs k = sum_list vs"
  by (simp add: sum_upto_def)

lemma sum_upto_mono:
  assumes "\<forall>v \<in> set vs. 0 \<le> v" and "j \<le> k"
  shows "sum_upto vs j \<le> sum_upto vs k"
proof -
  have "take k vs = take j vs @ take (k - j) (drop j vs)"
    using assms(2) take_add [of j "k - j" vs] by simp
  moreover have "0 \<le> sum_list (take (k - j) (drop j vs))"
    using assms(1) by (intro sum_list_nonneg) (auto dest: in_set_takeD in_set_dropD)
  ultimately show ?thesis
    by (simp add: sum_upto_def)
qed

lemma sum_upto_le: "\<forall>v \<in> set vs. 0 \<le> v \<Longrightarrow> sum_upto vs k \<le> sum_list vs"
  using sum_upto_mono [of vs k "max k (length vs)"] by (simp add: sum_upto_all)

lemma sum_upto_nonneg: "\<forall>v \<in> set vs. 0 \<le> v \<Longrightarrow> 0 \<le> sum_upto vs k"
  using sum_upto_mono [of vs 0 k] by simp

locale sums_index =
  fixes ok :: "'s \<Rightarrow> bool"
    and vals :: "'s \<Rightarrow> int list"
    and index_of :: "int \<Rightarrow> 's \<Rightarrow> int \<times> int"
  assumes vals_nonneg: "ok s \<Longrightarrow> \<forall>v \<in> set (vals s). 0 \<le> v"
    and index_of_found: "ok s \<Longrightarrow> 0 \<le> t \<Longrightarrow> t < sum_list (vals s) \<Longrightarrow>
      \<exists>i r. index_of t s = (int i, r) \<and> i < length (vals s) \<and> sum_upto (vals s) i + r = t \<and> 0 \<le> r \<and> r < vals s ! i"
begin

text \<open>The value a sum falls into is unique: \<open>index_of\<close> inverts the sums.\<close>

lemma index_of_unique:
  assumes "ok s" and "i < length (vals s)" and "0 \<le> r" and "r < vals s ! i"
  shows "index_of (sum_upto (vals s) i + r) s = (int i, r)"
proof -
  let ?vs = "vals s"
  have nonneg: "\<forall>v \<in> set ?vs. 0 \<le> v"
    by (rule vals_nonneg [OF assms(1)])
  have "sum_upto ?vs i + r < sum_upto ?vs (Suc i)"
    using assms(2,4) by (simp add: sum_upto_Suc)
  also have "\<dots> \<le> sum_list ?vs"
    by (rule sum_upto_le [OF nonneg])
  finally obtain j q where j: "index_of (sum_upto ?vs i + r) s = (int j, q)" "j < length ?vs"
      "sum_upto ?vs j + q = sum_upto ?vs i + r" "0 \<le> q" "q < ?vs ! j"
    using index_of_found [OF assms(1), of "sum_upto ?vs i + r"] sum_upto_nonneg [OF nonneg, of i] assms(3) by fastforce
  have "\<not> i < j"
    using sum_upto_mono [OF nonneg, of "Suc i" j] j(3,4) assms(2,4) by (auto simp: sum_upto_Suc)
  moreover have "\<not> j < i"
    using sum_upto_mono [OF nonneg, of "Suc j" i] j assms(3) by (auto simp: sum_upto_Suc)
  ultimately have "j = i"
    by simp
  with j show ?thesis
    by simp
qed

lemma index_of_fst_less: "ok s \<Longrightarrow> 0 \<le> t \<Longrightarrow> t < sum_list (vals s) \<Longrightarrow> fst (index_of t s) < int (length (vals s))"
  using index_of_found [of s t] by auto

end

section \<open>Requests\<close>

datatype sum_op = InsertValues nat uint32_array | SetValue nat int | RemoveValues nat nat | GetTotalSum | GetPrefixSum nat | GetIndexOf int

fun ps_op :: "prefix_sums \<Rightarrow> sum_op \<Rightarrow> prefix_sums result" where
  "ps_op p (InsertValues i ws) = map_sum id snd (ps_insertValues (int i) ws p)"
| "ps_op p (SetValue i v) = Inr (snd (ps_setValue (int i) v p))"
| "ps_op p (RemoveValues i n) = map_sum id snd (ps_removeValues (int i) (int n) p)"
| "ps_op p GetTotalSum = Inr (snd (ps_getTotalSum p))"
| "ps_op p (GetPrefixSum i) = Inr (snd (ps_getPrefixSum (int i) p))"
| "ps_op p (GetIndexOf t) = Inr (snd (ps_getIndexOf t p))"

fun list_op :: "uint32_array \<Rightarrow> sum_op \<Rightarrow> uint32_array" where
  "list_op vs (InsertValues i ws) = take i vs @ ws @ drop i vs"
| "list_op vs (SetValue i v) = vs[i := word_of_int v]"
| "list_op vs (RemoveValues i n) = take i vs @ drop (i + n) vs"
| "list_op vs _ = vs"

text \<open>Values are inserted inside the array, numbers are unsigned words and the array stays below \<open>2 ^ 31\<close> elements.\<close>

fun op_ok :: "uint32_array \<Rightarrow> sum_op \<Rightarrow> bool" where
  "op_ok vs (InsertValues i ws) \<longleftrightarrow> i \<le> length vs \<and> length vs + length ws < 2147483648"
| "op_ok vs (SetValue i v) \<longleftrightarrow> i < 2147483648 \<and> 0 \<le> v \<and> v < 4294967296"
| "op_ok vs (RemoveValues i n) \<longleftrightarrow> i < 2147483648 \<and> n < 2147483648"
| "op_ok vs (GetPrefixSum i) \<longleftrightarrow> i < 2147483648"
| "op_ok vs _ \<longleftrightarrow> True"

fun ops_ok :: "uint32_array \<Rightarrow> sum_op list \<Rightarrow> bool" where
  "ops_ok vs [] \<longleftrightarrow> True"
| "ops_ok vs (e # es) \<longleftrightarrow> op_ok vs e \<and> ops_ok (list_op vs e) es"

section \<open>The values and the sums of PrefixSumComputer\<close>

lemma get_prefix_sum_empty:
  assumes "sums_ok p" and "ps_values p = []" and "0 \<le> i"
  shows "ps_get_prefix_sum i p = (None, p)"
proof -
  have "ps_validIndex p = -1" "ps_prefixSum p = []"
    using assms(1,2) by (simp_all add: sums_ok_def)
  then show ?thesis
    using assms(2,3) by (cases p) (simp add: ps_get_prefix_sum_def Let_def js_get_def ta_get_def)
qed

lemma getPrefixSum_spec:
  assumes "sums_ok p" and "i < 2147483648"
  shows "sums_ok (snd (ps_getPrefixSum (int i) p))" and "ps_values (snd (ps_getPrefixSum (int i) p)) = ps_values p"
    and "fst (ps_getPrefixSum (int i) p) =
      (if ps_values p = [] then None else Some (sum_upto (map uint (ps_values p)) (Suc i) mod 2 ^ 32))"
proof -
  have "sums_ok (snd (ps_getPrefixSum (int i) p)) \<and> ps_values (snd (ps_getPrefixSum (int i) p)) = ps_values p \<and>
    fst (ps_getPrefixSum (int i) p) =
      (if ps_values p = [] then None else Some (sum_upto (map uint (ps_values p)) (Suc i) mod 2 ^ 32))"
  proof (cases "ps_values p = []")
    case False
    then have "prefix (ps_values p) (Suc (min i (length (ps_values p) - 1))) = prefix (ps_values p) (Suc i)"
      by (cases "ps_values p") (simp_all add: prefix_def min_def)
    with False show ?thesis
      using get_prefix_sum_spec(1-3) [OF assms(1) _ False, of "int i"] assms(2)
      by (simp add: ps_getPrefixSum_def sum_upto_def uint_prefix)
  qed (use assms in \<open>simp add: ps_getPrefixSum_def get_prefix_sum_empty\<close>)
  then show "sums_ok (snd (ps_getPrefixSum (int i) p))" "ps_values (snd (ps_getPrefixSum (int i) p)) = ps_values p"
    "fst (ps_getPrefixSum (int i) p) =
      (if ps_values p = [] then None else Some (sum_upto (map uint (ps_values p)) (Suc i) mod 2 ^ 32))"
    by blast+
qed

lemma getTotalSum_spec:
  assumes "sums_ok p"
  shows "sums_ok (snd (ps_getTotalSum p))" and "ps_values (snd (ps_getTotalSum p)) = ps_values p"
    and "fst (ps_getTotalSum p) = Some (sum_list (map uint (ps_values p)) mod 2 ^ 32)"
    and "ps_validIndex (snd (ps_getTotalSum p)) = int (length (ps_values p)) - 1"
proof -
  let ?i = "int (length (ps_values p)) - 1"
  have valid: "ps_validIndex (snd (ps_get_prefix_sum ?i p)) = ?i" if "ps_values p \<noteq> []"
    using get_prefix_sum_spec(2-4) [OF assms _ that, of ?i] that by (auto simp: sums_ok_def Suc_le_eq nat_diff_distrib)
  show "sums_ok (snd (ps_getTotalSum p))" "ps_values (snd (ps_getTotalSum p)) = ps_values p"
    "fst (ps_getTotalSum p) = Some (sum_list (map uint (ps_values p)) mod 2 ^ 32)"
    using get_prefix_sum_spec(1-3) [OF assms, of ?i] assms
    by (auto simp: ps_getTotalSum_def uint_prefix Suc_le_eq nat_diff_distrib)
  show "ps_validIndex (snd (ps_getTotalSum p)) = int (length (ps_values p)) - 1"
    using valid assms by (auto simp: ps_getTotalSum_def sums_ok_def)
qed

lemma getIndexOf_state: "snd (ps_getIndexOf t p) = snd (ps_getTotalSum p)"
  by (simp add: ps_getIndexOf_def Let_def split: prod.split)

text \<open>No request throws, each keeps the invariant and does to the values what it says.\<close>

lemma ps_op_spec:
  assumes "sums_ok p" and "op_ok (ps_values p) e"
  shows "\<exists>q. ps_op p e = Inr q \<and> sums_ok q \<and> ps_values q = list_op (ps_values p) e"
proof (cases e)
  case (InsertValues i ws)
  then show ?thesis
    using insertValues_spec [OF assms(1), of i ws] assms(2) by auto
next
  case (SetValue i v)
  then show ?thesis
    using setValue_spec [OF assms(1), of i v] assms(2) by simp
next
  case (RemoveValues i n)
  then show ?thesis
    using removeValues_spec [OF assms(1), of i n] assms(2) by auto
next
  case (GetPrefixSum i)
  then show ?thesis
    using getPrefixSum_spec [OF assms(1), of i] assms(2) by simp
qed (use getTotalSum_spec [OF assms(1)] in \<open>simp_all add: getIndexOf_state\<close>)

lemma ps_run_spec:
  "sums_ok p \<Longrightarrow> ops_ok (ps_values p) es \<Longrightarrow>
     \<exists>q. run_machine ps_op p es = Inr q \<and> sums_ok q \<and> ps_values q = foldl list_op (ps_values p) es"
proof (induction es arbitrary: p)
  case (Cons e es)
  obtain q where q: "ps_op p e = Inr q" "sums_ok q" "ps_values q = list_op (ps_values p) e"
    using ps_op_spec [OF Cons.prems(1), of e] Cons.prems(2) by auto
  then show ?case
    using Cons.IH [OF q(2)] Cons.prems(2) by simp
qed simp

text \<open>
  C20: refinement of the list of values. Whatever sequence of insertions, changes, removals and queries a
  \<open>PrefixSumComputer\<close> has seen, and so whichever part of the sums it holds as valid, no operation throws, its values
  are what the same operations make of a plain list, \<open>getPrefixSum(i)\<close> is the sum of the first \<open>i + 1\<close> of them and
  \<open>getTotalSum()\<close> the sum of all, modulo \<open>2 ^ 32\<close>.
\<close>

theorem prefix_sums_refine_list:
  assumes "length vs < 2147483648" and "ops_ok vs es"
  defines "ws \<equiv> foldl list_op vs es"
  shows "\<exists>p. run_machine ps_op (new_PrefixSumComputer vs) es = Inr p \<and> ps_values p = ws \<and>
    fst (ps_getTotalSum p) = Some (sum_list (map uint ws) mod 2 ^ 32) \<and>
    (\<forall>i < length ws. fst (ps_getPrefixSum (int i) p) = Some (sum_list (take (Suc i) (map uint ws)) mod 2 ^ 32))"
proof -
  obtain p where p: "run_machine ps_op (new_PrefixSumComputer vs) es = Inr p" "sums_ok p" "ps_values p = ws"
    using ps_run_spec [OF sums_ok_new [OF assms(1)], of es] assms(2) by (auto simp: new_PrefixSumComputer_def ws_def)
  moreover have "fst (ps_getPrefixSum (int i) p) = Some (sum_list (take (Suc i) (map uint ws)) mod 2 ^ 32)"
    if "i < length ws" for i
    using getPrefixSum_spec(3) [OF p(2), of i] that p(2,3) by (auto simp: sums_ok_def sum_upto_def)
  ultimately show ?thesis
    using getTotalSum_spec(3) [OF p(2)] by blast
qed

text \<open>Values are changed under sums that were already asked for.\<close>

theorem prefix_sums_refine_list_witness:
  "\<exists>p. run_machine ps_op (new_PrefixSumComputer [3, 4294967295, 5])
      [GetTotalSum, SetValue 1 7, InsertValues 1 [2, 4], RemoveValues 0 1, GetIndexOf 4] = Inr p \<and>
    ps_values p = [2, 4, 7, 5] \<and> fst (ps_getTotalSum p) = Some 18 \<and> fst (ps_getPrefixSum 2 p) = Some 13"
proof -
  let ?es = "[GetTotalSum, SetValue 1 7, InsertValues 1 [2, 4], RemoveValues 0 1, GetIndexOf 4]"
  have changed: "foldl list_op [3, 4294967295, 5] ?es = [2, 4, 7, 5]"
    by simp
  obtain p where p: "run_machine ps_op (new_PrefixSumComputer [3, 4294967295, 5]) ?es = Inr p" "ps_values p = [2, 4, 7, 5]"
      "fst (ps_getTotalSum p) = Some 18"
      "\<forall>i < 4. fst (ps_getPrefixSum (int i) p) = Some (sum_list (take (Suc i) [2, 4, 7, 5]) mod 2 ^ 32)"
    using prefix_sums_refine_list [of "[3, 4294967295, 5]" ?es] unfolding changed by auto
  have "fst (ps_getPrefixSum 2 p) = Some 13"
    using spec [OF p(4), of 2] by simp
  with p show ?thesis
    by blast
qed

section \<open>Searching\<close>

lemma index_of_loop_spec:
  assumes "length sums = length vs" and "\<forall>j < length vs. uint (sums ! j) = sum_upto (map uint vs) (Suc j)"
    and "0 \<le> low" and "high < int (length vs)" and "sum_upto (map uint vs) (nat low) \<le> t"
    and "t < sum_upto (map uint vs) (nat (high + 1))"
  shows "\<exists>i. index_of_loop vs sums t low high mid midStart = (int i, sum_upto (map uint vs) i) \<and> i < length vs \<and>
    sum_upto (map uint vs) i \<le> t \<and> t < sum_upto (map uint vs) (Suc i)"
  using assms
proof (induction vs sums t low high mid midStart rule: index_of_loop.induct)
  case (1 vs sums t low high mid midStart)
  let ?us = "map uint vs"
  have "\<not> high < low"
    using 1(8) 1(7) sum_upto_mono [of ?us "nat (high + 1)" "nat low"] by force
  define m where "m = low + (high - low) div 2"
  have m: "low \<le> m" "m \<le> high" "0 \<le> m" "nat (m + 1) = Suc (nat m)" "nat m < length vs"
    using \<open>\<not> high < low\<close> 1(5,6) by (auto simp: m_def)
  have stop: "uint (sums ! nat m) = sum_upto ?us (Suc (nat m))" and
      start: "uint (sums ! nat m) - uint (vs ! nat m) = sum_upto ?us (nat m)"
    using 1(4) m(5) by (simp_all add: sum_upto_Suc)
  note unfold = index_of_loop.simps [of vs sums t low high mid midStart]
  consider "t < sum_upto ?us (nat m)" | "sum_upto ?us (Suc (nat m)) \<le> t" |
    "sum_upto ?us (nat m) \<le> t" "t < sum_upto ?us (Suc (nat m))"
    by linarith
  then show ?case
  proof cases
    case 1
    then show ?thesis
      using "1.IH"(1) [OF _ m_def refl refl] "1.prems" m stop start unfold \<open>\<not> high < low\<close>
      by (simp add: m_def [symmetric] Let_def)
  next
    case 2
    moreover have "\<not> t < sum_upto ?us (nat m)"
      using 2 sum_upto_mono [of ?us "nat m" "Suc (nat m)"] by force
    ultimately show ?thesis
      using "1.IH"(2) [OF _ m_def refl refl] "1.prems" m stop start unfold \<open>\<not> high < low\<close>
      by (simp add: m_def [symmetric] Let_def)
  next
    case 3
    then show ?thesis
      using m stop start unfold \<open>\<not> high < low\<close> by (intro exI [of _ "nat m"]) (simp add: m_def [symmetric] Let_def)
  qed
qed

definition ps_bounded :: "prefix_sums \<Rightarrow> bool" where
  "ps_bounded p \<longleftrightarrow> sums_ok p \<and> sum_list (map uint (ps_values p)) < 4294967296"

lemma getIndexOf_spec:
  assumes "ps_bounded p" and "0 \<le> t" and "t < sum_list (map uint (ps_values p))"
  shows "\<exists>i r. fst (ps_getIndexOf t p) = (int i, r) \<and> i < length (map uint (ps_values p)) \<and>
    sum_upto (map uint (ps_values p)) i + r = t \<and> 0 \<le> r \<and> r < map uint (ps_values p) ! i"
proof -
  let ?vs = "ps_values p" and ?q = "snd (ps_getTotalSum p)"
  have p: "sums_ok p" "sum_list (map uint ?vs) < 4294967296"
    using assms(1) by (simp_all add: ps_bounded_def)
  note q = getTotalSum_spec [OF p(1)]
  have "uint (ps_prefixSum ?q ! j) = sum_upto (map uint ?vs) (Suc j)" if "j < length ?vs" for j
  proof -
    have "ps_prefixSum ?q ! j = prefix ?vs (Suc j)"
      using q that by (simp add: sums_ok_def)
    moreover have "0 \<le> sum_upto (map uint ?vs) (Suc j)" "sum_upto (map uint ?vs) (Suc j) < 4294967296"
      using sum_upto_nonneg [of "map uint ?vs" "Suc j"] sum_upto_le [of "map uint ?vs" "Suc j"] p(2) by auto
    ultimately show ?thesis
      by (simp add: uint_prefix sum_upto_def)
  qed
  then obtain i where "index_of_loop ?vs (ps_prefixSum ?q) t 0 (int (length ?vs) - 1) 0 0 = (int i, sum_upto (map uint ?vs) i)"
      "i < length ?vs" "sum_upto (map uint ?vs) i \<le> t" "t < sum_upto (map uint ?vs) (Suc i)"
    using index_of_loop_spec [of "ps_prefixSum ?q" ?vs 0 "int (length ?vs) - 1" t 0 0] q(1,2) assms(2,3)
    by (auto simp: sums_ok_def sum_upto_all)
  then show ?thesis
    using q(2) by (auto simp: ps_getIndexOf_def Let_def sum_upto_Suc)
qed

interpretation ps: sums_index ps_bounded "\<lambda>p. map uint (ps_values p)" "\<lambda>t p. fst (ps_getIndexOf t p)"
  by unfold_locales (auto dest: getIndexOf_spec)

section \<open>The rounds of the search\<close>

text \<open>The loop of \<open>getIndexOf\<close> with a bound on its rounds; \<open>None\<close> when they are not enough.\<close>

primrec index_of_rounds :: "nat \<Rightarrow> uint32_array \<Rightarrow> uint32_array \<Rightarrow> int \<Rightarrow> int \<Rightarrow> int \<Rightarrow> int \<Rightarrow> int \<Rightarrow> (int \<times> int) option" where
  "index_of_rounds 0 vs sums target low high mid midStart = (if low \<le> high then None else Some (mid, midStart))"
| "index_of_rounds (Suc k) vs sums target low high mid midStart =
     (if low \<le> high
      then let mid = low + (high - low) div 2;
               midStop = uint (sums ! nat mid);
               midStart = midStop - uint (vs ! nat mid)
        in if target < midStart then index_of_rounds k vs sums target low (mid - 1) mid midStart
           else if target \<ge> midStop then index_of_rounds k vs sums target (mid + 1) high mid midStart
           else Some (mid, midStart)
      else Some (mid, midStart))"

lemma rounds_enough:
  "high - low + 1 < 2 ^ k \<Longrightarrow>
     index_of_rounds k vs sums t low high mid midStart = Some (index_of_loop vs sums t low high mid midStart)"
proof (induction k arbitrary: low high mid midStart)
  case (Suc k)
  let ?m = "low + (high - low) div 2"
  have "?m - 1 - low + 1 < 2 ^ k" "high - (?m + 1) + 1 < 2 ^ k" if "low \<le> high"
    using Suc.prems that by auto
  then show ?case
    using Suc.IH by (subst index_of_loop.simps) (simp add: Let_def)
qed (simp add: index_of_loop.simps)

text \<open>
  C23: \<open>getIndexOf\<close> is logarithmic, as its comment says. On fewer than \<open>2 ^ k\<close> values the search ends within \<open>k\<close> rounds
  of its loop, whatever the sums and the target are, and the index and the remainder it returns are those of the last
  round. No array needs more than 31 rounds.
\<close>

theorem search_is_logarithmic:
  assumes "length (ps_values p) < 2 ^ k"
  shows "\<exists>mid midStart. fst (ps_getIndexOf t p) = (mid, t - midStart) \<and>
    (let q = snd (ps_getTotalSum p)
     in index_of_rounds k (ps_values q) (ps_prefixSum q) t 0 (int (length (ps_values q)) - 1) 0 0 = Some (mid, midStart))"
proof -
  let ?q = "snd (ps_getTotalSum p)"
  have "ps_values ?q = ps_values p"
    by (simp add: ps_getTotalSum_def ps_get_prefix_sum_def Let_def)
  then have "int (length (ps_values ?q)) - 1 - 0 + 1 < 2 ^ k"
    using assms by (simp flip: of_nat_less_iff)
  then show ?thesis
    using rounds_enough [of "int (length (ps_values ?q)) - 1" 0 k "ps_values ?q" "ps_prefixSum ?q" t 0 0]
    by (auto simp: ps_getIndexOf_def Let_def split: prod.split)
qed

theorem search_is_logarithmic_witness:
  "\<exists>mid midStart. fst (ps_getIndexOf 4 (new_PrefixSumComputer [3, 0, 5])) = (mid, 4 - midStart) \<and>
    (let q = snd (ps_getTotalSum (new_PrefixSumComputer [3, 0, 5]))
     in index_of_rounds 2 (ps_values q) (ps_prefixSum q) 4 0 (int (length (ps_values q)) - 1) 0 0 = Some (mid, midStart))"
  by (rule search_is_logarithmic) (simp add: new_PrefixSumComputer_def)

end
