(* ===== verification/Prefix_Constant.thy ===== *)
theory Prefix_Constant
  imports Prefix_Laws
begin

text \<open>
  \<open>ConstantTimePrefixSumComputer\<close> keeps the sums and, for each sum, the index of the value it falls into. This theory
  shows that it meets the same contract as \<open>PrefixSumComputer\<close> and that the two agree on every sequence of requests.
\<close>

section \<open>The invariant\<close>

text \<open>The sums and the indexes up to the valid one are right; when everything is valid nothing else is kept.\<close>

definition index_ok :: "int list \<Rightarrow> num_array \<Rightarrow> nat \<Rightarrow> bool" where
  "index_ok vs a k \<longleftrightarrow> sum_upto vs k \<le> int (length a) \<and>
     (\<forall>j < k. \<forall>t. sum_upto vs j \<le> t \<and> t < sum_upto vs (Suc j) \<longrightarrow> a ! nat t = Some (int j))"

definition prefix_ok :: "int list \<Rightarrow> num_array \<Rightarrow> nat \<Rightarrow> bool" where
  "prefix_ok vs a k \<longleftrightarrow> k \<le> length a \<and> (\<forall>j < k. a ! j = Some (sum_upto vs (Suc j)))"

definition cs_ok :: "int list \<Rightarrow> constant_sums \<Rightarrow> bool" where
  "cs_ok vs c \<longleftrightarrow> cs_values c = map Some vs \<and> (\<forall>v \<in> set vs. 0 \<le> v) \<and>
     -1 \<le> cs_validEndIndex c \<and> cs_validEndIndex c < int (length vs) \<and>
     prefix_ok vs (cs_prefixSum c) (nat (cs_validEndIndex c + 1)) \<and> index_ok vs (cs_indexBySum c) (nat (cs_validEndIndex c + 1)) \<and>
     (cs_isValid c \<longrightarrow> vs \<noteq> [] \<and> cs_validEndIndex c = int (length vs) - 1 \<and>
        length (cs_prefixSum c) = length vs \<and> int (length (cs_indexBySum c)) = sum_list vs)"

lemma cs_ok_new: "\<forall>v \<in> set vs. 0 \<le> v \<Longrightarrow> cs_ok vs (new_ConstantTimePrefixSumComputer (map Some vs))"
  by (simp add: cs_ok_def new_ConstantTimePrefixSumComputer_def prefix_ok_def index_ok_def)

lemma na_put_nth: "0 \<le> i \<Longrightarrow> i \<le> int (length a) \<Longrightarrow> j \<le> length a \<Longrightarrow> na_put a i v ! j = (if int j = i then v else a ! j)"
  by (auto simp: na_put_def nth_append nth_list_update)

lemma length_na_put: "0 \<le> i \<Longrightarrow> i \<le> int (length a) \<Longrightarrow> length (na_put a i v) = max (length a) (nat i + 1)"
  by (auto simp: na_put_def)

lemma na_get_nth: "0 \<le> i \<Longrightarrow> i < int (length a) \<Longrightarrow> na_get a i = a ! nat i"
  by (simp add: na_get_def js_get_def)

lemma fill_loop_spec:
  assumes "0 \<le> s" and "s \<le> int (length a)"
  shows "length (fill_loop n s i a) = max (length a) (nat s + n) \<and>
    (\<forall>j < max (length a) (nat s + n). fill_loop n s i a ! j = (if s \<le> int j \<and> int j < s + int n then Some i else a ! j))"
  using assms
proof (induction n s i a rule: fill_loop.induct)
  case (2 n s i a)
  let ?b = "na_put a s (Some i)"
  have len: "length ?b = max (length a) (nat s + 1)"
    using 2(2,3) by (rule length_na_put)
  have IH: "length (fill_loop n (s + 1) i ?b) = max (length ?b) (nat (s + 1) + n)"
      "\<forall>j < max (length ?b) (nat (s + 1) + n). fill_loop n (s + 1) i ?b ! j =
        (if s + 1 \<le> int j \<and> int j < s + 1 + int n then Some i else ?b ! j)"
    using 2(1) 2(2,3) len by auto
  have total: "max (length ?b) (nat (s + 1) + n) = max (length a) (nat s + Suc n)"
    using 2(2) len by auto
  have "fill_loop n (s + 1) i ?b ! j = (if s \<le> int j \<and> int j < s + int (Suc n) then Some i else a ! j)"
    if "j < max (length a) (nat s + Suc n)" for j
  proof (cases "s + 1 \<le> int j \<and> int j < s + 1 + int n")
    case False
    then have "j \<le> length a"
      using that 2(2,3) by auto
    then show ?thesis
      using IH(2) [unfolded total] that False na_put_nth [OF 2(2,3), of j "Some i"] by auto
  qed (use IH(2) [unfolded total] that in auto)
  then show ?case
    using IH(1) [unfolded total] by simp
qed auto

text \<open>One round of the outer loop.\<close>

lemma round_spec:
  assumes "\<forall>v \<in> set vs. 0 \<le> v" and "i < length vs" and "prefix_ok vs sums i" and "index_ok vs index i"
  shows "prefix_ok vs (na_put sums (int i) (Some (sum_upto vs (Suc i)))) (Suc i) \<and>
    index_ok vs (fill_loop (nat (vs ! i)) (sum_upto vs i) (int i) index) (Suc i)"
proof
  have "i \<le> length sums"
    using assms(3) by (simp add: prefix_ok_def)
  then show "prefix_ok vs (na_put sums (int i) (Some (sum_upto vs (Suc i)))) (Suc i)"
    using assms(3) by (auto simp: prefix_ok_def length_na_put na_put_nth less_Suc_eq)
next
  obtain n where n: "vs ! i = int n"
    using assms(1,2) nonneg_int_cases [of "vs ! i"] by auto
  let ?s = "sum_upto vs i"
  let ?b = "fill_loop n ?s (int i) index"
  have s: "0 \<le> ?s" "?s \<le> int (length index)" "sum_upto vs (Suc i) = ?s + int n"
    using sum_upto_nonneg [OF assms(1)] assms(2,4) n by (auto simp: index_ok_def sum_upto_Suc)
  note fill = fill_loop_spec [OF s(1,2), of n "int i"]
  have "?b ! nat t = Some (int j)" if j: "j < Suc i" "sum_upto vs j \<le> t" "t < sum_upto vs (Suc j)" for j t
  proof -
    have t: "0 \<le> t"
      using sum_upto_nonneg [OF assms(1), of j] j(2) by simp
    show ?thesis
    proof (cases "j = i")
      case True
      then show ?thesis
        using fill j s(1,3) t by auto
    next
      case False
      then have "t < ?s" "j < i"
        using sum_upto_mono [OF assms(1), of "Suc j" i] j(1,3) by auto
      moreover from this have "index ! nat t = Some (int j)"
        using assms(4) j(2,3) by (simp add: index_ok_def)
      ultimately show ?thesis
        using fill s(2) t by auto
    qed
  qed
  then have "index_ok vs ?b (Suc i)"
    using fill s by (auto simp: index_ok_def)
  then show "index_ok vs (fill_loop (nat (vs ! i)) ?s (int i) index) (Suc i)"
    by (simp add: n)
qed

lemma valid_loop_spec:
  assumes "\<forall>v \<in> set vs. 0 \<le> v" and "i + k = length vs" and "prefix_ok vs sums i" and "index_ok vs index i"
  shows "\<exists>sums' index'. valid_loop (map Some vs) k (int i) sums index = (sums', index') \<and>
    prefix_ok vs sums' (length vs) \<and> index_ok vs index' (length vs)"
  using assms
proof (induction k arbitrary: i sums index)
  case (Suc k)
  let ?sums = "na_put sums (int i) (Some (sum_upto vs (Suc i)))" and ?index = "fill_loop (nat (vs ! i)) (sum_upto vs i) (int i) index"
  have above: "(if 0 < i then na_get sums (int i - 1) else Some 0) = Some (sum_upto vs i)"
    using Suc.prems(3) by (cases i) (auto simp: prefix_ok_def na_get_nth)
  have "na_get (map Some vs) (int i) = Some (vs ! i)"
    using Suc.prems(2) by (simp add: na_get_nth)
  then have "valid_loop (map Some vs) (Suc k) (int i) sums index = valid_loop (map Some vs) k (int (Suc i)) ?sums ?index"
    using above Suc.prems(2) by (simp add: num_add_def sum_upto_Suc Let_def add.commute)
  then show ?case
    using Suc.IH [of "Suc i" ?sums ?index] round_spec [OF Suc.prems(1) _ Suc.prems(3,4)] Suc.prems(1,2) by simp
qed auto

text \<open>Making everything valid, for arrays with at least one value.\<close>

lemma ensureValid_spec:
  assumes "cs_ok vs c" and "vs \<noteq> []" and "sum_list vs < 4294967296" and "length vs < 4294967296"
  shows "\<exists>d. cs_ensureValid c = Inr d \<and> cs_ok vs d \<and> cs_isValid d"
proof (cases "cs_isValid c")
  case True
  with assms(1) show ?thesis
    by (simp add: cs_ensureValid_def)
next
  case False
  define i where "i = nat (cs_validEndIndex c + 1)"
  have c: "cs_values c = map Some vs" "\<forall>v \<in> set vs. 0 \<le> v" "cs_validEndIndex c + 1 = int i" "i \<le> length vs"
      "prefix_ok vs (cs_prefixSum c) i" "index_ok vs (cs_indexBySum c) i"
    using assms(1) by (auto simp: cs_ok_def i_def)
  obtain sums index where loop: "valid_loop (map Some vs) (length vs - i) (int i) (cs_prefixSum c) (cs_indexBySum c) = (sums, index)"
      "prefix_ok vs sums (length vs)" "index_ok vs index (length vs)"
    using valid_loop_spec [OF c(2) _ c(5,6), of "length vs - i"] c(4) by auto
  let ?sums = "take (length vs) sums" and ?index = "take (nat (sum_list vs)) index"
  have nonneg: "0 \<le> sum_list vs"
    using sum_upto_nonneg [OF c(2), of "length vs"] by (simp add: sum_upto_all)
  have len: "length vs \<le> length sums" "sum_list vs \<le> int (length index)"
    using loop(2,3) by (simp_all add: prefix_ok_def index_ok_def sum_upto_all)
  have "na_get ?sums (int (length ?sums) - 1) = Some (sum_list vs)"
    using loop(2) len(1) assms(2) by (cases "length vs") (auto simp: na_get_nth prefix_ok_def sum_upto_all)
  then have "cs_ensureValid c = Inr (c\<lparr>cs_prefixSum := ?sums, cs_indexBySum := ?index, cs_isValid := True,
      cs_validEndIndex := int (length vs) - 1\<rparr>)"
    using False c(1,3,4) loop(1) len nonneg assms(3,4)
    by (simp add: cs_ensureValid_def na_set_length_def flip: of_nat_diff)
  moreover have "nat t < nat (sum_list vs)" if "j < length vs" "sum_upto vs j \<le> t" "t < sum_upto vs (Suc j)" for j t
    using sum_upto_nonneg [OF c(2), of j] sum_upto_le [OF c(2), of "Suc j"] that by simp
  then have "prefix_ok vs ?sums (length vs)" "index_ok vs ?index (length vs)"
    using loop(2,3) len nonneg by (auto simp: prefix_ok_def index_ok_def sum_upto_all)
  ultimately show ?thesis
    using c(1,2) assms(2) len nonneg by (simp add: cs_ok_def)
qed

section \<open>Queries\<close>

text \<open>States in which the queries do not throw: at least one value, sums and lengths of 32 bits.\<close>

definition cs_ready :: "constant_sums \<Rightarrow> bool" where
  "cs_ready c \<longleftrightarrow> (let vs = map the (cs_values c)
     in cs_ok vs c \<and> vs \<noteq> [] \<and> sum_list vs < 4294967296 \<and> length vs < 4294967296)"

lemma cs_ok_values: "cs_ok vs c \<Longrightarrow> map the (cs_values c) = vs"
  by (simp add: cs_ok_def comp_def)

lemma cs_readyI: "cs_ok vs c \<Longrightarrow> vs \<noteq> [] \<Longrightarrow> sum_list vs < 4294967296 \<Longrightarrow> length vs < 4294967296 \<Longrightarrow> cs_ready c"
  by (simp add: cs_ready_def cs_ok_values)

lemma cs_readyE:
  assumes "cs_ready c"
  obtains d where "cs_ensureValid c = Inr d" "cs_ok (map the (cs_values c)) d" "cs_isValid d"
  using ensureValid_spec [of "map the (cs_values c)" c] assms by (auto simp: cs_ready_def Let_def)

lemma valid_sums:
  assumes "cs_ok vs d" and "cs_isValid d"
  shows "int (length (cs_indexBySum d)) = sum_list vs" and "i < length vs \<Longrightarrow> cs_prefixSum d ! i = Some (sum_upto vs (Suc i))"
    and "length (cs_prefixSum d) = length vs"
  using assms by (auto simp: cs_ok_def prefix_ok_def)

lemma cs_getTotalSum_spec: "cs_ready c \<Longrightarrow> \<exists>d. cs_getTotalSum c = Inr (sum_list (map the (cs_values c)), d) \<and> cs_ok (map the (cs_values c)) d"
  by (erule cs_readyE) (auto simp: cs_getTotalSum_def valid_sums)

lemma cs_getPrefixSum_spec:
  assumes "cs_ready c" and "i < length (cs_values c)"
  shows "\<exists>d. cs_getPrefixSum (int i + 1) c = Inr (Some (sum_upto (map the (cs_values c)) (Suc i)), d) \<and> cs_ok (map the (cs_values c)) d"
proof -
  obtain d where "cs_ensureValid c = Inr d" "cs_ok (map the (cs_values c)) d" "cs_isValid d"
    using cs_readyE [OF assms(1)] by blast
  then show ?thesis
    using valid_sums(2,3) [of "map the (cs_values c)" d] assms(2) by (simp add: cs_getPrefixSum_def na_get_nth)
qed

definition cs_index :: "int \<Rightarrow> constant_sums \<Rightarrow> int \<times> int" where
  "cs_index t c = (case cs_getIndexOf t c of Inr ((Some i, Some r), _) \<Rightarrow> (i, r) | _ \<Rightarrow> (-1, 0))"

lemma sum_upto_search:
  assumes "0 \<le> t" and "t < sum_upto vs k" and "k \<le> length vs"
  shows "\<exists>i < k. sum_upto vs i \<le> t \<and> t < sum_upto vs (Suc i)"
  using assms
proof (induction k)
  case (Suc k)
  then show ?case
    by (cases "t < sum_upto vs k") (auto simp: less_Suc_eq)
qed simp

lemma cs_getIndexOf_spec:
  assumes "cs_ready c" and "0 \<le> t" and "t < sum_list (map the (cs_values c))"
  defines "vs \<equiv> map the (cs_values c)"
  shows "\<exists>i d. cs_getIndexOf t c = Inr ((Some (int i), Some (t - sum_upto vs i)), d) \<and> cs_ok vs d \<and>
    i < length vs \<and> sum_upto vs i \<le> t \<and> t < sum_upto vs (Suc i)"
proof -
  obtain d where d: "cs_ensureValid c = Inr d" "cs_ok vs d" "cs_isValid d"
    using cs_readyE [OF assms(1)] unfolding vs_def by blast
  obtain i where i: "i < length vs" "sum_upto vs i \<le> t" "t < sum_upto vs (Suc i)"
    using sum_upto_search [of t vs "length vs"] assms(2,3) by (auto simp: vs_def sum_upto_all)
  have "cs_indexBySum d ! nat t = Some (int i)"
    using d(2,3) i assms(2) by (simp add: cs_ok_def index_ok_def)
  moreover have "t < int (length (cs_indexBySum d))"
    using valid_sums(1) [OF d(2,3)] assms(3) by (simp add: vs_def)
  moreover have "(if 0 < i then na_get (cs_prefixSum d) (int i - 1) else Some 0) = Some (sum_upto vs i)"
    using valid_sums(2,3) [OF d(2,3)] i(1) by (cases i) (auto simp: na_get_nth)
  ultimately show ?thesis
    using d(1,2) i assms(2) by (simp add: cs_getIndexOf_def na_get_nth Let_def)
qed

lemma cs_index_found:
  assumes "cs_ready c" and "0 \<le> t" and "t < sum_list (map the (cs_values c))"
  shows "\<exists>i r. cs_index t c = (int i, r) \<and> i < length (map the (cs_values c)) \<and>
    sum_upto (map the (cs_values c)) i + r = t \<and> 0 \<le> r \<and> r < map the (cs_values c) ! i"
  using cs_getIndexOf_spec [OF assms] by (auto simp: cs_index_def sum_upto_Suc)

interpretation cs: sums_index cs_ready "\<lambda>c. map the (cs_values c)" cs_index
proof
  show "\<forall>v \<in> set (map the (cs_values c)). 0 \<le> v" if "cs_ready c" for c
    using that by (simp add: cs_ready_def cs_ok_def Let_def)
qed (rule cs_index_found)

section \<open>Changes\<close>

lemma sum_upto_same: "take i vs = take i ws \<Longrightarrow> j \<le> i \<Longrightarrow> sum_upto vs j = sum_upto ws j"
  unfolding sum_upto_def by (metis min.absorb1 take_take)

lemma cs_change:
  assumes "cs_ok vs c" and "take i ws = take i vs" and "i \<le> length ws" and "\<forall>w \<in> set ws. 0 \<le> w"
  shows "cs_ok ws (cs_invalidate (int i) (c\<lparr>cs_values := map Some ws\<rparr>))"
proof -
  define k where "k = nat (min (cs_validEndIndex c) (int i - 1) + 1)"
  have c: "\<forall>v \<in> set vs. 0 \<le> v" "-1 \<le> cs_validEndIndex c" "prefix_ok vs (cs_prefixSum c) (nat (cs_validEndIndex c + 1))"
      "index_ok vs (cs_indexBySum c) (nat (cs_validEndIndex c + 1))"
    using assms(1) by (simp_all add: cs_ok_def)
  have k: "k \<le> nat (cs_validEndIndex c + 1)" "k \<le> i"
    using c(2) by (auto simp: k_def)
  note same = sum_upto_same [OF assms(2)]
  have "prefix_ok ws (cs_prefixSum c) k"
    using c(3) k same by (auto simp: prefix_ok_def)
  moreover have "index_ok ws (cs_indexBySum c) k"
    using c(4) k same sum_upto_mono [OF c(1) k(1)] by (force simp: index_ok_def)
  ultimately show ?thesis
    using assms(3,4) c(2) by (auto simp: cs_invalidate_def cs_ok_def k_def)
qed

lemma cs_change_words:
  assumes "cs_ok (map uint (ws :: uint32_array)) c" and "take i us = take i ws" and "i \<le> length (us :: uint32_array)"
  shows "cs_ok (map uint us) (cs_invalidate (int i) (c\<lparr>cs_values := map Some (map uint us)\<rparr>))"
  using assms by (intro cs_change [OF assms(1)]) (auto simp: take_map)

section \<open>Both classes on the same requests\<close>

definition nums :: "uint32_array \<Rightarrow> num_array" where
  "nums ws = map (\<lambda>w. Some (uint w)) ws"

fun cs_op :: "constant_sums \<Rightarrow> sum_op \<Rightarrow> constant_sums result" where
  "cs_op c (InsertValues i ws) = Inr (cs_insertValues (int i) (nums ws) c)"
| "cs_op c (SetValue i v) = Inr (cs_setValue (int i) v c)"
| "cs_op c (RemoveValues i n) = Inr (cs_removeValues (int i) (int n) c)"
| "cs_op c GetTotalSum = map_sum id snd (cs_getTotalSum c)"
| "cs_op c (GetPrefixSum i) = map_sum id snd (cs_getPrefixSum (int i + 1) c)"
| "cs_op c (GetIndexOf t) = map_sum id snd (cs_getIndexOf t c)"

text \<open>
  Requests both classes answer: on arrays with at least one value whose sum is a word, inside the array and the sum.
\<close>

definition answerable :: "uint32_array \<Rightarrow> bool" where
  "answerable ws \<longleftrightarrow> ws \<noteq> [] \<and> sum_list (map uint ws) < 4294967296 \<and> length ws < 2147483648"

fun inside :: "uint32_array \<Rightarrow> sum_op \<Rightarrow> bool" where
  "inside ws (SetValue i v) \<longleftrightarrow> i < length ws"
| "inside ws (GetPrefixSum i) \<longleftrightarrow> i < length ws"
| "inside ws (GetIndexOf t) \<longleftrightarrow> 0 \<le> t \<and> t < sum_list (map uint ws)"
| "inside ws _ \<longleftrightarrow> True"

fun both_ok :: "uint32_array \<Rightarrow> sum_op list \<Rightarrow> bool" where
  "both_ok ws [] \<longleftrightarrow> answerable ws"
| "both_ok ws (e # es) \<longleftrightarrow> answerable ws \<and> op_ok ws e \<and> inside ws e \<and> both_ok (list_op ws e) es"

lemma nums_eq: "nums ws = map Some (map uint ws)"
  by (simp add: nums_def)

lemma cs_ready_nums: "cs_ok (map uint ws) c \<Longrightarrow> answerable ws \<Longrightarrow> cs_ready c \<and> map the (cs_values c) = map uint ws"
  by (auto simp: cs_ok_values answerable_def intro: cs_readyI)

lemma cs_op_spec:
  assumes "cs_ok (map uint ws) c" and "answerable ws" and "op_ok ws e" and "inside ws e"
  shows "\<exists>d. cs_op c e = Inr d \<and> cs_ok (map uint (list_op ws e)) d"
proof -
  have content: "cs_values c = map Some (map uint ws)"
    using assms(1) by (simp add: cs_ok_def)
  note ready = cs_ready_nums [OF assms(1,2)]
  show ?thesis
  proof (cases e)
    case (InsertValues i us)
    then have "cs_op c e = Inr (cs_invalidate (int i) (c\<lparr>cs_values := map Some (map uint (list_op ws e))\<rparr>))"
      using assms(3) by (simp add: cs_insertValues_def arrayInsert_def content slice_take slice_drop take_map drop_map nums_eq)
    then show ?thesis
      using cs_change_words [OF assms(1), of i "list_op ws e"] InsertValues assms(3) by simp
  next
    case (RemoveValues i n)
    let ?i = "min i (length ws)"
    have "cs_op c e = Inr (cs_invalidate (int i) (c\<lparr>cs_values := map Some (map uint (list_op ws e))\<rparr>))"
      using RemoveValues
      by (auto simp: cs_removeValues_def js_splice_def rel_index_def content take_map drop_map min_def Let_def nat_add_distrib)
    also have "cs_invalidate (int i) (c\<lparr>cs_values := map Some (map uint (list_op ws e))\<rparr>) =
        cs_invalidate (int ?i) (c\<lparr>cs_values := map Some (map uint (list_op ws e))\<rparr>)"
      using assms(1) by (auto simp: cs_invalidate_def cs_ok_def min_def)
    finally show ?thesis
      using cs_change_words [OF assms(1), of ?i "list_op ws e"] RemoveValues by (simp add: min_def)
  next
    case (SetValue i v)
    then have i: "i < length ws" "0 \<le> v" "v < 4294967296"
      using assms(3,4) by simp_all
    then have v: "uint (word_of_int v :: 32 word) = v"
      by (simp add: uint_word_of_int_eq take_bit_int_eq_self)
    show ?thesis
    proof (cases "uint (ws ! i) = v")
      case True
      then have "list_op ws e = ws"
        using SetValue by (metis list_op.simps(2) list_update_id word_of_int_uint)
      then show ?thesis
        using True SetValue i assms(1) by (simp add: cs_setValue_def content na_get_nth)
    next
      case False
      then have "cs_op c e = Inr (cs_invalidate (int i) (c\<lparr>cs_values := map Some (map uint (list_op ws e))\<rparr>))"
        using SetValue i v by (simp add: cs_setValue_def content na_get_nth na_put_def map_update)
      then show ?thesis
        using cs_change_words [OF assms(1), of i "list_op ws e"] SetValue i(1) by simp
    qed
  next
    case GetTotalSum
    then show ?thesis
      using cs_getTotalSum_spec [of c] ready by auto
  next
    case (GetPrefixSum i)
    then show ?thesis
      using cs_getPrefixSum_spec [of c i] ready assms(4) arg_cong [OF content, of length] by auto
  next
    case (GetIndexOf t)
    then show ?thesis
      using cs_getIndexOf_spec [of c t] ready assms(4) by auto
  qed
qed

lemma both_run:
  "sums_ok p \<Longrightarrow> cs_ok (map uint (ps_values p)) c \<Longrightarrow> both_ok (ps_values p) es \<Longrightarrow>
     \<exists>q d. run_machine ps_op p es = Inr q \<and> run_machine cs_op c es = Inr d \<and> sums_ok q \<and>
       cs_ok (map uint (ps_values q)) d \<and> answerable (ps_values q)"
proof (induction es arbitrary: p c)
  case (Cons e es)
  obtain q where q: "ps_op p e = Inr q" "sums_ok q" "ps_values q = list_op (ps_values p) e"
    using ps_op_spec [OF Cons.prems(1), of e] Cons.prems(3) by auto
  obtain d where "cs_op c e = Inr d" "cs_ok (map uint (ps_values q)) d"
    using cs_op_spec [OF Cons.prems(2), of e] Cons.prems(3) q(3) by auto
  with q show ?case
    using Cons.IH [OF q(2)] Cons.prems(3) by simp
qed auto

lemma both_reached:
  assumes "both_ok ws es"
  shows "\<exists>p c. run_machine ps_op (new_PrefixSumComputer ws) es = Inr p \<and>
    run_machine cs_op (new_ConstantTimePrefixSumComputer (nums ws)) es = Inr c \<and> sums_ok p \<and>
    cs_ok (map uint (ps_values p)) c \<and> answerable (ps_values p)"
proof -
  let ?p = "new_PrefixSumComputer ws" and ?c = "new_ConstantTimePrefixSumComputer (nums ws)"
  have "length ws < 2147483648"
    using assms by (cases es) (simp_all add: answerable_def)
  then have "sums_ok ?p" "cs_ok (map uint ws) ?c" "ps_values ?p = ws"
    unfolding nums_eq by (simp_all only: sums_ok_new) (rule cs_ok_new, auto simp: new_PrefixSumComputer_def)
  then show ?thesis
    using both_run [of ?p ?c es] assms by auto
qed

lemma ps_answerable: "sums_ok p \<Longrightarrow> answerable (ps_values p) \<Longrightarrow> ps_bounded p"
  by (simp add: ps_bounded_def answerable_def)

lemma small_sum: "sum_list (map uint (ws :: uint32_array)) < 4294967296 \<Longrightarrow> sum_upto (map uint ws) k mod 4294967296 = sum_upto (map uint ws) k"
  using sum_upto_le [of "map uint ws" k] sum_upto_nonneg [of "map uint ws" k] by (simp add: mod_pos_pos_trivial)

text \<open>
  C21: the constant time class agrees with the logarithmic one. After the same insertions, changes, removals and queries
  on the same values, both give the same total and the same prefix sums, and \<open>getIndexOf\<close> gives the same index and the
  same remainder for every sum below the total, although one searches its sums and the other reads its index.
\<close>

theorem constant_time_agrees:
  assumes "both_ok ws es"
  shows "\<exists>p c. run_machine ps_op (new_PrefixSumComputer ws) es = Inr p \<and>
    run_machine cs_op (new_ConstantTimePrefixSumComputer (nums ws)) es = Inr c \<and>
    map_sum id (Some \<circ> fst) (cs_getTotalSum c) = Inr (fst (ps_getTotalSum p)) \<and>
    (\<forall>i < length (ps_values p). map_sum id fst (cs_getPrefixSum (int i + 1) c) = Inr (fst (ps_getPrefixSum (int i) p))) \<and>
    (\<forall>t \<ge> 0. t < sum_list (map uint (ps_values p)) \<longrightarrow>
       map_sum id fst (cs_getIndexOf t c) = Inr (map_prod Some Some (fst (ps_getIndexOf t p))))"
proof -
  obtain p c where run: "run_machine ps_op (new_PrefixSumComputer ws) es = Inr p"
      "run_machine cs_op (new_ConstantTimePrefixSumComputer (nums ws)) es = Inr c" "sums_ok p"
      "cs_ok (map uint (ps_values p)) c" "answerable (ps_values p)"
    using both_reached [OF assms] by blast
  note c = cs_ready_nums [OF run(4,5)]
  have content: "length (cs_values c) = length (ps_values p)"
    using run(4) by (simp add: cs_ok_def)
  have small: "length (ps_values p) < 2147483648" "sum_list (map uint (ps_values p)) < 4294967296" "ps_values p \<noteq> []"
    using run(5) by (simp_all add: answerable_def)
  have "map_sum id (Some \<circ> fst) (cs_getTotalSum c) = Inr (fst (ps_getTotalSum p))"
    using cs_getTotalSum_spec [of c] c getTotalSum_spec(3) [OF run(3)] small_sum [OF small(2), of "length (ps_values p)"]
    by (auto simp: sum_upto_all)
  moreover have "map_sum id fst (cs_getPrefixSum (int i + 1) c) = Inr (fst (ps_getPrefixSum (int i) p))"
    if "i < length (ps_values p)" for i
    using cs_getPrefixSum_spec [of c i] c getPrefixSum_spec(3) [OF run(3), of i] small that small_sum [OF small(2), of "Suc i"]
    by (auto simp: content)
  moreover have "map_sum id fst (cs_getIndexOf t c) = Inr (map_prod Some Some (fst (ps_getIndexOf t p)))"
    if t: "0 \<le> t" "t < sum_list (map uint (ps_values p))" for t
  proof -
    obtain i d where i: "cs_getIndexOf t c = Inr ((Some (int i), Some (t - sum_upto (map uint (ps_values p)) i)), d)"
        "i < length (map uint (ps_values p))" "sum_upto (map uint (ps_values p)) i \<le> t" "t < sum_upto (map uint (ps_values p)) (Suc i)"
      using cs_getIndexOf_spec [of c t] c t by auto
    then show ?thesis
      using ps.index_of_unique [OF ps_answerable [OF run(3,5)], of i "t - sum_upto (map uint (ps_values p)) i"]
      by (simp add: sum_upto_Suc)
  qed
  ultimately show ?thesis
    using run(1,2) by blast
qed

theorem constant_time_agrees_witness:
  "\<exists>p c. run_machine ps_op (new_PrefixSumComputer [3, 0, 5]) [GetTotalSum, SetValue 0 2, RemoveValues 2 1, InsertValues 1 [4]] = Inr p \<and>
    run_machine cs_op (new_ConstantTimePrefixSumComputer (nums [3, 0, 5]))
      [GetTotalSum, SetValue 0 2, RemoveValues 2 1, InsertValues 1 [4]] = Inr c \<and>
    map_sum id (Some \<circ> fst) (cs_getTotalSum c) = Inr (fst (ps_getTotalSum p))"
  using constant_time_agrees [of "[3, 0, 5]" "[GetTotalSum, SetValue 0 2, RemoveValues 2 1, InsertValues 1 [4]]"]
  by (auto simp: answerable_def)

text \<open>
  C22: \<open>getIndexOf\<close> inverts the prefix sums, in both classes. In every state a run of requests reaches, the sum of the
  first \<open>i\<close> values plus a remainder below the value \<open>i\<close> gives back that index and that remainder.
\<close>

theorem index_of_inverts_sums:
  assumes "both_ok ws es"
  shows "\<exists>p c. run_machine ps_op (new_PrefixSumComputer ws) es = Inr p \<and>
    run_machine cs_op (new_ConstantTimePrefixSumComputer (nums ws)) es = Inr c \<and>
    (\<forall>i < length (ps_values p). \<forall>r \<ge> 0. r < uint (ps_values p ! i) \<longrightarrow>
       (let t = sum_list (take i (map uint (ps_values p))) + r
        in fst (ps_getIndexOf t p) = (int i, r) \<and> cs_index t c = (int i, r)))"
proof -
  obtain p c where run: "run_machine ps_op (new_PrefixSumComputer ws) es = Inr p"
      "run_machine cs_op (new_ConstantTimePrefixSumComputer (nums ws)) es = Inr c" "sums_ok p"
      "cs_ok (map uint (ps_values p)) c" "answerable (ps_values p)"
    using both_reached [OF assms] by blast
  note c = cs_ready_nums [OF run(4,5)]
  have "fst (ps_getIndexOf (sum_list (take i (map uint (ps_values p))) + r) p) = (int i, r) \<and>
      cs_index (sum_list (take i (map uint (ps_values p))) + r) c = (int i, r)"
    if "i < length (ps_values p)" "0 \<le> r" "r < uint (ps_values p ! i)" for i r
    using ps.index_of_unique [OF ps_answerable [OF run(3,5)], of i r] cs.index_of_unique [of c i r] c that
    by (simp add: sum_upto_def)
  then show ?thesis
    using run(1,2) unfolding Let_def by blast
qed

theorem index_of_inverts_sums_witness:
  "\<exists>p c. run_machine ps_op (new_PrefixSumComputer [3, 0, 5]) [SetValue 0 2] = Inr p \<and>
    run_machine cs_op (new_ConstantTimePrefixSumComputer (nums [3, 0, 5])) [SetValue 0 2] = Inr c \<and>
    (\<forall>i < length (ps_values p). \<forall>r \<ge> 0. r < uint (ps_values p ! i) \<longrightarrow>
       (let t = sum_list (take i (map uint (ps_values p))) + r
        in fst (ps_getIndexOf t p) = (int i, r) \<and> cs_index t c = (int i, r)))"
  by (rule index_of_inverts_sums) (simp add: answerable_def)

section \<open>Boundaries\<close>

text \<open>
  the boundaries of the two classes. Without values the sum is \<open>0\<close> for one class, and the other throws, because it
  sets the length of its index to a sum that is \<open>undefined\<close>. Inserting past the end throws in the first class. A value
  from \<open>2 ^ 31\<close> on is converted to a negative number by \<open>toUint32\<close>, so setting it again counts as a change.
\<close>

theorem prefix_sum_boundaries:
  "fst (ps_getTotalSum (new_PrefixSumComputer [])) = Some 0 \<and>
    cs_getTotalSum (new_ConstantTimePrefixSumComputer []) = Inl RangeError \<and>
    ps_insertValues 2 [7] (new_PrefixSumComputer [1]) = Inl RangeError \<and> toUint32 4294967295 = -1 \<and>
    fst (ps_setValue 0 4294967295 (new_PrefixSumComputer [4294967295]))"
proof (intro conjI)
  show "fst (ps_getTotalSum (new_PrefixSumComputer [])) = Some 0"
    by (simp add: ps_getTotalSum_def new_PrefixSumComputer_def)
  show "cs_getTotalSum (new_ConstantTimePrefixSumComputer []) = Inl RangeError"
    by (simp add: cs_getTotalSum_def cs_ensureValid_def new_ConstantTimePrefixSumComputer_def na_set_length_def na_get_def js_get_def bind_result_def)
  show "ps_insertValues 2 [7] (new_PrefixSumComputer [1]) = Inl RangeError"
    by (simp add: ps_insertValues_def new_PrefixSumComputer_def ta_set_def ta_new_def js_slice_def js_slice_from_def rel_index_def
      numeral_eq_Suc bind_result_def)
  show neg: "toUint32 4294967295 = -1"
    by (simp add: toUint32_def to_int32_def signed_take_bit_eq_if_negative)
  show "fst (ps_setValue 0 4294967295 (new_PrefixSumComputer [4294967295]))"
    by (simp add: ps_setValue_def neg new_PrefixSumComputer_def ta_get_def js_get_def)
qed

end
