(* ===== verification/Text_Position.thy ===== *)
theory Text_Position
  imports Line_Range Arrays_Find
begin

text \<open>
  Lengths of texts in lines and columns, and the translation between offsets and positions: the class \<open>TextLength\<close> of
  \<open>src/vs/editor/common/core/textLength.ts\<close> and the class \<open>PositionOffsetTransformer\<close> of \<open>positionToOffset.ts\<close>. A line
  that does not exist gives \<open>undefined\<close> and then \<open>NaN\<close> in the source; here the result is \<open>None\<close>.
\<close>

section \<open>TextLength\<close>

record text_length =
  lineCount :: int
  columnCount :: int

definition new_TextLength :: "int \<Rightarrow> int \<Rightarrow> text_length" where
  "new_TextLength lines columns = \<lparr>lineCount = lines, columnCount = columns\<rparr>"

definition tl_zero :: text_length where
  "tl_zero = new_TextLength 0 0"

definition tl_isLessThan :: "text_length \<Rightarrow> text_length \<Rightarrow> bool" where
  "tl_isLessThan other l =
     (if lineCount l \<noteq> lineCount other then lineCount l < lineCount other else columnCount l < columnCount other)"

definition lengthDiffNonNegative :: "text_length \<Rightarrow> text_length \<Rightarrow> text_length" where
  "lengthDiffNonNegative start stop =
     (if tl_isLessThan start stop then tl_zero
      else if lineCount start = lineCount stop then new_TextLength 0 (columnCount stop - columnCount start)
      else new_TextLength (lineCount stop - lineCount start) (columnCount stop))"

definition betweenPositions :: "position \<Rightarrow> position \<Rightarrow> text_length" where
  "betweenPositions position1 position2 =
     (if lineNumber position1 = lineNumber position2 then new_TextLength 0 (column position2 - column position1)
      else new_TextLength (lineNumber position2 - lineNumber position1) (column position2 - 1))"

definition tl_fromPosition :: "position \<Rightarrow> text_length" where
  "tl_fromPosition pos = new_TextLength (lineNumber pos - 1) (column pos - 1)"

definition tl_ofRange :: "editor_range \<Rightarrow> text_length" where
  "tl_ofRange rng = betweenPositions (getStartPosition rng) (getEndPosition rng)"

text \<open>
  The loop of \<open>ofText\<close> iterates over the string with \<open>for of\<close>, which takes a surrogate pair as one character. The
  characters of a string are lists of one or two code units.
\<close>

definition high_surrogate :: "jschar \<Rightarrow> bool" where
  "high_surrogate c \<longleftrightarrow> 55296 \<le> c \<and> c \<le> 56319"

definition low_surrogate :: "jschar \<Rightarrow> bool" where
  "low_surrogate c \<longleftrightarrow> 56320 \<le> c \<and> c \<le> 57343"

fun js_chars :: "jsstring \<Rightarrow> jsstring list" where
  "js_chars [] = []"
| "js_chars [c] = [[c]]"
| "js_chars (c # d # cs) = (if high_surrogate c \<and> low_surrogate d then [c, d] # js_chars cs else [c] # js_chars (d # cs))"

fun of_text_loop :: "int \<Rightarrow> int \<Rightarrow> jsstring list \<Rightarrow> text_length" where
  "of_text_loop line col [] = new_TextLength line col"
| "of_text_loop line col (c # cs) = (if c = [LF] then of_text_loop (line + 1) 0 cs else of_text_loop line (col + 1) cs)"

definition ofText :: "jsstring \<Rightarrow> text_length" where
  "ofText text = of_text_loop 0 0 (js_chars text)"

definition tl_isZero :: "text_length \<Rightarrow> bool" where
  "tl_isZero l \<longleftrightarrow> lineCount l = 0 \<and> columnCount l = 0"

definition tl_isGreaterThan :: "text_length \<Rightarrow> text_length \<Rightarrow> bool" where
  "tl_isGreaterThan other l =
     (if lineCount l \<noteq> lineCount other then lineCount l > lineCount other else columnCount l > columnCount other)"

definition tl_isGreaterThanOrEqualTo :: "text_length \<Rightarrow> text_length \<Rightarrow> bool" where
  "tl_isGreaterThanOrEqualTo other l =
     (if lineCount l \<noteq> lineCount other then lineCount l > lineCount other else columnCount l \<ge> columnCount other)"

definition tl_equals :: "text_length \<Rightarrow> text_length \<Rightarrow> bool" where
  "tl_equals other l \<longleftrightarrow> lineCount l = lineCount other \<and> columnCount l = columnCount other"

definition tl_compare :: "text_length \<Rightarrow> text_length \<Rightarrow> int" where
  "tl_compare other l =
     (if lineCount l \<noteq> lineCount other then lineCount l - lineCount other else columnCount l - columnCount other)"

definition tl_add :: "text_length \<Rightarrow> text_length \<Rightarrow> text_length" where
  "tl_add l other =
     (if lineCount other = 0 then new_TextLength (lineCount l) (columnCount l + columnCount other)
      else new_TextLength (lineCount l + lineCount other) (columnCount other))"

definition tl_createRange :: "position \<Rightarrow> text_length \<Rightarrow> editor_range" where
  "tl_createRange startPosition l =
     (if lineCount l = 0
      then new_Range (lineNumber startPosition) (column startPosition) (lineNumber startPosition) (column startPosition + columnCount l)
      else new_Range (lineNumber startPosition) (column startPosition) (lineNumber startPosition + lineCount l) (columnCount l + 1))"

definition tl_toRange :: "text_length \<Rightarrow> editor_range" where
  "tl_toRange l = new_Range 1 1 (lineCount l + 1) (columnCount l + 1)"

definition tl_toLineRange :: "text_length \<Rightarrow> line_range result" where
  "tl_toLineRange l = lr_ofLength 1 (lineCount l)"

definition addToPosition :: "position \<Rightarrow> text_length \<Rightarrow> position" where
  "addToPosition pos l =
     (if lineCount l = 0 then new_Position (lineNumber pos) (column pos + columnCount l)
      else new_Position (lineNumber pos + lineCount l) (columnCount l + 1))"

definition tl_addToRange :: "editor_range \<Rightarrow> text_length \<Rightarrow> editor_range" where
  "tl_addToRange rng l =
     range_fromPositions (addToPosition (getStartPosition rng) l) (Some (addToPosition (getEndPosition rng) l))"

definition tl_toString :: "text_length \<Rightarrow> jsstring" where
  "tl_toString l = int_string (lineCount l) @ js '','' @ int_string (columnCount l)"

section \<open>PositionOffsetTransformer\<close>

record transformer =
  pt_text :: jsstring
  lineStartOffsets :: "int list"
  lineEndOffsets :: "int list"

text \<open>The loop of the constructor, for the \<open>k\<close> characters from \<open>i\<close> on.\<close>

fun offsets_loop :: "jsstring \<Rightarrow> nat \<Rightarrow> nat \<Rightarrow> int list \<Rightarrow> int list \<Rightarrow> int list \<times> int list" where
  "offsets_loop text 0 i starts ends = (starts, ends)"
| "offsets_loop text (Suc k) i starts ends =
     (if text ! i = LF
      then offsets_loop text k (Suc i) (starts @ [int i + 1])
             (ends @ [if i > 0 \<and> text ! (i - 1) = CR then int i - 1 else int i])
      else offsets_loop text k (Suc i) starts ends)"

definition new_PositionOffsetTransformer :: "jsstring \<Rightarrow> transformer" where
  "new_PositionOffsetTransformer text =
     (let (starts, ends) = offsets_loop text (length text) 0 [0] []
      in \<lparr>pt_text = text, lineStartOffsets = starts, lineEndOffsets = ends @ [int (length text)]\<rparr>)"

definition pt_getOffset :: "position \<Rightarrow> transformer \<Rightarrow> int option" where
  "pt_getOffset pos t = map_option (\<lambda>start. start + column pos - 1) (js_get (lineStartOffsets t) (lineNumber pos - 1))"

text \<open>A comparison with \<open>NaN\<close> is false, so the constructor of the range does not throw for a missing line.\<close>

definition pt_getOffsetRange :: "editor_range \<Rightarrow> transformer \<Rightarrow> (int option \<times> int option) result" where
  "pt_getOffsetRange rng t =
     (let start = pt_getOffset (getStartPosition rng) t; stop = pt_getOffset (getEndPosition rng) t
      in case (start, stop) of
           (Some a, Some b) \<Rightarrow> bind_result (new_OffsetRange a b) (\<lambda>r. Inr (Some (or_start r), Some (or_endExclusive r)))
         | _ \<Rightarrow> Inr (start, stop))"

definition pt_getPosition :: "int \<Rightarrow> transformer \<Rightarrow> position option" where
  "pt_getPosition offset t =
     (let starts = lineStartOffsets t; idx = findLastIdxMonotonous starts (\<lambda>i. i \<le> offset) 0 (length starts)
      in map_option (\<lambda>start. new_Position (idx + 1) (offset - start + 1)) (js_get starts idx))"

definition pt_getRange :: "offset_range \<Rightarrow> transformer \<Rightarrow> editor_range option" where
  "pt_getRange rng t =
     (case (pt_getPosition (or_start rng) t, pt_getPosition (or_endExclusive rng) t) of
        (Some p, Some q) \<Rightarrow> Some (range_fromPositions p (Some q)) | _ \<Rightarrow> None)"

definition pt_getTextLength :: "offset_range \<Rightarrow> transformer \<Rightarrow> text_length option" where
  "pt_getTextLength rng t = map_option tl_ofRange (pt_getRange rng t)"

definition pt_textLength :: "transformer \<Rightarrow> text_length" where
  "pt_textLength t =
     (let lineIdx = length (lineStartOffsets t) - 1
      in new_TextLength (int lineIdx) (int (length (pt_text t)) - lineStartOffsets t ! lineIdx))"

definition pt_getLineLength :: "int \<Rightarrow> transformer \<Rightarrow> int option" where
  "pt_getLineLength line t =
     (case (js_get (lineEndOffsets t) (line - 1), js_get (lineStartOffsets t) (line - 1)) of
        (Some stop, Some start) \<Rightarrow> Some (stop - start) | _ \<Rightarrow> None)"

section \<open>Lengths in code units\<close>

text \<open>
  \<open>ofText\<close> counts characters, positions count code units. \<open>units\<close> is the length in code units; the two agree on texts
  without surrogate pairs. It maps concatenation to \<open>add\<close>.
\<close>

definition units :: "jsstring \<Rightarrow> text_length" where
  "units text = of_text_loop 0 0 (map (\<lambda>c. [c]) text)"

definition no_pairs :: "jsstring \<Rightarrow> bool" where
  "no_pairs text \<longleftrightarrow> js_chars text = map (\<lambda>c. [c]) text"

lemma ofText_units: "no_pairs text \<Longrightarrow> ofText text = units text"
  by (simp add: ofText_def units_def no_pairs_def)

lemma no_pairs_low: "\<forall>c \<in> set t. c < 55296 \<Longrightarrow> no_pairs t"
  by (induction t rule: js_chars.induct) (auto simp: no_pairs_def high_surrogate_def)

lemma text_length_eq: "l = m \<longleftrightarrow> lineCount l = lineCount m \<and> columnCount l = columnCount m" for l m :: text_length
  by (cases l; cases m) simp

lemma new_TextLength_sel [simp]: "lineCount (new_TextLength l c) = l" "columnCount (new_TextLength l c) = c"
  by (simp_all add: new_TextLength_def)

lemma tl_add_sel:
  "lineCount (tl_add l m) = lineCount l + lineCount m"
  "columnCount (tl_add l m) = (if lineCount m = 0 then columnCount l + columnCount m else columnCount m)"
  by (simp_all add: tl_add_def)

lemma of_text_loop_lines: "lineCount (of_text_loop l c cs) \<ge> l"
proof (induction cs arbitrary: l c)
  case (Cons x cs)
  show ?case
    using Cons.IH [of "l + 1" 0] Cons.IH [of l "c + 1"] by simp
qed simp

lemma of_text_loop_shift: "of_text_loop (l + m) (if m = 0 then c + d else d) cs = tl_add (new_TextLength l c) (of_text_loop m d cs)"
  if "0 \<le> m"
  using that
proof (induction cs arbitrary: m d)
  case Nil
  then show ?case
    by (simp add: text_length_eq tl_add_sel)
next
  case (Cons x cs)
  then show ?case
    using Cons.IH [of "m + 1" 0] Cons.IH [of m "d + 1"] by (cases "m = 0") (simp_all add: add.assoc)
qed

lemma units_Nil [simp]: "units [] = new_TextLength 0 0"
  by (simp add: units_def)

lemma units_lines: "0 \<le> lineCount (units a)"
  by (simp add: units_def of_text_loop_lines)

lemma of_text_loop_append: "of_text_loop l c (cs @ ds) = of_text_loop (lineCount (of_text_loop l c cs)) (columnCount (of_text_loop l c cs)) ds"
  by (induction cs arbitrary: l c) simp_all

lemma units_append: "units (a @ b) = tl_add (units a) (units b)"
proof -
  have "units (a @ b) = of_text_loop (lineCount (units a)) (columnCount (units a)) (map (\<lambda>c. [c]) b)"
    by (simp add: units_def of_text_loop_append)
  also have "\<dots> = tl_add (new_TextLength (lineCount (units a)) (columnCount (units a))) (units b)"
    using of_text_loop_shift [of 0 "lineCount (units a)" "columnCount (units a)" 0] by (simp add: units_def)
  also have "\<dots> = tl_add (units a) (units b)"
    by (simp add: text_length_eq tl_add_sel)
  finally show ?thesis .
qed

lemma units_single: "units [c] = (if c = LF then new_TextLength 1 0 else new_TextLength 0 1)"
  by (simp add: units_def)

lemma units_columns: "0 \<le> columnCount (units a)"
proof (induction a rule: rev_induct)
  case (snoc c a)
  then show ?case
    by (simp add: units_append units_single tl_add_sel)
qed simp

lemma units_no_LF: "LF \<notin> set a \<Longrightarrow> units a = new_TextLength 0 (int (length a))"
proof (induction a rule: rev_induct)
  case (snoc c a)
  then show ?case
    by (auto simp: units_append units_single tl_add_sel text_length_eq)
qed simp

lemma units_line_count_zero: "lineCount (units a) = 0 \<longleftrightarrow> LF \<notin> set a"
proof (induction a rule: rev_induct)
  case (snoc c a)
  then show ?case
    using units_lines [of a] by (auto simp: units_append units_single tl_add_sel)
qed simp

section \<open>Positions of offsets\<close>

text \<open>The position after a prefix of a text.\<close>

definition pos_after :: "jsstring \<Rightarrow> position" where
  "pos_after a = addToPosition (new_Position 1 1) (units a)"

lemma pos_after_sel: "lineNumber (pos_after a) = lineCount (units a) + 1" "column (pos_after a) = columnCount (units a) + 1"
  by (simp_all add: pos_after_def addToPosition_def)

lemma pos_after_append: "pos_after (a @ b) = addToPosition (pos_after a) (units b)"
  using units_lines [of a] units_lines [of b] by (auto simp: position_eq pos_after_sel units_append tl_add_sel addToPosition_def)

lemma pos_after_le: "pos_after a \<le> pos_after (a @ b)"
  using units_lines [of b] units_columns [of b] by (auto simp: pos_after_append position_le addToPosition_def)

lemma pos_after_less: "b \<noteq> [] \<Longrightarrow> pos_after a < pos_after (a @ b)"
  using units_lines [of b] units_columns [of b] units_no_LF [of b] units_line_count_zero [of b]
  by (cases "LF \<in> set b") (auto simp: pos_after_append position_less addToPosition_def)

lemma pos_after_between: "betweenPositions (pos_after a) (pos_after (a @ b)) = units b"
  using units_lines [of b] by (auto simp: betweenPositions_def pos_after_append addToPosition_def text_length_eq)

lemma createRange_after: "tl_createRange (pos_after a) (units b) = range_fromPositions (pos_after a) (Some (pos_after (a @ b)))"
  by (simp add: tl_createRange_def range_fromPositions_def pos_after_append addToPosition_def)

text \<open>The arrays of line starts and line ends.\<close>

definition line_feeds :: "jsstring \<Rightarrow> nat \<Rightarrow> nat \<Rightarrow> nat list" where
  "line_feeds text i j = filter (\<lambda>k. text ! k = LF) [i..<j]"

definition line_end :: "jsstring \<Rightarrow> nat \<Rightarrow> int" where
  "line_end text k = (if k > 0 \<and> text ! (k - 1) = CR then int k - 1 else int k)"

lemma offsets_loop_spec:
  "offsets_loop t k i starts ends =
     (starts @ map (\<lambda>j. int j + 1) (line_feeds t i (i + k)), ends @ map (line_end t) (line_feeds t i (i + k)))"
proof (induction t k i starts ends rule: offsets_loop.induct)
  case (2 t k i starts ends)
  have "line_feeds t i (i + Suc k) = (if t ! i = LF then [i] else []) @ line_feeds t (Suc i) (Suc i + k)"
    by (simp add: line_feeds_def upt_conv_Cons del: upt_Suc)
  with 2 show ?case
    by (simp add: line_end_def)
qed (simp add: line_feeds_def)

lemma transformer_arrays:
  "pt_text (new_PositionOffsetTransformer t) = t"
  "lineStartOffsets (new_PositionOffsetTransformer t) = 0 # map (\<lambda>j. int j + 1) (line_feeds t 0 (length t))"
  "lineEndOffsets (new_PositionOffsetTransformer t) = map (line_end t) (line_feeds t 0 (length t)) @ [int (length t)]"
  by (simp_all add: new_PositionOffsetTransformer_def offsets_loop_spec)

lemma line_feeds_split: "i \<le> j \<Longrightarrow> j \<le> k \<Longrightarrow> line_feeds t i k = line_feeds t i j @ line_feeds t j k"
  using upt_add_eq_append [of i j "k - j"] by (simp add: line_feeds_def)

lemma start_of_line:
  assumes "o' \<le> length t"
  shows "length (line_feeds t 0 o') = nat (lineCount (units (take o' t))) \<and>
    (0 # map (\<lambda>j. int j + 1) (line_feeds t 0 (length t))) ! nat (lineCount (units (take o' t))) = int o' - columnCount (units (take o' t))"
  using assms
proof (induction o')
  case (Suc k)
  let ?starts = "\<lambda>n. 0 # map (\<lambda>j. int j + 1) (line_feeds t 0 n)"
  have take: "take (Suc k) t = take k t @ [t ! k]"
    using Suc.prems by (simp add: take_Suc_conv_app_nth)
  have feeds: "line_feeds t 0 (Suc k) = line_feeds t 0 k @ (if t ! k = LF then [k] else [])"
    by (simp add: line_feeds_def)
  have split: "line_feeds t 0 (length t) = line_feeds t 0 (Suc k) @ line_feeds t (Suc k) (length t)"
    using Suc.prems by (intro line_feeds_split) simp_all
  show ?case
  proof (cases "t ! k = LF")
    case True
    then have lines: "lineCount (units (take (Suc k) t)) = lineCount (units (take k t)) + 1"
        "columnCount (units (take (Suc k) t)) = 0"
      using take by (simp_all add: units_append units_single tl_add_sel)
    then have len: "nat (lineCount (units (take (Suc k) t))) = Suc (length (line_feeds t 0 k))"
      using Suc units_lines [of "take k t"] by simp
    show ?thesis
      unfolding len using lines(2) True by (simp add: split feeds nth_append)
  next
    case False
    then have "lineCount (units (take (Suc k) t)) = lineCount (units (take k t))"
        "columnCount (units (take (Suc k) t)) = columnCount (units (take k t)) + 1"
      using take by (simp_all add: units_append units_single tl_add_sel)
    with False Suc show ?thesis
      by (simp add: feeds)
  qed
qed (simp add: line_feeds_def)

lemma line_start_get:
  assumes "k \<le> length t"
  shows "js_get (lineStartOffsets (new_PositionOffsetTransformer t)) (lineCount (units (take k t))) =
    Some (int k - columnCount (units (take k t)))"
proof -
  have "nat (lineCount (units (take k t))) < Suc (length (line_feeds t 0 (length t)))"
    using start_of_line [OF assms] line_feeds_split [of 0 k "length t" t] assms by simp
  then show ?thesis
    using start_of_line [OF assms] units_lines [of "take k t"] by (simp add: js_get_def transformer_arrays nat_less_iff)
qed

lemma pt_getOffset_after: "k \<le> length t \<Longrightarrow> pt_getOffset (pos_after (take k t)) (new_PositionOffsetTransformer t) = Some (int k)"
  by (simp add: pt_getOffset_def pos_after_sel line_start_get)

lemma line_starts_before:
  assumes "k \<le> length t"
  shows "takeWhile (\<lambda>i. i \<le> int k) (0 # map (\<lambda>j. int j + 1) (line_feeds t 0 (length t))) = 0 # map (\<lambda>j. int j + 1) (line_feeds t 0 k)"
    and "monotonous (\<lambda>i. i \<le> int k) (0 # map (\<lambda>j. int j + 1) (line_feeds t 0 (length t)))"
proof -
  have split: "0 # map (\<lambda>j. int j + 1) (line_feeds t 0 (length t)) =
      (0 # map (\<lambda>j. int j + 1) (line_feeds t 0 k)) @ map (\<lambda>j. int j + 1) (line_feeds t k (length t))"
    using line_feeds_split [of 0 k "length t" t] assms by simp
  have low: "\<forall>i \<in> set (0 # map (\<lambda>j. int j + 1) (line_feeds t 0 k)). i \<le> int k"
    by (auto simp: line_feeds_def)
  have high: "\<forall>i \<in> set (map (\<lambda>j. int j + 1) (line_feeds t k (length t))). \<not> i \<le> int k"
    by (auto simp: line_feeds_def)
  then have none: "takeWhile (\<lambda>i. i \<le> int k) (map (\<lambda>j. int j + 1) (line_feeds t k (length t))) = []"
    by (cases "line_feeds t k (length t)") auto
  show "takeWhile (\<lambda>i. i \<le> int k) (0 # map (\<lambda>j. int j + 1) (line_feeds t 0 (length t))) = 0 # map (\<lambda>j. int j + 1) (line_feeds t 0 k)"
    unfolding split by (subst takeWhile_append2) (use low none in blast, simp only: none append_Nil2)
  show "monotonous (\<lambda>i. i \<le> int k) (0 # map (\<lambda>j. int j + 1) (line_feeds t 0 (length t)))"
    unfolding split monotonous_def dropWhile_append using low high by (auto simp del: set_map dest: set_dropWhileD)
qed

lemma pt_getPosition_after:
  assumes "k \<le> length t"
  shows "pt_getPosition (int k) (new_PositionOffsetTransformer t) = Some (pos_after (take k t))"
proof -
  let ?starts = "lineStartOffsets (new_PositionOffsetTransformer t)"
  have "findLastIdxMonotonous ?starts (\<lambda>i. i \<le> int k) 0 (length ?starts) = int (length (line_feeds t 0 k))"
    unfolding transformer_arrays using findLastIdxMonotonous_spec [OF line_starts_before(2) [OF assms], of 0]
    by (simp only: line_starts_before(1) [OF assms] le0 HOL.simp_thms) simp
  also have "\<dots> = lineCount (units (take k t))"
    using start_of_line [OF assms] units_lines [of "take k t"] by simp
  finally show ?thesis
    using line_start_get [OF assms] by (simp add: pt_getPosition_def position_eq pos_after_sel)
qed

text \<open>Positions of a text are those with a line and a column of it; the column after the last character is one.\<close>

definition text_position :: "jsstring \<Rightarrow> position \<Rightarrow> bool" where
  "text_position t p \<longleftrightarrow> 1 \<le> lineNumber p \<and> lineNumber p \<le> int (length (js_split LF t)) \<and>
     1 \<le> column p \<and> column p \<le> int (length (js_split LF t ! nat (lineNumber p - 1))) + 1"

lemma split_line:
  "i < length (js_split LF t) \<Longrightarrow>
     \<exists>a b. t = a @ js_split LF t ! i @ b \<and> units a = new_TextLength (int i) 0 \<and> (Suc i < length (js_split LF t) \<longrightarrow> b \<noteq> [] \<and> hd b = LF) \<and> (Suc i = length (js_split LF t) \<longrightarrow> b = [])"
proof (induction t arbitrary: i rule: measure_induct_rule [of length])
  case (less t)
  show ?case
  proof (cases "LF \<in> set t")
    case False
    with less.prems show ?thesis
      by (intro exI [of _ "[]"]) (simp add: js_split_no_sep)
  next
    case True
    then obtain p s where t: "t = p @ LF # s" "LF \<notin> set p"
      using split_list_first [OF True] by auto
    then have split: "js_split LF t = p # js_split LF s"
      by (simp add: js_split_append_sep)
    show ?thesis
    proof (cases i)
      case 0
      with t split show ?thesis
        by (intro exI [of _ "[]"] exI [of _ "LF # s"]) simp
    next
      case (Suc j)
      then obtain a b where ab: "s = a @ js_split LF s ! j @ b" "units a = new_TextLength (int j) 0"
          "Suc j < length (js_split LF s) \<longrightarrow> b \<noteq> [] \<and> hd b = LF" "Suc j = length (js_split LF s) \<longrightarrow> b = []"
        using less.IH [of s j] less.prems t(1) split by auto
      have "units (p @ LF # a) = new_TextLength (int i) 0"
        using ab(2) Suc t(2) by (simp add: units_no_LF units_append [of p "LF # a"] units_append [of "[LF]" a, simplified] units_single text_length_eq tl_add_sel)
      then show ?thesis
        using ab(1,3,4) t(1) split Suc by (intro exI [of _ "p @ LF # a"] exI [of _ b]) simp
    qed
  qed
qed

lemma text_position_after:
  assumes "text_position t p"
  shows "\<exists>k \<le> length t. p = pos_after (take k t)"
proof -
  define i where "i = nat (lineNumber p - 1)"
  have i: "i < length (js_split LF t)" "lineNumber p = int i + 1"
    using assms by (auto simp: text_position_def i_def)
  obtain a b where ab: "t = a @ js_split LF t ! i @ b" "units a = new_TextLength (int i) 0"
    using split_line [OF i(1)] by blast
  define x where "x = js_split LF t ! i"
  have x: "LF \<notin> set x"
    using js_split_pieces [OF nth_mem [OF i(1)]] by (simp add: x_def)
  define c where "c = nat (column p - 1)"
  have c: "column p = int c + 1" "c \<le> length x"
    using assms by (auto simp: text_position_def c_def x_def i_def)
  have "LF \<notin> set (take c x)"
    using x by (meson in_set_takeD)
  then have "units (a @ take c x) = new_TextLength (int i) (int c)"
    using ab(2) c(2) by (simp add: units_append units_no_LF text_length_eq tl_add_sel)
  moreover have "take (length a + c) t = a @ take c x"
    by (subst ab(1)) (simp add: x_def [symmetric] c(2))
  ultimately have "p = pos_after (take (length a + c) t)"
    using i(2) c(1) by (simp add: position_eq pos_after_sel)
  moreover have "length a + c \<le> length t"
    by (subst ab(1)) (simp add: x_def [symmetric] c(2) trans_le_add1)
  ultimately show ?thesis
    by blast
qed

lemma length_js_split: "length (js_split sep t) = Suc (length (filter ((=) sep) t))"
  by (induction t) (auto split: list.splits)

lemma units_count: "lineCount (units t) = int (length (filter ((=) LF) t))"
  by (induction t rule: rev_induct) (simp_all add: units_append units_single tl_add_sel)

lemma same_line_start:
  assumes "t = a @ s" and "k \<le> length t" and "lineCount (units (take k t)) = lineCount (units a)" and "columnCount (units a) = 0"
  shows "columnCount (units (take k t)) = int k - int (length a)"
  using start_of_line [of "length a" t] start_of_line [of k t] assms by simp

lemma pos_after_text_position:
  assumes "k \<le> length t"
  shows "text_position t (pos_after (take k t))"
proof -
  define i where "i = nat (lineCount (units (take k t)))"
  have lines: "lineCount (units (take k t)) = int i"
    using units_lines [of "take k t"] by (simp add: i_def)
  have "units t = tl_add (units (take k t)) (units (drop k t))"
    by (simp flip: units_append)
  then have i: "i < length (js_split LF t)"
    using lines units_lines [of "drop k t"] units_count [of t] by (simp add: length_js_split tl_add_sel)
  obtain a b where ab: "t = a @ js_split LF t ! i @ b" "units a = new_TextLength (int i) 0"
      "Suc i < length (js_split LF t) \<longrightarrow> b \<noteq> [] \<and> hd b = LF" "Suc i = length (js_split LF t) \<longrightarrow> b = []"
    using split_line [OF i] by blast
  define x where "x = js_split LF t ! i"
  have t: "t = a @ x @ b"
    using ab(1) by (simp add: x_def)
  have col: "columnCount (units (take k t)) = int k - int (length a)"
    using same_line_start [OF ab(1) assms] lines ab(2) by simp
  have "k \<le> length a + length x"
  proof (rule ccontr)
    assume "\<not> k \<le> length a + length x"
    then have "take k t = (a @ x) @ take (k - length a - length x) b" "k - length a - length x \<noteq> 0" "b \<noteq> []"
      using assms t by (auto simp: take_append)
    then have "take k t = (a @ x) @ LF # take (k - length a - length x - 1) (tl b)"
      using ab(3,4) i by (cases b; cases "k - length a - length x") (auto simp: Suc_lessI)
    then have "units (take k t) = tl_add (units (a @ x)) (tl_add (units [LF]) (units (take (k - length a - length x - 1) (tl b))))"
      by (simp flip: units_append)
    then have "lineCount (units (take k t)) \<ge> int i + 1"
      using ab(2) units_lines [of x] units_lines [of "take (k - length a - length x - 1) (tl b)"]
      by (simp add: units_append units_single tl_add_sel)
    then show False
      using lines by simp
  qed
  then show ?thesis
    using col lines i units_columns [of "take k t"] by (simp add: text_position_def pos_after_sel x_def)
qed

text \<open>
  C27: the translation between offsets and positions is a bijection. Every offset of a text, its length included, has a
  position in a line of it, at most one column past the line, and the offset of that position is the offset; every such
  position has an offset of the text, and the position of that offset is the position. Later offsets have later
  positions.
\<close>

theorem positions_are_offsets:
  "(\<forall>k \<le> length t. \<exists>p. pt_getPosition (int k) (new_PositionOffsetTransformer t) = Some p \<and> text_position t p \<and>
      pt_getOffset p (new_PositionOffsetTransformer t) = Some (int k)) \<and>
   (\<forall>p. text_position t p \<longrightarrow> (\<exists>k \<le> length t. pt_getOffset p (new_PositionOffsetTransformer t) = Some (int k) \<and>
      pt_getPosition (int k) (new_PositionOffsetTransformer t) = Some p)) \<and>
   (\<forall>p q k l. pt_getPosition (int k) (new_PositionOffsetTransformer t) = Some p \<longrightarrow>
      pt_getPosition (int l) (new_PositionOffsetTransformer t) = Some q \<longrightarrow> k < l \<longrightarrow> l \<le> length t \<longrightarrow> isBefore p q)"
proof (intro conjI allI impI)
  show "\<exists>p. pt_getPosition (int k) (new_PositionOffsetTransformer t) = Some p \<and> text_position t p \<and>
      pt_getOffset p (new_PositionOffsetTransformer t) = Some (int k)" if "k \<le> length t" for k
    using pt_getPosition_after [OF that] pt_getOffset_after [OF that] pos_after_text_position [OF that] by blast
  show "\<exists>k \<le> length t. pt_getOffset p (new_PositionOffsetTransformer t) = Some (int k) \<and>
      pt_getPosition (int k) (new_PositionOffsetTransformer t) = Some p" if "text_position t p" for p
    using text_position_after [OF that] pt_getPosition_after [of _ t] pt_getOffset_after [of _ t] by auto
  show "isBefore p q" if "pt_getPosition (int k) (new_PositionOffsetTransformer t) = Some p"
    "pt_getPosition (int l) (new_PositionOffsetTransformer t) = Some q" "k < l" "l \<le> length t" for p q k l
  proof -
    have "take l t = take k t @ take (l - k) (drop k t)"
      using that(3) by (simp flip: take_add)
    then show ?thesis
      using pos_after_less [of "take (l - k) (drop k t)" "take k t"] that pt_getPosition_after [of k t] pt_getPosition_after [of l t]
      by (simp add: isBefore_less)
  qed
qed

theorem positions_are_offsets_witness:
  "\<exists>k \<le> length (js ''ab'' @ [LF] @ js ''c''). pt_getOffset (new_Position 2 2) (new_PositionOffsetTransformer (js ''ab'' @ [LF] @ js ''c'')) = Some (int k)"
proof -
  have "text_position (js ''ab'' @ [LF] @ js ''c'') (new_Position 2 2)"
    by (simp add: text_position_def)
  then show ?thesis
    using positions_are_offsets [of "js ''ab'' @ [LF] @ js ''c''"] by blast
qed

end
