(* ===== verification/Text_Edit.thy ===== *)
theory Text_Edit
  imports Text_Position Offset_Edit
begin

text \<open>
  Texts and edits of a text by positions: the classes \<open>AbstractText\<close>, \<open>StringText\<close>, \<open>LineBasedText\<close>, \<open>ArrayText\<close>,
  \<open>TextEdit\<close> and \<open>SingleTextEdit\<close> of \<open>src/vs/editor/common/core/textEdit.ts\<close>, with the string functions they use. A text
  cannot change, so the transformer it caches is computed where it is asked for. A \<open>TextEdit\<close> is its array of single
  edits: its constructor only reports edits that are out of order, it does not throw (\<open>edits_in_order\<close>). This theory
  holds the definitions; \<open>Text_Edit_Laws\<close> has the properties.
\<close>

section \<open>String functions\<close>

text \<open>\<open>str.split(/\r\n|\r|\n/)\<close>, \<open>str.replaceAll('\r\n', '\n')\<close> and the common prefix and suffix of two strings.\<close>

function splitLines :: "jsstring \<Rightarrow> jsstring list" where
  "splitLines [] = [[]]"
| "splitLines (c # cs) =
     (if c = CR then [] # splitLines (if cs \<noteq> [] \<and> hd cs = LF then tl cs else cs)
      else if c = LF then [] # splitLines cs
      else case splitLines cs of [] \<Rightarrow> [[c]] | x # xs \<Rightarrow> (c # x) # xs)"
  by pat_completeness auto
termination
  by (relation "measure length") (auto simp: less_Suc_eq_le)

fun replace_crlf :: "jsstring \<Rightarrow> jsstring" where
  "replace_crlf [] = []"
| "replace_crlf [c] = [c]"
| "replace_crlf (c # d # cs) = (if c = CR \<and> d = LF then LF # replace_crlf cs else c # replace_crlf (d # cs))"

fun commonPrefixLength :: "jsstring \<Rightarrow> jsstring \<Rightarrow> int" where
  "commonPrefixLength (a # as) (b # bs) = (if a \<noteq> b then 0 else 1 + commonPrefixLength as bs)"
| "commonPrefixLength as bs = 0"

definition commonSuffixLength :: "jsstring \<Rightarrow> jsstring \<Rightarrow> int" where
  "commonSuffixLength a b = commonPrefixLength (rev a) (rev b)"

section \<open>Texts\<close>

datatype abstract_text = StringText jsstring | LineBasedText "int \<Rightarrow> jsstring option" int

definition new_LineBasedText :: "(int \<Rightarrow> jsstring option) \<Rightarrow> int \<Rightarrow> abstract_text result" where
  "new_LineBasedText getLineContent count =
     (if count \<ge> 1 then Inr (LineBasedText getLineContent count) else Inl BugIndicatingError)"

definition new_ArrayText :: "jsstring list \<Rightarrow> abstract_text result" where
  "new_ArrayText lines = new_LineBasedText (\<lambda>line. js_get lines (line - 1)) (int (length lines))"

text \<open>Calling a method of a line that is \<open>undefined\<close> throws; concatenating it gives its name.\<close>

definition line_content :: "jsstring option \<Rightarrow> jsstring result" where
  "line_content content = (case content of None \<Rightarrow> Inl TypeError | Some s \<Rightarrow> Inr s)"

fun middle_lines :: "(int \<Rightarrow> jsstring option) \<Rightarrow> nat \<Rightarrow> int \<Rightarrow> jsstring" where
  "middle_lines getLineContent 0 i = []"
| "middle_lines getLineContent (Suc k) i =
     LF # (case getLineContent i of None \<Rightarrow> js ''undefined'' | Some s \<Rightarrow> s) @ middle_lines getLineContent k (i + 1)"

text \<open>\<open>substring\<close> takes \<open>NaN\<close> for \<open>0\<close>.\<close>

definition nan_zero :: "int option \<Rightarrow> int" where
  "nan_zero i = (case i of None \<Rightarrow> 0 | Some n \<Rightarrow> n)"

definition st_getValueOfRange :: "editor_range \<Rightarrow> jsstring \<Rightarrow> jsstring result" where
  "st_getValueOfRange rng str =
     bind_result (pt_getOffsetRange rng (new_PositionOffsetTransformer str)) (\<lambda>(start, stop).
       Inr (js_substring str (nan_zero start) (nan_zero stop)))"

definition lbt_getValueOfRange :: "editor_range \<Rightarrow> (int \<Rightarrow> jsstring option) \<Rightarrow> jsstring result" where
  "lbt_getValueOfRange rng f =
     (if startLineNumber rng = endLineNumber rng
      then bind_result (line_content (f (startLineNumber rng))) (\<lambda>line.
             Inr (js_substring line (startColumn rng - 1) (endColumn rng - 1)))
      else bind_result (line_content (f (startLineNumber rng))) (\<lambda>first.
           bind_result (line_content (f (endLineNumber rng))) (\<lambda>last.
             Inr (js_substring_from first (startColumn rng - 1) @
                  middle_lines f (nat (endLineNumber rng - (startLineNumber rng + 1))) (startLineNumber rng + 1) @
                  LF # js_substring last 0 (endColumn rng - 1)))))"

definition st_length :: "jsstring \<Rightarrow> text_length" where
  "st_length str = pt_textLength (new_PositionOffsetTransformer str)"

definition lbt_length :: "(int \<Rightarrow> jsstring option) \<Rightarrow> int \<Rightarrow> text_length result" where
  "lbt_length f count =
     bind_result (line_content (f count)) (\<lambda>lastLine. Inr (new_TextLength (count - 1) (int (length lastLine))))"

text \<open>The two methods that the subclasses provide.\<close>

fun getValueOfRange :: "editor_range \<Rightarrow> abstract_text \<Rightarrow> jsstring result" where
  "getValueOfRange rng (StringText str) = st_getValueOfRange rng str"
| "getValueOfRange rng (LineBasedText f count) = lbt_getValueOfRange rng f"

fun text_size :: "abstract_text \<Rightarrow> text_length result" where
  "text_size (StringText str) = Inr (st_length str)"
| "text_size (LineBasedText f count) = lbt_length f count"

definition endPositionExclusive :: "abstract_text \<Rightarrow> position result" where
  "endPositionExclusive t = bind_result (text_size t) (\<lambda>l. Inr (addToPosition (new_Position 1 1) l))"

definition text_lineRange :: "abstract_text \<Rightarrow> line_range result" where
  "text_lineRange t = bind_result (text_size t) tl_toLineRange"

definition getValue :: "abstract_text \<Rightarrow> jsstring result" where
  "getValue t = bind_result (text_size t) (\<lambda>l. getValueOfRange (tl_toRange l) t)"

abbreviation (input) MAX_SAFE_INTEGER :: int where
  "MAX_SAFE_INTEGER \<equiv> 9007199254740991"

definition getLineAt :: "int \<Rightarrow> abstract_text \<Rightarrow> jsstring result" where
  "getLineAt line t = getValueOfRange (new_Range line 1 line MAX_SAFE_INTEGER) t"

definition at_getLineLength :: "int \<Rightarrow> abstract_text \<Rightarrow> int result" where
  "at_getLineLength line t = bind_result (getValueOfRange (new_Range line 1 line MAX_SAFE_INTEGER) t) (\<lambda>s. Inr (int (length s)))"

definition lbt_getLineLength :: "int \<Rightarrow> (int \<Rightarrow> jsstring option) \<Rightarrow> int result" where
  "lbt_getLineLength line f = bind_result (line_content (f line)) (\<lambda>s. Inr (int (length s)))"

text \<open>\<open>LineBasedText\<close> overrides \<open>getLineLength\<close>.\<close>

fun text_getLineLength :: "int \<Rightarrow> abstract_text \<Rightarrow> int result" where
  "text_getLineLength line (LineBasedText f count) = lbt_getLineLength line f"
| "text_getLineLength line t = at_getLineLength line t"

definition getTransformer :: "abstract_text \<Rightarrow> transformer result" where
  "getTransformer t = bind_result (getValue t) (\<lambda>v. Inr (new_PositionOffsetTransformer v))"

definition getLines :: "abstract_text \<Rightarrow> jsstring list result" where
  "getLines t = bind_result (getValue t) (\<lambda>v. Inr (splitLines v))"

section \<open>Single edits\<close>

record single_text_edit =
  te_range :: editor_range
  te_text :: jsstring

definition new_SingleTextEdit :: "editor_range \<Rightarrow> jsstring \<Rightarrow> single_text_edit" where
  "new_SingleTextEdit rng text = \<lparr>te_range = rng, te_text = text\<rparr>"

abbreviation te_start :: "single_text_edit \<Rightarrow> position" where
  "te_start e \<equiv> getStartPosition (te_range e)"

abbreviation te_end :: "single_text_edit \<Rightarrow> position" where
  "te_end e \<equiv> getEndPosition (te_range e)"

definition ste_isEmpty :: "single_text_edit \<Rightarrow> bool" where
  "ste_isEmpty e \<longleftrightarrow> range_isEmpty (te_range e) \<and> length (te_text e) = 0"

definition ste_equals :: "single_text_edit \<Rightarrow> single_text_edit \<Rightarrow> bool" where
  "ste_equals first second \<longleftrightarrow> equalsRange (Some (te_range first)) (Some (te_range second)) \<and> te_text first = te_text second"

text \<open>The loop of \<open>joinEdits\<close> and of \<open>toSingle\<close>: the texts of the edits and of the gaps between them.\<close>

fun join_text :: "single_text_edit list \<Rightarrow> abstract_text \<Rightarrow> jsstring result" where
  "join_text [] t = Inr []"
| "join_text [curEdit] t = Inr (te_text curEdit)"
| "join_text (curEdit # nextEdit # edits) t =
     bind_result (getValueOfRange (range_fromPositions (te_end curEdit) (Some (te_start nextEdit))) t) (\<lambda>gapText.
     bind_result (join_text (nextEdit # edits) t) (\<lambda>rest. Inr (te_text curEdit @ gapText @ rest)))"

definition ste_joinEdits :: "single_text_edit list \<Rightarrow> abstract_text \<Rightarrow> single_text_edit result" where
  "ste_joinEdits edits initialValue =
     (case edits of [] \<Rightarrow> Inl BugIndicatingError
      | [e] \<Rightarrow> Inr e
      | e # _ \<Rightarrow> bind_result (join_text edits initialValue) (\<lambda>newText.
          Inr (new_SingleTextEdit (range_fromPositions (te_start e) (Some (te_end (last edits)))) newText)))"

definition extendToCoverRange :: "editor_range \<Rightarrow> abstract_text \<Rightarrow> single_text_edit \<Rightarrow> single_text_edit result" where
  "extendToCoverRange rng initialValue e =
     (if containsRange (te_range e) rng then Inr e
      else let newRange = plusRange (te_range e) rng
        in bind_result (getValueOfRange (range_fromPositions (getStartPosition newRange) (Some (te_start e))) initialValue) (\<lambda>textBefore.
           bind_result (getValueOfRange (range_fromPositions (te_end e) (Some (getEndPosition newRange))) initialValue) (\<lambda>textAfter.
             Inr (new_SingleTextEdit newRange (textBefore @ te_text e @ textAfter)))))"

text \<open>\<open>None\<close> when the last line of the range does not exist and its length is \<open>NaN\<close>.\<close>

definition extendToFullLine :: "abstract_text \<Rightarrow> single_text_edit \<Rightarrow> single_text_edit option result" where
  "extendToFullLine initialValue e =
     bind_result (getTransformer initialValue) (\<lambda>t.
       case pt_getLineLength (endLineNumber (te_range e)) t of None \<Rightarrow> Inr None
       | Some n \<Rightarrow> bind_result
           (extendToCoverRange (new_Range (startLineNumber (te_range e)) 1 (endLineNumber (te_range e)) (n + 1)) initialValue e)
           (\<lambda>e'. Inr (Some e')))"

definition removeCommonPrefix :: "abstract_text \<Rightarrow> single_text_edit \<Rightarrow> single_text_edit result" where
  "removeCommonPrefix t e =
     bind_result (getValueOfRange (te_range e) t) (\<lambda>original.
       let normalizedOriginalText = replace_crlf original;
           normalizedModifiedText = replace_crlf (te_text e);
           commonPrefixLen = commonPrefixLength normalizedOriginalText normalizedModifiedText;
           start = addToPosition (te_start e) (ofText (js_substring normalizedOriginalText 0 commonPrefixLen));
           newText = js_substring_from normalizedModifiedText commonPrefixLen
       in Inr (new_SingleTextEdit (range_fromPositions start (Some (te_end e))) newText))"

definition isEffectiveDeletion :: "abstract_text \<Rightarrow> single_text_edit \<Rightarrow> bool result" where
  "isEffectiveDeletion t e =
     bind_result (getValueOfRange (te_range e) t) (\<lambda>existing.
       let newText = replace_crlf (te_text e);
           existingText = replace_crlf existing;
           l = commonPrefixLength newText existingText;
           newText = js_substring_from newText l;
           existingText = js_substring_from existingText l;
           r = commonSuffixLength newText existingText;
           newText = js_substring newText 0 (int (length newText) - r)
       in Inr (newText = []))"

section \<open>Edits\<close>

type_synonym text_edit = "single_text_edit list"

text \<open>
  The constructor tests its array with \<open>checkAdjacentItems\<close> and reports an error when the test fails; it does not
  throw.
\<close>

fun checkAdjacentItems :: "('a \<Rightarrow> 'a \<Rightarrow> bool) \<Rightarrow> 'a list \<Rightarrow> bool" where
  "checkAdjacentItems predicate (a # b # items) \<longleftrightarrow> predicate a b \<and> checkAdjacentItems predicate (b # items)"
| "checkAdjacentItems predicate items \<longleftrightarrow> True"

definition edits_in_order :: "text_edit \<Rightarrow> bool" where
  "edits_in_order edits = checkAdjacentItems (\<lambda>a b. isBeforeOrEqual (te_end a) (te_start b)) edits"

fun ranges_of_edits :: "transformer \<Rightarrow> offset_edit \<Rightarrow> text_edit option" where
  "ranges_of_edits t [] = Some []"
| "ranges_of_edits t (e # es) =
     (case (pt_getRange (replaceRange e) t, ranges_of_edits t es) of
        (Some rng, Some edits) \<Rightarrow> Some (new_SingleTextEdit rng (newText e) # edits) | _ \<Rightarrow> None)"

definition te_fromOffsetEdit :: "offset_edit \<Rightarrow> abstract_text \<Rightarrow> text_edit option result" where
  "te_fromOffsetEdit edit initialState = bind_result (getTransformer initialState) (\<lambda>t. Inr (ranges_of_edits t edit))"

definition te_single :: "editor_range \<Rightarrow> jsstring \<Rightarrow> text_edit" where
  "te_single originalRange text = [new_SingleTextEdit originalRange text]"

definition te_insert :: "position \<Rightarrow> jsstring \<Rightarrow> text_edit" where
  "te_insert pos text = [new_SingleTextEdit (range_fromPositions pos (Some pos)) text]"

definition ste_toEdit :: "single_text_edit \<Rightarrow> text_edit" where
  "ste_toEdit e = [e]"

fun te_normalize_loop :: "text_edit \<Rightarrow> text_edit \<Rightarrow> text_edit" where
  "te_normalize_loop edits [] = edits"
| "te_normalize_loop edits (e # es) =
     (if edits \<noteq> [] \<and> pos_equals (Some (te_end (last edits))) (Some (te_start e))
      then te_normalize_loop
        (butlast edits @ [new_SingleTextEdit (plusRange (te_range (last edits)) (te_range e)) (te_text (last edits) @ te_text e)]) es
      else if \<not> ste_isEmpty e then te_normalize_loop (edits @ [e]) es
      else te_normalize_loop edits es)"

definition te_normalize :: "text_edit \<Rightarrow> text_edit" where
  "te_normalize e = te_normalize_loop [] e"

text \<open>The function of the file that makes ranges and throws when the positions are out of order.\<close>

definition rangeFromPositions :: "position \<Rightarrow> position \<Rightarrow> editor_range result" where
  "rangeFromPositions start stop =
     (if lineNumber start = lineNumber stop \<and> column start = MAX_SAFE_INTEGER then Inr (range_fromPositions stop (Some stop))
      else if \<not> isBeforeOrEqual start stop then Inl BugIndicatingError
      else Inr (new_Range (lineNumber start) (column start) (lineNumber stop) (column stop)))"

datatype mapped = AtPosition position | AtRange editor_range

fun map_position_loop :: "position \<Rightarrow> int \<Rightarrow> int \<Rightarrow> int \<Rightarrow> text_edit \<Rightarrow> mapped result" where
  "map_position_loop pos lineDelta curLine columnDeltaInCurLine [] =
     Inr (AtPosition (new_Position (lineNumber pos + lineDelta)
       (column pos + (if lineNumber pos + lineDelta = curLine then columnDeltaInCurLine else 0))))"
| "map_position_loop pos lineDelta curLine columnDeltaInCurLine (edit # edits) =
     (let start = te_start edit; stop = te_end edit; len = ofText (te_text edit)
      in if isBeforeOrEqual pos start then map_position_loop pos lineDelta curLine columnDeltaInCurLine []
         else if isBefore pos stop
         then let startPos = new_Position (lineNumber start + lineDelta)
                    (column start + (if lineNumber start + lineDelta = curLine then columnDeltaInCurLine else 0));
                  endPos = addToPosition startPos len
           in bind_result (rangeFromPositions startPos endPos) (\<lambda>r. Inr (AtRange r))
         else let columnDeltaInCurLine = (if lineNumber start + lineDelta \<noteq> curLine then 0 else columnDeltaInCurLine);
                  lineDelta = lineDelta + (lineCount len - (endLineNumber (te_range edit) - startLineNumber (te_range edit)));
                  columnDeltaInCurLine =
                    (if lineCount len = 0
                     then if lineNumber stop \<noteq> lineNumber start
                       then columnDeltaInCurLine + (columnCount len - (column stop - 1))
                       else columnDeltaInCurLine + (columnCount len - (column stop - column start))
                     else columnCount len)
           in map_position_loop pos lineDelta (lineNumber stop + lineDelta) columnDeltaInCurLine edits)"

definition mapPosition :: "position \<Rightarrow> text_edit \<Rightarrow> mapped result" where
  "mapPosition pos edits = map_position_loop pos 0 0 0 edits"

definition mapped_start :: "mapped \<Rightarrow> position" where
  "mapped_start m = (case m of AtPosition p \<Rightarrow> p | AtRange r \<Rightarrow> getStartPosition r)"

definition mapped_end :: "mapped \<Rightarrow> position" where
  "mapped_end m = (case m of AtPosition p \<Rightarrow> p | AtRange r \<Rightarrow> getEndPosition r)"

definition te_mapRange :: "editor_range \<Rightarrow> text_edit \<Rightarrow> editor_range result" where
  "te_mapRange rng edits =
     bind_result (mapPosition (getStartPosition rng) edits) (\<lambda>a.
     bind_result (mapPosition (getEndPosition rng) edits) (\<lambda>b. rangeFromPositions (mapped_start a) (mapped_end b)))"

text \<open>The texts of the parts between the edits, in the loop of \<open>apply\<close>.\<close>

definition text_between :: "position \<Rightarrow> position \<Rightarrow> abstract_text \<Rightarrow> jsstring result" where
  "text_between start stop t =
     bind_result (rangeFromPositions start stop) (\<lambda>r. if \<not> range_isEmpty r then getValueOfRange r t else Inr [])"

fun te_apply_loop :: "position \<Rightarrow> text_edit \<Rightarrow> abstract_text \<Rightarrow> jsstring result" where
  "te_apply_loop lastEditEnd [] t = bind_result (endPositionExclusive t) (\<lambda>stop. text_between lastEditEnd stop t)"
| "te_apply_loop lastEditEnd (edit # edits) t =
     bind_result (text_between lastEditEnd (te_start edit) t) (\<lambda>part.
     bind_result (te_apply_loop (te_end edit) edits t) (\<lambda>rest. Inr (part @ te_text edit @ rest)))"

definition te_apply :: "abstract_text \<Rightarrow> text_edit \<Rightarrow> jsstring result" where
  "te_apply t edits = te_apply_loop (new_Position 1 1) edits t"

definition applyToString :: "jsstring \<Rightarrow> text_edit \<Rightarrow> jsstring result" where
  "applyToString str edits = te_apply (StringText str) edits"

fun new_ranges_loop :: "int \<Rightarrow> int \<Rightarrow> int \<Rightarrow> text_edit \<Rightarrow> editor_range list" where
  "new_ranges_loop previousEditEndLineNumber lineOffset columnOffset [] = []"
| "new_ranges_loop previousEditEndLineNumber lineOffset columnOffset (edit # edits) =
     (let r = te_range edit;
          newRangeStart = new_Position (startLineNumber r + lineOffset)
            (startColumn r + (if startLineNumber r = previousEditEndLineNumber then columnOffset else 0));
          newRange = tl_createRange newRangeStart (ofText (te_text edit))
      in newRange # new_ranges_loop (endLineNumber r) (endLineNumber newRange - endLineNumber r) (endColumn newRange - endColumn r) edits)"

definition getNewRanges :: "text_edit \<Rightarrow> editor_range list" where
  "getNewRanges edits = new_ranges_loop 0 0 0 edits"

fun inverse_edits :: "abstract_text \<Rightarrow> text_edit \<Rightarrow> editor_range list \<Rightarrow> text_edit result" where
  "inverse_edits doc (e # es) (r # ranges) =
     bind_result (getValueOfRange (te_range e) doc) (\<lambda>old.
     bind_result (inverse_edits doc es ranges) (\<lambda>rest. Inr (new_SingleTextEdit r old # rest)))"
| "inverse_edits doc es ranges = Inr []"

definition te_inverse :: "abstract_text \<Rightarrow> text_edit \<Rightarrow> text_edit result" where
  "te_inverse doc edits = inverse_edits doc edits (getNewRanges edits)"

definition inverseMapPosition :: "position \<Rightarrow> abstract_text \<Rightarrow> text_edit \<Rightarrow> mapped result" where
  "inverseMapPosition positionAfterEdit doc edits = bind_result (te_inverse doc edits) (mapPosition positionAfterEdit)"

definition inverseMapRange :: "editor_range \<Rightarrow> abstract_text \<Rightarrow> text_edit \<Rightarrow> editor_range result" where
  "inverseMapRange rng doc edits = bind_result (te_inverse doc edits) (te_mapRange rng)"

definition te_toSingle :: "abstract_text \<Rightarrow> text_edit \<Rightarrow> single_text_edit result" where
  "te_toSingle t edits =
     (case edits of [] \<Rightarrow> Inl BugIndicatingError
      | [e] \<Rightarrow> Inr e
      | e # _ \<Rightarrow> bind_result (join_text edits t) (\<lambda>newText.
          Inr (new_SingleTextEdit (range_fromPositions (te_start e) (Some (te_end (last edits)))) newText)))"

definition te_equals :: "text_edit \<Rightarrow> text_edit \<Rightarrow> bool" where
  "te_equals one other \<longleftrightarrow> list_all2 ste_equals one other"

end
