(* ===== verification/Text_Content.thy ===== *)
theory Text_Content
  imports Text_Edit
begin

text \<open>
  What clients of \<open>AbstractText\<close> rely on. The locale \<open>text_content\<close> is the contract of the two methods a subclass
  provides, for a text with the content \<open>s\<close>: the size is the size of \<open>s\<close>, and the value of a range is the part of \<open>s\<close>
  between its positions. \<open>StringText\<close> and \<open>ArrayText\<close> meet it.
\<close>

section \<open>Values of ranges\<close>

abbreviation range_between :: "position \<Rightarrow> position \<Rightarrow> editor_range" where
  "range_between p q \<equiv> range_fromPositions p (Some q)"

lemma range_between_ends:
  assumes "p \<le> q"
  shows "getStartPosition (range_between p q) = p" and "getEndPosition (range_between p q) = q"
  using assms by (simp_all add: range_fromPositions_def new_Range_start new_Range_end new_Position_parts min_absorb1 max_absorb2)

lemma range_between_id: "range_ok r \<Longrightarrow> range_between (getStartPosition r) (getEndPosition r) = r" for r :: editor_range
  by (rule range_eqI) (simp_all add: range_between_ends range_ok_def)

lemma toRange_between: "tl_toRange (units t) = range_between (pos_after []) (pos_after t)"
  by (simp add: tl_toRange_def range_fromPositions_def pos_after_sel)

text \<open>Lengths for which the number that stands for the end of a line is not a column.\<close>

definition short :: "jsstring \<Rightarrow> bool" where
  "short t \<longleftrightarrow> int (length t) < 9007199254740990"

lemma units_columns_le: "columnCount (units a) \<le> int (length a)"
proof (induction a rule: rev_induct)
  case (snoc c a)
  then show ?case
    using units_columns [of a] by (simp add: units_append units_single tl_add_sel)
qed simp

lemma rangeFromPositions_after:
  assumes "short (a @ b)"
  shows "rangeFromPositions (pos_after a) (pos_after (a @ b)) = Inr (range_between (pos_after a) (pos_after (a @ b)))"
  using assms units_columns_le [of a] pos_after_le [of a b]
  by (simp add: rangeFromPositions_def short_def pos_after_sel isBeforeOrEqual_le range_fromPositions_def)

section \<open>The contract of texts\<close>

locale text_content =
  fixes t :: abstract_text
    and s :: jsstring
  assumes value_between: "s = a @ b @ c \<Longrightarrow> getValueOfRange (range_between (pos_after a) (pos_after (a @ b))) t = Inr b"
    and size: "text_size t = Inr (units s)"
begin

lemma end_position: "endPositionExclusive t = Inr (pos_after s)"
  by (simp add: endPositionExclusive_def size pos_after_def)

lemma content_value: "getValue t = Inr s"
  using value_between [of "[]" s "[]"] by (simp add: getValue_def size toRange_between)

lemma transformer: "getTransformer t = Inr (new_PositionOffsetTransformer s)"
  by (simp add: getTransformer_def content_value)

lemma lines: "getLines t = Inr (splitLines s)"
  by (simp add: getLines_def content_value)

lemma between:
  assumes "s = a @ b @ c" and "short s"
  shows "text_between (pos_after a) (pos_after (a @ b)) t = Inr b"
proof -
  have "short (a @ b)"
    using assms by (simp add: short_def)
  note range = rangeFromPositions_after [OF this] range_between_ends [OF pos_after_le [of a b]]
  show ?thesis
  proof (cases "b = []")
    case False
    then have "\<not> range_isEmpty (range_between (pos_after a) (pos_after (a @ b)))"
      using pos_after_less [OF False, of a] range by (simp add: range_isEmpty_order)
    then show ?thesis
      using range(1) value_between [OF assms(1)] by (simp add: text_between_def)
  next
    case True
    then show ?thesis
      using range by (simp add: text_between_def range_isEmpty_order)
  qed
qed

end

section \<open>Strings\<close>

lemma string_value_between: "getValueOfRange (range_between (pos_after a) (pos_after (a @ b))) (StringText (a @ b @ c)) = Inr b"
proof -
  have "pt_getOffset (pos_after a) (new_PositionOffsetTransformer (a @ b @ c)) = Some (int (length a))"
    using pt_getOffset_after [of "length a" "a @ b @ c"] by simp
  moreover have "pt_getOffset (pos_after (a @ b)) (new_PositionOffsetTransformer (a @ b @ c)) = Some (int (length a + length b))"
    using pt_getOffset_after [of "length a + length b" "a @ b @ c"] by simp
  ultimately show ?thesis
    using range_between_ends [OF pos_after_le [of a b]] by (simp add: st_getValueOfRange_def pt_getOffsetRange_def new_OffsetRange_def nan_zero_def js_simps)
qed

lemma text_size_units: "text_size (StringText t) = Inr (units t)"
proof -
  have "nat (lineCount (units t)) = length (line_feeds t 0 (length t))"
    using start_of_line [of "length t" t] by simp
  then have "pt_textLength (new_PositionOffsetTransformer t) = units t"
    using start_of_line [of "length t" t] units_lines [of t]
    by (simp add: pt_textLength_def transformer_arrays text_length_eq Let_def)
  then show ?thesis
    by (simp add: st_length_def)
qed

interpretation string_text: text_content "StringText s" s for s
  by unfold_locales (simp_all only: string_value_between text_size_units)

section \<open>Arrays of lines\<close>

lemma js_split_cat:
  "js_split sep (a @ b) = butlast (js_split sep a) @ (last (js_split sep a) @ hd (js_split sep b)) # tl (js_split sep b)"
proof (induction a)
  case Nil
  then show ?case
    using list.collapse [of "js_split sep b"] by simp
next
  case (Cons c a)
  obtain x xs where a: "js_split sep a = x # xs"
    using js_split_nonempty [of sep a] by (cases "js_split sep a") auto
  show ?case
    using Cons.IH by (cases "c = sep"; cases xs) (simp_all add: a)
qed

lemma last_line_length: "int (length (last (js_split LF a))) = columnCount (units a)"
proof (induction a rule: rev_induct)
  case (snoc c a)
  then show ?case
    by (simp add: js_split_cat units_append units_single tl_add_sel)
qed simp

lemma line_count: "int (length (js_split LF a)) = lineCount (units a) + 1"
  by (simp add: length_js_split units_count)

lemma join_lines: "ls \<noteq> [] \<Longrightarrow> js_join [LF] ls = hd ls @ concat (map ((#) LF) (tl ls))"
proof (induction ls)
  case (Cons l ls)
  then show ?case
    by (cases ls) simp_all
qed simp

abbreviation lines_text :: "jsstring \<Rightarrow> abstract_text" where
  "lines_text s \<equiv> LineBasedText (\<lambda>line. js_get (js_split LF s) (line - 1)) (int (length (js_split LF s)))"

lemma new_ArrayText_lines: "new_ArrayText (js_split LF s) = Inr (lines_text s)"
  by (cases "js_split LF s") (simp_all add: new_ArrayText_def new_LineBasedText_def)

lemma middle_lines_get:
  "i + k \<le> length ls \<Longrightarrow> middle_lines (\<lambda>line. js_get ls (line - 1)) k (int i + 1) = concat (map ((#) LF) (take k (drop i ls)))"
proof (induction k arbitrary: i)
  case (Suc k)
  have "drop i ls = ls ! i # drop (Suc i) ls"
    using Suc.prems by (simp add: Cons_nth_drop_Suc)
  moreover have "js_get ls (int i) = Some (ls ! i)"
    using Suc.prems by (simp add: js_get_def)
  ultimately show ?case
    using Suc.IH [of "Suc i"] Suc.prems by (simp add: algebra_simps)
qed simp

lemma lines_value_between:
  assumes "s = a @ b @ c"
  shows "getValueOfRange (range_between (pos_after a) (pos_after (a @ b))) (lines_text s) = Inr b"
proof -
  define A B C where "A = js_split LF a" and "B = js_split LF b" and "C = js_split LF c"
  let ?ls = "js_split LF s" and ?r = "range_between (pos_after a) (pos_after (a @ b))"
  have nonempty: "A \<noteq> []" "B \<noteq> []" "C \<noteq> []"
    by (simp_all add: A_def B_def C_def)
  obtain i m where im: "length A = Suc i" "length B = Suc m"
    using nonempty by (cases A; cases B) auto
  define BC where "BC = butlast B @ (last B @ hd C) # tl C"
  have ls: "?ls = butlast A @ (last A @ hd BC) # tl BC"
    using js_split_cat [of LF a "b @ c"] js_split_cat [of LF b c] by (simp add: assms A_def B_def C_def BC_def)
  have b: "b = hd B @ concat (map ((#) LF) (tl B))"
    using js_join_split [of LF b] join_lines [OF nonempty(2)] by (simp add: B_def)
  have count: "int (length A) = lineCount (units a) + 1" "int (length B) = lineCount (units b) + 1"
    unfolding A_def B_def by (simp_all only: line_count)
  have col: "columnCount (units a) = int (length (last A))" "columnCount (units b) = int (length (last B))"
    unfolding A_def B_def by (simp_all only: last_line_length)
  have bounds: "startLineNumber ?r = int i + 1" "startColumn ?r = int (length (last A)) + 1" "endLineNumber ?r = int (i + m) + 1"
      "endColumn ?r = (if m = 0 then int (length (last A) + length (last B)) else int (length (last B))) + 1"
    using range_between_ends [OF pos_after_le [of a b]] rstart_sel [of ?r] rend_sel [of ?r] count col
    by (auto simp: pos_after_sel units_append tl_add_sel im)
  have first: "js_get ?ls (int i) = Some (last A @ hd BC)"
    by (simp add: ls js_get_def nth_append im)
  show ?thesis
  proof (cases "m = 0")
    case True
    then have "B = [b]"
      using b im(2) by (cases B) auto
    then have "hd BC = b @ hd C" "last B = b"
      by (simp_all add: BC_def)
    then show ?thesis
      using bounds first True by (simp add: lbt_getValueOfRange_def line_content_def js_simps)
  next
    case False
    then obtain p B' where B: "B = p # B'" "B' \<noteq> []"
      using im(2) by (cases B) auto
    have BC: "hd BC = p" "tl BC = butlast B' @ (last B' @ hd C) # tl C"
      by (simp_all add: BC_def B)
    have m: "m = length B'" "length A = Suc i"
      using im by (simp_all add: B)
    have drop: "drop i ?ls = (last A @ p) # butlast B' @ (last B' @ hd C) # tl C"
      by (simp add: ls BC im)
    then have "drop (Suc i) ?ls = butlast B' @ (last B' @ hd C) # tl C"
      by (metis drop_Suc list.sel(3) tl_drop)
    then have middle: "take (m - 1) (drop (Suc i) ?ls) = butlast B'"
      by (simp add: m)
    have len: "Suc i + (m - 1) \<le> length ?ls"
      using B(2) by (simp add: ls BC m)
    obtain q where q: "length B' = Suc q"
      using B(2) by (cases B') auto
    have "?ls ! (i + m) = drop i ?ls ! m"
      using len by simp
    also have "\<dots> = last B' @ hd C"
      by (simp add: drop m q nth_append)
    finally have "?ls ! (i + m) = last B' @ hd C" .
    moreover have "i + m < length ?ls"
      by (simp add: ls BC m q im)
    ultimately have "js_get ?ls (int (i + m)) = Some (last B' @ hd C)"
      by (simp only: js_get_def nat_int of_nat_less_iff of_nat_0_le_iff simp_thms if_True)
    moreover have "nat (int (i + m) + 1 - (int i + 1 + 1)) = m - 1"
      using False by simp
    moreover have "middle_lines (\<lambda>line. js_get ?ls (line - 1)) (m - 1) (int i + 1 + 1) = concat (map ((#) LF) (butlast B'))"
      using middle_lines_get [OF len] middle by (simp add: add.commute)
    moreover have "b = p @ concat (map ((#) LF) (butlast B')) @ LF # last B'"
      using b B append_butlast_last_id [OF B(2)] concat_append [of "map ((#) LF) (butlast B')" "[LF # last B']"]
      by (metis (no_types, lifting) append.assoc concat.simps list.sel(1,3) list.simps(8,9) map_append append_Nil2 append_Cons)
    ultimately show ?thesis
      using bounds first False BC(1) B by (simp add: lbt_getValueOfRange_def line_content_def js_simps)
  qed
qed

lemma lines_size: "text_size (lines_text s) = Inr (units s)"
proof -
  have "js_get (js_split LF s) (int (length (js_split LF s)) - 1) = Some (last (js_split LF s))"
    by (simp add: js_get_def last_conv_nth nat_diff_distrib Suc_le_eq)
  then show ?thesis
    using line_count [of s] last_line_length [of s] by (simp add: lbt_length_def line_content_def text_length_eq)
qed

interpretation lines_text: text_content "lines_text s" s for s
  by unfold_locales (simp_all only: lines_value_between lines_size)

text \<open>The texts with a given content.\<close>

definition has_content :: "jsstring \<Rightarrow> abstract_text \<Rightarrow> bool" where
  "has_content s t \<longleftrightarrow> t = StringText s \<or> new_ArrayText (js_split LF s) = Inr t"

lemma has_content_text: "has_content s t \<Longrightarrow> text_content t s"
  using string_text.text_content_axioms lines_text.text_content_axioms by (auto simp: has_content_def new_ArrayText_lines)

end
