(* ===== verification/Text_Edit_Laws.thy ===== *)
theory Text_Edit_Laws
  imports Text_Content Offset_Edit_Laws
begin

text \<open>
  Laws of edits by positions. A text is cut into pieces, alternating what an edit keeps and what it replaces:
  \<open>piece_edits\<close> is the edit of such pieces, \<open>old_text\<close> and \<open>new_text\<close> are the text before and after it. Every valid edit
  of a text comes from pieces (\<open>valid_pieces\<close>), so applying, inverting and joining are lemmas on lists of pieces, in
  the contract \<open>text_content\<close>: they hold for a string and for an array of lines. Texts are shorter than the number that
  the code takes for the end of a line.
\<close>

section \<open>Pieces\<close>

text \<open>A piece is what is kept, what is replaced and what replaces it.\<close>

type_synonym piece = "jsstring \<times> jsstring \<times> jsstring"

fun old_text :: "piece list \<Rightarrow> jsstring" where
  "old_text [] = []"
| "old_text ((g, o', n) # xs) = g @ o' @ old_text xs"

fun new_text :: "piece list \<Rightarrow> jsstring" where
  "new_text [] = []"
| "new_text ((g, o', n) # xs) = g @ n @ new_text xs"

fun piece_edits :: "jsstring \<Rightarrow> piece list \<Rightarrow> text_edit" where
  "piece_edits pre [] = []"
| "piece_edits pre ((g, o', n) # xs) =
     new_SingleTextEdit (range_between (pos_after (pre @ g)) (pos_after (pre @ g @ o'))) n # piece_edits (pre @ g @ o') xs"

definition swap_piece :: "piece \<Rightarrow> piece" where
  "swap_piece = (\<lambda>(g, o', n). (g, n, o'))"

lemma swap_texts: "old_text (map swap_piece xs) = new_text xs" "new_text (map swap_piece xs) = old_text xs"
  by (induction xs) (auto simp: swap_piece_def)

lemma piece_ends:
  "te_start (new_SingleTextEdit (range_between (pos_after a) (pos_after (a @ b))) n) = pos_after a"
  "te_end (new_SingleTextEdit (range_between (pos_after a) (pos_after (a @ b))) n) = pos_after (a @ b)"
  "te_text (new_SingleTextEdit r n) = n" "te_range (new_SingleTextEdit r n) = r"
  using range_between_ends [OF pos_after_le [of a b]] by (simp_all add: new_SingleTextEdit_def)

context text_content
begin

lemma apply_pieces:
  "short s \<Longrightarrow> s = pre @ old_text xs @ rest \<Longrightarrow> te_apply_loop (pos_after pre) (piece_edits pre xs) t = Inr (new_text xs @ rest)"
proof (induction xs arbitrary: pre)
  case Nil
  then show ?case
    using between [of pre rest "[]"] by (simp add: end_position)
next
  case (Cons x xs)
  obtain g o' n where x: "x = (g, o', n)"
    by (cases x)
  show ?case
    using Cons.IH [of "pre @ g @ o'"] Cons.prems between [of pre g "o' @ old_text xs @ rest"]
      piece_ends(1,2) [of "pre @ g" o' n]
    by (simp add: x piece_ends(3))
qed

lemma apply_text_pieces:
  assumes "short s" and "s = old_text xs @ rest"
  shows "te_apply t (piece_edits [] xs) = Inr (new_text xs @ rest)"
proof -
  have "pos_after [] = new_Position 1 1"
    by (simp add: position_eq pos_after_sel)
  then show ?thesis
    using apply_pieces [of "[]" xs rest] assms by (simp add: te_apply_def)
qed

lemma inverse_pieces:
  "s = pre @ old_text xs @ rest \<Longrightarrow>
     inverse_edits t (piece_edits pre xs) (map te_range (piece_edits pre' (map swap_piece xs))) =
       Inr (piece_edits pre' (map swap_piece xs))"
proof (induction xs arbitrary: pre pre')
  case (Cons x xs)
  obtain g o' n where x: "x = (g, o', n)"
    by (cases x)
  show ?case
    using Cons.IH [of "pre @ g @ o'" "pre' @ g @ n"] Cons.prems value_between [of "pre @ g" o' "old_text xs @ rest"]
    by (simp add: x piece_ends(3,4) swap_piece_def)
qed simp

lemma join_text_pieces:
  "xs \<noteq> [] \<Longrightarrow> s = pre @ old_text xs @ rest \<Longrightarrow> join_text (piece_edits pre xs) t = Inr (drop (length (fst (hd xs))) (new_text xs))"
proof (induction xs arbitrary: pre)
  case (Cons x xs)
  obtain g o' n where x: "x = (g, o', n)"
    by (cases x)
  show ?case
  proof (cases xs)
    case Nil
    then show ?thesis
      by (simp add: x piece_ends(3))
  next
    case (Cons y ys)
    obtain g' o'' n' where y: "y = (g', o'', n')"
      by (cases y)
    let ?pre = "pre @ g @ o'"
    have "getValueOfRange (range_between (pos_after ?pre) (pos_after (?pre @ g'))) t = Inr g'"
      using value_between [of ?pre g' "o'' @ old_text ys @ rest"] Cons.prems(2) by (simp add: x y Cons)
    moreover have "join_text (piece_edits ?pre xs) t = Inr (n' @ new_text ys)"
      using Cons.IH [of ?pre] Cons.prems(2) by (simp add: x y Cons)
    ultimately show ?thesis
      using piece_ends(1,2) [of "pre @ g" o' n] piece_ends(1) [of "?pre @ g'" o'' n']
      by (simp add: x y Cons piece_ends(3))
  qed
qed simp

end

text \<open>Valid edits: ranges with both ends in the text, each before the next.\<close>

definition valid_text_edit :: "jsstring \<Rightarrow> text_edit \<Rightarrow> bool" where
  "valid_text_edit t edits \<longleftrightarrow> edits_in_order edits \<and>
     (\<forall>e \<in> set edits. text_position t (te_start e) \<and> text_position t (te_end e) \<and> isBeforeOrEqual (te_start e) (te_end e))"

lemma pos_after_take_le:
  assumes "pos_after (take k t) \<le> pos_after (take l t)" and "k \<le> length t"
  shows "k \<le> l"
proof (rule ccontr)
  assume "\<not> k \<le> l"
  then have "take k t = take l t @ take (k - l) (drop l t)" "take (k - l) (drop l t) \<noteq> []"
    using assms(2) by (simp_all flip: take_add)
  then show False
    using pos_after_less [of "take (k - l) (drop l t)" "take l t"] assms(1) by simp
qed

lemma new_edit_id: "new_SingleTextEdit (te_range e) (te_text e) = e"
  by (simp add: new_SingleTextEdit_def)

lemma pieces_exist:
  assumes "valid_text_edit t edits" and "k \<le> length t" and "\<forall>e es. edits = e # es \<longrightarrow> pos_after (take k t) \<le> te_start e"
  shows "\<exists>xs rest. t = take k t @ old_text xs @ rest \<and> edits = piece_edits (take k t) xs"
  using assms
proof (induction edits arbitrary: k)
  case Nil
  have "t = take k t @ old_text [] @ drop k t \<and> [] = piece_edits (take k t) []"
    by simp
  then show ?case
    by blast
next
  case (Cons e es)
  then have e: "text_position t (te_start e)" "text_position t (te_end e)" "te_start e \<le> te_end e"
    by (simp_all add: valid_text_edit_def isBeforeOrEqual_le)
  obtain a b where a: "a \<le> length t" "te_start e = pos_after (take a t)" and b: "b \<le> length t" "te_end e = pos_after (take b t)"
    using text_position_after [OF e(1)] text_position_after [OF e(2)] by blast
  have le: "k \<le> a" "a \<le> b"
    using pos_after_take_le [of k t a] pos_after_take_le [of a t b] Cons.prems(2,3) a b e(3) by simp_all
  have "valid_text_edit t es" "\<forall>f fs. es = f # fs \<longrightarrow> pos_after (take b t) \<le> te_start f"
    using Cons.prems(1) b(2) by (cases es; simp add: valid_text_edit_def edits_in_order_def isBeforeOrEqual_le)+
  then obtain xs rest where xs: "t = take b t @ old_text xs @ rest" "es = piece_edits (take b t) xs"
    using Cons.IH [OF _ b(1)] by blast
  let ?g = "take (a - k) (drop k t)" and ?o = "take (b - a) (drop a t)"
  have g: "take k t @ ?g = take a t" and o: "take a t @ ?o = take b t"
    using le by (simp_all flip: take_add)
  have "te_range e = range_between (pos_after (take k t @ ?g)) (pos_after (take k t @ ?g @ ?o))"
    using range_between_id [of "te_range e"] a(2) b(2) e(3) g o by (simp add: range_ok_def flip: append_assoc)
  then have "e # es = piece_edits (take k t) ((?g, ?o, te_text e) # xs)"
    using xs(2) new_edit_id [of e] g o by (simp flip: append_assoc)
  moreover have "t = take k t @ old_text ((?g, ?o, te_text e) # xs) @ rest"
    using xs(1) g o by (simp flip: append_assoc)
  ultimately show ?case
    by blast
qed

lemma valid_pieces:
  assumes "valid_text_edit t edits"
  obtains xs rest where "t = old_text xs @ rest" "edits = piece_edits [] xs"
proof -
  have "\<forall>e es. edits = e # es \<longrightarrow> pos_after (take 0 t) \<le> te_start e"
    using assms by (auto simp: valid_text_edit_def text_position_def position_le pos_after_sel)
  then show ?thesis
    using pieces_exist [OF assms, of 0] that by auto
qed

section \<open>Edits by offsets and edits by positions\<close>

lemma range_of_offsets:
  assumes "a \<le> b" and "b \<le> length t"
  shows "pt_getRange \<lparr>or_start = int a, or_endExclusive = int b\<rparr> (new_PositionOffsetTransformer t) =
    Some (range_between (pos_after (take a t)) (pos_after (take b t)))"
  using assms by (simp add: pt_getRange_def pt_getPosition_after)

lemma offset_pieces:
  "fits (int k) es (int (length t)) \<Longrightarrow>
     \<exists>xs rest. drop k t = old_text xs @ rest \<and> apply_loop t (int k) es = new_text xs @ rest \<and>
       ranges_of_edits (new_PositionOffsetTransformer t) es = Some (piece_edits (take k t) xs)"
proof (induction es arbitrary: k)
  case Nil
  then show ?case
    by (intro exI [of _ "[]"] exI [of _ "drop k t"]) (simp add: js_simps)
next
  case (Cons e es)
  define a b where "a = nat (edit_start e)" and "b = nat (edit_end e)"
  have ends: "edit_start e = int a" "edit_end e = int b" "k \<le> a" "a \<le> b" "b \<le> length t"
    using fits_bounds [OF Cons.prems] by (auto simp: a_def b_def)
  obtain xs rest where xs: "drop b t = old_text xs @ rest" "apply_loop t (int b) es = new_text xs @ rest"
      "ranges_of_edits (new_PositionOffsetTransformer t) es = Some (piece_edits (take b t) xs)"
    using Cons.IH [of b] Cons.prems ends(2) by auto
  let ?g = "take (a - k) (drop k t)" and ?o = "take (b - a) (drop a t)"
  have g: "take k t @ ?g = take a t" and o: "take a t @ ?o = take b t" and d: "drop k t = ?g @ drop a t" "drop a t = ?o @ drop b t"
    using ends(3,4) append_take_drop_id [of "a - k" "drop k t"] append_take_drop_id [of "b - a" "drop a t"] by (simp_all flip: take_add)
  have "replaceRange e = \<lparr>or_start = int a, or_endExclusive = int b\<rparr>"
    using ends(1,2) by (cases "replaceRange e") simp
  then have "ranges_of_edits (new_PositionOffsetTransformer t) (e # es) = Some (piece_edits (take k t) ((?g, ?o, newText e) # xs))"
    using range_of_offsets [OF ends(4,5)] xs(3) g o by (simp flip: append_assoc)
  moreover have "drop k t = old_text ((?g, ?o, newText e) # xs) @ rest"
    using d xs(1) by simp
  moreover have "apply_loop t (int k) (e # es) = new_text ((?g, ?o, newText e) # xs) @ rest"
    using xs(2) ends by (simp add: js_simps nat_diff_distrib)
  ultimately show ?case
    by blast
qed

text \<open>
  C24: edits by positions implement edits by offsets. An edit by offsets of a text becomes an edit by positions, and
  applying it to the text, held as a string or as an array of lines, throws nothing and gives the same result as
  applying the edit by offsets to the string.
\<close>

theorem position_edit_refines_offset_edit:
  assumes "has_content s t" and "fits 0 edit (int (length s))" and "short s"
  shows "\<exists>edits. te_fromOffsetEdit edit t = Inr (Some edits) \<and> te_apply t edits = Inr (oe_apply edit s)"
proof -
  note content = has_content_text [OF assms(1)]
  obtain xs rest where xs: "s = old_text xs @ rest" "apply_loop s 0 edit = new_text xs @ rest"
      "ranges_of_edits (new_PositionOffsetTransformer s) edit = Some (piece_edits [] xs)"
    using offset_pieces [of 0 edit s] assms(2) by auto
  have "te_apply t (piece_edits [] xs) = Inr (oe_apply edit s)"
    using text_content.apply_text_pieces [OF content assms(3) xs(1)] xs(2) by (simp add: oe_apply_def)
  then show ?thesis
    using xs(3) by (simp add: te_fromOffsetEdit_def text_content.transformer [OF content])
qed

theorem position_edit_refines_offset_edit_witness:
  "\<exists>edits. te_fromOffsetEdit [new_SingleOffsetEdit \<lparr>or_start = 1, or_endExclusive = 3\<rparr> (js ''x'')]
      (lines_text (js ''ab'' @ [LF] @ js ''c'')) = Inr (Some edits) \<and>
    te_apply (lines_text (js ''ab'' @ [LF] @ js ''c'')) edits = Inr (js ''axc'')"
proof -
  have "oe_apply [new_SingleOffsetEdit \<lparr>or_start = 1, or_endExclusive = 3\<rparr> (js ''x'')] (js ''ab'' @ [LF] @ js ''c'') = js ''axc''"
    by (simp add: new_SingleOffsetEdit_def oe_apply_def js_simps)
  moreover have "has_content (js ''ab'' @ [LF] @ js ''c'') (lines_text (js ''ab'' @ [LF] @ js ''c''))"
    unfolding has_content_def by (rule disjI2) (rule new_ArrayText_lines)
  ultimately show ?thesis
    using position_edit_refines_offset_edit [of "js ''ab'' @ [LF] @ js ''c''" _
        "[new_SingleOffsetEdit \<lparr>or_start = 1, or_endExclusive = 3\<rparr> (js ''x'')]"]
    by (simp add: short_def new_SingleOffsetEdit_def)
qed

section \<open>Inverses\<close>

lemma new_range_of_piece:
  assumes "no_pairs n"
  shows "tl_createRange (pos_after a) (ofText n) = range_between (pos_after a) (pos_after (a @ n))"
  using assms by (simp add: ofText_units createRange_after)

text \<open>
  Where the code is after a piece: \<open>line\<close> is the line of the last end, and the offsets are the differences between the
  ends in the new and in the old text.
\<close>

definition tracks :: "jsstring \<Rightarrow> jsstring \<Rightarrow> int \<Rightarrow> int \<Rightarrow> int \<Rightarrow> bool" where
  "tracks pre pre' line lineOffset columnOffset \<longleftrightarrow>
     lineOffset = lineNumber (pos_after pre') - lineNumber (pos_after pre) \<and> line \<le> lineNumber (pos_after pre) \<and>
     (if lineNumber (pos_after pre) = line then columnOffset else 0) = column (pos_after pre') - column (pos_after pre)"

lemma tracks_gap:
  assumes "tracks pre pre' line lineOffset columnOffset" and "p = pos_after (pre @ g)"
  shows "new_Position (lineNumber p + lineOffset) (column p + (if lineNumber p = line then columnOffset else 0)) = pos_after (pre' @ g)"
  using assms units_lines [of g] by (auto simp: tracks_def position_eq pos_after_append addToPosition_def)

lemma new_ranges_pieces:
  "tracks pre pre' line lineOffset columnOffset \<Longrightarrow> \<forall>(g, o', n) \<in> set xs. no_pairs n \<Longrightarrow>
     new_ranges_loop line lineOffset columnOffset (piece_edits pre xs) = map te_range (piece_edits pre' (map swap_piece xs))"
proof (induction xs arbitrary: pre pre' line lineOffset columnOffset)
  case (Cons x xs)
  obtain g o' n where x: "x = (g, o', n)"
    by (cases x)
  let ?r = "range_between (pos_after (pre @ g)) (pos_after (pre @ g @ o'))"
  have ends: "startLineNumber ?r = lineNumber (pos_after (pre @ g))" "startColumn ?r = column (pos_after (pre @ g))"
      "endLineNumber ?r = lineNumber (pos_after (pre @ g @ o'))" "endColumn ?r = column (pos_after (pre @ g @ o'))"
    using range_between_ends [OF pos_after_le [of "pre @ g" o']] rstart_sel [of ?r] rend_sel [of ?r] by simp_all
  let ?r' = "range_between (pos_after (pre' @ g)) (pos_after (pre' @ g @ n))"
  have ends': "endLineNumber ?r' = lineNumber (pos_after (pre' @ g @ n))" "endColumn ?r' = column (pos_after (pre' @ g @ n))"
    using range_between_ends [OF pos_after_le [of "pre' @ g" n]] rend_sel [of ?r'] by simp_all
  have "tl_createRange (pos_after (pre' @ g)) (ofText n) = ?r'"
    using new_range_of_piece [of n "pre' @ g"] Cons.prems(2) by (simp add: x)
  moreover have "tracks (pre @ g @ o') (pre' @ g @ n) (endLineNumber ?r) (endLineNumber ?r' - endLineNumber ?r) (endColumn ?r' - endColumn ?r)"
    by (simp add: tracks_def ends ends')
  ultimately show ?case
    using Cons.IH [of "pre @ g @ o'" "pre' @ g @ n"] Cons.prems(2) tracks_gap [OF Cons.prems(1) refl, of g]
    by (simp add: x piece_ends(3,4) ends(1,2) swap_piece_def Let_def)
qed simp

lemma pieces_plain: "\<forall>e \<in> set (piece_edits pre xs). no_pairs (te_text e) \<Longrightarrow> \<forall>(g, o', n) \<in> set xs. no_pairs n"
  by (induction pre xs rule: piece_edits.induct) (auto simp: piece_ends(3))

text \<open>
  C25: the inverse reverts an edit. A valid edit of a text, held as a string or as an array of lines, applies without an
  exception and has an inverse; when the inserted texts have no surrogate pairs, applying the inverse to the edited text
  gives the original text back, over any number of lines.
\<close>

theorem inverse_position_edit_reverts:
  assumes "has_content s t" and "valid_text_edit s edits" and "\<forall>e \<in> set edits. no_pairs (te_text e)" and "short s"
  shows "\<exists>s' inv. te_apply t edits = Inr s' \<and> te_inverse t edits = Inr inv \<and>
    (short s' \<longrightarrow> applyToString s' inv = Inr s)"
proof -
  note content = has_content_text [OF assms(1)]
  obtain xs rest where xs: "s = old_text xs @ rest" "edits = piece_edits [] xs"
    using valid_pieces [OF assms(2)] .
  have "te_apply t edits = Inr (new_text xs @ rest)"
    using text_content.apply_text_pieces [OF content assms(4) xs(1)] xs(2) by simp
  moreover have "\<forall>(g, o', n) \<in> set xs. no_pairs n"
    using assms(3) by (simp add: xs(2) pieces_plain)
  moreover have "tracks [] [] 0 0 0"
    by (simp add: tracks_def pos_after_sel)
  ultimately have "te_inverse t edits = Inr (piece_edits [] (map swap_piece xs))"
    using text_content.inverse_pieces [OF content, of "[]" xs rest "[]"] new_ranges_pieces [of "[]" "[]" 0 0 0 xs] xs
    by (simp add: te_inverse_def getNewRanges_def)
  moreover have "applyToString (new_text xs @ rest) (piece_edits [] (map swap_piece xs)) = Inr s" if "short (new_text xs @ rest)"
    using string_text.apply_text_pieces [OF that, of "map swap_piece xs" rest] xs(1) by (simp add: applyToString_def swap_texts)
  ultimately show ?thesis
    using \<open>te_apply t edits = Inr (new_text xs @ rest)\<close> by blast
qed

text \<open>Joining two lines and inserting two.\<close>

abbreviation (input) two_lines :: jsstring where
  "two_lines \<equiv> [97, 98, LF, 99]"

lemma two_lines_text: "has_content two_lines (StringText two_lines)" "short two_lines"
  by (simp_all add: has_content_def short_def)

theorem inverse_position_edit_reverts_witness:
  "\<exists>s' inv. te_apply (StringText two_lines) [new_SingleTextEdit (new_Range 1 1 1 1) [120, LF], new_SingleTextEdit (new_Range 1 3 2 1) [121]] = Inr s' \<and>
    te_inverse (StringText two_lines) [new_SingleTextEdit (new_Range 1 1 1 1) [120, LF], new_SingleTextEdit (new_Range 1 3 2 1) [121]] = Inr inv \<and>
    (short s' \<longrightarrow> applyToString s' inv = Inr two_lines)"
proof (rule inverse_position_edit_reverts [OF two_lines_text(1) _ _ two_lines_text(2)])
  show "valid_text_edit two_lines [new_SingleTextEdit (new_Range 1 1 1 1) [120, LF], new_SingleTextEdit (new_Range 1 3 2 1) [121]]"
    by (simp add: valid_text_edit_def edits_in_order_def new_SingleTextEdit_def new_Range_def getStartPosition_def getEndPosition_def
      isBeforeOrEqual_def text_position_def)
qed (simp_all add: new_SingleTextEdit_def no_pairs_def high_surrogate_def)

text \<open>
  the inverse of an edit that inserts a surrogate pair does not revert it. \<open>TextLength.ofText\<close> counts the pair as
  one column where positions count two, so the inverse of inserting a pair into an empty text leaves half of it.
\<close>

theorem inverse_splits_surrogate_pair:
  "applyToString [] (te_insert (new_Position 1 1) [55357, 56832]) = Inr [55357, 56832] \<and>
   te_inverse (StringText []) (te_insert (new_Position 1 1) [55357, 56832]) = Inr (te_single (new_Range 1 1 1 2) []) \<and>
   applyToString [55357, 56832] (te_single (new_Range 1 1 1 2) []) = Inr [56832]"
  by code_simp

section \<open>Joining edits\<close>

lemma last_piece_end: "xs \<noteq> [] \<Longrightarrow> te_end (last (piece_edits pre xs)) = pos_after (pre @ old_text xs)"
proof (induction xs arbitrary: pre)
  case (Cons x xs)
  obtain g o' n where x: "x = (g, o', n)"
    by (cases x)
  then show ?case
    using Cons.IH [of "pre @ g @ o'"] piece_ends(2) [of "pre @ g" o' n] by (cases xs) auto
qed simp

text \<open>
  joining edits keeps their effect. \<open>joinEdits\<close> and \<open>toSingle\<close> make of the edits of a valid edit one edit, from the
  start of the first to the end of the last, that has the same effect.
\<close>

theorem joined_edit_same_effect:
  assumes "has_content s t" and "valid_text_edit s edits" and "edits \<noteq> []" and "short s"
  shows "\<exists>e s'. ste_joinEdits edits t = Inr e \<and> te_toSingle t edits = Inr e \<and>
    te_start e = te_start (hd edits) \<and> te_end e = te_end (last edits) \<and>
    te_apply t edits = Inr s' \<and> te_apply t (ste_toEdit e) = Inr s'"
proof -
  note content = has_content_text [OF assms(1)]
  obtain xs rest where xs: "s = old_text xs @ rest" "edits = piece_edits [] xs"
    using valid_pieces [OF assms(2)] .
  obtain g o' n ys where ys: "xs = (g, o', n) # ys"
    using assms(3) xs(2) by (cases xs) auto
  let ?joined = "[(g, o' @ old_text ys, n @ new_text ys)]"
  let ?e = "hd (piece_edits [] ?joined)"
  have e: "?e = new_SingleTextEdit (range_between (pos_after g) (pos_after (g @ o' @ old_text ys))) (n @ new_text ys)"
    by simp
  have first: "te_start (hd edits) = pos_after g"
    using piece_ends(1) [of g o' n] by (simp add: xs(2) ys)
  have "ste_joinEdits edits t = Inr ?e \<and> te_toSingle t edits = Inr ?e"
  proof (cases ys)
    case Nil
    then show ?thesis
      by (simp add: xs(2) ys ste_joinEdits_def te_toSingle_def)
  next
    case (Cons y zs)
    then have "edits = hd edits # hd (tl edits) # tl (tl edits)"
      by (cases y) (simp add: xs(2) ys)
    moreover have "join_text edits t = Inr (n @ new_text ys)"
      using text_content.join_text_pieces [OF content, of xs "[]" rest] xs by (simp add: ys)
    moreover have "te_end (last edits) = pos_after (g @ o' @ old_text ys)"
      using last_piece_end [of xs "[]"] by (simp add: xs(2) ys)
    ultimately show ?thesis
      unfolding e ste_joinEdits_def te_toSingle_def using first by (auto split: list.splits)
  qed
  moreover have "te_apply t (ste_toEdit ?e) = Inr (new_text xs @ rest)"
    using text_content.apply_text_pieces [OF content assms(4), of ?joined rest] xs(1) by (simp add: ys ste_toEdit_def)
  moreover have "te_end ?e = te_end (last edits)"
    using last_piece_end [of xs "[]"] piece_ends(2) [of g "o' @ old_text ys"] by (simp add: xs(2) ys e)
  ultimately show ?thesis
    using text_content.apply_text_pieces [OF content assms(4) xs(1)] xs first piece_ends(1) [of g "o' @ old_text ys"] e by metis
qed

theorem joined_edit_same_effect_witness:
  "\<exists>e s'. ste_joinEdits [new_SingleTextEdit (new_Range 1 1 1 1) [120], new_SingleTextEdit (new_Range 1 3 2 1) [121]]
      (StringText two_lines) = Inr e \<and>
    te_apply (StringText two_lines) [new_SingleTextEdit (new_Range 1 1 1 1) [120], new_SingleTextEdit (new_Range 1 3 2 1) [121]] = Inr s' \<and>
    te_apply (StringText two_lines) (ste_toEdit e) = Inr s'"
proof -
  have "valid_text_edit two_lines [new_SingleTextEdit (new_Range 1 1 1 1) [120], new_SingleTextEdit (new_Range 1 3 2 1) [121]]"
    by (simp add: valid_text_edit_def edits_in_order_def new_SingleTextEdit_def new_Range_def getStartPosition_def getEndPosition_def
      isBeforeOrEqual_def text_position_def)
  then show ?thesis
    using joined_edit_same_effect [OF two_lines_text(1), of "[new_SingleTextEdit (new_Range 1 1 1 1) [120], new_SingleTextEdit (new_Range 1 3 2 1) [121]]"]
    using two_lines_text(2) by auto
qed

section \<open>Normalising\<close>

text \<open>What \<open>normalize\<close> does on pieces; the second argument is what is kept since the last edit.\<close>

fun normal_pieces :: "piece list \<Rightarrow> jsstring \<Rightarrow> piece list \<Rightarrow> piece list \<times> jsstring" where
  "normal_pieces ys h [] = (ys, h)"
| "normal_pieces ys h ((g, o', n) # xs) =
     (if ys \<noteq> [] \<and> h @ g = []
      then normal_pieces (butlast ys @ [(fst (last ys), fst (snd (last ys)) @ o', snd (snd (last ys)) @ n)]) [] xs
      else if o' = [] \<and> n = [] then normal_pieces ys (h @ g) xs
      else normal_pieces (ys @ [(h @ g, o', n)]) [] xs)"

lemma texts_append: "old_text (xs @ ys) = old_text xs @ old_text ys" "new_text (xs @ ys) = new_text xs @ new_text ys"
  by (induction xs) auto

lemma piece_edits_append: "piece_edits pre (xs @ ys) = piece_edits pre xs @ piece_edits (pre @ old_text xs) ys"
  by (induction pre xs rule: piece_edits.induct) simp_all

lemma plusRange_between: "plusRange (range_between (pos_after a) (pos_after (a @ b))) (range_between (pos_after (a @ b)) (pos_after (a @ b @ c))) =
    range_between (pos_after a) (pos_after (a @ b @ c))"
proof (rule range_eqI)
  have le: "pos_after a \<le> pos_after (a @ b)" "pos_after (a @ b) \<le> pos_after (a @ b @ c)" "pos_after a \<le> pos_after (a @ b @ c)"
    using pos_after_le [of a b] pos_after_le [of "a @ b" c] pos_after_le [of a "b @ c"] by simp_all
  then have ok: "range_ok (range_between (pos_after a) (pos_after (a @ b)))" "range_ok (range_between (pos_after (a @ b)) (pos_after (a @ b @ c)))"
    by (simp_all add: range_ok_def range_between_ends)
  show "rstart (plusRange (range_between (pos_after a) (pos_after (a @ b))) (range_between (pos_after (a @ b)) (pos_after (a @ b @ c)))) =
      rstart (range_between (pos_after a) (pos_after (a @ b @ c)))"
    using le plusRange_ends(1) [OF ok] by (simp add: range_between_ends min_absorb1)
  show "rend (plusRange (range_between (pos_after a) (pos_after (a @ b))) (range_between (pos_after (a @ b)) (pos_after (a @ b @ c)))) =
      rend (range_between (pos_after a) (pos_after (a @ b @ c)))"
    using le plusRange_ends(2) [OF ok] by (simp add: range_between_ends max_absorb2)
qed

lemma pos_after_same: "pos_after (a @ b) = pos_after a \<longleftrightarrow> b = []"
  using pos_after_less [of b a] by (cases "b = []") auto

lemma pos_equals_eq: "pos_equals (Some p) (Some q) \<longleftrightarrow> p = q"
  by (auto simp: pos_equals_def position_eq)

lemma piece_isEmpty:
  "ste_isEmpty (new_SingleTextEdit (range_between (pos_after a) (pos_after (a @ b))) n) \<longleftrightarrow> b = [] \<and> n = []"
  using range_between_ends [OF pos_after_le [of a b]] pos_after_same [of a b]
  by (auto simp: ste_isEmpty_def piece_ends(3,4) range_isEmpty_order)

lemma normalize_loop_pieces:
  "te_normalize_loop (piece_edits pre ys) (piece_edits (pre @ old_text ys @ h) xs) = piece_edits pre (fst (normal_pieces ys h xs))"
proof (induction ys h xs rule: normal_pieces.induct)
  case (2 ys h g o' n xs)
  let ?e = "new_SingleTextEdit (range_between (pos_after (pre @ old_text ys @ h @ g)) (pos_after (pre @ old_text ys @ h @ g @ o'))) n"
  have e: "te_start ?e = pos_after (pre @ old_text ys @ h @ g)" "ste_isEmpty ?e \<longleftrightarrow> o' = [] \<and> n = []"
    using piece_ends(1) [of "pre @ old_text ys @ h @ g" o'] piece_isEmpty [of "pre @ old_text ys @ h @ g" o'] by simp_all
  have last: "ys \<noteq> [] \<Longrightarrow> pos_equals (Some (te_end (last (piece_edits pre ys)))) (Some (te_start ?e)) \<longleftrightarrow> h @ g = []"
    using last_piece_end [of ys pre] pos_after_same [of "pre @ old_text ys" "h @ g"] by (auto simp: pos_equals_eq e(1))
  have empty: "piece_edits pre ys = [] \<longleftrightarrow> ys = []"
    by (cases ys) auto
  show ?case
  proof (cases "ys \<noteq> [] \<and> h @ g = []")
    case True
    then obtain zs gl ol nl where ys: "ys = zs @ [(gl, ol, nl)]"
      by (cases ys rule: rev_cases) auto
    let ?P = "pre @ old_text zs"
    have "plusRange (range_between (pos_after (?P @ gl)) (pos_after (?P @ gl @ ol))) (te_range ?e) =
        range_between (pos_after (?P @ gl)) (pos_after (?P @ gl @ ol @ o'))"
      using plusRange_between [of "?P @ gl" ol o'] True by (simp add: ys texts_append piece_ends(4))
    then show ?thesis
      using "2.IH"(1) [OF True] True last empty e(2)
      by (simp add: ys texts_append piece_edits_append piece_ends(3,4))
  next
    case False
    then have "\<not> (piece_edits pre ys \<noteq> [] \<and> pos_equals (Some (te_end (last (piece_edits pre ys)))) (Some (te_start ?e)))"
      using last empty by blast
    then show ?thesis
      using "2.IH"(2,3) [OF False] False e(2) by (auto simp: texts_append piece_edits_append)
  qed
qed simp

lemma normal_pieces_texts:
  "old_text (fst (normal_pieces ys h xs)) @ snd (normal_pieces ys h xs) = old_text ys @ h @ old_text xs \<and>
   new_text (fst (normal_pieces ys h xs)) @ snd (normal_pieces ys h xs) = new_text ys @ h @ new_text xs"
proof (induction ys h xs rule: normal_pieces.induct)
  case (2 ys h g o' n xs)
  show ?case
  proof (cases "ys \<noteq> [] \<and> h @ g = []")
    case True
    then obtain zs gl ol nl where "ys = zs @ [(gl, ol, nl)]"
      by (cases ys rule: rev_cases) auto
    with True "2.IH"(1) [OF True] show ?thesis
      by (simp add: texts_append)
  next
    case False
    then show ?thesis
      using "2.IH"(2,3) [OF False] by (auto simp: texts_append)
  qed
qed simp

text \<open>No empty pieces, and something kept between two of them.\<close>

definition pieces_normal :: "piece list \<Rightarrow> bool" where
  "pieces_normal xs \<longleftrightarrow> (\<forall>(g, o', n) \<in> set xs. o' \<noteq> [] \<or> n \<noteq> []) \<and> (\<forall>(g, o', n) \<in> set (tl xs). g \<noteq> [])"

lemma normal_pieces_normal: "pieces_normal ys \<Longrightarrow> pieces_normal (fst (normal_pieces ys h xs))"
proof (induction ys h xs rule: normal_pieces.induct)
  case (2 ys h g o' n xs)
  show ?case
  proof (cases "ys \<noteq> [] \<and> h @ g = []")
    case True
    then obtain zs gl ol nl where ys: "ys = zs @ [(gl, ol, nl)]"
      by (cases ys rule: rev_cases) auto
    then have "pieces_normal (zs @ [(gl, ol @ o', nl @ n)])"
      using "2.prems" by (cases zs) (auto simp: pieces_normal_def)
    with True "2.IH"(1) [OF True] ys show ?thesis
      by simp
  next
    case False
    have "pieces_normal (ys @ [(h @ g, o', n)])" if "\<not> (o' = [] \<and> n = [])"
      using "2.prems" False that by (cases ys) (auto simp: pieces_normal_def)
    then show ?thesis
      using "2.IH"(2,3) [OF False] "2.prems" False by auto
  qed
qed simp

lemma normal_edits:
  "pieces_normal xs \<Longrightarrow> (\<forall>e \<in> set (piece_edits pre xs). \<not> ste_isEmpty e) \<and>
     sorted_wrt (\<lambda>a b. isBefore (te_end a) (te_start b)) (piece_edits pre xs) \<and>
     (\<forall>e \<in> set (piece_edits pre xs). pos_after pre \<le> te_start e \<and> (fst (hd xs) \<noteq> [] \<longrightarrow> pos_after pre < te_start e))"
proof (induction xs arbitrary: pre)
  case (Cons x xs)
  obtain g o' n where x: "x = (g, o', n)"
    by (cases x)
  have normal: "pieces_normal xs" "xs \<noteq> [] \<Longrightarrow> fst (hd xs) \<noteq> []"
    using Cons.prems by (cases xs; auto simp: pieces_normal_def)+
  let ?e = "new_SingleTextEdit (range_between (pos_after (pre @ g)) (pos_after (pre @ g @ o'))) n"
  have e: "te_start ?e = pos_after (pre @ g)" "te_end ?e = pos_after (pre @ g @ o')" "\<not> ste_isEmpty ?e"
    using piece_ends(1,2) [of "pre @ g" o' n] piece_isEmpty [of "pre @ g" o' n] Cons.prems by (auto simp: pieces_normal_def x)
  have later: "pos_after (pre @ g @ o') < te_start f" if "f \<in> set (piece_edits (pre @ g @ o') xs)" for f
    using Cons.IH [OF normal(1)] normal(2) that by (cases xs) auto
  have before: "pos_after pre \<le> pos_after (pre @ g)" "pos_after (pre @ g) \<le> pos_after (pre @ g @ o')" "g \<noteq> [] \<Longrightarrow> pos_after pre < pos_after (pre @ g)"
    using pos_after_le [of pre g] pos_after_le [of "pre @ g" o'] pos_after_less [of g pre] by simp_all
  show ?case
    using Cons.IH [OF normal(1), of "pre @ g @ o'"] e later before by (fastforce simp: x isBefore_less)
qed simp

text \<open>
  \<open>normalize\<close> joins touching edits and removes empty ones, and keeps the effect. Of a valid edit of a text it makes
  one without empty edits in which every edit ends strictly before the next one starts, and whose application gives the
  same text.
\<close>

theorem normalized_edit_same_effect:
  assumes "has_content s t" and "valid_text_edit s edits" and "short s"
  shows "(\<forall>e \<in> set (te_normalize edits). \<not> ste_isEmpty e) \<and>
    sorted_wrt (\<lambda>a b. isBefore (te_end a) (te_start b)) (te_normalize edits) \<and>
    (\<exists>s'. te_apply t edits = Inr s' \<and> te_apply t (te_normalize edits) = Inr s')"
proof -
  note content = has_content_text [OF assms(1)]
  obtain xs rest where xs: "s = old_text xs @ rest" "edits = piece_edits [] xs"
    using valid_pieces [OF assms(2)] .
  obtain ys h where ys: "normal_pieces [] [] xs = (ys, h)"
    by fastforce
  have edits: "te_normalize edits = piece_edits [] ys"
    using normalize_loop_pieces [of "[]" "[]" "[]" xs] by (simp add: te_normalize_def xs(2) ys)
  have "pieces_normal ys"
    using normal_pieces_normal [of "[]" "[]" xs] by (simp add: ys pieces_normal_def)
  moreover have "s = old_text ys @ (h @ rest)" "new_text ys @ (h @ rest) = new_text xs @ rest"
    using normal_pieces_texts [of "[]" "[]" xs] xs(1) by (simp_all add: ys flip: append_assoc)
  ultimately show ?thesis
    using normal_edits [of ys "[]"] text_content.apply_text_pieces [OF content assms(3), of xs rest]
      text_content.apply_text_pieces [OF content assms(3), of ys "h @ rest"] xs edits by metis
qed

theorem normalized_edit_same_effect_witness:
  "\<exists>s'. te_apply (StringText two_lines) [new_SingleTextEdit (new_Range 1 1 1 2) [], new_SingleTextEdit (new_Range 1 2 2 1) [121]] = Inr s' \<and>
    te_apply (StringText two_lines) (te_normalize [new_SingleTextEdit (new_Range 1 1 1 2) [], new_SingleTextEdit (new_Range 1 2 2 1) [121]]) = Inr s'"
proof -
  have "valid_text_edit two_lines [new_SingleTextEdit (new_Range 1 1 1 2) [], new_SingleTextEdit (new_Range 1 2 2 1) [121]]"
    by (simp add: valid_text_edit_def edits_in_order_def new_SingleTextEdit_def new_Range_def getStartPosition_def getEndPosition_def
      isBeforeOrEqual_def text_position_def)
  then show ?thesis
    using normalized_edit_same_effect [OF two_lines_text(1), of "[new_SingleTextEdit (new_Range 1 1 1 2) [], new_SingleTextEdit (new_Range 1 2 2 1) [121]]"]
    using two_lines_text(2) by auto
qed

end
