(* ===== verification/Text_Map.thy ===== *)
theory Text_Map
  imports Text_Edit_Laws
begin

text \<open>
  Carrying positions through an edit with \<open>TextEdit.mapPosition\<close>: it agrees with \<open>OffsetEdit.applyToOffset\<close> as long as
  the edits stay within lines, and is wrong about columns where they do not. The boundaries of \<open>AbstractText\<close>.
\<close>

section \<open>Edits within lines\<close>

definition within_line :: "jsstring \<Rightarrow> single_edit \<Rightarrow> bool" where
  "within_line t e \<longleftrightarrow> LF \<notin> set (js_substring t (edit_start e) (edit_end e)) \<and> LF \<notin> set (newText e) \<and> no_pairs (newText e)"

text \<open>The step of the loop over an edit that lies before the position.\<close>

lemma tracks_edit:
  assumes "tracks pre pre' (curLine - lineDelta) lineDelta columnDelta" and "LF \<notin> set o'" and "LF \<notin> set n"
    and start_def: "start = pos_after (pre @ g)" and stop_def: "stop = pos_after (pre @ g @ o')"
  shows "lineNumber stop = lineNumber start" and "tracks (pre @ g @ o') (pre' @ g @ n) (lineNumber stop + lineDelta - lineDelta) lineDelta
    ((if lineNumber start + lineDelta \<noteq> curLine then 0 else columnDelta) + (int (length n) - (column stop - column start)))"
proof -
  have stop: "stop = new_Position (lineNumber start) (column start + int (length o'))"
    using pos_after_append [of "pre @ g" o'] units_no_LF [OF assms(2)] by (simp add: start_def stop_def addToPosition_def)
  have new: "pos_after (pre' @ g @ n) = new_Position (lineNumber (pos_after (pre' @ g))) (column (pos_after (pre' @ g)) + int (length n))"
    using pos_after_append [of "pre' @ g" n] units_no_LF [OF assms(3)] by (simp add: addToPosition_def)
  have gap: "lineNumber (pos_after (pre' @ g)) = lineNumber start + lineDelta"
      "column (pos_after (pre' @ g)) = column start + (if lineNumber start = curLine - lineDelta then columnDelta else 0)"
    using tracks_gap [OF assms(1) refl, of g] by (simp_all add: start_def position_eq)
  show "lineNumber stop = lineNumber start"
    by (simp add: stop)
  have "lineNumber start = curLine - lineDelta \<longleftrightarrow> lineNumber start + lineDelta = curLine"
    by auto
  then show "tracks (pre @ g @ o') (pre' @ g @ n) (lineNumber stop + lineDelta - lineDelta) lineDelta
    ((if lineNumber start + lineDelta \<noteq> curLine then 0 else columnDelta) + (int (length n) - (column stop - column start)))"
    using gap by (simp add: tracks_def new stop flip: stop_def)
qed

text \<open>After the last edit before a position.\<close>

lemma map_position_rest:
  assumes "tracks (take j t) pre' (curLine - lineDelta) lineDelta columnDelta" and "j \<le> k"
  shows "map_position_loop (pos_after (take k t)) lineDelta curLine columnDelta [] =
    Inr (AtPosition (pos_after (pre' @ take (k - j) (drop j t))))"
proof -
  have "take k t = take j t @ take (k - j) (drop j t)"
    using assms(2) by (simp flip: take_add)
  moreover have "lineNumber (pos_after (take k t)) = curLine - lineDelta \<longleftrightarrow> lineNumber (pos_after (take k t)) + lineDelta = curLine"
    by auto
  ultimately show ?thesis
    using tracks_gap [OF assms(1), of "pos_after (take k t)" "take (k - j) (drop j t)"] by simp
qed

lemma pos_after_take_iff:
  assumes "k \<le> length t" and "l \<le> length t"
  shows "pos_after (take k t) \<le> pos_after (take l t) \<longleftrightarrow> k \<le> l" and "pos_after (take k t) < pos_after (take l t) \<longleftrightarrow> k < l"
proof -
  have le: "pos_after (take k t) \<le> pos_after (take l t) \<longleftrightarrow> k \<le> l" if "k \<le> length t" for k l
    using pos_after_take_le [of k t l] that pos_after_le [of "take k t" "take (l - k) (drop k t)"] by (auto simp flip: take_add)
  show "pos_after (take k t) \<le> pos_after (take l t) \<longleftrightarrow> k \<le> l"
    using le [OF assms(1)] .
  show "pos_after (take k t) < pos_after (take l t) \<longleftrightarrow> k < l"
    using le [OF assms(2), of k] by (metis linorder_not_le)
qed

lemma map_position_pieces:
  assumes "fits (int j) es (int (length t))" and "\<forall>e \<in> set es. within_line t e" and "k \<le> length t" and "j \<le> k"
    and "\<forall>e \<in> set es. \<not> (edit_start e = int k \<and> edit_end e = int k)"
    and "tracks (take j t) pre' (curLine - lineDelta) lineDelta columnDelta" and "short (pre' @ apply_loop t (int j) es)"
    and "ranges_of_edits (new_PositionOffsetTransformer t) es = Some edits" and "d = int (length pre') - int j"
  shows "\<exists>m l. map_position_loop (pos_after (take k t)) lineDelta curLine columnDelta edits = Inr m \<and>
    to_offset_loop (int k) d es = int l \<and> l \<le> length (pre' @ apply_loop t (int j) es) \<and>
    mapped_start m = pos_after (take l (pre' @ apply_loop t (int j) es))"
  using assms
proof (induction es arbitrary: j pre' curLine lineDelta columnDelta edits d)
  case Nil
  let ?l = "k + length pre' - j"
  have "take ?l (pre' @ apply_loop t (int j) []) = pre' @ take (k - j) (drop j t)"
    using Nil.prems(3,4) by (simp add: js_simps)
  moreover have "to_offset_loop (int k) d [] = int ?l" "?l \<le> length (pre' @ apply_loop t (int j) [])"
    using Nil.prems(3,4,9) by (simp_all add: of_nat_diff js_simps)
  ultimately show ?case
    using map_position_rest [OF Nil.prems(6,4)] Nil.prems(8) by (fastforce simp: mapped_start_def)
next
  case (Cons e es)
  define a b where "a = nat (edit_start e)" and "b = nat (edit_end e)"
  have ends: "edit_start e = int a" "edit_end e = int b" "j \<le> a" "a \<le> b" "b \<le> length t"
    using fits_bounds [OF Cons.prems(1)] by (auto simp: a_def b_def)
  let ?g = "take (a - j) (drop j t)" and ?o = "take (b - a) (drop a t)" and ?n = "newText e"
  have take_a: "take a t = take j t @ ?g" and take_b: "take b t = take j t @ ?g @ ?o"
    using ends(3,4) by (simp_all flip: take_add append_assoc)
  have within: "LF \<notin> set ?o" "LF \<notin> set ?n" "no_pairs ?n"
    using Cons.prems(2) ends by (auto simp: within_line_def js_simps nat_diff_distrib)
  have produced: "apply_loop t (int j) (e # es) = ?g @ ?n @ apply_loop t (int b) es"
    using ends by (simp add: js_simps nat_diff_distrib)
  have whole: "pre' @ apply_loop t (int j) (e # es) = (pre' @ ?g @ ?n) @ apply_loop t (int b) es"
    unfolding produced by simp
  have all_short: "short ((pre' @ ?g @ ?n) @ apply_loop t (int b) es)"
    using Cons.prems(7) unfolding whole .
  have "replaceRange e = \<lparr>or_start = int a, or_endExclusive = int b\<rparr>"
    using ends(1,2) by (cases "replaceRange e") simp
  then obtain rest where edits: "edits = new_SingleTextEdit (range_between (pos_after (take a t)) (pos_after (take b t))) ?n # rest"
      and rest: "ranges_of_edits (new_PositionOffsetTransformer t) es = Some rest"
    using Cons.prems(8) range_of_offsets [OF ends(4,5)] by (auto split: option.splits)
  let ?e = "hd edits"
  have te: "te_start ?e = pos_after (take a t)" "te_end ?e = pos_after (take b t)" "te_text ?e = ?n"
    using piece_ends(1,2) [of "take a t" ?o ?n] ends(4) edits by (simp_all add: piece_ends(3) flip: take_add)
  have lines: "startLineNumber (te_range ?e) = lineNumber (pos_after (take a t))" "endLineNumber (te_range ?e) = lineNumber (pos_after (take b t))"
    using te(1,2) rstart_sel(1) [of "te_range ?e"] rend_sel(1) [of "te_range ?e"] by simp_all
  have order: "isBeforeOrEqual (pos_after (take k t)) (te_start ?e) \<longleftrightarrow> k \<le> a" "isBefore (pos_after (take k t)) (te_end ?e) \<longleftrightarrow> k < b"
    using pos_after_take_iff [of k t a] pos_after_take_iff [of k t b] Cons.prems(3) ends(4,5)
    by (simp_all add: te isBeforeOrEqual_le isBefore_less)
  note gap = tracks_gap [OF Cons.prems(6) take_a [THEN arg_cong, of pos_after]]
  have cur: "lineNumber (pos_after (take a t)) = curLine - lineDelta \<longleftrightarrow> lineNumber (pos_after (take a t)) + lineDelta = curLine"
    by auto
  consider "k \<le> a" | "a < k" "k < b" | "a < k" "b \<le> k"
    by linarith
  then show ?case
  proof cases
    case 1
    let ?l = "k + length pre' - j"
    have "k = a \<Longrightarrow> a < b"
      using Cons.prems(5) ends by auto
    then have "to_offset_loop (int k) d (e # es) = int ?l"
      using 1 ends Cons.prems(4,9) by (auto simp: of_nat_diff)
    moreover have "take ?l (pre' @ apply_loop t (int j) (e # es)) = pre' @ take (k - j) (drop j t)"
      unfolding produced using 1 Cons.prems(3,4) ends by (simp add: min_absorb1)
    moreover have "?l \<le> length (pre' @ apply_loop t (int j) (e # es))"
      unfolding produced using 1 Cons.prems(3,4) ends by simp
    moreover have "map_position_loop (pos_after (take k t)) lineDelta curLine columnDelta edits =
        map_position_loop (pos_after (take k t)) lineDelta curLine columnDelta []"
      using 1 order(1) edits by (simp del: map_position_loop.simps(1))
    ultimately show ?thesis
      using map_position_rest [OF Cons.prems(6,4)] by (fastforce simp: mapped_start_def)
  next
    case 2
    let ?l = "a + length pre' - j"
    have "short (pre' @ ?g @ ?n)"
      using all_short by (simp add: short_def)
    then have range: "rangeFromPositions (pos_after (pre' @ ?g)) (pos_after (pre' @ ?g @ ?n)) =
        Inr (range_between (pos_after (pre' @ ?g)) (pos_after (pre' @ ?g @ ?n)))"
      using rangeFromPositions_after [of "pre' @ ?g" ?n] by simp
    have "addToPosition (pos_after (pre' @ ?g)) (ofText ?n) = pos_after (pre' @ ?g @ ?n)"
      using pos_after_append [of "pre' @ ?g" ?n] within(3) by (simp add: ofText_units)
    then have "map_position_loop (pos_after (take k t)) lineDelta curLine columnDelta edits =
        Inr (AtRange (range_between (pos_after (pre' @ ?g)) (pos_after (pre' @ ?g @ ?n))))"
      using 2 order gap range te edits cur by (simp add: Let_def del: map_position_loop.simps(1))
    moreover have "to_offset_loop (int k) d (e # es) = int ?l"
      using 2 ends Cons.prems(9) by (simp add: of_nat_diff)
    moreover have "?l \<le> length (pre' @ apply_loop t (int j) (e # es))"
      unfolding whole using ends by simp
    moreover have "take ?l (pre' @ apply_loop t (int j) (e # es)) = pre' @ ?g"
      unfolding produced using ends by simp
    ultimately show ?thesis
      using range_between_ends(1) [OF pos_after_le [of "pre' @ ?g" ?n]] by (fastforce simp: mapped_start_def)
  next
    case 3
    let ?delta = "(if lineNumber (te_start ?e) + lineDelta \<noteq> curLine then 0 else columnDelta) +
      (int (length ?n) - (column (te_end ?e) - column (te_start ?e)))"
    have size: "ofText ?n = new_TextLength 0 (int (length ?n))"
      using within by (simp add: ofText_units units_no_LF)
    note tracked = tracks_edit [OF Cons.prems(6) within(1,2), of _ ?g, folded take_a take_b, OF te(1,2)]
    have step: "map_position_loop (pos_after (take k t)) lineDelta curLine columnDelta edits =
        map_position_loop (pos_after (take k t)) lineDelta (lineNumber (te_end ?e) + lineDelta) ?delta rest"
      using 3 order te lines size tracked(1) edits by (simp add: Let_def del: map_position_loop.simps(1))
    have d: "to_offset_loop (int k) d (e # es) = to_offset_loop (int k) (int (length (pre' @ ?g @ ?n)) - int b) es"
    proof -
      have "to_offset_loop (int k) d (e # es) = to_offset_loop (int k) (d + (text_length e - or_length (replaceRange e))) es"
        using 3 ends(1,2) by simp
      moreover have "d + (text_length e - or_length (replaceRange e)) = int (length (pre' @ ?g @ ?n)) - int b"
        using ends Cons.prems(9) by (simp add: or_length_def of_nat_diff)
      ultimately show ?thesis
        by (simp only:)
    qed
    show ?thesis
      unfolding step d whole
      by (rule Cons.IH [OF _ _ Cons.prems(3) 3(2) _ _ _ rest refl])
        (use Cons.prems(1,2,5) ends(2) tracked(2) te all_short in \<open>simp_all\<close>)
  qed
qed



section \<open>Edits over lines\<close>

text \<open>
  C0: \<open>mapPosition\<close> is wrong about columns after edits over lines. Joining the lines \<open>abcd\<close> and \<open>efgh\<close> by deleting from
  column 5 of the first to column 1 of the second carries column 3 of the second line, before \<open>g\<close>, to column 3 of
  the joined line, before \<open>c\<close>; the offsets of the same edit give column 7. Splitting \<open>abcd\<close> by a newline after \<open>ab\<close>
  carries column 4 to column 4 of the second line, which is \<open>cd\<close>.
\<close>

theorem map_position_over_lines_wrong:
  "te_apply (StringText [97, 98, 99, 100, LF, 101, 102, 103, 104]) (te_single (new_Range 1 5 2 1) []) =
     Inr [97, 98, 99, 100, 101, 102, 103, 104] \<and>
   mapPosition (new_Position 2 3) (te_single (new_Range 1 5 2 1) []) = Inr (AtPosition (new_Position 1 3)) \<and>
   applyToOffset 7 [new_SingleOffsetEdit \<lparr>or_start = 4, or_endExclusive = 5\<rparr> []] = 6 \<and>
   pt_getPosition 6 (new_PositionOffsetTransformer [97, 98, 99, 100, 101, 102, 103, 104]) = Some (new_Position 1 7) \<and>
   te_apply (StringText [97, 98, 99, 100]) (te_insert (new_Position 1 3) [LF]) = Inr [97, 98, LF, 99, 100] \<and>
   mapPosition (new_Position 1 4) (te_insert (new_Position 1 3) [LF]) = Inr (AtPosition (new_Position 2 4))"
  by code_simp

section \<open>Lines of a text\<close>

text \<open>
  lines of a \<open>StringText\<close>. \<open>getLineAt\<close> asks for a range up to a column no line has, which is an offset past the
  line: of a \<open>StringText\<close> it gives the line with everything after it, and \<open>getLineLength\<close> the length of that. Of the same
  lines in an \<open>ArrayText\<close> it gives the line.
\<close>

theorem line_at_of_string_text:
  "getLineAt 1 (StringText [97, 98, LF, 99]) = Inr [97, 98, LF, 99] \<and>
   text_getLineLength 1 (StringText [97, 98, LF, 99]) = Inr 4 \<and>
   bind_result (new_ArrayText [[97, 98], [99]]) (getLineAt 1) = Inr [97, 98] \<and>
   bind_result (new_ArrayText [[97, 98], [99]]) getValue = Inr [97, 98, LF, 99]"
  by code_simp

end
