(* ===== verification/Line_Edit.thy ===== *)
theory Line_Edit
  imports Text_Edit
begin

text \<open>
  Edits of a text by lines: the classes \<open>SingleLineEdit\<close> and \<open>LineEdit\<close> of \<open>src/vs/editor/common/core/lineEdit.ts\<close>, and
  \<open>BasedTextEdit\<close> of \<open>textEdit.ts\<close>, which prints one. A \<open>LineEdit\<close> is its array of single edits; \<open>new_LineEdit\<close> is the
  constructor, which throws unless the edits are sorted and disjoint. Where the length of a line that does not exist
  makes a position \<open>NaN\<close>, the result is \<open>None\<close>. A line read outside of an array is \<open>None\<close>. This theory holds the
  definitions; \<open>Line_Edit_Laws\<close> has the properties.
\<close>

section \<open>Single edits\<close>

record single_line_edit =
  sl_lineRange :: line_range
  sl_newLines :: "jsstring list"

abbreviation sl_start :: "single_line_edit \<Rightarrow> int" where
  "sl_start e \<equiv> startLine (sl_lineRange e)"

abbreviation sl_end :: "single_line_edit \<Rightarrow> int" where
  "sl_end e \<equiv> endLineExclusive (sl_lineRange e)"

abbreviation sl_count :: "single_line_edit \<Rightarrow> int" where
  "sl_count e \<equiv> int (length (sl_newLines e))"

definition new_SingleLineEdit :: "line_range \<Rightarrow> jsstring list \<Rightarrow> single_line_edit" where
  "new_SingleLineEdit rng lines = \<lparr>sl_lineRange = rng, sl_newLines = lines\<rparr>"

type_synonym serialized_edit = "int \<times> int \<times> jsstring list"

definition sl_deserialize :: "serialized_edit \<Rightarrow> single_line_edit result" where
  "sl_deserialize e = (case e of (start, stop, lines) \<Rightarrow>
     bind_result (lr_ofLength start (stop - start)) (\<lambda>rng. Inr (new_SingleLineEdit rng lines)))"

definition sl_serialize :: "single_line_edit \<Rightarrow> serialized_edit" where
  "sl_serialize e = (sl_start e, sl_end e, sl_newLines e)"

text \<open>
  The lines of an edit by positions: the new text between what survives of its first and its last line, cut down when
  one of them survives as a whole.
\<close>

definition shrink_edit :: "single_text_edit \<Rightarrow> jsstring \<Rightarrow> jsstring \<Rightarrow> bool \<Rightarrow> jsstring list \<Rightarrow> single_line_edit result" where
  "shrink_edit edit survivingFirstLineText survivingEndLineText startBeforeNewLine lines =
     (let start = startLineNumber (te_range edit);
          stop = endLineNumber (te_range edit) + 1;
          endAfterNewLine = (endColumn (te_range edit) = 1);
          (start, lines) = (if startBeforeNewLine \<and> length (hd lines) = length survivingFirstLineText then (start + 1, tl lines) else (start, lines));
          (stop, lines) = (if length lines > 0 \<and> start < stop \<and> endAfterNewLine \<and> length (last lines) = length survivingEndLineText
            then (stop - 1, butlast lines) else (stop, lines))
      in bind_result (new_LineRange start stop) (\<lambda>rng. Inr (new_SingleLineEdit rng lines)))"

definition fromSingleTextEdit :: "single_text_edit \<Rightarrow> abstract_text \<Rightarrow> single_line_edit option result" where
  "fromSingleTextEdit edit initialValue =
     (let lines = splitLines (te_text edit); r = te_range edit
      in bind_result (getValueOfRange (range_fromPositions (new_Position (startLineNumber r) 1) (Some (getStartPosition r))) initialValue) (\<lambda>survivingFirstLineText.
         bind_result (getTransformer initialValue) (\<lambda>t.
         case (pt_getLineLength (startLineNumber r) t, pt_getLineLength (endLineNumber r) t) of
           (Some firstLength, Some endLength) \<Rightarrow>
             bind_result (getValueOfRange (range_fromPositions (getEndPosition r) (Some (new_Position (endLineNumber r) (endLength + 1)))) initialValue)
               (\<lambda>survivingEndLineText.
                 let lines = (survivingFirstLineText @ hd lines) # tl lines;
                     lines = butlast lines @ [last lines @ survivingEndLineText];
                     startBeforeNewLine = (startColumn r = firstLength + 1)
                 in bind_result (shrink_edit edit survivingFirstLineText survivingEndLineText startBeforeNewLine lines) (\<lambda>e. Inr (Some e)))
         | _ \<Rightarrow> Inr None)))"

definition sl_deletion :: "transformer \<Rightarrow> single_line_edit \<Rightarrow> single_text_edit option" where
  "sl_deletion t e =
     (let textLen = pt_textLength t; lastPosition = addToPosition (new_Position 1 1) textLen
      in if sl_end e = lineCount textLen + 2
         then if sl_start e > 1
           then (case pt_getLineLength (sl_start e - 1) t of None \<Rightarrow> None
             | Some n \<Rightarrow> Some (new_SingleTextEdit (range_fromPositions (new_Position (sl_start e - 1) (n + 1)) (Some lastPosition)) []))
           else Some (new_SingleTextEdit (range_fromPositions (new_Position 1 1) (Some lastPosition)) [])
         else Some (new_SingleTextEdit (new_Range (sl_start e) 1 (sl_end e) 1) []))"

definition sl_insertion :: "transformer \<Rightarrow> single_line_edit \<Rightarrow> single_text_edit option" where
  "sl_insertion t e =
     (let insertionLine = sl_start e
      in if insertionLine = lineCount (pt_textLength t) + 2
         then (case pt_getLineLength (insertionLine - 1) t of None \<Rightarrow> None
           | Some n \<Rightarrow> Some (new_SingleTextEdit (range_fromPositions (new_Position (insertionLine - 1) (n + 1)) None)
               (concat (map (\<lambda>l. LF # l) (sl_newLines e)))))
         else Some (new_SingleTextEdit (range_fromPositions (new_Position insertionLine 1) None) (concat (map (\<lambda>l. l @ [LF]) (sl_newLines e)))))"

definition sl_replacement :: "transformer \<Rightarrow> single_line_edit \<Rightarrow> single_text_edit option" where
  "sl_replacement t e =
     (let endLineNumber = sl_end e - 1
      in case pt_getLineLength endLineNumber t of None \<Rightarrow> None
         | Some n \<Rightarrow> Some (new_SingleTextEdit (new_Range (sl_start e) 1 endLineNumber (n + 1)) (js_join [LF] (sl_newLines e))))"

definition toSingleTextEdit :: "abstract_text \<Rightarrow> single_line_edit \<Rightarrow> single_text_edit option result" where
  "toSingleTextEdit initialValue e =
     bind_result (getTransformer initialValue) (\<lambda>t.
       Inr (if length (sl_newLines e) = 0 then sl_deletion t e
            else if lr_isEmpty (sl_lineRange e) then sl_insertion t e
            else sl_replacement t e))"

definition sl_toSingleEdit :: "abstract_text \<Rightarrow> single_line_edit \<Rightarrow> single_edit option result" where
  "sl_toSingleEdit initialValue e =
     bind_result (toSingleTextEdit initialValue e) (\<lambda>textEdit.
       case textEdit of None \<Rightarrow> Inr None
       | Some te \<Rightarrow> bind_result (getTransformer initialValue) (\<lambda>t.
           bind_result (pt_getOffsetRange (te_range te) t) (\<lambda>offsets.
             case offsets of (Some a, Some b) \<Rightarrow> Inr (Some (new_SingleOffsetEdit \<lparr>or_start = a, or_endExclusive = b\<rparr> (te_text te)))
             | _ \<Rightarrow> Inr None)))"

text \<open>The two loops of \<open>removeCommonSuffixPrefixLines\<close>, with at most \<open>k\<close> lines to go.\<close>

fun trim_start_loop :: "abstract_text \<Rightarrow> jsstring list \<Rightarrow> nat \<Rightarrow> int \<Rightarrow> int \<Rightarrow> (int \<times> int) result" where
  "trim_start_loop t lines 0 start trimStartCount = Inr (start, trimStartCount)"
| "trim_start_loop t lines (Suc k) start trimStartCount =
     (if trimStartCount < int (length lines)
      then bind_result (getLineAt start t) (\<lambda>line.
             if js_get lines trimStartCount = Some line then trim_start_loop t lines k (start + 1) (trimStartCount + 1)
             else Inr (start, trimStartCount))
      else Inr (start, trimStartCount))"

fun trim_end_loop :: "abstract_text \<Rightarrow> jsstring list \<Rightarrow> int \<Rightarrow> nat \<Rightarrow> int \<Rightarrow> int \<Rightarrow> (int \<times> int) result" where
  "trim_end_loop t lines trimStartCount 0 stop trimEndCount = Inr (stop, trimEndCount)"
| "trim_end_loop t lines trimStartCount (Suc k) stop trimEndCount =
     (if trimEndCount + trimStartCount < int (length lines)
      then bind_result (getLineAt (stop - 1) t) (\<lambda>line.
             if js_get lines (int (length lines) - 1 - trimEndCount) = Some line
             then trim_end_loop t lines trimStartCount k (stop - 1) (trimEndCount + 1)
             else Inr (stop, trimEndCount))
      else Inr (stop, trimEndCount))"

definition removeCommonSuffixPrefixLines :: "abstract_text \<Rightarrow> single_line_edit \<Rightarrow> single_line_edit result" where
  "removeCommonSuffixPrefixLines initialValue e =
     bind_result (trim_start_loop initialValue (sl_newLines e) (nat (sl_end e - sl_start e)) (sl_start e) 0) (\<lambda>(start, trimStartCount).
     bind_result (trim_end_loop initialValue (sl_newLines e) trimStartCount (nat (sl_end e - start)) (sl_end e) 0)
       (\<lambda>(stop, trimEndCount).
         if trimStartCount = 0 \<and> trimEndCount = 0 then Inr e
         else bind_result (new_LineRange start stop) (\<lambda>rng.
           Inr (new_SingleLineEdit rng (js_slice (sl_newLines e) trimStartCount (sl_count e - trimEndCount))))))"

section \<open>Edits\<close>

type_synonym line_edit = "single_line_edit list"

definition new_LineEdit :: "single_line_edit list \<Rightarrow> line_edit result" where
  "new_LineEdit edits =
     (if checkAdjacentItems (\<lambda>i1 i2. sl_end i1 \<le> sl_start i2) edits then Inr edits else Inl BugIndicatingError)"

definition sl_toLineEdit :: "single_line_edit \<Rightarrow> line_edit result" where
  "sl_toLineEdit e = new_LineEdit [e]"

fun all_some :: "'a option list \<Rightarrow> 'a list option" where
  "all_some [] = Some []"
| "all_some (x # xs) = (case (x, all_some xs) of (Some y, Some ys) \<Rightarrow> Some (y # ys) | _ \<Rightarrow> None)"

definition le_deserialize :: "serialized_edit list \<Rightarrow> line_edit result" where
  "le_deserialize data = bind_result (map_result sl_deserialize data) new_LineEdit"

definition le_serialize :: "line_edit \<Rightarrow> serialized_edit list" where
  "le_serialize e = map sl_serialize e"

text \<open>The loop of \<open>fromTextEdit\<close> with the edits collected since the last line edit.\<close>

fun from_text_loop :: "abstract_text \<Rightarrow> text_edit \<Rightarrow> text_edit \<Rightarrow> single_line_edit option list result" where
  "from_text_loop initialValue currentEdits [] = Inr []"
| "from_text_loop initialValue currentEdits (edit # edits) =
     (if edits \<noteq> [] \<and> startLineNumber (te_range (hd edits)) = endLineNumber (te_range edit)
      then from_text_loop initialValue (currentEdits @ [edit]) edits
      else bind_result (ste_joinEdits (currentEdits @ [edit]) initialValue) (\<lambda>singleEdit.
           bind_result (fromSingleTextEdit singleEdit initialValue) (\<lambda>singleLineEdit.
           bind_result (from_text_loop initialValue [] edits) (\<lambda>rest. Inr (singleLineEdit # rest)))))"

definition fromTextEdit :: "text_edit \<Rightarrow> abstract_text \<Rightarrow> line_edit option result" where
  "fromTextEdit edits initialValue =
     bind_result (from_text_loop initialValue [] edits) (\<lambda>es.
       case all_some es of None \<Rightarrow> Inr None | Some es \<Rightarrow> bind_result (new_LineEdit es) (\<lambda>e. Inr (Some e)))"

definition fromEdit :: "offset_edit \<Rightarrow> abstract_text \<Rightarrow> line_edit option result" where
  "fromEdit edit initialValue =
     bind_result (te_fromOffsetEdit edit initialValue) (\<lambda>textEdit.
       case textEdit of None \<Rightarrow> Inr None | Some te \<Rightarrow> fromTextEdit te initialValue)"

definition createFromUnsorted :: "single_line_edit list \<Rightarrow> line_edit result" where
  "createFromUnsorted edits = new_LineEdit (js_sort (\<lambda>a b. sl_start a - sl_start b) edits)"

definition le_toEdit :: "abstract_text \<Rightarrow> line_edit \<Rightarrow> offset_edit option result" where
  "le_toEdit initialValue e =
     bind_result (map_result (sl_toSingleEdit initialValue) e) (\<lambda>es.
       case all_some es of None \<Rightarrow> Inr None | Some es \<Rightarrow> bind_result (new_OffsetEdit es) (\<lambda>e. Inr (Some e)))"

fun new_lines_loop :: "int \<Rightarrow> line_edit \<Rightarrow> line_range list result" where
  "new_lines_loop offset [] = Inr []"
| "new_lines_loop offset (e # es) =
     bind_result (lr_ofLength (sl_start e + offset) (sl_count e)) (\<lambda>rng.
     bind_result (new_lines_loop (offset + (sl_count e - lr_length (sl_lineRange e))) es) (\<lambda>ranges. Inr (rng # ranges)))"

definition getNewLineRanges :: "line_edit \<Rightarrow> line_range list result" where
  "getNewLineRanges e = new_lines_loop 0 e"

fun map_line_loop :: "int \<Rightarrow> int \<Rightarrow> line_edit \<Rightarrow> int" where
  "map_line_loop line lineDelta [] = line + lineDelta"
| "map_line_loop line lineDelta (e # es) =
     (if sl_end e > line then line + lineDelta
      else map_line_loop line (lineDelta + (sl_count e - lr_length (sl_lineRange e))) es)"

definition mapLineNumber :: "int \<Rightarrow> line_edit \<Rightarrow> int" where
  "mapLineNumber line e = map_line_loop line 0 e"

definition mapLineRange :: "line_range \<Rightarrow> line_edit \<Rightarrow> line_range result" where
  "mapLineRange lineRange e = new_LineRange (mapLineNumber (startLine lineRange) e) (mapLineNumber (endLineExclusive lineRange) e)"

definition le_rebase :: "line_edit \<Rightarrow> line_edit \<Rightarrow> line_edit result" where
  "le_rebase base edits =
     bind_result (map_result (\<lambda>e. bind_result (mapLineRange (sl_lineRange e) base) (\<lambda>rng. Inr (new_SingleLineEdit rng (sl_newLines e)))) edits)
       new_LineEdit"

text \<open>The loop of \<open>apply\<close>; a line read past the end is \<open>None\<close>.\<close>

definition copy_lines :: "jsstring list \<Rightarrow> int \<Rightarrow> int \<Rightarrow> jsstring option list" where
  "copy_lines lines i stop = map (js_get lines) [i..stop - 1]"

fun le_apply_loop :: "jsstring list \<Rightarrow> int \<Rightarrow> line_edit \<Rightarrow> jsstring option list" where
  "le_apply_loop lines currentLineIndex [] = copy_lines lines currentLineIndex (int (length lines))"
| "le_apply_loop lines currentLineIndex (edit # edits) =
     copy_lines lines currentLineIndex (sl_start edit - 1) @ map Some (sl_newLines edit) @ le_apply_loop lines (sl_end edit - 1) edits"

definition le_apply :: "jsstring list \<Rightarrow> line_edit \<Rightarrow> jsstring option list" where
  "le_apply lines e = le_apply_loop lines 0 e"

section \<open>Printing\<close>

text \<open>\<open>JSON.stringify\<close> of an array of strings: control characters and half surrogate pairs are escaped.\<close>

definition json_escape :: "jsstring \<Rightarrow> jsstring" where
  "json_escape c =
     (case c of
        [u] \<Rightarrow>
          (if u = 34 then [92, 34] else if u = 92 then [92, 92] else if u = 8 then [92, 98] else if u = 12 then [92, 102]
           else if u = LF then [92, 110] else if u = CR then [92, 114] else if u = 9 then [92, 116]
           else if u < 32 \<or> high_surrogate u \<or> low_surrogate u
           then [92, 117] @ (let h = hex_string (nat u) in replicate (4 - length h) 48 @ h)
           else [u])
      | _ \<Rightarrow> c)"

definition json_string :: "jsstring \<Rightarrow> jsstring" where
  "json_string s = [34] @ concat (map json_escape (js_chars s)) @ [34]"

definition sl_toString :: "single_line_edit \<Rightarrow> jsstring" where
  "sl_toString e = lr_toString (sl_lineRange e) @ js ''->'' @ js ''['' @ js_join (js '','') (map json_string (sl_newLines e)) @ js '']''"

definition le_toString :: "line_edit \<Rightarrow> jsstring" where
  "le_toString e = js_join (js '','') (map sl_toString e)"

text \<open>\<open>String.padStart\<close> with blanks, and the groups of \<open>groupAdjacentBy\<close> of \<open>src/vs/base/common/arrays.ts\<close>.\<close>

definition pad_start :: "nat \<Rightarrow> jsstring \<Rightarrow> jsstring" where
  "pad_start n s = replicate (n - length s) 32 @ s"

fun group_adjacent_loop :: "('a \<Rightarrow> 'a \<Rightarrow> bool) \<Rightarrow> 'a list \<Rightarrow> 'a list \<Rightarrow> 'a list list" where
  "group_adjacent_loop shouldBeGrouped currentGroup [] = (if currentGroup = [] then [] else [currentGroup])"
| "group_adjacent_loop shouldBeGrouped currentGroup (item # items) =
     (if currentGroup \<noteq> [] \<and> shouldBeGrouped (last currentGroup) item
      then group_adjacent_loop shouldBeGrouped (currentGroup @ [item]) items
      else (if currentGroup = [] then [] else [currentGroup]) @ group_adjacent_loop shouldBeGrouped [item] items)"

definition groupAdjacentBy :: "'a list \<Rightarrow> ('a \<Rightarrow> 'a \<Rightarrow> bool) \<Rightarrow> 'a list list" where
  "groupAdjacentBy items shouldBeGrouped = group_adjacent_loop shouldBeGrouped [] items"

datatype line_kind = Unmodified | Deleted | Added

definition special_char :: "line_kind \<Rightarrow> jsstring" where
  "special_char kind = (case kind of Unmodified \<Rightarrow> js '' '' | Deleted \<Rightarrow> js ''-'' | Added \<Rightarrow> js ''+'')"

definition line_label :: "int \<Rightarrow> jsstring" where
  "line_label n = (if n = -1 then js ''   '' else pad_start 3 (int_string n))"

definition pushLine :: "int \<Rightarrow> int \<Rightarrow> line_kind \<Rightarrow> jsstring option \<Rightarrow> jsstring" where
  "pushLine originalLineNumber modifiedLineNumber kind content =
     special_char kind @ js '' '' @ line_label originalLineNumber @ js '' '' @ line_label modifiedLineNumber @ js '' '' @
       (case content of None \<Rightarrow> js ''[[[[[ WARNING: LINE DOES NOT EXIST ]]]]]'' | Some c \<Rightarrow> c)"

definition unmodified_lines :: "jsstring list \<Rightarrow> int \<Rightarrow> int \<Rightarrow> int \<Rightarrow> jsstring list" where
  "unmodified_lines originalLines lineDelta start stop =
     map (\<lambda>i. pushLine i (i + lineDelta) Unmodified (js_get originalLines (i - 1))) [start..stop]"

text \<open>The lines of one edit of a group, and the loop over a group, which ends with the line after it and the shift there.\<close>

definition patch_edit :: "jsstring list \<Rightarrow> int \<Rightarrow> int \<Rightarrow> single_line_edit \<Rightarrow> jsstring list" where
  "patch_edit originalLines lineDelta lastLineNumber edit =
     unmodified_lines originalLines lineDelta (max 1 lastLineNumber) (sl_start edit - 1) @
     map (\<lambda>n. pushLine n (-1) Deleted (js_get originalLines (n - 1))) (lr_mapToLineArray (\<lambda>n. n) (sl_lineRange edit)) @
     map (\<lambda>i. pushLine (-1) (sl_start edit + lineDelta + int i) Added (Some (sl_newLines edit ! i))) [0..<length (sl_newLines edit)]"

fun patch_group :: "jsstring list \<Rightarrow> int \<Rightarrow> int \<Rightarrow> line_edit \<Rightarrow> jsstring list \<times> int \<times> int" where
  "patch_group originalLines lineDelta lastLineNumber [] = ([], lastLineNumber, lineDelta)"
| "patch_group originalLines lineDelta lastLineNumber (edit # edits) =
     (case patch_group originalLines (lineDelta + (sl_count edit - lr_length (sl_lineRange edit))) (sl_end edit) edits of
        (rest, stop, delta) \<Rightarrow> (patch_edit originalLines lineDelta lastLineNumber edit @ rest, stop, delta))"

fun patch_groups :: "jsstring list \<Rightarrow> bool \<Rightarrow> int \<Rightarrow> line_edit list \<Rightarrow> jsstring list" where
  "patch_groups originalLines first lineDelta [] = []"
| "patch_groups originalLines first lineDelta (edits # groups) =
     (case patch_group originalLines lineDelta (sl_start (hd edits) - 2) edits of
        (body, lastLineNumber, delta) \<Rightarrow>
          (if first then [] else [js ''---'']) @ body @
          unmodified_lines originalLines delta lastLineNumber (min (lastLineNumber + 2) (int (length originalLines))) @
          patch_groups originalLines False delta groups)"

definition humanReadablePatch :: "jsstring list \<Rightarrow> line_edit \<Rightarrow> jsstring" where
  "humanReadablePatch originalLines e =
     js_join [LF] (patch_groups originalLines True 0
       (groupAdjacentBy e (\<lambda>e1 e2. lr_distanceToRange (sl_lineRange e1) (sl_lineRange e2) \<le> 5)))"

definition bte_toString :: "abstract_text \<Rightarrow> text_edit \<Rightarrow> jsstring option result" where
  "bte_toString base edit =
     bind_result (fromTextEdit edit base) (\<lambda>lineEdit. case lineEdit of None \<Rightarrow> Inr None
       | Some e \<Rightarrow> bind_result (getLines base) (\<lambda>lines. Inr (Some (humanReadablePatch lines e))))"

end
