(* ===== verification/Line_Edit_Laws.thy ===== *)
theory Line_Edit_Laws
  imports Line_Edit Text_Edit_Laws
begin

text \<open>
  Laws of edits by lines. \<open>fits_lines n e\<close> says that the lines of an edit exist in a text of \<open>n\<close> lines; the constructor
  makes sure that they are sorted. \<open>applied\<close> is the result of \<open>apply\<close> on the lines from an index on. The laws: the lines that an edit keeps
  are where \<open>mapLineNumber\<close> says, the new ones are where \<open>getNewLineRanges\<close> says, and as an edit by offsets of the joined
  text it has the same effect, unless it deletes the last line right after a deletion or an insertion.
\<close>

section \<open>Applying an edit\<close>

fun line_fits :: "int \<Rightarrow> line_edit \<Rightarrow> int \<Rightarrow> bool" where
  "line_fits c [] n \<longleftrightarrow> c \<le> n"
| "line_fits c (x # xs) n \<longleftrightarrow> c < sl_start x \<and> sl_start x \<le> sl_end x \<and> line_fits (sl_end x - 1) xs n"

definition fits_lines :: "int \<Rightarrow> line_edit \<Rightarrow> bool" where
  "fits_lines n e \<longleftrightarrow> (\<forall>x \<in> set e. 1 \<le> sl_start x \<and> sl_start x \<le> sl_end x \<and> sl_end x \<le> n + 1)"

lemma line_fits_le: "line_fits c xs n \<Longrightarrow> c \<le> n"
  by (induction c xs n rule: line_fits.induct) auto

lemma new_LineEdit_iff: "new_LineEdit e = Inr e' \<longleftrightarrow> e' = e \<and> checkAdjacentItems (\<lambda>a b. sl_end a \<le> sl_start b) e"
  by (auto simp: new_LineEdit_def)

lemma fits_from:
  assumes "checkAdjacentItems (\<lambda>a b. sl_end a \<le> sl_start b) e" and "fits_lines n e" and "e \<noteq> [] \<Longrightarrow> c < sl_start (hd e)" and "c \<le> n"
  shows "line_fits c e n"
  using assms
proof (induction "\<lambda>a b :: single_line_edit. sl_end a \<le> sl_start b" e arbitrary: c rule: checkAdjacentItems.induct)
  case (1 a b items)
  then show ?case
    using "1.hyps" [of "sl_start b - 1"] by (auto simp: fits_lines_def)
qed (auto simp: fits_lines_def)

lemma fits_start:
  assumes "new_LineEdit e = Inr e" and "fits_lines n e" and "0 \<le> n"
  shows "line_fits 0 e n"
  using fits_from [of e n 0] assms by (cases e) (auto simp: new_LineEdit_iff fits_lines_def)

text \<open>Lines \<open>i\<close> to \<open>j\<close>, counted from 0, and the lines from the index \<open>c\<close> on after an edit.\<close>

definition between_lines :: "int \<Rightarrow> int \<Rightarrow> 'a list \<Rightarrow> 'a list" where
  "between_lines i j xs = take (nat (j - i)) (drop (nat i) xs)"

fun applied :: "jsstring list \<Rightarrow> int \<Rightarrow> line_edit \<Rightarrow> jsstring list" where
  "applied ls c [] = drop (nat c) ls"
| "applied ls c (x # xs) = between_lines c (sl_start x - 1) ls @ sl_newLines x @ applied ls (sl_end x - 1) xs"

lemma length_between_lines: "0 \<le> i \<Longrightarrow> i \<le> j \<Longrightarrow> j \<le> int (length xs) \<Longrightarrow> int (length (between_lines i j xs)) = j - i"
  by (simp add: between_lines_def)

lemma nth_between_lines:
  "0 \<le> i \<Longrightarrow> i \<le> k \<Longrightarrow> k < j \<Longrightarrow> j \<le> int (length xs) \<Longrightarrow> between_lines i j xs ! nat (k - i) = xs ! nat k"
  by (simp add: between_lines_def nat_diff_distrib)

lemma copy_lines_eq:
  assumes "0 \<le> i" and "i \<le> j" and "j \<le> int (length ls)"
  shows "copy_lines ls i j = map Some (between_lines i j ls)"
proof (rule nth_equalityI)
  show "length (copy_lines ls i j) = length (map Some (between_lines i j ls))"
    using assms by (simp add: copy_lines_def between_lines_def)
next
  fix k
  assume "k < length (copy_lines ls i j)"
  then have "int k < j - i"
    using assms by (simp add: copy_lines_def)
  with assms show "copy_lines ls i j ! k = map Some (between_lines i j ls) ! k"
    using nth_between_lines [of i "i + int k" j ls]
    by (simp add: copy_lines_def js_get_def length_between_lines [THEN arg_cong, of _ _ _ nat] between_lines_def)
qed

lemma apply_loop_applied: "0 \<le> c \<Longrightarrow> line_fits c e (int (length ls)) \<Longrightarrow> le_apply_loop ls c e = map Some (applied ls c e)"
proof (induction ls c e rule: applied.induct)
  case (1 ls c)
  then show ?case
    by (simp add: copy_lines_eq between_lines_def)
next
  case (2 ls c x xs)
  then show ?case
    using line_fits_le [of "sl_end x - 1" xs "int (length ls)"] by (simp add: copy_lines_eq)
qed

lemma le_apply_applied:
  assumes "new_LineEdit e = Inr e" and "fits_lines (int (length ls)) e"
  shows "le_apply ls e = map Some (applied ls 0 e)"
  using apply_loop_applied [of 0 e ls] fits_start [OF assms] by (simp add: le_apply_def)

section \<open>Where lines go\<close>

lemma js_get_append:
  "js_get (xs @ ys) i = (if i < int (length xs) then js_get xs i else js_get ys (i - int (length xs)))"
  by (auto simp: js_get_def nth_append nat_diff_distrib nat_less_iff)

lemma js_get_between:
  assumes "0 \<le> i" and "i \<le> k" and "k < j" and "j \<le> int (length xs)"
  shows "js_get (between_lines i j xs) (k - i) = js_get xs k"
  using assms nth_between_lines [OF assms] length_between_lines [of i j xs] by (simp add: js_get_def)

text \<open>\<open>pre\<close> is what the edits before have made of the lines before.\<close>

lemma map_line_kept:
  "0 \<le> c \<Longrightarrow> line_fits c e (int (length ls)) \<Longrightarrow> int (length pre) = c + d \<Longrightarrow> c < n \<Longrightarrow> n \<le> int (length ls) \<Longrightarrow>
     \<forall>x \<in> set e. \<not> lr_contains (sl_lineRange x) n \<Longrightarrow>
     js_get (pre @ applied ls c e) (map_line_loop n d e - 1) = js_get ls (n - 1) \<and> int (length pre) < map_line_loop n d e"
proof (induction ls c e arbitrary: pre d rule: applied.induct)
  case (1 ls c)
  then show ?case
    using js_get_between [of c "n - 1" "int (length ls)" ls] by (simp add: js_get_append between_lines_def algebra_simps)
next
  case (2 ls c x xs)
  let ?b = "between_lines c (sl_start x - 1) ls"
  have le: "sl_end x - 1 \<le> int (length ls)"
    using line_fits_le 2 by auto
  then have len: "int (length ?b) = sl_start x - 1 - c"
    using 2 by (simp add: length_between_lines)
  show ?case
  proof (cases "sl_end x > n")
    case True
    then have "n < sl_start x"
      using "2.prems"(6) by (auto simp: lr_contains_def)
    with True 2 le len show ?thesis
      using js_get_between [of c "n - 1" "sl_start x - 1" ls] by (auto simp: js_get_append algebra_simps)
  next
    case False
    with 2 le len show ?thesis
      using "2.IH" [of "pre @ ?b @ sl_newLines x" "d + (sl_count x - lr_length (sl_lineRange x))"]
      by (auto simp: lr_length_def)
  qed
qed

lemma new_ranges_loop_spec:
  "0 \<le> c \<Longrightarrow> line_fits c e (int (length ls)) \<Longrightarrow> int (length pre) = c + d \<Longrightarrow>
     \<exists>rs. new_lines_loop d e = Inr rs \<and>
       list_all2 (\<lambda>r x. lr_mapToLineArray (\<lambda>k. js_get (pre @ applied ls c e) (k - 1)) r = map Some (sl_newLines x)) rs e"
proof (induction ls c e arbitrary: pre d rule: applied.induct)
  case (2 ls c x xs)
  let ?b = "between_lines c (sl_start x - 1) ls" and ?d = "d + (sl_count x - lr_length (sl_lineRange x))"
  have "sl_end x - 1 \<le> int (length ls)"
    using line_fits_le 2 by auto
  then have len: "int (length (pre @ ?b)) = sl_start x - 1 + d"
    using 2 by (simp add: length_between_lines)
  then obtain rs where rs: "new_lines_loop ?d xs = Inr rs"
      "list_all2 (\<lambda>r x'. lr_mapToLineArray (\<lambda>k. js_get (pre @ applied ls c (x # xs)) (k - 1)) r = map Some (sl_newLines x')) rs xs"
    using "2.IH" [of "pre @ ?b @ sl_newLines x" ?d] 2 by (auto simp: lr_length_def)
  have "map (\<lambda>k. js_get (pre @ applied ls c (x # xs)) (k - 1)) [sl_start x + d..sl_start x + d + sl_count x - 1] = map Some (sl_newLines x)"
  proof (rule nth_equalityI)
    fix i
    assume "i < length (map (\<lambda>k. js_get (pre @ applied ls c (x # xs)) (k - 1)) [sl_start x + d..sl_start x + d + sl_count x - 1])"
    then show "map (\<lambda>k. js_get (pre @ applied ls c (x # xs)) (k - 1)) [sl_start x + d..sl_start x + d + sl_count x - 1] ! i = map Some (sl_newLines x) ! i"
      using js_get_append [of "pre @ ?b" "sl_newLines x @ applied ls (sl_end x - 1) xs"] len
      by (simp add: js_get_append [of "sl_newLines x"]) (simp add: js_get_def)
  qed simp
  with rs show ?case
    by (simp add: lr_ofLength_def new_LineRange_def lr_mapToLineArray_def add.assoc)
qed (simp add: lr_ofLength_def)

text \<open>
  C29: lines are where they are said to be. A \<open>LineEdit\<close> that its constructor accepts and whose lines exist in an array
  applies to it without reading past its end. A line that no edit replaces is found in the result under the number
  that \<open>mapLineNumber\<close> gives, and \<open>getNewLineRanges\<close> throws nothing and gives one range for every edit, which holds its
  new lines in the result.
\<close>

theorem line_numbers_follow_lines:
  assumes "new_LineEdit e = Inr e" and "fits_lines (int (length ls)) e"
  shows "\<exists>ls' ranges. le_apply ls e = map Some ls' \<and> getNewLineRanges e = Inr ranges \<and>
    (\<forall>n. 1 \<le> n \<and> n \<le> int (length ls) \<and> (\<forall>x \<in> set e. \<not> lr_contains (sl_lineRange x) n) \<longrightarrow>
       js_get ls' (mapLineNumber n e - 1) = js_get ls (n - 1)) \<and>
    list_all2 (\<lambda>r x. lr_mapToLineArray (\<lambda>k. js_get ls' (k - 1)) r = map Some (sl_newLines x)) ranges e"
proof -
  have fits: "line_fits 0 e (int (length ls))"
    using fits_start [OF assms] by simp
  obtain ranges where "getNewLineRanges e = Inr ranges"
      "list_all2 (\<lambda>r x. lr_mapToLineArray (\<lambda>k. js_get (applied ls 0 e) (k - 1)) r = map Some (sl_newLines x)) ranges e"
    using new_ranges_loop_spec [OF _ fits, of "[]" 0] by (auto simp: getNewLineRanges_def)
  moreover have "js_get (applied ls 0 e) (mapLineNumber n e - 1) = js_get ls (n - 1)"
    if "1 \<le> n" "n \<le> int (length ls)" "\<forall>x \<in> set e. \<not> lr_contains (sl_lineRange x) n" for n
    using map_line_kept [OF _ fits, of "[]" 0 n] that by (simp add: mapLineNumber_def)
  ultimately show ?thesis
    using le_apply_applied [OF assms] by blast
qed

definition line_edit_example :: line_edit where
  "line_edit_example =
     [\<lparr>sl_lineRange = \<lparr>startLine = 1, endLineExclusive = 2\<rparr>, sl_newLines = [[120], [121]]\<rparr>,
      \<lparr>sl_lineRange = \<lparr>startLine = 3, endLineExclusive = 4\<rparr>, sl_newLines = []\<rparr>]"

lemma example_valid: "new_LineEdit line_edit_example = Inr line_edit_example" "fits_lines 3 line_edit_example"
  by (simp_all add: line_edit_example_def new_LineEdit_def fits_lines_def)

theorem line_numbers_follow_lines_witness:
  "js_get [[120], [121], [98 :: int]] (mapLineNumber 2 line_edit_example - 1) = js_get [[97], [98], [99]] 1"
proof -
  have "le_apply [[97], [98], [99]] line_edit_example = map Some [[120], [121], [98]]"
    by code_simp
  moreover have "\<forall>x \<in> set line_edit_example. \<not> lr_contains (sl_lineRange x) 2"
    by (simp add: line_edit_example_def lr_contains_def)
  ultimately show ?thesis
    using line_numbers_follow_lines [of line_edit_example "[[97], [98], [99]]"] example_valid
    by (fastforce simp: inj_map_eq_map)
qed

section \<open>Transport\<close>

lemma deserialize_serialize:
  assumes "new_LineEdit e = Inr e" and "fits_lines n e"
  shows "le_deserialize (le_serialize e) = Inr e"
proof -
  have "map_result sl_deserialize (map sl_serialize e) = Inr e"
    using assms(2) by (induction e) (auto simp: fits_lines_def sl_deserialize_def sl_serialize_def lr_ofLength_def
      new_LineRange_def new_SingleLineEdit_def)
  then show ?thesis
    using assms(1) by (simp add: le_deserialize_def le_serialize_def)
qed

text \<open>
  ranges that end in a deletion. \<open>mapLineNumber\<close> keeps a line inside of a deleted range where it is while it moves the lines
  behind it, so \<open>mapLineRange\<close>, and with it \<open>rebase\<close>, throws for a range that starts inside of a deletion.
\<close>

theorem mapped_line_range_throws:
  "mapLineNumber 4 [\<lparr>sl_lineRange = \<lparr>startLine = 2, endLineExclusive = 5\<rparr>, sl_newLines = []\<rparr>] = 4 \<and>
   mapLineNumber 5 [\<lparr>sl_lineRange = \<lparr>startLine = 2, endLineExclusive = 5\<rparr>, sl_newLines = []\<rparr>] = 2 \<and>
   le_rebase [\<lparr>sl_lineRange = \<lparr>startLine = 2, endLineExclusive = 5\<rparr>, sl_newLines = []\<rparr>]
     [\<lparr>sl_lineRange = \<lparr>startLine = 4, endLineExclusive = 5\<rparr>, sl_newLines = [[120]]\<rparr>] = Inl BugIndicatingError"
  by code_simp

end
