(* ===== verification/Line_Text.thy ===== *)
theory Line_Text
  imports Line_Edit_Laws
begin

text \<open>
  An edit by lines as an edit of the text: \<open>LineEdit.toEdit\<close> has the effect of \<open>LineEdit.apply\<close> on the text that the
  lines join to, unless the edit deletes the last line right after a deletion or an insertion. \<open>ended_lines\<close> is the
  text of lines with a line feed after each, \<open>line_off\<close> the offset at which a line starts in it.
\<close>

section \<open>The text of lines\<close>

text \<open>Lines with their line feeds; a text is its lines without the last line feed.\<close>

definition ended_lines :: "jsstring list \<Rightarrow> jsstring" where
  "ended_lines ls = concat (map (\<lambda>l. l @ [LF]) ls)"

lemma ended_lines_simps [simp]:
  "ended_lines [] = []" "ended_lines (l # ls) = l @ LF # ended_lines ls" "ended_lines (ls @ ms) = ended_lines ls @ ended_lines ms"
  by (simp_all add: ended_lines_def)

lemma ended_join: "ls \<noteq> [] \<Longrightarrow> js_join [LF] ls @ [LF] = ended_lines ls"
  by (induction ls rule: list_nonempty_induct) (simp_all add: js_join_Cons)

lemma ended_eq_join: "s @ [LF] = ended_lines ls \<Longrightarrow> ls \<noteq> [] \<and> s = js_join [LF] ls"
  using ended_join [of ls] by (cases "ls = []") (simp, metis append_same_eq)

text \<open>The offset at which line \<open>c\<close>, counted from 0, starts.\<close>

definition line_off :: "jsstring list \<Rightarrow> int \<Rightarrow> int" where
  "line_off ls c = int (length (ended_lines (take (nat c) ls)))"

lemma between_ended:
  assumes "0 \<le> i" and "i \<le> j"
  shows "ended_lines (take (nat j) ls) = ended_lines (take (nat i) ls) @ ended_lines (between_lines i j ls)"
proof -
  have "nat j = nat i + nat (j - i)"
    using assms by simp
  then have "take (nat j) ls = take (nat i) ls @ between_lines i j ls"
    by (simp add: take_add between_lines_def)
  then show ?thesis
    by simp
qed

lemma line_off_between: "0 \<le> i \<Longrightarrow> i \<le> j \<Longrightarrow> line_off ls j = line_off ls i + int (length (ended_lines (between_lines i j ls)))"
  by (simp add: line_off_def between_ended [of i j])

lemma line_off_mono: "0 \<le> i \<Longrightarrow> i \<le> j \<Longrightarrow> line_off ls i \<le> line_off ls j"
  by (simp add: line_off_between [of i j])

lemma line_off_0 [simp]: "line_off ls 0 = 0"
  by (simp add: line_off_def)

lemma line_off_Suc: "0 \<le> i \<Longrightarrow> i < int (length ls) \<Longrightarrow> line_off ls (i + 1) = line_off ls i + int (length (ls ! nat i)) + 1"
  by (simp add: line_off_def nat_add_distrib take_Suc_conv_app_nth)

lemma line_off_less:
  assumes "0 \<le> i" and "i < j" and "j \<le> int (length ls)"
  shows "line_off ls i < line_off ls j"
  using line_off_Suc [of i ls] line_off_mono [of "i + 1" j ls] assms by simp

section \<open>Pieces of the text\<close>

locale lines_of_text =
  fixes s :: jsstring
    and ls :: "jsstring list"
  assumes ended: "s @ [LF] = ended_lines ls"
    and no_LF: "l \<in> set ls \<Longrightarrow> LF \<notin> set l"
begin

abbreviation count :: int where
  "count \<equiv> int (length ls)"

abbreviation sub :: "int \<Rightarrow> int \<Rightarrow> jsstring" where
  "sub a b \<equiv> js_substring (s @ [LF]) a b"

lemma some_line: "0 < count"
  using ended_eq_join [OF ended] by simp

lemma line_off_all: "line_off ls count = int (length s) + 1"
  using arg_cong [OF ended, of length] by (simp add: line_off_def)

lemma line_off_le: "0 \<le> c \<Longrightarrow> c \<le> count \<Longrightarrow> line_off ls c \<le> int (length s) + 1"
  using line_off_mono [of c count ls] by (simp add: line_off_all)

lemma line_off_lt: "0 \<le> c \<Longrightarrow> c < count \<Longrightarrow> line_off ls c \<le> int (length s)"
  using line_off_less [of c count ls] by (simp add: line_off_all)

lemma line_off_pos: "1 \<le> c \<Longrightarrow> c \<le> count \<Longrightarrow> 1 \<le> line_off ls c"
  using line_off_less [of 0 c ls] by simp

lemma sub_of_text: "0 \<le> a \<Longrightarrow> a \<le> b \<Longrightarrow> b \<le> int (length s) \<Longrightarrow> js_substring s a b = sub a b"
  by (simp add: js_substring_in_range)

lemma sub_lines:
  assumes "0 \<le> i" and "i \<le> j" and "j \<le> count"
  shows "sub (line_off ls i) (line_off ls j) = ended_lines (between_lines i j ls)"
proof -
  have "ended_lines ls = ended_lines (take (nat j) ls) @ ended_lines (drop (nat j) ls)"
    by (simp flip: ended_lines_simps(3))
  then have split: "s @ [LF] = ended_lines (take (nat i) ls) @ ended_lines (between_lines i j ls) @ ended_lines (drop (nat j) ls)"
    using between_ended [OF assms(1,2)] ended by simp
  have "line_off ls j \<le> int (length (s @ [LF]))" "0 \<le> line_off ls i" "line_off ls i \<le> line_off ls j"
    using line_off_le [of j] line_off_mono [of i j ls] assms by (simp_all add: line_off_def)
  then show ?thesis
    using line_off_between [OF assms(1,2), of ls] by (simp only: js_substring_in_range split) (simp add: line_off_def)
qed

lemma sub_cat: "0 \<le> a \<Longrightarrow> a \<le> b \<Longrightarrow> b \<le> c \<Longrightarrow> c \<le> int (length s) + 1 \<Longrightarrow> sub a b @ sub b c = sub a c"
  by (rule substring_cat) simp_all

lemma sub_line_feed:
  assumes "1 \<le> c" and "c \<le> count"
  shows "sub (line_off ls c - 1) (line_off ls c) = [LF]"
proof -
  have last: "line_off ls c = line_off ls (c - 1) + int (length (ls ! nat (c - 1))) + 1"
    using line_off_Suc [of "c - 1" ls] assms by simp
  have "sub (line_off ls (c - 1)) (line_off ls c - 1) @ sub (line_off ls c - 1) (line_off ls c) = sub (line_off ls (c - 1)) (line_off ls c)"
    using last line_off_le [of c] assms by (intro sub_cat) (simp_all add: line_off_def)
  also have "\<dots> = (ls ! nat (c - 1)) @ [LF]"
    using assms sub_lines [of "c - 1" c] by (simp add: between_lines_def hd_drop_conv_nth take_Suc)
  finally show ?thesis
    using last line_off_le [of c] assms length_substring [of "line_off ls (c - 1)" "line_off ls c - 1" "s @ [LF]"]
    by (simp add: append_eq_append_conv line_off_def)
qed

lemma sub_up_to:
  assumes "1 \<le> c" and "c \<le> count" and "0 \<le> p" and "p < line_off ls c"
  shows "sub p (line_off ls c - 1) @ [LF] = sub p (line_off ls c)"
  using sub_cat [of p "line_off ls c - 1" "line_off ls c"] sub_line_feed [OF assms(1,2)] line_off_le [of c] assms by simp

text \<open>The transformer's line starts and line lengths.\<close>

lemma units_lines_ended: "c \<le> length ls \<Longrightarrow> units (ended_lines (take c ls)) = new_TextLength (int c) 0"
proof (induction c)
  case (Suc c)
  then have "LF \<notin> set (ls ! c)"
    using no_LF by simp
  with Suc show ?case
    by (simp add: take_Suc_conv_app_nth units_append [of _ "[LF]", simplified] units_append units_no_LF units_single text_length_eq tl_add_sel)
qed simp

lemma take_line_off:
  assumes "c < length ls"
  shows "take (length (ended_lines (take c ls))) s = ended_lines (take c ls)" and "length (ended_lines (take c ls)) \<le> length s"
proof -
  have "line_off ls (int c) \<le> int (length s)"
    using line_off_lt [of "int c"] assms by simp
  then show len: "length (ended_lines (take c ls)) \<le> length s"
    by (simp add: line_off_def)
  have "ended_lines ls = ended_lines (take c ls) @ ended_lines (drop c ls)"
    by (simp flip: ended_lines_simps(3))
  then have "take (length (ended_lines (take c ls))) (s @ [LF]) = ended_lines (take c ls)"
    by (simp add: ended)
  with len show "take (length (ended_lines (take c ls))) s = ended_lines (take c ls)"
    by simp
qed

lemma line_start:
  assumes "0 \<le> c" and "c < count"
  shows "js_get (lineStartOffsets (new_PositionOffsetTransformer s)) c = Some (line_off ls c)"
proof -
  have c: "nat c < length ls"
    using assms by simp
  show ?thesis
    using line_start_get [OF take_line_off(2) [OF c]] assms c
    by (simp add: take_line_off(1) [OF c] units_lines_ended line_off_def)
qed

lemma line_start_offset:
  "0 \<le> c \<Longrightarrow> c < count \<Longrightarrow> pt_getOffset (new_Position (c + 1) k) (new_PositionOffsetTransformer s) = Some (line_off ls c + k - 1)"
  by (simp add: pt_getOffset_def line_start)

lemma text_units: "lineCount (units s) = count - 1"
  using units_lines_ended [of "length ls"] arg_cong [OF ended, of units] units_append [of s "[LF]"]
  by (simp add: units_single text_length_eq tl_add_sel)

lemma start_count: "length (lineStartOffsets (new_PositionOffsetTransformer s)) = length ls"
  using start_of_line [of "length s" s] text_units some_line by (cases ls) (simp_all add: transformer_arrays)

lemma line_end_get:
  assumes "CR \<notin> set s" and "0 \<le> c" and "c < count"
  shows "js_get (lineEndOffsets (new_PositionOffsetTransformer s)) c = Some (line_off ls (c + 1) - 1)"
proof -
  let ?feeds = "line_feeds s 0 (length s)"
  have len: "length ls = Suc (length ?feeds)"
    using start_count by (simp add: transformer_arrays)
  show ?thesis
  proof (cases "c + 1 = count")
    case True
    then have "nat c = length ?feeds"
      using len by simp
    with True show ?thesis
      using assms line_off_all by (simp add: transformer_arrays js_get_def nth_append)
  next
    case False
    then have c: "nat c < length ?feeds"
      using assms len by simp
    have next_line: "nat (c + 1) = Suc (nat c)"
      using assms(2) by (simp add: nat_add_distrib)
    have "s ! (?feeds ! nat c - 1) \<noteq> CR" if "0 < ?feeds ! nat c"
    proof -
      have "?feeds ! nat c < length s"
        using nth_mem [OF c] by (simp add: line_feeds_def)
      then show ?thesis
        using assms(1) by (metis less_imp_diff_less nth_mem)
    qed
    then have "line_end s (?feeds ! nat c) = int (?feeds ! nat c)"
      by (auto simp: line_end_def)
    moreover have "int (?feeds ! nat c) + 1 = line_off ls (c + 1)"
      using line_start [of "c + 1"] False assms c next_line
      by (simp add: transformer_arrays js_get_def split: if_splits)
    ultimately show ?thesis
      using assms c by (simp add: transformer_arrays js_get_def nth_append)
  qed
qed

lemma line_length:
  assumes "CR \<notin> set s" and "0 \<le> c" and "c < count"
  shows "pt_getLineLength (c + 1) (new_PositionOffsetTransformer s) = Some (line_off ls (c + 1) - 1 - line_off ls c)"
  using line_end_get [OF assms] line_start [OF assms(2,3)] by (simp add: pt_getLineLength_def)

lemma end_of_text: "addToPosition (new_Position 1 1) (pt_textLength (new_PositionOffsetTransformer s)) =
    new_Position count (int (length s) + 1 - line_off ls (count - 1))"
proof -
  define k where "k = column (pos_after s)"
  have pos: "pos_after s = new_Position count k"
    by (simp add: position_eq pos_after_sel text_units k_def)
  have "Some (line_off ls (count - 1) + k - 1) = Some (int (length s))"
    using pt_getOffset_after [of "length s" s] line_start_offset [of "count - 1" k] some_line pos by simp
  then have "k = int (length s) + 1 - line_off ls (count - 1)"
    by simp
  then show ?thesis
    using string_text.size [of s] pos by (simp add: st_length_def pos_after_def)
qed

lemma text_lines: "lineCount (pt_textLength (new_PositionOffsetTransformer s)) = count - 1"
  using string_text.size [of s] text_units by (simp add: st_length_def)

lemma range_offsets:
  assumes "0 \<le> a" and "a < count" and "0 \<le> b" and "b < count" and "a < b \<or> a = b \<and> c \<le> d"
    and "line_off ls a + c \<le> line_off ls b + d"
  shows "pt_getOffsetRange (new_Range (a + 1) c (b + 1) d) (new_PositionOffsetTransformer s) =
    Inr (Some (line_off ls a + c - 1), Some (line_off ls b + d - 1))"
  using assms line_start_offset [of a c] line_start_offset [of b d]
  by (auto simp: pt_getOffsetRange_def new_Range_def getStartPosition_def getEndPosition_def new_OffsetRange_def Let_def)

end

section \<open>The edit by offsets\<close>

text \<open>An insertion behind the last line or a deletion of the last lines: it starts with the line feed before them.\<close>

definition at_end :: "int \<Rightarrow> single_line_edit \<Rightarrow> bool" where
  "at_end n x \<longleftrightarrow> sl_end x = n + 1 \<and> (sl_newLines x = [] \<or> lr_isEmpty (sl_lineRange x))"

definition offsets_of :: "jsstring list \<Rightarrow> single_line_edit \<Rightarrow> single_edit" where
  "offsets_of ls x =
     (let a = line_off ls (sl_start x - 1); b = line_off ls (sl_end x - 1)
      in if at_end (int (length ls)) x
         then new_SingleOffsetEdit \<lparr>or_start = a - 1, or_endExclusive = b - 1\<rparr> (concat (map ((#) LF) (sl_newLines x)))
         else if sl_newLines x = [] \<or> lr_isEmpty (sl_lineRange x)
         then new_SingleOffsetEdit \<lparr>or_start = a, or_endExclusive = b\<rparr> (ended_lines (sl_newLines x))
         else new_SingleOffsetEdit \<lparr>or_start = a, or_endExclusive = b - 1\<rparr> (js_join [LF] (sl_newLines x)))"

context lines_of_text
begin

lemma deletion_offsets:
  assumes "CR \<notin> set s" and "1 \<le> sl_start x" and "sl_start x \<le> sl_end x" and "sl_end x \<le> count + 1" and "sl_newLines x = []"
    and "at_end count x \<Longrightarrow> 1 < sl_start x"
  shows "\<exists>te. sl_deletion (new_PositionOffsetTransformer s) x = Some te \<and>
    pt_getOffsetRange (te_range te) (new_PositionOffsetTransformer s) = Inr (Some (edit_start (offsets_of ls x)), Some (edit_end (offsets_of ls x))) \<and>
    te_text te = newText (offsets_of ls x)"
proof (cases "sl_end x = count + 1")
  case True
  then have start: "1 < sl_start x" and at: "at_end count x"
    using assms(5,6) by (simp_all add: at_end_def)
  have len: "pt_getLineLength (sl_start x - 1) (new_PositionOffsetTransformer s) =
      Some (line_off ls (sl_start x - 1) - 1 - line_off ls (sl_start x - 2))"
    using line_length [OF assms(1), of "sl_start x - 2"] start assms(3) True by simp
  have le: "line_off ls (sl_start x - 1) \<le> line_off ls count"
    using line_off_mono [of "sl_start x - 1" count] start assms(3) True by simp
  have "sl_start x - 2 < count - 1 \<or>
      sl_start x - 2 = count - 1 \<and> line_off ls (sl_start x - 1) - line_off ls (sl_start x - 2) \<le> line_off ls count - line_off ls (count - 1)"
  proof (cases "sl_start x = count + 1")
    case False
    then show ?thesis
      using assms(3) True by simp
  qed simp
  then have "pt_getOffsetRange (new_Range (sl_start x - 2 + 1) (line_off ls (sl_start x - 1) - line_off ls (sl_start x - 2))
        (count - 1 + 1) (line_off ls count - line_off ls (count - 1))) (new_PositionOffsetTransformer s) =
      Inr (Some (line_off ls (sl_start x - 1) - 1), Some (line_off ls count - 1))"
    using range_offsets [of "sl_start x - 2" "count - 1" "line_off ls (sl_start x - 1) - line_off ls (sl_start x - 2)" "line_off ls count - line_off ls (count - 1)"]
      start assms(3) True some_line le by simp
  then show ?thesis
    using start assms(5) True at
    by (simp add: sl_deletion_def text_lines end_of_text len range_fromPositions_def new_SingleTextEdit_def offsets_of_def
      new_SingleOffsetEdit_def line_off_all Let_def)
next
  case False
  have "sl_start x < sl_end x \<or> sl_start x = sl_end x"
    using assms(3) by auto
  with False show ?thesis
    using range_offsets [of "sl_start x - 1" "sl_end x - 1" 1 1] assms line_off_mono [of "sl_start x - 1" "sl_end x - 1" ls]
    by (simp add: sl_deletion_def text_lines new_SingleTextEdit_def offsets_of_def at_end_def new_SingleOffsetEdit_def Let_def)
qed

lemma insertion_offsets:
  assumes "CR \<notin> set s" and "1 \<le> sl_start x" and "sl_start x = sl_end x" and "sl_end x \<le> count + 1" and "sl_newLines x \<noteq> []"
  shows "\<exists>te. sl_insertion (new_PositionOffsetTransformer s) x = Some te \<and>
    pt_getOffsetRange (te_range te) (new_PositionOffsetTransformer s) = Inr (Some (edit_start (offsets_of ls x)), Some (edit_end (offsets_of ls x))) \<and>
    te_text te = newText (offsets_of ls x)"
proof (cases "sl_start x = count + 1")
  case True
  have len: "pt_getLineLength count (new_PositionOffsetTransformer s) = Some (line_off ls count - 1 - line_off ls (count - 1))"
    using line_length [OF assms(1), of "count - 1"] some_line by simp
  show ?thesis
    using True assms range_offsets [of "count - 1" "count - 1" "line_off ls count - line_off ls (count - 1)" "line_off ls count - line_off ls (count - 1)"] some_line
    by (simp add: sl_insertion_def text_lines range_fromPositions_def new_SingleTextEdit_def offsets_of_def at_end_def
      new_SingleOffsetEdit_def Let_def lr_isEmpty_def len)
next
  case False
  then show ?thesis
    using range_offsets [of "sl_start x - 1" "sl_start x - 1" 1 1] assms
    by (simp add: sl_insertion_def text_lines range_fromPositions_def new_SingleTextEdit_def offsets_of_def at_end_def
      new_SingleOffsetEdit_def Let_def lr_isEmpty_def ended_lines_def)
qed

lemma replacement_offsets:
  assumes "CR \<notin> set s" and "1 \<le> sl_start x" and "sl_start x < sl_end x" and "sl_end x \<le> count + 1" and "sl_newLines x \<noteq> []"
  shows "\<exists>te. sl_replacement (new_PositionOffsetTransformer s) x = Some te \<and>
    pt_getOffsetRange (te_range te) (new_PositionOffsetTransformer s) = Inr (Some (edit_start (offsets_of ls x)), Some (edit_end (offsets_of ls x))) \<and>
    te_text te = newText (offsets_of ls x)"
proof -
  have len: "pt_getLineLength (sl_end x - 1) (new_PositionOffsetTransformer s) = Some (line_off ls (sl_end x - 1) - 1 - line_off ls (sl_end x - 2))"
    using line_length [OF assms(1), of "sl_end x - 2"] assms by simp
  have less: "line_off ls (sl_start x - 1) < line_off ls (sl_end x - 1)" "line_off ls (sl_end x - 2) < line_off ls (sl_end x - 1)"
    using assms by (simp_all add: line_off_less)
  have "sl_start x - 1 < sl_end x - 2 \<or> sl_start x - 1 = sl_end x - 2 \<and> 1 \<le> line_off ls (sl_end x - 1) - line_off ls (sl_end x - 2)"
    using assms(3) less(2) by auto
  then have "pt_getOffsetRange (new_Range (sl_start x - 1 + 1) 1 (sl_end x - 2 + 1) (line_off ls (sl_end x - 1) - line_off ls (sl_end x - 2)))
      (new_PositionOffsetTransformer s) = Inr (Some (line_off ls (sl_start x - 1)), Some (line_off ls (sl_end x - 1) - 1))"
    using range_offsets [of "sl_start x - 1" "sl_end x - 2" 1 "line_off ls (sl_end x - 1) - line_off ls (sl_end x - 2)"] assms less by simp
  then show ?thesis
    using assms by (simp add: sl_replacement_def new_SingleTextEdit_def offsets_of_def at_end_def new_SingleOffsetEdit_def Let_def lr_isEmpty_def len)
qed

lemma sl_offsets:
  assumes "text_content t s" and "CR \<notin> set s" and "1 \<le> sl_start x" and "sl_start x \<le> sl_end x" and "sl_end x \<le> count + 1"
    and "at_end count x \<Longrightarrow> 1 < sl_start x"
  shows "sl_toSingleEdit t x = Inr (Some (offsets_of ls x))"
proof -
  note offsets = deletion_offsets [of x] insertion_offsets [of x] replacement_offsets [of x]
  have "\<exists>te. toSingleTextEdit t x = Inr (Some te) \<and>
    pt_getOffsetRange (te_range te) (new_PositionOffsetTransformer s) = Inr (Some (edit_start (offsets_of ls x)), Some (edit_end (offsets_of ls x))) \<and>
    te_text te = newText (offsets_of ls x)"
    using offsets assms by (auto simp: toSingleTextEdit_def text_content.transformer lr_isEmpty_def)
  then show ?thesis
    using assms(1) by (auto simp: sl_toSingleEdit_def text_content.transformer new_SingleOffsetEdit_def)
qed

end

text \<open>
  The edits are in order when the last lines are deleted only behind a kept or a replaced line. \<open>left\<close> says whether the
  edit before leaves the line feed before the line \<open>c\<close>.
\<close>

fun deletes_apart :: "int \<Rightarrow> bool \<Rightarrow> int \<Rightarrow> line_edit \<Rightarrow> bool" where
  "deletes_apart n left c [] \<longleftrightarrow> True"
| "deletes_apart n left c (x # xs) \<longleftrightarrow> (at_end n x \<longrightarrow> left \<or> c + 1 < sl_start x) \<and>
     deletes_apart n (at_end n x \<or> sl_newLines x \<noteq> [] \<and> \<not> lr_isEmpty (sl_lineRange x)) (sl_end x - 1) xs"

context lines_of_text
begin

lemma sub_gap:
  assumes "0 \<le> c" and "c \<le> a" and "a \<le> count" and "left \<Longrightarrow> 1 \<le> c"
  shows "sub (line_off ls c - of_bool left) (line_off ls a) = (if left then [LF] else []) @ ended_lines (between_lines c a ls)"
proof (cases left)
  case True
  then show ?thesis
    using sub_cat [of "line_off ls c - 1" "line_off ls c" "line_off ls a"] sub_line_feed [of c] sub_lines [of c a] assms
      line_off_pos [of c] line_off_mono [of c a ls] line_off_le [of a] by simp
qed (use assms sub_lines [of c a] in simp)

lemma inserted_end: "concat (map ((#) LF) ms) @ [LF] = LF # ended_lines ms"
  by (induction ms) simp_all

lemma rest_of_text:
  assumes "0 \<le> c" and "c \<le> count" and "left \<Longrightarrow> 1 \<le> c" and "\<not> left \<Longrightarrow> c < count"
  defines "p \<equiv> line_off ls c - of_bool left"
  shows "0 \<le> p" and "p \<le> int (length s)" and "js_substring_from s p @ [LF] = (if left then [LF] else []) @ ended_lines (drop (nat c) ls)"
proof -
  have "0 \<le> p \<and> p \<le> int (length s)"
  proof (cases left)
    case True
    then show ?thesis
      using line_off_pos [of c] line_off_le [of c] assms(1-3) by (simp add: p_def)
  next
    case False
    then show ?thesis
      using line_off_lt [of c] line_off_mono [of 0 c ls] assms(1,4) by (simp add: p_def)
  qed
  then show bounds: "0 \<le> p" "p \<le> int (length s)"
    by simp_all
  have "js_substring_from s p @ [LF] = sub p (line_off ls count)"
    using bounds sub_up_to [of count p] some_line line_off_all sub_of_text [of p "int (length s)"] by (simp add: js_substring_from_def)
  then show "js_substring_from s p @ [LF] = (if left then [LF] else []) @ ended_lines (drop (nat c) ls)"
    using sub_gap [of c count left] assms(1-3) some_line by (simp add: p_def between_lines_def)
qed

lemma apply_offsets:
  "0 \<le> c \<Longrightarrow> line_fits c es count \<Longrightarrow> deletes_apart count left c es \<Longrightarrow> (left \<longrightarrow> 1 \<le> c) \<Longrightarrow> (\<not> left \<longrightarrow> c < count) \<Longrightarrow>
     fits (line_off ls c - of_bool left) (map (offsets_of ls) es) (int (length s)) \<and>
     apply_loop s (line_off ls c - of_bool left) (map (offsets_of ls) es) @ [LF] = (if left then [LF] else []) @ ended_lines (applied ls c es)"
proof (induction es arbitrary: c left)
  case Nil
  then show ?case
    using rest_of_text [of c left] by simp
next
  case (Cons x xs)
  define p where "p = line_off ls c - of_bool left"
  let ?a = "sl_start x - 1" and ?b = "sl_end x - 1" and ?e = "offsets_of ls x"
  let ?left = "at_end count x \<or> sl_newLines x \<noteq> [] \<and> \<not> lr_isEmpty (sl_lineRange x)"
  have order: "c \<le> ?a" "?a \<le> ?b" "?b \<le> count"
    using Cons.prems line_fits_le [of ?b xs count] by auto
  have p: "0 \<le> p" "p \<le> int (length s)"
    using rest_of_text [of c left] Cons.prems order by (auto simp: p_def)
  have gap: "sub p (line_off ls ?a) = (if left then [LF] else []) @ ended_lines (between_lines c ?a ls)"
    unfolding p_def using sub_gap [of c ?a left] Cons.prems order by simp
  have ab: "line_off ls ?a \<le> line_off ls ?b" "line_off ls ?b \<le> int (length s) + 1"
    using line_off_mono [of ?a ?b ls] line_off_le [of ?b] Cons.prems(1) order by auto
  have "?left \<Longrightarrow> 1 \<le> ?b" "\<not> ?left \<Longrightarrow> ?b < count"
    using Cons.prems order some_line by (auto simp: at_end_def lr_isEmpty_def)
  then have rest: "fits (line_off ls ?b - of_bool ?left) (map (offsets_of ls) xs) (int (length s))"
      "apply_loop s (line_off ls ?b - of_bool ?left) (map (offsets_of ls) xs) @ [LF] = (if ?left then [LF] else []) @ ended_lines (applied ls ?b xs)"
    using Cons.IH [of ?b ?left] Cons.prems order by auto
  have stop: "edit_end ?e = line_off ls ?b - of_bool ?left"
    by (auto simp: offsets_of_def new_SingleOffsetEdit_def Let_def)
  have main: "p \<le> edit_start ?e \<and> edit_start ?e \<le> edit_end ?e \<and>
      js_substring s p (edit_start ?e) @ newText ?e @ (if ?left then [LF] else []) =
      (if left then [LF] else []) @ ended_lines (between_lines c ?a ls) @ ended_lines (sl_newLines x)"
  proof (cases "at_end count x")
    case True
    then have "left \<or> c < ?a" "1 \<le> ?a"
      using Cons.prems order by auto
    then have "p < line_off ls ?a"
      using line_off_less [of c ?a ls] line_off_mono [of c ?a ls] Cons.prems(1) order by (auto simp: p_def)
    then have "js_substring s p (line_off ls ?a - 1) @ [LF] = sub p (line_off ls ?a)"
      using sub_up_to [of ?a p] sub_of_text [of p "line_off ls ?a - 1"] p(1) ab order \<open>1 \<le> ?a\<close> by simp
    with True \<open>p < line_off ls ?a\<close> ab gap show ?thesis
      using inserted_end [of "sl_newLines x"] by (simp add: offsets_of_def new_SingleOffsetEdit_def Let_def)
  next
    case False
    then have "?a < count"
      using Cons.prems order by (auto simp: at_end_def lr_isEmpty_def)
    then have le: "line_off ls ?a \<le> int (length s)" "p \<le> line_off ls ?a"
      using line_off_lt [of ?a] line_off_mono [of c ?a ls] Cons.prems(1) order by (auto simp: p_def)
    then have "js_substring s p (line_off ls ?a) = sub p (line_off ls ?a)"
      using p(1) by (intro sub_of_text) auto
    moreover have "line_off ls ?a < line_off ls ?b" if "\<not> lr_isEmpty (sl_lineRange x)"
      using line_off_less [of ?a ?b ls] that Cons.prems(1) order by (simp add: lr_isEmpty_def)
    ultimately show ?thesis
      using False gap ab le ended_join [of "sl_newLines x"] by (auto simp: offsets_of_def new_SingleOffsetEdit_def Let_def)
  qed
  show ?case
    unfolding p_def [symmetric] using main rest by (simp add: stop)
qed

end

interpretation text_lines: lines_of_text s "js_split LF s" for s
  using js_split_pieces [of _ LF s] ended_join [of "js_split LF s"] by unfold_locales (auto simp: js_join_split)

lemma splitLines_split: "CR \<notin> set s \<Longrightarrow> splitLines s = js_split LF s"
  by (induction s rule: splitLines.induct) (auto split: list.splits)

lemma end_not_first:
  "0 \<le> c \<Longrightarrow> line_fits c e n \<Longrightarrow> deletes_apart n left c e \<Longrightarrow> (left \<longrightarrow> 1 \<le> c) \<Longrightarrow> 1 \<le> n \<Longrightarrow> x \<in> set e \<Longrightarrow> at_end n x \<Longrightarrow> 1 < sl_start x"
proof (induction n left c e rule: deletes_apart.induct)
  case (2 n left c y xs)
  then show ?case
    by (cases "x = y") (auto simp: at_end_def lr_isEmpty_def)
qed simp

lemma all_offsets:
  "(\<And>x. x \<in> set e \<Longrightarrow> sl_toSingleEdit t x = Inr (Some (f x))) \<Longrightarrow>
     bind_result (map_result (sl_toSingleEdit t) e) (\<lambda>es. Inr (all_some es)) = Inr (Some (map f e))"
  by (induction e) (auto simp: bind_result_def split: sum.splits)

lemma line_text_of:
  assumes "has_content s t" and "CR \<notin> set s"
  shows "getLines t = Inr (js_split LF s)"
  using text_content.content_value [OF has_content_text [OF assms(1)]] assms(2) by (simp add: getLines_def splitLines_split)

text \<open>
  C0: an edit by lines is an edit of the text. Of a text without carriage returns, a string or an array of lines, take
  a \<open>LineEdit\<close> that its constructor accepts and whose lines exist, and that deletes last lines only behind a kept or a
  replaced line. Then \<open>toEdit\<close> throws nothing, and the \<open>OffsetEdit\<close> it gives turns the text into the lines that \<open>apply\<close>
  gives, joined by line feeds.
\<close>

theorem line_edit_refines_offset_edit:
  assumes "has_content s t" and "CR \<notin> set s" and "getLines t = Inr ls"
    and "new_LineEdit e = Inr e" and "fits_lines (int (length ls)) e" and "deletes_apart (int (length ls)) False 0 e"
  shows "\<exists>edit ls'. le_toEdit t e = Inr (Some edit) \<and> le_apply ls e = map Some ls' \<and> ls' \<noteq> [] \<and> oe_apply edit s = js_join [LF] ls'"
proof -
  have ls: "ls = js_split LF s"
    using line_text_of [OF assms(1,2)] assms(3) by simp
  have fits: "line_fits 0 e (int (length ls))"
    using fits_start [OF assms(4,5)] by simp
  have "sl_toSingleEdit t x = Inr (Some (offsets_of ls x))" if "x \<in> set e" for x
    using text_lines.sl_offsets [of t s x] has_content_text [OF assms(1)] assms that text_lines.some_line [of s]
      end_not_first [OF _ fits assms(6), of x] by (auto simp: ls fits_lines_def)
  then have edits: "bind_result (map_result (sl_toSingleEdit t) e) (\<lambda>es. Inr (all_some es)) = Inr (Some (map (offsets_of ls) e))"
    by (rule all_offsets)
  have "fits 0 (map (offsets_of ls) e) (int (length s))" and
    result: "apply_loop s 0 (map (offsets_of ls) e) @ [LF] = ended_lines (applied ls 0 e)"
    using text_lines.apply_offsets [of 0 e s False] fits assms(6) text_lines.some_line [of s] by (simp_all add: ls)
  then have "le_toEdit t e = Inr (Some (map (offsets_of ls) e))"
    using edits new_OffsetEdit_ok by (auto simp: le_toEdit_def bind_result_def split: sum.splits)
  moreover have "le_apply ls e = map Some (applied ls 0 e)"
    by (rule le_apply_applied [OF assms(4,5)])
  ultimately show ?thesis
    using ended_eq_join [OF result] by (auto simp: oe_apply_def)
qed

theorem line_edit_refines_offset_edit_witness:
  "\<exists>edit. le_toEdit (StringText [97, LF, 98, LF, 99]) line_edit_example = Inr (Some edit) \<and>
    oe_apply edit [97, LF, 98, LF, 99] = [120, LF, 121, LF, 98]"
proof -
  have "getLines (StringText [97, LF, 98, LF, 99]) = Inr [[97], [98], [99]]"
    by code_simp
  moreover have "deletes_apart 3 False 0 line_edit_example"
    by code_simp
  moreover have "le_apply [[97], [98], [99]] line_edit_example = map Some [[120], [121], [98]]"
    by code_simp
  ultimately show ?thesis
    using line_edit_refines_offset_edit [of "[97, LF, 98, LF, 99]" "StringText [97, LF, 98, LF, 99]" "[[97], [98], [99]]" line_edit_example]
      example_valid by (fastforce simp: has_content_def inj_map_eq_map)
qed

text \<open>
  touching edits. The constructor accepts edits that touch, and \<open>apply\<close> does what they say; \<open>toEdit\<close> throws when the
  second of two touching deletions reaches the end of the text: there the line feed before the lines is deleted, not the one
  behind them, and that one belongs to the first deletion. Deleting all lines and inserting others behind them
  leaves an empty first line in the text.
\<close>

theorem touching_deletions_throw:
  "le_deserialize [(2, 3, []), (3, 4, [])] =
     Inr [\<lparr>sl_lineRange = \<lparr>startLine = 2, endLineExclusive = 3\<rparr>, sl_newLines = []\<rparr>,
          \<lparr>sl_lineRange = \<lparr>startLine = 3, endLineExclusive = 4\<rparr>, sl_newLines = []\<rparr>] \<and>
   bind_result (le_deserialize [(2, 3, []), (3, 4, [])]) (le_toEdit (StringText [97, LF, 98, LF, 99])) = Inl BugIndicatingError \<and>
   bind_result (le_deserialize [(2, 3, []), (3, 4, [])]) (\<lambda>e. Inr (le_apply [[97], [98], [99]] e)) = Inr [Some [97]] \<and>
   bind_result (le_deserialize [(1, 2, []), (2, 2, [[98]])]) (\<lambda>e. Inr (le_apply [[97]] e)) = Inr [Some [98]] \<and>
   bind_result (le_deserialize [(1, 2, []), (2, 2, [[98]])]) (le_toEdit (StringText [97])) =
     Inr (Some [new_SingleOffsetEdit \<lparr>or_start = 0, or_endExclusive = 1\<rparr> [], new_SingleOffsetEdit \<lparr>or_start = 1, or_endExclusive = 1\<rparr> [LF, 98]])"
  by code_simp

end
