(* ===== verification/Table_Cache.thy ===== *)
theory Table_Cache
  imports Js_Prelude
begin

unbundle bit_operations_syntax

text \<open>
  The cache of the data explorer's table: the class \<open>TableDataCache\<close> of
  \<open>src/vs/workbench/services/positronDataExplorer/common/tableDataCache.ts\<close>. Its asynchronous method \<open>update\<close> is cut at
  its awaits: \<open>tc_waiting\<close> holds the local variables at the await where it stands, \<open>tc_answer\<close> goes on with the
  answer of the client that talks to the runtime, which is a parameter. \<open>tc_updating\<close> is the flag of the code: it stays set when a
  request is rejected. \<open>tc_trim\<close> is the timeout with what its callback has captured, \<open>tc_fired\<close> counts the events
  fired. An index read past the end of an array is \<open>undefined\<close>, which may become a key of a \<open>Map\<close>, so keys are options where that can happen.
\<close>

section \<open>Cells\<close>

datatype data_cell_kind = KindNonNull | KindNull | KindNA | KindNaN | KindNotATime | KindNone | KindInfinity | KindNegInfinity | KindUnknown

record data_cell =
  cell_formatted :: jsstring
  cell_kind :: data_cell_kind

text \<open>A value from the runtime is the code of a special value or a formatted text.\<close>

datatype data_value = SpecialValue int | FormattedValue jsstring

definition SpecialValues :: "(int \<times> data_cell_kind \<times> jsstring) list" where
  "SpecialValues =
     [(0, KindNull, js ''NULL''), (1, KindNA, js ''NA''), (2, KindNaN, js ''NaN''), (3, KindNotATime, js ''NaT''),
      (4, KindNone, js ''None''), (10, KindInfinity, js ''INF''), (11, KindNegInfinity, js ''-INF'')]"

definition decodeSpecialValue :: "int \<Rightarrow> data_cell" where
  "decodeSpecialValue v =
     (case map_of SpecialValues v of
        Some (kind, formatted) \<Rightarrow> \<lparr>cell_formatted = formatted, cell_kind = kind\<rparr>
      | None \<Rightarrow> \<lparr>cell_formatted = js ''UNKNOWN'', cell_kind = KindUnknown\<rparr>)"

definition cell_of :: "data_value \<Rightarrow> data_cell" where
  "cell_of v = (case v of SpecialValue n \<Rightarrow> decodeSpecialValue n | FormattedValue s \<Rightarrow> \<lparr>cell_formatted = s, cell_kind = KindNonNull\<rparr>)"

section \<open>Requests\<close>

text \<open>Of a column's schema, the fields that the cache reads.\<close>

record column_schema =
  column_name :: jsstring
  type_name :: jsstring

datatype array_selection = SelectRange int int | SelectIndices "int list"

record column_selection =
  column_index :: int
  spec :: array_selection

text \<open>The row index of the \<open>i\<close>th answer to a selection.\<close>

definition selected_row :: "array_selection \<Rightarrow> nat \<Rightarrow> int option" where
  "selected_row sel i = (case sel of SelectRange a b \<Rightarrow> Some (a + int i) | SelectIndices is \<Rightarrow> js_get is (int i))"

definition arrayFromIndexRange :: "int \<Rightarrow> int \<Rightarrow> int list" where
  "arrayFromIndexRange start stop = [start..stop]"

text \<open>The loops that collect the rows that are not cached and note whether they are contiguous.\<close>

fun missing_loop :: "(int \<Rightarrow> bool) \<Rightarrow> int list \<Rightarrow> int list \<Rightarrow> bool \<Rightarrow> int list \<times> bool" where
  "missing_loop has [] indices contiguous = (indices, contiguous)"
| "missing_loop has (r # rs) indices contiguous =
     (if \<not> has r
      then let indices = indices @ [r]
           in missing_loop has rs indices
             (if contiguous \<and> length indices > 1 \<and> indices ! (length indices - 2) + 1 \<noteq> indices ! (length indices - 1) then False else contiguous)
      else missing_loop has rs indices contiguous)"

definition missing_selection :: "(int \<Rightarrow> bool) \<Rightarrow> int \<Rightarrow> int \<Rightarrow> array_selection option" where
  "missing_selection has start stop =
     (let (indices, contiguous) = missing_loop has [start..stop] [] True
      in if indices = [] then None
         else if \<not> contiguous then Some (SelectIndices indices)
         else Some (SelectRange (hd indices) (last indices)))"

section \<open>The cache\<close>

record update_descriptor =
  invalidateCache :: int
  firstColumnIndex :: int
  screenColumns :: int
  firstRowIndex :: int
  screenRows :: int

definition invalidates_schemas :: "update_descriptor \<Rightarrow> bool" where
  "invalidates_schemas ud \<longleftrightarrow> invalidateCache ud AND 1 = 1"

definition invalidates_data :: "update_descriptor \<Rightarrow> bool" where
  "invalidates_data ud \<longleftrightarrow> invalidateCache ud AND 2 = 2"

record update_window =
  uw_update :: update_descriptor
  uw_startColumn :: int
  uw_endColumn :: int
  uw_startRow :: int
  uw_endRow :: int

text \<open>The awaits of \<open>update\<close>, with the local variables that are still needed.\<close>

datatype update_phase =
    AwaitingState update_descriptor
  | AwaitingSchema update_descriptor int int "int list" bool
  | AwaitingRowLabels update_window "column_selection list" array_selection
  | AwaitingData update_window "column_selection list" "(array_selection \<times> jsstring list list) option"

record table_cache =
  tc_updating :: bool
  tc_pending :: "update_descriptor option"
  tc_trim :: "update_window option"
  tc_columns :: int
  tc_rows :: int
  tc_hasRowLabels :: bool
  tc_schemas :: "int option \<rightharpoonup> column_schema"
  tc_labels :: "int option \<rightharpoonup> jsstring"
  tc_cells :: "int \<rightharpoonup> (int option \<rightharpoonup> data_cell)"
  tc_fired :: nat
  tc_waiting :: "update_phase option"

definition new_TableDataCache :: table_cache where
  "new_TableDataCache =
     \<lparr>tc_updating = False, tc_pending = None, tc_trim = None, tc_columns = 0, tc_rows = 0, tc_hasRowLabels = False,
      tc_schemas = Map.empty, tc_labels = Map.empty, tc_cells = Map.empty, tc_fired = 0, tc_waiting = None\<rparr>"

definition clearTrimCacheTimeout :: "table_cache \<Rightarrow> table_cache" where
  "clearTrimCacheTimeout s = s\<lparr>tc_trim := None\<rparr>"

definition tc_fire :: "table_cache \<Rightarrow> table_cache" where
  "tc_fire s = s\<lparr>tc_fired := Suc (tc_fired s)\<rparr>"

abbreviation (input) OVERSCAN_FACTOR :: int where
  "OVERSCAN_FACTOR \<equiv> 3"

definition tc_update :: "update_descriptor \<Rightarrow> table_cache \<Rightarrow> table_cache" where
  "tc_update ud s =
     (if tc_updating s then s\<lparr>tc_pending := Some ud\<rparr>
      else (clearTrimCacheTimeout s)\<lparr>tc_updating := True, tc_waiting := Some (AwaitingState ud)\<rparr>)"

text \<open>The columns of the window, the state, and the indexes of the schemas to load.\<close>

definition start_index :: "int \<Rightarrow> int \<Rightarrow> int" where
  "start_index first screen = max 0 (first - screen * OVERSCAN_FACTOR)"

definition end_index :: "int \<Rightarrow> int \<Rightarrow> int \<Rightarrow> int" where
  "end_index count first screen = min (count - 1) (first + screen + screen * OVERSCAN_FACTOR)"

definition tc_gotState :: "update_descriptor \<Rightarrow> int \<Rightarrow> int \<Rightarrow> bool \<Rightarrow> table_cache \<Rightarrow> table_cache" where
  "tc_gotState ud columns rows hasRowLabels s =
     (let s = s\<lparr>tc_columns := columns, tc_rows := rows, tc_hasRowLabels := hasRowLabels\<rparr>;
          startColumn = start_index (firstColumnIndex ud) (screenColumns ud);
          endColumn = end_index (tc_columns s) (firstColumnIndex ud) (screenColumns ud);
          columnIndices = (if invalidates_schemas ud then arrayFromIndexRange startColumn endColumn
            else filter (\<lambda>c. tc_schemas s (Some c) = None) [startColumn..endColumn]);
          s = (if invalidates_schemas ud then s\<lparr>tc_schemas := Map.empty\<rparr> else s)
      in s\<lparr>tc_waiting := Some (AwaitingSchema ud startColumn endColumn columnIndices hasRowLabels)\<rparr>)"

fun store_schemas :: "int list \<Rightarrow> int \<Rightarrow> column_schema list \<Rightarrow> (int option \<rightharpoonup> column_schema) \<Rightarrow> (int option \<rightharpoonup> column_schema)" where
  "store_schemas columnIndices i [] m = m"
| "store_schemas columnIndices i (c # cs) m = store_schemas columnIndices (i + 1) cs (m(js_get columnIndices i \<mapsto> c))"

text \<open>The selection of one column, and of all columns of the window.\<close>

definition column_request :: "update_window \<Rightarrow> table_cache \<Rightarrow> int \<Rightarrow> column_selection option" where
  "column_request w s c =
     (case tc_cells s c of
        None \<Rightarrow> Some \<lparr>column_index = c, spec = SelectRange (uw_startRow w) (uw_endRow w)\<rparr>
      | Some dataColumn \<Rightarrow>
          map_option (\<lambda>sel. \<lparr>column_index = c, spec = sel\<rparr>)
            (missing_selection (\<lambda>r. dataColumn (Some r) \<noteq> None) (uw_startRow w) (uw_endRow w)))"

definition column_requests :: "update_window \<Rightarrow> table_cache \<Rightarrow> column_selection list" where
  "column_requests w s =
     (if invalidates_data (uw_update w)
      then map (\<lambda>c. \<lparr>column_index = c, spec = SelectRange (uw_startRow w) (uw_endRow w)\<rparr>) [uw_startColumn w..uw_endColumn w]
      else List.map_filter (column_request w s) [uw_startColumn w..uw_endColumn w])"

definition label_request :: "update_window \<Rightarrow> bool \<Rightarrow> table_cache \<Rightarrow> array_selection option" where
  "label_request w hasRowLabels s =
     (if \<not> hasRowLabels then None
      else if invalidates_data (uw_update w) then Some (SelectRange (uw_startRow w) (uw_endRow w))
      else missing_selection (\<lambda>r. tc_labels s (Some r) \<noteq> None) (uw_startRow w) (uw_endRow w))"

definition request_data :: "update_window \<Rightarrow> column_selection list \<Rightarrow> (array_selection \<times> jsstring list list) option \<Rightarrow> table_cache \<Rightarrow> table_cache" where
  "request_data w sels rowLabels s =
     (let s = (if invalidates_data (uw_update w) then s\<lparr>tc_labels := Map.empty, tc_cells := Map.empty\<rparr> else s)
      in s\<lparr>tc_waiting := Some (AwaitingData w sels rowLabels)\<rparr>)"

definition tc_gotSchema ::
    "update_descriptor \<Rightarrow> int \<Rightarrow> int \<Rightarrow> int list \<Rightarrow> bool \<Rightarrow> column_schema list \<Rightarrow> table_cache \<Rightarrow> table_cache" where
  "tc_gotSchema ud startColumn endColumn columnIndices hasRowLabels columns s =
     (let s = tc_fire (s\<lparr>tc_schemas := store_schemas columnIndices 0 columns (tc_schemas s)\<rparr>);
          w = \<lparr>uw_update = ud, uw_startColumn = startColumn, uw_endColumn = endColumn,
            uw_startRow = start_index (firstRowIndex ud) (screenRows ud), uw_endRow = end_index (tc_rows s) (firstRowIndex ud) (screenRows ud)\<rparr>;
          sels = column_requests w s
      in case label_request w hasRowLabels s of
           None \<Rightarrow> request_data w sels None s
         | Some rowLabels \<Rightarrow> s\<lparr>tc_waiting := Some (AwaitingRowLabels w sels rowLabels)\<rparr>)"

text \<open>
  Storing the values of a column and the columns. A column that was not asked for throws when its selection is read:
  the flag says whether all columns were stored.
\<close>

definition store_column :: "array_selection \<Rightarrow> data_value list \<Rightarrow> (int option \<rightharpoonup> data_cell) \<Rightarrow> (int option \<rightharpoonup> data_cell)" where
  "store_column sel vs m = fold (\<lambda>i m. m(selected_row sel i \<mapsto> cell_of (vs ! i))) [0..<length vs] m"

fun store_columns ::
    "column_selection list \<Rightarrow> data_value list list \<Rightarrow> (int \<rightharpoonup> (int option \<rightharpoonup> data_cell)) \<Rightarrow> (int \<rightharpoonup> (int option \<rightharpoonup> data_cell)) \<times> bool" where
  "store_columns sels [] m = (m, True)"
| "store_columns [] (vs # vss) m = (m, False)"
| "store_columns (sel # sels) (vs # vss) m =
     store_columns sels vss
       (m(column_index sel \<mapsto> store_column (spec sel) vs (case m (column_index sel) of None \<Rightarrow> Map.empty | Some dataColumn \<Rightarrow> dataColumn)))"

definition store_labels :: "array_selection \<Rightarrow> jsstring list \<Rightarrow> (int option \<rightharpoonup> jsstring) \<Rightarrow> (int option \<rightharpoonup> jsstring)" where
  "store_labels sel ls m = fold (\<lambda>i m. m(selected_row sel i \<mapsto> ls ! i)) [0..<length ls] m"

text \<open>A request that is rejected, or an exception, ends the asynchronous method where it stands.\<close>

definition tc_rejected :: "table_cache \<Rightarrow> table_cache" where
  "tc_rejected s = s\<lparr>tc_waiting := None\<rparr>"

definition tc_finish :: "update_window \<Rightarrow> table_cache \<Rightarrow> table_cache" where
  "tc_finish w s =
     (let s = (tc_fire s)\<lparr>tc_updating := False, tc_waiting := None\<rparr>
      in case tc_pending s of
           Some pending \<Rightarrow> tc_update pending (s\<lparr>tc_pending := None\<rparr>)
         | None \<Rightarrow> if invalidateCache (uw_update w) \<noteq> 3 then s\<lparr>tc_trim := Some w\<rparr> else s)"

definition tc_gotData ::
    "update_window \<Rightarrow> column_selection list \<Rightarrow> (array_selection \<times> jsstring list list) option \<Rightarrow> data_value list list \<Rightarrow> table_cache \<Rightarrow> table_cache" where
  "tc_gotData w sels rowLabels columns s =
     (let (cells, stored) = store_columns sels columns (tc_cells s);
          s = s\<lparr>tc_cells := cells\<rparr>
      in if \<not> stored then tc_rejected s
         else case rowLabels of
           None \<Rightarrow> tc_finish w s
         | Some (sel, []) \<Rightarrow> tc_rejected s
         | Some (sel, labels # _) \<Rightarrow> tc_finish w (s\<lparr>tc_labels := store_labels sel labels (tc_labels s)\<rparr>))"

datatype client_answer =
    StateAnswer int int bool
  | SchemaAnswer "column_schema list"
  | LabelsAnswer "jsstring list list"
  | DataAnswer "data_value list list"
  | Rejected

definition tc_answer :: "client_answer \<Rightarrow> table_cache \<Rightarrow> table_cache" where
  "tc_answer answer s =
     (case tc_waiting s of
        None \<Rightarrow> s
      | Some phase \<Rightarrow>
          (case (phase, answer) of
             (_, Rejected) \<Rightarrow> tc_rejected s
           | (AwaitingState ud, StateAnswer columns rows hasRowLabels) \<Rightarrow> tc_gotState ud columns rows hasRowLabels s
           | (AwaitingSchema ud a b is hasRowLabels, SchemaAnswer columns) \<Rightarrow> tc_gotSchema ud a b is hasRowLabels columns s
           | (AwaitingRowLabels w sels sel, LabelsAnswer labels) \<Rightarrow> request_data w sels (Some (sel, labels)) s
           | (AwaitingData w sels rowLabels, DataAnswer columns) \<Rightarrow> tc_gotData w sels rowLabels columns s
           | _ \<Rightarrow> s))"

section \<open>Trimming\<close>

definition outside :: "int \<Rightarrow> int \<Rightarrow> int option \<Rightarrow> bool" where
  "outside start stop k = (case k of None \<Rightarrow> False | Some i \<Rightarrow> i < start \<or> i > stop)"

definition trimColumnSchemaCache :: "int \<Rightarrow> int \<Rightarrow> table_cache \<Rightarrow> table_cache" where
  "trimColumnSchemaCache startColumn endColumn s =
     s\<lparr>tc_schemas := (\<lambda>k. if outside startColumn endColumn k then None else tc_schemas s k)\<rparr>"

definition trimDataCache :: "int \<Rightarrow> int \<Rightarrow> int \<Rightarrow> int \<Rightarrow> table_cache \<Rightarrow> table_cache" where
  "trimDataCache startColumn endColumn startRow endRow s =
     s\<lparr>tc_labels := (\<lambda>k. if outside startRow endRow k then None else tc_labels s k),
       tc_cells := (\<lambda>c. if c < startColumn \<or> c > endColumn then None
         else map_option (\<lambda>dataColumn k. if outside startRow endRow k then None else dataColumn k) (tc_cells s c))\<rparr>"

definition tc_trimTimeout :: "table_cache \<Rightarrow> table_cache" where
  "tc_trimTimeout s =
     (case tc_trim s of
        None \<Rightarrow> s
      | Some w \<Rightarrow>
          (let s = s\<lparr>tc_trim := None\<rparr>;
               s = (if \<not> invalidates_schemas (uw_update w) then trimColumnSchemaCache (uw_startColumn w) (uw_endColumn w) s else s)
           in if \<not> invalidates_data (uw_update w)
              then trimDataCache (uw_startColumn w) (uw_endColumn w) (uw_startRow w) (uw_endRow w) s else s))"

section \<open>Reading\<close>

definition getColumnSchema :: "int \<Rightarrow> table_cache \<Rightarrow> column_schema option" where
  "getColumnSchema c s = tc_schemas s (Some c)"

definition getRowLabel :: "int \<Rightarrow> table_cache \<Rightarrow> jsstring" where
  "getRowLabel r s =
     (if tc_hasRowLabels s then (case tc_labels s (Some r) of None \<Rightarrow> js ''...'' | Some l \<Rightarrow> l) else int_string r)"

definition getDataCell :: "int \<Rightarrow> int \<Rightarrow> table_cache \<Rightarrow> data_cell option" where
  "getDataCell c r s = (case tc_cells s c of None \<Rightarrow> None | Some dataColumn \<Rightarrow> dataColumn (Some r))"

section \<open>The table as text\<close>

abbreviation (input) CHUNK_SIZE :: int where
  "CHUNK_SIZE \<equiv> 4096"

text \<open>
  The loops of \<open>getTableDataTSV\<close>. \<open>values\<close> is the answer to the request for the chunk that starts at a column and a row; columns and rows do
  not change meanwhile. The keys of the map are strings of a row and a column, here pairs.
\<close>

function chunks :: "int \<Rightarrow> int \<Rightarrow> (int \<times> int) list" where
  "chunks start n = (if start < n then (start, min (start + CHUNK_SIZE - 1) (n - 1)) # chunks (start + CHUNK_SIZE) n else [])"
  by pat_completeness auto
termination
  by (relation "measure (\<lambda>(start, n). nat (n - start))") auto

declare chunks.simps [simp del]

fun tsv_columns :: "column_selection list \<Rightarrow> data_value list list \<Rightarrow> (int \<times> int \<rightharpoonup> jsstring) \<Rightarrow> (int \<times> int \<rightharpoonup> jsstring) result" where
  "tsv_columns sels [] m = Inr m"
| "tsv_columns [] (vs # vss) m = (if vs = [] then tsv_columns [] vss m else Inl TypeError)"
| "tsv_columns (sel # sels) (vs # vss) m =
     tsv_columns sels vss
       (case spec sel of
          SelectRange a b \<Rightarrow> fold (\<lambda>i m. m((a + int i, column_index sel) \<mapsto> cell_formatted (cell_of (vs ! i)))) [0..<length vs] m
        | SelectIndices is \<Rightarrow> m)"

fun tsv_chunks ::
    "(int \<Rightarrow> int \<Rightarrow> column_selection list \<Rightarrow> data_value list list) \<Rightarrow> ((int \<times> int) \<times> (int \<times> int)) list \<Rightarrow> (int \<times> int \<rightharpoonup> jsstring) \<Rightarrow> (int \<times> int \<rightharpoonup> jsstring) result" where
  "tsv_chunks answer [] m = Inr m"
| "tsv_chunks answer (((startColumn, endColumn), (startRow, endRow)) # cs) m =
     (let columns = map (\<lambda>c. \<lparr>column_index = c, spec = SelectRange startRow endRow\<rparr>) [startColumn..endColumn]
      in bind_result (tsv_columns columns (answer startColumn startRow columns) m) (tsv_chunks answer cs))"

definition tsv_row :: "(int \<times> int \<rightharpoonup> jsstring) \<Rightarrow> int \<Rightarrow> int \<Rightarrow> jsstring" where
  "tsv_row m columns r =
     concat (map (\<lambda>c. (if c \<noteq> 0 then [9] else []) @ (case m (r, c) of None \<Rightarrow> js ''undefined'' | Some t \<Rightarrow> t)) [0..columns - 1])"

definition getTableDataTSV :: "(int \<Rightarrow> int \<Rightarrow> column_selection list \<Rightarrow> data_value list list) \<Rightarrow> table_cache \<Rightarrow> jsstring result" where
  "getTableDataTSV answer s =
     bind_result (tsv_chunks answer (List.product (chunks 0 (tc_columns s)) (chunks 0 (tc_rows s))) Map.empty) (\<lambda>m.
       Inr (concat (map (\<lambda>r. (if r \<noteq> 0 then [LF] else []) @ tsv_row m (tc_columns s) r) [0..tc_rows s - 1])))"

section \<open>The widths of columns\<close>

text \<open>
  \<open>calculateColumnLayoutEntries\<close> reads schemas and values page by page; \<open>schemas\<close> and \<open>values\<close> are the answers for the page
  that starts at a column, the width calculators stay set. \<open>columnWidths\<close> is an array that is written by index,
  with holes (\<open>None\<close>) where nothing was written.
\<close>

record width_calculators =
  columnHeaderWidth :: "jsstring \<Rightarrow> jsstring \<Rightarrow> int"
  columnValueWidth :: "int \<Rightarrow> int"

definition pinToRange :: "int \<Rightarrow> int \<Rightarrow> int \<Rightarrow> int" where
  "pinToRange v minimumValue maximumValue = min (max v minimumValue) maximumValue"

definition array_put :: "int \<Rightarrow> 'a \<Rightarrow> 'a option list \<Rightarrow> 'a option list" where
  "array_put i x xs = (xs @ replicate (nat (i + 1) - length xs) None)[nat i := Some x]"

definition header_widths :: "width_calculators \<Rightarrow> int \<Rightarrow> int \<Rightarrow> int \<Rightarrow> column_schema list \<Rightarrow> int option list \<Rightarrow> int option list" where
  "header_widths calc minimum maximum columnIndex columns widths =
     fold (\<lambda>i. array_put (columnIndex + int i)
         (pinToRange (columnHeaderWidth calc (column_name (columns ! i)) (type_name (columns ! i))) minimum maximum))
       [0..<length columns] widths"

text \<open>A comparison with a hole is false.\<close>

definition widen :: "int \<Rightarrow> int \<Rightarrow> int option list \<Rightarrow> int option list" where
  "widen i width widths =
     (case js_get widths i of Some (Some old) \<Rightarrow> if width > old then array_put i width widths else widths | _ \<Rightarrow> widths)"

definition value_widths :: "width_calculators \<Rightarrow> int \<Rightarrow> int \<Rightarrow> int \<Rightarrow> data_value list list \<Rightarrow> int option list \<Rightarrow> int option list" where
  "value_widths calc minimum maximum columnIndex columns widths =
     fold (\<lambda>c. fold (\<lambda>v. widen (columnIndex + int c)
         (pinToRange (columnValueWidth calc (int (length (cell_formatted (cell_of v))))) minimum maximum)) (columns ! c))
       [0..<length columns] widths"

abbreviation (input) MAX_AUTO_SIZE_COLUMNS :: int where
  "MAX_AUTO_SIZE_COLUMNS \<equiv> 1000"

abbreviation (input) AUTO_SIZE_COLUMNS_PAGE_SIZE :: int where
  "AUTO_SIZE_COLUMNS_PAGE_SIZE \<equiv> 250"

function width_pages ::
    "width_calculators \<Rightarrow> int \<Rightarrow> int \<Rightarrow> (int list \<Rightarrow> column_schema list) \<Rightarrow> (column_selection list \<Rightarrow> data_value list list) \<Rightarrow>
     int \<Rightarrow> int \<Rightarrow> int option list \<Rightarrow> int option list" where
  "width_pages calc minimum maximum schemas answer numColumns columnIndex widths =
     (if columnIndex < numColumns
      then let pageSize = min AUTO_SIZE_COLUMNS_PAGE_SIZE (numColumns - columnIndex);
               page = [columnIndex..columnIndex + pageSize - 1];
               widths = header_widths calc minimum maximum columnIndex (schemas page) widths;
               widths = value_widths calc minimum maximum columnIndex
                 (answer (map (\<lambda>c. \<lparr>column_index = c, spec = SelectRange 0 9\<rparr>) page)) widths
           in width_pages calc minimum maximum schemas answer numColumns (columnIndex + pageSize) widths
      else widths)"
  by pat_completeness auto
termination
  by (relation "measure (\<lambda>(calc, minimum, maximum, schemas, answer, numColumns, columnIndex, widths). nat (numColumns - columnIndex))") auto

declare width_pages.simps [simp del]

definition calculateColumnLayoutEntries ::
    "width_calculators option \<Rightarrow> int \<Rightarrow> int \<Rightarrow> int \<Rightarrow> (int list \<Rightarrow> column_schema list) \<Rightarrow> (column_selection list \<Rightarrow> data_value list list) \<Rightarrow>
     int option list option" where
  "calculateColumnLayoutEntries calc minimum maximum numColumns schemas answer =
     (case calc of None \<Rightarrow> None
      | Some calc \<Rightarrow>
          if numColumns = 0 \<or> numColumns > MAX_AUTO_SIZE_COLUMNS then None
          else Some (width_pages calc minimum maximum schemas answer numColumns 0 []))"

end
