(* ===== verification/Table_Cache_Laws.thy ===== *)
theory Table_Cache_Laws
  imports Table_Cache
begin

text \<open>
  Laws of the table cache. The client answers from a table, a \<open>data_table\<close>; \<open>table_answer\<close> is its answer at an await.
  Updates are asked for at any time, answers and the timeout of trimming come at any time. \<open>tc_inv\<close> is the invariant: what is cached is what the
  table says, and once no update runs, the window that was asked for last is cached.
\<close>

section \<open>The table behind the client\<close>

record data_table =
  dt_columns :: int
  dt_rows :: int
  dt_hasRowLabels :: bool
  dt_schema :: "int \<Rightarrow> column_schema"
  dt_value :: "int \<Rightarrow> int \<Rightarrow> data_value"
  dt_label :: "int \<Rightarrow> jsstring"

text \<open>A range that goes past the last row is answered up to the last row.\<close>

definition selected_rows :: "data_table \<Rightarrow> array_selection \<Rightarrow> int list" where
  "selected_rows T sel = (case sel of SelectRange a b \<Rightarrow> [a..min b (dt_rows T - 1)] | SelectIndices is \<Rightarrow> is)"

definition table_values :: "data_table \<Rightarrow> column_selection list \<Rightarrow> data_value list list" where
  "table_values T = map (\<lambda>sel. map (dt_value T (column_index sel)) (selected_rows T (spec sel)))"

fun table_answer :: "data_table \<Rightarrow> update_phase \<Rightarrow> client_answer" where
  "table_answer T (AwaitingState ud) = StateAnswer (dt_columns T) (dt_rows T) (dt_hasRowLabels T)"
| "table_answer T (AwaitingSchema ud a b is h) = SchemaAnswer (map (dt_schema T) is)"
| "table_answer T (AwaitingRowLabels w sels sel) = LabelsAnswer [map (dt_label T) (selected_rows T sel)]"
| "table_answer T (AwaitingData w sels rowLabels) = DataAnswer (table_values T sels)"

datatype cache_action = Ask update_descriptor | Answer | TrimTimeout

definition cache_step :: "data_table \<Rightarrow> cache_action \<Rightarrow> table_cache \<Rightarrow> table_cache" where
  "cache_step T a s =
     (case a of
        Ask ud \<Rightarrow> tc_update ud s
      | Answer \<Rightarrow> (case tc_waiting s of None \<Rightarrow> s | Some phase \<Rightarrow> tc_answer (table_answer T phase) s)
      | TrimTimeout \<Rightarrow> tc_trimTimeout s)"

definition cache_run :: "data_table \<Rightarrow> cache_action list \<Rightarrow> table_cache \<Rightarrow> table_cache" where
  "cache_run T acts s = fold (cache_step T) acts s"

section \<open>Selections\<close>

definition contiguous_list :: "int list \<Rightarrow> bool" where
  "contiguous_list xs \<longleftrightarrow> (\<forall>i. Suc i < length xs \<longrightarrow> xs ! i + 1 = xs ! Suc i)"

lemma contiguous_snoc:
  "contiguous_list (xs @ [x]) \<longleftrightarrow> contiguous_list xs \<and> (xs \<noteq> [] \<longrightarrow> last xs + 1 = x)"
proof (cases xs rule: rev_cases)
  case Nil
  then show ?thesis
    by (simp add: contiguous_list_def)
next
  case (snoc ys y)
  then show ?thesis
    by (auto simp: contiguous_list_def nth_append less_Suc_eq)
qed

lemma contiguous_range: "contiguous_list xs \<Longrightarrow> xs \<noteq> [] \<Longrightarrow> xs = [hd xs..last xs] \<and> hd xs \<le> last xs"
proof (induction xs rule: rev_induct)
  case (snoc x xs)
  then show ?case
    by (cases "xs = []") (auto simp: contiguous_snoc upto_rec2)
qed simp

lemma missing_loop_spec:
  "missing_loop has rs indices (contiguous_list indices) =
     (indices @ filter (\<lambda>r. \<not> has r) rs, contiguous_list (indices @ filter (\<lambda>r. \<not> has r) rs))"
proof (induction rs arbitrary: indices)
  case (Cons r rs)
  have "(if contiguous_list indices \<and> length (indices @ [r]) > 1 \<and>
        (indices @ [r]) ! (length (indices @ [r]) - 2) + 1 \<noteq> (indices @ [r]) ! (length (indices @ [r]) - 1) then False else contiguous_list indices) =
      contiguous_list (indices @ [r])"
  proof (cases "indices = []")
    case False
    then show ?thesis
      by (auto simp: contiguous_snoc nth_append last_conv_nth)
  qed (simp add: contiguous_list_def)
  then show ?case
    using Cons.IH [of "indices @ [r]"] Cons.IH [of indices] by (simp add: Let_def)
qed simp

lemma missing_selection_rows:
  assumes "stop \<le> dt_rows T - 1"
  shows "missing_selection has start stop = None \<Longrightarrow> \<forall>r. start \<le> r \<and> r \<le> stop \<longrightarrow> has r"
    and "missing_selection has start stop = Some sel \<Longrightarrow> set (selected_rows T sel) = {r. start \<le> r \<and> r \<le> stop \<and> \<not> has r}"
proof -
  let ?xs = "filter (\<lambda>r. \<not> has r) [start..stop]"
  have loop: "missing_loop has [start..stop] [] True = (?xs, contiguous_list ?xs)"
    using missing_loop_spec [of has "[start..stop]" "[]"] by (simp add: contiguous_list_def Let_def)
  show "missing_selection has start stop = None \<Longrightarrow> \<forall>r. start \<le> r \<and> r \<le> stop \<longrightarrow> has r"
    by (auto simp: missing_selection_def loop filter_empty_conv split: if_splits)
  show "set (selected_rows T sel) = {r. start \<le> r \<and> r \<le> stop \<and> \<not> has r}" if sel: "missing_selection has start stop = Some sel"
  proof (cases "contiguous_list ?xs")
    case False
    with sel show ?thesis
      by (auto simp: missing_selection_def loop selected_rows_def split: if_splits)
  next
    case True
    with sel have ne: "?xs \<noteq> []" and range: "sel = SelectRange (hd ?xs) (last ?xs)"
      by (auto simp: missing_selection_def loop split: if_splits)
    have "last ?xs \<le> dt_rows T - 1"
      using last_in_set [OF ne] assms by auto
    then have "selected_rows T sel = ?xs"
      using contiguous_range [OF True ne] by (simp add: range selected_rows_def min_absorb1)
    then show ?thesis
      by auto
  qed
qed

section \<open>Storing answers\<close>

text \<open>Storing values that depend on their keys.\<close>

lemma fold_store:
  "(\<And>i. i < n \<Longrightarrow> v i = h (k i)) \<Longrightarrow> fold (\<lambda>i m. m(k i \<mapsto> v i)) [0..<n] m = (\<lambda>q. if q \<in> k ` {0..<n} then Some (h q) else m q)"
proof (induction n)
  case (Suc n)
  have rest: "fold (\<lambda>i m. m(k i \<mapsto> v i)) [0..<n] m = (\<lambda>q. if q \<in> k ` {0..<n} then Some (h q) else m q)"
    using Suc.prems by (intro Suc.IH) simp
  have step: "fold (\<lambda>i m. m(k i \<mapsto> v i)) [0..<Suc n] m = (fold (\<lambda>i m. m(k i \<mapsto> v i)) [0..<n] m)(k n \<mapsto> v n)"
    by simp
  have "v n = h (k n)"
    using Suc.prems by simp
  then show ?case
    unfolding step rest by (auto simp: fun_eq_iff less_Suc_eq)
qed simp

lemma store_fold:
  assumes "\<And>i. i < length xs \<Longrightarrow> k i = Some (xs ! i) \<and> v i = g (xs ! i)"
  shows "fold (\<lambda>i m. m(k i \<mapsto> v i)) [0..<length xs] m = (\<lambda>q. case q of Some r \<Rightarrow> if r \<in> set xs then Some (g r) else m q | None \<Rightarrow> m q)"
proof -
  have "k ` {0..<length xs} = Some ` set xs"
    using assms by (force simp: set_conv_nth)
  then show ?thesis
    using fold_store [of "length xs" v "\<lambda>q. g (the q)" k m] assms by (auto simp: fun_eq_iff split: option.splits)
qed

lemma selected_row_nth: "i < length (selected_rows T sel) \<Longrightarrow> selected_row sel i = Some (selected_rows T sel ! i)"
proof (cases sel)
  case (SelectRange a b)
  moreover assume "i < length (selected_rows T sel)"
  ultimately have "a + int i \<le> min b (dt_rows T - 1)"
    by (auto simp: selected_rows_def)
  then show ?thesis
    by (simp add: SelectRange selected_row_def selected_rows_def nth_upto)
qed (auto simp: selected_row_def selected_rows_def js_get_def)

lemma store_column_spec:
  "store_column sel (map f (selected_rows T sel)) m =
     (\<lambda>q. case q of Some r \<Rightarrow> if r \<in> set (selected_rows T sel) then Some (cell_of (f r)) else m q | None \<Rightarrow> m q)"
  using store_fold [of "selected_rows T sel" "selected_row sel" "\<lambda>i. cell_of (map f (selected_rows T sel) ! i)" "\<lambda>r. cell_of (f r)" m]
  by (simp add: store_column_def selected_row_nth)

lemma store_labels_spec:
  "store_labels sel (map f (selected_rows T sel)) m =
     (\<lambda>q. case q of Some r \<Rightarrow> if r \<in> set (selected_rows T sel) then Some (f r) else m q | None \<Rightarrow> m q)"
  using store_fold [of "selected_rows T sel" "selected_row sel" "\<lambda>i. map f (selected_rows T sel) ! i" f m]
  by (simp add: store_labels_def selected_row_nth)

lemma store_schemas_loop:
  "store_schemas (pre @ is) (int (length pre)) (map f is) m =
     (\<lambda>q. case q of Some c \<Rightarrow> if c \<in> set is then Some (f c) else m q | None \<Rightarrow> m q)"
proof (induction "is" arbitrary: pre m)
  case Nil
  then show ?case
    by (auto split: option.splits)
next
  case (Cons c cs)
  have eq: "store_schemas ((pre @ [c]) @ cs) (int (length (pre @ [c]))) (map f cs) (m(Some c \<mapsto> f c)) =
      (\<lambda>q. case q of Some c' \<Rightarrow> if c' \<in> set cs then Some (f c') else (m(Some c \<mapsto> f c)) q | None \<Rightarrow> (m(Some c \<mapsto> f c)) q)"
    by (rule Cons.IH)
  have "js_get (pre @ c # cs) (int (length pre)) = Some c"
    by (simp add: js_get_def)
  with eq show ?case
    by (simp add: add.commute) (rule ext, auto split: option.splits)
qed

lemma store_schemas_spec:
  "store_schemas is 0 (map f is) m = (\<lambda>q. case q of Some c \<Rightarrow> if c \<in> set is then Some (f c) else m q | None \<Rightarrow> m q)"
  using store_schemas_loop [of "[]"] by simp

definition cell_at :: "(int \<rightharpoonup> (int option \<rightharpoonup> data_cell)) \<Rightarrow> int \<Rightarrow> int option \<rightharpoonup> data_cell" where
  "cell_at m c k = (case m c of None \<Rightarrow> None | Some dataColumn \<Rightarrow> dataColumn k)"

definition asked :: "data_table \<Rightarrow> column_selection list \<Rightarrow> int \<Rightarrow> int \<Rightarrow> bool" where
  "asked T sels c r \<longleftrightarrow> (\<exists>sel \<in> set sels. column_index sel = c \<and> r \<in> set (selected_rows T (spec sel)))"

lemma store_columns_spec:
  "snd (store_columns sels (table_values T sels) m) \<and>
   cell_at (fst (store_columns sels (table_values T sels) m)) c k =
     (case k of Some r \<Rightarrow> if asked T sels c r then Some (cell_of (dt_value T c r)) else cell_at m c k | None \<Rightarrow> cell_at m c k)"
proof (induction sels arbitrary: m)
  case Nil
  then show ?case
    by (auto simp: table_values_def asked_def split: option.splits)
next
  case (Cons sel sels)
  let ?old = "case m (column_index sel) of None \<Rightarrow> Map.empty | Some dataColumn \<Rightarrow> dataColumn"
  define m' where "m' = m(column_index sel \<mapsto> store_column (spec sel) (map (dt_value T (column_index sel)) (selected_rows T (spec sel))) ?old)"
  have step: "store_columns (sel # sels) (table_values T (sel # sels)) m = store_columns sels (table_values T sels) m'"
    by (simp add: table_values_def m'_def)
  have here: "cell_at m' c k = (case k of Some r \<Rightarrow> if asked T [sel] c r then Some (cell_of (dt_value T c r)) else cell_at m c k | None \<Rightarrow> cell_at m c k)"
    by (auto simp: m'_def cell_at_def asked_def store_column_spec split: option.splits)
  have either: "asked T (sel # sels) c r = (asked T [sel] c r \<or> asked T sels c r)" for r
    by (auto simp: asked_def)
  show ?case
  proof (cases k)
    case None
    then show ?thesis
      unfolding step using Cons.IH [of m'] here by simp
  next
    case (Some r)
    then show ?thesis
      unfolding step either using Cons.IH [of m'] here by simp
  qed
qed

section \<open>The invariant\<close>

definition window_of :: "data_table \<Rightarrow> update_descriptor \<Rightarrow> update_window" where
  "window_of T ud =
     \<lparr>uw_update = ud, uw_startColumn = start_index (firstColumnIndex ud) (screenColumns ud),
      uw_endColumn = end_index (dt_columns T) (firstColumnIndex ud) (screenColumns ud),
      uw_startRow = start_index (firstRowIndex ud) (screenRows ud), uw_endRow = end_index (dt_rows T) (firstRowIndex ud) (screenRows ud)\<rparr>"

definition column_in :: "update_window \<Rightarrow> int \<Rightarrow> bool" where
  "column_in w c \<longleftrightarrow> uw_startColumn w \<le> c \<and> c \<le> uw_endColumn w"

definition row_in :: "update_window \<Rightarrow> int \<Rightarrow> bool" where
  "row_in w r \<longleftrightarrow> uw_startRow w \<le> r \<and> r \<le> uw_endRow w"

definition table_known :: "data_table \<Rightarrow> table_cache \<Rightarrow> bool" where
  "table_known T s \<longleftrightarrow> tc_columns s = dt_columns T \<and> tc_rows s = dt_rows T \<and> tc_hasRowLabels s = dt_hasRowLabels T"

definition schemas_right :: "data_table \<Rightarrow> table_cache \<Rightarrow> bool" where
  "schemas_right T s \<longleftrightarrow> (\<forall>k v. tc_schemas s k = Some v \<longrightarrow> (\<exists>c. k = Some c \<and> v = dt_schema T c))"

definition data_right :: "data_table \<Rightarrow> table_cache \<Rightarrow> bool" where
  "data_right T s \<longleftrightarrow>
     (\<forall>k v. tc_labels s k = Some v \<longrightarrow> (\<exists>r. k = Some r \<and> v = dt_label T r)) \<and>
     (\<forall>c k v. cell_at (tc_cells s) c k = Some v \<longrightarrow> (\<exists>r. k = Some r \<and> v = cell_of (dt_value T c r)))"

definition schemas_cover :: "update_window \<Rightarrow> table_cache \<Rightarrow> bool" where
  "schemas_cover w s \<longleftrightarrow> (\<forall>c. column_in w c \<longrightarrow> tc_schemas s (Some c) \<noteq> None)"

definition cells_cover :: "update_window \<Rightarrow> table_cache \<Rightarrow> bool" where
  "cells_cover w s \<longleftrightarrow> (\<forall>c r. column_in w c \<longrightarrow> row_in w r \<longrightarrow> cell_at (tc_cells s) c (Some r) \<noteq> None)"

definition labels_cover :: "update_window \<Rightarrow> table_cache \<Rightarrow> bool" where
  "labels_cover w s \<longleftrightarrow> (\<forall>r. row_in w r \<longrightarrow> tc_labels s (Some r) \<noteq> None)"

definition shown :: "data_table \<Rightarrow> update_descriptor \<Rightarrow> table_cache \<Rightarrow> bool" where
  "shown T ud s \<longleftrightarrow> table_known T s \<and> schemas_right T s \<and> data_right T s \<and> schemas_cover (window_of T ud) s \<and>
     cells_cover (window_of T ud) s \<and> (dt_hasRowLabels T \<longrightarrow> labels_cover (window_of T ud) s)"

fun phase_update :: "update_phase \<Rightarrow> update_descriptor" where
  "phase_update (AwaitingState ud) = ud"
| "phase_update (AwaitingSchema ud a b is h) = ud"
| "phase_update (AwaitingRowLabels w sels sel) = uw_update w"
| "phase_update (AwaitingData w sels rowLabels) = uw_update w"

definition loading :: "data_table \<Rightarrow> update_window \<Rightarrow> table_cache \<Rightarrow> bool" where
  "loading T w s \<longleftrightarrow> w = window_of T (uw_update w) \<and> table_known T s \<and> schemas_right T s \<and> schemas_cover w s"

definition labels_asked :: "data_table \<Rightarrow> update_window \<Rightarrow> (array_selection \<times> jsstring list list) option \<Rightarrow> table_cache \<Rightarrow> bool" where
  "labels_asked T w rowLabels s \<longleftrightarrow>
     (case rowLabels of
        None \<Rightarrow> dt_hasRowLabels T \<longrightarrow> labels_cover w s
      | Some (sel, labels) \<Rightarrow> labels = [map (dt_label T) (selected_rows T sel)] \<and>
          (\<forall>r. row_in w r \<longrightarrow> tc_labels s (Some r) \<noteq> None \<or> r \<in> set (selected_rows T sel)))"

fun phase_ok :: "data_table \<Rightarrow> table_cache \<Rightarrow> update_phase \<Rightarrow> bool" where
  "phase_ok T s (AwaitingState ud) \<longleftrightarrow>
     (schemas_right T s \<or> invalidates_schemas ud) \<and> (data_right T s \<or> invalidates_data ud)"
| "phase_ok T s (AwaitingSchema ud a b is h) \<longleftrightarrow>
     a = uw_startColumn (window_of T ud) \<and> b = uw_endColumn (window_of T ud) \<and> h = dt_hasRowLabels T \<and> table_known T s \<and>
     schemas_right T s \<and> (\<forall>c. a \<le> c \<and> c \<le> b \<longrightarrow> tc_schemas s (Some c) \<noteq> None \<or> c \<in> set is) \<and> (data_right T s \<or> invalidates_data ud)"
| "phase_ok T s (AwaitingRowLabels w sels sel) \<longleftrightarrow>
     loading T w s \<and> (data_right T s \<or> invalidates_data (uw_update w)) \<and> dt_hasRowLabels T \<and>
     sels = column_requests w s \<and> label_request w True s = Some sel"
| "phase_ok T s (AwaitingData w sels rowLabels) \<longleftrightarrow>
     loading T w s \<and> data_right T s \<and> labels_asked T w rowLabels s \<and>
     (\<forall>c r. column_in w c \<longrightarrow> row_in w r \<longrightarrow> cell_at (tc_cells s) c (Some r) \<noteq> None \<or> asked T sels c r)"

definition tc_inv :: "data_table \<Rightarrow> update_descriptor \<Rightarrow> table_cache \<Rightarrow> bool" where
  "tc_inv T ud s \<longleftrightarrow>
     (if tc_updating s
      then tc_trim s = None \<and> (\<exists>phase. tc_waiting s = Some phase \<and> phase_ok T s phase \<and> ud = (case tc_pending s of None \<Rightarrow> phase_update phase | Some p \<Rightarrow> p))
      else tc_waiting s = None \<and> tc_pending s = None \<and> shown T ud s \<and> (\<forall>w. tc_trim s = Some w \<longrightarrow> w = window_of T ud))"

lemmas cache_defs = table_known_def schemas_right_def data_right_def schemas_cover_def cells_cover_def labels_cover_def
  loading_def column_in_def row_in_def cell_at_def

lemma window_fields:
  "uw_update (window_of T ud) = ud" "uw_endRow (window_of T ud) \<le> dt_rows T - 1"
  by (simp_all add: window_of_def end_index_def)

section \<open>The steps of an update\<close>

definition schemas_after :: "update_descriptor \<Rightarrow> table_cache \<Rightarrow> (int option \<rightharpoonup> column_schema)" where
  "schemas_after ud s = (if invalidates_schemas ud then Map.empty else tc_schemas s)"

definition schema_request :: "data_table \<Rightarrow> update_descriptor \<Rightarrow> table_cache \<Rightarrow> int list" where
  "schema_request T ud s =
     filter (\<lambda>c. schemas_after ud s (Some c) = None) [uw_startColumn (window_of T ud)..uw_endColumn (window_of T ud)]"

lemma gotState_eq:
  "tc_gotState ud (dt_columns T) (dt_rows T) (dt_hasRowLabels T) s =
     s\<lparr>tc_columns := dt_columns T, tc_rows := dt_rows T, tc_hasRowLabels := dt_hasRowLabels T, tc_schemas := schemas_after ud s,
       tc_waiting := Some (AwaitingSchema ud (uw_startColumn (window_of T ud)) (uw_endColumn (window_of T ud)) (schema_request T ud s) (dt_hasRowLabels T))\<rparr>"
  by (simp add: tc_gotState_def Let_def window_of_def schemas_after_def schema_request_def arrayFromIndexRange_def)

lemma gotState_ok:
  assumes "phase_ok T s (AwaitingState ud)"
  shows "phase_ok T (tc_gotState ud (dt_columns T) (dt_rows T) (dt_hasRowLabels T) s)
    (AwaitingSchema ud (uw_startColumn (window_of T ud)) (uw_endColumn (window_of T ud)) (schema_request T ud s) (dt_hasRowLabels T))"
proof -
  define s' where "s' = tc_gotState ud (dt_columns T) (dt_rows T) (dt_hasRowLabels T) s"
  have "tc_schemas s' = schemas_after ud s" "table_known T s'" "data_right T s' = data_right T s"
    by (simp_all add: s'_def gotState_eq table_known_def data_right_def)
  moreover from this have "schemas_right T s'"
    using assms by (auto simp: schemas_right_def schemas_after_def)
  ultimately show ?thesis
    unfolding s'_def [symmetric] using assms by (auto simp: schema_request_def)
qed

lemma label_request_rows:
  assumes "w = window_of T (uw_update w)"
  shows "label_request w (dt_hasRowLabels T) s = None \<Longrightarrow> dt_hasRowLabels T \<longrightarrow> \<not> invalidates_data (uw_update w) \<and> labels_cover w s"
    and "label_request w (dt_hasRowLabels T) s = Some sel \<Longrightarrow>
      dt_hasRowLabels T \<and> (\<forall>r. row_in w r \<longrightarrow> \<not> invalidates_data (uw_update w) \<and> tc_labels s (Some r) \<noteq> None \<or> r \<in> set (selected_rows T sel))"
proof -
  have "uw_endRow w \<le> dt_rows T - 1"
    using window_fields(2) [of T "uw_update w"] assms by simp
  note rows = missing_selection_rows [OF this, of "\<lambda>r. tc_labels s (Some r) \<noteq> None" "uw_startRow w"]
  show "label_request w (dt_hasRowLabels T) s = None \<Longrightarrow> dt_hasRowLabels T \<longrightarrow> \<not> invalidates_data (uw_update w) \<and> labels_cover w s"
    using rows(1) by (auto simp: label_request_def labels_cover_def row_in_def split: if_splits)
  show "label_request w (dt_hasRowLabels T) s = Some sel \<Longrightarrow>
      dt_hasRowLabels T \<and> (\<forall>r. row_in w r \<longrightarrow> \<not> invalidates_data (uw_update w) \<and> tc_labels s (Some r) \<noteq> None \<or> r \<in> set (selected_rows T sel))"
    using rows(2) [of sel] \<open>uw_endRow w \<le> dt_rows T - 1\<close>
    by (auto simp: label_request_def row_in_def selected_rows_def split: if_splits)
qed

lemma column_requests_asked:
  assumes "w = window_of T (uw_update w)" and "column_in w c" and "row_in w r"
  shows "\<not> invalidates_data (uw_update w) \<and> cell_at (tc_cells s) c (Some r) \<noteq> None \<or> asked T (column_requests w s) c r"
proof -
  have bound: "uw_endRow w \<le> dt_rows T - 1"
    using window_fields(2) [of T "uw_update w"] assms(1) by simp
  have range: "r \<in> set (selected_rows T (SelectRange (uw_startRow w) (uw_endRow w)))"
    using assms(3) bound by (simp add: selected_rows_def row_in_def)
  show ?thesis
  proof (cases "invalidates_data (uw_update w)")
    case True
    with range assms(2) show ?thesis
      by (auto simp: asked_def column_requests_def column_in_def intro!: rev_image_eqI [of c])
  next
    case False
    have "asked T (column_requests w s) c r" if "column_request w s c = Some sel" "r \<in> set (selected_rows T (spec sel))" for sel
    proof -
      have "column_index sel = c"
        using that(1) by (auto simp: column_request_def split: option.splits)
      moreover have "sel \<in> set (column_requests w s)"
        using that(1) assms(2) False by (force simp: column_requests_def column_in_def List.map_filter_def)
      ultimately show ?thesis
        using that(2) by (auto simp: asked_def)
    qed
    moreover have "\<exists>sel. column_request w s c = Some sel \<and> r \<in> set (selected_rows T (spec sel))" if "cell_at (tc_cells s) c (Some r) = None"
    proof (cases "tc_cells s c")
      case None
      then show ?thesis
        using range by (simp add: column_request_def)
    next
      case (Some dataColumn)
      then show ?thesis
        using missing_selection_rows [OF bound, of "\<lambda>r. dataColumn (Some r) \<noteq> None" "uw_startRow w"] that assms(3)
        by (cases "missing_selection (\<lambda>r. dataColumn (Some r) \<noteq> None) (uw_startRow w) (uw_endRow w)")
          (auto simp: column_request_def cell_at_def row_in_def)
    qed
    ultimately show ?thesis
      using False by blast
  qed
qed

definition data_cleared :: "update_window \<Rightarrow> table_cache \<Rightarrow> table_cache" where
  "data_cleared w s = (if invalidates_data (uw_update w) then s\<lparr>tc_labels := Map.empty, tc_cells := Map.empty\<rparr> else s)"

lemma request_data_eq: "request_data w sels rowLabels s = (data_cleared w s)\<lparr>tc_waiting := Some (AwaitingData w sels rowLabels)\<rparr>"
  by (simp add: request_data_def data_cleared_def)

lemma data_cleared_fields:
  "tc_schemas (data_cleared w s) = tc_schemas s" "table_known T (data_cleared w s) = table_known T s"
  "tc_labels (data_cleared w s) k = (if invalidates_data (uw_update w) then None else tc_labels s k)"
  "cell_at (tc_cells (data_cleared w s)) c k = (if invalidates_data (uw_update w) then None else cell_at (tc_cells s) c k)"
  by (simp_all add: data_cleared_def table_known_def cell_at_def)

lemma labels_asked_cong: "tc_labels s = tc_labels s' \<Longrightarrow> labels_asked T w rowLabels s = labels_asked T w rowLabels s'"
  by (simp add: labels_asked_def labels_cover_def split: option.splits)

lemma request_data_ok:
  assumes "loading T w s" and "data_right T s \<or> invalidates_data (uw_update w)" and "labels_asked T w rowLabels (data_cleared w s)"
  shows "phase_ok T (request_data w (column_requests w s) rowLabels s) (AwaitingData w (column_requests w s) rowLabels)"
proof -
  define s' where "s' = request_data w (column_requests w s) rowLabels s"
  have fields: "tc_schemas s' = tc_schemas s" "table_known T s' = table_known T s" "tc_labels s' = tc_labels (data_cleared w s)"
      "tc_cells s' = tc_cells (data_cleared w s)"
    using data_cleared_fields [where w = w and s = s] by (simp_all add: s'_def request_data_eq table_known_def)
  have "loading T w s'"
    using assms by (simp add: loading_def schemas_right_def schemas_cover_def fields)
  moreover have "labels_asked T w rowLabels s'"
    using assms(3) labels_asked_cong [of s' "data_cleared w s"] fields by simp
  moreover have "data_right T s'"
    using assms(2) by (auto simp: data_right_def fields data_cleared_fields)
  moreover have "cell_at (tc_cells s') c (Some r) \<noteq> None \<or> asked T (column_requests w s) c r" if "column_in w c" "row_in w r" for c r
    using column_requests_asked [where w = w and T = T and c = c and r = r and s = s] assms(1) that by (auto simp: fields data_cleared_fields loading_def)
  ultimately show ?thesis
    unfolding s'_def [symmetric] by simp
qed

text \<open>What \<open>update\<close> leaves alone while it runs.\<close>

definition same_run :: "table_cache \<Rightarrow> table_cache \<Rightarrow> bool" where
  "same_run s s' \<longleftrightarrow> tc_updating s' = tc_updating s \<and> tc_pending s' = tc_pending s \<and> tc_trim s' = tc_trim s"

lemma request_data_run:
  "tc_waiting (request_data w sels rowLabels s) = Some (AwaitingData w sels rowLabels)" "same_run s (request_data w sels rowLabels s)"
  by (simp_all add: request_data_eq data_cleared_def same_run_def)

lemma same_run_trans: "same_run s s' \<Longrightarrow> same_run s' s'' \<Longrightarrow> same_run s s''"
  by (simp add: same_run_def)

lemma gotSchema_ok:
  assumes "phase_ok T s (AwaitingSchema ud a b is h)"
  shows "\<exists>phase. tc_waiting (tc_gotSchema ud a b is h (map (dt_schema T) is) s) = Some phase \<and> phase_update phase = ud \<and>
    (\<forall>ud a b is h. phase \<noteq> AwaitingSchema ud a b is h) \<and> (\<forall>ud. phase \<noteq> AwaitingState ud) \<and>
    phase_ok T (tc_gotSchema ud a b is h (map (dt_schema T) is) s) phase \<and> same_run s (tc_gotSchema ud a b is h (map (dt_schema T) is) s)"
proof -
  define w where "w = window_of T ud"
  define s1 where "s1 = tc_fire (s\<lparr>tc_schemas := store_schemas is 0 (map (dt_schema T) is) (tc_schemas s)\<rparr>)"
  have s1: "tc_schemas s1 = (\<lambda>q. case q of Some c \<Rightarrow> if c \<in> set is then Some (dt_schema T c) else tc_schemas s q | None \<Rightarrow> tc_schemas s q)"
      "tc_labels s1 = tc_labels s" "tc_cells s1 = tc_cells s" "table_known T s1 = table_known T s" "same_run s s1"
    by (simp_all add: s1_def tc_fire_def store_schemas_spec table_known_def same_run_def)
  have ud: "uw_update w = ud" "h = dt_hasRowLabels T"
    using assms by (simp_all add: w_def window_fields)
  have "tc_schemas s None = None"
    using assms by (cases "tc_schemas s None") (auto simp: schemas_right_def)
  then have loading: "loading T w s1"
    using assms by (auto simp: loading_def w_def window_fields s1 schemas_right_def schemas_cover_def column_in_def split: option.splits)
  have right: "data_right T s1 \<or> invalidates_data (uw_update w)"
    using assms by (simp add: data_right_def s1 ud)
  have step: "tc_gotSchema ud a b is h (map (dt_schema T) is) s =
      (case label_request w h s1 of None \<Rightarrow> request_data w (column_requests w s1) None s1
       | Some sel \<Rightarrow> s1\<lparr>tc_waiting := Some (AwaitingRowLabels w (column_requests w s1) sel)\<rparr>)"
  proof -
    have "tc_rows s1 = dt_rows T"
      using assms by (simp add: s1_def tc_fire_def table_known_def)
    then have window: "\<lparr>uw_update = ud, uw_startColumn = a, uw_endColumn = b, uw_startRow = start_index (firstRowIndex ud) (screenRows ud),
        uw_endRow = end_index (tc_rows s1) (firstRowIndex ud) (screenRows ud)\<rparr> = w"
      using assms by (simp add: w_def window_of_def)
    show ?thesis
      unfolding tc_gotSchema_def Let_def s1_def [symmetric] window by (rule refl)
  qed
  have w: "w = window_of T (uw_update w)"
    by (simp add: w_def window_fields)
  show ?thesis
  proof (cases "label_request w h s1")
    case None
    then have "labels_asked T w None (data_cleared w s1)"
      using label_request_rows(1) [OF w, of s1] by (auto simp: ud labels_asked_def labels_cover_def data_cleared_fields)
    then show ?thesis
      unfolding step None option.case using request_data_ok [OF loading right, of None] same_run_trans [OF s1(5) request_data_run(2)] ud(1)
      by (simp add: request_data_run(1) del: phase_ok.simps)
  next
    case (Some sel)
    let ?s' = "s1\<lparr>tc_waiting := Some (AwaitingRowLabels w (column_requests w s1) sel)\<rparr>"
    have "column_requests w ?s' = column_requests w s1" "label_request w h ?s' = label_request w h s1"
      by (simp_all add: column_requests_def column_request_def [abs_def] label_request_def)
    moreover have "loading T w ?s'" "data_right T ?s' = data_right T s1" "same_run s ?s'"
      using loading s1(5) by (simp_all add: loading_def table_known_def schemas_right_def schemas_cover_def data_right_def same_run_def)
    moreover have "dt_hasRowLabels T"
      using label_request_rows(2) [OF w, of s1 sel] Some ud by simp
    ultimately show ?thesis
      unfolding step Some option.case using right Some ud by simp
  qed
qed

lemma gotLabels_ok:
  assumes "phase_ok T s (AwaitingRowLabels w sels sel)"
  shows "phase_ok T (request_data w sels (Some (sel, [map (dt_label T) (selected_rows T sel)])) s)
    (AwaitingData w sels (Some (sel, [map (dt_label T) (selected_rows T sel)])))"
proof -
  have "labels_asked T w (Some (sel, [map (dt_label T) (selected_rows T sel)])) (data_cleared w s)"
    using label_request_rows(2) [where w = w and T = T and s = s and sel = sel] assms by (auto simp: labels_asked_def data_cleared_fields loading_def)
  then show ?thesis
    using request_data_ok [of T w s] assms by simp
qed

text \<open>The last answer: everything of the window is cached.\<close>

lemma gotData_ok:
  assumes "phase_ok T s (AwaitingData w sels rowLabels)"
  shows "\<exists>s1. tc_gotData w sels rowLabels (table_values T sels) s = tc_finish w s1 \<and> shown T (uw_update w) s1 \<and> same_run s s1"
proof -
  obtain cells where cells: "store_columns sels (table_values T sels) (tc_cells s) = (cells, True)"
    using store_columns_spec [of sels T "tc_cells s"] by (cases "store_columns sels (table_values T sels) (tc_cells s)") simp
  have cell: "cell_at cells c k =
      (case k of Some r \<Rightarrow> if asked T sels c r then Some (cell_of (dt_value T c r)) else cell_at (tc_cells s) c k | None \<Rightarrow> cell_at (tc_cells s) c k)" for c k
    using store_columns_spec [of sels T "tc_cells s" c k] by (simp add: cells)
  define labels where "labels = (case rowLabels of None \<Rightarrow> tc_labels s
    | Some (sel, _) \<Rightarrow> store_labels sel (map (dt_label T) (selected_rows T sel)) (tc_labels s))"
  let ?s1 = "s\<lparr>tc_cells := cells, tc_labels := labels\<rparr>"
  have w: "window_of T (uw_update w) = w" and right: "data_right T s" and asked: "labels_asked T w rowLabels s"
    using assms by (simp_all add: loading_def)
  have "tc_labels s None = None"
    using right by (cases "tc_labels s None") (auto simp: data_right_def)
  moreover have "cell_at (tc_cells s) c None = None" for c
    using right unfolding data_right_def by (metis option.distinct(1) option.exhaust)
  moreover have "\<And>r v. tc_labels s (Some r) = Some v \<Longrightarrow> v = dt_label T r" "\<And>c r v. cell_at (tc_cells s) c (Some r) = Some v \<Longrightarrow> v = cell_of (dt_value T c r)"
    using right unfolding data_right_def by fastforce+
  moreover have "\<And>k v. tc_labels s k = Some v \<Longrightarrow> \<exists>r. k = Some r \<and> v = dt_label T r"
    using right by (simp add: data_right_def)
  ultimately have "data_right T ?s1"
    unfolding data_right_def [of T ?s1] by (auto simp: cell labels_def store_labels_spec split: option.splits if_splits)
  moreover have "cells_cover w ?s1"
    using assms by (auto simp: cells_cover_def cell)
  moreover have "dt_hasRowLabels T \<longrightarrow> labels_cover w ?s1"
    using asked by (auto simp: labels_asked_def labels_cover_def labels_def store_labels_spec split: option.splits)
  moreover have "table_known T ?s1" "schemas_right T ?s1" "schemas_cover w ?s1"
    using assms by (simp_all add: loading_def table_known_def schemas_right_def schemas_cover_def)
  ultimately have "shown T (uw_update w) ?s1"
    by (simp add: shown_def w)
  moreover have "tc_gotData w sels rowLabels (table_values T sels) s = tc_finish w ?s1"
    using asked by (auto simp: tc_gotData_def cells labels_def labels_asked_def split: option.splits)
  ultimately show ?thesis
    by (auto simp: same_run_def)
qed

lemma shown_cong:
  "tc_columns s = tc_columns s' \<Longrightarrow> tc_rows s = tc_rows s' \<Longrightarrow> tc_hasRowLabels s = tc_hasRowLabels s' \<Longrightarrow> tc_schemas s = tc_schemas s' \<Longrightarrow>
     tc_labels s = tc_labels s' \<Longrightarrow> tc_cells s = tc_cells s' \<Longrightarrow> shown T ud s = shown T ud s'"
  by (simp add: shown_def table_known_def schemas_right_def data_right_def schemas_cover_def cells_cover_def labels_cover_def)

lemma shown_right: "shown T ud s \<Longrightarrow> schemas_right T s \<and> data_right T s"
  by (simp add: shown_def)

section \<open>Keeping the invariant\<close>

text \<open>The number of answers until no update runs.\<close>

fun phase_rank :: "update_phase \<Rightarrow> nat" where
  "phase_rank (AwaitingState ud) = 4"
| "phase_rank (AwaitingSchema ud a b is h) = 3"
| "phase_rank (AwaitingRowLabels w sels sel) = 2"
| "phase_rank (AwaitingData w sels rowLabels) = 1"

definition work_left :: "table_cache \<Rightarrow> nat" where
  "work_left s = (case tc_waiting s of None \<Rightarrow> 0 | Some phase \<Rightarrow> phase_rank phase + (if tc_pending s = None then 0 else 4))"

lemma started:
  assumes "\<not> tc_updating s" and "tc_pending s = None"
    and "schemas_right T s \<or> invalidates_schemas ud" and "data_right T s \<or> invalidates_data ud"
  shows "tc_inv T ud (tc_update ud s) \<and> work_left (tc_update ud s) = 4 \<and> tc_updating (tc_update ud s)"
  using assms by (simp add: tc_update_def clearTrimCacheTimeout_def tc_inv_def work_left_def schemas_right_def data_right_def)

lemma ask_keeps:
  assumes "tc_inv T d s"
  shows "tc_inv T ud (tc_update ud s)"
proof (cases "tc_updating s")
  case True
  have "phase_ok T (s\<lparr>tc_pending := Some ud\<rparr>) phase = phase_ok T s phase" for phase
    using labels_asked_cong [of "s\<lparr>tc_pending := Some ud\<rparr>" s]
    by (cases phase) (simp_all add: schemas_right_def data_right_def table_known_def loading_def schemas_cover_def
      column_requests_def column_request_def [abs_def] label_request_def)
  with True assms show ?thesis
    by (auto simp: tc_update_def tc_inv_def)
next
  case False
  then show ?thesis
    using started [of s T ud] assms shown_right [of T d s] by (simp add: tc_inv_def)
qed

lemma finish_ok:
  assumes "shown T (uw_update w) s" and "w = window_of T (uw_update w)" and "tc_updating s" and "tc_trim s = None"
    and "d = (case tc_pending s of None \<Rightarrow> uw_update w | Some p \<Rightarrow> p)"
  shows "tc_inv T d (tc_finish w s) \<and> work_left (tc_finish w s) = (if tc_pending s = None then 0 else 4)"
proof (cases "tc_pending s")
  case None
  have "shown T (uw_update w) (tc_finish w s) = shown T (uw_update w) s"
    by (rule shown_cong) (simp_all add: tc_finish_def tc_fire_def Let_def None)
  with None assms show ?thesis
    by (simp add: tc_finish_def tc_fire_def Let_def tc_inv_def work_left_def)
next
  case (Some p)
  let ?s = "(tc_fire s)\<lparr>tc_updating := False, tc_waiting := None, tc_pending := None\<rparr>"
  have "shown T (uw_update w) ?s = shown T (uw_update w) s"
    by (rule shown_cong) (simp_all add: tc_fire_def)
  then show ?thesis
    using started [of ?s T p] shown_right assms Some by (auto simp: tc_finish_def Let_def tc_fire_def)
qed

lemma answer_keeps:
  assumes "tc_inv T d s" and "tc_updating s"
  shows "tc_inv T d (cache_step T Answer s) \<and> work_left (cache_step T Answer s) < work_left s"
proof -
  obtain phase where phase: "tc_waiting s = Some phase" "phase_ok T s phase" "d = (case tc_pending s of None \<Rightarrow> phase_update phase | Some p \<Rightarrow> p)"
      "tc_trim s = None"
    using assms by (auto simp: tc_inv_def)
  have run: "tc_inv T d s' \<and> work_left s' < work_left s"
    if "tc_waiting s' = Some phase'" "phase_ok T s' phase'" "phase_update phase' = phase_update phase" "phase_rank phase' < phase_rank phase" "same_run s s'" for s' phase'
    using that phase assms(2) by (cases "tc_pending s") (simp_all add: tc_inv_def work_left_def same_run_def)
  show ?thesis
  proof (cases phase)
    case (AwaitingState ud)
    have "cache_step T Answer s = tc_gotState ud (dt_columns T) (dt_rows T) (dt_hasRowLabels T) s"
      by (simp add: cache_step_def tc_answer_def phase(1) AwaitingState)
    then show ?thesis
      using gotState_ok [of T s ud] phase(2) by (intro run [where phase' = "AwaitingSchema ud (uw_startColumn (window_of T ud)) (uw_endColumn (window_of T ud)) (schema_request T ud s) (dt_hasRowLabels T)"])
        (simp_all add: gotState_eq AwaitingState same_run_def del: phase_ok.simps)
  next
    case (AwaitingSchema ud a b "is" h)
    have step: "cache_step T Answer s = tc_gotSchema ud a b is h (map (dt_schema T) is) s"
      by (simp add: cache_step_def tc_answer_def phase(1) AwaitingSchema)
    obtain phase' where "tc_waiting (cache_step T Answer s) = Some phase'" "phase_update phase' = ud"
        "\<forall>ud a b is h. phase' \<noteq> AwaitingSchema ud a b is h" "\<forall>ud. phase' \<noteq> AwaitingState ud"
        "phase_ok T (cache_step T Answer s) phase'" "same_run s (cache_step T Answer s)"
      using gotSchema_ok [of T s ud a b "is" h] phase(2) unfolding step AwaitingSchema by blast
    moreover from this have "phase_rank phase' < 3"
      by (cases phase') auto
    ultimately show ?thesis
      by (intro run) (simp_all add: AwaitingSchema)
  next
    case (AwaitingRowLabels w sels sel)
    have "cache_step T Answer s = request_data w sels (Some (sel, [map (dt_label T) (selected_rows T sel)])) s"
      by (simp add: cache_step_def tc_answer_def phase(1) AwaitingRowLabels)
    then show ?thesis
      using gotLabels_ok [of T s w sels sel] phase(2) request_data_run AwaitingRowLabels
      by (intro run [where phase' = "AwaitingData w sels (Some (sel, [map (dt_label T) (selected_rows T sel)]))"]) (simp_all del: phase_ok.simps)
  next
    case (AwaitingData w sels rowLabels)
    have "cache_step T Answer s = tc_gotData w sels rowLabels (table_values T sels) s"
      by (simp add: cache_step_def tc_answer_def phase(1) AwaitingData)
    then obtain s1 where s1: "cache_step T Answer s = tc_finish w s1" "shown T (uw_update w) s1" "same_run s s1"
      using gotData_ok [of T s w sels rowLabels] phase(2) by (auto simp: AwaitingData simp del: phase_ok.simps)
    have "w = window_of T (uw_update w)"
      using phase(2) by (simp add: AwaitingData loading_def)
    moreover have "d = (case tc_pending s1 of None \<Rightarrow> uw_update w | Some p \<Rightarrow> p)"
      using phase(3) s1(3) by (cases "tc_pending s") (simp_all add: AwaitingData same_run_def)
    moreover have "work_left s = 1 + (if tc_pending s = None then 0 else 4)"
      by (simp add: work_left_def phase(1) AwaitingData)
    ultimately show ?thesis
      using finish_ok [OF s1(2), of d] s1(1,3) phase(4) assms(2) by (simp add: same_run_def)
  qed
qed

lemma trim_schemas_shown:
  assumes "shown T d s" and "w = window_of T d"
  shows "shown T d (trimColumnSchemaCache (uw_startColumn w) (uw_endColumn w) s)"
proof -
  define s' where "s' = trimColumnSchemaCache (uw_startColumn w) (uw_endColumn w) s"
  have "table_known T s'" "data_right T s'" "cells_cover w s'" "dt_hasRowLabels T \<longrightarrow> labels_cover w s'"
    using assms by (simp_all add: s'_def trimColumnSchemaCache_def shown_def table_known_def data_right_def cells_cover_def labels_cover_def)
  moreover have "schemas_right T s'" "schemas_cover w s'"
    using assms by (simp_all add: s'_def trimColumnSchemaCache_def shown_def schemas_right_def schemas_cover_def outside_def column_in_def)
  ultimately show ?thesis
    unfolding shown_def s'_def [symmetric] assms(2) [symmetric] by simp
qed

lemma trim_data_shown:
  assumes "shown T d s" and "w = window_of T d"
  shows "shown T d (trimDataCache (uw_startColumn w) (uw_endColumn w) (uw_startRow w) (uw_endRow w) s)"
proof -
  define s' where "s' = trimDataCache (uw_startColumn w) (uw_endColumn w) (uw_startRow w) (uw_endRow w) s"
  have cell: "cell_at (tc_cells s') c k =
      (if c < uw_startColumn w \<or> c > uw_endColumn w \<or> outside (uw_startRow w) (uw_endRow w) k then None else cell_at (tc_cells s) c k)" for c k
    by (simp add: s'_def trimDataCache_def cell_at_def split: option.splits)
  have label: "tc_labels s' k = (if outside (uw_startRow w) (uw_endRow w) k then None else tc_labels s k)" for k
    by (simp add: s'_def trimDataCache_def)
  have "table_known T s'" "schemas_right T s'" "schemas_cover w s'"
    using assms by (simp_all add: s'_def trimDataCache_def shown_def table_known_def schemas_right_def schemas_cover_def)
  moreover have "data_right T s'"
    using assms(1) by (simp add: shown_def data_right_def cell label)
  moreover have "cells_cover w s'" "dt_hasRowLabels T \<longrightarrow> labels_cover w s'"
    using assms by (simp_all add: shown_def cells_cover_def labels_cover_def cell label outside_def column_in_def row_in_def)
  ultimately show ?thesis
    unfolding shown_def s'_def [symmetric] assms(2) [symmetric] by simp
qed

lemma trim_run:
  "tc_updating (tc_trimTimeout s) = tc_updating s" "tc_waiting (tc_trimTimeout s) = tc_waiting s"
  "tc_pending (tc_trimTimeout s) = tc_pending s" "tc_trim (tc_trimTimeout s) = None"
  by (simp_all add: tc_trimTimeout_def Let_def trimColumnSchemaCache_def trimDataCache_def split: option.splits)

lemma trim_keeps:
  assumes "tc_inv T d s"
  shows "tc_inv T d (tc_trimTimeout s)"
proof (cases "tc_trim s")
  case None
  with assms show ?thesis
    by (simp add: tc_trimTimeout_def)
next
  case (Some w)
  then have idle: "\<not> tc_updating s" and w: "w = window_of T d" and shown: "shown T d s"
    using assms by (auto simp: tc_inv_def split: if_splits)
  have "shown T d (s\<lparr>tc_trim := None\<rparr>)"
    using shown shown_cong [of "s\<lparr>tc_trim := None\<rparr>" s] by simp
  then have "shown T d (tc_trimTimeout s)"
    using trim_schemas_shown [OF _ w] trim_data_shown [OF _ w] by (simp add: tc_trimTimeout_def Some Let_def)
  then show ?thesis
    using assms idle by (simp add: tc_inv_def trim_run)
qed

lemma cache_step_keeps: "tc_inv T d s \<Longrightarrow> tc_inv T (case a of Ask ud \<Rightarrow> ud | _ \<Rightarrow> d) (cache_step T a s)"
  using ask_keeps [of T d s] answer_keeps [of T d s] trim_keeps [of T d s]
  by (cases a; cases "tc_updating s") (auto simp: cache_step_def tc_inv_def)

text \<open>The update that was asked for last.\<close>

definition last_asked :: "update_descriptor \<Rightarrow> cache_action list \<Rightarrow> update_descriptor" where
  "last_asked d acts = fold (\<lambda>a d. case a of Ask ud \<Rightarrow> ud | _ \<Rightarrow> d) acts d"

lemma run_keeps: "tc_inv T d s \<Longrightarrow> tc_inv T (last_asked d acts) (cache_run T acts s)"
  by (induction acts arbitrary: s d) (simp_all add: cache_run_def last_asked_def cache_step_keeps)

lemma cache_answers_finish: "tc_inv T d s \<Longrightarrow> work_left s \<le> n \<Longrightarrow> tc_inv T d (cache_run T (replicate n Answer) s) \<and> \<not> tc_updating (cache_run T (replicate n Answer) s)"
proof (induction n arbitrary: s)
  case 0
  moreover have "0 < work_left s" if "tc_waiting s = Some phase" for phase
    using that by (cases phase) (simp_all add: work_left_def)
  ultimately show ?case
    by (auto simp: cache_run_def tc_inv_def)
next
  case (Suc n)
  show ?case
  proof (cases "tc_updating s")
    case True
    then show ?thesis
      using Suc.IH [of "cache_step T Answer s"] answer_keeps [of T d s] Suc.prems by (simp add: cache_run_def)
  next
    case False
    then have "cache_step T Answer s = s" "work_left s = 0"
      using Suc.prems(1) by (auto simp: cache_step_def tc_inv_def work_left_def)
    then show ?thesis
      using Suc.IH [of s] Suc.prems by (simp add: cache_run_def)
  qed
qed

lemma work_left_le: "work_left s \<le> 8"
proof (cases "tc_waiting s")
  case (Some phase)
  have "phase_rank phase \<le> 4"
    by (cases phase) simp_all
  with Some show ?thesis
    by (simp add: work_left_def)
qed (simp add: work_left_def)

section \<open>What is shown\<close>

lemma shown_entries:
  assumes "shown T d s"
  shows "column_in (window_of T d) c \<Longrightarrow> tc_schemas s (Some c) = Some (dt_schema T c)"
    and "column_in (window_of T d) c \<Longrightarrow> row_in (window_of T d) r \<Longrightarrow> cell_at (tc_cells s) c (Some r) = Some (cell_of (dt_value T c r))"
    and "dt_hasRowLabels T \<Longrightarrow> row_in (window_of T d) r \<Longrightarrow> tc_labels s (Some r) = Some (dt_label T r)"
proof -
  have cover: "schemas_cover (window_of T d) s" "cells_cover (window_of T d) s" "dt_hasRowLabels T \<Longrightarrow> labels_cover (window_of T d) s"
    and right: "schemas_right T s" "data_right T s"
    using assms by (simp_all add: shown_def)
  show "column_in (window_of T d) c \<Longrightarrow> tc_schemas s (Some c) = Some (dt_schema T c)"
    using cover(1) right(1) unfolding schemas_cover_def schemas_right_def by (metis option.exhaust option.inject)
  show "column_in (window_of T d) c \<Longrightarrow> row_in (window_of T d) r \<Longrightarrow> cell_at (tc_cells s) c (Some r) = Some (cell_of (dt_value T c r))"
    using cover(2) right(2) unfolding cells_cover_def data_right_def by (metis option.exhaust option.inject)
  show "dt_hasRowLabels T \<Longrightarrow> row_in (window_of T d) r \<Longrightarrow> tc_labels s (Some r) = Some (dt_label T r)"
    using cover(3) right(2) unfolding labels_cover_def data_right_def by (metis option.exhaust option.inject)
qed

text \<open>
  C16: the grid shows what was asked for last. From any cache on which no update runs, whatever it holds, let an update be asked for that
  invalidates what is stale, followed by any updates, answers of the client and trimming timeouts in any order, while the table does not
  change. After eight more answers no update runs, and of the window of the last update every schema, every cell and every row label is what
  the table says.
\<close>

theorem last_requested_window_shown:
  assumes "\<not> tc_updating s" and "tc_pending s = None"
    and "schemas_right T s \<or> invalidates_schemas d" and "data_right T s \<or> invalidates_data d"
  shows "let s' = cache_run T (acts @ replicate 8 Answer) (tc_update d s); w = window_of T (last_asked d acts) in
    \<not> tc_updating s' \<and> tc_waiting s' = None \<and>
    (\<forall>c r. uw_startColumn w \<le> c \<and> c \<le> uw_endColumn w \<and> uw_startRow w \<le> r \<and> r \<le> uw_endRow w \<longrightarrow>
       getColumnSchema c s' = Some (dt_schema T c) \<and> getDataCell c r s' = Some (cell_of (dt_value T c r)) \<and>
       getRowLabel r s' = (if dt_hasRowLabels T then dt_label T r else int_string r))"
proof -
  define s' where "s' = cache_run T (acts @ replicate 8 Answer) (tc_update d s)"
  define w where "w = window_of T (last_asked d acts)"
  have "tc_inv T (last_asked d acts) (cache_run T acts (tc_update d s))"
    using started [OF assms(1-4)] by (intro run_keeps) simp
  then have inv: "tc_inv T (last_asked d acts) s'" "\<not> tc_updating s'"
    using cache_answers_finish [OF _ work_left_le] by (simp_all add: s'_def cache_run_def)
  then have shown: "shown T (last_asked d acts) s'"
    by (simp add: tc_inv_def)
  have "getColumnSchema c s' = Some (dt_schema T c)" if "column_in w c" for c
    using shown_entries(1) [OF shown] that by (simp add: getColumnSchema_def w_def)
  moreover have "getDataCell c r s' = Some (cell_of (dt_value T c r))" if "column_in w c" "row_in w r" for c r
  proof -
    have "getDataCell c r s' = cell_at (tc_cells s') c (Some r)"
      by (simp add: getDataCell_def cell_at_def)
    then show ?thesis
      using shown_entries(2) [OF shown] that by (simp add: w_def)
  qed
  moreover have "getRowLabel r s' = (if dt_hasRowLabels T then dt_label T r else int_string r)" if "row_in w r" for r
    using shown_entries(3) [OF shown] shown that by (simp add: shown_def table_known_def getRowLabel_def w_def)
  ultimately show ?thesis
    using inv by (simp add: tc_inv_def column_in_def row_in_def Let_def flip: s'_def w_def)
qed

text \<open>A table of two columns and three rows, and updates for its first two rows and for the rows from the third on.\<close>

definition small_table :: data_table where
  "small_table =
     \<lparr>dt_columns = 2, dt_rows = 3, dt_hasRowLabels = True, dt_schema = (\<lambda>c. \<lparr>column_name = [97 + c], type_name = []\<rparr>),
      dt_value = (\<lambda>c r. if r = 1 then SpecialValue 1 else FormattedValue [48 + 10 * c + r]), dt_label = (\<lambda>r. [120, 48 + r])\<rparr>"

definition update_at :: "int \<Rightarrow> int \<Rightarrow> update_descriptor" where
  "update_at flags r = \<lparr>invalidateCache = flags, firstColumnIndex = 0, screenColumns = 1, firstRowIndex = r, screenRows = 0\<rparr>"

theorem last_requested_window_shown_witness:
  "\<exists>s'. s' = cache_run small_table ([Answer, Ask (update_at 0 2), Answer] @ replicate 8 Answer) (tc_update (update_at 3 0) new_TableDataCache) \<and>
    \<not> tc_updating s' \<and> getDataCell 1 2 s' = Some \<lparr>cell_formatted = [60], cell_kind = KindNonNull\<rparr> \<and> getRowLabel 2 s' = [120, 50]"
proof -
  have flags: "invalidates_schemas (update_at 3 0)" "invalidates_data (update_at 3 0)"
    by code_simp+
  have window: "window_of small_table (last_asked (update_at 3 0) [Answer, Ask (update_at 0 2), Answer]) =
      \<lparr>uw_update = update_at 0 2, uw_startColumn = 0, uw_endColumn = 1, uw_startRow = 2, uw_endRow = 2\<rparr>"
    by code_simp
  have start: "\<not> tc_updating new_TableDataCache" "tc_pending new_TableDataCache = None"
    by (simp_all add: new_TableDataCache_def)
  have entries: "dt_value small_table 1 2 = FormattedValue [60]" "dt_label small_table 2 = [120, 50]" "dt_hasRowLabels small_table"
    by (simp_all add: small_table_def)
  show ?thesis
    using last_requested_window_shown [OF start, of small_table "update_at 3 0" "[Answer, Ask (update_at 0 2), Answer]"] flags
    by (force simp: window Let_def entries cell_of_def)
qed

section \<open>Updates that are lost\<close>

definition changed_table :: data_table where
  "changed_table = small_table\<lparr>dt_value := (\<lambda>c r. FormattedValue [90])\<rparr>"

text \<open>
  an invalidation is lost. While an update runs, only the last of the updates asked for is kept, with its flags. The table changes and
  the cache is told to invalidate its data; before the running update ends, the user scrolls, which asks for an
  update without flags. Once all answers have come, the cell of the old table is shown.
\<close>

theorem invalidation_lost:
  "(let s = cache_run small_table (replicate 4 Answer) (tc_update (update_at 3 0) new_TableDataCache);
        s = cache_run changed_table ([Ask (update_at 0 0), Ask (update_at 2 0), Ask (update_at 0 0)] @ replicate 8 Answer) s
    in (tc_updating s, getDataCell 0 0 s)) = (False, Some \<lparr>cell_formatted = [48], cell_kind = KindNonNull\<rparr>)"
  by code_simp

text \<open>
  a rejected request ends all updates. When the client rejects one request, the flag stays set: whatever is asked for and
  whatever time passes, no request is sent any more and the cache never changes.
\<close>

theorem rejected_request_ends_updates:
  assumes "tc_updating s" and "tc_waiting s = Some phase" and "tc_trim s = None"
  shows "let s' = cache_run T acts (tc_answer Rejected s)
    in tc_updating s' \<and> tc_waiting s' = None \<and> tc_cells s' = tc_cells s \<and> tc_schemas s' = tc_schemas s"
proof -
  have "tc_updating (cache_run T acts s1) \<and> tc_waiting (cache_run T acts s1) = None \<and> tc_cells (cache_run T acts s1) = tc_cells s1 \<and>
      tc_schemas (cache_run T acts s1) = tc_schemas s1"
    if "tc_updating s1" "tc_waiting s1 = None" "tc_trim s1 = None" for s1
    using that
  proof (induction acts arbitrary: s1)
    case (Cons a acts)
    have "tc_updating (cache_step T a s1) \<and> tc_waiting (cache_step T a s1) = None \<and> tc_trim (cache_step T a s1) = None \<and>
        tc_cells (cache_step T a s1) = tc_cells s1 \<and> tc_schemas (cache_step T a s1) = tc_schemas s1"
      using Cons.prems by (cases a) (simp_all add: cache_step_def tc_update_def tc_trimTimeout_def)
    then show ?case
      using Cons.IH [of "cache_step T a s1"] by (simp add: cache_run_def)
  qed (simp add: cache_run_def)
  then show ?thesis
    using assms by (cases phase) (simp_all add: tc_answer_def tc_rejected_def Let_def)
qed

end
