(* ===== verification/Table_Text.thy ===== *)
theory Table_Text
  imports Table_Cache_Laws
begin

text \<open>
  What \<open>TableDataCache\<close> computes of a whole table: its text, read in chunks, and the widths of its columns, read
  in pages. Neither depends on how the table is cut.
\<close>

section \<open>The table as text\<close>

definition cell_text :: "data_table \<Rightarrow> int \<Rightarrow> int \<Rightarrow> jsstring" where
  "cell_text T c r = cell_formatted (cell_of (dt_value T c r))"

lemma join_concat: "js_join sep (x # xs) = x @ concat (map (\<lambda>y. sep @ y) xs)"
  by (induction xs arbitrary: x) (simp_all add: js_join_Cons)

lemma separated_join: "concat (map (\<lambda>i. (if i \<noteq> 0 then sep else []) @ f i) [0..n - 1]) = js_join sep (map f [0..n - 1])" for n :: int
proof (cases "0 < n")
  case True
  then have first: "[0..n - 1] = 0 # [1..n - 1]"
    by (simp add: upto_rec1)
  have rest: "map (\<lambda>i. (if i \<noteq> 0 then sep else []) @ f i) [1..n - 1] = map (\<lambda>i. sep @ f i) [1..n - 1]"
    by (rule map_cong) auto
  show ?thesis
    unfolding first list.map rest join_concat by (simp add: comp_def)
qed simp

lemma tsv_columns_spec:
  "\<exists>m'. tsv_columns (map (\<lambda>c. \<lparr>column_index = c, spec = SelectRange a b\<rparr>) cs)
      (table_values T (map (\<lambda>c. \<lparr>column_index = c, spec = SelectRange a b\<rparr>) cs)) m = Inr m' \<and>
    (\<forall>r c. m' (r, c) = (if c \<in> set cs \<and> a \<le> r \<and> r \<le> min b (dt_rows T - 1) then Some (cell_text T c r) else m (r, c)))"
proof (induction cs arbitrary: m)
  case Nil
  then show ?case
    by (simp add: table_values_def)
next
  case (Cons c cs)
  let ?rows = "[a..min b (dt_rows T - 1)]"
  have "?rows ! i = a + int i" if "i < length ?rows" for i
    using that by (intro nth_upto) (auto simp del: min.bounded_iff)
  moreover have "(\<lambda>i. (a + int i, c)) ` {0..<length ?rows} = {(r, c') | r c'. c' = c \<and> r \<in> set ?rows}"
    by (auto simp: image_iff intro!: bexI [of _ "nat (_ - a)"])
  ultimately have "fold (\<lambda>i m. m((a + int i, c) \<mapsto> cell_formatted (cell_of (map (dt_value T c) ?rows ! i)))) [0..<length ?rows] m =
      (\<lambda>(r, c'). if c' = c \<and> r \<in> set ?rows then Some (cell_text T c r) else m (r, c'))"
    using fold_store [of "length ?rows" "\<lambda>i. cell_formatted (cell_of (map (dt_value T c) ?rows ! i))" "\<lambda>(r, c). cell_text T c r" "\<lambda>i. (a + int i, c)" m]
    by (auto simp: fun_eq_iff cell_text_def)
  then show ?case
    using Cons.IH [of "\<lambda>(r, c'). if c' = c \<and> r \<in> set ?rows then Some (cell_text T c r) else m (r, c')"]
    by (auto simp: table_values_def selected_rows_def)
qed

lemma chunks_cover: "start \<le> i \<Longrightarrow> i < n \<Longrightarrow> \<exists>(x, y) \<in> set (chunks start n). x \<le> i \<and> i \<le> y"
proof (induction start n rule: chunks.induct)
  case (1 start n)
  then show ?case
    by (cases "i < start + 4096") (auto simp: chunks.simps [of start n])
qed

lemma tsv_chunks_spec:
  "\<exists>m'. tsv_chunks (\<lambda>_ _. table_values T) cs m = Inr m' \<and>
    (\<forall>r c. m' (r, c) =
      (if \<exists>((x, y), (a, b)) \<in> set cs. x \<le> c \<and> c \<le> y \<and> a \<le> r \<and> r \<le> min b (dt_rows T - 1) then Some (cell_text T c r) else m (r, c)))"
proof (induction cs arbitrary: m)
  case (Cons x cs)
  obtain x1 y1 a b where x: "x = ((x1, y1), (a, b))"
    by (metis prod.collapse)
  obtain m1 where "tsv_columns (map (\<lambda>c. \<lparr>column_index = c, spec = SelectRange a b\<rparr>) [x1..y1])
      (table_values T (map (\<lambda>c. \<lparr>column_index = c, spec = SelectRange a b\<rparr>) [x1..y1])) m = Inr m1"
      "\<forall>r c. m1 (r, c) = (if c \<in> set [x1..y1] \<and> a \<le> r \<and> r \<le> min b (dt_rows T - 1) then Some (cell_text T c r) else m (r, c))"
    using tsv_columns_spec [of a b "[x1..y1]" T m] by blast
  then show ?case
    using Cons.IH [of m1] by (auto simp: x Let_def)
qed simp

text \<open>
  C17: the table as text. However many chunks it takes, \<open>getTableDataTSV\<close> throws nothing and gives the rows of the table, joined by line
  feeds, each the texts of its cells joined by tabs.
\<close>

theorem table_text_is_rows:
  assumes "tc_columns s = dt_columns T" and "tc_rows s = dt_rows T"
  shows "getTableDataTSV (\<lambda>_ _. table_values T) s =
    Inr (js_join [LF] (map (\<lambda>r. js_join [9] (map (\<lambda>c. cell_text T c r) [0..dt_columns T - 1])) [0..dt_rows T - 1]))"
proof -
  obtain m where m: "tsv_chunks (\<lambda>_ _. table_values T) (List.product (chunks 0 (dt_columns T)) (chunks 0 (dt_rows T))) Map.empty = Inr m"
    "\<forall>r c. m (r, c) = (if \<exists>((x, y), (a, b)) \<in> set (List.product (chunks 0 (dt_columns T)) (chunks 0 (dt_rows T))).
        x \<le> c \<and> c \<le> y \<and> a \<le> r \<and> r \<le> min b (dt_rows T - 1) then Some (cell_text T c r) else None)"
    using tsv_chunks_spec [of T "List.product (chunks 0 (dt_columns T)) (chunks 0 (dt_rows T))" Map.empty] by auto
  have cell: "m (r, c) = Some (cell_text T c r)" if "0 \<le> r" "r < dt_rows T" "0 \<le> c" "c < dt_columns T" for r c
    using m(2) chunks_cover [of 0 c "dt_columns T"] chunks_cover [of 0 r "dt_rows T"] that by fastforce
  have "tsv_row m (dt_columns T) r = js_join [9] (map (\<lambda>c. cell_text T c r) [0..dt_columns T - 1])" if "0 \<le> r" "r < dt_rows T" for r
  proof -
    have "tsv_row m (dt_columns T) r = concat (map (\<lambda>c. (if c \<noteq> 0 then [9] else []) @ cell_text T c r) [0..dt_columns T - 1])"
      using cell [OF that] by (auto simp: tsv_row_def intro!: arg_cong [of _ _ concat])
    then show ?thesis
      by (simp only: separated_join)
  qed
  then have rows: "map (tsv_row m (dt_columns T)) [0..dt_rows T - 1] =
      map (\<lambda>r. js_join [9] (map (\<lambda>c. cell_text T c r) [0..dt_columns T - 1])) [0..dt_rows T - 1]"
    by (intro map_cong) auto
  show ?thesis
    unfolding getTableDataTSV_def assms m(1) bind_result_simps separated_join rows by (rule refl)
qed

theorem table_text_is_rows_witness:
  "getTableDataTSV (\<lambda>_ _. table_values small_table) (new_TableDataCache\<lparr>tc_columns := 2, tc_rows := 3\<rparr>) =
    Inr ([48, 9, 58, LF] @ js ''NA'' @ [9] @ js ''NA'' @ [LF, 50, 9, 60])"
proof -
  have "js_join [LF] (map (\<lambda>r. js_join [9] (map (\<lambda>c. cell_text small_table c r) [0..dt_columns small_table - 1])) [0..dt_rows small_table - 1]) =
      [48, 9, 58, LF] @ js ''NA'' @ [9] @ js ''NA'' @ [LF, 50, 9, 60]"
    by code_simp
  then show ?thesis
    using table_text_is_rows [of "new_TableDataCache\<lparr>tc_columns := 2, tc_rows := 3\<rparr>" small_table] by (simp add: small_table_def)
qed

section \<open>The widths of columns\<close>

definition header_width :: "data_table \<Rightarrow> width_calculators \<Rightarrow> int \<Rightarrow> int \<Rightarrow> int \<Rightarrow> int" where
  "header_width T calc lo hi c = pinToRange (columnHeaderWidth calc (column_name (dt_schema T c)) (type_name (dt_schema T c))) lo hi"

definition value_width :: "width_calculators \<Rightarrow> int \<Rightarrow> int \<Rightarrow> data_value \<Rightarrow> int" where
  "value_width calc lo hi v = pinToRange (columnValueWidth calc (int (length (cell_formatted (cell_of v))))) lo hi"

text \<open>The largest of the widths of the header and of the first ten values.\<close>

definition column_width :: "data_table \<Rightarrow> width_calculators \<Rightarrow> int \<Rightarrow> int \<Rightarrow> int \<Rightarrow> int" where
  "column_width T calc lo hi c =
     fold (\<lambda>r. max (value_width calc lo hi (dt_value T c r))) [0..min 9 (dt_rows T - 1)] (header_width T calc lo hi c)"

lemma array_put_end: "array_put (int (length xs)) x xs = xs @ [Some x]"
  by (simp add: array_put_def nat_add_distrib)

lemma header_widths_page:
  "header_widths calc lo hi (int (length ws)) (map (dt_schema T) cs) ws = ws @ map (\<lambda>c. Some (header_width T calc lo hi c)) cs"
proof (induction cs rule: rev_induct)
  case (snoc c cs)
  let ?put = "\<lambda>cs i. array_put (int (length ws) + int i)
    (pinToRange (columnHeaderWidth calc (column_name (map (dt_schema T) cs ! i)) (type_name (map (dt_schema T) cs ! i))) lo hi)"
  have "fold (?put (cs @ [c])) [0..<length cs] ws = fold (?put cs) [0..<length cs] ws"
    by (rule fold_cong) (auto simp: nth_append)
  also have "\<dots> = ws @ map (\<lambda>c. Some (header_width T calc lo hi c)) cs"
    using snoc.IH by (simp add: header_widths_def)
  finally show ?case
    using array_put_end [of "ws @ map (\<lambda>c. Some (header_width T calc lo hi c)) cs"]
    by (simp add: header_widths_def header_width_def nth_append)
qed (simp add: header_widths_def)

lemma widen_column:
  "fold (\<lambda>v. widen (int (length pre)) (value_width calc lo hi v)) vs (pre @ Some old # post) =
     pre @ Some (fold (\<lambda>v. max (value_width calc lo hi v)) vs old) # post"
proof (induction vs arbitrary: old)
  case (Cons v vs)
  have "js_get (pre @ Some old # post) (int (length pre)) = Some (Some old)"
    by (simp add: js_get_def)
  moreover have "array_put (int (length pre)) x (pre @ Some old # post) = pre @ Some x # post" for x
    by (simp add: array_put_def)
  ultimately show ?case
    using Cons.IH by (simp add: widen_def max_def)
qed simp

lemma value_widths_page:
  "length hs = length vss \<Longrightarrow>
     value_widths calc lo hi (int (length ws)) vss (ws @ map Some hs @ post) =
     ws @ map2 (\<lambda>h vs. Some (fold (\<lambda>v. max (value_width calc lo hi v)) vs h)) hs vss @ post"
proof (induction vss arbitrary: hs post rule: rev_induct)
  case (snoc vs vss)
  then obtain hs' h where hs: "hs = hs' @ [h]" "length hs' = length vss"
    by (cases hs rule: rev_cases) auto
  let ?step = "\<lambda>vss c. fold (\<lambda>v. widen (int (length ws) + int c) (value_width calc lo hi v)) (vss ! c)"
  have "fold (?step (vss @ [vs])) [0..<length vss] (ws @ map Some hs' @ Some h # post) = fold (?step vss) [0..<length vss] (ws @ map Some hs' @ Some h # post)"
    by (rule fold_cong) (auto simp: nth_append)
  also have "\<dots> = ws @ map2 (\<lambda>h vs. Some (fold (\<lambda>v. max (value_width calc lo hi v)) vs h)) hs' vss @ Some h # post"
    using snoc.IH [OF hs(2), of "Some h # post"] by (simp add: value_widths_def value_width_def)
  finally show ?case
    using widen_column [of "ws @ map2 (\<lambda>h vs. Some (fold (\<lambda>v. max (value_width calc lo hi v)) vs h)) hs' vss" calc lo hi vs h post] hs
    by (simp add: value_widths_def value_width_def)
qed (simp add: value_widths_def)

lemma width_page:
  assumes "0 \<le> i" and "i \<le> j"
    and page: "page = [i..j - 1]" and ws: "ws = map (\<lambda>c. Some (column_width T calc lo hi c)) [0..i - 1]"
  shows "value_widths calc lo hi i (table_values T (map (\<lambda>c. \<lparr>column_index = c, spec = SelectRange 0 9\<rparr>) page))
      (header_widths calc lo hi i (map (dt_schema T) page) ws) = map (\<lambda>c. Some (column_width T calc lo hi c)) [0..j - 1]"
proof -
  have len: "int (length ws) = i"
    using assms(1) by (simp add: ws)
  have "map2 (\<lambda>h vs. Some (fold (\<lambda>v. max (value_width calc lo hi v)) vs h)) (map (header_width T calc lo hi) page)
      (table_values T (map (\<lambda>c. \<lparr>column_index = c, spec = SelectRange 0 9\<rparr>) page)) = map (\<lambda>c. Some (column_width T calc lo hi c)) page"
    by (induction page) (simp_all add: table_values_def selected_rows_def column_width_def fold_map comp_def)
  moreover have "[0..j - 1] = [0..i - 1] @ page"
    using assms(1,2) upto_split1 [of 0 i "j - 1"] by (cases "i = j") (simp_all add: page)
  ultimately show ?thesis
    using header_widths_page [of calc lo hi ws T page]
      value_widths_page [of "map (header_width T calc lo hi) page" "table_values T (map (\<lambda>c. \<lparr>column_index = c, spec = SelectRange 0 9\<rparr>) page)" calc lo hi ws "[]"]
    by (simp add: len table_values_def comp_def) (simp add: ws)
qed

lemma width_pages_spec:
  "0 \<le> i \<Longrightarrow> i \<le> n \<Longrightarrow>
     width_pages calc lo hi (map (dt_schema T)) (table_values T) n i (map (\<lambda>c. Some (column_width T calc lo hi c)) [0..i - 1]) =
     map (\<lambda>c. Some (column_width T calc lo hi c)) [0..n - 1]"
proof (induction "nat (n - i)" arbitrary: i rule: less_induct)
  case less
  show ?case
  proof (cases "i < n")
    case True
    let ?j = "i + min 250 (n - i)"
    have "width_pages calc lo hi (map (dt_schema T)) (table_values T) n i (map (\<lambda>c. Some (column_width T calc lo hi c)) [0..i - 1]) =
        width_pages calc lo hi (map (dt_schema T)) (table_values T) n ?j (map (\<lambda>c. Some (column_width T calc lo hi c)) [0..?j - 1])"
      using width_page [OF _ _ refl refl, of i ?j calc lo hi T] True less.prems by (subst width_pages.simps) (simp add: Let_def)
    also have "\<dots> = map (\<lambda>c. Some (column_width T calc lo hi c)) [0..n - 1]"
      using True less.prems by (intro less.hyps) auto
    finally show ?thesis .
  next
    case False
    with less.prems show ?thesis
      by (subst width_pages.simps) simp
  qed
qed



end
