(* ===== verification/Summary_Cache.thy ===== *)
theory Summary_Cache
  imports Table_Cache "HOL-Library.AList"
begin

text \<open>
  The cache of column summaries of the data explorer: the class \<open>TableSummaryCache\<close> of
  \<open>src/vs/workbench/services/positronDataExplorer/common/tableSummaryCache.ts\<close>. Several of its asynchronous methods may run at
  once: \<open>sm_tasks\<close> lists them, each with its local variables at the await where it stands, and \<open>sm_answer\<close> goes on with one of them.
  A column profile is what the runtime answers, a type parameter. The features that the client supports and the configuration
  are a parameter. The map of profiles is an association list in its order of insertion.
\<close>

datatype column_display_type =
  DisplayNumber | DisplayBoolean | DisplayString | DisplayDate | DisplayDatetime | DisplayTime | DisplayObject | DisplayArray | DisplayStruct | DisplayUnknown

section \<open>Supported features\<close>

datatype profile_type = NullCountType | SummaryStatsType | SmallFrequencyTableType | LargeFrequencyTableType | SmallHistogramType | LargeHistogramType

datatype support_status = Unsupported | Supported | Experimental

record explorer_features =
  supported_types :: "(profile_type \<times> support_status) list"
  experimental_enabled :: bool

definition dataExplorerExperimentalFeatureEnabled :: "support_status \<Rightarrow> explorer_features \<Rightarrow> bool" where
  "dataExplorerExperimentalFeatureEnabled status f =
     (if status = Supported then True else if status = Experimental then experimental_enabled f else False)"

definition isHistogramSupported :: "explorer_features \<Rightarrow> bool" where
  "isHistogramSupported f =
     (case find (\<lambda>p. fst p = SmallHistogramType) (supported_types f) of
        None \<Rightarrow> False | Some p \<Rightarrow> dataExplorerExperimentalFeatureEnabled (snd p) f)"

definition isFrequencyTableSupported :: "explorer_features \<Rightarrow> bool" where
  "isFrequencyTableSupported f =
     (case find (\<lambda>p. fst p = SmallFrequencyTableType) (supported_types f) of
        None \<Rightarrow> False | Some p \<Rightarrow> dataExplorerExperimentalFeatureEnabled (snd p) f)"

section \<open>The cache\<close>

text \<open>Histograms are requested with the method of Freedman and Diaconis and a number of bins, frequency tables with a limit.\<close>

datatype profile_spec =
    NullCount
  | SummaryStats
  | SmallHistogram int
  | LargeHistogram int
  | SmallFrequencyTable int
  | LargeFrequencyTable int

type_synonym profile_request = "int option \<times> profile_spec list"

record summary_update =
  su_invalidateCache :: bool
  su_firstColumnIndex :: int
  su_screenColumns :: int

text \<open>What follows when the profiles have come: nothing, or the end of an update of a window of columns.\<close>

datatype summary_continuation = NoMore | EndUpdate bool int int

datatype summary_task =
    UpdateState summary_update
  | UpdateSchema summary_update int int "int list"
  | RefreshState
  | ProfileState summary_continuation "int option list" "profile_request list"
  | ProfileResults summary_continuation "int option list" "profile_request list" "int option list" "profile_request list"

record 'p summary_cache =
  sm_updating :: bool
  sm_pending :: "summary_update option"
  sm_trim :: "(int \<times> int) option"
  sm_columns :: int
  sm_rows :: int
  sm_expanded :: "int list"
  sm_schemas :: "int option \<rightharpoonup> column_display_type"
  sm_profiles :: "(int option \<times> 'p) list"
  sm_fired :: nat
  sm_tasks :: "summary_task list"

definition new_TableSummaryCache :: "'p summary_cache" where
  "new_TableSummaryCache =
     \<lparr>sm_updating = False, sm_pending = None, sm_trim = None, sm_columns = 0, sm_rows = 0, sm_expanded = [], sm_schemas = Map.empty,
      sm_profiles = [], sm_fired = 0, sm_tasks = []\<rparr>"

definition isColumnExpanded :: "int \<Rightarrow> 'p summary_cache \<Rightarrow> bool" where
  "isColumnExpanded c s \<longleftrightarrow> c \<in> set (sm_expanded s)"

definition sm_fire :: "'p summary_cache \<Rightarrow> 'p summary_cache" where
  "sm_fire s = s\<lparr>sm_fired := Suc (sm_fired s)\<rparr>"

definition sm_start :: "summary_task \<Rightarrow> 'p summary_cache \<Rightarrow> 'p summary_cache" where
  "sm_start task s = s\<lparr>sm_tasks := sm_tasks s @ [task]\<rparr>"

definition sm_getColumnSchema :: "int \<Rightarrow> 'p summary_cache \<Rightarrow> column_display_type option" where
  "sm_getColumnSchema c s = sm_schemas s (Some c)"

definition getColumnProfile :: "int \<Rightarrow> 'p summary_cache \<Rightarrow> 'p option" where
  "getColumnProfile c s = map_of (sm_profiles s) (Some c)"

section \<open>Profiles\<close>

definition profile_specs :: "explorer_features \<Rightarrow> column_display_type option \<Rightarrow> bool \<Rightarrow> profile_spec list" where
  "profile_specs f type_display expanded =
     [NullCount] @ (if expanded then [SummaryStats] else []) @
     (case type_display of
        Some DisplayNumber \<Rightarrow>
          if isHistogramSupported f then [SmallHistogram 80] @ (if expanded then [LargeHistogram 200] else []) else []
      | Some DisplayBoolean \<Rightarrow> if isFrequencyTableSupported f then [SmallFrequencyTable 2] else []
      | Some DisplayString \<Rightarrow>
          if isFrequencyTableSupported f then [SmallFrequencyTable 8] @ (if expanded then [LargeFrequencyTable 16] else []) else []
      | _ \<Rightarrow> [])"

definition profile_request :: "explorer_features \<Rightarrow> 'p summary_cache \<Rightarrow> int option \<Rightarrow> profile_request" where
  "profile_request f s k =
     (k, profile_specs f (sm_schemas s k) (case k of None \<Rightarrow> False | Some c \<Rightarrow> c \<in> set (sm_expanded s)))"

definition updateColumnProfileCache ::
    "explorer_features \<Rightarrow> summary_continuation \<Rightarrow> int option list \<Rightarrow> 'p summary_cache \<Rightarrow> 'p summary_cache" where
  "updateColumnProfileCache f cont columnIndices s = sm_start (ProfileState cont columnIndices (map (profile_request f s) columnIndices)) s"

text \<open>A result that was not asked for is stored under \<open>undefined\<close>.\<close>

fun store_profiles :: "int option list \<Rightarrow> 'p list \<Rightarrow> (int option \<times> 'p) list \<Rightarrow> (int option \<times> 'p) list" where
  "store_profiles ks [] m = m"
| "store_profiles (k # ks) (p # ps) m = store_profiles ks ps (AList.update k p m)"
| "store_profiles [] (p # ps) m = store_profiles [] ps (AList.update None p m)"

abbreviation (input) BATCHING_THRESHOLD :: int where
  "BATCHING_THRESHOLD \<equiv> 5000000"

abbreviation (input) BATCH_SIZE :: nat where
  "BATCH_SIZE \<equiv> 4"

section \<open>Updates\<close>

definition sm_clearTrimCacheTimeout :: "'p summary_cache \<Rightarrow> 'p summary_cache" where
  "sm_clearTrimCacheTimeout s = s\<lparr>sm_trim := None\<rparr>"

definition sm_update :: "summary_update \<Rightarrow> 'p summary_cache \<Rightarrow> 'p summary_cache" where
  "sm_update ud s =
     (let s = sm_clearTrimCacheTimeout s
      in if sm_updating s then s\<lparr>sm_pending := Some ud\<rparr>
         else sm_start (UpdateState ud) (s\<lparr>sm_updating := True\<rparr>))"

definition end_update :: "bool \<Rightarrow> int \<Rightarrow> int \<Rightarrow> 'p summary_cache \<Rightarrow> 'p summary_cache" where
  "end_update invalidate startColumn endColumn s =
     (let s = s\<lparr>sm_updating := False\<rparr>
      in case sm_pending s of
           Some pending \<Rightarrow> sm_update pending (s\<lparr>sm_pending := None\<rparr>)
         | None \<Rightarrow> if \<not> invalidate then s\<lparr>sm_trim := Some (startColumn, endColumn)\<rparr> else s)"

fun sm_continue :: "summary_continuation \<Rightarrow> 'p summary_cache \<Rightarrow> 'p summary_cache" where
  "sm_continue NoMore s = s"
| "sm_continue (EndUpdate invalidate startColumn endColumn) s = end_update invalidate startColumn endColumn s"

text \<open>The loop over batches: the next request, or the end.\<close>

definition next_batch ::
    "summary_continuation \<Rightarrow> int option list \<Rightarrow> profile_request list \<Rightarrow> 'p summary_cache \<Rightarrow> 'p summary_cache" where
  "next_batch cont ks requests s =
     (if ks = [] then sm_continue cont s
      else sm_start (ProfileResults cont (take BATCH_SIZE ks) (take BATCH_SIZE requests) (drop BATCH_SIZE ks) (drop BATCH_SIZE requests)) s)"

definition sm_gotState :: "summary_update \<Rightarrow> int \<Rightarrow> int \<Rightarrow> 'p summary_cache \<Rightarrow> 'p summary_cache" where
  "sm_gotState ud columns rows s =
     (let s = s\<lparr>sm_columns := columns, sm_rows := rows\<rparr>;
          startColumn = start_index (su_firstColumnIndex ud) (su_screenColumns ud);
          endColumn = end_index (sm_columns s) (su_firstColumnIndex ud) (su_screenColumns ud);
          columnIndices = (if su_invalidateCache ud then arrayFromIndexRange startColumn endColumn
            else filter (\<lambda>c. sm_schemas s (Some c) = None) [startColumn..endColumn])
      in sm_start (UpdateSchema ud startColumn endColumn columnIndices) s)"

fun store_types :: "int list \<Rightarrow> int \<Rightarrow> column_display_type list \<Rightarrow> (int option \<rightharpoonup> column_display_type) \<Rightarrow> (int option \<rightharpoonup> column_display_type)" where
  "store_types columnIndices i [] m = m"
| "store_types columnIndices i (c # cs) m = store_types columnIndices (i + 1) cs (m(js_get columnIndices i \<mapsto> c))"

definition sm_gotSchema ::
    "explorer_features \<Rightarrow> summary_update \<Rightarrow> int \<Rightarrow> int \<Rightarrow> int list \<Rightarrow> column_display_type list \<Rightarrow> 'p summary_cache \<Rightarrow> 'p summary_cache" where
  "sm_gotSchema f ud startColumn endColumn columnIndices columns s =
     (let s = (if su_invalidateCache ud then s\<lparr>sm_schemas := Map.empty, sm_profiles := []\<rparr> else s);
          s = sm_fire (s\<lparr>sm_schemas := store_types columnIndices 0 columns (sm_schemas s)\<rparr>)
      in updateColumnProfileCache f (EndUpdate (su_invalidateCache ud) startColumn endColumn) (map Some columnIndices) s)"

text \<open>The keys of the profiles, sorted: \<open>sort\<close> puts \<open>undefined\<close> last.\<close>

definition profile_keys :: "'p summary_cache \<Rightarrow> int option list" where
  "profile_keys s =
     (let ks = map fst (sm_profiles s) in map Some (sort (List.map_filter (\<lambda>k. k) ks)) @ filter (\<lambda>k. k = None) ks)"

definition toggleExpandColumn :: "explorer_features \<Rightarrow> int \<Rightarrow> 'p summary_cache \<Rightarrow> 'p summary_cache" where
  "toggleExpandColumn f c s =
     (if c \<in> set (sm_expanded s) then sm_fire (s\<lparr>sm_expanded := removeAll c (sm_expanded s)\<rparr>)
      else updateColumnProfileCache f NoMore [Some c] (sm_fire (s\<lparr>sm_expanded := sm_expanded s @ [c]\<rparr>)))"

definition refreshColumnProfiles :: "'p summary_cache \<Rightarrow> 'p summary_cache" where
  "refreshColumnProfiles s = sm_start RefreshState s"

datatype 'p summary_answer =
    SummaryState int int
  | SummarySchema "column_display_type list"
  | SummaryProfiles "'p list"
  | SummaryRejected

definition go_on :: "explorer_features \<Rightarrow> summary_task \<Rightarrow> 'p summary_answer \<Rightarrow> 'p summary_cache \<Rightarrow> 'p summary_cache" where
  "go_on f task answer s =
     (case (task, answer) of
        (UpdateState ud, SummaryState columns rows) \<Rightarrow> sm_gotState ud columns rows s
      | (UpdateSchema ud a b is, SummarySchema columns) \<Rightarrow> sm_gotSchema f ud a b is columns s
      | (RefreshState, SummaryState columns rows) \<Rightarrow>
          (let s = s\<lparr>sm_columns := columns, sm_rows := rows\<rparr> in updateColumnProfileCache f NoMore (profile_keys s) s)
      | (ProfileState cont ks requests, SummaryState columns rows) \<Rightarrow>
          if rows > BATCHING_THRESHOLD then next_batch cont ks requests s
          else sm_start (ProfileResults cont ks requests [] []) s
      | (ProfileResults cont ks requests moreKeys moreRequests, SummaryProfiles ps) \<Rightarrow>
          next_batch cont moreKeys moreRequests (sm_fire (s\<lparr>sm_profiles := store_profiles ks ps (sm_profiles s)\<rparr>))
      | _ \<Rightarrow> s)"

text \<open>The answer for task \<open>k\<close>. A task that is rejected, or answered with something else, ends where it stands.\<close>

definition sm_answer :: "explorer_features \<Rightarrow> nat \<Rightarrow> 'p summary_answer \<Rightarrow> 'p summary_cache \<Rightarrow> 'p summary_cache" where
  "sm_answer f k answer s =
     (if k < length (sm_tasks s)
      then go_on f (sm_tasks s ! k) answer (s\<lparr>sm_tasks := take k (sm_tasks s) @ drop (Suc k) (sm_tasks s)\<rparr>)
      else s)"

section \<open>Trimming\<close>

definition trimCache :: "int \<Rightarrow> int \<Rightarrow> 'p summary_cache \<Rightarrow> 'p summary_cache" where
  "trimCache startColumn endColumn s =
     s\<lparr>sm_schemas := (\<lambda>k. if outside startColumn endColumn k then None else sm_schemas s k),
       sm_profiles := filter (\<lambda>p. \<not> outside startColumn endColumn (fst p)) (sm_profiles s)\<rparr>"

definition sm_trimTimeout :: "'p summary_cache \<Rightarrow> 'p summary_cache" where
  "sm_trimTimeout s =
     (case sm_trim s of None \<Rightarrow> s | Some (startColumn, endColumn) \<Rightarrow> trimCache startColumn endColumn (s\<lparr>sm_trim := None\<rparr>))"

end
