(* ===== verification/Summary_Laws.thy ===== *)
theory Summary_Laws
  imports Summary_Cache
begin

text \<open>
  Laws of the summary cache: updates never overlap, whatever else runs, and cutting the requests for profiles into batches
  makes no difference to what is cached.
\<close>

section \<open>Updates do not overlap\<close>

text \<open>The tasks that belong to an update.\<close>

fun belongs_to :: "summary_continuation \<Rightarrow> bool" where
  "belongs_to NoMore = False"
| "belongs_to (EndUpdate invalidate a b) = True"

fun update_task :: "summary_task \<Rightarrow> bool" where
  "update_task (UpdateState ud) = True"
| "update_task (UpdateSchema ud a b is) = True"
| "update_task RefreshState = False"
| "update_task (ProfileState cont ks requests) = belongs_to cont"
| "update_task (ProfileResults cont ks requests moreKeys moreRequests) = belongs_to cont"

definition updates_running :: "'p summary_cache \<Rightarrow> nat" where
  "updates_running s = length (filter update_task (sm_tasks s))"

datatype 'p summary_action =
    Update summary_update
  | Toggle int
  | Refresh
  | TaskAnswer nat "'p summary_answer"
  | Trim

definition summary_step :: "explorer_features \<Rightarrow> 'p summary_action \<Rightarrow> 'p summary_cache \<Rightarrow> 'p summary_cache" where
  "summary_step f a s =
     (case a of
        Update ud \<Rightarrow> sm_update ud s
      | Toggle c \<Rightarrow> toggleExpandColumn f c s
      | Refresh \<Rightarrow> refreshColumnProfiles s
      | TaskAnswer k answer \<Rightarrow> sm_answer f k answer s
      | Trim \<Rightarrow> sm_trimTimeout s)"

definition one_update :: "'p summary_cache \<Rightarrow> bool" where
  "one_update s \<longleftrightarrow> updates_running s \<le> of_bool (sm_updating s) \<and> (sm_trim s \<noteq> None \<longrightarrow> \<not> sm_updating s) \<and> (sm_pending s \<noteq> None \<longrightarrow> sm_updating s)"

lemma updates_start: "updates_running (sm_start task s) = updates_running s + of_bool (update_task task)"
  by (simp add: updates_running_def sm_start_def)

lemma start_fields [simp]:
  "sm_updating (sm_start task s) = sm_updating s" "sm_trim (sm_start task s) = sm_trim s" "sm_pending (sm_start task s) = sm_pending s"
  by (simp_all add: sm_start_def)

lemma one_update_call: "one_update s \<Longrightarrow> one_update (sm_update ud s)"
  by (auto simp: one_update_def sm_update_def sm_clearTrimCacheTimeout_def Let_def updates_start) (simp_all add: updates_running_def)

text \<open>Going on with a task that was removed from the list.\<close>

definition removed :: "summary_task \<Rightarrow> 'p summary_cache \<Rightarrow> bool" where
  "removed task s \<longleftrightarrow> updates_running s + of_bool (update_task task) \<le> of_bool (sm_updating s) \<and>
     (sm_trim s \<noteq> None \<longrightarrow> \<not> sm_updating s) \<and> (sm_pending s \<noteq> None \<longrightarrow> sm_updating s)"

lemma one_update_start: "removed task s \<Longrightarrow> update_task task' = update_task task \<Longrightarrow> one_update (sm_start task' s)"
  by (simp add: removed_def one_update_def updates_start)

lemma removed_cong:
  "sm_tasks s' = sm_tasks s \<Longrightarrow> sm_updating s' = sm_updating s \<Longrightarrow> sm_trim s' = sm_trim s \<Longrightarrow> sm_pending s' = sm_pending s \<Longrightarrow>
     removed task s' = removed task s"
  by (simp add: removed_def updates_running_def)

lemma one_update_continue: "removed (ProfileState cont ks requests) s \<Longrightarrow> one_update (sm_continue cont s)"
proof (cases cont)
  case (EndUpdate invalidate a b)
  assume "removed (ProfileState cont ks requests) s"
  then have s: "sm_updating s" "updates_running s = 0" "sm_trim s = None"
    by (cases "sm_trim s"; cases "sm_updating s"; simp add: removed_def EndUpdate)+
  have "one_update (s\<lparr>sm_updating := False, sm_pending := None\<rparr>)"
    using s by (simp add: one_update_def updates_running_def)
  then have "one_update (sm_update p (s\<lparr>sm_updating := False, sm_pending := None\<rparr>))" for p
    by (rule one_update_call)
  moreover have "one_update (s\<lparr>sm_updating := False, sm_trim := tr\<rparr>)" if "sm_pending s = None" for tr
    using s that by (simp add: one_update_def updates_running_def)
  moreover have "one_update (s\<lparr>sm_updating := False\<rparr>)" if "sm_pending s = None"
    using s that by (simp add: one_update_def updates_running_def)
  ultimately show ?thesis
    by (cases "sm_pending s") (simp_all add: EndUpdate end_update_def Let_def)
qed (simp add: removed_def one_update_def)

lemma one_update_next: "removed (ProfileState cont ks requests) s \<Longrightarrow> one_update (next_batch cont ks' requests' s)"
  using one_update_continue [of cont ks requests s] one_update_start [of "ProfileState cont ks requests" s] by (auto simp: next_batch_def)

lemma one_update_profiles: "removed task s \<Longrightarrow> update_task task = belongs_to cont \<Longrightarrow> one_update (updateColumnProfileCache f cont ks s)"
  by (auto simp: updateColumnProfileCache_def intro: one_update_start)

lemma one_update_go_on:
  assumes "removed task s"
  shows "one_update (go_on f task answer s)"
proof -
  have idle: "one_update s"
    using assms by (simp add: removed_def one_update_def)
  show ?thesis
  proof (cases task)
    case (UpdateState ud)
    have "removed task (s\<lparr>sm_columns := c, sm_rows := r\<rparr>)" for c r
      using assms removed_cong [of "s\<lparr>sm_columns := c, sm_rows := r\<rparr>" s] by simp
    then show ?thesis
      using idle by (cases answer) (auto simp: go_on_def UpdateState sm_gotState_def Let_def intro!: one_update_start [of task])
  next
    case (UpdateSchema ud a b "is")
    have "removed task (sm_fire (s\<lparr>sm_profiles := ps, sm_schemas := m\<rparr>))" "removed task (sm_fire (s\<lparr>sm_schemas := m\<rparr>))" for m ps
      using assms removed_cong [of "sm_fire (s\<lparr>sm_profiles := ps, sm_schemas := m\<rparr>)" s] removed_cong [of "sm_fire (s\<lparr>sm_schemas := m\<rparr>)" s]
      by (simp_all add: sm_fire_def)
    then show ?thesis
      using idle by (cases answer) (auto simp: go_on_def UpdateSchema sm_gotSchema_def Let_def intro!: one_update_profiles [of task])
  next
    case RefreshState
    have "removed task (s\<lparr>sm_columns := c, sm_rows := r\<rparr>)" for c r
      using assms removed_cong [of "s\<lparr>sm_columns := c, sm_rows := r\<rparr>" s] by simp
    then show ?thesis
      using idle by (cases answer) (auto simp: go_on_def RefreshState Let_def intro!: one_update_profiles [of task])
  next
    case (ProfileState cont ks requests)
    then show ?thesis
      using idle assms one_update_start [of task s] one_update_next [of cont ks requests s]
      by (cases answer) (auto simp: go_on_def)
  next
    case (ProfileResults cont ks requests moreKeys moreRequests)
    then have "removed (ProfileState cont ks requests) s"
      using assms by (simp add: removed_def)
    then have "removed (ProfileState cont ks requests) (sm_fire (s\<lparr>sm_profiles := ps\<rparr>))" for ps
      using removed_cong [of "sm_fire (s\<lparr>sm_profiles := ps\<rparr>)" s "ProfileState cont ks requests"] by (simp add: sm_fire_def)
    then show ?thesis
      using idle by (cases answer) (auto simp: go_on_def ProfileResults intro!: one_update_next)
  qed
qed

lemma one_update_answer:
  assumes "one_update s"
  shows "one_update (sm_answer f k answer s)"
proof (cases "k < length (sm_tasks s)")
  case True
  let ?s = "s\<lparr>sm_tasks := take k (sm_tasks s) @ drop (Suc k) (sm_tasks s)\<rparr>"
  have "length (filter update_task (sm_tasks s)) = length (filter update_task (take k (sm_tasks s) @ drop (Suc k) (sm_tasks s))) +
      of_bool (update_task (sm_tasks s ! k))"
    by (subst id_take_nth_drop [OF True]) simp
  then have "removed (sm_tasks s ! k) ?s"
    using assms by (simp add: removed_def one_update_def updates_running_def)
  then show ?thesis
    using one_update_go_on True by (simp add: sm_answer_def)
qed (use assms in \<open>simp add: sm_answer_def\<close>)

lemma one_update_step: "one_update s \<Longrightarrow> one_update (summary_step f a s)"
proof (cases a)
  case (Toggle c)
  assume "one_update s"
  then show ?thesis
    by (auto simp: Toggle summary_step_def toggleExpandColumn_def updateColumnProfileCache_def one_update_def updates_start sm_fire_def)
      (simp_all add: updates_running_def)
next
  case Refresh
  assume "one_update s"
  then show ?thesis
    by (simp add: Refresh summary_step_def refreshColumnProfiles_def one_update_def updates_start)
next
  case Trim
  assume "one_update s"
  then show ?thesis
    by (auto simp: Trim summary_step_def sm_trimTimeout_def trimCache_def one_update_def updates_running_def split: option.splits)
qed (simp_all add: summary_step_def one_update_call one_update_answer)

text \<open>
  updates of the summary cache do not overlap. Whatever is called in whatever order, and however the answers of the client arrive or fail to,
  at most one of the running tasks belongs to an update, and only while the flag is set; the timeout of trimming waits only while
  no update runs, and an update is pending only while one runs.
\<close>

theorem summary_updates_do_not_overlap:
  fixes acts :: "'p summary_action list"
  shows "let s = fold (summary_step f) acts new_TableSummaryCache in
    updates_running s \<le> 1 \<and> (updates_running s = 1 \<longrightarrow> sm_updating s) \<and>
    (sm_trim s \<noteq> None \<longrightarrow> \<not> sm_updating s) \<and> (sm_pending s \<noteq> None \<longrightarrow> sm_updating s)"
proof -
  have keeps: "one_update (fold (summary_step f) acts s)" if "one_update s" for s :: "'p summary_cache"
    using that by (induction acts arbitrary: s) (simp_all add: one_update_step)
  define s where "s = fold (summary_step f) acts (new_TableSummaryCache :: 'p summary_cache)"
  have "one_update s"
    unfolding s_def by (rule keeps) (simp add: new_TableSummaryCache_def one_update_def updates_running_def)
  then show ?thesis
    unfolding s_def [symmetric] Let_def by (cases "sm_updating s") (auto simp: one_update_def)
qed

section \<open>Batches\<close>

text \<open>Answers for the first task: the client answers every request with the profile of the column.\<close>

fun profile_answer :: "(profile_request \<Rightarrow> 'p) \<Rightarrow> int \<Rightarrow> int \<Rightarrow> summary_task \<Rightarrow> 'p summary_answer" where
  "profile_answer P columns rows (ProfileResults cont ks requests moreKeys moreRequests) = SummaryProfiles (map P requests)"
| "profile_answer P columns rows task = SummaryState columns rows"

fun drain :: "explorer_features \<Rightarrow> (profile_request \<Rightarrow> 'p) \<Rightarrow> int \<Rightarrow> int \<Rightarrow> nat \<Rightarrow> 'p summary_cache \<Rightarrow> 'p summary_cache" where
  "drain f P columns rows 0 s = s"
| "drain f P columns rows (Suc n) s =
     (if sm_tasks s = [] then s
      else drain f P columns rows n (sm_answer f 0 (profile_answer P columns rows (hd (sm_tasks s))) s))"

lemma store_profiles_append:
  "length ps = length ks \<Longrightarrow> store_profiles (ks @ ks') (ps @ ps') m = store_profiles ks' ps' (store_profiles ks ps m)"
  by (induction ks ps arbitrary: m rule: list_induct2') auto

lemma answer_only_task: "sm_tasks s = [] \<Longrightarrow> sm_answer f 0 answer (sm_start task s) = go_on f task answer s"
  by (cases s) (simp add: sm_answer_def sm_start_def)

lemma drain_task:
  "sm_tasks s = [] \<Longrightarrow>
     drain f P columns rows (Suc n) (sm_start task s) = drain f P columns rows n (go_on f task (profile_answer P columns rows task) s)"
  by (simp add: answer_only_task) (simp add: sm_start_def)

lemma drain_batches:
  "sm_tasks s = [] \<Longrightarrow> length requests = length ks \<Longrightarrow> length ks \<le> n \<Longrightarrow>
     sm_tasks (drain f P columns rows n (next_batch NoMore ks requests s)) = [] \<and>
     sm_profiles (drain f P columns rows n (next_batch NoMore ks requests s)) = store_profiles ks (map P requests) (sm_profiles s)"
proof (induction "length ks" arbitrary: ks requests s n rule: less_induct)
  case less
  show ?case
  proof (cases "ks = []")
    case True
    then show ?thesis
      using less.prems by (cases n) (simp_all add: next_batch_def)
  next
    case False
    then obtain k where n: "n = Suc k" "length (drop 4 ks) \<le> k"
      using less.prems(3) by (cases n; cases ks) auto
    define s' where "s' = sm_fire (s\<lparr>sm_profiles := store_profiles (take 4 ks) (map P (take 4 requests)) (sm_profiles s)\<rparr>)"
    have "drain f P columns rows n (next_batch NoMore ks requests s) =
        drain f P columns rows k (next_batch NoMore (drop 4 ks) (drop 4 requests) s')"
      using False less.prems(1) by (simp add: n next_batch_def [of NoMore ks] drain_task go_on_def s'_def del: drain.simps(2))
    moreover have "sm_tasks s' = []" "length (drop 4 ks) < length ks"
      using False less.prems(1) by (simp_all add: s'_def sm_fire_def)
    moreover have "store_profiles (drop 4 ks) (map P (drop 4 requests)) (sm_profiles s') = store_profiles ks (map P requests) (sm_profiles s)"
      using store_profiles_append [of "map P (take 4 requests)" "take 4 ks" "drop 4 ks" "map P (drop 4 requests)" "sm_profiles s"] less.prems(2)
      by (simp add: s'_def sm_fire_def flip: map_append)
    ultimately show ?thesis
      using less.hyps [of "drop 4 ks" s' "drop 4 requests" k] less.prems(2) n(2) by simp
  qed
qed

text \<open>
  C19: batches make no difference. Whether the table has so many rows that profiles are asked for in batches of four or not, the
  answers of the client to a request for the profiles of some columns end after at most two more answers than there are columns, and
  leave the same profiles in the cache: those of the columns, each stored under its own index.
\<close>

theorem batches_make_no_difference:
  assumes "sm_tasks s = []"
  shows "let s' = drain f P columns rows (length ks + 2) (updateColumnProfileCache f NoMore ks s) in
    sm_tasks s' = [] \<and> sm_profiles s' = store_profiles ks (map (\<lambda>k. P (profile_request f s k)) ks) (sm_profiles s)"
proof -
  let ?requests = "map (profile_request f s) ks"
  have first: "drain f P columns rows (length ks + 2) (updateColumnProfileCache f NoMore ks s) =
      drain f P columns rows (Suc (length ks))
        (if rows > 5000000 then next_batch NoMore ks ?requests s else sm_start (ProfileResults NoMore ks ?requests [] []) s)"
    using assms by (simp add: updateColumnProfileCache_def drain_task go_on_def numeral_2_eq_2 del: drain.simps(2))
  show ?thesis
  proof (cases "rows > 5000000")
    case True
    then show ?thesis
      unfolding first using drain_batches [OF assms, of ?requests ks "Suc (length ks)" f P columns rows] by (simp add: Let_def comp_def)
  next
    case False
    have "drain f P columns rows (Suc (length ks)) (sm_start (ProfileResults NoMore ks ?requests [] []) s) =
        drain f P columns rows (length ks) (sm_fire (s\<lparr>sm_profiles := store_profiles ks (map P ?requests) (sm_profiles s)\<rparr>))"
      using assms by (simp add: drain_task go_on_def next_batch_def del: drain.simps(2))
    also have "\<dots> = sm_fire (s\<lparr>sm_profiles := store_profiles ks (map P ?requests) (sm_profiles s)\<rparr>)"
      using assms by (cases "length ks") (simp_all add: sm_fire_def)
    finally show ?thesis
      unfolding first using False assms by (simp add: Let_def sm_fire_def comp_def)
  qed
qed

definition no_features :: explorer_features where
  "no_features = \<lparr>supported_types = [], experimental_enabled = False\<rparr>"

theorem batches_make_no_difference_witness:
  "sm_profiles (drain no_features fst 6 6000000 7 (updateColumnProfileCache no_features NoMore (map Some [1, 2, 3, 4, 5]) new_TableSummaryCache)) =
    [(Some 1, Some 1), (Some 2, Some 2), (Some 3, Some 3), (Some 4, Some 4), (Some 5, Some 5)]"
proof -
  have "sm_tasks (new_TableSummaryCache :: int option summary_cache) = []"
    by (simp add: new_TableSummaryCache_def)
  from batches_make_no_difference [OF this, of no_features fst 6 6000000 "map Some [1, 2, 3, 4, 5]"] show ?thesis
    by (simp add: Let_def profile_request_def new_TableSummaryCache_def numeral_eq_Suc)
qed

section \<open>Lost invalidations\<close>

text \<open>
  as in the table cache, an update that invalidates the summaries and is overwritten while another one runs is lost: the profile from before the
  change is shown, here of a column that had the profile 1 and now has the profile 2.
\<close>

theorem summary_invalidation_lost:
  "(let ud = (\<lambda>invalidate. \<lparr>su_invalidateCache = invalidate, su_firstColumnIndex = 0, su_screenColumns = 1\<rparr>);
        answers = (\<lambda>p. [TaskAnswer 0 (SummaryState 1 10), TaskAnswer 0 (SummarySchema [DisplayDate]), TaskAnswer 0 (SummaryState 1 10),
          TaskAnswer 0 (SummaryProfiles [p :: int])]);
        none = [TaskAnswer 0 (SummaryState 1 10), TaskAnswer 0 (SummarySchema []), TaskAnswer 0 (SummaryState 1 10), TaskAnswer 0 (SummaryProfiles [])];
        s = fold (summary_step no_features) ([Update (ud True)] @ answers 1 @ [Update (ud False), Update (ud True), Update (ud False)] @ none @ none)
          new_TableSummaryCache
    in (sm_updating s, sm_tasks s, getColumnProfile 0 s)) = (False, [], Some 1)"
  by code_simp

end
