(* ===== verification/Spec2Isabelle.thy ===== *)
theory Spec2Isabelle
  imports Console_Service Throttled_Emitter Layout_Manager Notebook_Selection Line_Sets Offset_Transform Grid_Properties Prefix_Constant Text_Map Line_Text Table_Text Summary_Laws
begin

text \<open>
  A verification development for Positron, the data science IDE built on the sources of Visual Studio
  Code (\<open>src/vs\<close>).

  \<^bold>\<open>The program.\<close> Positron's workbench is made of services and views written in TypeScript. These parts of
  its core logic are modelled here:

  \<^item> The interpreter of console output, \<open>src/vs/base/common/ansiOutput.ts\<close>. A language runtime sends text
    with control sequences in chunks; the interpreter keeps a parser state, a cursor, the current
    styles and hyperlink, and lines made of styled runs.

  \<^item> The console, \<open>src/vs/workbench/services/positronConsole/browser\<close>. The streams of an execution each own
    an interpreter; an activity appends chunks to the last stream, splits them at newlines and replaces
    provisional inputs by real ones. A console instance owns the items, an index of the activities, the
    input that waits for the runtime and the state of the session; methods, events of the session and
    continuations of asynchronous calls act on it in any order. Its change events are throttled. The console
    service owns the instances, finds them by session and by language and routes events and code to them.

  \<^item> The grid of the data explorer, \<open>src/vs/workbench/browser/positronDataGrid/classes/dataGridInstance.tsx\<close>:
    cursor, scrolling, selection with the mouse and the keyboard, clipboard and sort keys. It owns two layout
    managers, \<open>src/vs/workbench/services/positronDataExplorer/common/layoutManager.ts\<close>, for the sizes of its
    columns and rows. What it shows comes from a cache, \<open>tableDataCache.ts\<close> beside it, that is filled window by window.

  \<^item> The core of the text editor, \<open>src/vs/editor/common/core\<close>: positions, ranges and selections; ranges of
    offsets and of lines with the sets that are kept as sorted arrays of them, searched with
    \<open>src/vs/base/common/arraysFind.ts\<close>; edits of a text by offsets, with composition, inversion and rebasing;
    edits of a text by positions, which a transformer translates to offsets, and edits by lines.

  \<^item> The selection of cells in a notebook,
    \<open>src/vs/workbench/services/positronNotebook/browser/selectionMachine.ts\<close>.

  \<^bold>\<open>The theories.\<close>

  \<^item> \<open>Js_Prelude\<close>: the parts of the JavaScript standard library that the sources use: strings as lists of
    code units, slicing, splicing, splitting, searching, number parsing and printing, the conversion to
    32 bits. Exceptions are left values of a result type.

  \<^item> \<open>Machine\<close>: runs of a step function that may throw over a sequence of events, with the contracts
    \<open>total_machine\<close> (a step never throws from a state that satisfies the invariant) and
    \<open>observed_machine\<close> (a part of the state evolves on its own).

  \<^item> \<open>Ansi_Sgr\<close>: the class \<open>SGRState\<close> and the interpretation of SGR parameters. The order in which a
    state's properties were created is kept, because equality of states is equality of their JSON texts.
    The lemmas give the invariant of the states, what equality means, that the code that swaps colours
    in place is the abstract reversal of a pair of colours, and the palette of indexed colours.

  \<^item> \<open>Ansi_Line\<close>: the classes \<open>Hyperlink\<close>, \<open>OutputRun\<close> and \<open>OutputLine\<close>. A line denotes its cells, and writing
    denotes overwriting cells; the lemmas say when the run bookkeeping achieves this and where it loses
    text.

  \<^item> \<open>Ansi_Output\<close>: the class \<open>ANSIOutput\<close>, the state machine over characters. No input makes it throw;
    its control state does not depend on chunking; plain text is shown line by line; hyperlink commands
    set and end the hyperlink.

  \<^item> \<open>Console_Activity\<close>: the activity items, their streams and \<open>RuntimeItemActivity\<close>. The locale
    \<open>stream_contract\<close> states what the container relies on; the streams meet it, and no output is lost.

  \<^item> \<open>Console_Items\<close>: the runtime items and the state of a console instance, with adding, trimming and
    clearing items; trimming keeps the newest entries. \<open>Console_Instance\<close>: its operations and the handlers of
    session events, asynchronous functions cut at their awaits. \<open>Console_Steps\<close>: all of them as one step
    relation with reachable states; pending lines are conserved and drained. \<open>Console_Safety\<close>: no reachable
    console throws, the index is consistent, and the findings about clearing and detaching. \<open>Console_Service\<close>:
    the service over a store of consoles; it never throws, its map of sessions is right, and events reach
    the console they are meant for.

  \<^item> \<open>Throttled_Emitter\<close>: the class \<open>ThrottledEmitter\<close> with explicit time; the latest event is delivered, the
    rate is bounded and the order kept.

  \<^item> \<open>Layout_Manager\<close>: the class \<open>LayoutManager\<close>, refined to a layout given by sums of sizes; the locale
    \<open>axis\<close> carries the correctness of the binary searches.

  \<^item> \<open>Data_Grid\<close> and \<open>Grid_Selection\<close>: the class \<open>DataGridInstance\<close>. Its state is the record \<open>data_grid\<close>; what it
    asks of subclasses and the events it fires are recorded. \<open>Grid_Laws\<close>: the view of a grid on which the invariant
    stands, and that the methods keep it. \<open>Grid_Runs\<close>: calls in any order, reachable grids and the sort keys as an
    ordered list. \<open>Grid_Properties\<close>: what is drawn as selected is what is copied, borders outline the selection,
    extending and taking it back, and scrolling a cell into view.

  \<^item> \<open>Table_Cache\<close>: the class \<open>TableDataCache\<close>, its asynchronous update cut at the awaits, with the client that talks to the
    runtime as a parameter. \<open>Table_Cache_Laws\<close>: what is cached is what the table says, and the window asked for last is
    shown in the end, however requests and answers interleave; an invalidation that is overwritten is lost. \<open>Table_Text\<close>:
    the table as text and the widths of its columns do not depend on chunks and pages.
    \<open>Summary_Cache\<close>: the class \<open>TableSummaryCache\<close>, whose asynchronous methods run next to each other as tasks.
    \<open>Summary_Laws\<close>: its updates do not overlap, batches make no difference, and invalidations are lost in the same way.

  \<^item> \<open>Editor_Range\<close>: the classes \<open>Position\<close>, \<open>Range\<close> and \<open>Selection\<close>. Ranges are closed intervals of a
    linear order; the locale \<open>comparator\<close> is the contract of the comparison functions.

  \<^item> \<open>Arrays_Find\<close>: the searches in arrays and \<open>MonotonousArray\<close>; the binary ones agree with linear ones.
    \<open>Range_List\<close>: what sorted lists of ranges have in common, in the locale \<open>range_type\<close>: the set of integers
    they cover, the normal form, that it is unique, and joining a range into it. \<open>Offset_Range\<close> and
    \<open>Line_Range\<close> model the two classes of ranges and their sets and interpret the locale; \<open>Line_Sets\<close> shows that
    the operations of line sets are those of sets of lines.

  \<^item> \<open>Offset_Edit\<close>: the classes \<open>OffsetEdit\<close> and \<open>SingleOffsetEdit\<close> and the function \<open>joinEdits\<close>.
    \<open>Offset_Edit_Laws\<close>: applying and normalising. \<open>Offset_Compose\<close>: the invariant the source states above
    \<open>joinEdits\<close>. \<open>Offset_Transform\<close>: inverses, rebasing with its convergence, and offsets carried through an
    edit.

  \<^item> \<open>Text_Position\<close>: the classes \<open>TextLength\<close> and \<open>PositionOffsetTransformer\<close>; lengths map concatenation to
    addition, and offsets and positions of a text are in bijection. \<open>Text_Edit\<close>: texts (\<open>AbstractText\<close> and its
    subclasses, one datatype) and the classes \<open>TextEdit\<close> and \<open>SingleTextEdit\<close>. \<open>Text_Content\<close>: the locale
    \<open>text_content\<close> is the contract of \<open>AbstractText\<close>, met by strings and by arrays of lines. \<open>Text_Edit_Laws\<close>: edits by
    positions refine edits by offsets; inverses, joining and normalising. \<open>Text_Map\<close>: carrying positions through an
    edit, right within lines and wrong over lines.

  \<^item> \<open>Line_Edit\<close>: the classes \<open>LineEdit\<close> and \<open>SingleLineEdit\<close>. \<open>Line_Edit_Laws\<close>: where lines go. \<open>Line_Text\<close>: edits by lines
    refine to edits by offsets; the locale \<open>lines_of_text\<close> relates a text, its lines and their offsets.

  \<^item> \<open>Prefix_Sums\<close>: the two classes of \<open>src/vs/editor/common/model/prefixSumComputer.ts\<close> that turn offsets into lines,
    one on arrays of 32 bit words that it brings up to date when asked, one with an index by sums. \<open>Prefix_Laws\<close>:
    whatever is cached, the sums are those of the list of values; the locale \<open>sums_index\<close> is the contract of
    \<open>getIndexOf\<close>, and the search takes logarithmically many rounds. \<open>Prefix_Constant\<close>: the two classes agree.

  \<^item> \<open>Notebook_Selection\<close>: the class \<open>SelectionStateMachine\<close>, with its calls to cells and observers
    recorded.

  \<^item> This theory: a property that spans the console and the interpreter.

  \<^bold>\<open>Choices.\<close> Numbers are unbounded integers, except where the code converts to 32 bits; no modelled
  operation computes fractions that reach a result. Every loop is a function with a termination proof; fuel
  occurs only in the bound on the rounds of the search of \<open>getIndexOf\<close>. Objects that the code shares and mutates are copied only where the header of the
  theory says why no operation can tell; the one loop that depends on aliasing,
  \<open>OutputRun.optimizeOutputRuns\<close>, is modelled on a list of runs updated in place and a list of
  references into it.

  \<^bold>\<open>Not modelled.\<close> Rendering (the React components), the extension host, the language runtimes, storage,
  and the identifiers that constructors draw at random. They draw, pass messages or run outside the workbench. The rest of Visual Studio Code (widgets, languages,
  extensions, settings) is outside the parts chosen above.
\<close>

section \<open>From the console to the screen\<close>

text \<open>
  The first chunk of a stream, when it is plain text, is shown as it is by the stream item that the
  console makes of it: reading the item's lines does not throw and gives the pieces between newlines.
\<close>

theorem plain_stream_shown:
  assumes "list_all is_plain out"
  shows "\<exists>ls st. stream_outputLines (newActivityItemStream kind i parent date out) = Inr (ls, st) \<and>
    st_waiting st = [] \<and>
    map line_text ls = (let ps = js_split LF out in if length ps > 1 \<and> last ps = [] then butlast ps else ps)"
proof -
  obtain ls where ls: "processOutput_static out = Inr ls"
    "map line_text ls = (let ps = js_split LF out in if length ps > 1 \<and> last ps = [] then butlast ps else ps)"
    using static_plain [OF assms] by blast
  obtain a where a: "processOutput out new_ANSIOutput = Inr a"
    using processOutput_ok [OF ansi_ok_new] by blast
  with ls(1) have "outputLines a = ls"
    using get_outputLines_flushed [OF a ansi_ok_new] by (simp add: processOutput_static_def)
  with a ls(2) show ?thesis
    using get_outputLines_flushed [OF a ansi_ok_new]
    by (simp add: stream_outputLines_def processActivityItemStreams_def newActivityItemStream_def)
qed

theorem plain_stream_shown_witness:
  "\<exists>ls st. stream_outputLines (newActivityItemStream OutputStream [] [] 0 (js ''a'' @ [LF] @ js ''b'')) = Inr (ls, st) \<and>
     st_waiting st = [] \<and> map line_text ls = [js ''a'', js ''b'']"
  using plain_stream_shown [of "js ''a'' @ [LF] @ js ''b''" OutputStream "[]" "[]" 0] by (simp add: is_plain_def)

end
